(* ===== verification/Prelude.thy ===== *)
theory Prelude
  imports Main "HOL-Library.Monad_Syntax" "HOL-Library.List_Lexorder" "HOL-Library.Char_ord"
begin

text \<open>
  What the components share: bounds-checked access to the growable arrays of the program,
  the comparison of C strings, signed characters, and the collections of simplification
  rules the component theories use.

  An access outside an array is undefined behaviour in the program. In the model it is the
  value \<open>None\<close>, so that a theorem which says that an operation returns \<open>Some\<close> also
  says that it never leaves its arrays.
\<close>

named_theorems arr_simps \<open>rules for bounds-checked array access\<close>
named_theorems wf_intros \<open>preservation of the well-formedness predicates\<close>

subsection \<open>Arrays with bounds\<close>

definition arr_get :: "'a list \<Rightarrow> int \<Rightarrow> 'a option" where
  "arr_get xs i = (if 0 \<le> i \<and> i < int (length xs) then Some (xs ! nat i) else None)"

definition arr_upd :: "'a list \<Rightarrow> int \<Rightarrow> ('a \<Rightarrow> 'a) \<Rightarrow> 'a list option" where
  "arr_upd xs i f =
     (if 0 \<le> i \<and> i < int (length xs) then Some (xs[nat i := f (xs ! nat i)]) else None)"

definition in_range :: "int \<Rightarrow> 'a list \<Rightarrow> bool" where
  "in_range i xs \<longleftrightarrow> 0 \<le> i \<and> i < int (length xs)"

lemma arr_get_in [arr_simps]: "in_range i xs \<Longrightarrow> arr_get xs i = Some (xs ! nat i)"
  by (simp add: arr_get_def in_range_def)

lemma arr_upd_in [arr_simps]: "in_range i xs \<Longrightarrow> arr_upd xs i f = Some (xs[nat i := f (xs ! nat i)])"
  by (simp add: arr_upd_def in_range_def)

lemma in_range_int [arr_simps]: "in_range (int n) xs \<longleftrightarrow> n < length xs"
  by (simp add: in_range_def)

lemma in_range_nat_lt: "in_range i xs \<Longrightarrow> nat i < length xs"
  by (auto simp: in_range_def)

lemma in_range_nth_mem: "in_range i xs \<Longrightarrow> xs ! nat i \<in> set xs"
  by (simp add: in_range_nat_lt)

lemma in_range_length_eq: "length xs = length ys \<Longrightarrow> in_range i xs \<longleftrightarrow> in_range i ys"
  by (simp add: in_range_def)

lemma arr_get_Some: "arr_get xs i = Some x \<longleftrightarrow> in_range i xs \<and> x = xs ! nat i"
  by (auto simp: arr_get_def in_range_def)

lemma arr_upd_Some: "arr_upd xs i f = Some ys \<longleftrightarrow> in_range i xs \<and> ys = xs[nat i := f (xs ! nat i)]"
  by (auto simp: arr_upd_def in_range_def)

lemma arr_upd_map:
  assumes "arr_upd xs i f = Some ys" and "\<And>x. g (f x) = g x"
  shows "map g ys = map g xs"
  using assms by (auto simp: arr_upd_Some map_update list_update_same_conv in_range_nat_lt)

lemma map_update_same: "f y = f (xs ! i) \<Longrightarrow> map f (xs[i := y]) = map f xs"
  by (cases "i < length xs") (simp_all add: map_update list_update_same_conv list_update_beyond)

subsection \<open>Short integers\<close>

text \<open>What a value becomes when it is stored in a \<open>short\<close> of 16 bits.\<close>

definition to_short :: "int \<Rightarrow> int" where
  "to_short v = (v + 32768) mod 65536 - 32768"

lemma to_short_id: "-32768 \<le> v \<Longrightarrow> v < 32768 \<Longrightarrow> to_short v = v"
  by (simp add: to_short_def)

lemma to_short_int: "n < 32768 \<Longrightarrow> to_short (int n) = int n"
  by (simp add: to_short_id)

lemma to_short_range: "-32768 \<le> to_short v \<and> to_short v < 32768"
  by (simp add: to_short_def)

lemma to_short_full: "to_short 32768 = -32768"
  by (simp add: to_short_def)

subsection \<open>C strings\<close>

text \<open>
  A C string is the list of its characters before the terminating NUL. \<open>strcmp\<close> compares
  them as unsigned characters; the C standard fixes only the sign of its result.
\<close>

fun strcmp :: "string \<Rightarrow> string \<Rightarrow> int" where
  "strcmp [] [] = 0"
| "strcmp [] (y # ys) = -1"
| "strcmp (x # xs) [] = 1"
| "strcmp (x # xs) (y # ys) =
     (if of_char x < (of_char y :: nat) then -1
      else if of_char y < (of_char x :: nat) then 1
      else strcmp xs ys)"

lemma strcmp_neg_iff: "strcmp a b < 0 \<longleftrightarrow> a < b"
  by (induction a b rule: strcmp.induct) (auto simp: less_char_def)

lemma strcmp_pos_iff: "strcmp a b > 0 \<longleftrightarrow> b < a"
  by (induction a b rule: strcmp.induct) (auto simp: less_char_def)

lemma strcmp_zero_iff: "strcmp a b = 0 \<longleftrightarrow> a = b"
  by (induction a b rule: strcmp.induct) (auto simp: less_char_def[symmetric])

lemmas strcmp_iffs = strcmp_neg_iff strcmp_pos_iff strcmp_zero_iff

text \<open>
  The numeric value of a plain \<open>char\<close>, which is signed on the platforms the module is
  built for.
\<close>

definition schar :: "char \<Rightarrow> int" where
  "schar c = (if of_char c < (128::int) then of_char c else of_char c - 256)"

lemma of_char_int_bounds: "0 \<le> (of_char c :: int)" "(of_char c :: int) < 256"
proof -
  have "(of_char c :: nat) < 256" using of_char_mod_256 [of c, where ?'a = nat]
    by (metis mod_less_divisor zero_less_numeral)
  then show "(of_char c :: int) < 256" by (metis of_nat_less_numeral_iff of_nat_of_char)
  show "0 \<le> (of_char c :: int)" by (metis of_nat_0_le_iff of_nat_of_char)
qed

lemma schar_bounds: "-128 \<le> schar c \<and> schar c < 128"
  using of_char_int_bounds [of c] by (auto simp: schar_def)

subsection \<open>Generic list facts\<close>

lemma sorted_wrt_insert_at:
  assumes "sorted_wrt (<) (xs @ ys)" and "\<And>a. a \<in> set xs \<Longrightarrow> a < x" and "\<And>b. b \<in> set ys \<Longrightarrow> x < (b::'a::linorder)"
  shows "sorted_wrt (<) (xs @ x # ys)"
  using assms by (auto simp: sorted_wrt_append)

lemma sorted_wrt_less_nth_iff:
  assumes "sorted_wrt (<) (xs :: 'a::linorder list)" and "i < length xs" and "j < length xs"
  shows "xs ! i < xs ! j \<longleftrightarrow> i < j"
proof
  assume "xs ! i < xs ! j"
  show "i < j"
  proof (rule ccontr)
    assume "\<not> i < j"
    then have "j < i \<or> i = j" by auto
    then have "xs ! j \<le> xs ! i"
      using assms by (auto intro: less_imp_le sorted_wrt_nth_less)
    with \<open>xs ! i < xs ! j\<close> show False by simp
  qed
next
  assume "i < j"
  then show "xs ! i < xs ! j" using assms by (auto intro: sorted_wrt_nth_less)
qed

end
