(* ===== verification/C_Library.thy ===== *)
theory C_Library
  imports Prelude
begin

text \<open>
  The numeric conversions of the C library that the program calls: \<open>strtol\<close>, \<open>strtoul\<close>
  (and their \<open>long long\<close> forms), \<open>atoi\<close>, and the integer directives of \<open>printf\<close>. The
  width of \<open>long\<close> is an argument: 32 on i386, 64 on the 64-bit Unix platforms. The
  conversions back and forth are inverse to each other on the values that fit.
\<close>

subsection \<open>Reading numbers\<close>

definition isspace :: "char \<Rightarrow> bool" where
  "isspace c \<longleftrightarrow> c \<in> {CHR '' '', CHR 0x09, CHR 0x0A, CHR 0x0B, CHR 0x0C, CHR 0x0D}"

definition isdigit :: "char \<Rightarrow> bool" where
  "isdigit c \<longleftrightarrow> 48 \<le> (of_char c :: nat) \<and> (of_char c :: nat) \<le> 57"

text \<open>The value of a character as a digit, 36 for a character that is none.\<close>

definition digit_val :: "char \<Rightarrow> nat" where
  "digit_val c =
     (let n = of_char c in
      if 48 \<le> n \<and> n \<le> 57 then n - 48
      else if 97 \<le> n \<and> n \<le> 122 then n - 87
      else if 65 \<le> n \<and> n \<le> 90 then n - 55
      else 36)"

fun read_digits :: "nat \<Rightarrow> nat \<Rightarrow> string \<Rightarrow> nat" where
  "read_digits b acc [] = acc"
| "read_digits b acc (c # cs) =
     (if digit_val c < b then read_digits b (acc * b + digit_val c) cs else acc)"

definition read_sign :: "string \<Rightarrow> bool \<times> string" where
  "read_sign s =
     (case s of [] \<Rightarrow> (False, [])
      | c # cs \<Rightarrow> if c = CHR ''-'' then (True, cs) else if c = CHR ''+'' then (False, cs) else (False, s))"

text \<open>Base 0 takes the base from the prefix, as in a C literal.\<close>

definition read_base :: "nat \<Rightarrow> string \<Rightarrow> nat \<times> string" where
  "read_base b s =
     (if b \<noteq> 0 then (b, s)
      else case s of
        z # x # h # cs \<Rightarrow>
          if z = CHR ''0'' \<and> (x = CHR ''x'' \<or> x = CHR ''X'') \<and> digit_val h < 16 then (16, h # cs)
          else if z = CHR ''0'' then (8, s) else (10, s)
      | z # cs \<Rightarrow> if z = CHR ''0'' then (8, s) else (10, s)
      | [] \<Rightarrow> (10, s))"

definition read_number :: "nat \<Rightarrow> string \<Rightarrow> bool \<times> nat" where
  "read_number b s =
     (let (neg, s1) = read_sign (dropWhile isspace s); (base, s2) = read_base b s1
      in (neg, read_digits base 0 s2))"

definition strtol :: "nat \<Rightarrow> nat \<Rightarrow> string \<Rightarrow> int" where
  "strtol w b s =
     (let (neg, m) = read_number b s; v = (if neg then - int m else int m)
      in max (- (2 ^ (w - 1))) (min (2 ^ (w - 1) - 1) v))"

definition strtoul :: "nat \<Rightarrow> nat \<Rightarrow> string \<Rightarrow> int" where
  "strtoul w b s =
     (let (neg, m) = read_number b s
      in if int m \<ge> 2 ^ w then 2 ^ w - 1
         else if neg then (- int m) mod 2 ^ w else int m)"

text \<open>The conversion of a \<open>long\<close> to a 32-bit \<open>int\<close>, and \<open>atoi\<close>, which is \<open>strtol\<close> followed by it.\<close>

definition to_int :: "int \<Rightarrow> int" where
  "to_int v = (v + 2 ^ 31) mod 2 ^ 32 - 2 ^ 31"

definition atoi :: "nat \<Rightarrow> string \<Rightarrow> int" where
  "atoi w s = to_int (strtol w 10 s)"

lemma to_int_id: "- (2 ^ 31) \<le> v \<Longrightarrow> v < 2 ^ 31 \<Longrightarrow> to_int v = v"
  by (simp add: to_int_def)

lemma to_int_bounds: "- (2 ^ 31) \<le> to_int v \<and> to_int v < 2 ^ 31"
  by (simp add: to_int_def)

subsection \<open>Printing numbers\<close>

definition digit_char :: "nat \<Rightarrow> char" where
  "digit_char n = char_of (48 + n)"

fun dec :: "nat \<Rightarrow> string" where
  "dec n = (if n < 10 then [digit_char n] else dec (n div 10) @ [digit_char (n mod 10)])"

declare dec.simps [simp del]

definition fmt_d :: "int \<Rightarrow> string" where
  "fmt_d i = (if i < 0 then CHR ''-'' # dec (nat (- i)) else dec (nat i))"

text \<open>\<open>%0<w>d\<close>: zero padding goes between the sign and the digits and counts the sign.\<close>

definition pad0 :: "nat \<Rightarrow> string \<Rightarrow> string" where
  "pad0 w s = replicate (w - length s) (CHR ''0'') @ s"

definition fmt_0d :: "nat \<Rightarrow> int \<Rightarrow> string" where
  "fmt_0d w i = (if i < 0 then CHR ''-'' # pad0 (w - 1) (dec (nat (- i))) else pad0 w (dec (nat i)))"

subsection \<open>Reading back what was printed\<close>

lemma digit_val_char [simp]: "n < 10 \<Longrightarrow> digit_val (digit_char n) = n"
  by (simp add: digit_val_def digit_char_def Let_def)

lemma of_char_digit_char: "n < 10 \<Longrightarrow> (of_char (digit_char n) :: nat) = 48 + n"
  by (simp add: digit_char_def)

lemma isdigit_digit_char [simp]: "n < 10 \<Longrightarrow> isdigit (digit_char n)"
  by (simp add: isdigit_def of_char_digit_char)

lemma isdigit_val: "isdigit c \<Longrightarrow> digit_val c < 10"
  by (auto simp: isdigit_def digit_val_def Let_def)

lemma read_digits_append:
  "\<forall>c\<in>set xs. digit_val c < b \<Longrightarrow> read_digits b acc (xs @ ys) = read_digits b (read_digits b acc xs) ys"
  by (induction xs arbitrary: acc) auto

lemma dec_isdigit: "\<forall>c\<in>set (dec n). isdigit c"
proof (induction n rule: dec.induct)
  case (1 n)
  then show ?case by (cases "n < 10") (subst dec.simps; simp)+
qed

lemma dec_digit_val: "c \<in> set (dec n) \<Longrightarrow> digit_val c < 10"
  using dec_isdigit isdigit_val by blast

lemma dec_nonempty [simp]: "dec n \<noteq> []"
  by (subst dec.simps) simp

lemma read_digits_dec: "read_digits 10 0 (dec n) = n"
proof (induction n rule: dec.induct)
  case (1 n)
  show ?case
  proof (cases "n < 10")
    case True
    then show ?thesis by (subst dec.simps) simp
  next
    case False
    with 1 have "read_digits 10 0 (dec (n div 10)) = n div 10" by simp
    with False show ?thesis
      by (subst dec.simps) (simp add: read_digits_append dec_digit_val)
  qed
qed

lemma dec_hd_zero: "hd (dec n) = CHR ''0'' \<Longrightarrow> n = 0"
proof (induction n rule: dec.induct)
  case (1 n)
  show ?case
  proof (cases "n < 10")
    case True
    then have "hd (dec n) = digit_char n" by (subst dec.simps) simp
    with "1.prems" have "digit_val (digit_char n) = digit_val (CHR ''0'')" by simp
    moreover have "digit_val (CHR ''0'') = 0" by (simp add: digit_val_def)
    ultimately show ?thesis using True by simp
  next
    case False
    then have "hd (dec n) = hd (dec (n div 10))" by (subst dec.simps) simp
    with "1.prems" have "n div 10 = 0" using "1.IH" [OF False] by simp
    with False show ?thesis by simp
  qed
qed

lemma dec_0: "dec 0 = ''0''"
  by code_simp

lemma isdigit_not_special:
  "isdigit c \<Longrightarrow> \<not> isspace c \<and> c \<noteq> CHR ''-'' \<and> c \<noteq> CHR ''+'' \<and> c \<noteq> CHR ''x'' \<and> c \<noteq> CHR ''X''"
  by (auto simp: isdigit_def isspace_def)

lemma read_base_dec: "b = 0 \<or> b = 10 \<Longrightarrow> \<exists>b'. read_base b (dec n) = (b', dec n) \<and> read_digits b' 0 (dec n) = n"
proof (cases "b = 0 \<and> n = 0")
  case True
  then show ?thesis by (auto simp: read_base_def dec_0 digit_val_def)
next
  case False
  assume "b = 0 \<or> b = 10"
  obtain c cs where c: "dec n = c # cs" by (cases "dec n") auto
  have "c \<noteq> CHR ''0''" if "n \<noteq> 0" using dec_hd_zero [of n] c that by auto
  with c False \<open>b = 0 \<or> b = 10\<close> have "read_base b (dec n) = (10, dec n)"
    by (auto simp: read_base_def split: list.split)
  then show ?thesis using read_digits_dec by simp
qed

lemma read_number_dec: "b = 0 \<or> b = 10 \<Longrightarrow> read_number b (dec n) = (False, n)"
proof -
  assume b: "b = 0 \<or> b = 10"
  obtain c cs where c: "dec n = c # cs" by (cases "dec n") auto
  then have "isdigit c" using dec_isdigit [of n] by simp
  with c have "read_sign (dropWhile isspace (dec n)) = (False, dec n)"
    using isdigit_not_special [of c] by (simp add: read_sign_def)
  with read_base_dec [OF b, of n] show ?thesis by (auto simp: read_number_def)
qed

lemma read_number_minus_dec: "b = 0 \<or> b = 10 \<Longrightarrow> read_number b (CHR ''-'' # dec n) = (True, n)"
  using read_base_dec [of b n] by (auto simp: read_number_def read_sign_def isspace_def)

lemma strtol_fmt_d:
  assumes "b = 0 \<or> b = 10" and "- (2 ^ (w - 1)) \<le> i" and "i < 2 ^ (w - 1)"
  shows "strtol w b (fmt_d i) = i"
  using assms by (auto simp: strtol_def fmt_d_def read_number_dec read_number_minus_dec)

lemma strtoul_fmt_d:
  assumes "b = 0 \<or> b = 10" and "0 \<le> i" and "i < 2 ^ w"
  shows "strtoul w b (fmt_d i) = i"
  using assms by (auto simp: strtoul_def fmt_d_def read_number_dec)

lemma strtol_bounds:
  assumes "0 < w"
  shows "- (2 ^ (w - 1)) \<le> strtol w b s \<and> strtol w b s < 2 ^ (w - 1)"
  by (auto simp: strtol_def Let_def max_def min_def split: prod.splits)

lemma strtoul_bounds: "0 \<le> strtoul w b s \<and> strtoul w b s < 2 ^ w"
  by (auto simp: strtoul_def split: prod.splits)

subsection \<open>Other string functions\<close>

definition to_lower :: "char \<Rightarrow> char" where
  "to_lower c = (if CHR ''A'' \<le> c \<and> c \<le> CHR ''Z'' then char_of (of_char c + (32::nat)) else c)"

definition strcasecmp :: "string \<Rightarrow> string \<Rightarrow> int" where
  "strcasecmp a b = strcmp (map to_lower a) (map to_lower b)"

definition strncmp :: "string \<Rightarrow> string \<Rightarrow> nat \<Rightarrow> int" where
  "strncmp a b n = strcmp (take n a) (take n b)"

end
