(* ===== verification/Keyed_Store.thy ===== *)
theory Keyed_Store
  imports C_Library "HOL-Library.Word"
begin

text \<open>
  The interface of the tables that map names to values: what the reader of a request body and
  the query planner rely on is that a lookup returns the value stored last under a name. The tables of the program compare
  names as they are, those of Apache without regard to case. The
  hash function shared by the form table of \<open>query_source.cc\<close> and the symbol table of
  \<open>format_compiler.cc\<close> is here too.
\<close>

text \<open>\<open>canon\<close> is the form of a name that the table compares.\<close>

locale keyed_store =
  fixes canon :: "string \<Rightarrow> string"
    and ok :: "'s \<Rightarrow> bool"
    and put :: "string \<Rightarrow> 'v \<Rightarrow> 's \<Rightarrow> 's option"
    and look :: "string \<Rightarrow> 's \<Rightarrow> 'v option option"
  assumes put_ok: "ok s \<Longrightarrow> \<exists>s'. put k v s = Some s' \<and> ok s'"
    and look_ok: "ok s \<Longrightarrow> \<exists>r. look k s = Some r"
    and look_put: "ok s \<Longrightarrow> put k v s = Some s' \<Longrightarrow> look j s' = (if canon j = canon k then Some (Some v) else look j s)"
begin

fun puts :: "(string \<times> 'v) list \<Rightarrow> 's \<Rightarrow> 's option" where
  "puts [] s = Some s"
| "puts ((k, v) # kvs) s = do { s' \<leftarrow> put k v s; puts kvs s' }"

text \<open>Lookups after a series of insertions: the last pair with the name, else the old entry.\<close>

lemma puts_look:
  assumes "ok s"
  shows "\<exists>s'. puts kvs s = Some s' \<and> ok s' \<and>
     (\<forall>j. look j s' = (case map_of (rev (map (\<lambda>(k, v). (canon k, v)) kvs)) (canon j) of Some v \<Rightarrow> Some (Some v) | None \<Rightarrow> look j s))"
  using assms
proof (induction kvs arbitrary: s)
  case (Cons kv kvs)
  obtain k v where kv: "kv = (k, v)" by (cases kv)
  obtain s1 where s1: "put k v s = Some s1" "ok s1" using put_ok [OF Cons.prems] by blast
  from Cons.IH [OF s1(2)] obtain s' where s': "puts kvs s1 = Some s'" "ok s'"
    "\<forall>j. look j s' = (case map_of (rev (map (\<lambda>(k, v). (canon k, v)) kvs)) (canon j) of Some v \<Rightarrow> Some (Some v) | None \<Rightarrow> look j s1)" by blast
  then have "\<forall>j. look j s' = (case map_of (rev (map (\<lambda>(k, v). (canon k, v)) (kv # kvs))) (canon j) of Some v \<Rightarrow> Some (Some v) | None \<Rightarrow> look j s)"
    using look_put [OF Cons.prems s1(1)] kv by (auto simp: map_add_def split: option.split)
  with s' s1 kv show ?case by simp
qed simp

end

subsection \<open>The hash function\<close>

text \<open>
  An unsigned 32-bit accumulator and plain \<open>char\<close>, which is signed here; the result is
  the bucket number in a table of 16.
\<close>

definition TABLE_SIZE :: nat where "TABLE_SIZE = 16"

definition hash_step :: "char \<Rightarrow> 32 word \<Rightarrow> 32 word" where
  "hash_step c h = 37 * h + word_of_int (schar c)"

definition do_hash :: "string \<Rightarrow> nat" where
  "do_hash name = unat (fold hash_step name 0 mod 16)"

lemma do_hash_less: "do_hash name < TABLE_SIZE"
proof -
  have "fold hash_step name 0 mod 16 < 16" by (rule word_mod_less_divisor) simp
  then show ?thesis by (simp add: do_hash_def TABLE_SIZE_def word_less_nat_alt)
qed

end
