(* ===== verification/Config_Types.thy ===== *)
theory Config_Types
  imports Prelude
begin

text \<open>
  The data of the configuration: \<open>mod_ndb_config.h\<close>, the access plans of
  \<open>mod_ndb.h\<close>, and the routines of \<open>config.cc\<close> that create and merge configuration
  structures. A \<open>char *\<close> that the code tests against null is a \<open>string option\<close>; an
  \<open>apache_array\<close> is a list. A \<open>short\<close> that is an array index with \<open>-1\<close> for "none" is
  an \<open>int\<close>; where the code computes one from an \<open>int\<close>, it is wrapped to 16 bits (\<open>to_short\<close>), so that an
  array of more than 32768 items is left at a negative index.
\<close>

subsection \<open>Access plans\<close>

text \<open>The code compares plans as integers, so the enumeration is a linear order.\<close>

datatype access_plan = NoPlan | UseIndex | PrimaryKey | UniqueIndexAccess | Scan | OrderedIndexScan

fun plan_num :: "access_plan \<Rightarrow> nat" where
  "plan_num NoPlan = 0"
| "plan_num UseIndex = 1"
| "plan_num PrimaryKey = 2"
| "plan_num UniqueIndexAccess = 3"
| "plan_num Scan = 4"
| "plan_num OrderedIndexScan = 5"

lemma plan_num_inj: "plan_num p = plan_num q \<Longrightarrow> p = q"
  by (cases p; cases q) auto

instantiation access_plan :: linorder
begin

definition less_eq_access_plan :: "access_plan \<Rightarrow> access_plan \<Rightarrow> bool" where
  "less_eq_access_plan p q \<longleftrightarrow> plan_num p \<le> plan_num q"

definition less_access_plan :: "access_plan \<Rightarrow> access_plan \<Rightarrow> bool" where
  "less_access_plan p q \<longleftrightarrow> plan_num p < plan_num q"

instance
  by standard (auto simp: less_eq_access_plan_def less_access_plan_def intro: plan_num_inj)

end

lemmas plan_order = less_eq_access_plan_def less_access_plan_def

lemma NoPlan_least [simp]: "NoPlan \<le> p"
  by (simp add: plan_order)

lemma not_less_NoPlan [simp]: "\<not> p < NoPlan"
  by (simp add: plan_order)

subsection \<open>Columns, expressions and indexes\<close>

text \<open>
  \<open>base_expr\<close> is the base class of a key column and of an N-SQL expression; the record
  extension is the inheritance. The column flags are the bit field \<open>is\<close>.
\<close>

record base_expr =
  col_name :: string
  base_col_name :: "string option"
  rel_op :: int
  implied_plan :: access_plan
  index_id :: int

record key_col = base_expr +
  serial_no :: int
  idx_map_bucket :: int
  next_in_key_serial :: int
  next_in_key :: int
  in_pk :: bool
  is_filter :: bool
  in_ord_idx :: bool
  in_hash_idx :: bool
  in_pathinfo :: bool

datatype value_type = Param | Const | Column

record nsql_expr = base_expr +
  expr_type :: int
  vtype :: value_type
  expr_value :: string

record index =
  idx_name :: "string option"
  n_columns :: int
  first_col_serial :: int
  first_col :: int
  idx_type :: char
  sorted_flag :: bool
  descending_flag :: bool
  constants :: "nsql_expr list"

subsection \<open>Server and directory configuration\<close>

record srv =
  connect_string :: "string option"
  max_read_operations :: int
  max_retry_ms :: int
  force_restart_flag :: int
  srv_magic_number :: int

text \<open>
  \<open>fmt\<close> points into the table of output formats; the model keeps the position of the
  format in that table. \<open>pathinfo\<close> is the array of \<open>2 * pathinfo_size\<close> shorts:
  column ids, then serial numbers.
\<close>

record dir =
  dir_path :: string
  database :: "string option"
  dir_table :: "string option"
  pathinfo_size :: int
  pathinfo :: "int list"
  fmt :: "nat option"
  incr_prefetch :: int
  default_key :: int
  pathinfo_always :: bool
  has_filters :: bool
  table_scan :: bool
  use_etags :: bool
  allow_delete :: bool
  select_star :: bool
  index_scan :: index
  visible :: "string list"
  updatable :: "string list"
  aliases :: "string list"
  indexes :: "index list"
  key_columns :: "key_col list"
  dir_magic_number :: int

definition dir_magic :: int where "dir_magic = 0xBABECAFE"
definition srv_magic :: int where "srv_magic = 0xCAFEBABE"

text \<open>The all-zero column, expression and index that \<open>bzero\<close> and \<open>ap_pcalloc\<close> leave.\<close>

definition zero_key_col :: key_col where
  "zero_key_col =
     \<lparr>col_name = '''', base_col_name = None, rel_op = 0, implied_plan = NoPlan, index_id = 0,
      serial_no = 0, idx_map_bucket = 0, next_in_key_serial = 0, next_in_key = 0,
      in_pk = False, is_filter = False, in_ord_idx = False, in_hash_idx = False,
      in_pathinfo = False\<rparr>"

definition zero_index :: index where
  "zero_index =
     \<lparr>idx_name = None, n_columns = 0, first_col_serial = 0, first_col = 0, idx_type = CHR 0x00,
      sorted_flag = False, descending_flag = False, constants = []\<rparr>"

definition zero_dir :: dir where
  "zero_dir =
     \<lparr>dir_path = '''', database = None, dir_table = None, pathinfo_size = 0, pathinfo = [],
      fmt = None, incr_prefetch = 0, default_key = 0, pathinfo_always = False,
      has_filters = False, table_scan = False, use_etags = False, allow_delete = False,
      select_star = False, index_scan = zero_index, visible = [], updatable = [], aliases = [],
      indexes = [], key_columns = [], dir_magic_number = 0\<rparr>"

subsection \<open>Creation\<close>

text \<open>
  \<open>init_dir\<close> also enters the new structure in the global array of end points, which has
  \<open>MAX_ENDPOINTS\<close> slots and is written without a test of its bound. The model passes the
  address \<open>p\<close> of the new structure, the array and its counter \<open>n_endp\<close>; the format
  lookup is \<open>get_format_by_name\<close>.
\<close>

definition MAX_ENDPOINTS :: nat where "MAX_ENDPOINTS = 500"
definition DEFAULT_MAX_READ_OPERATIONS :: int where "DEFAULT_MAX_READ_OPERATIONS = 20"
definition DEFAULT_MAX_RETRY_MS :: int where "DEFAULT_MAX_RETRY_MS = 50"
definition DEFAULT_FORCE_RESTART :: int where "DEFAULT_FORCE_RESTART = 0"

record endpoints =
  all_endpoints :: "nat option list"
  n_endp :: int

definition no_endpoints :: endpoints where
  "no_endpoints = \<lparr>all_endpoints = replicate MAX_ENDPOINTS None, n_endp = 0\<rparr>"

definition new_dir :: "(string \<Rightarrow> nat option) \<Rightarrow> string \<Rightarrow> dir" where
  "new_dir get_format_by_name path =
     zero_dir\<lparr>dir_path := path, fmt := get_format_by_name ''JSON'', use_etags := True,
       default_key := -1, dir_magic_number := dir_magic\<rparr>"

definition init_dir ::
  "(string \<Rightarrow> nat option) \<Rightarrow> nat \<Rightarrow> string \<Rightarrow> endpoints \<Rightarrow> (dir \<times> endpoints) option" where
  "init_dir get_format_by_name p path ep =
     do { eps \<leftarrow> arr_upd (all_endpoints ep) (n_endp ep) (\<lambda>_. Some p);
          Some (new_dir get_format_by_name path, \<lparr>all_endpoints = eps, n_endp = n_endp ep + 1\<rparr>) }"

definition init_srv :: srv where
  "init_srv =
     \<lparr>connect_string = None, max_read_operations = DEFAULT_MAX_READ_OPERATIONS,
      max_retry_ms = DEFAULT_MAX_RETRY_MS, force_restart_flag = DEFAULT_FORCE_RESTART,
      srv_magic_number = srv_magic\<rparr>"

subsection \<open>Merging\<close>

definition merge_dir :: "dir \<Rightarrow> dir \<Rightarrow> dir" where
  "merge_dir d1 d2 =
     d2\<lparr>database := (case database d2 of None \<Rightarrow> database d1 | Some x \<Rightarrow> Some x),
        dir_table := (case dir_table d2 of None \<Rightarrow> dir_table d1 | Some x \<Rightarrow> Some x),
        fmt := (case fmt d2 of None \<Rightarrow> fmt d1 | Some x \<Rightarrow> Some x),
        incr_prefetch := (if incr_prefetch d2 = 0 then incr_prefetch d1 else incr_prefetch d2)\<rparr>"

definition merge_srv :: "srv \<Rightarrow> srv \<Rightarrow> srv" where
  "merge_srv s1 s2 =
     s2\<lparr>connect_string := (case connect_string s2 of None \<Rightarrow> connect_string s1 | Some x \<Rightarrow> Some x),
        max_read_operations :=
          (if max_read_operations s2 = 0 then max_read_operations s1 else max_read_operations s2)\<rparr>"

lemma merge_dir_frame:
  "key_columns (merge_dir d1 d2) = key_columns d2" "indexes (merge_dir d1 d2) = indexes d2"
  "pathinfo (merge_dir d1 d2) = pathinfo d2" "pathinfo_size (merge_dir d1 d2) = pathinfo_size d2"
  "use_etags (merge_dir d1 d2) = use_etags d2" "default_key (merge_dir d1 d2) = default_key d2"
  by (simp_all add: merge_dir_def)

lemma init_dir_runs_iff:
  assumes "length (all_endpoints ep) = MAX_ENDPOINTS" and "0 \<le> n_endp ep"
  shows "(\<exists>d ep'. init_dir gf p path ep = Some (d, ep')) \<longleftrightarrow> n_endp ep < int MAX_ENDPOINTS"
  using assms by (auto simp: init_dir_def arr_upd_def)

end
