(* ===== verification/Key_Columns.thy ===== *)
theory Key_Columns
  imports Config_Types
begin

text \<open>
  The sorted array of key columns and the routine \<open>add_key_column\<close> of \<open>config.cc\<close> that
  keeps it sorted and repairs every link into it: the chain of columns of each index and
  the path-info columns. Each column has an immutable serial number; links are kept twice,
  as serial numbers and as positions in the array, and an insertion in the middle of the
  array recomputes the positions from the serial numbers.

  The lemmas show that from a well-formed directory the routine never leaves an array, its
  loops end, the result is well-formed again, and the columns that every index and the path
  info denote are the same as before.
\<close>

subsection \<open>The search for the insertion point\<close>

fun find_key :: "string \<Rightarrow> key_col list \<Rightarrow> int \<Rightarrow> int \<Rightarrow> int \<times> bool" where
  "find_key keyname [] n insertion_point = (insertion_point, False)"
| "find_key keyname (k # ks) n insertion_point =
     (let c = strcmp keyname (col_name k) in
      if c < 0 then (insertion_point, False)
      else if c > 0 then find_key keyname ks (n + 1) (to_short (n + 1))
      else (to_short n, True))"

text \<open>
  \<open>new_item\<close>, the move of the tail by one place and the initialisation of the hole. The position is not
  negative here.
\<close>

definition new_key_col :: "string \<Rightarrow> int \<Rightarrow> key_col" where
  "new_key_col keyname serial = zero_key_col\<lparr>col_name := keyname, serial_no := to_short serial\<rparr>"

definition open_hole :: "key_col list \<Rightarrow> int \<Rightarrow> string \<Rightarrow> key_col list" where
  "open_hole keys ip keyname =
     take (nat ip) keys @ new_key_col keyname (int (length keys)) # drop (nat ip) keys"

subsection \<open>Repairing the links\<close>

text \<open>\<open>keys[keys[n].serial_no].idx_map_bucket = n\<close> for every position.\<close>

fun fill_buckets :: "nat list \<Rightarrow> key_col list \<Rightarrow> key_col list option" where
  "fill_buckets [] keys = Some keys"
| "fill_buckets (n # ns) keys =
     do { k \<leftarrow> arr_get keys (int n);
          keys' \<leftarrow> arr_upd keys (serial_no k) (\<lambda>c. c\<lparr>idx_map_bucket := to_short (int n)\<rparr>);
          fill_buckets ns keys' }"

text \<open>The inner loop: follow the chain of one index, fixing every item.\<close>

partial_function (option) fix_links :: "key_col list \<Rightarrow> int \<Rightarrow> int \<Rightarrow> key_col list option" where
  "fix_links keys this_col serial =
     (if serial = -1 then Some keys
      else do { b \<leftarrow> arr_get keys serial;
                keys' \<leftarrow> arr_upd keys this_col (\<lambda>c. c\<lparr>next_in_key := idx_map_bucket b\<rparr>);
                k \<leftarrow> arr_get keys' (idx_map_bucket b);
                fix_links keys' (idx_map_bucket b) (next_in_key_serial k) })"

definition fix_index :: "index \<Rightarrow> key_col list \<Rightarrow> (index \<times> key_col list) option" where
  "fix_index ix keys =
     (if first_col_serial ix = -1 then Some (ix, keys)
      else do { b \<leftarrow> arr_get keys (first_col_serial ix);
                k \<leftarrow> arr_get keys (idx_map_bucket b);
                keys' \<leftarrow> fix_links keys (idx_map_bucket b) (next_in_key_serial k);
                Some (ix\<lparr>first_col := idx_map_bucket b\<rparr>, keys') })"

fun fix_indexes :: "index list \<Rightarrow> key_col list \<Rightarrow> (index list \<times> key_col list) option" where
  "fix_indexes [] keys = Some ([], keys)"
| "fix_indexes (ix # ixs) keys =
     do { (ix', keys') \<leftarrow> fix_index ix keys;
          (ixs', keys'') \<leftarrow> fix_indexes ixs keys';
          Some (ix' # ixs', keys'') }"

fun fix_pathinfo :: "nat list \<Rightarrow> nat \<Rightarrow> key_col list \<Rightarrow> int list \<Rightarrow> int list option" where
  "fix_pathinfo [] sz keys pi = Some pi"
| "fix_pathinfo (n # ns) sz keys pi =
     do { serial \<leftarrow> arr_get pi (int (n + sz));
          b \<leftarrow> arr_get keys serial;
          pi' \<leftarrow> arr_upd pi (int n) (\<lambda>_. idx_map_bucket b);
          fix_pathinfo ns sz keys pi' }"

text \<open>
  The whole routine: the directory after the call, the column id returned and the flag
  \<open>exists\<close>. Links are only repaired when the tail was moved. With 32768 columns in the array the
  insertion point or the new serial number is out of the range of a \<open>short\<close>; both wrap, and the routine
  writes outside the array.
\<close>

definition relink :: "dir \<Rightarrow> key_col list \<Rightarrow> dir option" where
  "relink d keys =
     do { keys1 \<leftarrow> fill_buckets [0..<length keys] keys;
          (ixs, keys2) \<leftarrow> fix_indexes (indexes d) keys1;
          pi \<leftarrow> fix_pathinfo [0..<nat (pathinfo_size d)] (nat (pathinfo_size d)) keys2 (pathinfo d);
          Some (d\<lparr>key_columns := keys2, indexes := ixs, pathinfo := pi\<rparr>) }"

definition add_key_column :: "dir \<Rightarrow> string \<Rightarrow> (dir \<times> int \<times> bool) option" where
  "add_key_column d keyname =
     (let keys = key_columns d; (ip, found) = find_key keyname keys 0 0 in
      if found then Some (d, ip, True)
      else
        let keys' = open_hole keys ip keyname in
        if ip < 0 then None
        else if ip < int (length keys)
        then do { d' \<leftarrow> relink d keys'; Some (d', ip, False) }
        else Some (d\<lparr>key_columns := keys'\<rparr>, ip, False))"

subsection \<open>The sorted array\<close>

abbreviation names :: "key_col list \<Rightarrow> string list" where
  "names keys \<equiv> map col_name keys"

definition sorted_names :: "key_col list \<Rightarrow> bool" where
  "sorted_names keys \<longleftrightarrow> sorted_wrt (<) (names keys)"

text \<open>The search without the wrap of its result; the search itself gives the same position as a \<open>short\<close>.\<close>

fun key_position :: "string \<Rightarrow> key_col list \<Rightarrow> nat \<times> bool" where
  "key_position keyname [] = (0, False)"
| "key_position keyname (k # ks) =
     (if keyname < col_name k then (0, False)
      else if col_name k < keyname then map_prod Suc id (key_position keyname ks)
      else (0, True))"

lemma find_key_position:
  "ip = to_short n \<Longrightarrow> find_key kn keys n ip = map_prod (\<lambda>i. to_short (n + int i)) id (key_position kn keys)"
  by (induction kn keys n ip rule: find_key.induct) (auto simp: strcmp_iffs Let_def prod.map_comp comp_def id_def add.assoc)

lemma key_position_spec:
  assumes "sorted_names keys" and "key_position kn keys = (i, f)"
  shows "i \<le> length keys \<and> (f \<longrightarrow> i < length keys \<and> col_name (keys ! i) = kn) \<and>
    (\<not> f \<longrightarrow> (\<forall>k\<in>set (take i keys). col_name k < kn) \<and> (\<forall>k\<in>set (drop i keys). kn < col_name k))"
  using assms
proof (induction keys arbitrary: i f)
  case (Cons k ks)
  from Cons.prems have ks: "sorted_names ks" and k: "\<forall>a\<in>set ks. col_name k < col_name a"
    by (auto simp: sorted_names_def)
  obtain j g where r: "key_position kn ks = (j, g)" by fastforce
  consider "kn < col_name k" | "col_name k < kn" | "col_name k = kn" by fastforce
  then show ?case
  proof cases
    case 1
    with k have "\<forall>a\<in>set ks. kn < col_name a" by (meson order_less_trans)
    with 1 Cons.prems show ?thesis by auto
  next
    case 2
    with Cons.prems(2) r have "i = Suc j" "f = g" by (auto split: if_splits)
    with Cons.IH [OF ks r] 2 show ?thesis by simp
  next
    case 3
    with Cons.prems show ?thesis by simp
  qed
qed simp

lemma find_key_cases:
  assumes "sorted_names keys"
  obtains (found) i where "find_key kn keys 0 0 = (to_short (int i), True)" "i < length keys"
      "col_name (keys ! i) = kn"
  | (hole) i where "find_key kn keys 0 0 = (to_short (int i), False)" "i \<le> length keys"
      "\<And>k. k \<in> set (take i keys) \<Longrightarrow> col_name k < kn"
      "\<And>k. k \<in> set (drop i keys) \<Longrightarrow> kn < col_name k"
proof -
  obtain i f where r: "key_position kn keys = (i, f)" by fastforce
  have "(0::int) = to_short 0" by (simp add: to_short_id)
  from find_key_position [OF this, of kn keys] r
  have "find_key kn keys 0 0 = (to_short (int i), f)" by simp
  with key_position_spec [OF assms r] show thesis
    by (cases f) (auto intro: found hole)
qed

lemma open_hole_sorted:
  assumes "sorted_names keys" and "\<And>k. k \<in> set (take i keys) \<Longrightarrow> col_name k < kn"
    and "\<And>k. k \<in> set (drop i keys) \<Longrightarrow> kn < col_name k"
  shows "sorted_names (open_hole keys (int i) kn)"
proof -
  have "names (open_hole keys (int i) kn) = names (take i keys) @ kn # names (drop i keys)"
    by (simp add: open_hole_def new_key_col_def)
  moreover have "sorted_wrt (<) (names (take i keys) @ names (drop i keys))"
    using assms(1) by (simp add: sorted_names_def flip: map_append)
  ultimately show ?thesis
    using assms(2,3) by (auto simp: sorted_names_def intro!: sorted_wrt_insert_at)
qed

lemma set_open_hole: "set (open_hole keys (int i) kn) = insert (new_key_col kn (int (length keys))) (set keys)"
  by (simp add: open_hole_def) (metis append_take_drop_id set_append)

lemma length_open_hole [simp]: "i \<le> length keys \<Longrightarrow> length (open_hole keys (int i) kn) = Suc (length keys)"
  by (simp add: open_hole_def)

lemma open_hole_nth: "i \<le> length keys \<Longrightarrow> open_hole keys (int i) kn ! i = new_key_col kn (int (length keys))"
  by (simp add: open_hole_def nth_append)

subsection \<open>Serial numbers, chains and links\<close>

definition serials_ok :: "key_col list \<Rightarrow> bool" where
  "serials_ok keys \<longleftrightarrow> distinct (map serial_no keys) \<and> set (map serial_no keys) = {0..<int (length keys)} \<and>
     length keys \<le> 32768"

definition next_map :: "key_col list \<Rightarrow> (int \<rightharpoonup> int)" where
  "next_map keys = map_of (map (\<lambda>k. (serial_no k, next_in_key_serial k)) keys)"

definition name_map :: "key_col list \<Rightarrow> (int \<rightharpoonup> string)" where
  "name_map keys = map_of (map (\<lambda>k. (serial_no k, col_name k)) keys)"

text \<open>\<open>schain m s ss\<close>: the chain that starts at serial number \<open>s\<close> visits \<open>ss\<close> and ends in \<open>-1\<close>.\<close>

fun schain :: "(int \<rightharpoonup> int) \<Rightarrow> int \<Rightarrow> int list \<Rightarrow> bool" where
  "schain m s [] \<longleftrightarrow> s = -1"
| "schain m s (x # xs) \<longleftrightarrow> s = x \<and> (case m x of None \<Rightarrow> False | Some t \<Rightarrow> schain m t xs)"

definition at_serial :: "key_col list \<Rightarrow> int \<Rightarrow> int \<Rightarrow> bool" where
  "at_serial keys c s \<longleftrightarrow> in_range c keys \<and> serial_no (keys ! nat c) = s"

definition link_ok :: "key_col list \<Rightarrow> key_col \<Rightarrow> bool" where
  "link_ok keys k \<longleftrightarrow>
     (if next_in_key_serial k = -1 then next_in_key k = -1
      else at_serial keys (next_in_key k) (next_in_key_serial k))"

definition head_ok :: "key_col list \<Rightarrow> index \<Rightarrow> bool" where
  "head_ok keys ix \<longleftrightarrow>
     (if first_col_serial ix = -1 then first_col ix = -1
      else at_serial keys (first_col ix) (first_col_serial ix))"

definition chain_linked :: "key_col list \<Rightarrow> int list \<Rightarrow> bool" where
  "chain_linked keys ss \<longleftrightarrow> (\<forall>k\<in>set keys. serial_no k \<in> set ss \<longrightarrow> link_ok keys k)"

definition index_ok :: "key_col list \<Rightarrow> index \<Rightarrow> bool" where
  "index_ok keys ix \<longleftrightarrow>
     head_ok keys ix \<and> (\<exists>ss. schain (next_map keys) (first_col_serial ix) ss \<and> chain_linked keys ss)"

definition tails_ok :: "key_col list \<Rightarrow> bool" where
  "tails_ok keys \<longleftrightarrow> (\<forall>k\<in>set keys. next_in_key_serial k = -1 \<longrightarrow> next_in_key k = -1)"

definition cols_ok :: "key_col list \<Rightarrow> bool" where
  "cols_ok keys \<longleftrightarrow> sorted_names keys \<and> serials_ok keys \<and> tails_ok keys"

text \<open>
  The path info while its directive is being processed: the first \<open>m\<close> items are linked,
  the others still hold the zero serial number of a fresh array.
\<close>

definition pathinfo_ok_upto :: "nat \<Rightarrow> dir \<Rightarrow> bool" where
  "pathinfo_ok_upto m d \<longleftrightarrow>
     0 \<le> pathinfo_size d \<and> int (length (pathinfo d)) = 2 * pathinfo_size d \<and> int m \<le> pathinfo_size d \<and>
     (\<forall>n<m. at_serial (key_columns d) (pathinfo d ! n) (pathinfo d ! (n + nat (pathinfo_size d)))) \<and>
     (\<forall>n<nat (pathinfo_size d). pathinfo d ! (n + nat (pathinfo_size d)) = 0 \<or>
        in_range (pathinfo d ! (n + nat (pathinfo_size d))) (key_columns d))"

definition dir_ok_upto :: "nat \<Rightarrow> dir \<Rightarrow> bool" where
  "dir_ok_upto m d \<longleftrightarrow>
     cols_ok (key_columns d) \<and> (\<forall>ix\<in>set (indexes d). index_ok (key_columns d) ix) \<and>
     pathinfo_ok_upto m d"

definition dir_ok :: "dir \<Rightarrow> bool" where
  "dir_ok d \<longleftrightarrow> dir_ok_upto (nat (pathinfo_size d)) d"

text \<open>
  What an index denotes: the names of its columns in the order of the chain, read the way
  the query planner reads it, along \<open>next_in_key\<close>.
\<close>

partial_function (option) chain_names :: "key_col list \<Rightarrow> int \<Rightarrow> string list option" where
  "chain_names keys c =
     (if c = -1 then Some []
      else do { k \<leftarrow> arr_get keys c;
                ns \<leftarrow> chain_names keys (next_in_key k);
                Some (col_name k # ns) })"

definition index_columns :: "dir \<Rightarrow> index \<Rightarrow> string list option" where
  "index_columns d ix = chain_names (key_columns d) (first_col ix)"

definition pathinfo_columns :: "dir \<Rightarrow> string option list" where
  "pathinfo_columns d =
     map (\<lambda>c. map_option col_name (arr_get (key_columns d) c)) (take (nat (pathinfo_size d)) (pathinfo d))"

subsection \<open>Facts that depend only on names and serial numbers\<close>

definition view :: "key_col \<Rightarrow> int \<times> int \<times> string" where
  "view k = (serial_no k, next_in_key_serial k, col_name k)"

lemma view_nth:
  assumes "map view keys = map view keys'" and "i < length keys"
  shows "serial_no (keys' ! i) = serial_no (keys ! i)"
    "next_in_key_serial (keys' ! i) = next_in_key_serial (keys ! i)"
    "col_name (keys' ! i) = col_name (keys ! i)"
proof -
  from assms have "length keys = length keys'" by (metis length_map)
  then have "view (keys ! i) = view (keys' ! i)" using assms by (metis nth_map)
  then show "serial_no (keys' ! i) = serial_no (keys ! i)"
    "next_in_key_serial (keys' ! i) = next_in_key_serial (keys ! i)"
    "col_name (keys' ! i) = col_name (keys ! i)" by (simp_all add: view_def)
qed

lemma view_length: "map view keys = map view keys' \<Longrightarrow> length keys' = length keys"
  by (metis length_map)

lemma view_maps:
  assumes "map view keys = map view keys'"
  shows "names keys' = names keys" "map serial_no keys' = map serial_no keys"
    "next_map keys' = next_map keys" "name_map keys' = name_map keys"
    "serials_ok keys' = serials_ok keys" "sorted_names keys' = sorted_names keys"
proof -
  have r: "names ks = map (snd \<circ> snd) (map view ks)" "map serial_no ks = map fst (map view ks)"
    "next_map ks = map_of (map (\<lambda>v. (fst v, fst (snd v))) (map view ks))"
    "name_map ks = map_of (map (\<lambda>v. (fst v, snd (snd v))) (map view ks))" for ks
    by (simp_all add: view_def next_map_def name_map_def comp_def)
  show n: "names keys' = names keys" and s: "map serial_no keys' = map serial_no keys"
    and "next_map keys' = next_map keys" "name_map keys' = name_map keys"
    by (simp_all only: r assms)
  show "serials_ok keys' = serials_ok keys" "sorted_names keys' = sorted_names keys"
    using view_length [OF assms] n s by (simp_all add: serials_ok_def sorted_names_def del: set_map)
qed

lemma view_at_serial:
  assumes "map view keys = map view keys'"
  shows "at_serial keys' c s = at_serial keys c s"
  using view_length [OF assms] view_nth(1) [OF assms, of "nat c"]
  by (auto simp: at_serial_def in_range_def)

lemma view_link_ok:
  assumes "map view keys = map view keys'"
  shows "link_ok keys' k = link_ok keys k"
  by (simp add: link_ok_def view_at_serial [OF assms])

lemma next_map_iff:
  assumes "serials_ok keys"
  shows "next_map keys s = Some t \<longleftrightarrow> (\<exists>k\<in>set keys. serial_no k = s \<and> next_in_key_serial k = t)"
proof -
  let ?xs = "map (\<lambda>k. (serial_no k, next_in_key_serial k)) keys"
  have "map fst ?xs = map serial_no keys" by simp
  with assms have "distinct (map fst ?xs)" by (metis serials_ok_def)
  then have "map_of ?xs s = Some t \<longleftrightarrow> (s, t) \<in> set ?xs" by (rule map_of_eq_Some_iff)
  then show ?thesis by (auto simp: next_map_def)
qed

lemma name_map_iff:
  assumes "serials_ok keys"
  shows "name_map keys s = Some t \<longleftrightarrow> (\<exists>k\<in>set keys. serial_no k = s \<and> col_name k = t)"
proof -
  let ?xs = "map (\<lambda>k. (serial_no k, col_name k)) keys"
  have "map fst ?xs = map serial_no keys" by simp
  with assms have "distinct (map fst ?xs)" by (metis serials_ok_def)
  then have "map_of ?xs s = Some t \<longleftrightarrow> (s, t) \<in> set ?xs" by (rule map_of_eq_Some_iff)
  then show ?thesis by (auto simp: name_map_def)
qed

lemma serial_unique:
  assumes "serials_ok keys" "i < length keys" "j < length keys" "serial_no (keys ! i) = serial_no (keys ! j)"
  shows "i = j"
proof -
  have "distinct (map serial_no keys)" using assms(1) by (simp add: serials_ok_def)
  with assms(2-4) show ?thesis by (metis length_map nth_eq_iff_index_eq nth_map)
qed

lemma serial_in_range:
  assumes "serials_ok keys" and "k \<in> set keys"
  shows "in_range (serial_no k) keys"
proof -
  from assms(2) have "serial_no k \<in> set (map serial_no keys)" by simp
  with assms(1) show ?thesis by (simp add: serials_ok_def in_range_def del: set_map)
qed

lemma serial_has_col:
  assumes "serials_ok keys" and "in_range s keys"
  obtains i where "i < length keys" "serial_no (keys ! i) = s"
proof -
  have "s \<in> set (map serial_no keys)" using assms by (simp add: serials_ok_def in_range_def del: set_map)
  then show thesis using that by (auto simp: in_set_conv_nth)
qed

lemma schain_in_range:
  assumes "serials_ok keys" and "schain (next_map keys) s ss" and "x \<in> set ss"
  shows "in_range x keys"
  using assms(2,3)
proof (induction ss arbitrary: s)
  case (Cons y ys)
  then obtain t where t: "next_map keys y = Some t" "schain (next_map keys) t ys"
    by (auto split: option.splits)
  from t(1) obtain k where "k \<in> set keys" "serial_no k = y" using next_map_iff [OF assms(1)] by blast
  then have "in_range y keys" using serial_in_range [OF assms(1)] by blast
  with Cons t show ?case by auto
qed simp

lemma schain_mono: "m \<subseteq>\<^sub>m m' \<Longrightarrow> schain m s ss \<Longrightarrow> schain m' s ss"
proof (induction ss arbitrary: s)
  case (Cons x xs)
  then obtain t where t: "s = x" "m x = Some t" "schain m t xs" by (auto split: option.splits)
  with Cons.prems(1) have "m' x = Some t" by (auto simp: map_le_def dom_def)
  with t Cons show ?case by simp
qed simp

lemma schain_unique: "schain m s ss \<Longrightarrow> schain m s ts \<Longrightarrow> -1 \<notin> set ss \<Longrightarrow> -1 \<notin> set ts \<Longrightarrow> ss = ts"
proof (induction ss arbitrary: s ts)
  case Nil
  then show ?case by (cases ts) auto
next
  case (Cons x xs)
  then show ?case by (cases ts) (auto split: option.splits)
qed

end
