(* ===== verification/Key_Links.thy ===== *)
theory Key_Links
  imports Key_Columns "HOL-Library.Multiset"
begin

text \<open>
  Correctness of the link repair of \<open>add_key_column\<close>: the map from serial numbers to
  positions, the walk along the chain of one index, all indexes, the path info, and the
  routine as a whole.
\<close>

subsection \<open>The map from serial numbers to positions\<close>

definition bucket_ok :: "key_col list \<Rightarrow> nat \<Rightarrow> bool" where
  "bucket_ok keys m \<longleftrightarrow> idx_map_bucket (keys ! nat (serial_no (keys ! m))) = int m"

definition buckets_ok :: "key_col list \<Rightarrow> bool" where
  "buckets_ok keys \<longleftrightarrow> (\<forall>m<length keys. bucket_ok keys m)"

abbreviation no_bucket :: "key_col \<Rightarrow> key_col" where
  "no_bucket k \<equiv> k\<lparr>idx_map_bucket := 0\<rparr>"

abbreviation no_next :: "key_col \<Rightarrow> key_col" where
  "no_next k \<equiv> k\<lparr>next_in_key := 0\<rparr>"

lemma map_eq_nth: "map f xs = map f ys \<Longrightarrow> i < length xs \<Longrightarrow> f (xs ! i) = f (ys ! i)"
  by (metis length_map nth_map)

lemma view_erase: "map view (map no_bucket ks) = map view ks" "map view (map no_next ks) = map view ks"
  by (induction ks) (simp_all add: view_def)

lemma no_bucket_view: "map no_bucket keys = map no_bucket keys' \<Longrightarrow> map view keys = map view keys'"
  using view_erase(1) [of keys] view_erase(1) [of keys'] by argo

lemma no_next_view: "map no_next keys = map no_next keys' \<Longrightarrow> map view keys = map view keys'"
  using view_erase(2) [of keys] view_erase(2) [of keys'] by argo

lemma no_bucket_next_in_key:
  assumes "map no_bucket keys = map no_bucket keys'" and "i < length keys"
  shows "next_in_key (keys' ! i) = next_in_key (keys ! i)"
proof -
  from map_eq_nth [OF assms] have "no_bucket (keys ! i) = no_bucket (keys' ! i)" .
  from arg_cong [OF this, of next_in_key] show ?thesis by simp
qed

lemma fill_buckets_ok:
  assumes "serials_ok keys" and "\<forall>n\<in>set ns. n < length keys"
  shows "\<exists>keys'. fill_buckets ns keys = Some keys' \<and> map no_bucket keys' = map no_bucket keys \<and>
     (\<forall>m<length keys. bucket_ok keys m \<or> m \<in> set ns \<longrightarrow> bucket_ok keys' m)"
  using assms
proof (induction ns arbitrary: keys)
  case Nil
  then show ?case by simp
next
  case (Cons n ns)
  let ?s = "serial_no (keys ! n)"
  let ?k1 = "keys[nat ?s := (keys ! nat ?s)\<lparr>idx_map_bucket := int n\<rparr>]"
  from Cons.prems have n: "n < length keys" by simp
  with Cons.prems(1) have r: "in_range ?s keys" by (simp add: serial_in_range)
  have sh: "to_short (int n) = int n" using n Cons.prems(1) by (intro to_short_int) (simp add: serials_ok_def)
  have nb: "map no_bucket ?k1 = map no_bucket keys"
    by (rule map_update_same) simp
  then have view: "map view keys = map view ?k1" by (metis no_bucket_view)
  have b: "bucket_ok keys m \<or> m = n \<longrightarrow> bucket_ok ?k1 m" if "m < length keys" for m
  proof -
    have "nat (serial_no (keys ! m)) = nat ?s \<longleftrightarrow> m = n"
    proof -
      have "in_range (serial_no (keys ! m)) keys" using Cons.prems(1) that by (simp add: serial_in_range)
      with r serial_unique [OF Cons.prems(1) that n] show ?thesis by (auto simp: in_range_def)
    qed
    with in_range_nat_lt [OF r] show ?thesis
      unfolding bucket_ok_def view_nth(1) [OF view that] by (cases "m = n") simp_all
  qed
  have "serials_ok ?k1" using Cons.prems(1) view_maps(5) [OF view] by simp
  with Cons.IH [of ?k1] Cons.prems(2) obtain keys' where k':
    "fill_buckets ns ?k1 = Some keys'" "map no_bucket keys' = map no_bucket ?k1"
    "\<forall>m<length keys. bucket_ok ?k1 m \<or> m \<in> set ns \<longrightarrow> bucket_ok keys' m" by auto
  have "fill_buckets (n # ns) keys = Some keys'"
    using k'(1) n r sh by (simp add: arr_simps)
  with k' nb b show ?case by (intro exI [of _ keys']) auto
qed

lemma bucket_position:
  assumes "serials_ok keys" and "buckets_ok keys" and "in_range s keys"
  shows "at_serial keys (idx_map_bucket (keys ! nat s)) s"
proof -
  from assms(1,3) obtain m where m: "m < length keys" "serial_no (keys ! m) = s" by (rule serial_has_col)
  with assms(2) have "idx_map_bucket (keys ! nat s) = int m" by (auto simp: buckets_ok_def bucket_ok_def)
  with m show ?thesis by (simp add: at_serial_def in_range_def)
qed

subsection \<open>Following one chain\<close>

text \<open>
  \<open>relinked keys keys'\<close>: only \<open>next_in_key\<close> fields differ, and no link that was right has
  been broken.
\<close>

definition relinked :: "key_col list \<Rightarrow> key_col list \<Rightarrow> bool" where
  "relinked keys keys' \<longleftrightarrow>
     map no_next keys = map no_next keys' \<and> (tails_ok keys \<longrightarrow> tails_ok keys') \<and>
     (\<forall>c<length keys. link_ok keys (keys ! c) \<longrightarrow> link_ok keys' (keys' ! c))"

lemma relinked_refl [simp]: "relinked keys keys"
  by (simp add: relinked_def)

lemma relinked_view: "relinked keys keys' \<Longrightarrow> map view keys = map view keys'"
  unfolding relinked_def by (elim conjE) (rule no_next_view)

lemma relinked_length: "relinked keys keys' \<Longrightarrow> length keys' = length keys"
  by (metis relinked_view view_length)

lemma relinked_trans: "relinked a b \<Longrightarrow> relinked b c \<Longrightarrow> relinked a c"
  using relinked_length [of a b] by (simp add: relinked_def)

lemma relinked_bucket:
  assumes "relinked keys keys'" and "i < length keys"
  shows "idx_map_bucket (keys' ! i) = idx_map_bucket (keys ! i)"
proof -
  from assms have "no_next (keys ! i) = no_next (keys' ! i)" by (auto simp: relinked_def intro: map_eq_nth)
  from arg_cong [OF this, of idx_map_bucket] show ?thesis by simp
qed

lemma relinked_buckets_ok:
  assumes "relinked keys keys'" and "serials_ok keys" and "buckets_ok keys"
  shows "buckets_ok keys'"
proof -
  note v = relinked_view [OF assms(1)]
  have "bucket_ok keys' m" if m: "m < length keys" for m
  proof -
    have "nat (serial_no (keys ! m)) < length keys"
      using assms(2) m by (simp add: in_range_nat_lt serial_in_range)
    with assms(3) m relinked_bucket [OF assms(1) this] view_nth(1) [OF v m] show ?thesis
      by (simp add: buckets_ok_def bucket_ok_def)
  qed
  then show ?thesis by (simp add: buckets_ok_def relinked_length [OF assms(1)])
qed

lemma relinked_cols_ok: "relinked keys keys' \<Longrightarrow> cols_ok keys \<Longrightarrow> cols_ok keys'"
  using view_maps [OF relinked_view] by (auto simp: cols_ok_def relinked_def)

lemma relinked_chain_linked:
  assumes "relinked keys keys'" and "chain_linked keys ss"
  shows "chain_linked keys' ss"
proof -
  note v = relinked_view [OF assms(1)]
  show ?thesis unfolding chain_linked_def
  proof (intro ballI impI)
    fix k assume "k \<in> set keys'" and s: "serial_no k \<in> set ss"
    then obtain c where c: "c < length keys" "k = keys' ! c"
      using relinked_length [OF assms(1)] by (auto simp: in_set_conv_nth)
    with s view_nth(1) [OF v c(1)] assms(2) have "link_ok keys (keys ! c)" by (simp add: chain_linked_def)
    with assms(1) c show "link_ok keys' k" by (simp add: relinked_def)
  qed
qed

lemma relinked_index_ok:
  assumes "relinked keys keys'" and "index_ok keys ix"
  shows "index_ok keys' ix"
proof -
  note v = relinked_view [OF assms(1)]
  from assms(2) obtain ss where "head_ok keys ix"
    "schain (next_map keys) (first_col_serial ix) ss" "chain_linked keys ss"
    by (auto simp: index_ok_def)
  then show ?thesis unfolding index_ok_def head_ok_def
    using relinked_chain_linked [OF assms(1)]
    by (auto simp: view_at_serial [OF v] view_maps(3) [OF v])
qed

text \<open>The loop ends, stays inside the array, and leaves every item of the chain linked.\<close>

lemma fix_links_ok:
  assumes "serials_ok keys" and "buckets_ok keys" and "tails_ok keys" and "in_range this_col keys"
    and "next_in_key_serial (keys ! nat this_col) = s" and "schain (next_map keys) s ss"
  shows "\<exists>keys'. fix_links keys this_col s = Some keys' \<and> relinked keys keys' \<and>
     link_ok keys' (keys' ! nat this_col) \<and> chain_linked keys' ss"
  using assms
proof (induction ss arbitrary: keys this_col s)
  case Nil
  then have "link_ok keys (keys ! nat this_col)"
    using in_range_nth_mem [OF Nil.prems(4)] by (auto simp: link_ok_def tails_ok_def)
  with Nil show ?case by (simp add: fix_links.simps chain_linked_def)
next
  case (Cons x xs)
  let ?b = "idx_map_bucket (keys ! nat x)"
  let ?k1 = "keys[nat this_col := (keys ! nat this_col)\<lparr>next_in_key := ?b\<rparr>]"
  from Cons.prems(6) obtain t where s: "s = x" and t: "next_map keys x = Some t" "schain (next_map keys) t xs"
    by (auto split: option.splits)
  have x: "in_range x keys" using schain_in_range [OF Cons.prems(1,6)] by simp
  then have "x \<noteq> -1" by (auto simp: in_range_def)
  have b: "at_serial keys ?b x" using bucket_position [OF Cons.prems(1,2) x] .
  have nn: "map no_next keys = map no_next ?k1"
    by (rule map_update_same [symmetric]) simp
  note v = no_next_view [OF nn]
  have this1: "link_ok ?k1 (?k1 ! nat this_col)"
    using Cons.prems(4,5) s b \<open>x \<noteq> -1\<close> in_range_nat_lt [OF Cons.prems(4)]
    by (auto simp: link_ok_def view_at_serial [OF v])
  have rel: "relinked keys ?k1"
  proof -
    have "tails_ok ?k1"
      using Cons.prems(3,5) s \<open>x \<noteq> -1\<close> unfolding tails_ok_def
      by (auto dest!: set_update_subset_insert [THEN subsetD])
    moreover have "link_ok keys (keys ! c) \<longrightarrow> link_ok ?k1 (?k1 ! c)" for c
      using this1 by (cases "c = nat this_col") (auto simp: view_link_ok [OF v])
    ultimately show ?thesis using nn by (simp add: relinked_def)
  qed
  have br: "in_range ?b keys" using b by (simp add: at_serial_def)
  have nt: "next_in_key_serial (?k1 ! nat ?b) = t"
  proof -
    from b have "keys ! nat ?b \<in> set keys" "serial_no (keys ! nat ?b) = x"
      by (auto simp: at_serial_def in_range_nth_mem)
    with next_map_iff [OF Cons.prems(1), of x "next_in_key_serial (keys ! nat ?b)"] t(1)
    have "next_in_key_serial (keys ! nat ?b) = t" by auto
    with view_nth(2) [OF v in_range_nat_lt [OF br]] show ?thesis by simp
  qed
  have "serials_ok ?k1" "buckets_ok ?k1" "tails_ok ?k1" "in_range ?b ?k1" "schain (next_map ?k1) t xs"
    using Cons.prems rel br t(2) view_maps(3,5) [OF v] relinked_buckets_ok [OF rel]
    by (auto simp: relinked_def in_range_def)
  with Cons.IH [OF _ _ _ _ nt] obtain keys' where k': "fix_links ?k1 ?b t = Some keys'" "relinked ?k1 keys'"
    "link_ok keys' (keys' ! nat ?b)" "chain_linked keys' xs" by blast
  have "fix_links keys this_col s = Some keys'"
    using k'(1) \<open>x \<noteq> -1\<close> s x br nt Cons.prems(4)
    by (subst fix_links.simps) (simp add: arr_simps in_range_length_eq [of ?k1 keys])
  moreover have "relinked keys keys'" using rel k'(2) by (rule relinked_trans)
  moreover have "link_ok keys' (keys' ! nat this_col)"
    using k'(2) this1 in_range_nat_lt [OF Cons.prems(4)] by (simp add: relinked_def)
  moreover have "chain_linked keys' (x # xs)"
  proof -
    note v' = relinked_view [OF \<open>relinked keys keys'\<close>]
    have "k = keys' ! nat ?b" if "k \<in> set keys'" "serial_no k = x" for k
    proof -
      from that obtain i where i: "i < length keys'" "k = keys' ! i" by (auto simp: in_set_conv_nth)
      have "serials_ok keys'" using Cons.prems(1) view_maps(5) [OF v'] by simp
      moreover have "at_serial keys' ?b x" using b by (simp add: view_at_serial [OF v'])
      ultimately show ?thesis using serial_unique [of keys' i "nat ?b"] i that
        by (auto simp: at_serial_def in_range_nat_lt)
    qed
    with k'(3,4) show ?thesis by (auto simp: chain_linked_def)
  qed
  ultimately show ?case by blast
qed

subsection \<open>All indexes\<close>

text \<open>Two indexes that differ at most in the cached position of their first column.\<close>

definition same_index :: "index \<Rightarrow> index \<Rightarrow> bool" where
  "same_index ix ix' \<longleftrightarrow> ix\<lparr>first_col := 0\<rparr> = ix'\<lparr>first_col := 0\<rparr>"

definition index_ready :: "key_col list \<Rightarrow> index \<Rightarrow> bool" where
  "index_ready keys ix \<longleftrightarrow>
     (first_col_serial ix = -1 \<longrightarrow> first_col ix = -1) \<and>
     (\<exists>ss. schain (next_map keys) (first_col_serial ix) ss)"

lemma same_index_serial: "same_index ix ix' \<Longrightarrow> first_col_serial ix' = first_col_serial ix"
  unfolding same_index_def by (drule arg_cong [where f = first_col_serial]) simp

lemma same_index_name: "same_index ix ix' \<Longrightarrow> idx_name ix' = idx_name ix"
  unfolding same_index_def by (drule arg_cong [where f = idx_name]) simp

lemma relinked_ready: "relinked keys keys' \<Longrightarrow> index_ready keys ix \<Longrightarrow> index_ready keys' ix"
  by (simp add: index_ready_def view_maps(3) [OF relinked_view])

lemma fix_index_ok:
  assumes "serials_ok keys" and "buckets_ok keys" and "tails_ok keys" and "index_ready keys ix"
  shows "\<exists>ix' keys'. fix_index ix keys = Some (ix', keys') \<and> same_index ix ix' \<and>
     relinked keys keys' \<and> index_ok keys' ix'"
proof (cases "first_col_serial ix = -1")
  case True
  with assms(4) have "index_ok keys ix"
    by (auto simp: index_ok_def head_ok_def index_ready_def chain_linked_def intro: exI [of _ "[]"])
  with True show ?thesis by (simp add: fix_index_def same_index_def)
next
  case False
  from assms(4) obtain ss where ss: "schain (next_map keys) (first_col_serial ix) ss"
    by (auto simp: index_ready_def)
  with False obtain x xs t where x: "ss = x # xs" "x = first_col_serial ix"
      "next_map keys x = Some t" "schain (next_map keys) t xs"
    by (cases ss) (auto split: option.splits)
  let ?b = "idx_map_bucket (keys ! nat x)"
  have rx: "in_range x keys" using schain_in_range [OF assms(1) ss] x(1) by simp
  have b: "at_serial keys ?b x" using bucket_position [OF assms(1,2) rx] .
  then have rb: "in_range ?b keys" by (simp add: at_serial_def)
  have "next_in_key_serial (keys ! nat ?b) = t"
    using next_map_iff [OF assms(1), of x "next_in_key_serial (keys ! nat ?b)"] x(3) b
      in_range_nth_mem [OF rb] by (auto simp: at_serial_def)
  from fix_links_ok [OF assms(1-3) rb this x(4)] obtain keys' where k':
    "fix_links keys ?b t = Some keys'" "relinked keys keys'"
    "link_ok keys' (keys' ! nat ?b)" "chain_linked keys' xs" by blast
  note v = relinked_view [OF k'(2)]
  have at': "at_serial keys' ?b x" using b by (simp add: view_at_serial [OF v])
  have "serials_ok keys'" using assms(1) view_maps(5) [OF v] by simp
  with at' k'(3) have "link_ok keys' k" if "k \<in> set keys'" "serial_no k = x" for k
    using that serial_unique [of keys' _ "nat ?b"]
    by (auto simp: at_serial_def in_range_nat_lt in_set_conv_nth)
  with k'(4) x(1) have "chain_linked keys' ss" by (auto simp: chain_linked_def)
  then have "index_ok keys' (ix\<lparr>first_col := ?b\<rparr>)"
    using ss False at' x(2) by (auto simp: index_ok_def head_ok_def view_maps(3) [OF v])
  moreover have "fix_index ix keys = Some (ix\<lparr>first_col := ?b\<rparr>, keys')"
    using False x(2) rx rb k'(1) \<open>next_in_key_serial (keys ! nat ?b) = t\<close>
    by (simp add: fix_index_def arr_simps)
  ultimately show ?thesis using k'(2) by (auto simp: same_index_def)
qed

lemma fix_indexes_ok:
  assumes "serials_ok keys" and "buckets_ok keys" and "tails_ok keys" and "\<forall>ix\<in>set ixs. index_ready keys ix"
  shows "\<exists>ixs' keys'. fix_indexes ixs keys = Some (ixs', keys') \<and> list_all2 same_index ixs ixs' \<and>
     relinked keys keys' \<and> (\<forall>ix\<in>set ixs'. index_ok keys' ix)"
  using assms
proof (induction ixs arbitrary: keys)
  case Nil
  then show ?case by simp
next
  case (Cons ix ixs)
  from fix_index_ok [OF Cons.prems(1-3), of ix] Cons.prems(4) obtain ix' k1 where i:
    "fix_index ix keys = Some (ix', k1)" "same_index ix ix'" "relinked keys k1" "index_ok k1 ix'" by auto
  have "serials_ok k1" "buckets_ok k1" "tails_ok k1" "\<forall>ix\<in>set ixs. index_ready k1 ix"
    using Cons.prems i(3) view_maps(5) [OF relinked_view [OF i(3)]] relinked_buckets_ok [OF i(3)]
      relinked_ready [OF i(3)] by (auto simp: relinked_def)
  from Cons.IH [OF this] obtain ixs' k2 where r: "fix_indexes ixs k1 = Some (ixs', k2)"
    "list_all2 same_index ixs ixs'" "relinked k1 k2" "\<forall>ix\<in>set ixs'. index_ok k2 ix" by blast
  from i r have "fix_indexes (ix # ixs) keys = Some (ix' # ixs', k2)" by simp
  with i r relinked_trans [OF i(3) r(3)] relinked_index_ok [OF r(3) i(4)] show ?case
    by (intro exI [of _ "ix' # ixs'"] exI [of _ k2]) auto
qed

subsection \<open>The path info\<close>

lemma fix_pathinfo_ok:
  assumes "serials_ok keys" and "buckets_ok keys" and "length pi = 2 * sz" and "\<forall>n\<in>set ns. n < sz"
    and "\<forall>n<sz. in_range (pi ! (n + sz)) keys"
  shows "\<exists>pi'. fix_pathinfo ns sz keys pi = Some pi' \<and> length pi' = 2 * sz \<and>
     (\<forall>n<sz. pi' ! (n + sz) = pi ! (n + sz)) \<and>
     (\<forall>n<sz. at_serial keys (pi ! n) (pi ! (n + sz)) \<or> n \<in> set ns \<longrightarrow> at_serial keys (pi' ! n) (pi' ! (n + sz)))"
  using assms(3-)
proof (induction ns arbitrary: pi)
  case Nil
  then show ?case by simp
next
  case (Cons n ns)
  let ?s = "pi ! (n + sz)"
  let ?b = "idx_map_bucket (keys ! nat ?s)"
  let ?p = "pi[n := ?b]"
  from Cons.prems have n: "n < sz" and s: "in_range ?s keys" by auto
  have at: "at_serial keys ?b ?s" by (rule bucket_position [OF assms(1,2) s])
  have p: "?p ! (m + sz) = pi ! (m + sz)" for m using n by simp
  from Cons.IH [of ?p] Cons.prems p obtain pi' where r: "fix_pathinfo ns sz keys ?p = Some pi'"
     "length pi' = 2 * sz" "\<forall>m<sz. pi' ! (m + sz) = pi ! (m + sz)"
     "\<forall>m<sz. at_serial keys (?p ! m) (pi ! (m + sz)) \<or> m \<in> set ns \<longrightarrow> at_serial keys (pi' ! m) (pi' ! (m + sz))"
    by auto
  have "at_serial keys (?p ! m) (pi ! (m + sz))"
    if "m < sz" "at_serial keys (pi ! m) (pi ! (m + sz)) \<or> m = n" for m
    using that at n Cons.prems(1) by (cases "m = n") auto
  moreover have "fix_pathinfo (n # ns) sz keys pi = Some pi'"
    using n s r(1) Cons.prems(1) in_range_int [of "n + sz" pi] by (simp add: arr_simps nat_int_add)
  ultimately show ?case using r by (intro exI [of _ pi']) auto
qed

subsection \<open>The hole\<close>

lemma serials_open_hole:
  assumes "serials_ok keys" and "i \<le> length keys" and "length keys < 32768"
  shows "serials_ok (open_hole keys (int i) kn)"
proof -
  let ?h = "open_hole keys (int i) kn"
  have m: "mset (map serial_no ?h) = add_mset (int (length keys)) (mset (map serial_no keys))"
    using assms(3) by (simp add: open_hole_def new_key_col_def to_short_int) (metis append_take_drop_id image_mset_union mset_append)
  have d: "distinct (int (length keys) # map serial_no keys)" and
    s: "set (int (length keys) # map serial_no keys) = {0..<int (Suc (length keys))}"
    using assms(1) by (auto simp: serials_ok_def simp flip: set_map)
  from m have "mset (map serial_no ?h) = mset (int (length keys) # map serial_no keys)" by simp
  with d s assms(2,3) show ?thesis unfolding serials_ok_def
    by (metis Suc_leI length_open_hole mset_eq_imp_distinct_iff mset_eq_setD)
qed

lemma next_map_open_hole:
  assumes "serials_ok keys" and "i \<le> length keys" and "length keys < 32768"
  shows "next_map keys \<subseteq>\<^sub>m next_map (open_hole keys (int i) kn)"
  unfolding map_le_def
proof
  fix s assume "s \<in> dom (next_map keys)"
  then obtain t where t: "next_map keys s = Some t" by auto
  then have "next_map (open_hole keys (int i) kn) s = Some t"
    using next_map_iff [OF assms(1)] next_map_iff [OF serials_open_hole [OF assms]]
    by (auto simp: set_open_hole)
  with t show "next_map keys s = next_map (open_hole keys (int i) kn) s" by simp
qed

lemma name_map_open_hole:
  assumes "serials_ok keys" and "i \<le> length keys" and "length keys < 32768"
  shows "name_map keys \<subseteq>\<^sub>m name_map (open_hole keys (int i) kn)"
  unfolding map_le_def
proof
  fix s assume "s \<in> dom (name_map keys)"
  then obtain t where t: "name_map keys s = Some t" by auto
  then have "name_map (open_hole keys (int i) kn) s = Some t"
    using name_map_iff [OF assms(1)] name_map_iff [OF serials_open_hole [OF assms]]
    by (auto simp: set_open_hole)
  with t show "name_map keys s = name_map (open_hole keys (int i) kn) s" by simp
qed

lemma tails_open_hole: "tails_ok keys \<Longrightarrow> tails_ok (open_hole keys (int i) kn)"
  by (auto simp: tails_ok_def set_open_hole new_key_col_def zero_key_col_def)

subsection \<open>The routine as a whole\<close>

text \<open>
  \<open>extends d d'\<close>: \<open>d'\<close> has the columns of \<open>d\<close> and perhaps more; serial numbers, their
  names, the chains, the indexes and the path info are those of \<open>d\<close>, and every field but the
  three link structures is unchanged.
\<close>

definition frame :: "dir \<Rightarrow> dir" where
  "frame d = d\<lparr>key_columns := [], indexes := [], pathinfo := []\<rparr>"

definition extends :: "dir \<Rightarrow> dir \<Rightarrow> bool" where
  "extends d d' \<longleftrightarrow>
     list_all2 same_index (indexes d) (indexes d') \<and>
     next_map (key_columns d) \<subseteq>\<^sub>m next_map (key_columns d') \<and>
     name_map (key_columns d) \<subseteq>\<^sub>m name_map (key_columns d') \<and>
     (\<forall>n<nat (pathinfo_size d). pathinfo d' ! (n + nat (pathinfo_size d)) = pathinfo d ! (n + nat (pathinfo_size d))) \<and>
     frame d' = frame d"

lemma frame_pathinfo_size: "frame d' = frame d \<Longrightarrow> pathinfo_size d' = pathinfo_size d"
  unfolding frame_def by (drule arg_cong [where f = pathinfo_size]) simp

lemma extends_refl: "extends d d"
  by (auto simp: extends_def same_index_def intro!: list_all2_refl)

lemma relink_ok:
  assumes "serials_ok keys" and "tails_ok keys" and "\<forall>ix\<in>set (indexes d). index_ready keys ix"
    and "0 \<le> pathinfo_size d" and "int (length (pathinfo d)) = 2 * pathinfo_size d"
    and "\<forall>n<nat (pathinfo_size d). in_range (pathinfo d ! (n + nat (pathinfo_size d))) keys"
  shows "\<exists>d'. relink d keys = Some d' \<and> map view (key_columns d') = map view keys \<and>
     tails_ok (key_columns d') \<and> list_all2 same_index (indexes d) (indexes d') \<and>
     (\<forall>ix\<in>set (indexes d'). index_ok (key_columns d') ix) \<and>
     int (length (pathinfo d')) = 2 * pathinfo_size d \<and> frame d' = frame d \<and>
     (\<forall>n<nat (pathinfo_size d). pathinfo d' ! (n + nat (pathinfo_size d)) = pathinfo d ! (n + nat (pathinfo_size d)) \<and>
        at_serial (key_columns d') (pathinfo d' ! n) (pathinfo d' ! (n + nat (pathinfo_size d))))"
proof -
  let ?sz = "nat (pathinfo_size d)"
  from fill_buckets_ok [OF assms(1), of "[0..<length keys]"] obtain k1 where k1:
    "fill_buckets [0..<length keys] keys = Some k1" "map no_bucket k1 = map no_bucket keys"
    "\<forall>m<length keys. bucket_ok k1 m" by auto
  note v1 = no_bucket_view [OF k1(2)]
  have len1: "length k1 = length keys" using k1(2) by (metis length_map)
  have s1: "serials_ok k1" using assms(1) view_maps(5) [OF v1] by simp
  have b1: "buckets_ok k1" using k1(3) len1 by (simp add: buckets_ok_def)
  have t1: "tails_ok k1"
    unfolding tails_ok_def
  proof (intro ballI impI)
    fix k assume "k \<in> set k1" "next_in_key_serial k = -1"
    then obtain i where i: "i < length k1" "k = k1 ! i" "next_in_key_serial (k1 ! i) = -1"
      by (auto simp: in_set_conv_nth)
    then have "next_in_key_serial (keys ! i) = -1" using view_nth(2) [OF v1] by simp
    with assms(2) i len1 have "next_in_key (keys ! i) = -1" by (simp add: tails_ok_def)
    with no_bucket_next_in_key [OF k1(2)] i show "next_in_key k = -1" by simp
  qed
  have "\<forall>ix\<in>set (indexes d). index_ready k1 ix"
    using assms(3) view_maps(3) [OF v1] by (simp add: index_ready_def)
  from fix_indexes_ok [OF s1 b1 t1 this] obtain ixs k2 where k2:
    "fix_indexes (indexes d) k1 = Some (ixs, k2)" "list_all2 same_index (indexes d) ixs"
    "relinked k1 k2" "\<forall>ix\<in>set ixs. index_ok k2 ix" by blast
  note v2 = relinked_view [OF k2(3)]
  have s2: "serials_ok k2" using s1 view_maps(5) [OF v2] by simp
  have b2: "buckets_ok k2" by (rule relinked_buckets_ok [OF k2(3) s1 b1])
  have len2: "length k2 = length keys" using relinked_length [OF k2(3)] len1 by simp
  have "\<forall>n<?sz. in_range (pathinfo d ! (n + ?sz)) k2" using assms(6) len2 by (simp add: in_range_def)
  moreover have "length (pathinfo d) = 2 * ?sz" using assms(4,5) by simp
  ultimately obtain pi where pi:
    "fix_pathinfo [0..<?sz] ?sz k2 (pathinfo d) = Some pi" "length pi = 2 * ?sz"
    "\<forall>n<?sz. pi ! (n + ?sz) = pathinfo d ! (n + ?sz)"
    "\<forall>n<?sz. at_serial k2 (pi ! n) (pi ! (n + ?sz))"
    using fix_pathinfo_ok [OF s2 b2, of "pathinfo d" ?sz "[0..<?sz]"] by fastforce
  have "relink d keys = Some (d\<lparr>key_columns := k2, indexes := ixs, pathinfo := pi\<rparr>)"
    using k1(1) k2(1) pi(1) by (simp add: relink_def)
  moreover have "tails_ok k2" using k2(3) t1 by (simp add: relinked_def)
  moreover have "map view k2 = map view keys" using v1 v2 by simp
  ultimately show ?thesis using k2(2,4) pi assms(4) by (simp add: frame_def)
qed

lemma at_serial_append: "at_serial keys c s \<Longrightarrow> at_serial (keys @ ks) c s"
  by (auto simp: at_serial_def in_range_def nth_append)

lemma index_ok_append:
  assumes "serials_ok keys" and "index_ok keys ix" and "length keys < 32768"
  shows "index_ok (open_hole keys (int (length keys)) kn) ix"
proof -
  let ?h = "open_hole keys (int (length keys)) kn"
  from assms(2) obtain ss where ss: "head_ok keys ix" "schain (next_map keys) (first_col_serial ix) ss"
    "chain_linked keys ss" by (auto simp: index_ok_def)
  have h: "?h = keys @ [new_key_col kn (int (length keys))]" by (simp add: open_hole_def)
  have "head_ok ?h ix" using ss(1) by (auto simp: head_ok_def h intro: at_serial_append)
  moreover have "schain (next_map ?h) (first_col_serial ix) ss"
    by (rule schain_mono [OF next_map_open_hole [OF assms(1) _ assms(3)] ss(2)]) simp
  moreover have "chain_linked ?h ss"
    using ss(3) schain_in_range [OF assms(1) ss(2), of "int (length keys)"]
    by (auto simp: chain_linked_def h link_ok_def new_key_col_def in_range_def to_short_int [OF assms(3)] intro: at_serial_append)
  ultimately show ?thesis by (auto simp: index_ok_def)
qed

lemma index_ok_ready:
  assumes "serials_ok keys" "i \<le> length keys" "length keys < 32768" "index_ok keys ix"
  shows "index_ready (open_hole keys (int i) kn) ix"
  using assms(4) schain_mono [OF next_map_open_hole [OF assms(1-3)]]
  by (auto simp: index_ok_def index_ready_def head_ok_def split: if_splits)

text \<open>The columns of a directory and those of a list of names: not more than a \<open>short\<close> can count.\<close>

definition columns_fit :: "dir \<Rightarrow> string list \<Rightarrow> bool" where
  "columns_fit d ws \<longleftrightarrow> card (set (names (key_columns d)) \<union> set ws) \<le> 32768"

lemma columns_fit_step:
  assumes "columns_fit d (xs @ ws)" and "set (names (key_columns d')) \<subseteq> set xs \<union> set (names (key_columns d))"
  shows "columns_fit d' ws"
proof -
  have "set (names (key_columns d')) \<union> set ws \<subseteq> set (names (key_columns d)) \<union> set (xs @ ws)" using assms(2) by auto
  then have "card (set (names (key_columns d')) \<union> set ws) \<le> card (set (names (key_columns d)) \<union> set (xs @ ws))"
    by (rule card_mono [rotated]) simp
  with assms(1) show ?thesis by (simp add: columns_fit_def)
qed

lemma columns_fit_subset: "columns_fit d ws \<Longrightarrow> set vs \<subseteq> set ws \<Longrightarrow> columns_fit d vs"
  using columns_fit_step [of d ws vs d] card_mono [of "set (names (key_columns d)) \<union> set ws" "set (names (key_columns d)) \<union> set vs"]
  by (fastforce simp: columns_fit_def)

lemma columns_fit_one:
  assumes "sorted_names (key_columns d)" and "columns_fit d ws" and "kn \<in> set ws"
  shows "length (key_columns d) < 32768 \<or> kn \<in> set (names (key_columns d))"
proof (rule disjCI)
  assume n: "kn \<notin> set (names (key_columns d))"
  have "distinct (names (key_columns d))" using assms(1) by (simp add: sorted_names_def strict_sorted_iff)
  then have "card (set (names (key_columns d))) = length (key_columns d)" by (metis distinct_card length_map)
  moreover have "card (insert kn (set (names (key_columns d)))) \<le> card (set (names (key_columns d)) \<union> set ws)"
    using assms(3) by (intro card_mono) auto
  ultimately show "length (key_columns d) < 32768" using n assms(2) by (simp add: columns_fit_def del: set_map)
qed

lemma columns_fit_new:
  assumes "dir_ok d" and "kn \<in> set (names (key_columns d)) \<or> length (key_columns d) < 32768"
  shows "columns_fit d [kn]"
proof -
  have len: "length (key_columns d) \<le> 32768"
    using assms(1) by (simp add: dir_ok_def dir_ok_upto_def cols_ok_def serials_ok_def)
  have card: "card (set (names (key_columns d))) \<le> length (key_columns d)" using card_length [of "names (key_columns d)"] by simp
  show ?thesis
  proof (cases "kn \<in> set (names (key_columns d))")
    case True
    then have "set (names (key_columns d)) \<union> set [kn] = set (names (key_columns d))" by auto
    with len card show ?thesis unfolding columns_fit_def by (simp del: set_map)
  next
    case False
    have "card (set (names (key_columns d)) \<union> set [kn]) \<le> Suc (card (set (names (key_columns d))))"
      using card_Un_le [of "set (names (key_columns d))" "set [kn]"] by simp
    moreover have "length (key_columns d) < 32768" using assms(2) False by blast
    ultimately show ?thesis using card unfolding columns_fit_def by linarith
  qed
qed

theorem add_key_column_ok:
  assumes "dir_ok_upto m d" and "columns_fit d ws" and "kn \<in> set ws"
  shows "\<exists>d' i ex. add_key_column d kn = Some (d', i, ex) \<and> dir_ok_upto m d' \<and> extends d d' \<and>
     in_range i (key_columns d') \<and> col_name (key_columns d' ! nat i) = kn \<and>
     (ex \<longleftrightarrow> kn \<in> set (names (key_columns d))) \<and> (ex \<longrightarrow> d' = d) \<and>
     set (names (key_columns d')) = insert kn (set (names (key_columns d)))"
proof -
  let ?ks = "key_columns d" and ?sz = "nat (pathinfo_size d)"
  from assms(1) have cols: "sorted_names ?ks" "serials_ok ?ks" "tails_ok ?ks"
    and idx: "\<forall>ix\<in>set (indexes d). index_ok ?ks ix" and pi: "pathinfo_ok_upto m d"
    by (auto simp: dir_ok_upto_def cols_ok_def)
  show ?thesis
  proof (rule find_key_cases [OF cols(1), of kn])
    fix i assume found: "find_key kn ?ks 0 0 = (to_short (int i), True)" "i < length ?ks" "col_name (?ks ! i) = kn"
    have "length ?ks \<le> 32768" using cols(2) by (simp add: serials_ok_def)
    with found have "add_key_column d kn = Some (d, int i, True)" by (simp add: add_key_column_def to_short_int)
    with found assms(1) extends_refl show ?thesis by (auto simp: in_range_int)
  next
    fix i assume hole': "find_key kn ?ks 0 0 = (to_short (int i), False)" and hole: "i \<le> length ?ks"
      "\<And>k. k \<in> set (take i ?ks) \<Longrightarrow> col_name k < kn" "\<And>k. k \<in> set (drop i ?ks) \<Longrightarrow> kn < col_name k"
    let ?h = "open_hole ?ks (int i) kn"
    have new: "kn \<notin> set (names ?ks)"
      using hole(2,3) set_append [of "take i ?ks" "drop i ?ks"] by (auto simp: image_iff)
    with columns_fit_one [OF cols(1) assms(2,3)] have room: "length ?ks < 32768" by simp
    with hole' hole(1) have hole0: "find_key kn ?ks 0 0 = (int i, False)" by (simp add: to_short_int)
    have sor: "sorted_names ?h" and ser: "serials_ok ?h" and tai: "tails_ok ?h"
      using open_hole_sorted [OF cols(1) hole(2,3)] serials_open_hole [OF cols(2) hole(1) room]
        tails_open_hole [OF cols(3)] by auto
    have nam: "set (names ?h) = insert kn (set (names ?ks))" "col_name (?h ! i) = kn" "length ?h = Suc (length ?ks)"
      using hole(1) by (auto simp: set_open_hole open_hole_nth new_key_col_def)
    have nx: "next_map ?ks \<subseteq>\<^sub>m next_map ?h" and nm: "name_map ?ks \<subseteq>\<^sub>m name_map ?h"
      using next_map_open_hole [OF cols(2) hole(1) room] name_map_open_hole [OF cols(2) hole(1) room] by auto
    show ?thesis
    proof (cases "i < length ?ks")
      case True
      have p0: "0 \<le> pathinfo_size d" "int (length (pathinfo d)) = 2 * pathinfo_size d"
        using pi by (auto simp: pathinfo_ok_upto_def)
      have p1: "\<forall>n<?sz. in_range (pathinfo d ! (n + ?sz)) ?h"
        using pi nam(3) by (auto simp: pathinfo_ok_upto_def in_range_def)
      have "\<forall>ix\<in>set (indexes d). index_ready ?h ix"
        using idx index_ok_ready [OF cols(2) hole(1) room] by blast
      from relink_ok [OF ser tai this p0 p1] obtain d' where d': "relink d ?h = Some d'"
        "map view (key_columns d') = map view ?h" "tails_ok (key_columns d')"
        "list_all2 same_index (indexes d) (indexes d')" "\<forall>ix\<in>set (indexes d'). index_ok (key_columns d') ix"
        "int (length (pathinfo d')) = 2 * pathinfo_size d" "frame d' = frame d"
        "\<forall>n<?sz. pathinfo d' ! (n + ?sz) = pathinfo d ! (n + ?sz) \<and>
           at_serial (key_columns d') (pathinfo d' ! n) (pathinfo d' ! (n + ?sz))" by blast
      note vm = view_maps [OF d'(2) [symmetric]] and fs = frame_pathinfo_size [OF d'(7)]
      have len: "length (key_columns d') = length ?h" using d'(2) by (metis length_map)
      have "n < ?sz" if "n < m" for n using that pi by (auto simp: pathinfo_ok_upto_def)
      with d'(8) have "\<forall>n<m. at_serial (key_columns d') (pathinfo d' ! n) (pathinfo d' ! (n + ?sz))" by blast
      moreover have "\<forall>n<?sz. in_range (pathinfo d' ! (n + ?sz)) (key_columns d')"
        using d'(8) p1 len by (simp add: in_range_def)
      ultimately have "pathinfo_ok_upto m d'"
        using d'(6) fs pi by (simp add: pathinfo_ok_upto_def)
      then have "dir_ok_upto m d'"
        using d'(3,5) sor ser vm by (simp add: dir_ok_upto_def cols_ok_def)
      moreover have "extends d d'" using d' nx nm vm by (simp add: extends_def)
      moreover have "col_name (key_columns d' ! i) = kn"
        using view_nth(3) [OF d'(2) [symmetric], of i] nam hole(1) by simp
      moreover have "add_key_column d kn = Some (d', int i, False)"
        using hole0 True d'(1) by (simp add: add_key_column_def)
      moreover have "set (names (key_columns d')) = insert kn (set (names ?ks))" using vm(1) nam(1) by simp
      ultimately show ?thesis
        using nam(3) new len True by (intro exI [of _ d'] exI [of _ "int i"] exI [of _ False]) (simp add: in_range_int)
    next
      case False
      with hole(1) have i: "i = length ?ks" by simp
      let ?d = "d\<lparr>key_columns := ?h\<rparr>"
      have h: "?h = ?ks @ [new_key_col kn (int (length ?ks))]" by (simp add: open_hole_def i)
      have "pathinfo_ok_upto m ?d"
        using pi at_serial_append [of ?ks] by (auto simp: pathinfo_ok_upto_def h in_range_def)
      moreover have "\<forall>ix\<in>set (indexes d). index_ok ?h ix"
        using idx index_ok_append [OF cols(2) _ room] i by blast
      ultimately have "dir_ok_upto m ?d"
        using sor ser tai by (simp add: dir_ok_upto_def cols_ok_def)
      moreover have "extends d ?d"
        using nx nm extends_refl [of d] by (simp add: extends_def frame_def)
      moreover have "add_key_column d kn = Some (?d, int i, False)"
        using hole0 False by (simp add: add_key_column_def)
      moreover have "in_range (int i) (key_columns ?d)" using nam(3) i by (simp add: in_range_int)
      moreover have "col_name (key_columns ?d ! nat (int i)) = kn" using nam(2) by simp
      moreover have "set (names (key_columns ?d)) = insert kn (set (names ?ks))" using nam(1) by simp
      ultimately show ?thesis using new by blast
    qed
  qed
qed

text \<open>
  A full array takes no new column: the insertion point or the serial number of the column wraps, and the code
  writes outside the array.
\<close>

lemma fill_buckets_range:
  "fill_buckets ns keys = Some keys' \<Longrightarrow> \<forall>n\<in>set ns. n < length keys \<and> in_range (serial_no (keys ! n)) keys"
proof (induction ns keys arbitrary: keys' rule: fill_buckets.induct)
  case (2 n ns keys)
  then obtain k k1 where r: "arr_get keys (int n) = Some k" "arr_upd keys (serial_no k) (\<lambda>c. c\<lparr>idx_map_bucket := to_short (int n)\<rparr>) = Some k1"
    "fill_buckets ns k1 = Some keys'" by (auto split: Option.bind_splits)
  from r(2) have l: "length k1 = length keys" "map serial_no k1 = map serial_no keys"
    by (auto simp: arr_upd_Some map_update_same)
  have "serial_no (k1 ! i) = serial_no (keys ! i)" if "i < length keys" for i
    using l that by (metis nth_map)
  with 2(1) [OF r] r(1,2) l(1) show ?case by (auto simp: arr_get_Some arr_upd_Some in_range_def)
qed simp

lemma add_key_column_full:
  assumes "cols_ok (key_columns d)" and "length (key_columns d) = 32768" and "kn \<notin> set (names (key_columns d))"
  shows "add_key_column d kn = None"
proof -
  let ?ks = "key_columns d"
  have "sorted_names ?ks" using assms(1) by (simp add: cols_ok_def)
  then show ?thesis
  proof (cases rule: find_key_cases [of ?ks kn])
    case (found i)
    then show ?thesis using assms(3) by auto
  next
    case (hole i)
    show ?thesis
    proof (cases "i = 32768")
      case True
      with hole(1) show ?thesis by (simp add: add_key_column_def Let_def to_short_full)
    next
      case False
      with hole(2) assms(2) have i: "i < length ?ks" "to_short (int i) = int i" by (simp_all add: to_short_int)
      let ?h = "open_hole ?ks (int i) kn"
      have "serial_no (?h ! i) = -32768"
        using i(1) assms(2) by (simp add: open_hole_nth new_key_col_def to_short_full)
      then have n: "\<not> in_range (serial_no (?h ! i)) ?h" by (simp add: in_range_def)
      have "i \<in> set [0..<length ?h]" using i(1) by simp
      with n fill_buckets_range [of "[0..<length ?h]" ?h] have "fill_buckets [0..<length ?h] ?h = None"
        by (metis not_None_eq)
      with hole(1) i show ?thesis by (simp add: add_key_column_def relink_def)
    qed
  qed
qed

text \<open>The routine adds at most the one name, and no index.\<close>

lemma fix_links_names: "fix_links keys c s = Some keys' \<Longrightarrow> names keys' = names keys"
proof (induction rule: fix_links.raw_induct [rotated, consumes 1, case_names step])
  case (step f keys c s keys')
  then show ?case by (force simp: arr_upd_Some map_update_same split: if_splits Option.bind_splits)
qed

lemma fill_buckets_names: "fill_buckets ns keys = Some keys' \<Longrightarrow> names keys' = names keys"
  by (induction ns keys arbitrary: keys' rule: fill_buckets.induct) (force simp: arr_upd_Some map_update_same split: Option.bind_splits)+

lemma fix_indexes_names:
  "fix_indexes ixs keys = Some (ixs', keys') \<Longrightarrow> names keys' = names keys \<and> map idx_name ixs' = map idx_name ixs"
  by (induction ixs keys arbitrary: ixs' keys' rule: fix_indexes.induct)
    (force simp: fix_index_def dest: fix_links_names split: Option.bind_splits if_splits)+

lemma add_key_column_names:
  assumes "add_key_column d kn = Some (d', c, ex)"
  shows "set (names (key_columns d')) \<subseteq> insert kn (set (names (key_columns d)))" "map idx_name (indexes d') = map idx_name (indexes d)"
proof -
  have hole: "x = kn \<or> x \<in> set (names keys)" if "x \<in> set (names (open_hole keys i kn))" for x keys i
    using that by (auto simp: open_hole_def new_key_col_def dest: in_set_takeD in_set_dropD)
  show "set (names (key_columns d')) \<subseteq> insert kn (set (names (key_columns d)))"
    using assms
    by (auto simp: add_key_column_def relink_def Let_def dest!: fill_buckets_names fix_indexes_names dest: hole simp del: set_map
        split: prod.splits if_splits Option.bind_splits)
  from assms show "map idx_name (indexes d') = map idx_name (indexes d)"
    by (auto simp: add_key_column_def relink_def Let_def dest!: fix_indexes_names
        split: prod.splits if_splits Option.bind_splits)
qed

subsection \<open>What the indexes and the path info denote\<close>

lemma chain_names_schain:
  assumes "serials_ok keys" and "schain (next_map keys) s ss" and "chain_linked keys ss"
    and "if s = -1 then c = -1 else at_serial keys c s"
  shows "chain_names keys c = Some (map (\<lambda>s. the (name_map keys s)) ss)"
  using assms(2-)
proof (induction ss arbitrary: s c)
  case Nil
  then show ?case by (simp add: chain_names.simps)
next
  case (Cons x xs)
  then obtain t where t: "s = x" "next_map keys x = Some t" "schain (next_map keys) t xs"
    by (auto split: option.splits)
  have "in_range x keys" using schain_in_range [OF assms(1) Cons.prems(1)] by simp
  with Cons.prems(3) t(1) have c: "at_serial keys c x" by (auto simp: in_range_def)
  then have r: "in_range c keys" and k: "keys ! nat c \<in> set keys" "serial_no (keys ! nat c) = x"
    by (auto simp: at_serial_def in_range_nth_mem)
  have t': "next_in_key_serial (keys ! nat c) = t"
    using next_map_iff [OF assms(1), of x "next_in_key_serial (keys ! nat c)"] k t(2) by auto
  have n: "name_map keys x = Some (col_name (keys ! nat c))"
    using name_map_iff [OF assms(1)] k by blast
  have "link_ok keys (keys ! nat c)" using Cons.prems(2) k by (auto simp: chain_linked_def)
  then have "if t = -1 then next_in_key (keys ! nat c) = -1 else at_serial keys (next_in_key (keys ! nat c)) t"
    unfolding link_ok_def t' .
  with Cons.IH [OF t(3)] Cons.prems(2)
  have "chain_names keys (next_in_key (keys ! nat c)) = Some (map (\<lambda>s. the (name_map keys s)) xs)"
    by (simp add: chain_linked_def)
  moreover have "c \<noteq> -1" using r by (auto simp: in_range_def)
  ultimately show ?case using r n by (subst chain_names.simps) (simp add: arr_simps)
qed

lemma index_columns_of_ok:
  assumes "serials_ok (key_columns d)" and "index_ok (key_columns d) ix"
  obtains ss where "schain (next_map (key_columns d)) (first_col_serial ix) ss"
    "index_columns d ix = Some (map (\<lambda>s. the (name_map (key_columns d) s)) ss)"
proof -
  from assms(2) obtain ss where ss: "head_ok (key_columns d) ix"
    "schain (next_map (key_columns d)) (first_col_serial ix) ss" "chain_linked (key_columns d) ss"
    by (auto simp: index_ok_def)
  from chain_names_schain [OF assms(1) ss(2,3)] ss(1)
  have "index_columns d ix = Some (map (\<lambda>s. the (name_map (key_columns d) s)) ss)"
    by (simp add: index_columns_def head_ok_def)
  with ss(2) show thesis by (rule that)
qed

lemma schain_names_in_dom:
  assumes "serials_ok keys" and "schain (next_map keys) s ss" and "x \<in> set ss"
  shows "\<exists>n. name_map keys x = Some n"
proof -
  have "in_range x keys" by (rule schain_in_range [OF assms])
  then obtain i where "i < length keys" "serial_no (keys ! i) = x" by (rule serial_has_col [OF assms(1)])
  then show ?thesis using name_map_iff [OF assms(1)] by (metis nth_mem)
qed

text \<open>An extension leaves the columns of every index and of the path info as they were.\<close>

lemma extends_index_columns:
  assumes "dir_ok_upto m d" and "dir_ok_upto m' d'" and "extends d d'" and "n < length (indexes d)"
  shows "\<exists>cs. index_columns d (indexes d ! n) = Some cs \<and> index_columns d' (indexes d' ! n) = Some cs"
proof -
  let ?k = "key_columns d" and ?k' = "key_columns d'"
  have s: "serials_ok ?k" "serials_ok ?k'" using assms(1,2) by (auto simp: dir_ok_upto_def cols_ok_def)
  from assms(3) have sub: "next_map ?k \<subseteq>\<^sub>m next_map ?k'" "name_map ?k \<subseteq>\<^sub>m name_map ?k'"
    and same: "list_all2 same_index (indexes d) (indexes d')" by (auto simp: extends_def)
  have n': "n < length (indexes d')" using same assms(4) by (simp add: list_all2_lengthD)
  have "index_ok ?k (indexes d ! n)" "index_ok ?k' (indexes d' ! n)"
    using assms(1,2,4) n' by (auto simp: dir_ok_upto_def)
  with s obtain ss ss' where
      ss: "schain (next_map ?k) (first_col_serial (indexes d ! n)) ss"
        "index_columns d (indexes d ! n) = Some (map (\<lambda>s. the (name_map ?k s)) ss)" and
      ss': "schain (next_map ?k') (first_col_serial (indexes d' ! n)) ss'"
        "index_columns d' (indexes d' ! n) = Some (map (\<lambda>s. the (name_map ?k' s)) ss')"
    by (metis index_columns_of_ok)
  have "first_col_serial (indexes d' ! n) = first_col_serial (indexes d ! n)"
    using same assms(4) by (intro same_index_serial) (rule list_all2_nthD)
  with ss'(1) have c: "schain (next_map ?k') (first_col_serial (indexes d ! n)) ss'" by simp
  note c' = schain_mono [OF sub(1) ss(1)]
  have "ss = ss'"
    using schain_unique [OF c' c] schain_in_range [OF s(2) c] schain_in_range [OF s(2) c']
    by (force simp: in_range_def)
  moreover have "name_map ?k' x = name_map ?k x" if "x \<in> set ss" for x
    using schain_names_in_dom [OF s(1) ss(1) that] sub(2) by (auto simp: map_le_def dom_def)
  ultimately show ?thesis using ss(2) ss'(2) by (auto cong: map_cong)
qed

lemma at_serial_name:
  assumes "serials_ok keys" and "at_serial keys c s"
  shows "map_option col_name (arr_get keys c) = name_map keys s"
proof -
  from assms(2) have r: "in_range c keys" "serial_no (keys ! nat c) = s" by (auto simp: at_serial_def)
  then have "name_map keys s = Some (col_name (keys ! nat c))"
    using name_map_iff [OF assms(1)] in_range_nth_mem [OF r(1)] by blast
  with r show ?thesis by (simp add: arr_simps)
qed

lemma pathinfo_columns_ok:
  assumes "dir_ok d"
  shows "pathinfo_columns d =
    map (\<lambda>n. name_map (key_columns d) (pathinfo d ! (n + nat (pathinfo_size d)))) [0..<nat (pathinfo_size d)]"
proof -
  have s: "serials_ok (key_columns d)" and p: "pathinfo_ok_upto (nat (pathinfo_size d)) d"
    using assms by (auto simp: dir_ok_def dir_ok_upto_def cols_ok_def)
  have l: "nat (pathinfo_size d) \<le> length (pathinfo d)" using p unfolding pathinfo_ok_upto_def by linarith
  show ?thesis
  proof (rule nth_equalityI)
    show "length (pathinfo_columns d) = length (map (\<lambda>n. name_map (key_columns d)
        (pathinfo d ! (n + nat (pathinfo_size d)))) [0..<nat (pathinfo_size d)])"
      using l by (simp add: pathinfo_columns_def)
  next
    fix i assume "i < length (pathinfo_columns d)"
    then have i: "i < nat (pathinfo_size d)" using l by (simp add: pathinfo_columns_def)
    with p have "at_serial (key_columns d) (pathinfo d ! i) (pathinfo d ! (i + nat (pathinfo_size d)))"
      by (simp add: pathinfo_ok_upto_def)
    with at_serial_name [OF s this] i l show "pathinfo_columns d ! i =
       map (\<lambda>n. name_map (key_columns d) (pathinfo d ! (n + nat (pathinfo_size d)))) [0..<nat (pathinfo_size d)] ! i"
      by (simp add: pathinfo_columns_def)
  qed
qed

lemma extends_pathinfo_columns:
  assumes "dir_ok d" and "dir_ok d'" and "extends d d'"
  shows "pathinfo_columns d' = pathinfo_columns d"
proof -
  have sz: "pathinfo_size d' = pathinfo_size d"
    using assms(3) unfolding extends_def by (blast dest: frame_pathinfo_size)
  have s: "serials_ok (key_columns d)" and p: "pathinfo_ok_upto (nat (pathinfo_size d)) d"
    using assms(1) by (auto simp: dir_ok_def dir_ok_upto_def cols_ok_def)
  have "name_map (key_columns d') (pathinfo d' ! (n + nat (pathinfo_size d)))
      = name_map (key_columns d) (pathinfo d ! (n + nat (pathinfo_size d)))" if "n < nat (pathinfo_size d)" for n
  proof -
    let ?s = "pathinfo d ! (n + nat (pathinfo_size d))"
    have "at_serial (key_columns d) (pathinfo d ! n) ?s" using p that by (simp add: pathinfo_ok_upto_def)
    then have "\<exists>x. name_map (key_columns d) ?s = Some x"
      using name_map_iff [OF s] by (auto simp: at_serial_def) (metis in_range_nth_mem)
    with assms(3) that show ?thesis by (auto simp: extends_def map_le_def dom_def)
  qed
  then show ?thesis by (simp add: pathinfo_columns_ok [OF assms(1)] pathinfo_columns_ok [OF assms(2)] sz)
qed

end
