(* ===== verification/Config.thy ===== *)
theory Config
  imports Key_Links C_Library
begin

text \<open>
  The configuration directives of \<open>config.cc\<close>. A handler takes the directory and the words
  of the directive; it returns \<open>None\<close> when the code stops in an assertion, leaves an array
  or never returns, and otherwise the directory after the call with the error message of the
  handler, if any. Messages to the server log are not modelled.

  Third-party code is passed as an argument: \<open>getword line stop\<close> stands for Apache's
  \<open>ap_getword\<close> (the word up to the stop character, and the rest of the line),
  \<open>tolower\<close> for \<open>ap_str_tolower\<close>, \<open>casecmp_match\<close> for \<open>ap_strcasecmp_match\<close>.
\<close>

type_synonym cmd_result = "(dir \<times> string option) option"

subsection \<open>Server directives\<close>

definition connectstring :: "srv \<Rightarrow> string \<Rightarrow> srv option" where
  "connectstring s arg =
     (if srv_magic_number s = srv_magic then Some (s\<lparr>connect_string := Some arg\<rparr>) else None)"

definition to_uint :: "int \<Rightarrow> int" where
  "to_uint v = v mod 2 ^ 32"

definition srv_set_int :: "nat \<Rightarrow> string \<Rightarrow> srv \<Rightarrow> string \<Rightarrow> srv option" where
  "srv_set_int w cmd_name s arg =
     (if srv_magic_number s \<noteq> srv_magic then None
      else if strcmp cmd_name ''ndb-max-read-subrequests'' = 0
        then Some (s\<lparr>max_read_operations := atoi w arg\<rparr>)
      else if strcmp cmd_name ''ndb-retry-ms'' = 0
        then Some (s\<lparr>max_retry_ms := to_uint (atoi w arg)\<rparr>)
      else None)"

definition force_restart :: "srv \<Rightarrow> int \<Rightarrow> srv option" where
  "force_restart s flg =
     (if srv_magic_number s = srv_magic then Some (s\<lparr>force_restart_flag := to_uint flg\<rparr>) else None)"

subsection \<open>Simple directory directives\<close>

definition result_format :: "(string \<Rightarrow> nat option) \<Rightarrow> dir \<Rightarrow> string \<Rightarrow> cmd_result" where
  "result_format get_format_by_name d f =
     (let d' = d\<lparr>fmt := get_format_by_name f\<rparr>
      in Some (d', if fmt d' = None then Some (''Undefined result format '' @ [CHR 0x22] @ f @ [CHR 0x22] @ ''.'')
                   else None))"

definition dir_set_flag :: "string \<Rightarrow> dir \<Rightarrow> bool \<Rightarrow> cmd_result" where
  "dir_set_flag cmd_name d flg =
     (if strcmp cmd_name ''Deletes'' = 0 then Some (d\<lparr>allow_delete := flg\<rparr>, None)
      else if strcmp cmd_name ''ETags'' = 0 then Some (d\<lparr>use_etags := flg\<rparr>, None)
      else None)"

definition non_key_column :: "char \<Rightarrow> dir \<Rightarrow> string \<Rightarrow> cmd_result" where
  "non_key_column which d arg =
     (if which = CHR ''R'' then
        (if strcmp arg ''*'' = 0 then Some (d\<lparr>select_star := True\<rparr>, None)
         else Some (d\<lparr>visible := visible d @ [arg], aliases := aliases d @ [arg]\<rparr>, None))
      else if which = CHR ''W'' then Some (d\<lparr>updatable := updatable d @ [arg]\<rparr>, None)
      else Some (d, None))"

definition table :: "(string \<Rightarrow> string \<Rightarrow> int) \<Rightarrow> dir \<Rightarrow> string \<Rightarrow> string option \<Rightarrow> string option \<Rightarrow> cmd_result" where
  "table casecmp_match d arg1 arg2 arg3 =
     (let d1 = d\<lparr>dir_table := Some arg1\<rparr> in
      case arg2 of
        None \<Rightarrow> Some (d1, None)
      | Some a2 \<Rightarrow>
          if casecmp_match a2 ''scan'' = 0 then
            let d2 = d1\<lparr>table_scan := True\<rparr> in
            case arg3 of
              None \<Rightarrow> Some (d2, None)
            | Some a3 \<Rightarrow> Some (d2\<lparr>index_scan := (index_scan d2)\<lparr>idx_name := Some a3\<rparr>\<rparr>, None)
          else Some (d1, None))"

subsection \<open>Path info\<close>

text \<open>
  The words of the specification go to an array with one slot more than there are slashes;
  empty words are dropped.
\<close>

partial_function (option) pathinfo_items ::
  "(string \<Rightarrow> char \<Rightarrow> string \<times> string) \<Rightarrow> nat \<Rightarrow> string \<Rightarrow> string list \<Rightarrow> string list option" where
  "pathinfo_items getword pos_size path items =
     (if path = [] then Some items
      else let word = fst (getword path (CHR ''/'')); rest = snd (getword path (CHR ''/'')) in
        if word = [] then pathinfo_items getword pos_size rest items
        else if length items < pos_size then pathinfo_items getword pos_size rest (items @ [word])
        else None)"

fun pathinfo_loop :: "string list \<Rightarrow> nat \<Rightarrow> dir \<Rightarrow> dir option" where
  "pathinfo_loop [] n d = Some d"
| "pathinfo_loop (w # ws) n d =
     do { (d1, col_id, ex) \<leftarrow> add_key_column d w;
          pi1 \<leftarrow> arr_upd (pathinfo d1) (int n) (\<lambda>_. col_id);
          k \<leftarrow> arr_get (key_columns d1) col_id;
          pi2 \<leftarrow> arr_upd pi1 (pathinfo_size d1 + int n) (\<lambda>_. serial_no k);
          pathinfo_loop ws (Suc n) (d1\<lparr>pathinfo := pi2\<rparr>) }"

definition pathinfo_directive ::
  "(string \<Rightarrow> char \<Rightarrow> string \<times> string) \<Rightarrow> (string \<Rightarrow> string) \<Rightarrow> dir \<Rightarrow> string \<Rightarrow> string option \<Rightarrow> cmd_result" where
  "pathinfo_directive getword tolower d arg1 arg2 =
     do { items \<leftarrow> pathinfo_items getword (Suc (count_list arg1 (CHR ''/''))) arg1 [];
          let real_size = length items;
          d1 \<leftarrow> pathinfo_loop items 0
            (d\<lparr>pathinfo_size := int real_size, pathinfo := replicate (2 * real_size) 0\<rparr>);
          Some (case arg2 of
            None \<Rightarrow> d1
          | Some a2 \<Rightarrow> if strcmp (tolower a2) ''always'' = 0 then d1\<lparr>pathinfo_always := True\<rparr> else d1, None) }"

subsection \<open>Indexes\<close>

text \<open>
  The counter of the search is a \<open>short\<close>. After 32768 records it has wrapped and the loop reads the record at
  \<open>-32768\<close>; the model gives this index, which is outside the array wherever the result is used.
\<close>

fun index_search :: "string \<Rightarrow> index list \<Rightarrow> int \<Rightarrow> int" where
  "index_search idx [] n = (if n < 32768 then -1 else to_short n)"
| "index_search idx (ix # ixs) n =
     (if 32768 \<le> n then to_short n
      else if idx_name ix = Some idx then n else index_search idx ixs (n + 1))"

definition get_index_by_name :: "dir \<Rightarrow> string \<Rightarrow> int" where
  "get_index_by_name d idx = index_search idx (indexes d) 0"

definition build_index_record :: "dir \<Rightarrow> char \<Rightarrow> string \<Rightarrow> dir \<times> int" where
  "build_index_record d idxtype nm =
     (d\<lparr>indexes := indexes d @ [zero_index\<lparr>idx_name := Some nm, idx_type := idxtype,
           first_col_serial := -1, first_col := -1\<rparr>]\<rparr>,
      to_short (int (length (indexes d))))"

definition col_assoc :: "int \<Rightarrow> index option \<Rightarrow> nsql_expr \<Rightarrow> key_col \<Rightarrow> key_col" where
  "col_assoc idx_id ix e k =
     (let k1 = k\<lparr>index_id := idx_id\<rparr>;
          k2 = (case ix of
            None \<Rightarrow> k1
          | Some i \<Rightarrow>
              if idx_type i = CHR ''P'' then k1\<lparr>in_pk := True, implied_plan := PrimaryKey\<rparr>
              else if idx_type i = CHR ''U'' then k1\<lparr>in_hash_idx := True, implied_plan := UniqueIndexAccess\<rparr>
              else if idx_type i = CHR ''O'' then
                k1\<lparr>in_ord_idx := True, implied_plan := OrderedIndexScan, rel_op := rel_op e,
                   base_col_name := base_col_name e\<rparr>
              else k1)
      in k2\<lparr>next_in_key_serial := -1, next_in_key := -1\<rparr>)"

definition add_column_to_index :: "dir \<Rightarrow> int \<Rightarrow> nsql_expr \<Rightarrow> (dir \<times> int \<times> bool) option" where
  "add_column_to_index d idx_id e =
     do { (d1, col, ex) \<leftarrow> add_key_column d (expr_value e);
          ix \<leftarrow> (if idx_id \<ge> 0 then map_option Some (arr_get (indexes d1) idx_id) else Some None);
          keys \<leftarrow> arr_upd (key_columns d1) col (col_assoc idx_id ix e);
          Some (d1\<lparr>key_columns := keys\<rparr>, col, ex) }"

datatype sort_order = Asc | Desc

definition set_sorted :: "sort_order \<Rightarrow> index \<Rightarrow> index" where
  "set_sorted ord ix =
     (let ix1 = ix\<lparr>sorted_flag := True\<rparr>
      in if ord = Desc then ix1\<lparr>descending_flag := True\<rparr> else ix1)"

definition sort_scan :: "dir \<Rightarrow> bool \<Rightarrow> string \<Rightarrow> sort_order \<Rightarrow> dir option" where
  "sort_scan d bounded idxname ord =
     (if bounded then
        (let n = get_index_by_name d idxname in
         if n = -1 then None
         else do { ixs \<leftarrow> arr_upd (indexes d) n (set_sorted ord); Some (d\<lparr>indexes := ixs\<rparr>) })
      else Some (d\<lparr>index_scan := set_sorted ord (index_scan d)\<rparr>))"

text \<open>The walk to the end of the chain; its second argument is \<open>tail_col\<close>.\<close>

partial_function (option) chain_tail :: "key_col list \<Rightarrow> int \<Rightarrow> int \<Rightarrow> int option" where
  "chain_tail keys i tail_col =
     (if i = -1 then Some tail_col
      else do { k \<leftarrow> arr_get keys i; chain_tail keys (next_in_key k) i })"

definition link_column :: "dir \<Rightarrow> int \<Rightarrow> int \<Rightarrow> dir option" where
  "link_column d idx_id col =
     do { ix \<leftarrow> arr_get (indexes d) idx_id;
          k \<leftarrow> arr_get (key_columns d) col;
          if first_col ix = -1 then
            do { ixs \<leftarrow> arr_upd (indexes d) idx_id
                   (\<lambda>i. i\<lparr>first_col_serial := serial_no k, first_col := col\<rparr>);
                 Some (d\<lparr>indexes := ixs\<rparr>) }
          else
            do { tail_col \<leftarrow> chain_tail (key_columns d) (first_col ix) 0;
                 keys \<leftarrow> arr_upd (key_columns d) tail_col
                   (\<lambda>c. c\<lparr>next_in_key_serial := serial_no k, next_in_key := col\<rparr>);
                 Some (d\<lparr>key_columns := keys\<rparr>) } }"

definition named_idx :: "dir \<Rightarrow> string \<Rightarrow> nsql_expr \<Rightarrow> cmd_result" where
  "named_idx d idx e =
     (let idx_id = get_index_by_name d idx; col = expr_value e in
      if idx_id = -1 then None
      else do { ix \<leftarrow> arr_get (indexes d) idx_id;
        if idx_type ix = CHR ''O'' \<and> take 1 col = ''[''  then
          (if strcmp col ''[ASC]'' = 0 then map_option (\<lambda>d'. (d', None)) (sort_scan d True idx Asc)
           else if strcmp col ''[DESC]'' = 0 then map_option (\<lambda>d'. (d', None)) (sort_scan d True idx Desc)
           else Some (d, Some (''Unrecognized sort flag: '' @ col @ ''.'')))
        else do {
          (d1, col_id, ex) \<leftarrow> add_column_to_index d idx_id e;
          ixs \<leftarrow> arr_upd (indexes d1) idx_id (\<lambda>i. i\<lparr>n_columns := (n_columns i + 1) mod 2 ^ 16\<rparr>);
          d2 \<leftarrow> link_column (d1\<lparr>indexes := ixs\<rparr>) idx_id col_id;
          Some (d2, None) } })"

definition BoundEQ :: int where "BoundEQ = 4"

definition param_expr :: "string \<Rightarrow> nsql_expr" where
  "param_expr col =
     \<lparr>col_name = '''', base_col_name = Some '''', rel_op = BoundEQ, implied_plan = NoPlan, index_id = 0,
      expr_type = 0, vtype = Param, expr_value = col\<rparr>"

definition named_index :: "char \<Rightarrow> dir \<Rightarrow> string \<Rightarrow> string \<Rightarrow> cmd_result" where
  "named_index which d idx col =
     (if dir_magic_number d \<noteq> dir_magic then None
      else if idx_name (index_scan d) = Some idx then
        Some (d, Some ''Cannot define key columns for an ordered index scan.'')
      else
        let d1 = (if get_index_by_name d idx = -1 then fst (build_index_record d which idx) else d)
        in named_idx d1 idx (param_expr col))"

definition primary_key :: "dir \<Rightarrow> string \<Rightarrow> cmd_result" where
  "primary_key d col = named_index (CHR ''P'') d ''*Primary$Key*'' col"

subsection \<open>Filters and constants\<close>

definition filter_ops :: "string list" where
  "filter_ops = [''<='', ''<'', ''>='', ''>'', ''='', ''!='', ''LIKE'', ''NOTLIKE'']"

text \<open>The loop over the operators does not stop at a match; the last match wins.\<close>

fun find_filter_op :: "string \<Rightarrow> string list \<Rightarrow> int \<Rightarrow> int option \<Rightarrow> int option" where
  "find_filter_op filter_op [] n found = found"
| "find_filter_op filter_op (x # xs) n found =
     find_filter_op filter_op xs (n + 1) (if strcmp filter_op x = 0 then Some n else found)"

definition filter_directive :: "dir \<Rightarrow> string \<Rightarrow> string \<Rightarrow> string \<Rightarrow> cmd_result" where
  "filter_directive d base filter_op alias =
     do { (d1, col, ex) \<leftarrow> add_key_column d alias;
          if ex then Some (d1, Some (''Filter parameter '' @ alias @ '' already defined.''))
          else do {
            keys \<leftarrow> arr_upd (key_columns d1) col (\<lambda>k. k\<lparr>is_filter := True, base_col_name := Some base\<rparr>);
            let d2 = d1\<lparr>key_columns := keys, has_filters := True\<rparr>;
            (case find_filter_op filter_op filter_ops 0 None of
               None \<Rightarrow> Some (d2, Some (''invalid filter operator '' @ [CHR 0x27] @ filter_op @ [CHR 0x27]))
             | Some n \<Rightarrow>
                 do { keys2 \<leftarrow> arr_upd (key_columns d2) col (\<lambda>k. k\<lparr>rel_op := n\<rparr>);
                      Some (d2\<lparr>key_columns := keys2\<rparr>, None) }) } }"

text \<open>Quoted strings of the N-SQL parser and the backslash-n of output formats.\<close>

fun unquote_chars :: "string \<Rightarrow> string option" where
  "unquote_chars [] = Some []"
| "unquote_chars (c # cs) =
     (if c = CHR 0x5C then
        (case cs of [] \<Rightarrow> None | q # rest \<Rightarrow> map_option ((#) q) (unquote_chars rest))
      else if c = CHR 0x22 then Some []
      else map_option ((#) c) (unquote_chars cs))"

definition unquote_qstring :: "string \<Rightarrow> string option" where
  "unquote_qstring str =
     (case str of c # cs \<Rightarrow> if c = CHR 0x22 then unquote_chars cs else None | [] \<Rightarrow> None)"

fun unescape :: "string \<Rightarrow> string" where
  "unescape [] = []"
| "unescape (c # cs) =
     (if c = CHR 0x5C then
        (case cs of
           [] \<Rightarrow> [c]
         | x # rest \<Rightarrow> if x = CHR ''n'' then CHR 0x0A # unescape rest else c # unescape cs)
      else c # unescape cs)"

definition index_constant :: "dir \<Rightarrow> string \<Rightarrow> nsql_expr \<Rightarrow> cmd_result" where
  "index_constant d idx in_expr =
     (let idx_id = get_index_by_name d idx in
      if idx_id = -1 then None
      else do {
        let d1 = d\<lparr>default_key := idx_id\<rparr>;
        ix \<leftarrow> arr_get (indexes d1) idx_id;
        if idx_type ix = CHR ''P'' \<or> idx_type ix = CHR ''U'' then
          Some (d1, Some ''Sorry, you cannot compare a primary key or unique index to a constant value in mod_ndb 1.0'')
        else do {
          v \<leftarrow> (case expr_value in_expr of
                  c # cs \<Rightarrow> if c = CHR 0x22 then unquote_qstring (expr_value in_expr) else Some (expr_value in_expr)
                | [] \<Rightarrow> Some []);
          plan \<leftarrow> (if idx_type ix = CHR ''O'' then Some OrderedIndexScan else None);
          let e = \<lparr>col_name = '''', base_col_name = base_col_name in_expr, rel_op = rel_op in_expr,
                   implied_plan = plan, index_id = 0, expr_type = 1, vtype = Const, expr_value = v\<rparr>;
          ixs \<leftarrow> arr_upd (indexes d1) idx_id (\<lambda>i. i\<lparr>constants := e # constants i\<rparr>);
          Some (d1\<lparr>indexes := ixs\<rparr>, None) } })"

declare chain_tail.simps [code] fix_links.simps [code] chain_names.simps [code] pathinfo_items.simps [code]

end
