(* ===== verification/Config_Correct.thy ===== *)
theory Config_Correct
  imports Config
begin

text \<open>
  Correctness of the directives that build indexes and the path info: an index directive
  appends its column to the list of columns of its index and changes no other, and a
  \<open>PathInfo\<close> directive denotes exactly the columns it names, whatever the order in which the
  array of key columns was filled.
\<close>

subsection \<open>Changing one column\<close>

lemma update_col:
  assumes "serials_ok keys" and "sorted_names keys" and "c < length keys"
    and "serial_no (f (keys ! c)) = serial_no (keys ! c)" and "col_name (f (keys ! c)) = col_name (keys ! c)"
  shows "serials_ok (keys[c := f (keys ! c)])" "sorted_names (keys[c := f (keys ! c)])"
    "name_map (keys[c := f (keys ! c)]) = name_map keys"
    "at_serial (keys[c := f (keys ! c)]) = at_serial keys"
    "next_map (keys[c := f (keys ! c)]) = (next_map keys)(serial_no (keys ! c) \<mapsto> next_in_key_serial (f (keys ! c)))"
proof -
  let ?k = "keys[c := f (keys ! c)]"
  have n: "names ?k = names keys" "map serial_no ?k = map serial_no keys"
    "map (\<lambda>k. (serial_no k, col_name k)) ?k = map (\<lambda>k. (serial_no k, col_name k)) keys"
    using assms(4,5) by (auto intro!: map_update_same)
  then show ser: "serials_ok ?k" and "sorted_names ?k" and "name_map ?k = name_map keys"
    using assms(1,2) unfolding serials_ok_def sorted_names_def name_map_def by auto
  have "serial_no (?k ! i) = serial_no (keys ! i)" for i 
    using assms(3,4) by (cases "i = c") simp_all
  then show "at_serial ?k = at_serial keys" by (intro ext) (simp add: at_serial_def in_range_def)
  show "next_map ?k = (next_map keys)(serial_no (keys ! c) \<mapsto> next_in_key_serial (f (keys ! c)))"
  proof
    fix s
    show "next_map ?k s = ((next_map keys)(serial_no (keys ! c) \<mapsto> next_in_key_serial (f (keys ! c)))) s"
    proof (cases "s = serial_no (keys ! c)")
      case True
      have "f (keys ! c) \<in> set ?k" using assms(3) by (rule set_update_memI)
      with True assms(4) next_map_iff [OF ser, of s] show ?thesis by auto
    next
      case False
      have "k \<in> set ?k \<longleftrightarrow> k \<in> set keys" if k: "serial_no k = s" for k
      proof
        assume "k \<in> set ?k"
        then show "k \<in> set keys"
          using False k assms(4) set_update_subset_insert [of keys c "f (keys ! c)"] by auto
      next
        assume "k \<in> set keys"
        then obtain i where i: "i < length keys" "k = keys ! i" by (auto simp: in_set_conv_nth)
        with False k have "?k ! i = k" by (cases "i = c") auto
        with i(1) show "k \<in> set ?k" by (metis length_list_update nth_mem)
      qed
      then have "next_map ?k s = Some t \<longleftrightarrow> next_map keys s = Some t" for t
        using next_map_iff [OF ser, of s t] next_map_iff [OF assms(1), of s t] by blast
      then have "next_map ?k s = next_map keys s" by (metis not_None_eq)
      with False show ?thesis by simp
    qed
  qed
qed

lemma update_col_linked:
  assumes "chain_linked keys ss" and "at_serial keys' = at_serial keys"
    and "keys' = keys[c := k]" and "serial_no k \<notin> set ss \<or> link_ok keys k"
  shows "chain_linked keys' ss"
proof -
  have "link_ok keys' x = link_ok keys x" for x using assms(2) by (simp add: link_ok_def)
  then show ?thesis using assms(1,3,4)
    by (auto simp: chain_linked_def dest!: set_update_subset_insert [THEN subsetD])
qed

subsection \<open>Chains\<close>

lemma schain_upd: "x \<notin> set ss \<Longrightarrow> schain (m(x \<mapsto> t)) s ss = schain m s ss"
  by (induction ss arbitrary: s) (auto split: option.splits)

lemma schain_suffix: "schain m s (xs @ y # ys) \<Longrightarrow> schain m y (y # ys)"
proof (induction xs arbitrary: s)
  case (Cons a xs)
  then obtain t where "schain m t (xs @ y # ys)" by (auto split: option.splits)
  then show ?case by (rule Cons.IH)
qed simp

lemma schain_distinct:
  assumes "schain m s ss" and "-1 \<notin> set ss"
  shows "distinct ss"
  using assms
proof (induction ss arbitrary: s)
  case (Cons x xs)
  have "x \<notin> set xs"
  proof
    assume "x \<in> set xs"
    then obtain us vs where xs: "xs = us @ x # vs" by (auto simp: in_set_conv_decomp)
    have "schain m x (x # xs)" using Cons.prems(1) by simp
    moreover have "schain m x (x # vs)" using schain_suffix [of m s "x # us" x vs] Cons.prems(1) xs by simp
    ultimately have "x # xs = x # vs" using Cons.prems(2) xs by (intro schain_unique) auto
    with xs show False by simp
  qed
  with Cons show ?case by (auto split: option.splits)
qed simp

lemma schain_snoc:
  assumes "schain m s ss" and "ss \<noteq> []" and "distinct ss" and "x \<notin> set ss" and "m x = Some (-1)" and "x \<noteq> -1"
  shows "schain (m(last ss \<mapsto> x)) s (ss @ [x])"
  using assms
proof (induction ss arbitrary: s)
  case (Cons y ys)
  then obtain t where t: "s = y" "m y = Some t" "schain m t ys" by (auto split: option.splits)
  show ?case
  proof (cases "ys = []")
    case True
    with t Cons.prems show ?thesis by auto
  next
    case False
    have "schain (m(last ys \<mapsto> x)) t (ys @ [x])"
      by (rule Cons.IH [OF t(3) False]) (use Cons.prems(3-6) in auto)
    moreover have "last ys \<noteq> y" using Cons.prems(3) False by auto
    then have "(m(last ys \<mapsto> x)) y = Some t" using t(2) by simp
    ultimately show ?thesis using t(1) False by (simp del: fun_upd_apply)
  qed
qed simp

lemma chain_tail_last:
  assumes "serials_ok keys" and "schain (next_map keys) s ss" and "chain_linked keys ss" and "ss \<noteq> []"
    and "at_serial keys c s"
  shows "\<exists>c'. chain_tail keys c t = Some c' \<and> at_serial keys c' (last ss)"
  using assms(2-)
proof (induction ss arbitrary: s c t)
  case (Cons x xs)
  then obtain u where u: "s = x" "next_map keys x = Some u" "schain (next_map keys) u xs"
    by (auto split: option.splits)
  with Cons.prems(4) have r: "in_range c keys" and k: "keys ! nat c \<in> set keys" "serial_no (keys ! nat c) = x"
    by (auto simp: at_serial_def in_range_nth_mem)
  have u': "next_in_key_serial (keys ! nat c) = u"
    using next_map_iff [OF assms(1), of x "next_in_key_serial (keys ! nat c)"] k u(2) by auto
  have lk: "link_ok keys (keys ! nat c)" using Cons.prems(2) k by (auto simp: chain_linked_def)
  have c: "c \<noteq> -1" using r by (auto simp: in_range_def)
  show ?case
  proof (cases "xs = []")
    case True
    with u have "u = -1" by simp
    with lk u' have "next_in_key (keys ! nat c) = -1" by (simp add: link_ok_def)
    with c r True u Cons.prems(4) show ?thesis
      by (subst chain_tail.simps) (simp add: arr_simps chain_tail.simps)
  next
    case False
    have "in_range u keys" using False u(3) schain_in_range [OF assms(1) u(3)] by (cases xs) auto
    with lk u' have "at_serial keys (next_in_key (keys ! nat c)) u"
      by (auto simp: link_ok_def in_range_def)
    from Cons.IH [OF u(3) _ False this, of c] Cons.prems(2)
    obtain c' where "chain_tail keys (next_in_key (keys ! nat c)) c = Some c'" "at_serial keys c' (last xs)"
      by (auto simp: chain_linked_def)
    with c r False show ?thesis by (subst chain_tail.simps) (simp add: arr_simps)
  qed
qed simp

subsection \<open>A directory described by the chains of its indexes\<close>

definition chains :: "dir \<Rightarrow> (nat \<Rightarrow> int list) \<Rightarrow> bool" where
  "chains d S \<longleftrightarrow> (\<forall>m<length (indexes d).
     head_ok (key_columns d) (indexes d ! m) \<and>
     schain (next_map (key_columns d)) (first_col_serial (indexes d ! m)) (S m) \<and>
     chain_linked (key_columns d) (S m))"

lemma chains_exist:
  assumes "dir_ok_upto m d"
  obtains S where "chains d S"
proof -
  have "\<forall>m\<in>{..<length (indexes d)}. \<exists>ss. head_ok (key_columns d) (indexes d ! m) \<and>
     schain (next_map (key_columns d)) (first_col_serial (indexes d ! m)) ss \<and> chain_linked (key_columns d) ss"
    using assms by (auto simp: dir_ok_upto_def index_ok_def)
  from bchoice [OF this] obtain S where "\<forall>m\<in>{..<length (indexes d)}. head_ok (key_columns d) (indexes d ! m) \<and>
     schain (next_map (key_columns d)) (first_col_serial (indexes d ! m)) (S m) \<and> chain_linked (key_columns d) (S m)"
    by blast
  then have "chains d S" by (simp add: chains_def)
  then show thesis by (rule that)
qed

lemma chains_dir_ok:
  assumes "chains d S" and "cols_ok (key_columns d)" and "pathinfo_ok_upto m d"
  shows "dir_ok_upto m d"
proof -
  have "index_ok (key_columns d) ix" if "ix \<in> set (indexes d)" for ix
  proof -
    from that obtain i where "i < length (indexes d)" "ix = indexes d ! i" by (auto simp: in_set_conv_nth)
    with assms(1) show ?thesis unfolding chains_def index_ok_def by blast
  qed
  with assms(2,3) show ?thesis by (simp add: dir_ok_upto_def)
qed

definition serial_name :: "key_col list \<Rightarrow> int \<Rightarrow> string" where
  "serial_name keys s = the (name_map keys s)"

lemma chains_columns:
  assumes "chains d S" and "serials_ok (key_columns d)" and "m < length (indexes d)"
  shows "index_columns d (indexes d ! m) = Some (map (serial_name (key_columns d)) (S m))"
  using chain_names_schain [OF assms(2), of "first_col_serial (indexes d ! m)" "S m" "first_col (indexes d ! m)"]
    assms(1,3) by (auto simp: chains_def index_columns_def head_ok_def serial_name_def [abs_def])

lemma chains_in_range:
  assumes "chains d S" and "serials_ok (key_columns d)" and "m < length (indexes d)" and "x \<in> set (S m)"
  shows "in_range x (key_columns d)"
  using schain_in_range [OF assms(2), of _ "S m" x] assms(1,3,4) by (auto simp: chains_def)

lemma serial_name_inj:
  assumes "serials_ok keys" and "sorted_names keys" and "in_range x keys" and "in_range y keys"
    and "serial_name keys x = serial_name keys y"
  shows "x = y"
proof -
  obtain i j where ij: "i < length keys" "serial_no (keys ! i) = x" "j < length keys" "serial_no (keys ! j) = y"
    using serial_has_col [OF assms(1)] assms(3,4) by metis
  then have "serial_name keys x = names keys ! i" "serial_name keys y = names keys ! j"
    using name_map_iff [OF assms(1)] by (auto simp: serial_name_def) (metis nth_mem option.sel)+
  with assms(5) have "names keys ! i = names keys ! j" by simp
  moreover have "distinct (names keys)"
    using assms(2) by (simp add: sorted_names_def strict_sorted_iff)
  ultimately have "i = j" using ij(1,3) nth_eq_iff_index_eq [of "names keys" i j] by simp
  with ij show ?thesis by simp
qed

subsection \<open>Appending a column to an index\<close>

lemma pathinfo_ok_cong:
  assumes "pathinfo_ok_upto m d" and "at_serial (key_columns d') = at_serial (key_columns d)"
    and "length (key_columns d') = length (key_columns d)"
    and "pathinfo d' = pathinfo d" and "pathinfo_size d' = pathinfo_size d"
  shows "pathinfo_ok_upto m d'"
  using assms by (simp add: pathinfo_ok_upto_def in_range_def)

lemma head_ok_cong: "at_serial keys' = at_serial keys \<Longrightarrow> head_ok keys' ix = head_ok keys ix"
  by (simp add: head_ok_def)

lemma next_map_col: "serials_ok keys \<Longrightarrow> k \<in> set keys \<Longrightarrow> next_map keys (serial_no k) = Some (next_in_key_serial k)"
  using next_map_iff [of keys "serial_no k" "next_in_key_serial k"] by blast

lemma end_link_ok:
  assumes "serials_ok keys" and "tails_ok keys" and "next_map keys x = Some (-1)"
    and "k \<in> set keys" and "serial_no k = x"
  shows "link_ok keys k"
  using next_map_col [OF assms(1,4)] assms(2-5) by (simp add: tails_ok_def link_ok_def)

lemma link_column_first:
  assumes "chains d S" and "cols_ok (key_columns d)" and "pathinfo_ok_upto p d" and "n < length (indexes d)"
    and "in_range col (key_columns d)" and "x = serial_no (key_columns d ! nat col)"
    and "next_map (key_columns d) x = Some (-1)" and "S n = []"
  shows "\<exists>d'. link_column d (int n) col = Some d' \<and> chains d' (S(n := S n @ [x])) \<and>
     key_columns d' = key_columns d \<and> pathinfo d' = pathinfo d \<and> pathinfo_ok_upto p d' \<and> frame d' = frame d \<and>
     map idx_name (indexes d') = map idx_name (indexes d)"
proof -
  let ?K = "key_columns d" and ?ix = "indexes d ! n"
  let ?ix' = "?ix\<lparr>first_col_serial := x, first_col := col\<rparr>"
  let ?d' = "d\<lparr>indexes := (indexes d)[n := ?ix']\<rparr>"
  have ser: "serials_ok ?K" and tails: "tails_ok ?K" using assms(2) by (auto simp: cols_ok_def)
  have "schain (next_map ?K) (first_col_serial ?ix) []" "head_ok ?K ?ix"
    using assms(1,4,8) by (auto simp: chains_def)
  then have "first_col ?ix = -1" by (simp add: head_ok_def)
  then have l: "link_column d (int n) col = Some ?d'"
    using assms(4,5,6) by (simp add: link_column_def arr_simps)
  have at: "at_serial ?K col x" using assms(5,6) by (simp add: at_serial_def)
  have cl: "chain_linked ?K [x]" using end_link_ok [OF ser tails assms(7)] by (simp add: chain_linked_def)
  have "in_range x ?K" using serial_in_range [OF ser in_range_nth_mem [OF assms(5)]] assms(6) by simp
  then have "0 \<le> x" by (simp add: in_range_def)
  then have "chains ?d' (S(n := [x]))"
    using assms(1,7) at cl by (auto simp: chains_def nth_list_update head_ok_def)
  moreover have "pathinfo_ok_upto p ?d'" using assms(3) by (rule pathinfo_ok_cong) simp_all
  moreover have "map idx_name (indexes ?d') = map idx_name (indexes d)" by (simp add: map_update_same)
  ultimately show ?thesis using l assms(8) by (auto simp: frame_def)
qed

lemma link_column_tail:
  assumes "chains d S" and "cols_ok (key_columns d)" and "pathinfo_ok_upto p d" and "n < length (indexes d)"
    and "in_range col (key_columns d)" and "x = serial_no (key_columns d ! nat col)"
    and "\<forall>m<length (indexes d). x \<notin> set (S m)" and "next_map (key_columns d) x = Some (-1)"
    and "\<forall>m<length (indexes d). m \<noteq> n \<longrightarrow> set (S m) \<inter> set (S n) = {}" and "S n \<noteq> []"
  shows "\<exists>d'. link_column d (int n) col = Some d' \<and> chains d' (S(n := S n @ [x])) \<and>
     cols_ok (key_columns d') \<and> name_map (key_columns d') = name_map (key_columns d) \<and>
     set (names (key_columns d')) = set (names (key_columns d)) \<and>
     pathinfo d' = pathinfo d \<and> pathinfo_ok_upto p d' \<and> frame d' = frame d \<and> indexes d' = indexes d"
proof -
  let ?K = "key_columns d" and ?ix = "indexes d ! n"
  have srt: "sorted_names ?K" and ser: "serials_ok ?K" and tails: "tails_ok ?K"
    using assms(2) by (auto simp: cols_ok_def)
  have n: "head_ok ?K ?ix" "schain (next_map ?K) (first_col_serial ?ix) (S n)" "chain_linked ?K (S n)"
    using assms(1,4) by (auto simp: chains_def)
  have rng: "in_range y ?K" if "y \<in> set (S n)" for y
    using chains_in_range [OF assms(1) ser assms(4) that] .
  have "first_col_serial ?ix \<in> set (S n)" using n(2) assms(10) by (cases "S n") auto
  then have "first_col_serial ?ix \<noteq> -1" using rng by (force simp: in_range_def)
  then have at: "at_serial ?K (first_col ?ix) (first_col_serial ?ix)" using n(1) by (simp add: head_ok_def)
  then have fc: "first_col ?ix \<noteq> -1" by (auto simp: at_serial_def in_range_def)
  obtain t where t: "chain_tail ?K (first_col ?ix) 0 = Some t" "at_serial ?K t (last (S n))"
    using chain_tail_last [OF ser n(2,3) assms(10) at] by blast
  define f where "f = (\<lambda>c::key_col. c\<lparr>next_in_key_serial := x, next_in_key := col\<rparr>)"
  let ?K' = "?K[nat t := f (?K ! nat t)]"
  let ?d' = "d\<lparr>key_columns := ?K'\<rparr>"
  have tr: "nat t < length ?K" "serial_no (?K ! nat t) = last (S n)" using t(2) by (auto simp: at_serial_def in_range_nat_lt)
  have l: "link_column d (int n) col = Some ?d'"
    using assms(4,5,6) t fc by (simp add: link_column_def arr_simps f_def at_serial_def)
  have "serial_no (f (?K ! nat t)) = serial_no (?K ! nat t)" "col_name (f (?K ! nat t)) = col_name (?K ! nat t)"
    by (simp_all add: f_def)
  note u = update_col [where f = f, OF ser srt tr(1) this]
  have nx: "next_map ?K' = (next_map ?K)(last (S n) \<mapsto> x)" using u(5) tr(2) by (simp add: f_def)
  have "in_range x ?K" using serial_in_range [OF ser in_range_nth_mem [OF assms(5)]] assms(6) by simp
  then have x0: "x \<noteq> -1" by (simp add: in_range_def)
  have lk: "link_ok ?K (f (?K ! nat t))" using assms(5,6) x0 by (simp add: link_ok_def f_def at_serial_def)
  have "tails_ok ?K'" using tails x0 set_update_subset_insert [of ?K "nat t" "f (?K ! nat t)"]
    by (auto simp: tails_ok_def f_def)
  with u have cols: "cols_ok ?K'" by (simp add: cols_ok_def)
  have "distinct (S n)" using schain_distinct [OF n(2)] rng by (force simp: in_range_def)
  then have c1: "schain (next_map ?K') (first_col_serial ?ix) (S n @ [x])"
    using schain_snoc [OF n(2) assms(10)] assms(4,7,8) x0 nx by auto
  have c0: "chain_linked ?K (S n @ [x])"
    using n(3) end_link_ok [OF ser tails assms(8)] by (auto simp: chain_linked_def)
  have c2: "chain_linked ?K' (S n @ [x])" by (rule update_col_linked [OF c0 u(4) refl disjI2 [OF lk]])
  have "schain (next_map ?K') (first_col_serial (indexes d ! m)) (S m)" "chain_linked ?K' (S m)"
    if m: "m < length (indexes d)" "m \<noteq> n" for m
  proof -
    have "last (S n) \<notin> set (S m)" using assms(9,10) m last_in_set [of "S n"] by blast
    then show "schain (next_map ?K') (first_col_serial (indexes d ! m)) (S m)"
      using assms(1) m by (simp add: chains_def nx schain_upd)
    have "chain_linked ?K (S m)" using assms(1) m by (simp add: chains_def)
    then show "chain_linked ?K' (S m)" by (rule update_col_linked [OF _ u(4) refl disjI2 [OF lk]])
  qed
  then have "chains ?d' (S(n := S n @ [x]))"
    using assms(1) c1 c2 head_ok_cong [OF u(4)] by (auto simp: chains_def)
  moreover have "pathinfo_ok_upto p ?d'" using u(4) by (intro pathinfo_ok_cong [OF assms(3)]) simp_all
  moreover have "names ?K' = names ?K" by (rule map_update_same) (simp add: f_def)
  then have "set (names ?K') = set (names ?K)" by (simp only:)
  ultimately show ?thesis using l cols u(3) by (auto simp: frame_def)
qed

text \<open>
  Adding the column itself: it gets its flags and becomes the end of a chain. A column that
  no index holds yet disturbs no chain.
\<close>

lemma col_assoc_fields [simp]:
  "col_name (col_assoc n ix e k) = col_name k" "serial_no (col_assoc n ix e k) = serial_no k"
  "next_in_key_serial (col_assoc n ix e k) = -1" "next_in_key (col_assoc n ix e k) = -1"
  by (auto simp: col_assoc_def Let_def split: option.split)

lemma add_column_to_index_ok:
  assumes "dir_ok_upto p d" and "n < length (indexes d)"
    and "\<forall>m<length (indexes d). \<forall>cs. index_columns d (indexes d ! m) = Some cs \<longrightarrow> expr_value e \<notin> set cs"
    and "columns_fit d ws" and "expr_value e \<in> set ws"
  shows "\<exists>d1 d' col ex S. add_column_to_index d (int n) e = Some (d', col, ex) \<and>
     dir_ok_upto p d1 \<and> extends d d1 \<and> d' = d1\<lparr>key_columns := key_columns d'\<rparr> \<and>
     name_map (key_columns d') = name_map (key_columns d1) \<and>
     chains d' S \<and> cols_ok (key_columns d') \<and> pathinfo_ok_upto p d' \<and>
     (\<forall>m<length (indexes d). index_columns d (indexes d ! m) = Some (map (serial_name (key_columns d')) (S m))) \<and>
     in_range col (key_columns d') \<and> col_name (key_columns d' ! nat col) = expr_value e \<and>
     next_map (key_columns d') (serial_no (key_columns d' ! nat col)) = Some (-1) \<and>
     (\<forall>m<length (indexes d). serial_no (key_columns d' ! nat col) \<notin> set (S m)) \<and>
     index_id (key_columns d' ! nat col) = int n"
proof -
  from add_key_column_ok [OF assms(1,4,5)] obtain d1 col ex where
    a: "add_key_column d (expr_value e) = Some (d1, col, ex)" "dir_ok_upto p d1" "extends d d1"
       "in_range col (key_columns d1)" "col_name (key_columns d1 ! nat col) = expr_value e" by blast
  let ?K = "key_columns d1"
  have srt: "sorted_names ?K" and ser: "serials_ok ?K" and tails: "tails_ok ?K"
    and pi: "pathinfo_ok_upto p d1" using a(2) by (auto simp: dir_ok_upto_def cols_ok_def)
  from chains_exist [OF a(2)] obtain S where S: "chains d1 S" .
  have len: "length (indexes d1) = length (indexes d)" using a(3) by (auto simp: extends_def list_all2_lengthD)
  have cols1: "index_columns d (indexes d ! m) = Some (map (serial_name ?K) (S m))" if "m < length (indexes d)" for m
    using extends_index_columns [OF assms(1) a(2,3) that] chains_columns [OF S ser] that len by auto
  let ?x = "serial_no (?K ! nat col)"
  have "name_map ?K ?x = Some (expr_value e)"
    using name_map_iff [OF ser] in_range_nth_mem [OF a(4)] a(5) by blast
  then have fresh: "?x \<notin> set (S m)" if "m < length (indexes d)" for m
    using assms(3) cols1 [OF that] that by (force simp: serial_name_def)
  define f where "f = col_assoc (int n) (Some (indexes d1 ! n)) e"
  let ?K' = "?K[nat col := f (?K ! nat col)]"
  let ?d' = "d1\<lparr>key_columns := ?K'\<rparr>"
  have f: "serial_no (f (?K ! nat col)) = ?x" "col_name (f (?K ! nat col)) = col_name (?K ! nat col)"
    "next_in_key_serial (f (?K ! nat col)) = -1" "next_in_key (f (?K ! nat col)) = -1" by (simp_all add: f_def)
  note u = update_col [where f = f, OF ser srt in_range_nat_lt [OF a(4)] f(1,2)]
  have add: "add_column_to_index d (int n) e = Some (?d', col, ex)"
    using a(1,4) assms(2) len by (simp add: add_column_to_index_def arr_simps f_def)
  have "tails_ok ?K'" using tails f set_update_subset_insert [of ?K "nat col" "f (?K ! nat col)"]
    by (auto simp: tails_ok_def)
  with u have cols: "cols_ok ?K'" by (simp add: cols_ok_def)
  have "schain (next_map ?K') (first_col_serial (indexes d1 ! m)) (S m)" "chain_linked ?K' (S m)"
    if m: "m < length (indexes d1)" for m
  proof -
    show "schain (next_map ?K') (first_col_serial (indexes d1 ! m)) (S m)"
      using S m fresh len u(5) by (simp add: chains_def schain_upd)
    have "chain_linked ?K (S m)" "serial_no (f (?K ! nat col)) \<notin> set (S m)"
      using S m f(1) fresh len by (auto simp: chains_def)
    then show "chain_linked ?K' (S m)" by (intro update_col_linked [OF _ u(4) refl]) simp_all
  qed
  then have ch: "chains ?d' S" using S head_ok_cong [OF u(4)] by (auto simp: chains_def)
  have sn: "serial_name ?K' = serial_name ?K" by (simp add: serial_name_def [abs_def] u(3))
  have at: "?K' ! nat col = f (?K ! nat col)" using in_range_nat_lt [OF a(4)] by simp
  show ?thesis
  proof (intro exI conjI)
    show "add_column_to_index d (int n) e = Some (?d', col, ex)" by (rule add)
    show "dir_ok_upto p d1" "extends d d1" "chains ?d' S" by (rule a ch)+
    show "name_map (key_columns ?d') = name_map ?K" using u(3) by simp
    show "cols_ok (key_columns ?d')" using cols by simp
    show "pathinfo_ok_upto p ?d'" using u(4) by (intro pathinfo_ok_cong [OF pi]) simp_all
    show "\<forall>m<length (indexes d). index_columns d (indexes d ! m) = Some (map (serial_name (key_columns ?d')) (S m))"
      using cols1 sn by simp
    show "in_range col (key_columns ?d')" using a(4) by (simp add: in_range_def)
    show "col_name (key_columns ?d' ! nat col) = expr_value e" using at f(2) a(5) by simp
    show "next_map (key_columns ?d') (serial_no (key_columns ?d' ! nat col)) = Some (-1)"
      using at f(1,3) u(5) by simp
    show "\<forall>m<length (indexes d). serial_no (key_columns ?d' ! nat col) \<notin> set (S m)" using at f(1) fresh by simp
    show "index_id (key_columns ?d' ! nat col) = int n" using at by (simp add: f_def col_assoc_def Let_def split: option.split)
  qed simp
qed

text \<open>What the indexes of a directory denote, and indexes that share no column.\<close>

definition columns :: "dir \<Rightarrow> nat \<Rightarrow> string list" where
  "columns d m = (case index_columns d (indexes d ! m) of None \<Rightarrow> [] | Some cs \<Rightarrow> cs)"

definition separate :: "dir \<Rightarrow> bool" where
  "separate d \<longleftrightarrow> (\<forall>m<length (indexes d). \<forall>n<length (indexes d).
     m \<noteq> n \<longrightarrow> set (columns d m) \<inter> set (columns d n) = {})"

definition unused :: "string \<Rightarrow> dir \<Rightarrow> bool" where
  "unused col d \<longleftrightarrow> (\<forall>m<length (indexes d). col \<notin> set (columns d m))"

lemma chains_columns':
  assumes "chains d S" and "serials_ok (key_columns d)" and "m < length (indexes d)"
  shows "columns d m = map (serial_name (key_columns d)) (S m)"
  using chains_columns [OF assms] by (simp add: columns_def)

lemma dir_ok_columns:
  assumes "dir_ok_upto p d" and "m < length (indexes d)"
  shows "index_columns d (indexes d ! m) = Some (columns d m)"
proof -
  from assms(1) obtain S where "chains d S" by (rule chains_exist)
  then show ?thesis using chains_columns [of d S m] assms
    by (auto simp: columns_def dir_ok_upto_def cols_ok_def)
qed

lemma index_search_range: "0 \<le> k \<Longrightarrow> k \<le> 32768 \<Longrightarrow>
   index_search idx ixs k = -1 \<and> k + int (length ixs) < 32768 \<and> Some idx \<notin> set (map idx_name ixs) \<or>
   index_search idx ixs k = -32768 \<and> 32768 \<le> k + int (length ixs) \<or>
   (\<exists>n<length ixs. index_search idx ixs k = k + int n \<and> k + int n < 32768 \<and> idx_name (ixs ! n) = Some idx)"
proof (induction ixs arbitrary: k)
  case (Cons ix ixs)
  show ?case
  proof (cases "k < 32768 \<and> idx_name ix \<noteq> Some idx")
    case True
    then have r: "index_search idx (ix # ixs) k = index_search idx ixs (k + 1)" by simp
    from True Cons.prems have k: "0 \<le> k + 1" "k + 1 \<le> 32768" by simp_all
    consider "index_search idx ixs (k + 1) = -1" "k + 1 + int (length ixs) < 32768" "Some idx \<notin> set (map idx_name ixs)"
      | "index_search idx ixs (k + 1) = -32768" "32768 \<le> k + 1 + int (length ixs)"
      | n where "n < length ixs" "index_search idx ixs (k + 1) = k + 1 + int n" "k + 1 + int n < 32768" "idx_name (ixs ! n) = Some idx"
      using Cons.IH [OF k] by blast
    then show ?thesis
    proof cases
      case (3 n)
      then have "Suc n < length (ix # ixs)" "k + 1 + int n = k + int (Suc n)" "(ix # ixs) ! Suc n = ixs ! n" by simp_all
      with 3 r show ?thesis by metis
    qed (use r True in auto)
  next
    case False
    with Cons.prems show ?thesis by (auto simp: to_short_full intro!: exI [of _ 0])
  qed
qed (auto simp: to_short_full)

lemma get_index_by_name_range:
  assumes "get_index_by_name d idx = int n"
  shows "n < length (indexes d)" "idx_name (indexes d ! n) = Some idx" "n < 32768"
  using index_search_range [of 0 idx "indexes d"] assms by (auto simp: get_index_by_name_def)

lemma link_column_ok:
  assumes "chains d S" and "cols_ok (key_columns d)" and "pathinfo_ok_upto p d" and "n < length (indexes d)"
    and "in_range col (key_columns d)" and "x = serial_no (key_columns d ! nat col)"
    and "\<forall>m<length (indexes d). x \<notin> set (S m)" and "next_map (key_columns d) x = Some (-1)"
    and "\<forall>m<length (indexes d). m \<noteq> n \<longrightarrow> set (S m) \<inter> set (S n) = {}"
  shows "\<exists>d'. link_column d (int n) col = Some d' \<and> chains d' (S(n := S n @ [x])) \<and>
     cols_ok (key_columns d') \<and> name_map (key_columns d') = name_map (key_columns d) \<and>
     pathinfo d' = pathinfo d \<and> pathinfo_ok_upto p d' \<and> frame d' = frame d \<and>
     map idx_name (indexes d') = map idx_name (indexes d)"
proof (cases "S n = []")
  case True
  from link_column_first [OF assms(1-6,8) True] assms(2) show ?thesis by force
next
  case False
  from link_column_tail [OF assms False] show ?thesis by force
qed

lemma separate_chains:
  assumes "separate d" and "\<forall>m<length (indexes d). columns d m = map f (S m)"
    and "m < length (indexes d)" and "n < length (indexes d)" and "m \<noteq> n"
  shows "set (S m) \<inter> set (S n) = {}"
proof -
  have "set (map f (S m)) \<inter> set (map f (S n)) = {}"
    using assms unfolding separate_def by (metis (no_types, lifting))
  then show ?thesis by auto
qed

lemma named_idx_ok:
  assumes "dir_ok d" and "separate d" and "get_index_by_name d idx = int n"
    and "\<not> (idx_type (indexes d ! n) = CHR ''O'' \<and> take 1 (expr_value e) = ''['')"
    and "unused (expr_value e) d" and "columns_fit d ws" and "expr_value e \<in> set ws"
  shows "\<exists>d'. named_idx d idx e = Some (d', None) \<and> dir_ok d' \<and> separate d' \<and>
     map idx_name (indexes d') = map idx_name (indexes d) \<and>
     columns d' n = columns d n @ [expr_value e] \<and>
     (\<forall>m<length (indexes d). m \<noteq> n \<longrightarrow> columns d' m = columns d m) \<and>
     frame d' = frame d \<and> pathinfo_columns d' = pathinfo_columns d"
proof -
  let ?sz = "nat (pathinfo_size d)"
  have ok: "dir_ok_upto ?sz d" using assms(1) by (simp add: dir_ok_def)
  note n = get_index_by_name_range [OF assms(3)]
  have "\<forall>m<length (indexes d). \<forall>cs. index_columns d (indexes d ! m) = Some cs \<longrightarrow> expr_value e \<notin> set cs"
    using assms(5) by (simp add: unused_def columns_def)
  from add_column_to_index_ok [OF ok n(1) this assms(6,7)] obtain d1 d2 col ex S where
    a: "add_column_to_index d (int n) e = Some (d2, col, ex)" "extends d d1"
       "d2 = d1\<lparr>key_columns := key_columns d2\<rparr>" "chains d2 S" "cols_ok (key_columns d2)" "pathinfo_ok_upto ?sz d2"
       "\<forall>m<length (indexes d). index_columns d (indexes d ! m) = Some (map (serial_name (key_columns d2)) (S m))"
       "in_range col (key_columns d2)" "col_name (key_columns d2 ! nat col) = expr_value e"
       "next_map (key_columns d2) (serial_no (key_columns d2 ! nat col)) = Some (-1)"
       "\<forall>m<length (indexes d). serial_no (key_columns d2 ! nat col) \<notin> set (S m)"
       "dir_ok_upto ?sz d1" "name_map (key_columns d2) = name_map (key_columns d1)" by blast
  let ?K = "key_columns d2"
  let ?x = "serial_no (?K ! nat col)"
  have ix: "indexes d2 = indexes d1" by (subst a(3)) simp
  have fr: "frame d2 = frame d" using a(2) by (subst a(3)) (simp add: frame_def extends_def)
  have same: "list_all2 same_index (indexes d) (indexes d2)" using a(2) ix by (simp add: extends_def)
  then have len: "length (indexes d2) = length (indexes d)" by (simp add: list_all2_lengthD)
  have nms: "map idx_name (indexes d2) = map idx_name (indexes d)"
    using same by (induction rule: list_all2_induct) (simp_all add: same_index_name)
  let ?bump = "\<lambda>i::index. i\<lparr>n_columns := (n_columns i + 1) mod 2 ^ 16\<rparr>"
  let ?d3 = "d2\<lparr>indexes := (indexes d2)[n := ?bump (indexes d2 ! n)]\<rparr>"
  have ser: "serials_ok ?K" using a(5) by (simp add: cols_ok_def)
  have "first_col_serial ((indexes d2)[n := ?bump (indexes d2 ! n)] ! m) = first_col_serial (indexes d2 ! m) \<and>
      first_col ((indexes d2)[n := ?bump (indexes d2 ! n)] ! m) = first_col (indexes d2 ! m)" for m
    using len n(1) by (cases "m = n") simp_all
  with a(4) have ch3: "chains ?d3 S" by (simp add: chains_def head_ok_def)
  have pi3: "pathinfo_ok_upto ?sz ?d3" using a(6) by (rule pathinfo_ok_cong) simp_all
  have "map idx_name (indexes ?d3) = map idx_name (indexes d2)" by (simp add: map_update_same)
  then have nm3: "map idx_name (indexes ?d3) = map idx_name (indexes d)" using nms by (rule trans)
  have cols: "\<forall>m<length (indexes d). columns d m = map (serial_name ?K) (S m)"
    using a(7) by (simp add: columns_def)
  have disj: "\<forall>m<length (indexes ?d3). m \<noteq> n \<longrightarrow> set (S m) \<inter> set (S n) = {}"
    using separate_chains [OF assms(2) cols _ n(1)] len by simp
  have pre: "cols_ok (key_columns ?d3)" "n < length (indexes ?d3)" "in_range col (key_columns ?d3)"
    "?x = serial_no (key_columns ?d3 ! nat col)" "\<forall>m<length (indexes ?d3). ?x \<notin> set (S m)"
    "next_map (key_columns ?d3) ?x = Some (-1)"
    using a(5,8,10,11) n(1) len by simp_all
  from link_column_ok [OF ch3 pre(1) pi3 pre(2-6) disj] obtain d' where d':
    "link_column ?d3 (int n) col = Some d'" "chains d' (S(n := S n @ [?x]))" "cols_ok (key_columns d')"
    "name_map (key_columns d') = name_map ?K" "pathinfo_ok_upto ?sz d'" "frame d' = frame ?d3"
    "map idx_name (indexes d') = map idx_name (indexes ?d3)" "pathinfo d' = pathinfo ?d3" by auto
  have lend: "length (indexes d') = length (indexes d)" using d'(7) nm3 by (metis length_map)
  have fr': "frame d' = frame d" using d'(6) fr by (simp add: frame_def)
  have run: "named_idx d idx e = Some (d', None)"
    using assms(3,4) n(1) len a(1) d'(1) by (auto simp: named_idx_def Let_def arr_simps)
  have sn: "serial_name (key_columns d') = serial_name ?K" by (simp add: serial_name_def [abs_def] d'(4))
  have "name_map ?K ?x = Some (expr_value e)"
    using name_map_iff [OF ser] in_range_nth_mem [OF a(8)] a(9) by blast
  then have x: "serial_name ?K ?x = expr_value e" by (simp add: serial_name_def)
  have ser': "serials_ok (key_columns d')" using d'(3) by (simp add: cols_ok_def)
  have colsn: "columns d' n = columns d n @ [expr_value e]"
    using chains_columns' [OF d'(2) ser'] n(1) lend cols sn x by simp
  have colsm: "columns d' m = columns d m" if "m < length (indexes d)" "m \<noteq> n" for m
    using chains_columns' [OF d'(2) ser'] that lend cols sn by simp
  have sep: "separate d'"
    unfolding separate_def lend
  proof (intro allI impI)
    fix l m assume lm: "l < length (indexes d)" "m < length (indexes d)" "l \<noteq> m"
    have "set (columns d l) \<inter> set (columns d m) = {}" using assms(2) lm by (auto simp: separate_def)
    moreover have "expr_value e \<notin> set (columns d l)" "expr_value e \<notin> set (columns d m)"
      using assms(5) lm by (auto simp: unused_def)
    ultimately show "set (columns d' l) \<inter> set (columns d' m) = {}"
      using colsn colsm lm by (cases "l = n"; cases "m = n") auto
  qed
  have "dir_ok_upto ?sz d'" by (rule chains_dir_ok [OF d'(2,3,5)])
  then have okd: "dir_ok d'" using frame_pathinfo_size [OF fr'] by (simp add: dir_ok_def)
  have fr1: "pathinfo_size d1 = pathinfo_size d" using a(2) unfolding extends_def by (blast dest: frame_pathinfo_size)
  have ok1: "dir_ok d1" using a(12) fr1 by (simp add: dir_ok_def)
  have "pathinfo d2 = pathinfo d1" by (subst a(3)) simp
  then have "pathinfo_columns d' = pathinfo_columns d1"
    using pathinfo_columns_ok [OF okd] pathinfo_columns_ok [OF ok1] d'(4,8) a(13) fr1 frame_pathinfo_size [OF fr'] by simp
  then have pc: "pathinfo_columns d' = pathinfo_columns d"
    using extends_pathinfo_columns [OF assms(1) ok1 a(2)] by simp
  have "map idx_name (indexes d') = map idx_name (indexes d)" using d'(7) nm3 by (rule trans)
  with run okd sep colsn colsm fr' pc show ?thesis by (intro exI [of _ d'] conjI allI impI)
qed

end
