(* ===== verification/Config_Directives.thy ===== *)
theory Config_Directives
  imports Config_Correct
begin

text \<open>
  What the directives \<open>PathInfo\<close>, \<open>UniqueIndex\<close>, \<open>OrderedIndex\<close>,
  \<open>PrimaryKey\<close> and \<open>Filter\<close> do to a well-formed directory, stated on the two
  things the query planner reads: the map from index names to column lists and the list of
  path-info columns.
\<close>

subsection \<open>The map of indexes\<close>

definition index_map :: "dir \<Rightarrow> (string \<rightharpoonup> string list)" where
  "index_map d idx =
     (let n = get_index_by_name d idx in
      if n < 0 then None else index_columns d (indexes d ! nat n))"

lemma index_search_names:
  "map idx_name ixs = map idx_name ixs' \<Longrightarrow> index_search idx ixs k = index_search idx ixs' k"
  by (induction ixs arbitrary: ixs' k) (case_tac ixs'; auto)+

lemma get_index_by_name_cong:
  "map idx_name (indexes d) = map idx_name (indexes d') \<Longrightarrow> get_index_by_name d' idx = get_index_by_name d idx"
  using index_search_names [of "indexes d" "indexes d'"] by (simp add: get_index_by_name_def)

lemma get_index_by_name_cases:
  obtains "get_index_by_name d idx < 0"
  | n where "get_index_by_name d idx = int n" "n < length (indexes d)" "idx_name (indexes d ! n) = Some idx"
  using index_search_range [of 0 idx "indexes d"] by (auto simp: get_index_by_name_def)

lemma index_map_None: "get_index_by_name d idx < 0 \<Longrightarrow> index_map d idx = None"
  by (simp add: index_map_def)

lemma index_map_Some:
  assumes "dir_ok d" and "get_index_by_name d idx = int n" and "n < length (indexes d)"
  shows "index_map d idx = Some (columns d n)"
  using dir_ok_columns [of "nat (pathinfo_size d)" d n] assms by (simp add: index_map_def dir_ok_def)

lemma index_map_upto:
  assumes "dir_ok_upto p d" and "get_index_by_name d idx = int n" and "n < length (indexes d)"
  shows "index_map d idx = Some (columns d n)"
  using dir_ok_columns [of p d n] assms by (simp add: index_map_def)

lemma index_map_cong:
  assumes "dir_ok_upto p d" and "dir_ok_upto p' d'" and "map idx_name (indexes d') = map idx_name (indexes d)"
    and "\<And>m. m < length (indexes d) \<Longrightarrow> columns d' m = columns d m"
  shows "index_map d' = index_map d"
proof
  fix idx
  have len: "length (indexes d') = length (indexes d)" using assms(3) by (metis length_map)
  have g: "get_index_by_name d' idx = get_index_by_name d idx"
    by (rule get_index_by_name_cong) (simp add: assms(3))
  show "index_map d' idx = index_map d idx"
  proof (cases rule: get_index_by_name_cases [of d idx])
    case 1
    with g show ?thesis by (simp add: index_map_None)
  next
    case (2 n)
    with g len assms show ?thesis by (simp add: index_map_upto)
  qed
qed

lemma same_index_names: "list_all2 same_index ixs ixs' \<Longrightarrow> map idx_name ixs' = map idx_name ixs"
  by (induction rule: list_all2_induct) (simp_all add: same_index_name)

lemma extends_index_map:
  assumes "dir_ok_upto p d" and "dir_ok_upto p' d'" and "extends d d'"
  shows "index_map d' = index_map d"
proof (rule index_map_cong [OF assms(1,2)])
  show "map idx_name (indexes d') = map idx_name (indexes d)"
    using assms(3) by (simp add: extends_def same_index_names)
  fix m assume "m < length (indexes d)"
  from extends_index_columns [OF assms this] show "columns d' m = columns d m" by (auto simp: columns_def)
qed

subsection \<open>New directories\<close>

lemma new_dir_ok: "dir_ok (new_dir gf path)" "separate (new_dir gf path)" "index_map (new_dir gf path) = Map.empty"
  "pathinfo_columns (new_dir gf path) = []"
  by (auto simp: dir_ok_def dir_ok_upto_def cols_ok_def sorted_names_def serials_ok_def tails_ok_def
      pathinfo_ok_upto_def new_dir_def zero_dir_def separate_def index_map_def get_index_by_name_def pathinfo_columns_def)

lemma merge_dir_ok: "dir_ok d2 \<Longrightarrow> dir_ok (merge_dir d1 d2)" "separate d2 \<Longrightarrow> separate (merge_dir d1 d2)"
  "index_map (merge_dir d1 d2) = index_map d2" "pathinfo_columns (merge_dir d1 d2) = pathinfo_columns d2"
  by (auto simp: dir_ok_def dir_ok_upto_def pathinfo_ok_upto_def separate_def columns_def index_columns_def
      index_map_def get_index_by_name_def pathinfo_columns_def merge_dir_frame Let_def fun_eq_iff)

subsection \<open>Path info\<close>

lemma pathinfo_store:
  assumes "dir_ok_upto n d" and "int n < pathinfo_size d" and "in_range c (key_columns d)"
  shows "\<exists>d'. (do { pi1 \<leftarrow> arr_upd (pathinfo d) (int n) (\<lambda>_. c);
                   k \<leftarrow> arr_get (key_columns d) c;
                   pi2 \<leftarrow> arr_upd pi1 (pathinfo_size d + int n) (\<lambda>_. serial_no k);
                   Some (d\<lparr>pathinfo := pi2\<rparr>) }) = Some d' \<and>
     dir_ok_upto (Suc n) d' \<and> key_columns d' = key_columns d \<and> indexes d' = indexes d \<and> frame d' = frame d \<and>
     pathinfo d' ! (n + nat (pathinfo_size d)) = serial_no (key_columns d ! nat c) \<and>
     (\<forall>i<n. pathinfo d' ! (i + nat (pathinfo_size d)) = pathinfo d ! (i + nat (pathinfo_size d)))"
proof -
  let ?K = "key_columns d" and ?sz = "nat (pathinfo_size d)"
  let ?k = "?K ! nat c"
  let ?pi = "(pathinfo d)[n := c, n + ?sz := serial_no ?k]"
  have p: "0 \<le> pathinfo_size d" "length (pathinfo d) = 2 * ?sz" and n: "n < ?sz"
    using assms(1,2) by (auto simp: dir_ok_upto_def pathinfo_ok_upto_def)
  have nat: "nat (pathinfo_size d + int n) = n + ?sz" using p by simp
  have ser: "serials_ok ?K" using assms(1) by (simp add: dir_ok_upto_def cols_ok_def)
  have sin: "in_range (serial_no ?k) ?K" by (rule serial_in_range [OF ser in_range_nth_mem [OF assms(3)]])
  have at: "at_serial ?K c (serial_no ?k)" using assms(3) by (simp add: at_serial_def)
  have run: "(do { pi1 \<leftarrow> arr_upd (pathinfo d) (int n) (\<lambda>_. c);
                   k \<leftarrow> arr_get (key_columns d) c;
                   pi2 \<leftarrow> arr_upd pi1 (pathinfo_size d + int n) (\<lambda>_. serial_no k);
                   Some (d\<lparr>pathinfo := pi2\<rparr>) }) = Some (d\<lparr>pathinfo := ?pi\<rparr>)"
    using p n assms(3) nat by (simp add: arr_get_def arr_upd_def in_range_def)
  have "pathinfo_ok_upto (Suc n) (d\<lparr>pathinfo := ?pi\<rparr>)"
    unfolding pathinfo_ok_upto_def
  proof (intro conjI)
    show "\<forall>i<Suc n. at_serial (key_columns (d\<lparr>pathinfo := ?pi\<rparr>)) (pathinfo (d\<lparr>pathinfo := ?pi\<rparr>) ! i)
       (pathinfo (d\<lparr>pathinfo := ?pi\<rparr>) ! (i + nat (pathinfo_size (d\<lparr>pathinfo := ?pi\<rparr>))))"
    proof (intro allI impI)
      fix i assume "i < Suc n"
      then consider "i = n" | "i < n" by linarith
      then show "at_serial (key_columns (d\<lparr>pathinfo := ?pi\<rparr>)) (pathinfo (d\<lparr>pathinfo := ?pi\<rparr>) ! i)
         (pathinfo (d\<lparr>pathinfo := ?pi\<rparr>) ! (i + nat (pathinfo_size (d\<lparr>pathinfo := ?pi\<rparr>))))"
      proof cases
        case 1
        with p n at show ?thesis by simp
      next
        case 2
        moreover have "at_serial ?K (pathinfo d ! i) (pathinfo d ! (i + ?sz))"
          using assms(1) 2 by (simp add: dir_ok_upto_def pathinfo_ok_upto_def)
        ultimately show ?thesis using n by simp
      qed
    qed
    show "\<forall>i<nat (pathinfo_size (d\<lparr>pathinfo := ?pi\<rparr>)).
       pathinfo (d\<lparr>pathinfo := ?pi\<rparr>) ! (i + nat (pathinfo_size (d\<lparr>pathinfo := ?pi\<rparr>))) = 0 \<or>
       in_range (pathinfo (d\<lparr>pathinfo := ?pi\<rparr>) ! (i + nat (pathinfo_size (d\<lparr>pathinfo := ?pi\<rparr>))))
         (key_columns (d\<lparr>pathinfo := ?pi\<rparr>))"
    proof (intro allI impI)
      fix i assume i: "i < nat (pathinfo_size (d\<lparr>pathinfo := ?pi\<rparr>))"
      have "pathinfo d ! (i + ?sz) = 0 \<or> in_range (pathinfo d ! (i + ?sz)) ?K"
        using assms(1) i by (simp add: dir_ok_upto_def pathinfo_ok_upto_def)
      then show "pathinfo (d\<lparr>pathinfo := ?pi\<rparr>) ! (i + nat (pathinfo_size (d\<lparr>pathinfo := ?pi\<rparr>))) = 0 \<or>
         in_range (pathinfo (d\<lparr>pathinfo := ?pi\<rparr>) ! (i + nat (pathinfo_size (d\<lparr>pathinfo := ?pi\<rparr>))))
           (key_columns (d\<lparr>pathinfo := ?pi\<rparr>))"
        using p n i sin by (cases "i = n") simp_all
    qed
  qed (use p n in auto)
  then have "dir_ok_upto (Suc n) (d\<lparr>pathinfo := ?pi\<rparr>)" using assms(1) by (simp add: dir_ok_upto_def)
  with run p n show ?thesis by (simp add: frame_def)
qed

lemma pathinfo_loop_step:
  assumes "add_key_column d w = Some (d1, c, ex)"
    and "(do { pi1 \<leftarrow> arr_upd (pathinfo d1) (int n) (\<lambda>_. c);
                   k \<leftarrow> arr_get (key_columns d1) c;
                   pi2 \<leftarrow> arr_upd pi1 (pathinfo_size d1 + int n) (\<lambda>_. serial_no k);
                   Some (d1\<lparr>pathinfo := pi2\<rparr>) }) = Some d2"
  shows "pathinfo_loop (w # ws) n d = pathinfo_loop ws (Suc n) d2"
  using assms by (auto split: Option.bind_splits)


lemma same_columns_cong:
  assumes "key_columns d' = key_columns d" and "indexes d' = indexes d"
  shows "index_map d' = index_map d" "columns d' m = columns d m"
  using assms by (simp_all add: index_map_def get_index_by_name_def index_columns_def columns_def fun_eq_iff Let_def)

lemma extends_columns:
  assumes "dir_ok_upto p d" and "dir_ok_upto p' d'" and "extends d d'"
  shows "length (indexes d') = length (indexes d)" "m < length (indexes d) \<Longrightarrow> columns d' m = columns d m"
    "separate d \<Longrightarrow> separate d'"
proof -
  show l: "length (indexes d') = length (indexes d)" using assms(3) by (auto simp: extends_def list_all2_lengthD)
  have c: "columns d' m = columns d m" if "m < length (indexes d)" for m
    using extends_index_columns [OF assms that] by (auto simp: columns_def)
  then show "m < length (indexes d) \<Longrightarrow> columns d' m = columns d m" .
  show "separate d \<Longrightarrow> separate d'" using l c by (simp add: separate_def)
qed

lemma pathinfo_loop_ok:
  assumes "dir_ok_upto n d" and "pathinfo_size d = int sz" and "n + length ws = sz" and "columns_fit d ws"
  shows "\<exists>d'. pathinfo_loop ws n d = Some d' \<and> dir_ok d' \<and> frame d' = frame d \<and>
     name_map (key_columns d) \<subseteq>\<^sub>m name_map (key_columns d') \<and>
     (\<forall>i<n. pathinfo d' ! (i + sz) = pathinfo d ! (i + sz)) \<and>
     (\<forall>i<length ws. name_map (key_columns d') (pathinfo d' ! (n + i + sz)) = Some (ws ! i)) \<and>
     index_map d' = index_map d \<and> (separate d \<longrightarrow> separate d')"
  using assms
proof (induction ws arbitrary: n d)
  case Nil
  then show ?case by (simp add: dir_ok_def)
next
  case (Cons w ws)
  from add_key_column_ok [OF Cons.prems(1,4), of w] obtain d1 c ex where
    a: "add_key_column d w = Some (d1, c, ex)" "dir_ok_upto n d1" "extends d d1"
       "in_range c (key_columns d1)" "col_name (key_columns d1 ! nat c) = w" by auto
  have f1: "frame d1 = frame d" using a(3) by (simp add: extends_def)
  then have sz1: "pathinfo_size d1 = int sz" using frame_pathinfo_size Cons.prems(2) by metis
  have lt: "int n < pathinfo_size d1" using sz1 Cons.prems(3) by simp
  from pathinfo_store [OF a(2) lt a(4)] obtain d2 where
    b: "(do { pi1 \<leftarrow> arr_upd (pathinfo d1) (int n) (\<lambda>_. c);
              k \<leftarrow> arr_get (key_columns d1) c;
              pi2 \<leftarrow> arr_upd pi1 (pathinfo_size d1 + int n) (\<lambda>_. serial_no k);
              Some (d1\<lparr>pathinfo := pi2\<rparr>) }) = Some d2"
       "dir_ok_upto (Suc n) d2" "key_columns d2 = key_columns d1" "indexes d2 = indexes d1" "frame d2 = frame d1"
       "pathinfo d2 ! (n + sz) = serial_no (key_columns d1 ! nat c)"
       "\<forall>i<n. pathinfo d2 ! (i + sz) = pathinfo d1 ! (i + sz)" using sz1 by auto
  have sz2: "pathinfo_size d2 = int sz" using frame_pathinfo_size [OF b(5)] sz1 by simp
  have "columns_fit d2 ws"
    using columns_fit_step [of d "[w]" ws d2] Cons.prems(4) add_key_column_names(1) [OF a(1)] b(3) by simp
  with Cons.IH [OF b(2) sz2] Cons.prems(3) obtain d' where
    i: "pathinfo_loop ws (Suc n) d2 = Some d'" "dir_ok d'" "frame d' = frame d2"
       "name_map (key_columns d2) \<subseteq>\<^sub>m name_map (key_columns d')"
       "\<forall>i<Suc n. pathinfo d' ! (i + sz) = pathinfo d2 ! (i + sz)"
       "\<forall>i<length ws. name_map (key_columns d') (pathinfo d' ! (Suc n + i + sz)) = Some (ws ! i)"
       "index_map d' = index_map d2" "separate d2 \<longrightarrow> separate d'" by auto
  have ser: "serials_ok (key_columns d1)" using a(2) by (simp add: dir_ok_upto_def cols_ok_def)
  have "name_map (key_columns d1) (serial_no (key_columns d1 ! nat c)) = Some w"
    using name_map_iff [OF ser] in_range_nth_mem [OF a(4)] a(5) by blast
  with i(4,5) b(3,6) have w: "name_map (key_columns d') (pathinfo d' ! (n + sz)) = Some w"
    by (simp add: map_le_def dom_def)
  have nm: "\<forall>i<length (w # ws). name_map (key_columns d') (pathinfo d' ! (n + i + sz)) = Some ((w # ws) ! i)"
  proof (intro allI impI)
    fix i assume "i < length (w # ws)"
    then show "name_map (key_columns d') (pathinfo d' ! (n + i + sz)) = Some ((w # ws) ! i)"
      using w i(6) by (cases i) auto
  qed
  have ext: "\<forall>i<n. pathinfo d1 ! (i + sz) = pathinfo d ! (i + sz)" "name_map (key_columns d) \<subseteq>\<^sub>m name_map (key_columns d1)"
    using a(3) Cons.prems(2,3) by (auto simp: extends_def)
  show ?case
  proof (intro exI conjI)
    show "pathinfo_loop (w # ws) n d = Some d'" using pathinfo_loop_step [OF a(1) b(1)] i(1) by simp
    show "dir_ok d'" by (rule i)
    show "frame d' = frame d" using i(3) b(5) f1 by simp
    show "name_map (key_columns d) \<subseteq>\<^sub>m name_map (key_columns d')"
      using ext(2) i(4) b(3) by (auto intro: map_le_trans)
    show "\<forall>i<n. pathinfo d' ! (i + sz) = pathinfo d ! (i + sz)" using i(5) b(7) ext(1) by simp
    show "\<forall>i<length (w # ws). name_map (key_columns d') (pathinfo d' ! (n + i + sz)) = Some ((w # ws) ! i)" by (rule nm)
    show "index_map d' = index_map d"
      using i(7) same_columns_cong(1) [OF b(3,4)] extends_index_map [OF Cons.prems(1) a(2,3)] by simp
    show "separate d \<longrightarrow> separate d'"
      using i(8) same_columns_cong(2) [OF b(3,4)] extends_columns(3) [OF Cons.prems(1) a(2,3)] b(4)
      by (simp add: separate_def)
  qed
qed

text \<open>The array of the directive before its loop: every slot is zero.\<close>

lemma fresh_pathinfo:
  assumes "dir_ok d"
  shows "dir_ok_upto 0 (d\<lparr>pathinfo_size := int n, pathinfo := replicate (2 * n) 0\<rparr>)"
  using assms by (auto simp: dir_ok_def dir_ok_upto_def pathinfo_ok_upto_def)

lemma pathinfo_loop_columns:
  assumes "dir_ok d" and "columns_fit d ws"
  shows "\<exists>d'. pathinfo_loop ws 0 (d\<lparr>pathinfo_size := int (length ws), pathinfo := replicate (2 * length ws) 0\<rparr>) = Some d' \<and>
     dir_ok d' \<and> pathinfo_columns d' = map Some ws \<and> index_map d' = index_map d \<and> (separate d \<longrightarrow> separate d') \<and>
     frame d' = frame (d\<lparr>pathinfo_size := int (length ws)\<rparr>)"
proof -
  let ?d = "d\<lparr>pathinfo_size := int (length ws), pathinfo := replicate (2 * length ws) 0\<rparr>"
  from pathinfo_loop_ok [where ws = ws and sz = "length ws", OF fresh_pathinfo [OF assms(1), of "length ws"]] assms(2) obtain d' where
    d': "pathinfo_loop ws 0 ?d = Some d'" "dir_ok d'" "frame d' = frame ?d"
        "\<forall>i<length ws. name_map (key_columns d') (pathinfo d' ! (i + length ws)) = Some (ws ! i)"
        "index_map d' = index_map ?d" "separate ?d \<longrightarrow> separate d'" by (auto simp: columns_fit_def)
  have sz: "pathinfo_size d' = int (length ws)" using frame_pathinfo_size [OF d'(3)] by simp
  have "pathinfo_columns d' = map (\<lambda>i. Some (ws ! i)) [0..<length ws]"
    using pathinfo_columns_ok [OF d'(2)] d'(4) sz by simp
  moreover have "map (\<lambda>i. Some (ws ! i)) [0..<length ws] = map Some ws" by (rule nth_equalityI) simp_all
  ultimately have "pathinfo_columns d' = map Some ws" by (rule trans)
  moreover have "index_map ?d = index_map d" "separate ?d = separate d"
    using same_columns_cong [of ?d d] by (simp_all add: separate_def)
  ultimately show ?thesis using d' by (simp add: frame_def)
qed

lemma always_cong:
  "dir_ok (d\<lparr>pathinfo_always := b\<rparr>) = dir_ok d" "separate (d\<lparr>pathinfo_always := b\<rparr>) = separate d"
  "pathinfo_columns (d\<lparr>pathinfo_always := b\<rparr>) = pathinfo_columns d" "index_map (d\<lparr>pathinfo_always := b\<rparr>) = index_map d"
  by (simp_all add: dir_ok_def dir_ok_upto_def pathinfo_ok_upto_def pathinfo_columns_def separate_def columns_def
      index_map_def get_index_by_name_def index_columns_def fun_eq_iff Let_def)


text \<open>
  The words of a specification. \<open>ap_getword\<close> is documented to return the text before the
  first stop character and to move the line past it and the stop characters that follow.
\<close>

definition getword_law :: "(string \<Rightarrow> char \<Rightarrow> string \<times> string) \<Rightarrow> bool" where
  "getword_law getword \<longleftrightarrow> (\<forall>line stop. getword line stop =
     (takeWhile (\<lambda>c. c \<noteq> stop) line, dropWhile (\<lambda>c. c = stop) (dropWhile (\<lambda>c. c \<noteq> stop) line)))"

function path_words :: "string \<Rightarrow> string list" where
  "path_words [] = []"
| "path_words (c # cs) =
     (if c = CHR ''/'' then path_words cs
      else (c # takeWhile (\<lambda>x. x \<noteq> CHR ''/'') cs) # path_words (dropWhile (\<lambda>x. x \<noteq> CHR ''/'') cs))"
  by pat_completeness auto
termination by (relation "measure length") (auto simp: less_Suc_eq_le length_dropWhile_le)

lemma path_words_slashes: "path_words (dropWhile (\<lambda>c. c = CHR ''/'') cs) = path_words cs"
  by (induction cs) auto

lemma length_path_words: "length (path_words p) \<le> Suc (count_list p (CHR ''/''))"
  "p \<noteq> [] \<Longrightarrow> hd p = CHR ''/'' \<Longrightarrow> length (path_words p) \<le> count_list p (CHR ''/'')"
proof (induction p rule: path_words.induct)
  case (2 c cs)
  {
    case 1
    show ?case
    proof (cases "c = CHR ''/''")
      case True
      with "2.IH"(1) [OF True] show ?thesis by simp
    next
      case False
      let ?r = "dropWhile (\<lambda>x. x \<noteq> CHR ''/'') cs"
      have "count_list cs (CHR ''/'') = count_list (takeWhile (\<lambda>x. x \<noteq> CHR ''/'') cs) (CHR ''/'') + count_list ?r (CHR ''/'')"
        by (metis count_list_append takeWhile_dropWhile_id)
      then have "count_list ?r (CHR ''/'') \<le> count_list cs (CHR ''/'')" by simp
      moreover have "length (path_words ?r) \<le> count_list ?r (CHR ''/'')"
      proof (cases "?r = []")
        case True
        then show ?thesis by (simp only: path_words.simps list.size)
      next
        case nonempty: False
        then have "hd ?r = CHR ''/''" using hd_dropWhile [OF nonempty] by simp
        with nonempty show ?thesis by (rule "2.IH"(4) [OF False])
      qed
      ultimately show ?thesis using False by simp
    qed
  next
    case 2
    with "2.IH"(1) show ?case by simp
  }
qed simp_all

lemma pathinfo_items_words:
  assumes "getword_law gw" and "length items + length (path_words p) \<le> n"
  shows "pathinfo_items gw n p items = Some (items @ path_words p)"
  using assms(2)
proof (induction p arbitrary: items rule: length_induct)
  case (1 p)
  show ?case
  proof (cases p)
    case Nil
    then show ?thesis by (simp add: pathinfo_items.simps)
  next
    case (Cons c cs)
    let ?rest = "snd (gw p (CHR ''/''))"
    show ?thesis
    proof (cases "c = CHR ''/''")
      case True
      have r: "gw p (CHR ''/'') = ([], dropWhile (\<lambda>c. c = CHR ''/'') cs)"
        using assms(1) Cons True by (simp add: getword_law_def)
      have "length (dropWhile (\<lambda>c. c = CHR ''/'') cs) < length p" using Cons by (simp add: less_Suc_eq_le length_dropWhile_le)
      with 1 r Cons True show ?thesis by (subst pathinfo_items.simps) (simp add: path_words_slashes)
    next
      case False
      let ?d = "dropWhile (\<lambda>x. x \<noteq> CHR ''/'') cs"
      have r: "gw p (CHR ''/'') = (c # takeWhile (\<lambda>x. x \<noteq> CHR ''/'') cs, dropWhile (\<lambda>c. c = CHR ''/'') ?d)"
        using assms(1) Cons False by (simp add: getword_law_def)
      have "length (dropWhile (\<lambda>c. c = CHR ''/'') ?d) < length p"
        using Cons length_dropWhile_le [of "\<lambda>c. c = CHR ''/''" ?d] length_dropWhile_le [of "\<lambda>x. x \<noteq> CHR ''/''" cs] by simp
      with 1 r Cons False show ?thesis by (subst pathinfo_items.simps) (simp add: path_words_slashes)
    qed
  qed
qed

lemma pathinfo_directive_ok:
  assumes "getword_law gw" and "dir_ok d" and "columns_fit d (path_words arg1)"
  shows "\<exists>d'. pathinfo_directive gw tolower d arg1 arg2 = Some (d', None) \<and> dir_ok d' \<and>
     pathinfo_columns d' = map Some (path_words arg1) \<and> index_map d' = index_map d \<and>
     (separate d \<longrightarrow> separate d')"
proof -
  let ?ws = "path_words arg1"
  have i: "pathinfo_items gw (Suc (count_list arg1 (CHR ''/''))) arg1 [] = Some ?ws"
    using pathinfo_items_words [OF assms(1), of "[]"] length_path_words(1) by simp
  from pathinfo_loop_columns [OF assms(2,3)] obtain d1 where
    "pathinfo_loop ?ws 0 (d\<lparr>pathinfo_size := int (length ?ws), pathinfo := replicate (2 * length ?ws) 0\<rparr>) = Some d1"
    "dir_ok d1" "pathinfo_columns d1 = map Some ?ws" "index_map d1 = index_map d" "separate d \<longrightarrow> separate d1" by blast
  with i show ?thesis
    by (auto simp: pathinfo_directive_def always_cong split: option.split)
qed


subsection \<open>Index directives\<close>

lemma index_search_append:
  "index_search idx (ixs @ [ix]) k =
     (if index_search idx ixs k \<noteq> -1 then index_search idx ixs k
      else if idx_name ix = Some idx then k + int (length ixs)
      else if k + int (length ixs) < 32767 then -1 else -32768)" if "0 \<le> k" "k + int (length ixs) < 32768"
  using that
proof (induction ixs arbitrary: k)
  case Nil
  have "to_short (k + 1) = -32768" if "\<not> k < 32767"
  proof -
    have "k = 32767" using that Nil.prems by simp
    then show ?thesis by (simp add: to_short_full)
  qed
  with Nil show ?case by simp
qed (auto simp: add.commute)

lemma build_index_record_ok:
  assumes "dir_ok d" and "separate d" and "get_index_by_name d idx = -1"
  shows "dir_ok (fst (build_index_record d t idx))" "separate (fst (build_index_record d t idx))"
    "index_map (fst (build_index_record d t idx)) = (index_map d)(idx \<mapsto> [])"
    "get_index_by_name (fst (build_index_record d t idx)) idx = int (length (indexes d))"
    "pathinfo_columns (fst (build_index_record d t idx)) = pathinfo_columns d"
    "\<And>col. unused col d \<Longrightarrow> unused col (fst (build_index_record d t idx))"
proof -
  let ?d = "fst (build_index_record d t idx)"
  have len: "int (length (indexes d)) < 32768"
    using index_search_range [of 0 idx "indexes d"] assms(3) by (auto simp: get_index_by_name_def)
  define ix where "ix = zero_index\<lparr>idx_name := Some idx, idx_type := t, first_col_serial := -1, first_col := -1\<rparr>"
  have ixs: "indexes ?d = indexes d @ [ix]" and k: "key_columns ?d = key_columns d" and pi: "pathinfo ?d = pathinfo d"
    "pathinfo_size ?d = pathinfo_size d" by (simp_all add: build_index_record_def ix_def)
  have "index_ok (key_columns d) ix"
    by (auto simp: index_ok_def head_ok_def ix_def chain_linked_def intro!: exI [of _ "[]"])
  then show ok: "dir_ok ?d" using assms(1) by (simp add: dir_ok_def dir_ok_upto_def pathinfo_ok_upto_def ixs k pi)
  have nth: "indexes ?d ! m = (if m < length (indexes d) then indexes d ! m else ix)" if "m < Suc (length (indexes d))" for m
    using that by (auto simp: ixs nth_append less_Suc_eq)
  have c: "columns ?d m = (if m < length (indexes d) then columns d m else [])" if "m < Suc (length (indexes d))" for m
    using that nth [OF that] by (auto simp: columns_def index_columns_def k ix_def chain_names.simps)
  then show "separate ?d" using assms(2) by (auto simp: separate_def ixs)
  show "unused col ?d" if "unused col d" for col using that c by (auto simp: unused_def ixs)
  show "pathinfo_columns ?d = pathinfo_columns d" by (simp add: pathinfo_columns_def k pi)
  have g: "get_index_by_name ?d i = (if get_index_by_name d i \<noteq> -1 then get_index_by_name d i
       else if i = idx then int (length (indexes d)) else if int (length (indexes d)) < 32767 then -1 else -32768)" for i
    using index_search_append [of 0 "indexes d" i ix] len by (auto simp: get_index_by_name_def ixs ix_def)
  then show gi: "get_index_by_name ?d idx = int (length (indexes d))" using assms(3) by simp
  show "index_map ?d = (index_map d)(idx \<mapsto> [])"
  proof
    fix i
    show "index_map ?d i = ((index_map d)(idx \<mapsto> [])) i"
    proof (cases rule: get_index_by_name_cases [of d i])
      case 1
      then show ?thesis using g [of i] c [of "length (indexes d)"] gi index_map_Some [OF ok gi] ixs
        by (simp add: index_map_None)
    next
      case (2 n)
      then have "i \<noteq> idx" using assms(3) by auto
      moreover have "get_index_by_name ?d i = int n" using g [of i] 2(1) by simp
      ultimately show ?thesis using 2 c [of n] index_map_Some [OF ok, of i n] index_map_Some [OF assms(1) 2(1,2)] ixs
        by simp
    qed
  qed
qed

lemma index_search_nth:
  assumes "distinct (map idx_name ixs)" and "m < length ixs" and "idx_name (ixs ! m) = Some i" and "k + int m < 32768"
  shows "index_search i ixs k = k + int m"
  using assms
proof (induction ixs arbitrary: m k)
  case (Cons ix ixs)
  show ?case
  proof (cases m)
    case 0
    with Cons.prems show ?thesis by simp
  next
    case (Suc j)
    with Cons.prems have "ixs ! j \<in> set ixs" and nj: "idx_name (ixs ! j) = Some i" by simp_all
    from this(1) have "idx_name (ixs ! j) \<in> set (map idx_name ixs)" unfolding set_map by (rule imageI)
    with Cons.prems(1) nj have "idx_name ix \<noteq> Some i" by auto
    with Cons.IH [of j "k + 1"] Cons.prems Suc show ?thesis by simp
  qed
qed simp

definition names_once :: "dir \<Rightarrow> bool" where
  "names_once d \<longleftrightarrow> None \<notin> set (map idx_name (indexes d)) \<and> distinct (map idx_name (indexes d)) \<and>
     length (map idx_name (indexes d)) \<le> 32768"

lemma names_once_cong: "map idx_name (indexes d') = map idx_name (indexes d) \<Longrightarrow> names_once d' = names_once d"
  by (simp only: names_once_def)

text \<open>The indexes of a directory and those of a list of names: not more than a \<open>short\<close> can count.\<close>

definition indexes_fit :: "dir \<Rightarrow> string list \<Rightarrow> bool" where
  "indexes_fit d nms \<longleftrightarrow> card (set (map idx_name (indexes d)) \<union> Some ` set nms) \<le> 32768"

lemma indexes_fit_step:
  assumes "indexes_fit d (xs @ ws)" and "set (map idx_name (indexes d')) \<subseteq> Some ` set xs \<union> set (map idx_name (indexes d))"
  shows "indexes_fit d' ws"
proof -
  have "set (map idx_name (indexes d')) \<union> Some ` set ws \<subseteq> set (map idx_name (indexes d)) \<union> Some ` set (xs @ ws)" using assms(2) by auto
  then have "card (set (map idx_name (indexes d')) \<union> Some ` set ws) \<le> card (set (map idx_name (indexes d)) \<union> Some ` set (xs @ ws))"
    by (rule card_mono [rotated]) simp
  with assms(1) show ?thesis by (simp add: indexes_fit_def)
qed

lemma indexes_fit_get:
  assumes "names_once d" and "indexes_fit d nms" and "idx \<in> set nms" and "get_index_by_name d idx < 0"
  shows "get_index_by_name d idx = -1"
proof (rule ccontr)
  assume "get_index_by_name d idx \<noteq> -1"
  with assms(4) have full: "32768 \<le> length (indexes d)"
    using index_search_range [of 0 idx "indexes d"] by (auto simp: get_index_by_name_def)
  have new: "Some idx \<notin> set (map idx_name (indexes d))"
  proof
    assume "Some idx \<in> set (map idx_name (indexes d))"
    then obtain m where m: "m < length (indexes d)" "idx_name (indexes d ! m) = Some idx" by (auto simp: in_set_conv_nth)
    have "index_search idx (indexes d) 0 \<noteq> int n" for n using assms(4) by (simp add: get_index_by_name_def)
    then show False using index_search_nth [of "indexes d" m idx 0] m assms(1) by (simp add: names_once_def)
  qed
  have "card (set (map idx_name (indexes d))) = length (indexes d)"
    using assms(1) distinct_card [of "map idx_name (indexes d)"] by (simp add: names_once_def)
  with new full have "32768 < card (insert (Some idx) (set (map idx_name (indexes d))))" by (simp del: set_map)
  also have "\<dots> \<le> card (set (map idx_name (indexes d)) \<union> Some ` set nms)" using assms(3) by (intro card_mono) auto
  finally show False using assms(2) by (simp add: indexes_fit_def)
qed

lemma names_once_get:
  assumes "names_once d" and "m < length (indexes d)"
  shows "get_index_by_name d (the (idx_name (indexes d ! m))) = int m"
proof -
  have "m < 32768" using assms by (simp add: names_once_def)
  have "idx_name (indexes d ! m) \<in> set (map idx_name (indexes d))" using assms(2) by simp
  then obtain i where "idx_name (indexes d ! m) = Some i" using assms(1) unfolding names_once_def by (metis not_None_eq)
  with assms \<open>m < 32768\<close> index_search_nth [of "indexes d" m i 0] show ?thesis by (simp add: get_index_by_name_def names_once_def)
qed

definition index_cols :: "dir \<Rightarrow> string \<Rightarrow> string list" where
  "index_cols d idx = (case index_map d idx of None \<Rightarrow> [] | Some cs \<Rightarrow> cs)"

lemma named_idx_map:
  assumes "dir_ok d" and "separate d" and "get_index_by_name d idx = int n" and "take 1 (expr_value e) \<noteq> ''[''"
    and "unused (expr_value e) d" and "columns_fit d ws" and "expr_value e \<in> set ws"
  shows "\<exists>d'. named_idx d idx e = Some (d', None) \<and> dir_ok d' \<and> separate d' \<and>
     index_map d' = (index_map d)(idx \<mapsto> columns d n @ [expr_value e]) \<and>
     frame d' = frame d \<and> pathinfo_columns d' = pathinfo_columns d \<and>
     map idx_name (indexes d') = map idx_name (indexes d)"
proof -
  note n = get_index_by_name_range [OF assms(3)]
  from named_idx_ok [OF assms(1-3) _ assms(5-7)] assms(4) obtain d' where
    d': "named_idx d idx e = Some (d', None)" "dir_ok d'" "separate d'" "map idx_name (indexes d') = map idx_name (indexes d)"
      "columns d' n = columns d n @ [expr_value e]" "\<forall>m<length (indexes d). m \<noteq> n \<longrightarrow> columns d' m = columns d m"
      "frame d' = frame d" "pathinfo_columns d' = pathinfo_columns d" by blast
  have len: "length (indexes d') = length (indexes d)" using d'(4) by (metis length_map)
  have g: "get_index_by_name d' i = get_index_by_name d i" for i
    by (rule get_index_by_name_cong) (simp add: d'(4))
  have "index_map d' i = ((index_map d)(idx \<mapsto> columns d n @ [expr_value e])) i" for i
  proof (cases rule: get_index_by_name_cases [of d i])
    case 1
    with assms(3) g show ?thesis by (cases "i = idx") (simp_all add: index_map_None)
  next
    case (2 m)
    have dd: "index_map d' i = Some (columns d' m)" "index_map d i = Some (columns d m)"
      using index_map_Some [OF d'(2), of i m] index_map_Some [OF assms(1) 2(1,2)] 2 g len by auto
    show ?thesis
    proof (cases "i = idx")
      case True
      with 2(1) assms(3) have "m = n" by simp
      with True dd d'(5) show ?thesis by simp
    next
      case False
      with 2(3) n(2) have "m \<noteq> n" by auto
      with False dd d'(6) 2(2) show ?thesis by simp
    qed
  qed
  then have "index_map d' = (index_map d)(idx \<mapsto> columns d n @ [expr_value e])" by (rule ext)
  with d' show ?thesis by blast
qed

lemma unused_index_map:
  assumes "dir_ok d" and "unused col d" and "index_map d i = Some cs"
  shows "col \<notin> set cs"
proof (cases rule: get_index_by_name_cases [of d i])
  case 1
  with assms(3) show ?thesis by (simp add: index_map_None)
next
  case (2 n)
  with assms index_map_Some [OF assms(1) 2(1,2)] show ?thesis by (auto simp: unused_def)
qed

lemma named_index_ok:
  assumes "dir_ok d" and "separate d" and "unused col d" and "take 1 col \<noteq> ''[''"
    and "dir_magic_number d = dir_magic" and "idx_name (index_scan d) \<noteq> Some idx"
    and "columns_fit d ws" and "col \<in> set ws" and "names_once d" and "indexes_fit d nms" and "idx \<in> set nms"
  shows "\<exists>d'. named_index t d idx col = Some (d', None) \<and> dir_ok d' \<and> separate d' \<and>
     index_map d' = (index_map d)(idx \<mapsto> index_cols d idx @ [col]) \<and>
     frame d' = frame d \<and> pathinfo_columns d' = pathinfo_columns d \<and> names_once d'"
proof (cases rule: get_index_by_name_cases [of d idx])
  case negative: 1
  have 1: "get_index_by_name d idx = -1" by (rule indexes_fit_get [OF assms(9-11) negative])
  let ?d = "fst (build_index_record d t idx)"
  note b = build_index_record_ok [OF assms(1,2) 1]
  have "unused (expr_value (param_expr col)) ?d" "take 1 (expr_value (param_expr col)) \<noteq> ''[''"
    using b(6) [OF assms(3)] assms(4) by (simp_all add: param_expr_def)
  note u = this
  have w: "columns_fit ?d ws" "expr_value (param_expr col) \<in> set ws"
    using assms(7,8) by (simp_all add: columns_fit_def build_index_record_def param_expr_def)
  from named_idx_map [OF b(1,2,4) u(2,1) w] obtain d' where
    d': "named_idx ?d idx (param_expr col) = Some (d', None)" "dir_ok d'" "separate d'"
      "index_map d' = (index_map ?d)(idx \<mapsto> columns ?d (length (indexes d)) @ [col])"
      "frame d' = frame ?d" "pathinfo_columns d' = pathinfo_columns ?d"
      "map idx_name (indexes d') = map idx_name (indexes ?d)"
    by (auto simp: param_expr_def)
  have "length (indexes d) < length (indexes ?d)" by (simp add: build_index_record_def)
  from index_map_Some [OF b(1,4) this] b(3) have "columns ?d (length (indexes d)) = []" by simp
  then have "index_map d' = (index_map d)(idx \<mapsto> index_cols d idx @ [col])" using d'(4) b(3)
      index_map_None [OF negative] by (simp add: index_cols_def)
  moreover have "frame ?d = frame d" by (simp add: build_index_record_def frame_def)
  moreover have "names_once d'"
  proof -
    have "Some idx \<notin> set (map idx_name (indexes d))" "length (indexes d) < 32768"
      using index_search_range [of 0 idx "indexes d"] 1 by (auto simp: get_index_by_name_def)
    with assms(9) show ?thesis unfolding names_once_def d'(7) by (simp add: build_index_record_def)
  qed
  ultimately show ?thesis using d' 1 assms(5,6) b(5) by (auto simp: named_index_def)
next
  case (2 n)
  have "unused (expr_value (param_expr col)) d" "take 1 (expr_value (param_expr col)) \<noteq> ''[''"
    using assms(3,4) by (simp_all add: param_expr_def)
  from named_idx_map [OF assms(1,2) 2(1) this(2,1) assms(7)] assms(8) obtain d' where
    d': "named_idx d idx (param_expr col) = Some (d', None)" "dir_ok d'" "separate d'"
      "index_map d' = (index_map d)(idx \<mapsto> columns d n @ [col])"
      "frame d' = frame d" "pathinfo_columns d' = pathinfo_columns d"
      "map idx_name (indexes d') = map idx_name (indexes d)"
    by (auto simp: param_expr_def)
  have "named_index t d idx col = Some (d', None)"
    using d'(1) 2(1) assms(5,6) by (simp add: named_index_def)
  with d' index_map_Some [OF assms(1) 2(1,2)] names_once_cong [OF d'(7)] assms(9) show ?thesis
    by (simp add: index_cols_def)
qed


text \<open>A configuration file: index directives one after the other.\<close>

fun index_directives :: "(char \<times> string \<times> string) list \<Rightarrow> dir \<Rightarrow> dir option" where
  "index_directives [] d = Some d"
| "index_directives ((t, idx, col) # ds) d =
     (case named_index t d idx col of Some (d', None) \<Rightarrow> index_directives ds d' | _ \<Rightarrow> None)"

definition append_col :: "string \<Rightarrow> string \<Rightarrow> (string \<rightharpoonup> string list) \<Rightarrow> (string \<rightharpoonup> string list)" where
  "append_col idx col m = m(idx \<mapsto> (case m idx of None \<Rightarrow> [] | Some cs \<Rightarrow> cs) @ [col])"

lemma unused_iff:
  assumes "dir_ok d" and "\<And>m. m < length (indexes d) \<Longrightarrow> get_index_by_name d (the (idx_name (indexes d ! m))) = int m"
  shows "unused col d \<longleftrightarrow> (\<forall>i cs. index_map d i = Some cs \<longrightarrow> col \<notin> set cs)"
proof
  assume "unused col d"
  then show "\<forall>i cs. index_map d i = Some cs \<longrightarrow> col \<notin> set cs" using unused_index_map [OF assms(1)] by blast
next
  assume "\<forall>i cs. index_map d i = Some cs \<longrightarrow> col \<notin> set cs"
  then show "unused col d" using index_map_Some [OF assms(1) assms(2)] unfolding unused_def by blast
qed

text \<open>Directives that only change flags of a column leave every link in place.\<close>

lemma update_flags:
  assumes "dir_ok_upto p d" and "c < length (key_columns d)"
    and "view (f (key_columns d ! c)) = view (key_columns d ! c)"
    and "next_in_key (f (key_columns d ! c)) = next_in_key (key_columns d ! c)"
  shows "dir_ok_upto p (d\<lparr>key_columns := (key_columns d)[c := f (key_columns d ! c)]\<rparr>)"
    "extends d (d\<lparr>key_columns := (key_columns d)[c := f (key_columns d ! c)]\<rparr>)"
proof -
  let ?K = "key_columns d"
  let ?d = "d\<lparr>key_columns := ?K[c := f (?K ! c)]\<rparr>"
  have f: "serial_no (f (?K ! c)) = serial_no (?K ! c)" "col_name (f (?K ! c)) = col_name (?K ! c)"
    "next_in_key_serial (f (?K ! c)) = next_in_key_serial (?K ! c)" using assms(3) by (simp_all add: view_def)
  have ser: "serials_ok ?K" and srt: "sorted_names ?K" and tails: "tails_ok ?K" and pi: "pathinfo_ok_upto p d"
    using assms(1) by (auto simp: dir_ok_upto_def cols_ok_def)
  note u = update_col [where f = f, OF ser srt assms(2) f(1,2)]
  have "next_map ?K (serial_no (?K ! c)) = Some (next_in_key_serial (?K ! c))"
    using next_map_col [OF ser] assms(2) by simp
  then have nx: "next_map (?K[c := f (?K ! c)]) = next_map ?K" using u(5) f(3) by (auto simp: fun_eq_iff)
  obtain S where S: "chains d S" using chains_exist [OF assms(1)] .
  have "chain_linked (?K[c := f (?K ! c)]) ss" if "chain_linked ?K ss" for ss
  proof (rule update_col_linked [OF that u(4) refl])
    show "serial_no (f (?K ! c)) \<notin> set ss \<or> link_ok ?K (f (?K ! c))"
      using that assms(2,4) f by (auto simp: chain_linked_def link_ok_def)
  qed
  then have ch: "chains ?d S" using S head_ok_cong [OF u(4)] by (simp add: chains_def nx)
  have "tails_ok (?K[c := f (?K ! c)])"
    using tails assms(2,4) f set_update_subset_insert [of ?K c "f (?K ! c)"] nth_mem [OF assms(2)]
    by (fastforce simp: tails_ok_def)
  with u have "cols_ok (key_columns ?d)" by (simp add: cols_ok_def)
  moreover have "pathinfo_ok_upto p ?d" using u(4) by (intro pathinfo_ok_cong [OF pi]) simp_all
  ultimately show "dir_ok_upto p ?d" using chains_dir_ok [OF ch] by simp
  show "extends d ?d"
    by (simp add: extends_def frame_def nx u(3) list_all2_same same_index_def)
qed


definition config_ok :: "dir \<Rightarrow> bool" where
  "config_ok d \<longleftrightarrow> dir_ok d \<and> separate d \<and> names_once d \<and> dir_magic_number d = dir_magic"

definition fresh_column :: "dir \<Rightarrow> string \<Rightarrow> bool" where
  "fresh_column d col \<longleftrightarrow> take 1 col \<noteq> ''['' \<and> (\<forall>cs\<in>ran (index_map d). col \<notin> set cs)"

lemma frame_magic: "frame d' = frame d \<Longrightarrow> dir_magic_number d' = dir_magic_number d \<and> index_scan d' = index_scan d"
  unfolding frame_def by (frule arg_cong [where f = dir_magic_number], drule arg_cong [where f = index_scan]) simp

text \<open>An index directive adds at most the one column and the one index.\<close>

lemma named_idx_names:
  assumes "named_idx d idx e = Some (d', err)"
  shows "set (names (key_columns d')) \<subseteq> insert (expr_value e) (set (names (key_columns d)))"
    "map idx_name (indexes d') = map idx_name (indexes d)"
proof -
  have sorted: "key_columns d1 = key_columns d" "map idx_name (indexes d1) = map idx_name (indexes d)"
    if "sort_scan d True idx ord = Some d1" for ord d1
    using that by (auto simp: sort_scan_def arr_upd_Some Let_def map_update_same set_sorted_def split: if_splits Option.bind_splits)
  have col: "set (names (key_columns d1)) \<subseteq> insert (expr_value e) (set (names (key_columns d)))" "map idx_name (indexes d1) = map idx_name (indexes d)"
    if add: "add_column_to_index d n e = Some (d1, c, ex)" for n d1 c ex
  proof -
    from add obtain d0 ix keys where a: "add_key_column d (expr_value e) = Some (d0, c, ex)"
      "arr_upd (key_columns d0) c (col_assoc n ix e) = Some keys" "d1 = d0\<lparr>key_columns := keys\<rparr>"
      by (auto simp: add_column_to_index_def split: Option.bind_splits)
    have "names keys = names (key_columns d0)" using a(2) by (auto simp: arr_upd_Some map_update_same)
    then show "set (names (key_columns d1)) \<subseteq> insert (expr_value e) (set (names (key_columns d)))"
      "map idx_name (indexes d1) = map idx_name (indexes d)"
      using add_key_column_names [OF a(1)] a(3) by (simp_all del: set_map)
  qed
  have link: "names (key_columns d2) = names (key_columns d1)" "map idx_name (indexes d2) = map idx_name (indexes d1)"
    if "link_column d1 n c = Some d2" for d1 d2 n c
    using that by (auto simp: link_column_def arr_upd_Some map_update_same split: if_splits Option.bind_splits)
  from assms consider "key_columns d' = key_columns d" "map idx_name (indexes d') = map idx_name (indexes d)"
    | n d1 c ex where "add_column_to_index d n e = Some (d1, c, ex)" "names (key_columns d') = names (key_columns d1)"
        "map idx_name (indexes d') = map idx_name (indexes d1)"
    by (fastforce simp: named_idx_def Let_def sorted arr_upd_Some map_update_same dest: link split: if_splits Option.bind_splits)
  note cs = this
  from cs show "set (names (key_columns d')) \<subseteq> insert (expr_value e) (set (names (key_columns d)))"
    using col(1) by cases auto
  from cs show "map idx_name (indexes d') = map idx_name (indexes d)"
    using col(2) by cases simp_all
qed

lemma named_index_names:
  assumes "named_index t d idx col = Some (d', err)"
  shows "set (names (key_columns d')) \<subseteq> insert col (set (names (key_columns d)))"
    "set (map idx_name (indexes d')) \<subseteq> insert (Some idx) (set (map idx_name (indexes d)))"
proof -
  let ?b = "fst (build_index_record d t idx)"
  have b: "key_columns ?b = key_columns d" "set (map idx_name (indexes ?b)) = insert (Some idx) (set (map idx_name (indexes d)))"
    by (simp_all add: build_index_record_def)
  from assms consider "d' = d" | "named_idx ?b idx (param_expr col) = Some (d', err)" | "named_idx d idx (param_expr col) = Some (d', err)"
    by (auto simp: named_index_def Let_def split: if_splits)
  then have "set (names (key_columns d')) \<subseteq> insert col (set (names (key_columns d))) \<and>
    set (map idx_name (indexes d')) \<subseteq> insert (Some idx) (set (map idx_name (indexes d)))"
  proof cases
    case 2
    from named_idx_names [OF 2] b show ?thesis by (simp add: param_expr_def del: set_map)
  next
    case 3
    from named_idx_names [OF 3] show ?thesis by (auto simp: param_expr_def simp del: set_map)
  qed (auto simp del: set_map)
  then show "set (names (key_columns d')) \<subseteq> insert col (set (names (key_columns d)))"
    "set (map idx_name (indexes d')) \<subseteq> insert (Some idx) (set (map idx_name (indexes d)))" by (rule conjunct1 conjunct2)+
qed

lemma named_index_config_ok:
  assumes "config_ok d" and "fresh_column d col" and "idx_name (index_scan d) \<noteq> Some idx"
    and "columns_fit d ws" and "col \<in> set ws" and "indexes_fit d nms" and "idx \<in> set nms"
  shows "\<exists>d'. named_index t d idx col = Some (d', None) \<and> config_ok d' \<and>
     index_map d' = append_col idx col (index_map d) \<and> pathinfo_columns d' = pathinfo_columns d \<and>
     index_scan d' = index_scan d"
proof -
  have u: "unused col d" "take 1 col \<noteq> ''[''"
    using assms(1,2) unused_iff [of d col] names_once_get [of d]
    by (auto simp: config_ok_def fresh_column_def ran_def)
  from named_index_ok [OF _ _ u _ assms(3-5) _ assms(6,7), of t] assms(1) obtain d' where
    "named_index t d idx col = Some (d', None)" "dir_ok d'" "separate d'" "names_once d'"
    "index_map d' = (index_map d)(idx \<mapsto> index_cols d idx @ [col])"
    "frame d' = frame d" "pathinfo_columns d' = pathinfo_columns d"
    by (auto simp: config_ok_def)
  with assms(1) show ?thesis
    using frame_magic [of d' d] by (auto simp: config_ok_def append_col_def index_cols_def)
qed

lemma append_col_ran:
  "cs \<in> ran (append_col idx col m) \<Longrightarrow> x \<in> set cs \<Longrightarrow> x = col \<or> (\<exists>cs'\<in>ran m. x \<in> set cs')"
  by (auto simp: append_col_def ran_def split: if_splits option.splits)

lemma index_directives_fold:
  assumes "config_ok d" and "distinct (map (snd \<circ> snd) ds)"
    and "\<forall>(t, idx, col)\<in>set ds. fresh_column d col \<and> idx_name (index_scan d) \<noteq> Some idx"
    and "columns_fit d (map (snd \<circ> snd) ds)" and "indexes_fit d (map (fst \<circ> snd) ds)"
  shows "\<exists>d'. index_directives ds d = Some d' \<and> config_ok d' \<and>
     index_map d' = fold (\<lambda>(t, idx, col). append_col idx col) ds (index_map d) \<and>
     pathinfo_columns d' = pathinfo_columns d"
  using assms
proof (induction ds arbitrary: d)
  case (Cons x ds)
  obtain t idx col where x: "x = (t, idx, col)" by (cases x)
  from Cons.prems(3) x have "fresh_column d col" "idx_name (index_scan d) \<noteq> Some idx" by auto
  from named_index_config_ok [OF Cons.prems(1) this Cons.prems(4) _ Cons.prems(5)] x obtain d1 where
    d1: "named_index t d idx col = Some (d1, None)" "config_ok d1" "index_map d1 = append_col idx col (index_map d)"
      "pathinfo_columns d1 = pathinfo_columns d" "index_scan d1 = index_scan d" by fastforce
  have fit: "columns_fit d1 (map (snd \<circ> snd) ds)" "indexes_fit d1 (map (fst \<circ> snd) ds)"
    using columns_fit_step [of d "[col]" "map (snd \<circ> snd) ds" d1] indexes_fit_step [of d "[idx]" "map (fst \<circ> snd) ds" d1]
      Cons.prems(4,5) named_index_names [OF d1(1)] by (simp_all add: x comp_def del: set_map)
  have "\<forall>(t, i, c)\<in>set ds. fresh_column d1 c \<and> idx_name (index_scan d1) \<noteq> Some i"
  proof (clarify)
    fix t' i c assume m: "(t', i, c) \<in> set ds"
    then have "c \<in> (snd \<circ> snd) ` set ds" by force
    then have "c \<noteq> col" using Cons.prems(2) x by auto
    with m Cons.prems(3) d1(3,5) show "fresh_column d1 c \<and> idx_name (index_scan d1) \<noteq> Some i"
      by (auto simp: fresh_column_def dest!: append_col_ran)
  qed
  from Cons.IH [OF d1(2) _ this fit] Cons.prems(2) x d1 show ?case by (auto simp: comp_def)
qed simp

subsection \<open>Filters and sort flags\<close>

lemma filter_directive_new:
  assumes "dir_ok d" and "alias \<notin> set (names (key_columns d))"
    and "find_filter_op op filter_ops 0 None = Some r" and "columns_fit d [alias]"
  shows "\<exists>d' c. filter_directive d base op alias = Some (d', None) \<and> dir_ok d' \<and>
     index_map d' = index_map d \<and> pathinfo_columns d' = pathinfo_columns d \<and> has_filters d' \<and>
     in_range c (key_columns d') \<and> col_name (key_columns d' ! nat c) = alias \<and>
     is_filter (key_columns d' ! nat c) \<and> rel_op (key_columns d' ! nat c) = r \<and>
     base_col_name (key_columns d' ! nat c) = Some base \<and>
     set (names (key_columns d')) = insert alias (set (names (key_columns d)))"
proof -
  let ?p = "nat (pathinfo_size d)"
  have okd: "dir_ok_upto ?p d" using assms(1) by (simp add: dir_ok_def)
  from add_key_column_ok [OF okd assms(4), of "alias"] obtain d1 c ex where
    a: "add_key_column d alias = Some (d1, c, ex)" "dir_ok_upto ?p d1" "extends d d1"
       "in_range c (key_columns d1)" "col_name (key_columns d1 ! nat c) = alias"
       "set (names (key_columns d1)) = insert alias (set (names (key_columns d)))"
       "ex \<longleftrightarrow> alias \<in> set (names (key_columns d))" by auto
  have ex: "\<not> ex" using a(7) assms(2) by (rule ssubst)
  define f where "f = (\<lambda>k::key_col. k\<lparr>is_filter := True, base_col_name := Some base, rel_op := r\<rparr>)"
  let ?K = "(key_columns d1)[nat c := f (key_columns d1 ! nat c)]"
  have lt: "nat c < length (key_columns d1)" by (rule in_range_nat_lt [OF a(4)])
  have fv: "view (f (key_columns d1 ! nat c)) = view (key_columns d1 ! nat c)"
    "next_in_key (f (key_columns d1 ! nat c)) = next_in_key (key_columns d1 ! nat c)" by (simp_all add: f_def view_def)
  note u = update_flags [where f = f, OF a(2) lt fv]
  let ?d = "d1\<lparr>key_columns := ?K\<rparr>"
  let ?d' = "d1\<lparr>key_columns := ?K, has_filters := True\<rparr>"
  have run: "filter_directive d base op alias = Some (?d', None)"
    using a(1,4) lt assms(3) ex by (simp add: filter_directive_def arr_simps in_range_def f_def)
  have sz: "pathinfo_size d1 = pathinfo_size d" using a(3) unfolding extends_def by (blast dest: frame_pathinfo_size)
  then have ok: "dir_ok d1" "dir_ok ?d" using a(2) u(1) by (simp_all add: dir_ok_def)
  have "index_map ?d' = index_map ?d" by (rule same_columns_cong(1)) simp_all
  then have im: "index_map ?d' = index_map d"
    using extends_index_map [OF a(2) u(1) u(2)] extends_index_map [OF okd a(2,3)] by simp
  have "pathinfo_columns ?d' = pathinfo_columns ?d" by (simp add: pathinfo_columns_def)
  then have pc: "pathinfo_columns ?d' = pathinfo_columns d"
    using extends_pathinfo_columns [OF ok u(2)] extends_pathinfo_columns [OF assms(1) ok(1) a(3)] by simp
  have ok': "dir_ok ?d'" using ok(2) by (simp add: dir_ok_def dir_ok_upto_def pathinfo_ok_upto_def)
  have "names ?K = names (key_columns d1)" by (rule map_update_same) (simp add: f_def)
  then have nm: "set (names ?K) = insert alias (set (names (key_columns d)))" using a(6) by (rule ssubst)
  have kd: "key_columns ?d' = ?K" by simp
  show ?thesis
  proof (intro exI conjI)
    show "filter_directive d base op alias = Some (?d', None)" by (rule run)
    show "dir_ok ?d'" "index_map ?d' = index_map d" "pathinfo_columns ?d' = pathinfo_columns d" by (rule ok' im pc)+
    show "in_range c (key_columns ?d')" using a(4) by (simp add: in_range_def)
    show "set (names (key_columns ?d')) = insert alias (set (names (key_columns d)))"
      unfolding kd by (rule nm)
  qed (use lt a(5) in \<open>simp_all add: f_def\<close>)
qed

lemma filter_directive_again:
  assumes "dir_ok d" and "alias \<in> set (names (key_columns d))"
  shows "filter_directive d base op alias = Some (d, Some (''Filter parameter '' @ alias @ '' already defined.''))"
proof -
  from assms(1) have ok: "dir_ok_upto (nat (pathinfo_size d)) d" by (simp add: dir_ok_def)
  have "set (names (key_columns d)) \<union> set [alias] = set (names (key_columns d))" using assms(2) by auto
  then have "columns_fit d [alias]"
    using assms(1) card_length [of "names (key_columns d)"] unfolding columns_fit_def
    by (auto simp: dir_ok_def dir_ok_upto_def cols_ok_def serials_ok_def simp del: set_map)
  from add_key_column_ok [OF ok this, of "alias"] obtain d1 c ex where
    a: "add_key_column d alias = Some (d1, c, ex)" "ex \<longleftrightarrow> alias \<in> set (names (key_columns d))" "ex \<longrightarrow> d1 = d"
    by auto
  from a(2) assms(2) have ex by (rule ssubst)
  with a have "add_key_column d alias = Some (d, c, True)" by simp
  then show ?thesis by (simp add: filter_directive_def)
qed

subsection \<open>A sample configuration\<close>

text \<open>
  Two indexes, one of two columns whose order is not the alphabetical one; used to show that
  the hypotheses of the properties can hold.
\<close>

definition getword_fn :: "string \<Rightarrow> char \<Rightarrow> string \<times> string" where
  "getword_fn line stop =
     (takeWhile (\<lambda>c. c \<noteq> stop) line, dropWhile (\<lambda>c. c = stop) (dropWhile (\<lambda>c. c \<noteq> stop) line))"

lemma getword_fn_law: "getword_law getword_fn"
  by (simp add: getword_law_def getword_fn_def)

definition blank_dir :: dir where
  "blank_dir = new_dir (\<lambda>_. Some 0) ''/db''"

lemma blank_dir_ok: "config_ok blank_dir" "index_map blank_dir = Map.empty" "pathinfo_columns blank_dir = []"
  "idx_name (index_scan blank_dir) = None"
  using new_dir_ok [of "\<lambda>_. Some 0" "''/db''"]
  by (simp_all add: config_ok_def blank_dir_def names_once_def new_dir_def zero_dir_def zero_index_def)

definition sample_lines :: "(char \<times> string \<times> string) list" where
  "sample_lines = [(CHR ''U'', ''i'', ''b''), (CHR ''U'', ''i'', ''a''), (CHR ''O'', ''j'', ''c'')]"

definition sample_dir :: dir where
  "sample_dir = (case index_directives sample_lines blank_dir of Some d \<Rightarrow> d | None \<Rightarrow> zero_dir)"

lemma sample_lines_fresh:
  "distinct (map (snd \<circ> snd) sample_lines)"
  "\<forall>(t, idx, col)\<in>set sample_lines. fresh_column blank_dir col \<and> idx_name (index_scan blank_dir) \<noteq> Some idx"
  "columns_fit blank_dir (map (snd \<circ> snd) sample_lines)" "indexes_fit blank_dir (map (fst \<circ> snd) sample_lines)"
  by (simp_all add: sample_lines_def fresh_column_def blank_dir_ok)
    (simp_all add: columns_fit_def indexes_fit_def blank_dir_def new_dir_def zero_dir_def)

lemma sample_dir_ok:
  "index_directives sample_lines blank_dir = Some sample_dir" "config_ok sample_dir"
  "index_map sample_dir = [''i'' \<mapsto> [''b'', ''a''], ''j'' \<mapsto> [''c'']]" "pathinfo_columns sample_dir = []"
proof -
  from index_directives_fold [OF blank_dir_ok(1) sample_lines_fresh] obtain d where
    d: "index_directives sample_lines blank_dir = Some d" "config_ok d"
      "index_map d = fold (\<lambda>(t, idx, col). append_col idx col) sample_lines (index_map blank_dir)"
      "pathinfo_columns d = pathinfo_columns blank_dir" by blast
  then have "sample_dir = d" by (simp add: sample_dir_def)
  with d show "index_directives sample_lines blank_dir = Some sample_dir" "config_ok sample_dir"
    "index_map sample_dir = [''i'' \<mapsto> [''b'', ''a''], ''j'' \<mapsto> [''c'']]" "pathinfo_columns sample_dir = []"
    by (auto simp: sample_lines_def blank_dir_ok append_col_def)
qed

lemma sample_dir_parts:
  "names (key_columns sample_dir) = [''a'', ''b'', ''c'']" "get_index_by_name sample_dir ''i'' = 0"
  "map constants (indexes sample_dir) = [[], []]" "idx_name (index_scan sample_dir) = None"
  by code_simp+

lemma sample_dir_fits: "columns_fit sample_dir [''b'', ''x'', ''a'']"
proof -
  have "set (names (key_columns sample_dir)) \<union> set [''b'', ''x'', ''a''] = set [''a'', ''b'', ''c'', ''x'']"
    unfolding sample_dir_parts(1) by auto
  moreover have "card (set [''a'', ''b'', ''c'', ''x'']) \<le> 4" using card_length [of "[''a'', ''b'', ''c'', ''x'']"] by simp
  ultimately show ?thesis unfolding columns_fit_def by (simp only:)
qed

end
