(* ===== verification/Query_Source.thy ===== *)
theory Query_Source
  imports Keyed_Store Config_Directives
begin

text \<open>
  The form data of a request (\<open>query_source.cc\<close>) and the readers that fill it: the body
  reader of \<open>request_body.cc\<close> and the sub-request reader. \<open>ap_getword\<close> and
  \<open>ap_unescape_url\<close> are arguments.
\<close>

subsection \<open>The form table\<close>

record len_string =
  ls_len :: nat
  ls_string :: string

record blob =
  blob_name :: string
  blob_info :: len_string

type_synonym form_table = "blob list list"

definition empty_form :: form_table where
  "empty_form = replicate TABLE_SIZE []"

definition set_item :: "string \<Rightarrow> len_string \<Rightarrow> form_table \<Rightarrow> form_table option" where
  "set_item name info tab = arr_upd tab (int (do_hash name)) (\<lambda>b. \<lparr>blob_name = name, blob_info = info\<rparr> # b)"

text \<open>The overload for a null-terminated string.\<close>

definition c_string :: "string \<Rightarrow> len_string" where
  "c_string val = \<lparr>ls_len = length val, ls_string = val\<rparr>"

fun find_blob :: "string \<Rightarrow> blob list \<Rightarrow> len_string option" where
  "find_blob name [] = None"
| "find_blob name (b # bs) = (if strcmp name (blob_name b) = 0 then Some (blob_info b) else find_blob name bs)"

definition get_item :: "string \<Rightarrow> form_table \<Rightarrow> len_string option option" where
  "get_item name tab = map_option (find_blob name) (arr_get tab (int (do_hash name)))"

definition form_ok :: "form_table \<Rightarrow> bool" where
  "form_ok tab \<longleftrightarrow> length tab = TABLE_SIZE"

lemma form_bucket: "form_ok tab \<Longrightarrow> in_range (int (do_hash name)) tab"
  using do_hash_less by (simp add: form_ok_def in_range_def)

lemma empty_form_ok: "form_ok empty_form" "get_item name empty_form = Some None"
  using do_hash_less [of name] by (simp_all add: form_ok_def empty_form_def get_item_def arr_get_def)

interpretation form: keyed_store "\<lambda>k. k" form_ok set_item get_item
proof
  fix tab :: form_table and name j :: string and v :: len_string and tab' :: form_table
  assume ok: "form_ok tab"
  show "\<exists>t. set_item name v tab = Some t \<and> form_ok t"
    using form_bucket [OF ok, of name] ok by (simp add: set_item_def arr_simps form_ok_def)
  show "\<exists>r. get_item name tab = Some r"
    using form_bucket [OF ok, of name] by (simp add: get_item_def arr_simps)
  assume "set_item name v tab = Some tab'"
  then have t: "tab' = tab[do_hash name := \<lparr>blob_name = name, blob_info = v\<rparr> # tab ! do_hash name]"
    using form_bucket [OF ok, of name] by (simp add: set_item_def arr_simps)
  have "length tab' = length tab" using t by simp
  then show "get_item j tab' = (if j = name then Some (Some v) else get_item j tab)"
    using form_bucket [OF ok, of j] form_bucket [OF ok, of name] do_hash_less [of name] ok t
    by (cases "do_hash j = do_hash name") (auto simp: get_item_def arr_get_def in_range_def strcmp_iffs form_ok_def)
qed

subsection \<open>The readers\<close>

text \<open>
  The loop the readers and the planner share: take a word up to the ampersand, split it at
  the equals sign, decode both parts and pass them on.
\<close>

partial_function (option) each_pair ::
  "(string \<Rightarrow> char \<Rightarrow> string \<times> string) \<Rightarrow> (string \<Rightarrow> string) \<Rightarrow> (string \<Rightarrow> string \<Rightarrow> 's \<Rightarrow> 's option) \<Rightarrow>
   string \<Rightarrow> 's \<Rightarrow> 's option" where
  "each_pair getword unescape_url body data s =
     (if data = [] then Some s
      else let val = fst (getword data (CHR ''&'')); data' = snd (getword data (CHR ''&''));
               key = fst (getword val (CHR ''='')); val' = snd (getword val (CHR ''=''))
           in do { s' \<leftarrow> body (unescape_url key) (unescape_url val') s;
                   each_pair getword unescape_url body data' s' })"

definition read_urlencoded ::
  "(string \<Rightarrow> char \<Rightarrow> string \<times> string) \<Rightarrow> (string \<Rightarrow> string) \<Rightarrow> string \<Rightarrow> form_table \<Rightarrow> form_table option" where
  "read_urlencoded getword unescape_url data tab =
     each_pair getword unescape_url (\<lambda>key val. set_item key (c_string val)) data tab"

text \<open>The pairs of a query string.\<close>

function form_pairs :: "string \<Rightarrow> (string \<times> string) list" where
  "form_pairs data =
     (if data = [] then []
      else let val = takeWhile (\<lambda>c. c \<noteq> CHR ''&'') data;
               rest = dropWhile (\<lambda>c. c = CHR ''&'') (dropWhile (\<lambda>c. c \<noteq> CHR ''&'') data)
           in (takeWhile (\<lambda>c. c \<noteq> CHR ''='') val,
               dropWhile (\<lambda>c. c = CHR ''='') (dropWhile (\<lambda>c. c \<noteq> CHR ''='') val)) # form_pairs rest)"
  by pat_completeness auto

lemma word_rest_shorter: "data \<noteq> [] \<Longrightarrow> length (dropWhile (\<lambda>c. c = z) (dropWhile (\<lambda>c. c \<noteq> z) data)) < length data"
proof (cases data)
  case (Cons c cs)
  show ?thesis
  proof (cases "c = z")
    case True
    with Cons show ?thesis by (simp add: less_Suc_eq_le length_dropWhile_le)
  next
    case False
    have "length (dropWhile (\<lambda>c. c = z) (dropWhile (\<lambda>c. c \<noteq> z) cs)) \<le> length (dropWhile (\<lambda>c. c \<noteq> z) cs)"
      by (rule length_dropWhile_le)
    also have "\<dots> \<le> length cs" by (rule length_dropWhile_le)
    finally show ?thesis using Cons False by simp
  qed
qed simp

termination form_pairs by (relation "measure length") (auto simp: word_rest_shorter)

declare form_pairs.simps [simp del]

fun apply_pairs :: "(string \<Rightarrow> string \<Rightarrow> 's \<Rightarrow> 's option) \<Rightarrow> (string \<Rightarrow> string) \<Rightarrow> (string \<times> string) list \<Rightarrow> 's \<Rightarrow> 's option" where
  "apply_pairs body un [] s = Some s"
| "apply_pairs body un ((k, v) # kvs) s = do { s' \<leftarrow> body (un k) (un v) s; apply_pairs body un kvs s' }"

lemma each_pair_pairs:
  assumes "getword_law gw"
  shows "each_pair gw un body data s = apply_pairs body un (form_pairs data) s"
proof (induction data arbitrary: s rule: form_pairs.induct)
  case (1 data)
  show ?case
  proof (cases "data = []")
    case True
    then show ?thesis by (simp add: each_pair.simps form_pairs.simps)
  next
    case False
    let ?val = "takeWhile (\<lambda>c. c \<noteq> CHR ''&'') data"
      and ?rest = "dropWhile (\<lambda>c. c = CHR ''&'') (dropWhile (\<lambda>c. c \<noteq> CHR ''&'') data)"
    have g: "gw data (CHR ''&'') = (?val, ?rest)"
      "gw ?val (CHR ''='') = (takeWhile (\<lambda>c. c \<noteq> CHR ''='') ?val,
         dropWhile (\<lambda>c. c = CHR ''='') (dropWhile (\<lambda>c. c \<noteq> CHR ''='') ?val))"
      using assms by (simp_all add: getword_law_def)
    have IH: "each_pair gw un body ?rest = apply_pairs body un (form_pairs ?rest)"
      by (rule ext) (rule "1.IH" [OF False refl refl])
    show ?thesis
      by (subst each_pair.simps, subst form_pairs.simps) (simp only: False if_False Let_def g fst_conv snd_conv IH apply_pairs.simps)
  qed
qed

lemma read_pairs: "apply_pairs (\<lambda>key val. set_item key (c_string val)) un kvs tab =
   form.puts (map (\<lambda>(k, v). (un k, c_string (un v))) kvs) tab"
proof (induction kvs arbitrary: tab)
  case (Cons kv kvs)
  show ?case
  proof (cases kv)
    case (Pair k v)
    have "apply_pairs (\<lambda>key val. set_item key (c_string val)) un kvs =
        form.puts (map (\<lambda>(k, v). (un k, c_string (un v))) kvs)" by (rule ext) (rule Cons.IH)
    with Pair show ?thesis by simp
  qed
qed simp

lemma read_urlencoded_look:
  assumes "getword_law gw" and "form_ok tab"
  shows "\<exists>tab'. read_urlencoded gw un data tab = Some tab' \<and> form_ok tab' \<and>
     (\<forall>name. get_item name tab' =
        (case map_of (rev (map (\<lambda>(k, v). (un k, c_string (un v))) (form_pairs data))) name of
           Some info \<Rightarrow> Some (Some info) | None \<Rightarrow> get_item name tab))"
  unfolding read_urlencoded_def each_pair_pairs [OF assms(1)] read_pairs
  using form.puts_look [OF assms(2), of "map (\<lambda>(k, v). (un k, c_string (un v))) (form_pairs data)"] by (simp add: comp_def case_prod_beta)

subsection \<open>Reading the request body\<close>

text \<open>
  \<open>util_read\<close> copies the blocks the server delivers to a buffer of the announced length,
  plus one byte that stays zero. \<open>blocks\<close> is what \<open>ap_get_client_block\<close> returns, up to
  the first that is not positive. A copy past the end of the buffer is \<open>None\<close>.
\<close>

definition copy_block :: "string \<Rightarrow> int \<Rightarrow> string \<Rightarrow> int \<Rightarrow> string option" where
  "copy_block buf rpos block rsize =
     (if 0 \<le> rsize \<and> 0 \<le> rpos \<and> rpos + rsize \<le> int (length buf) \<and> rsize \<le> int (length block)
      then Some (take (nat rpos) buf @ take (nat rsize) block @ drop (nat (rpos + rsize)) buf) else None)"

fun read_blocks :: "string list \<Rightarrow> int \<Rightarrow> string \<Rightarrow> int \<Rightarrow> (string \<times> int) option" where
  "read_blocks [] len buf rpos = Some (buf, rpos)"
| "read_blocks (block # blocks) len buf rpos =
     (if block = [] then Some (buf, rpos)
      else let len_read = int (length block);
               rsize = (if rpos + len_read > len then len - rpos else len_read)
           in do { buf' \<leftarrow> copy_block buf rpos block rsize; read_blocks blocks len buf' (rpos + rsize) })"

definition util_read :: "string list \<Rightarrow> int \<Rightarrow> (string \<times> int) option" where
  "util_read blocks remaining = read_blocks blocks remaining (replicate (nat (remaining + 1)) (CHR 0x00)) 0"

lemma read_blocks_ok:
  assumes "length pre \<le> n" and "[] \<notin> set blocks"
  shows "read_blocks blocks (int n) (pre @ replicate (Suc n - length pre) (CHR 0x00)) (int (length pre)) =
     Some (take n (pre @ concat blocks) @ replicate (Suc n - length (take n (pre @ concat blocks))) (CHR 0x00),
           int (length (take n (pre @ concat blocks))))"
  using assms
proof (induction blocks arbitrary: pre)
  case (Cons b bs)
  let ?r = "min (length b) (n - length pre)"
  have r: "(if int (length pre) + int (length b) > int n then int n - int (length pre) else int (length b)) = int ?r"
    using Cons.prems by auto
  have "drop (length pre + ?r) (pre @ replicate (Suc n - length pre) (CHR 0x00)) =
      replicate (Suc n - (length pre + ?r)) (CHR 0x00)" by simp
  then have c: "copy_block (pre @ replicate (Suc n - length pre) (CHR 0x00)) (int (length pre)) b (int ?r) =
      Some ((pre @ take ?r b) @ replicate (Suc n - length (pre @ take ?r b)) (CHR 0x00))"
    using Cons.prems by (auto simp: copy_block_def nat_add_distrib)
  have l: "length (pre @ take ?r b) \<le> n" "int (length pre) + int ?r = int (length (pre @ take ?r b))" using Cons.prems by auto
  have t: "take n ((pre @ take ?r b) @ concat bs) = take n (pre @ concat (b # bs))"
  proof (cases "length b \<le> n - length pre")
    case False
    then show ?thesis using Cons.prems by simp
  qed simp
  have "b \<noteq> []" "[] \<notin> set bs" using Cons.prems by auto
  then show ?case
    using Cons.IH [OF l(1) \<open>[] \<notin> set bs\<close>] unfolding t by (simp only: read_blocks.simps if_False Let_def r c l(2) Option.bind_lunit if_False)
qed simp

lemma util_read_ok:
  assumes "[] \<notin> set blocks"
  shows "util_read blocks (int n) =
     Some (take n (concat blocks) @ replicate (Suc n - length (take n (concat blocks))) (CHR 0x00),
           int (length (take n (concat blocks))))"
proof -
  have "nat (int n + 1) = Suc n" by simp
  then show ?thesis
    using read_blocks_ok [where pre = "[]" and n = n and blocks = blocks] assms by (simp add: util_read_def)
qed

text \<open>
  \<open>get_form_data\<close> of the two query sources. \<open>None\<close> is a crash: a failed assertion or
  a null pointer. \<open>databuffer\<close> is null until \<open>util_read\<close> has a body to read. The JSON
  parser is an argument: it returns the new table and its error count, or crashes.
\<close>

datatype http_method = M_GET | M_POST | M_DELETE | M_OTHER

datatype body_reader = Urlencoded | Jsonrequest | Multipart

definition HTTP_OK :: int where "HTTP_OK = 0"
definition DECLINED :: int where "DECLINED = -1"

definition choose_reader :: "string option \<Rightarrow> body_reader option" where
  "choose_reader content_type =
     (case content_type of
        None \<Rightarrow> Some Urlencoded
      | Some ct \<Rightarrow>
          if strcmp ct ''application/x-www-form-urlencoded'' = 0 then Some Urlencoded
          else if strcasecmp ct ''application/jsonrequest'' = 0 then Some Jsonrequest
          else if strncmp ct ''multipart/form-data'' 19 = 0 then Some Multipart
          else None)"

record client_body =
  setup_rc :: int
  should_block :: bool
  remaining :: int
  client_blocks :: "string list"

definition read_body :: "client_body \<Rightarrow> (int \<times> string option \<times> int) option" where
  "read_body b =
     (if setup_rc b \<noteq> HTTP_OK then Some (setup_rc b, None, 0)
      else if should_block b
        then map_option (\<lambda>(buf, len). (HTTP_OK, Some buf, len)) (util_read (client_blocks b) (remaining b))
      else Some (HTTP_OK, None, 0))"

definition c_str :: "string \<Rightarrow> string" where
  "c_str buf = takeWhile (\<lambda>c. c \<noteq> CHR 0x00) buf"

definition http_get_form_data ::
  "(string \<Rightarrow> char \<Rightarrow> string \<times> string) \<Rightarrow> (string \<Rightarrow> string) \<Rightarrow>
   (string \<Rightarrow> int \<Rightarrow> form_table \<Rightarrow> (form_table \<times> nat) option) \<Rightarrow>
   http_method \<Rightarrow> string option \<Rightarrow> client_body \<Rightarrow> form_table \<Rightarrow> (int \<times> form_table) option" where
  "http_get_form_data getword unescape_url parse_json m content_type b tab =
     (if m \<noteq> M_POST then Some (HTTP_OK, tab)
      else case choose_reader content_type of
        None \<Rightarrow> Some (DECLINED, tab)
      | Some Multipart \<Rightarrow> None
      | Some rd \<Rightarrow>
          do { (rc, databuffer, buf_size) \<leftarrow> read_body b;
               if rc \<noteq> HTTP_OK then Some (rc, tab)
               else do { buf \<leftarrow> databuffer;
                 (if rd = Urlencoded
                  then map_option (\<lambda>t. (HTTP_OK, t)) (read_urlencoded getword unescape_url (c_str buf) tab)
                  else do { (t, errors) \<leftarrow> parse_json buf buf_size tab;
                            Some (if errors \<noteq> 0 then 400 else HTTP_OK, t) }) } })"

definition subrequest_get_form_data ::
  "(string \<Rightarrow> char \<Rightarrow> string \<times> string) \<Rightarrow> (string \<Rightarrow> string) \<Rightarrow>
   string option \<Rightarrow> form_table \<Rightarrow> (int \<times> form_table) option" where
  "subrequest_get_form_data getword unescape_url subrequest_data tab =
     do { c \<leftarrow> subrequest_data;
          t \<leftarrow> each_pair getword unescape_url (\<lambda>key val. set_item key (c_string val)) c tab;
          Some (HTTP_OK, t) }"

definition subrequest_method :: "string option \<Rightarrow> http_method" where
  "subrequest_method note =
     (case note of
        None \<Rightarrow> M_GET
      | Some m \<Rightarrow> if strcmp m ''POST'' = 0 then M_POST else if strcmp m ''DELETE'' = 0 then M_DELETE else M_GET)"

lemma subrequest_as_body:
  "subrequest_get_form_data gw un (Some data) tab = map_option (\<lambda>t. (HTTP_OK, t)) (read_urlencoded gw un data tab)"
  by (simp add: subrequest_get_form_data_def read_urlencoded_def map_option_case split: Option.bind_split option.split)

lemma c_str_zeros: "c_str (xs @ replicate k (CHR 0x00)) = c_str xs"
  by (induction xs) (cases k; simp add: c_str_def)+

lemma urlencoded_body_read:
  assumes "getword_law gw" and "form_ok tab" and "choose_reader ct = Some Urlencoded"
    and "setup_rc b = HTTP_OK" and "should_block b" and "[] \<notin> set (client_blocks b)" and "remaining b = int n"
  shows "\<exists>tab'. http_get_form_data gw un pj M_POST ct b tab = Some (HTTP_OK, tab') \<and> form_ok tab' \<and>
     (\<forall>name. get_item name tab' =
        (case map_of (rev (map (\<lambda>(k, v). (un k, c_string (un v)))
            (form_pairs (c_str (take n (concat (client_blocks b))))))) name of
           Some info \<Rightarrow> Some (Some info) | None \<Rightarrow> get_item name tab))"
proof -
  let ?d = "take n (concat (client_blocks b))"
  have c: "c_str (?d @ replicate (Suc n - length ?d) (CHR 0x00)) = c_str ?d" by (rule c_str_zeros)
  have "http_get_form_data gw un pj M_POST ct b tab =
      map_option (\<lambda>t. (HTTP_OK, t)) (read_urlencoded gw un (c_str ?d) tab)"
    using assms(3-5) util_read_ok [OF assms(6), of n] assms(7) c
    by (simp add: http_get_form_data_def read_body_def)
  with read_urlencoded_look [OF assms(1,2), of un "c_str ?d"] show ?thesis by auto
qed

lemma empty_body_crashes:
  assumes "choose_reader ct = Some rd" and "setup_rc b = HTTP_OK" and "\<not> should_block b"
  shows "http_get_form_data gw un pj M_POST ct b tab = None"
  using assms by (cases rd) (simp_all add: http_get_form_data_def read_body_def)

declare each_pair.simps [code]

end
