(* ===== verification/Query_Plan.thy ===== *)
theory Query_Plan
  imports Query_Source
begin

text \<open>
  The planner of \<open>Query.cc\<close>: the search for a key column by name, the record of what a
  request supplied, the loops over the query string and the path info, and the choice of the
  access plan. \<open>None\<close> stands for an access outside an array or through a null pointer.
\<close>

subsection \<open>The binary search\<close>

function bin_search :: "string \<Rightarrow> key_col list \<Rightarrow> int \<Rightarrow> int \<Rightarrow> int option" where
  "bin_search name keys low high =
     (if low \<le> high then
        let mid = (low + high) div 2 in
        do { k \<leftarrow> arr_get keys mid;
             (let cmp = strcmp name (col_name k) in
              if cmp < 0 then bin_search name keys low (mid - 1)
              else if cmp > 0 then bin_search name keys (mid + 1) high
              else Some (to_short mid)) }
      else Some (-1))"
  by pat_completeness auto
termination by (relation "measure (\<lambda>(name, keys, low, high). nat (high + 1 - low))") auto

declare bin_search.simps [simp del]

definition key_col_bin_search :: "string \<Rightarrow> dir \<Rightarrow> int option" where
  "key_col_bin_search name d = bin_search name (key_columns d) 0 (int (length (key_columns d)) - 1)"

lemma bin_search_found:
  assumes "sorted_names keys" and "i < length keys" and "0 \<le> low" and "low \<le> int i" and "int i \<le> high"
    and "high < int (length keys)" and "length keys \<le> 32768"
  shows "bin_search (col_name (keys ! i)) keys low high = Some (int i)"
  using assms(3-6)
proof (induction "nat (high + 1 - low)" arbitrary: low high rule: less_induct)
  case less
  let ?mid = "(low + high) div 2"
  have m: "low \<le> ?mid" "?mid \<le> high" using less.prems by auto
  then have r: "in_range ?mid keys" using less.prems by (simp add: in_range_def)
  have mono: "col_name (keys ! a) < col_name (keys ! b)" if "a < b" "b < length keys" for a b
    using assms(1) that by (simp add: sorted_names_def sorted_wrt_iff_nth_less)
  let ?c = "strcmp (col_name (keys ! i)) (col_name (keys ! nat ?mid))"
  consider "nat ?mid < i" | "i < nat ?mid" | "i = nat ?mid" by linarith
  then show ?case
  proof cases
    case 1
    then have "?c > 0" using mono [OF 1 assms(2)] by (simp add: strcmp_iffs)
    moreover have "bin_search (col_name (keys ! i)) keys (?mid + 1) high = Some (int i)"
      by (rule less.hyps) (use 1 m less.prems in auto)
    ultimately show ?thesis using r less.prems by (subst bin_search.simps) (simp add: arr_simps Let_def)
  next
    case 2
    then have "?c < 0" using mono [OF 2] r by (simp add: strcmp_iffs in_range_nat_lt)
    moreover have "bin_search (col_name (keys ! i)) keys low (?mid - 1) = Some (int i)"
      by (rule less.hyps) (use 2 m less.prems in auto)
    ultimately show ?thesis using r less.prems by (subst bin_search.simps) (simp add: arr_simps Let_def)
  next
    case 3
    then have "?c = 0" by (simp add: strcmp_iffs)
    moreover have "to_short ?mid = int i" using 3 m less.prems assms(2,7) by (simp add: to_short_id)
    ultimately show ?thesis using r less.prems 3 by (subst bin_search.simps) (simp add: arr_simps Let_def)
  qed
qed

lemma bin_search_missing:
  assumes "nm \<notin> set (names keys)" and "0 \<le> low" and "high < int (length keys)"
  shows "bin_search nm keys low high = Some (-1)"
  using assms(2,3)
proof (induction "nat (high + 1 - low)" arbitrary: low high rule: less_induct)
  case less
  show ?case
  proof (cases "low \<le> high")
    case False
    then show ?thesis by (simp add: bin_search.simps)
  next
    case True
    let ?mid = "(low + high) div 2"
    have m: "low \<le> ?mid" "?mid \<le> high" using True by auto
    then have r: "in_range ?mid keys" using less.prems by (simp add: in_range_def)
    then have "nm \<noteq> col_name (keys ! nat ?mid)" using assms(1) in_range_nth_mem [OF r] by auto
    then have "strcmp nm (col_name (keys ! nat ?mid)) \<noteq> 0" by (simp add: strcmp_iffs)
    moreover have "bin_search nm keys low (?mid - 1) = Some (-1)" "bin_search nm keys (?mid + 1) high = Some (-1)"
      by (rule less.hyps; use m less.prems in auto)+
    ultimately show ?thesis using r True by (subst bin_search.simps) (simp add: arr_simps Let_def)
  qed
qed

text \<open>What the planner needs of a search by name.\<close>

locale column_search =
  fixes ok :: "dir \<Rightarrow> bool" and find :: "string \<Rightarrow> dir \<Rightarrow> int option"
  assumes found: "ok d \<Longrightarrow> i < length (key_columns d) \<Longrightarrow> find (col_name (key_columns d ! i)) d = Some (int i)"
    and missing: "ok d \<Longrightarrow> nm \<notin> set (names (key_columns d)) \<Longrightarrow> find nm d = Some (-1)"
begin

lemma find_cases:
  assumes "ok d"
  obtains (hit) i where "i < length (key_columns d)" "col_name (key_columns d ! i) = nm" "find nm d = Some (int i)"
  | (miss) "nm \<notin> set (names (key_columns d))" "find nm d = Some (-1)"
proof (cases "nm \<in> set (names (key_columns d))")
  case True
  then obtain i where i: "i < length (key_columns d)" "col_name (key_columns d ! i) = nm" by (auto simp: in_set_conv_nth)
  with found [OF assms i(1)] show thesis by (intro hit) auto
next
  case False
  with missing [OF assms False] show thesis by (intro miss)
qed

lemma find_nonneg: "ok d \<Longrightarrow> find nm d = Some n \<Longrightarrow> 0 \<le> n \<longleftrightarrow> nm \<in> set (names (key_columns d))"
  by (cases rule: find_cases [of d nm]) auto

end

definition searchable :: "dir \<Rightarrow> bool" where
  "searchable d \<longleftrightarrow> sorted_names (key_columns d) \<and> length (key_columns d) \<le> 32768"

interpretation search: column_search searchable key_col_bin_search
proof
  show "key_col_bin_search (col_name (key_columns d ! i)) d = Some (int i)"
    if "searchable d" "i < length (key_columns d)" for d i
    unfolding key_col_bin_search_def using that by (intro bin_search_found) (auto simp: searchable_def)
  show "key_col_bin_search nm d = Some (-1)" if "searchable d" "nm \<notin> set (names (key_columns d))" for d nm
    unfolding key_col_bin_search_def using that by (intro bin_search_missing) auto
qed

subsection \<open>The keys of a request\<close>

record query_items =
  q_keys :: "string option list"
  active_index :: int
  key_columns_used :: int
  n_filters :: int
  filter_list :: "int list option"
  q_plan :: access_plan

definition new_query :: "dir \<Rightarrow> query_items" where
  "new_query d =
     \<lparr>q_keys = replicate (length (key_columns d)) None, active_index = -1, key_columns_used = 0,
      n_filters = 0, filter_list = None, q_plan = NoPlan\<rparr>"

definition push_filter :: "dir \<Rightarrow> int \<Rightarrow> query_items \<Rightarrow> query_items option" where
  "push_filter d n q =
     (let fl = (case filter_list q of None \<Rightarrow> replicate (length (key_columns d)) 0 | Some l \<Rightarrow> l)
      in do { fl' \<leftarrow> arr_upd fl (n_filters q) (\<lambda>_. n);
              Some (q\<lparr>filter_list := Some fl', n_filters := n_filters q + 1\<rparr>) })"

definition set_key :: "dir \<Rightarrow> int \<Rightarrow> string \<Rightarrow> query_items \<Rightarrow> query_items option" where
  "set_key d n val q =
     do { keycol \<leftarrow> arr_get (key_columns d) n;
          q1 \<leftarrow> (if is_filter keycol then push_filter d n q else Some q);
          ks \<leftarrow> arr_upd (q_keys q1) n (\<lambda>_. Some val);
          let q2 = q1\<lparr>q_keys := ks, key_columns_used := to_short (key_columns_used q1 + 1)\<rparr>;
          Some (if q_plan q2 < implied_plan keycol
                then q2\<lparr>q_plan := implied_plan keycol, active_index := index_id keycol\<rparr> else q2) }"

definition arg_step :: "dir \<Rightarrow> string \<Rightarrow> string \<Rightarrow> query_items \<Rightarrow> query_items option" where
  "arg_step d key val q =
     do { n \<leftarrow> key_col_bin_search key d; if n \<ge> 0 then set_key d n val q else Some q }"

definition process_args ::
  "(string \<Rightarrow> char \<Rightarrow> string \<times> string) \<Rightarrow> (string \<Rightarrow> string) \<Rightarrow> dir \<Rightarrow> string \<Rightarrow> query_items \<Rightarrow> query_items option" where
  "process_args getword unescape_url d args q = each_pair getword unescape_url (arg_step d) args q"

text \<open>
  The path info, from right to left. The position \<open>s\<close> starts on the terminating null
  byte, or two bytes before it when the path ends in a slash; the test for that slash reads
  the byte before the string when the path is empty.
\<close>

definition char_at :: "string \<Rightarrow> int \<Rightarrow> char" where
  "char_at p s = (if s < int (length p) then p ! nat s else CHR 0x00)"

definition path_end :: "string \<Rightarrow> int option" where
  "path_end p =
     do { c \<leftarrow> arr_get p (int (length p) - 1);
          Some (if c = CHR ''/'' then int (length p) - 2 else int (length p)) }"

function walk_path :: "dir \<Rightarrow> string \<Rightarrow> int \<Rightarrow> int \<Rightarrow> nat \<Rightarrow> query_items \<Rightarrow> query_items option" where
  "walk_path d p s element item_len q =
     (if 0 \<le> s \<and> 0 \<le> element then
        if char_at p s = CHR ''/'' then
          do { n \<leftarrow> arr_get (pathinfo d) element;
               q' \<leftarrow> set_key d n (take item_len (drop (nat (s + 1)) p)) q;
               walk_path d p (s - 1) (element - 1) 0 q' }
        else walk_path d p (s - 1) element (Suc item_len) q
      else Some q)"
  by pat_completeness auto
termination by (relation "measure (\<lambda>(d, p, s, element, item_len, q). nat (s + 1))") auto

declare walk_path.simps [simp del]

definition process_pathinfo :: "dir \<Rightarrow> string \<Rightarrow> query_items \<Rightarrow> query_items option" where
  "process_pathinfo d path_info q =
     (if pathinfo_size d \<noteq> 0 \<and> (q_plan q = NoPlan \<or> pathinfo_always d)
      then do { s \<leftarrow> path_end path_info; walk_path d path_info s (to_short (pathinfo_size d - 1)) 0 q }
      else Some q)"

subsection \<open>The plan\<close>

datatype setup_module = SetupRead | SetupWrite | SetupInsert | SetupDelete

record request =
  req_method :: http_method
  method_number :: http_method
  args :: "string option"
  path_info :: string

text \<open>The part that depends on the HTTP method: an HTTP status, or the set-up module and first plan.\<close>

definition choose_setup :: "dir \<Rightarrow> request \<Rightarrow> bool \<Rightarrow> int \<Rightarrow> int + (setup_module \<times> access_plan)" where
  "choose_setup d r read_slot form_rc =
     (case req_method r of
        M_GET \<Rightarrow> if read_slot then Inr (SetupRead, NoPlan) else Inl 500
      | M_POST \<Rightarrow>
          if form_rc \<noteq> HTTP_OK then Inl form_rc
          else if args r = None \<and> pathinfo_size d = 0 then Inr (SetupInsert, PrimaryKey)
          else Inr (SetupWrite, NoPlan)
      | M_DELETE \<Rightarrow> if allow_delete d then Inr (SetupDelete, NoPlan) else Inl 405
      | M_OTHER \<Rightarrow> Inl 405)"

definition default_plan :: "dir \<Rightarrow> query_items \<Rightarrow> query_items option" where
  "default_plan d q =
     (let q1 = (if table_scan d then q\<lparr>q_plan := Scan\<rparr> else q) in
      if default_key d \<ge> 0 then
        do { ix \<leftarrow> arr_get (indexes d) (default_key d);
             let q2 = q1\<lparr>active_index := default_key d\<rparr>;
             Some (case constants ix of [] \<Rightarrow> q2 | e # es \<Rightarrow> q2\<lparr>q_plan := implied_plan e\<rparr>) }
      else Some q1)"

definition plan_keys ::
  "(string \<Rightarrow> char \<Rightarrow> string \<times> string) \<Rightarrow> (string \<Rightarrow> string) \<Rightarrow> dir \<Rightarrow> request \<Rightarrow> access_plan \<Rightarrow> query_items option" where
  "plan_keys getword unescape_url d r pl =
     do { q1 \<leftarrow> default_plan d (new_query d\<lparr>q_plan := pl\<rparr>);
          q2 \<leftarrow> (case args r of None \<Rightarrow> Some q1 | Some a \<Rightarrow> process_args getword unescape_url d a q1);
          process_pathinfo d (path_info r) q2 }"

definition no_plan :: "dir \<Rightarrow> request \<Rightarrow> query_items \<Rightarrow> bool" where
  "no_plan d r q \<longleftrightarrow> method_number r = M_GET \<and> \<not> (table_scan d \<or> active_index q \<ge> 0)"

text \<open>
  The access path. The dictionary gives the kind of an index by name; \<open>Inl\<close> is the HTTP
  status of the abort, where a zero response code becomes 500.
\<close>

datatype ndb_index = Ndb_ordered | Ndb_unique_hash | Ndb_other_index

datatype access_path =
    Table_scan_access | Ordered_access string | Primary_key_access | Unique_access string

definition use_index ::
  "(string \<Rightarrow> ndb_index option) \<Rightarrow> string \<Rightarrow> ndb_index \<Rightarrow> access_path \<Rightarrow> int + access_path" where
  "use_index dict idxname kind a =
     (case dict idxname of None \<Rightarrow> Inl 500 | Some k \<Rightarrow> if k = kind then Inr a else Inl 500)"

definition choose_access ::
  "(string \<Rightarrow> ndb_index option) \<Rightarrow> dir \<Rightarrow> query_items \<Rightarrow> (int + access_path) option" where
  "choose_access dict d q =
     (if q_plan q = Scan then
        Some (case idx_name (index_scan d) of
          None \<Rightarrow> Inr Table_scan_access
        | Some idxname \<Rightarrow> use_index dict idxname Ndb_ordered (Ordered_access idxname))
      else if q_plan q = PrimaryKey then Some (Inr Primary_key_access)
      else if active_index q < 0 then Some (Inl 500)
      else do { ix \<leftarrow> arr_get (indexes d) (active_index q);
                idxname \<leftarrow> idx_name ix;
                (if dict idxname = None then Some (Inl 500)
                 else if q_plan q = UniqueIndexAccess
                   then Some (use_index dict idxname Ndb_unique_hash (Unique_access idxname))
                 else if q_plan q = OrderedIndexScan
                   then Some (use_index dict idxname Ndb_ordered (Ordered_access idxname))
                 else None) })"

end
