(* ===== verification/Query_Plan_Correct.thy ===== *)
theory Query_Plan_Correct
  imports Query_Plan
begin

text \<open>
  What a request supplies and the plan it gets: the key array after the query string holds,
  for every column, the last value given under its name; the plan is the greatest one that
  the columns found imply; the path info assigns its words to the configured columns from the
  right.
\<close>

subsection \<open>Storing one key\<close>

definition items_ok :: "dir \<Rightarrow> query_items \<Rightarrow> bool" where
  "items_ok d q \<longleftrightarrow> length (q_keys q) = length (key_columns d) \<and> 0 \<le> n_filters q \<and>
     (\<forall>fl. filter_list q = Some fl \<longrightarrow> length fl = length (key_columns d))"

definition filter_hits :: "dir \<Rightarrow> string list \<Rightarrow> nat" where
  "filter_hits d ks = length (filter (\<lambda>nm. \<exists>k\<in>set (key_columns d). col_name k = nm \<and> is_filter k) ks)"

lemma new_query_ok: "items_ok d (new_query d)" "items_ok d (new_query d\<lparr>q_plan := p\<rparr>)"
  "n_filters (new_query d) = 0"
  by (simp_all add: items_ok_def new_query_def)

lemma set_key_ok:
  assumes "items_ok d q" and "i < length (key_columns d)"
    and "is_filter (key_columns d ! i) \<Longrightarrow> n_filters q < int (length (key_columns d))"
  shows "\<exists>q'. set_key d (int i) v q = Some q' \<and> items_ok d q' \<and>
     q_keys q' = (q_keys q)[i := Some v] \<and>
     q_plan q' = max (q_plan q) (implied_plan (key_columns d ! i)) \<and>
     active_index q' = (if q_plan q < implied_plan (key_columns d ! i) then index_id (key_columns d ! i)
                        else active_index q) \<and>
     n_filters q' = n_filters q + (if is_filter (key_columns d ! i) then 1 else 0)"
proof (cases "is_filter (key_columns d ! i)")
  case True
  define fl where "fl = (case filter_list q of None \<Rightarrow> replicate (length (key_columns d)) 0 | Some l \<Rightarrow> l)"
  have fl: "length fl = length (key_columns d)" using assms(1) by (auto simp: fl_def items_ok_def split: option.split)
  have r: "in_range (n_filters q) fl" using assms(1) assms(3) [OF True] fl by (simp add: items_ok_def in_range_def)
  have p: "push_filter d (int i) q =
      Some (q\<lparr>filter_list := Some (fl[nat (n_filters q) := int i]), n_filters := n_filters q + 1\<rparr>)"
    using r by (simp add: push_filter_def fl_def [symmetric] arr_simps)
  show ?thesis using assms(1,2) True fl
    by (auto simp: set_key_def p arr_simps items_ok_def Let_def max_def)
next
  case False
  then show ?thesis using assms(1,2) by (auto simp: set_key_def arr_simps items_ok_def Let_def max_def)
qed

lemma set_key_overflow:
  assumes "items_ok d q" and "i < length (key_columns d)" and "is_filter (key_columns d ! i)"
    and "n_filters q \<ge> int (length (key_columns d))"
  shows "set_key d (int i) v q = None"
proof -
  have "push_filter d (int i) q = None"
    using assms by (auto simp: push_filter_def items_ok_def arr_upd_def in_range_def split: option.split)
  with assms(2,3) show ?thesis by (simp add: set_key_def arr_simps)
qed

subsection \<open>The query string\<close>

definition plan_of_arg :: "dir \<Rightarrow> string \<Rightarrow> access_plan" where
  "plan_of_arg d nm = (case find (\<lambda>k. col_name k = nm) (key_columns d) of None \<Rightarrow> NoPlan | Some k \<Rightarrow> implied_plan k)"

lemma find_column:
  assumes "sorted_names keys" and "i < length keys"
  shows "find (\<lambda>k. col_name k = col_name (keys ! i)) keys = Some (keys ! i)"
proof -
  have d: "distinct (names keys)" using assms(1) by (simp add: sorted_names_def strict_sorted_iff)
  have "col_name (keys ! j) \<noteq> col_name (keys ! i)" if "j < i" for j
    using that assms(2) nth_eq_iff_index_eq [OF d, of j i] by simp
  with assms(2) show ?thesis by (auto simp: find_Some_iff intro!: exI [of _ i])
qed

lemma plan_of_arg_miss: "nm \<notin> set (names (key_columns d)) \<Longrightarrow> plan_of_arg d nm = NoPlan"
  by (auto simp: plan_of_arg_def find_Some_iff split: option.split)

lemma max_NoPlan [simp]: "max p NoPlan = p"
  by (simp add: max_absorb1)

lemma distinct_columns:
  assumes "searchable d" and "i < length (key_columns d)" and "k \<in> set (key_columns d)" and "col_name k = col_name (key_columns d ! i)"
  shows "k = key_columns d ! i"
proof -
  obtain j where j: "j < length (key_columns d)" "k = key_columns d ! j" using assms(3) by (auto simp: in_set_conv_nth)
  have "distinct (names (key_columns d))" using assms(1) by (simp add: searchable_def sorted_names_def strict_sorted_iff)
  from nth_eq_iff_index_eq [OF this, of i j] assms(2,4) j show ?thesis by simp
qed

lemma arg_step_ok:
  assumes "searchable d" and "items_ok d q" and "n_filters q + int (filter_hits d [k]) \<le> int (length (key_columns d))"
  shows "\<exists>q'. arg_step d k v q = Some q' \<and> items_ok d q' \<and>
     (\<forall>i<length (key_columns d). q_keys q' ! i = (if col_name (key_columns d ! i) = k then Some v else q_keys q ! i)) \<and>
     q_plan q' = max (q_plan q) (plan_of_arg d k) \<and> n_filters q' = n_filters q + int (filter_hits d [k])"
proof (cases rule: search.find_cases [OF assms(1), of k])
  case (1 i)
  have flt: "filter_hits d [k] = (if is_filter (key_columns d ! i) then 1 else 0)"
    using 1 distinct_columns [OF assms(1) 1(1)] nth_mem [OF 1(1)] by (auto simp: filter_hits_def)
  have "is_filter (key_columns d ! i) \<Longrightarrow> n_filters q < int (length (key_columns d))" using assms(3) flt by simp
  from set_key_ok [OF assms(2) 1(1) this, of v] obtain q' where
    q': "set_key d (int i) v q = Some q'" "items_ok d q'" "q_keys q' = (q_keys q)[i := Some v]"
      "q_plan q' = max (q_plan q) (implied_plan (key_columns d ! i))"
      "n_filters q' = n_filters q + (if is_filter (key_columns d ! i) then 1 else 0)" by blast
  have pl: "plan_of_arg d k = implied_plan (key_columns d ! i)"
    using find_column [of "key_columns d" i] assms(1) 1 by (auto simp: plan_of_arg_def searchable_def)
  have ks: "q_keys q' ! j = (if col_name (key_columns d ! j) = k then Some v else q_keys q ! j)"
    if j: "j < length (key_columns d)" for j
  proof (cases "j = i")
    case True
    with q'(3) 1(2) j assms(2) show ?thesis by (simp add: items_ok_def)
  next
    case False
    have d: "distinct (names (key_columns d))"
      using assms(1) by (simp add: searchable_def sorted_names_def strict_sorted_iff)
    with False j 1(1,2) nth_eq_iff_index_eq [OF d, of i j] have "col_name (key_columns d ! j) \<noteq> k" by auto
    with False q'(3) show ?thesis by simp
  qed
  have "arg_step d k v q = Some q'" using 1(3) q'(1) by (simp add: arg_step_def)
  with q' pl ks flt show ?thesis by auto
next
  case 2
  then have "filter_hits d [k] = 0" by (auto simp: filter_hits_def)
  moreover have "arg_step d k v q = Some q" using 2 by (simp add: arg_step_def)
  ultimately show ?thesis using assms(2) 2(1) plan_of_arg_miss [OF 2(1)] by force
qed

lemma filter_hits_Cons: "filter_hits d (k # ks) = filter_hits d [k] + filter_hits d ks"
  by (simp add: filter_hits_def)

lemma apply_args_ok:
  assumes "searchable d" and "items_ok d q"
    and "n_filters q + int (filter_hits d (map (un \<circ> fst) kvs)) \<le> int (length (key_columns d))"
  shows "\<exists>q'. apply_pairs (arg_step d) un kvs q = Some q' \<and> items_ok d q' \<and>
     (\<forall>i<length (key_columns d). q_keys q' ! i =
        (case map_of (rev (map (\<lambda>(k, v). (un k, un v)) kvs)) (col_name (key_columns d ! i)) of
           Some v \<Rightarrow> Some v | None \<Rightarrow> q_keys q ! i)) \<and>
     q_plan q' = fold (\<lambda>(k, v). max (plan_of_arg d (un k))) kvs (q_plan q)"
  using assms(2,3)
proof (induction kvs arbitrary: q)
  case (Cons kv kvs)
  obtain k v where kv: "kv = (k, v)" by (cases kv)
  have h: "filter_hits d (map (un \<circ> fst) (kv # kvs)) = filter_hits d [un k] + filter_hits d (map (un \<circ> fst) kvs)"
    using filter_hits_Cons [of d "un k" "map (un \<circ> fst) kvs"] kv by (simp only: list.map comp_apply fst_conv)
  have "n_filters q + int (filter_hits d [un k]) \<le> int (length (key_columns d))"
    using Cons.prems(2) unfolding h by simp
  from arg_step_ok [OF assms(1) Cons.prems(1) this, of "un v"] obtain q1 where
    q1: "arg_step d (un k) (un v) q = Some q1" "items_ok d q1"
      "\<forall>i<length (key_columns d). q_keys q1 ! i = (if col_name (key_columns d ! i) = un k then Some (un v) else q_keys q ! i)"
      "q_plan q1 = max (q_plan q) (plan_of_arg d (un k))" "n_filters q1 = n_filters q + int (filter_hits d [un k])" by blast
  have "n_filters q1 + int (filter_hits d (map (un \<circ> fst) kvs)) \<le> int (length (key_columns d))"
    using Cons.prems(2) q1(5) unfolding h by simp
  from Cons.IH [OF q1(2) this] obtain q' where
    q': "apply_pairs (arg_step d) un kvs q1 = Some q'" "items_ok d q'"
      "\<forall>i<length (key_columns d). q_keys q' ! i =
        (case map_of (rev (map (\<lambda>(k, v). (un k, un v)) kvs)) (col_name (key_columns d ! i)) of
           Some v \<Rightarrow> Some v | None \<Rightarrow> q_keys q1 ! i)"
      "q_plan q' = fold (\<lambda>(k, v). max (plan_of_arg d (un k))) kvs (q_plan q1)" by blast
  have ks: "\<forall>i<length (key_columns d). q_keys q' ! i =
      (case map_of (rev (map (\<lambda>(k, v). (un k, un v)) (kv # kvs))) (col_name (key_columns d ! i)) of
         Some v \<Rightarrow> Some v | None \<Rightarrow> q_keys q ! i)"
    using q'(3) q1(3) kv by (auto simp: map_add_def split: option.split)
  have "q_plan q' = fold (\<lambda>(k, v). max (plan_of_arg d (un k))) (kv # kvs) (q_plan q)"
    using q'(4) q1(4) kv by (simp add: max.commute)
  moreover have "apply_pairs (arg_step d) un (kv # kvs) q = Some q'" using q1(1) q'(1) kv by simp
  ultimately show ?case using q'(2) ks by blast
qed simp

lemma arg_step_overflow:
  assumes "searchable d" and "items_ok d q" and "n_filters q = int (length (key_columns d))" and "filter_hits d [k] \<noteq> 0"
  shows "arg_step d k v q = None"
proof (cases rule: search.find_cases [OF assms(1), of k])
  case (1 i)
  have "is_filter (key_columns d ! i)"
    using assms(4) 1 distinct_columns [OF assms(1) 1(1)] by (auto simp: filter_hits_def split: if_splits)
  with set_key_overflow [OF assms(2) 1(1)] assms(3) 1(3) show ?thesis by (simp add: arg_step_def)
next
  case 2
  with assms(4) show ?thesis by (auto simp: filter_hits_def split: if_splits)
qed

lemma filter_hits_one: "filter_hits d [k] \<le> 1"
  by (simp add: filter_hits_def)

lemma apply_args_overflow:
  assumes "searchable d" and "items_ok d q" and "n_filters q \<le> int (length (key_columns d))"
    and "n_filters q + int (filter_hits d (map (un \<circ> fst) kvs)) > int (length (key_columns d))"
  shows "apply_pairs (arg_step d) un kvs q = None"
  using assms(2-)
proof (induction kvs arbitrary: q)
  case Nil
  then show ?case by (simp add: filter_hits_def)
next
  case (Cons kv kvs)
  obtain k v where kv: "kv = (k, v)" by (cases kv)
  have h: "filter_hits d (map (un \<circ> fst) (kv # kvs)) = filter_hits d [un k] + filter_hits d (map (un \<circ> fst) kvs)"
    using filter_hits_Cons [of d "un k" "map (un \<circ> fst) kvs"] kv by (simp only: list.map comp_apply fst_conv)
  show ?case
  proof (cases "n_filters q + int (filter_hits d [un k]) \<le> int (length (key_columns d))")
    case True
    from arg_step_ok [OF assms(1) Cons.prems(1) this, of "un v"] obtain q1 where
      q1: "arg_step d (un k) (un v) q = Some q1" "items_ok d q1"
        "n_filters q1 = n_filters q + int (filter_hits d [un k])" by blast
    have "n_filters q1 \<le> int (length (key_columns d))"
      "n_filters q1 + int (filter_hits d (map (un \<circ> fst) kvs)) > int (length (key_columns d))"
      using Cons.prems(3) q1(3) True unfolding h by linarith+
    from Cons.IH [OF q1(2) this] have "apply_pairs (arg_step d) un kvs q1 = None" .
    with q1(1) kv show ?thesis by simp
  next
    case False
    then have "n_filters q = int (length (key_columns d))" "filter_hits d [un k] \<noteq> 0"
      using Cons.prems(2) filter_hits_one [of d "un k"] by auto
    from arg_step_overflow [OF assms(1) Cons.prems(1) this] kv show ?thesis by simp
  qed
qed

lemma process_args_ok:
  assumes "getword_law gw" and "searchable d" and "items_ok d q"
    and "n_filters q + int (filter_hits d (map (un \<circ> fst) (form_pairs a))) \<le> int (length (key_columns d))"
  shows "\<exists>q'. process_args gw un d a q = Some q' \<and> items_ok d q' \<and>
     (\<forall>i<length (key_columns d). q_keys q' ! i =
        (case map_of (rev (map (\<lambda>(k, v). (un k, un v)) (form_pairs a))) (col_name (key_columns d ! i)) of
           Some v \<Rightarrow> Some v | None \<Rightarrow> q_keys q ! i)) \<and>
     q_plan q' = fold (\<lambda>(k, v). max (plan_of_arg d (un k))) (form_pairs a) (q_plan q)"
  unfolding process_args_def each_pair_pairs [OF assms(1)] by (rule apply_args_ok [OF assms(2-4)])

lemma process_args_runs_iff:
  assumes "getword_law gw" and "searchable d" and "items_ok d q" and "n_filters q = 0"
  shows "process_args gw un d a q \<noteq> None \<longleftrightarrow>
     filter_hits d (map (un \<circ> fst) (form_pairs a)) \<le> length (key_columns d)"
  using process_args_ok [OF assms(1-3), of un a] apply_args_overflow [OF assms(2,3), of un "form_pairs a"] assms(4)
  by (fastforce simp: process_args_def each_pair_pairs [OF assms(1)])

subsection \<open>The path info\<close>

text \<open>
  A path is a list of words without slashes, each after a slash. \<open>path_of ws\<close> prints it; a
  trailing slash may follow. The words go to the configured columns from the right, and words
  or columns that have no partner on the left are left alone.
\<close>

definition path_of :: "string list \<Rightarrow> string" where
  "path_of ws = concat (map ((#) (CHR ''/'')) ws)"

fun assign_right :: "dir \<Rightarrow> (int \<times> string) list \<Rightarrow> query_items \<Rightarrow> query_items option" where
  "assign_right d [] q = Some q"
| "assign_right d ((c, w) # cws) q = do { q' \<leftarrow> set_key d c w q; assign_right d cws q' }"

lemma walk_word:
  assumes "CHR ''/'' \<notin> set w" and "0 \<le> e"
  shows "walk_path d (p @ w @ r) (int (length p + length w) - 1) e n q = walk_path d (p @ w @ r) (int (length p) - 1) e (n + length w) q"
  using assms(1)
proof (induction w arbitrary: r n rule: rev_induct)
  case (snoc c w)
  have s: "0 \<le> int (length p + length (w @ [c])) - 1" and "c \<noteq> CHR ''/''" using snoc.prems by auto
  have ch: "char_at (p @ (w @ [c]) @ r) (int (length p + length (w @ [c])) - 1) = c"
    by (simp add: char_at_def nth_append nat_add_distrib)
  have "walk_path d (p @ (w @ [c]) @ r) (int (length p + length (w @ [c])) - 1) e n q =
      walk_path d (p @ (w @ [c]) @ r) (int (length p + length (w @ [c])) - 1 - 1) e (Suc n) q"
    using s assms(2) ch \<open>c \<noteq> CHR ''/''\<close> by (subst walk_path.simps) auto
  also have "\<dots> = walk_path d (p @ w @ (c # r)) (int (length p + length w) - 1) e (Suc n) q" by simp
  also have "\<dots> = walk_path d (p @ w @ (c # r)) (int (length p) - 1) e (Suc n + length w) q"
    by (rule snoc.IH) (use snoc.prems in simp)
  finally show ?case by simp
qed simp

lemma walk_done: "e < 0 \<Longrightarrow> walk_path d p s e n q = Some q" "s < 0 \<Longrightarrow> walk_path d p s e n q = Some q"
  by (simp_all add: walk_path.simps)

text \<open>
  The walk over a printed path. The first word met may carry an extra count for the
  terminating null byte; the copy stops at the end of the string, so the count does no harm.
\<close>

lemma walk_path_of:
  assumes "\<forall>w\<in>set ws. CHR ''/'' \<notin> set w" and "int e < int (length (pathinfo d))"
    and "n = 0 \<or> ws \<noteq> [] \<and> r = [] "
  shows "walk_path d (path_of ws @ r) (int (length (path_of ws)) - 1) (int e) n q =
     assign_right d (zip (rev (take (Suc e) (pathinfo d))) (rev ws)) q"
  using assms
proof (induction ws arbitrary: e r n q rule: rev_induct)
  case Nil
  then show ?case by (simp add: path_of_def walk_done)
next
  case (snoc w ws)
  let ?p = "path_of ws @ ''/''"
  have p: "path_of (ws @ [w]) @ r = ?p @ w @ r" "length (path_of (ws @ [w])) = length ?p + length w"
    by (simp_all add: path_of_def)
  have w: "CHR ''/'' \<notin> set w" using snoc.prems(1) by simp
  have s: "0 \<le> int (length ?p) - 1" by simp
  have ch: "char_at (?p @ w @ r) (int (length ?p) - 1) = CHR ''/''" by (simp add: char_at_def nth_append)
  have np: "nat (int (length ?p) - 1 + 1) = length ?p" by simp
  have tk: "take (n + length w) (drop (length ?p) (?p @ w @ r)) = w"
    using snoc.prems(3) by auto
  have pe: "arr_get (pathinfo d) (int e) = Some (pathinfo d ! e)" using snoc.prems(2) by (simp add: arr_simps)
  have "walk_path d (path_of (ws @ [w]) @ r) (int (length (path_of (ws @ [w]))) - 1) (int e) n q =
      walk_path d (?p @ w @ r) (int (length ?p) - 1) (int e) (n + length w) q"
    unfolding p by (rule walk_word [OF w]) simp
  also have "\<dots> = do { q' \<leftarrow> set_key d (pathinfo d ! e) w q;
      walk_path d (?p @ w @ r) (int (length ?p) - 1 - 1) (int e - 1) 0 q' }"
    using s ch pe by (subst walk_path.simps) (simp only: tk np simp_thms if_True of_nat_0_le_iff bind.bind_lunit)
  also have "(\<lambda>q'. walk_path d (?p @ w @ r) (int (length ?p) - 1 - 1) (int e - 1) 0 q') =
      assign_right d (zip (rev (take e (pathinfo d))) (rev ws))"
  proof
    fix q'
    show "walk_path d (?p @ w @ r) (int (length ?p) - 1 - 1) (int e - 1) 0 q' =
        assign_right d (zip (rev (take e (pathinfo d))) (rev ws)) q'"
    proof (cases e)
      case 0
      then show ?thesis by (simp add: walk_done)
    next
      case (Suc f)
      have "walk_path d (path_of ws @ (''/'' @ w @ r)) (int (length (path_of ws)) - 1) (int f) 0 q' =
          assign_right d (zip (rev (take (Suc f) (pathinfo d))) (rev ws)) q'"
        by (rule snoc.IH) (use snoc.prems Suc in auto)
      with Suc show ?thesis by simp
    qed
  qed
  finally show ?case using snoc.prems(2) by (simp add: take_Suc_conv_app_nth)
qed

lemma process_pathinfo_words:
  assumes "\<forall>w\<in>set ws. CHR ''/'' \<notin> set w" and "ws \<noteq> []" and "last ws \<noteq> []"
    and "dir_ok d" and "pathinfo_size d = int (Suc e)" and "q_plan q = NoPlan \<or> pathinfo_always d"
    and "trail = [] \<or> trail = ''/''" and "e < 32768"
  shows "process_pathinfo d (path_of ws @ trail) q =
     assign_right d (zip (rev (take (Suc e) (pathinfo d))) (rev ws)) q"
proof -
  have len: "e < length (pathinfo d)"
    using assms(4,5) by (simp add: dir_ok_def dir_ok_upto_def pathinfo_ok_upto_def)
  have el: "to_short (pathinfo_size d - 1) = int e" using assms(5,8) by (simp add: to_short_int)
  obtain vs w where ws: "ws = vs @ [w]" using assms(2) by (metis rev_exhaust)
  have w: "w \<noteq> []" "CHR ''/'' \<notin> set w" using assms(1,3) ws by auto
  have pw: "path_of ws = (path_of vs @ ''/'') @ w" by (simp add: path_of_def ws)
  then have ne: "path_of ws \<noteq> []" by simp
  show ?thesis
  proof (cases "trail = []")
    case True
    have "last (path_of ws) = last w" using pw w(1) by simp
    then have "last (path_of ws) \<noteq> CHR ''/''" using w last_in_set by metis
    moreover have "nat (int (length (path_of ws)) - 1) = length (path_of ws) - 1" by linarith
    ultimately have "path_end (path_of ws) = Some (int (length (path_of ws)))"
      using ne by (simp add: path_end_def arr_get_def in_range_def last_conv_nth nat_diff_distrib)
    moreover have "walk_path d (path_of ws) (int (length (path_of ws))) (int e) 0 q =
        walk_path d (path_of ws) (int (length (path_of ws)) - 1) (int e) 1 q"
      by (subst walk_path.simps) (simp add: char_at_def)
    moreover have "walk_path d (path_of ws @ []) (int (length (path_of ws)) - 1) (int e) 1 q =
        assign_right d (zip (rev (take (Suc e) (pathinfo d))) (rev ws)) q"
      by (rule walk_path_of) (use assms len in auto)
    ultimately show ?thesis using True assms(5,6) el by (simp add: process_pathinfo_def)
  next
    case False
    with assms(7) have t: "trail = ''/''" by simp
    have "path_end (path_of ws @ trail) = Some (int (length (path_of ws)) - 1)"
      using t by (simp add: path_end_def arr_get_def in_range_def nth_append)
    moreover have "walk_path d (path_of ws @ trail) (int (length (path_of ws)) - 1) (int e) 0 q =
        assign_right d (zip (rev (take (Suc e) (pathinfo d))) (rev ws)) q"
      by (rule walk_path_of) (use assms len in auto)
    ultimately show ?thesis using assms(5,6) el by (simp add: process_pathinfo_def)
  qed
qed

end
