(* ===== verification/Index_Object.thy ===== *)
theory Index_Object
  imports Query_Plan_Correct
begin

text \<open>
  The index objects of \<open>index_object.h\<close> and the loop of \<open>Query()\<close> that walks the
  columns of the active index and binds a value to every part of the key. The conversion of
  the value and the call of the NDB API are one argument with a state of its own.
\<close>

subsection \<open>The index object\<close>

record index_object =
  io_access :: access_path
  key_part :: int
  parts_used :: int
  n_parts :: int

definition new_index_object :: "access_path \<Rightarrow> (access_path \<Rightarrow> int) \<Rightarrow> index_object" where
  "new_index_object a parts =
     \<lparr>io_access = a, key_part = 0, parts_used = 0, n_parts = (if a = Table_scan_access then 0 else parts a)\<rparr>"

datatype key_target = Part int | Named string

text \<open>\<open>get_column\<close>: the part, or for an ordered index the base column an N-SQL expression names.\<close>

definition get_column :: "index_object \<Rightarrow> string option \<Rightarrow> key_target option" where
  "get_column obj base_name =
     (case io_access obj of
        Primary_key_access \<Rightarrow> Some (Part (key_part obj))
      | Unique_access _ \<Rightarrow> Some (Part (key_part obj))
      | Ordered_access _ \<Rightarrow>
          (case base_name of None \<Rightarrow> None
           | Some nm \<Rightarrow> Some (if nm \<noteq> [] then Named nm else Part (key_part obj)))
      | Table_scan_access \<Rightarrow> None)"

definition set_key_part :: "index_object \<Rightarrow> index_object" where
  "set_key_part obj =
     (case io_access obj of Ordered_access _ \<Rightarrow> obj\<lparr>parts_used := parts_used obj + 1\<rparr> | _ \<Rightarrow> obj)"

definition next_key_part :: "index_object \<Rightarrow> bool \<times> index_object" where
  "next_key_part obj =
     (let obj' = obj\<lparr>key_part := key_part obj + 1\<rparr> in
      case io_access obj of
        Ordered_access _ \<Rightarrow> (parts_used obj < n_parts obj, obj')
      | _ \<Rightarrow> (key_part obj < n_parts obj, obj'))"

subsection \<open>The walk over the index\<close>

record key_binding =
  kb_target :: key_target
  kb_rel :: int
  kb_value :: "string option"

text \<open>
  \<open>bnd\<close> converts the value and hands it to the NDB API; its state is what the API has been told.
  The result: the bindings made, the object after them, whether all were accepted, the state.
\<close>

type_synonym 's key_call = "key_binding \<Rightarrow> 's \<Rightarrow> (bool \<times> 's) option"

type_synonym 's bound = "key_binding list \<times> index_object \<times> bool \<times> 's"

function bind_columns ::
  "'s key_call \<Rightarrow> dir \<Rightarrow> string option list \<Rightarrow> int \<Rightarrow> int \<Rightarrow> index_object \<Rightarrow> 's \<Rightarrow> 's bound option" where
  "bind_columns bnd d ks col used obj s =
     (if col \<ge> 0 \<and> used > 0 then
        do { keycol \<leftarrow> arr_get (key_columns d) col;
             target \<leftarrow> get_column obj (base_col_name keycol);
             v \<leftarrow> arr_get ks col;
             let b = \<lparr>kb_target = target, kb_rel = rel_op keycol, kb_value = v\<rparr>;
             let obj1 = set_key_part obj;
             (ok, s1) \<leftarrow> bnd b s;
             (if \<not> ok then Some ([b], obj1, False, s1)
              else let (go, obj2) = next_key_part obj1 in
                if go then map_option (\<lambda>(bs, r). (b # bs, r))
                    (bind_columns bnd d ks (next_in_key keycol) (used - 1) obj2 s1)
                else Some ([b], obj2, True, s1)) }
      else Some ([], obj, True, s))"
  by pat_completeness auto
termination by (relation "measure (\<lambda>(bnd, d, ks, col, used, obj, s). nat used)") auto

declare bind_columns.simps [simp del]

fun bind_constants :: "'s key_call \<Rightarrow> nsql_expr list \<Rightarrow> index_object \<Rightarrow> 's \<Rightarrow> 's bound option" where
  "bind_constants bnd [] obj s = Some ([], obj, True, s)"
| "bind_constants bnd (c # cs) obj s =
     do { target \<leftarrow> get_column obj (base_col_name c);
          let b = \<lparr>kb_target = target, kb_rel = rel_op c, kb_value = Some (expr_value c)\<rparr>;
          let obj1 = set_key_part obj;
          (ok, s1) \<leftarrow> bnd b s;
          (if \<not> ok then Some ([b], obj1, False, s1)
           else map_option (\<lambda>(bs, r). (b # bs, r)) (bind_constants bnd cs obj1 s1)) }"

text \<open>Both loops; the second component is the message of the error document when one of them fails.\<close>

definition bind_index ::
  "'s key_call \<Rightarrow> dir \<Rightarrow> query_items \<Rightarrow> index_object \<Rightarrow> 's \<Rightarrow> (key_binding list \<times> string option \<times> 's) option" where
  "bind_index bnd d q obj s =
     (if q_plan q \<noteq> Scan \<and> active_index q \<ge> 0 then
        do { ix \<leftarrow> arr_get (indexes d) (active_index q);
             (bs, obj1, r1, s1) \<leftarrow> bind_columns bnd d (q_keys q) (first_col ix) (key_columns_used q) obj s;
             (if \<not> r1 then Some (bs, Some ''Configuration error'', s1)
              else do { (cs, obj2, r2, s2) \<leftarrow> bind_constants bnd (constants ix) obj1 s1;
                        Some (bs @ cs, (if r2 then None else Some ''Configuration error.''), s2) }) }
      else Some ([], None, s))"

subsection \<open>What is bound\<close>

text \<open>
  How many parts a fresh look at the object allows: the loops of the primary key and of a
  unique index test the part number before it is increased, so they allow one more part than
  the index has.
\<close>

definition parts_left :: "index_object \<Rightarrow> nat" where
  "parts_left obj =
     (case io_access obj of
        Ordered_access _ \<Rightarrow> max 1 (nat (n_parts obj - parts_used obj))
      | _ \<Rightarrow> Suc (nat (n_parts obj - key_part obj)))"

lemma parts_left_pos: "parts_left obj > 0"
  by (auto simp: parts_left_def split: access_path.split)

lemma next_key_part_left:
  assumes "next_key_part (set_key_part obj) = (go, obj')"
  shows "go \<longleftrightarrow> parts_left obj > 1" "go \<Longrightarrow> Suc (parts_left obj') = parts_left obj"
    "io_access obj' = io_access obj" "key_part obj' = key_part obj + 1"
  using assms by (auto simp: next_key_part_def set_key_part_def parts_left_def Let_def split: access_path.splits)

definition key_value :: "dir \<Rightarrow> string option list \<Rightarrow> string \<Rightarrow> string option" where
  "key_value d ks nm =
     (case find (\<lambda>kv. col_name (fst kv) = nm) (zip (key_columns d) ks) of Some kv \<Rightarrow> snd kv | None \<Rightarrow> None)"

lemma key_value_nth:
  assumes "sorted_names (key_columns d)" and "length ks = length (key_columns d)" and "i < length (key_columns d)"
  shows "key_value d ks (col_name (key_columns d ! i)) = ks ! i"
proof -
  have dn: "distinct (names (key_columns d))" using assms(1) by (simp add: sorted_names_def strict_sorted_iff)
  have "col_name (key_columns d ! j) \<noteq> col_name (key_columns d ! i)" if "j < i" for j
    using that assms(3) nth_eq_iff_index_eq [OF dn, of j i] by simp
  with assms(2,3) have "find (\<lambda>kv. col_name (fst kv) = col_name (key_columns d ! i)) (zip (key_columns d) ks) =
      Some (key_columns d ! i, ks ! i)"
    by (auto simp: find_Some_iff intro!: exI [of _ i])
  then show ?thesis by (simp add: key_value_def)
qed

definition accepts_all :: "'s key_call \<Rightarrow> bool" where
  "accepts_all bnd \<longleftrightarrow> (\<forall>b s. \<exists>s'. bnd b s = Some (True, s'))"

lemma bind_columns_chain:
  assumes "sorted_names (key_columns d)" and "length ks = length (key_columns d)"
    and "io_access obj = Primary_key_access \<or> (\<exists>nm. io_access obj = Unique_access nm)"
    and "accepts_all bnd" and "chain_names (key_columns d) col = Some cs" and "col \<ge> -1"
  shows "\<exists>bs obj' s'. bind_columns bnd d ks col used obj s = Some (bs, obj', True, s') \<and>
     map kb_value bs = map (key_value d ks) (take (min (nat used) (parts_left obj)) cs) \<and>
     map kb_target bs = map (\<lambda>i. Part (key_part obj + int i)) [0..<length bs] \<and> io_access obj' = io_access obj"
  using assms(3,5,6)
proof (induction cs arbitrary: col used obj s)
  case Nil
  then have "col = -1" by (subst (asm) chain_names.simps) (auto split: if_splits Option.bind_splits)
  then show ?case by (simp add: bind_columns.simps)
next
  case (Cons c cs)
  show ?case
  proof (cases "used > 0")
    case False
    then show ?thesis by (simp add: bind_columns.simps)
  next
    case True
    from Cons.prems(2) have "col \<noteq> -1" by (auto simp: chain_names.simps)
    with Cons.prems(2) obtain k where k: "arr_get (key_columns d) col = Some k"
      "chain_names (key_columns d) (next_in_key k) = Some cs" "col_name k = c"
      by (subst (asm) chain_names.simps) (auto split: Option.bind_splits)
    have r: "in_range col (key_columns d)" using k(1) by (auto simp: arr_get_def in_range_def split: if_splits)
    then have kk: "k = key_columns d ! nat col" "nat col < length (key_columns d)" "0 \<le> col"
      using k(1) by (auto simp: arr_get_def in_range_def)
    have v: "arr_get ks col = Some (ks ! nat col)" using r assms(2) by (simp add: arr_get_def in_range_def)
    have kv: "ks ! nat col = key_value d ks c" using key_value_nth [OF assms(1,2) kk(2)] kk(1) k(3) by simp
    have t: "get_column obj (base_col_name k) = Some (Part (key_part obj))"
      using Cons.prems(1) by (auto simp: get_column_def)
    let ?b = "\<lparr>kb_target = Part (key_part obj), kb_rel = rel_op k, kb_value = ks ! nat col\<rparr>"
    obtain s1 where s1: "bnd ?b s = Some (True, s1)" using assms(4) unfolding accepts_all_def by blast
    obtain go obj2 where n: "next_key_part (set_key_part obj) = (go, obj2)" by fastforce
    note nl = next_key_part_left [OF n]
    show ?thesis
    proof (cases go)
      case False
      have "bind_columns bnd d ks col used obj s = Some ([?b], obj2, True, s1)"
        using True kk(3) k(1) t v s1 n False by (subst bind_columns.simps) simp
      moreover have "min (nat used) (parts_left obj) = 1" using False nl(1) parts_left_pos [of obj] True by simp
      ultimately show ?thesis using kv nl(3) by simp
    next
      case go: True
      have "next_in_key k \<ge> -1"
      proof (cases cs)
        case Nil
        then show ?thesis using k(2) by (subst (asm) chain_names.simps) (auto split: if_splits Option.bind_splits)
      next
        case (Cons x xs)
        then show ?thesis using k(2)
          by (subst (asm) chain_names.simps) (auto simp: arr_get_def in_range_def split: if_splits Option.bind_splits)
      qed
      moreover have "io_access obj2 = Primary_key_access \<or> (\<exists>nm. io_access obj2 = Unique_access nm)"
        using nl(3) Cons.prems(1) by simp
      ultimately obtain bs obj' s' where i: "bind_columns bnd d ks (next_in_key k) (used - 1) obj2 s1 = Some (bs, obj', True, s')"
        "map kb_value bs = map (key_value d ks) (take (min (nat (used - 1)) (parts_left obj2)) cs)"
        "map kb_target bs = map (\<lambda>i. Part (key_part obj2 + int i)) [0..<length bs]" "io_access obj' = io_access obj2"
        using Cons.IH [of obj2 "next_in_key k" "used - 1" s1] k(2) by blast
      have run: "bind_columns bnd d ks col used obj s = Some (?b # bs, obj', True, s')"
        using True kk(3) k(1) t v s1 n go i(1) by (subst bind_columns.simps) simp
      have m: "min (nat used) (parts_left obj) = Suc (min (nat (used - 1)) (parts_left obj2))"
        using nl(2) [OF go] True by (simp add: min_def) linarith
      have "map kb_target (?b # bs) = map (\<lambda>i. Part (key_part obj + int i)) [0..<length (?b # bs)]"
        using i(3) nl(4) by (simp add: upt_conv_Cons map_Suc_upt [symmetric] del: upt_Suc)
      with run m i(2,4) kv nl(3) show ?thesis by simp
    qed
  qed
qed

lemma bind_index_columns:
  assumes "dir_ok d" and "index_map d idx = Some cs" and "active_index q = get_index_by_name d idx"
    and "length (q_keys q) = length (key_columns d)" and "q_plan q \<noteq> Scan"
    and "constants (indexes d ! nat (active_index q)) = []"
    and "io_access obj = Primary_key_access \<or> (\<exists>nm. io_access obj = Unique_access nm)" and "accepts_all bnd"
  shows "\<exists>bs s'. bind_index bnd d q obj s = Some (bs, None, s') \<and>
     map kb_value bs = map (key_value d (q_keys q)) (take (min (nat (key_columns_used q)) (parts_left obj)) cs) \<and>
     map kb_target bs = map (\<lambda>i. Part (key_part obj + int i)) [0..<length bs]"
proof (cases rule: get_index_by_name_cases [of d idx])
  case 1
  with assms(2) show ?thesis by (simp add: index_map_None)
next
  case (2 n)
  let ?ix = "indexes d ! n"
  have cs: "chain_names (key_columns d) (first_col ?ix) = Some cs"
    using assms(2) 2(1) by (simp add: index_map_def index_columns_def)
  have "index_ok (key_columns d) ?ix" "sorted_names (key_columns d)"
    using assms(1) 2(2) by (auto simp: dir_ok_def dir_ok_upto_def cols_ok_def)
  then have fc: "first_col ?ix \<ge> -1"
    by (auto simp: index_ok_def head_ok_def at_serial_def in_range_def split: if_splits)
  from bind_columns_chain [where used = "key_columns_used q" and bnd = bnd and s = s,
      OF \<open>sorted_names _\<close> assms(4,7) assms(8) cs fc] obtain bs obj' s' where
    b: "bind_columns bnd d (q_keys q) (first_col ?ix) (key_columns_used q) obj s = Some (bs, obj', True, s')"
      "map kb_value bs = map (key_value d (q_keys q)) (take (min (nat (key_columns_used q)) (parts_left obj)) cs)"
      "map kb_target bs = map (\<lambda>i. Part (key_part obj + int i)) [0..<length bs]" by blast
  have "arr_get (indexes d) (active_index q) = Some ?ix" using assms(3) 2 by (simp add: arr_simps)
  with b assms(3,5,6) 2 show ?thesis by (simp add: bind_index_def)
qed

end
