(* ===== verification/Request_Keys.thy ===== *)
theory Request_Keys
  imports Index_Object Config_Directives
begin

text \<open>
  From the request to the keys. The path info: the directive names the columns, the request
  gives the words, and the i-th word of a path as long as the specification becomes the value
  of the i-th column. The query string: the values it gives by name are bound to the parts of
  the active index in the order of the index.
\<close>

subsection \<open>Several keys\<close>

definition assignable :: "dir \<Rightarrow> (int \<times> string) list \<Rightarrow> bool" where
  "assignable d cws \<longleftrightarrow> distinct (map fst cws) \<and> (\<forall>(c, w)\<in>set cws. in_range c (key_columns d))"

lemma assign_right_ok:
  assumes "items_ok d q" and "assignable d cws" and "n_filters q + int (length cws) \<le> int (length (key_columns d))"
  shows "\<exists>q'. assign_right d cws q = Some q' \<and> items_ok d q' \<and>
     (\<forall>(c, w)\<in>set cws. q_keys q' ! nat c = Some w) \<and>
     (\<forall>i. int i \<notin> fst ` set cws \<longrightarrow> q_keys q' ! i = q_keys q ! i)"
  using assms
proof (induction cws arbitrary: q)
  case (Cons x cws)
  obtain c w where x: "x = (c, w)" by (cases x)
  have c: "in_range c (key_columns d)" and a: "assignable d cws" and n: "c \<notin> fst ` set cws"
    using Cons.prems(2) x by (auto simp: assignable_def)
  define i where "i = nat c"
  have i: "c = int i" "i < length (key_columns d)" using c by (auto simp: i_def in_range_def)
  have "n_filters q < int (length (key_columns d))" using Cons.prems(3) by simp
  from set_key_ok [OF Cons.prems(1) i(2) this, of w] obtain q1 where
    q1: "set_key d c w q = Some q1" "items_ok d q1" "q_keys q1 = (q_keys q)[i := Some w]"
      "n_filters q1 = n_filters q + (if is_filter (key_columns d ! i) then 1 else 0)" unfolding i(1) by blast
  have "n_filters q1 + int (length cws) \<le> int (length (key_columns d))" using q1(4) Cons.prems(3) by simp
  from Cons.IH [OF q1(2) a this] obtain q2 where
    q2: "assign_right d cws q1 = Some q2" "items_ok d q2" "\<forall>(c, w)\<in>set cws. q_keys q2 ! nat c = Some w"
      "\<forall>i. int i \<notin> fst ` set cws \<longrightarrow> q_keys q2 ! i = q_keys q1 ! i" by blast
  have "i < length (q_keys q)" using Cons.prems(1) i(2) by (simp add: items_ok_def)
  then have "q_keys q2 ! i = Some w" using q2(4) n i(1) q1(3) by simp
  then show ?case using x q1 q2 i(1) by (auto simp: nth_list_update)
qed simp

lemma assignable_length: "assignable d cws \<Longrightarrow> length cws \<le> length (key_columns d)"
proof -
  assume a: "assignable d cws"
  have "c \<in> int ` {..<length (key_columns d)}" if "c \<in> set (map fst cws)" for c
    using a that by (intro image_eqI [of _ _ "nat c"]) (fastforce simp: assignable_def in_range_def)+
  then have "set (map fst cws) \<subseteq> int ` {..<length (key_columns d)}" by blast
  then have "card (set (map fst cws)) \<le> card (int ` {..<length (key_columns d)})" by (intro card_mono) simp_all
  also have "\<dots> = length (key_columns d)" by (simp add: card_image)
  finally show ?thesis using a distinct_card [of "map fst cws"] by (simp add: assignable_def)
qed

subsection \<open>The columns of the path info\<close>

lemma pathinfo_column:
  assumes "dir_ok d" and "i < nat (pathinfo_size d)"
  shows "in_range (pathinfo d ! i) (key_columns d)"
    "pathinfo_columns d ! i = Some (col_name (key_columns d ! nat (pathinfo d ! i)))"
proof -
  have p: "pathinfo_ok_upto (nat (pathinfo_size d)) d" using assms(1) by (simp add: dir_ok_def dir_ok_upto_def)
  then have "at_serial (key_columns d) (pathinfo d ! i) (pathinfo d ! (i + nat (pathinfo_size d)))"
    using assms(2) by (simp add: pathinfo_ok_upto_def)
  then show r: "in_range (pathinfo d ! i) (key_columns d)" by (simp add: at_serial_def)
  have "i < length (pathinfo d)" using p assms(2) unfolding pathinfo_ok_upto_def by linarith
  with r assms(2) show "pathinfo_columns d ! i = Some (col_name (key_columns d ! nat (pathinfo d ! i)))"
    by (simp add: pathinfo_columns_def arr_simps)
qed

lemma pathinfo_length:
  assumes "dir_ok d" and "pathinfo_columns d = map Some cs"
  shows "nat (pathinfo_size d) = length cs" "0 \<le> pathinfo_size d" "length cs \<le> length (pathinfo d)"
proof -
  have p: "0 \<le> pathinfo_size d" "int (length (pathinfo d)) = 2 * pathinfo_size d"
    using assms(1) by (simp_all add: dir_ok_def dir_ok_upto_def pathinfo_ok_upto_def)
  moreover have "length (pathinfo_columns d) = length cs" using assms(2) by simp
  ultimately show "nat (pathinfo_size d) = length cs" "0 \<le> pathinfo_size d" "length cs \<le> length (pathinfo d)"
    by (auto simp: pathinfo_columns_def)
qed

lemma key_value_column:
  assumes "dir_ok d" and "items_ok d q" and "in_range c (key_columns d)"
  shows "key_value d (q_keys q) (col_name (key_columns d ! nat c)) = q_keys q ! nat c"
  using assms by (intro key_value_nth) (auto simp: dir_ok_def dir_ok_upto_def cols_ok_def items_ok_def in_range_def)

lemma path_keys:
  assumes "dir_ok d" and "pathinfo_columns d = map Some cs" and "distinct cs"
    and "length ws = length cs" and "\<forall>w\<in>set ws. CHR ''/'' \<notin> set w" and "ws \<noteq> []" and "last ws \<noteq> []"
    and "trail = [] \<or> trail = ''/''"
  shows "\<exists>q. process_pathinfo d (path_of ws @ trail) (new_query d) = Some q \<and> items_ok d q \<and>
     (\<forall>i<length ws. key_value d (q_keys q) (cs ! i) = Some (ws ! i))"
proof -
  let ?pi = "take (length cs) (pathinfo d)" and ?q = "new_query d"
  let ?cws = "zip (rev ?pi) (rev ws)"
  note len = pathinfo_length [OF assms(1,2)]
  obtain e where e: "length cs = Suc e" using assms(4,6) by (cases cs) auto
  have sz: "pathinfo_size d = int (Suc e)" using len(1,2) e by linarith
  have col: "in_range (?pi ! i) (key_columns d)" "cs ! i = col_name (key_columns d ! nat (?pi ! i))" if "i < length cs" for i
    using pathinfo_column [OF assms(1), of i] that len(1) assms(2) by simp_all
  have z: "set ?cws = set (zip ?pi ws)" using len(3) assms(4) by (simp add: zip_rev)
  have "?pi ! i \<noteq> ?pi ! j" if "i < length cs" "j < length cs" "i \<noteq> j" for i j
    using col(2) [OF that(1)] col(2) [OF that(2)] nth_eq_iff_index_eq [OF assms(3) that(1,2)] that(3) by auto
  then have "distinct ?pi" using len(3) by (auto simp: distinct_conv_nth)
  moreover have "map fst ?cws = rev ?pi" using len(3) assms(4) by simp
  moreover have "\<forall>(c, w)\<in>set ?cws. in_range c (key_columns d)" unfolding z
    using col(1) len(3) by (auto simp: set_zip)
  ultimately have a: "assignable d ?cws" by (simp add: assignable_def)
  have "e < length (key_columns d)" using assignable_length [OF a] len(3) assms(4) e by simp
  moreover have "length (key_columns d) \<le> 32768"
    using assms(1) by (simp add: dir_ok_def dir_ok_upto_def cols_ok_def serials_ok_def)
  ultimately have run: "process_pathinfo d (path_of ws @ trail) ?q = assign_right d ?cws ?q"
    using process_pathinfo_words [OF assms(5-7,1) sz _ assms(8)] e by (simp add: new_query_def)
  have n: "n_filters ?q + int (length ?cws) \<le> int (length (key_columns d))"
    using assignable_length [OF a] by (simp add: new_query_ok)
  from assign_right_ok [OF new_query_ok(1) a n] obtain q where
    q: "assign_right d ?cws ?q = Some q" "items_ok d q" "\<forall>(c, w)\<in>set ?cws. q_keys q ! nat c = Some w" by blast
  have "key_value d (q_keys q) (cs ! i) = Some (ws ! i)" if i: "i < length ws" for i
  proof -
    have "(?pi ! i, ws ! i) \<in> set (zip ?pi ws)"
      using i assms(4) len(3) by (simp add: in_set_zip) (intro exI [of _ i]; simp)
    then have "q_keys q ! nat (?pi ! i) = Some (ws ! i)" using q(3) unfolding z by blast
    then show ?thesis using key_value_column [OF assms(1) q(2) col(1)] col(2) i assms(4) by simp
  qed
  then show ?thesis using run q by auto
qed

subsection \<open>From the query string to the index\<close>

lemma chain_names_subset: "chain_names keys c = Some ns \<Longrightarrow> set ns \<subseteq> set (names keys)"
proof (induction rule: chain_names.raw_induct [rotated, consumes 1, case_names step])
  case (step f keys c ns)
  then show ?case by (fastforce split: if_splits Option.bind_splits simp: arr_get_def in_range_def)
qed

lemma request_value:
  assumes "searchable d" and "items_ok d q" and "nm \<in> set (names (key_columns d))"
    and "\<forall>i<length (key_columns d). q_keys q ! i = f (col_name (key_columns d ! i))"
  shows "key_value d (q_keys q) nm = f nm"
proof -
  obtain i where "i < length (key_columns d)" "col_name (key_columns d ! i) = nm"
    using assms(3) by (auto simp: in_set_conv_nth)
  with assms(1,2,4) key_value_nth [of d "q_keys q" i] show ?thesis by (auto simp: searchable_def items_ok_def)
qed

definition pairs_of :: "(string \<Rightarrow> string) \<Rightarrow> string \<Rightarrow> (string \<times> string) list" where
  "pairs_of un a = map (\<lambda>(k, v). (un k, un v)) (form_pairs a)"

lemma query_binds_index:
  assumes "getword_law gw" and "dir_ok d" and "length (key_columns d) \<le> 32768" and "index_map d idx = Some cs"
    and "process_args gw un d a (new_query d) = Some q"
    and "active_index q = get_index_by_name d idx" and "q_plan q \<noteq> Scan"
    and "constants (indexes d ! nat (active_index q)) = []"
    and "io_access obj = Primary_key_access \<or> (\<exists>nm. io_access obj = Unique_access nm)" and "accepts_all bnd"
  shows "\<exists>bs s'. bind_index bnd d q obj s = Some (bs, None, s') \<and>
     map kb_value bs = map (map_of (rev (pairs_of un a))) (take (min (nat (key_columns_used q)) (parts_left obj)) cs) \<and>
     map kb_target bs = map (\<lambda>i. Part (key_part obj + int i)) [0..<length bs]"
proof -
  have s: "searchable d" using assms(2,3) by (simp add: searchable_def dir_ok_def dir_ok_upto_def cols_ok_def)
  have n0: "n_filters (new_query d) = 0" by (rule new_query_ok)
  have "filter_hits d (map (un \<circ> fst) (form_pairs a)) \<le> length (key_columns d)"
    using process_args_runs_iff [OF assms(1) s new_query_ok(1) n0, of un a] assms(5) by simp
  then have "n_filters (new_query d) + int (filter_hits d (map (un \<circ> fst) (form_pairs a))) \<le> int (length (key_columns d))"
    using n0 by simp
  from process_args_ok [OF assms(1) s new_query_ok(1) this] assms(5) have
    q: "items_ok d q" "\<forall>i<length (key_columns d). q_keys q ! i = map_of (rev (pairs_of un a)) (col_name (key_columns d ! i))"
    by (auto simp: pairs_of_def new_query_def split: option.splits)
  have "set cs \<subseteq> set (names (key_columns d))"
    using assms(4) chain_names_subset by (auto simp: index_map_def index_columns_def Let_def split: if_splits)
  then have v: "key_value d (q_keys q) nm = map_of (rev (pairs_of un a)) nm" if "nm \<in> set cs" for nm
    using request_value [OF s q(1) _ q(2)] that by blast
  have "length (q_keys q) = length (key_columns d)" using q(1) by (simp add: items_ok_def)
  from bind_index_columns [where bnd = bnd and s = s, OF assms(2,4,6) this assms(7-10)] obtain bs s' where
    b: "bind_index bnd d q obj s = Some (bs, None, s')"
      "map kb_value bs = map (key_value d (q_keys q)) (take (min (nat (key_columns_used q)) (parts_left obj)) cs)"
      "map kb_target bs = map (\<lambda>i. Part (key_part obj + int i)) [0..<length bs]" by blast
  have "map (key_value d (q_keys q)) (take k cs) = map (map_of (rev (pairs_of un a))) (take k cs)" for k
    using v by (auto dest: in_set_takeD)
  with b show ?thesis by auto
qed

end
