(* ===== verification/Escapes.thy ===== *)
theory Escapes
  imports Result_Buffer
begin

text \<open>
  The escape tables of \<open>output_format.cc\<close> and the routine of \<open>MySQL_result.cc\<close> that
  writes a string through such a table in two passes: the first computes the escaped size and
  makes room for it, the second writes without a test. The lemmas show that the two passes
  agree, so that the second never leaves the block, and that the output is the input with
  every character replaced by its escape. Bytes above 127 are the exception: the first pass
  takes its index from a signed character.
\<close>

subsection \<open>The tables\<close>

type_synonym escape_table = "string option list"

datatype re_esc = no_esc | esc_xml | esc_json | esc_xmljson

definition hex_digit :: "nat \<Rightarrow> char" where
  "hex_digit n = (if n < 10 then char_of (48 + n) else char_of (87 + n))"

text \<open>The format \<open>%04x\<close> of a number below 65536.\<close>

definition fmt_04x :: "nat \<Rightarrow> string" where
  "fmt_04x n = map (\<lambda>k. hex_digit (n div 16 ^ k mod 16)) [3, 2, 1, 0]"

text \<open>Escape sequences are stored with a leading length byte.\<close>

definition control_escape :: "nat \<Rightarrow> string" where
  "control_escape i = CHR 0x06 # CHR 0x5C # CHR ''u'' # fmt_04x i"

definition escape_leaning_toothpicks :: escape_table where
  "escape_leaning_toothpicks =
     (let t0 = replicate 256 None;
          t1 = fold (\<lambda>i t. t[i := Some (control_escape i)]) [0..<32] t0
      in t1[0x5C := Some [CHR 0x02, CHR 0x5C, CHR 0x5C],
            0x22 := Some [CHR 0x02, CHR 0x5C, CHR 0x22],
            0x08 := Some [CHR 0x02, CHR 0x5C, CHR ''b''],
            0x0C := Some [CHR 0x02, CHR 0x5C, CHR ''f''],
            0x0A := Some [CHR 0x02, CHR 0x5C, CHR ''n''],
            0x0D := Some [CHR 0x02, CHR 0x5C, CHR ''r''],
            0x09 := Some [CHR 0x02, CHR 0x5C, CHR ''t'']])"

definition escape_xml_entities :: escape_table where
  "escape_xml_entities =
     (replicate 256 None)[0x3C := Some (CHR 0x04 # ''&lt;''),
            0x3E := Some (CHR 0x04 # ''&gt;''),
            0x26 := Some (CHR 0x05 # ''&amp;''),
            0x22 := Some (CHR 0x06 # ''&quot;'')]"

definition escape_xml_plus_json :: escape_table where
  "escape_xml_plus_json =
     map (\<lambda>i. case escape_xml_entities ! i of Some e \<Rightarrow> Some e | None \<Rightarrow> escape_leaning_toothpicks ! i) [0..<256]"

definition get_escapes :: "re_esc \<Rightarrow> escape_table option" where
  "get_escapes e =
     (case e of
        esc_xml \<Rightarrow> Some escape_xml_entities
      | esc_json \<Rightarrow> Some escape_leaning_toothpicks
      | esc_xmljson \<Rightarrow> Some escape_xml_plus_json
      | no_esc \<Rightarrow> None)"

subsection \<open>The two passes\<close>

fun escaped_size :: "escape_table \<Rightarrow> string \<Rightarrow> int option" where
  "escaped_size escapes [] = Some 0"
| "escaped_size escapes (c # cs) =
     do { esc \<leftarrow> arr_get escapes (schar c);
          n \<leftarrow> (case esc of None \<Rightarrow> Some 1 | Some e \<Rightarrow> map_option schar (arr_get e 0));
          rest \<leftarrow> escaped_size escapes cs;
          Some (n + rest) }"

fun put_escape :: "string \<Rightarrow> nat list \<Rightarrow> result_buffer \<Rightarrow> result_buffer option" where
  "put_escape e [] rb = Some rb"
| "put_escape e (j # js) rb = do { c \<leftarrow> arr_get e (int j); rb' \<leftarrow> putc c rb; put_escape e js rb' }"

fun put_escaped :: "escape_table \<Rightarrow> string \<Rightarrow> result_buffer \<Rightarrow> result_buffer option" where
  "put_escaped escapes [] rb = Some rb"
| "put_escaped escapes (c # cs) rb =
     do { esc \<leftarrow> arr_get escapes (of_char c);
          rb' \<leftarrow> (case esc of
                    None \<Rightarrow> putc c rb
                  | Some e \<Rightarrow> do { n \<leftarrow> arr_get e 0; put_escape e [1..<Suc (nat (schar n))] rb });
          put_escaped escapes cs rb' }"

definition escape_string :: "(int \<Rightarrow> bool) \<Rightarrow> string \<Rightarrow> result_buffer \<Rightarrow> escape_table \<Rightarrow> result_buffer option" where
  "escape_string grant ref rb escapes =
     do { n \<leftarrow> escaped_size escapes ref;
          (rb1, ok) \<leftarrow> prepare grant n rb;
          if ok then put_escaped escapes ref rb1 else Some rb1 }"

subsection \<open>Well-formed tables\<close>

definition seq_ok :: "string \<Rightarrow> bool" where
  "seq_ok e \<longleftrightarrow> e \<noteq> [] \<and> schar (hd e) = int (length (tl e))"

definition table_ok :: "escape_table \<Rightarrow> bool" where
  "table_ok t \<longleftrightarrow> length t = 256 \<and> (\<forall>e. Some e \<in> set t \<longrightarrow> seq_ok e)"

lemma table_ok_empty: "table_ok (replicate 256 None)"
  by (simp add: table_ok_def)

lemma table_ok_update: "table_ok t \<Longrightarrow> seq_ok e \<Longrightarrow> table_ok (t[i := Some e])"
  by (auto simp: table_ok_def dest!: set_update_subset_insert [THEN subsetD])

lemma schar_small [simp]:
  "schar (CHR 0x02) = 2" "schar (CHR 0x04) = 4" "schar (CHR 0x05) = 5" "schar (CHR 0x06) = 6"
  by (simp_all add: schar_def)

lemma table_ok_toothpicks: "table_ok escape_leaning_toothpicks"
proof -
  have "table_ok (fold (\<lambda>i t. t[i := Some (control_escape i)]) is t)" if "table_ok t" for "is" t
    using that
  proof (induction "is" arbitrary: t)
    case (Cons i "is")
    have "seq_ok (control_escape i)" by (simp add: seq_ok_def control_escape_def fmt_04x_def)
    with Cons table_ok_update show ?case by simp
  qed simp
  from this [OF table_ok_empty] show ?thesis
    unfolding escape_leaning_toothpicks_def Let_def by (intro table_ok_update) (simp_all add: seq_ok_def)
qed

lemma table_ok_xml: "table_ok escape_xml_entities"
  unfolding escape_xml_entities_def by (intro table_ok_update table_ok_empty) (simp_all add: seq_ok_def)

lemma table_ok_nth: "table_ok t \<Longrightarrow> i < 256 \<Longrightarrow> t ! i = Some e \<Longrightarrow> seq_ok e"
  by (metis nth_mem table_ok_def)

lemma table_ok_combined: "table_ok escape_xml_plus_json"
  using table_ok_nth [OF table_ok_xml] table_ok_nth [OF table_ok_toothpicks]
  by (auto simp: table_ok_def escape_xml_plus_json_def split: option.splits)

lemma get_escapes_ok: "get_escapes e = Some t \<Longrightarrow> table_ok t"
  using table_ok_toothpicks table_ok_xml table_ok_combined by (auto simp: get_escapes_def split: re_esc.splits)

subsection \<open>What is written\<close>

definition escaped_char :: "escape_table \<Rightarrow> char \<Rightarrow> string" where
  "escaped_char t c = (case t ! of_char c of None \<Rightarrow> [c] | Some e \<Rightarrow> tl e)"

definition escaped :: "escape_table \<Rightarrow> string \<Rightarrow> string" where
  "escaped t s = concat (map (escaped_char t) s)"

definition ascii :: "string \<Rightarrow> bool" where
  "ascii s \<longleftrightarrow> (\<forall>c\<in>set s. of_char c < (128::nat))"

lemma of_char_256: "of_char c < (256::nat)"
  by (metis of_char_mod_256 mod_less_divisor zero_less_numeral)

lemma table_get: "table_ok t \<Longrightarrow> arr_get t (of_char c) = Some (t ! of_char c)"
proof -
  assume "table_ok t"
  then have "in_range (int (of_char c)) t" using of_char_256 [of c] by (simp add: table_ok_def in_range_def)
  then show ?thesis by (metis arr_get_in nat_int of_nat_of_char)
qed

lemma table_get_signed:
  assumes "table_ok t" and "of_char c < (128::nat)"
  shows "arr_get t (schar c) = Some (t ! of_char c)"
proof -
  have "(of_char c :: int) < 128" using assms(2) by (metis of_nat_less_numeral_iff of_nat_of_char)
  then have "schar c = of_char c" by (simp add: schar_def)
  with table_get [OF assms(1)] show ?thesis by simp
qed

lemma table_get_negative:
  assumes "of_char c \<ge> (128::nat)"
  shows "arr_get t (schar c) = None"
proof -
  have "int (of_char c) \<ge> 128" using assms by linarith
  then have "(of_char c :: int) \<ge> 128" by (simp only: of_nat_of_char)
  then have "schar c < 0" using of_char_int_bounds [of c] by (simp add: schar_def)
  then show ?thesis by (simp add: arr_get_def)
qed

lemma escaped_size_ok:
  assumes "table_ok t" and "ascii s"
  shows "escaped_size t s = Some (int (length (escaped t s)))"
  using assms(2)
proof (induction s)
  case (Cons c s)
  then have a: "of_char c < (128::nat)" "ascii s" by (auto simp: ascii_def)
  show ?case
  proof (cases "t ! of_char c")
    case None
    with a Cons.IH table_get_signed [OF assms(1) a(1)] show ?thesis by (simp add: escaped_def escaped_char_def)
  next
    case (Some e)
    have "seq_ok e" by (rule table_ok_nth [OF assms(1) of_char_256 Some])
    then obtain x xs where "e = x # xs" "schar x = int (length xs)" by (cases e) (auto simp: seq_ok_def)
    with Some a Cons.IH table_get_signed [OF assms(1) a(1)] show ?thesis
      by (simp add: escaped_def escaped_char_def arr_get_def)
  qed
qed (simp add: escaped_def)

lemma escaped_size_negative:
  assumes "\<not> ascii s"
  shows "escaped_size t s = None"
  using assms
proof (induction s)
  case (Cons c s)
  show ?case
  proof (cases "of_char c \<ge> (128::nat)")
    case True
    then show ?thesis by (simp add: table_get_negative)
  next
    case False
    then have "escaped_size t s = None" using Cons by (auto simp: ascii_def not_le)
    then show ?thesis by (auto split: Option.bind_split option.split)
  qed
qed (simp add: ascii_def)

lemma put_escape_chars:
  "\<forall>j\<in>set js. j < length e \<Longrightarrow> put_escape e js rb = put_chars (map (\<lambda>j. e ! j) js) rb"
proof (induction js arbitrary: rb)
  case (Cons j js)
  have "put_escape e js = put_chars (map (\<lambda>j. e ! j) js)" by (rule ext) (use Cons in simp)
  with Cons.prems show ?case by (simp add: arr_simps)
qed simp

lemma put_chars_append: "put_chars (xs @ ys) rb = do { rb' \<leftarrow> put_chars xs rb; put_chars ys rb' }"
  by (induction xs arbitrary: rb) (auto split: Option.bind_split)

lemma put_escaped_chars:
  assumes "table_ok t"
  shows "put_escaped t s rb = put_chars (escaped t s) rb"
proof (induction s arbitrary: rb)
  case (Cons c s)
  have IH: "put_escaped t s = put_chars (escaped t s)" by (rule ext) (rule Cons.IH)
  show ?case
  proof (cases "t ! of_char c")
    case None
    with IH table_get [OF assms] show ?thesis by (simp add: escaped_def escaped_char_def)
  next
    case (Some e)
    have "seq_ok e" by (rule table_ok_nth [OF assms of_char_256 Some])
    then obtain x xs where e: "e = x # xs" "schar x = int (length xs)" by (cases e) (auto simp: seq_ok_def)
    have "put_escape e [1..<Suc (length xs)] r = put_chars xs r" for r
    proof -
      have "map (\<lambda>j. e ! j) [1..<Suc (length xs)] = xs" using e(1) by (intro nth_equalityI) (simp_all del: upt_Suc)
      then show ?thesis using put_escape_chars [of "[1..<Suc (length xs)]" e r] e(1) by (simp del: upt_Suc)
    qed
    with Some e IH table_get [OF assms, of c] show ?thesis
      by (simp add: escaped_def escaped_char_def arr_get_def put_chars_append del: upt_Suc)
  qed
qed (simp add: escaped_def)

lemma escape_string_ok:
  assumes "table_ok t" and "ascii s" and "holds rb u" and "\<forall>n. grant n"
    and "rb_sz rb + int (length (escaped t s)) < 2 ^ 31 - 1"
  shows "\<exists>rb'. escape_string grant s rb t = Some rb' \<and> holds rb' (u @ escaped t s)"
proof -
  from prepare_holds [OF assms(3) _ assms(4,5)] obtain rb1 where
    "prepare grant (int (length (escaped t s))) rb = Some (rb1, True)" "holds rb1 u" "rb_sz rb1 = rb_sz rb"
    "rb_sz rb + int (length (escaped t s)) \<le> alloc_sz rb1" by auto
  with put_chars_holds [of rb1 u "escaped t s"] escaped_size_ok [OF assms(1,2)] show ?thesis
    by (auto simp: escape_string_def put_escaped_chars [OF assms(1)])
qed

lemma escape_string_negative: "\<not> ascii s \<Longrightarrow> escape_string grant s rb t = None"
  by (simp add: escape_string_def escaped_size_negative)

subsection \<open>The tables as functions\<close>

definition json_char :: "char \<Rightarrow> string" where
  "json_char c =
     (if c = CHR 0x5C \<or> c = CHR 0x22 then [CHR 0x5C, c]
      else if c = CHR 0x08 then [CHR 0x5C, CHR ''b'']
      else if c = CHR 0x0C then [CHR 0x5C, CHR ''f'']
      else if c = CHR 0x0A then [CHR 0x5C, CHR ''n'']
      else if c = CHR 0x0D then [CHR 0x5C, CHR ''r'']
      else if c = CHR 0x09 then [CHR 0x5C, CHR ''t'']
      else if of_char c < (32::nat) then [CHR 0x5C, CHR ''u''] @ fmt_04x (of_char c)
      else [c])"

definition xml_char :: "char \<Rightarrow> string" where
  "xml_char c =
     (if c = CHR ''<'' then ''&lt;'' else if c = CHR ''>'' then ''&gt;''
      else if c = CHR ''&'' then ''&amp;'' else if c = CHR 0x22 then ''&quot;'' else [c])"

lemma length_fold_update: "length (fold (\<lambda>i t. t[i := f i]) is t) = length t"
  by (induction "is" arbitrary: t) simp_all

lemma fold_controls: "fold (\<lambda>i t. t[i := Some (control_escape i)]) [0..<n] (replicate 256 None) ! j =
   (if j < n then Some (control_escape j) else None)" if "j < 256"
  using that by (induction n) (auto simp: nth_list_update less_Suc_eq length_fold_update)

lemma length_controls: "length (fold (\<lambda>i t. t[i := Some (control_escape i)]) [0..<32] (replicate 256 None)) = 256"
  by (simp add: length_fold_update)

lemma escaped_char_json: "escaped_char escape_leaning_toothpicks c = json_char c"
proof -
  have l: "of_char c < (256::nat)" by (rule of_char_256)
  have eq: "c = d \<longleftrightarrow> of_char c = (of_char d :: nat)" for d by (metis char_of_char)
  define t where "t = fold (\<lambda>i t. t[i := Some (control_escape i)]) [0..<32] (replicate 256 None)"
  have t: "length t = 256" "t ! of_char c = (if of_char c < (32::nat) then Some (control_escape (of_char c)) else None)"
    using length_controls fold_controls [OF l, of 32] by (simp_all only: t_def)
  show ?thesis
    unfolding escaped_char_def json_char_def escape_leaning_toothpicks_def Let_def t_def [symmetric] eq
    using t l eq [of "CHR 0x5C"] eq [of "CHR 0x22"] by (auto simp: nth_list_update control_escape_def)
qed

lemma escaped_char_xml: "escaped_char escape_xml_entities c = xml_char c"
proof -
  have l: "of_char c < (256::nat)" by (rule of_char_256)
  have eq: "c = d \<longleftrightarrow> of_char c = (of_char d :: nat)" for d by (metis char_of_char)
  show ?thesis
    using l by (auto simp: escaped_char_def xml_char_def escape_xml_entities_def nth_list_update eq)
qed

lemma escaped_char_xmljson:
  "escaped_char escape_xml_plus_json c = (if xml_char c \<noteq> [c] then xml_char c else json_char c)"
proof -
  have l: "of_char c < (256::nat)" by (rule of_char_256)
  have u: "[0..<256] ! of_char c = (of_char c :: nat)" using l nth_upt [of 0 "of_char c" 256] by (simp only: add_0)
  have "escape_xml_plus_json ! of_char c =
      (case escape_xml_entities ! of_char c of Some e \<Rightarrow> Some e | None \<Rightarrow> escape_leaning_toothpicks ! of_char c)"
    unfolding escape_xml_plus_json_def by (subst nth_map) (use l in simp, simp only: u)
  then have "escaped_char escape_xml_plus_json c =
      (case escape_xml_entities ! of_char c of Some e \<Rightarrow> tl e | None \<Rightarrow> escaped_char escape_leaning_toothpicks c)"
    by (simp add: escaped_char_def split: option.split)
  moreover have "escape_xml_entities ! of_char c = None \<longleftrightarrow> xml_char c = [c]"
  proof -
    have eq: "c = d \<longleftrightarrow> of_char c = (of_char d :: nat)" for d by (metis char_of_char)
    show ?thesis using l by (auto simp: xml_char_def escape_xml_entities_def nth_list_update eq)
  qed
  ultimately show ?thesis
    using escaped_char_xml [of c] escaped_char_json [of c] by (auto simp: escaped_char_def split: option.splits)
qed

end
