(* ===== verification/JSON_Encoding.thy ===== *)
theory JSON_Encoding
  imports Escapes Query_Source
begin

text \<open>
  The decoder of JSON strings (\<open>JSON_encoding.cc\<close>). It rewrites its buffer in place with a
  read and a write position. The lemmas show that it computes a plain function of the text,
  that the write position never overtakes the read position, and that it undoes the JSON
  escapes of the output formats.
\<close>

unbundle bit_operations_syntax

subsection \<open>The table and the digits\<close>

definition JSON_unescape_table :: string where
  "JSON_unescape_table =
     (replicate 128 (CHR 0x00))[0x22 := CHR 0x22, 0x2F := CHR ''/'', 0x5C := CHR 0x5C, 0x62 := CHR 0x08,
        0x66 := CHR 0x0C, 0x6E := CHR 0x0A, 0x72 := CHR 0x0D, 0x74 := CHR 0x09, 0x75 := CHR ''u'']"

definition xval :: "char \<Rightarrow> nat option" where
  "xval c =
     (if CHR ''0'' \<le> c \<and> c \<le> CHR ''9'' then Some (of_char c - 48)
      else if c = CHR ''a'' \<or> c = CHR ''A'' then Some 10
      else if c = CHR ''b'' \<or> c = CHR ''B'' then Some 11
      else if c = CHR ''c'' \<or> c = CHR ''C'' then Some 12
      else if c = CHR ''d'' \<or> c = CHR ''D'' then Some 13
      else if c = CHR ''e'' \<or> c = CHR ''E'' then Some 14
      else if c = CHR ''f'' \<or> c = CHR ''F'' then Some 15
      else None)"

definition char_code :: "char \<Rightarrow> char \<Rightarrow> char \<Rightarrow> char \<Rightarrow> nat option" where
  "char_code c4 c3 c2 c1 =
     do { x4 \<leftarrow> xval c4; x3 \<leftarrow> xval c3; x2 \<leftarrow> xval c2; x1 \<leftarrow> xval c1;
          Some (16 * 16 * 16 * x4 + 16 * 16 * x3 + 16 * x2 + x1) }"

definition byte :: "nat \<Rightarrow> char" where
  "byte n = char_of n"

definition utf8_1 :: "nat \<Rightarrow> string" where "utf8_1 n = [byte n]"
definition utf8_2 :: "nat \<Rightarrow> string" where
  "utf8_2 n = [byte (0xC0 OR drop_bit 6 n), byte (0x80 OR (n AND 0x3F))]"
definition utf8_3 :: "nat \<Rightarrow> string" where
  "utf8_3 n = [byte (0xE0 OR drop_bit 12 n), byte (0x80 OR (drop_bit 6 n AND 0x3F)), byte (0x80 OR (n AND 0x3F))]"
definition utf8_4 :: "nat \<Rightarrow> string" where
  "utf8_4 n = [byte (0xF0 OR (drop_bit 18 n AND 0x07)), byte (0x80 OR (drop_bit 12 n AND 0x3F)),
               byte (0x80 OR (drop_bit 6 n AND 0x3F)), byte (0x80 OR (n AND 0x3F))]"

text \<open>What the four digits write, and the new first half of a surrogate pair.\<close>

definition put_code :: "nat \<Rightarrow> nat \<Rightarrow> string \<times> nat" where
  "put_code n pair1 =
     (if n < 0x80 then (utf8_1 n, pair1)
      else if n < 0x800 then (utf8_2 n, pair1)
      else if n > 0xD7FF \<and> n < 0xE000 then
        (if pair1 = 0 then ([], n)
         else (utf8_4 (0x10000 + push_bit 10 (pair1 AND 0x3FF) + (n AND 0x3FF)), 0))
      else (utf8_3 n, pair1))"

subsection \<open>The loop\<close>

fun store_chars :: "string \<Rightarrow> int \<Rightarrow> string \<Rightarrow> (string \<times> int) option" where
  "store_chars str w [] = Some (str, w)"
| "store_chars str w (c # cs) = do { str' \<leftarrow> arr_upd str w (\<lambda>_. c); store_chars str' (w + 1) cs }"

definition finish_char :: "string \<Rightarrow> int option \<Rightarrow> char \<Rightarrow> (string \<times> int option) option" where
  "finish_char str w c =
     (case w of None \<Rightarrow> Some (str, None)
      | Some p \<Rightarrow> do { (str', p') \<leftarrow> store_chars str p [c]; Some (str', Some p') })"

partial_function (option) unescape_loop ::
  "string \<Rightarrow> int \<Rightarrow> int option \<Rightarrow> nat \<Rightarrow> (string \<times> int \<times> int option) option" where
  "unescape_loop str r w pair1 =
     do { c \<leftarrow> arr_get str r;
          (if c = CHR 0x00 then
             do { (str', w') \<leftarrow> finish_char str w c; Some (str', r + 1, w') }
           else if c = CHR 0x5C then
             do { let w1 = (case w of None \<Rightarrow> r | Some p \<Rightarrow> p);
                  e \<leftarrow> arr_get str (r + 1);
                  c' \<leftarrow> arr_get JSON_unescape_table (schar e);
                  (if c' = CHR ''u'' then
                     do { c4 \<leftarrow> arr_get str (r + 2); c3 \<leftarrow> arr_get str (r + 3);
                          c2 \<leftarrow> arr_get str (r + 4); c1 \<leftarrow> arr_get str (r + 5);
                          n \<leftarrow> char_code c4 c3 c2 c1;
                          (str', w') \<leftarrow> store_chars str w1 (fst (put_code n pair1));
                          unescape_loop str' (r + 6) (Some w') (snd (put_code n pair1)) }
                   else do { (str', w') \<leftarrow> finish_char str (Some w1) c';
                             unescape_loop str' (r + 2) w' pair1 }) }
           else do { (str', w') \<leftarrow> finish_char str w c; unescape_loop str' (r + 1) w' pair1 }) }"

definition JSON_unescape :: "string \<Rightarrow> (string \<times> int) option" where
  "JSON_unescape str =
     do { (str', r, w) \<leftarrow> unescape_loop str 0 None 0;
          Some (str', (case w of Some p \<Rightarrow> p - 1 | None \<Rightarrow> r - 1)) }"

text \<open>A token of the scanner is an array of wide characters.\<close>

definition JSON_blob :: "nat list \<Rightarrow> len_string option" where
  "JSON_blob tok =
     do { q \<leftarrow> arr_get tok 0;
          let start = (if q = 0x22 then 1 else 0);
          let len = length tok - 2 * start;
          (str, n) \<leftarrow> JSON_unescape (map byte (take len (drop start tok)) @ [CHR 0x00]);
          Some \<lparr>ls_len = nat n, ls_string = str\<rparr> }"

subsection \<open>The function it computes\<close>

fun unescaped :: "string \<Rightarrow> nat \<Rightarrow> string option" where
  "unescaped [] p = Some []"
| "unescaped (c # cs) p =
     (if c = CHR 0x5C then
        (case cs of
           [] \<Rightarrow> None
         | e # r \<Rightarrow>
             (case arr_get JSON_unescape_table (schar e) of
                None \<Rightarrow> None
              | Some c' \<Rightarrow>
                  if c' = CHR ''u'' then
                    (case r of
                       c4 # c3 # c2 # c1 # s \<Rightarrow>
                         (case char_code c4 c3 c2 c1 of
                            None \<Rightarrow> None
                          | Some n \<Rightarrow> map_option ((@) (fst (put_code n p))) (unescaped s (snd (put_code n p))))
                     | _ \<Rightarrow> None)
                  else map_option ((#) c') (unescaped r p)))
      else map_option ((#) c) (unescaped cs p))"

lemma put_code_short: "length (fst (put_code n p)) \<le> 4"
  by (simp add: put_code_def utf8_1_def utf8_2_def utf8_3_def utf8_4_def)

lemma unescaped_shorter: "unescaped s p = Some t \<Longrightarrow> length t \<le> length s"
proof (induction s p arbitrary: t rule: unescaped.induct)
  case (2 c cs p)
  show ?case
  proof (cases "c = CHR 0x5C")
    case False
    with 2 show ?thesis by (cases "unescaped cs p") fastforce+
  next
    case True
    with "2.prems" obtain e r c' where e: "cs = e # r" "arr_get JSON_unescape_table (schar e) = Some c'"
      by (auto split: list.splits option.splits)
    show ?thesis
    proof (cases "c' = CHR ''u''")
      case False
      with "2.prems" True e obtain t' where "unescaped r p = Some t'" "t = c' # t'" by auto
      with "2.IH"(2) [OF True e(1) e(2) False] e show ?thesis by fastforce
    next
      case u: True
      with "2.prems" True e obtain c4 c3 c2 c1 s n where
        r: "r = c4 # c3 # c2 # c1 # s" "char_code c4 c3 c2 c1 = Some n"
        by (auto split: list.splits option.splits)
      with u "2.prems" True e obtain t' where "unescaped s (snd (put_code n p)) = Some t'" "t = fst (put_code n p) @ t'"
        by auto
      with "2.IH"(1) [OF True e(1) e(2) u r(1) refl refl refl r(2)] e r put_code_short [of n p] show ?thesis by fastforce
    qed
  qed
qed simp

subsection \<open>The loop computes it\<close>

lemma store_chars_ok:
  assumes "0 \<le> w" and "nat w + length cs \<le> length str"
  shows "store_chars str w cs = Some (take (nat w) str @ cs @ drop (nat w + length cs) str, w + int (length cs))"
  using assms
proof (induction cs arbitrary: str w)
  case (Cons c cs)
  then have lt: "nat w < length str" by simp
  then have r: "in_range w str" using Cons.prems(1) by (simp add: in_range_def)
  let ?s = "str[nat w := c]"
  have n: "nat (w + 1) = Suc (nat w)" using Cons.prems(1) by simp
  have "take (Suc (nat w)) ?s = take (nat w) str @ [c]" using lt by (simp add: take_Suc_conv_app_nth)
  with Cons.IH [of "w + 1" ?s] Cons.prems n r show ?case by (simp add: arr_simps)
qed simp

text \<open>
  The state of the loop: the text \<open>s\<close> and its null byte are still to be read at \<open>r\<close>, and
  \<open>write_pos\<close> is where the next byte of the result belongs.
\<close>

definition write_pos :: "int \<Rightarrow> int option \<Rightarrow> int" where
  "write_pos r w = (case w of None \<Rightarrow> r | Some p \<Rightarrow> p)"

definition reading :: "string \<Rightarrow> int \<Rightarrow> int option \<Rightarrow> string \<Rightarrow> bool" where
  "reading str r w s \<longleftrightarrow> 0 \<le> write_pos r w \<and> write_pos r w \<le> r \<and> (\<exists>junk. drop (nat r) str = s @ CHR 0x00 # junk)"

lemma reading_get:
  assumes "reading str r w (pre @ c # s)"
  shows "arr_get str (r + int (length pre)) = Some c"
proof -
  from assms obtain junk where d: "drop (nat r) str = pre @ c # s @ CHR 0x00 # junk" and r: "0 \<le> r"
    by (auto simp: reading_def)
  then have "length pre < length (drop (nat r) str)" by simp
  then have "nat r + length pre < length str" by simp
  moreover have "str ! (nat r + length pre) = drop (nat r) str ! length pre" using calculation by simp
  then have "str ! (nat r + length pre) = c" using d by (simp add: nth_append)
  ultimately show ?thesis using r by (simp add: arr_get_def nat_add_distrib)
qed

lemma reading_end: "reading str r w [] \<Longrightarrow> arr_get str r = Some (CHR 0x00)"
proof -
  assume "reading str r w []"
  then obtain junk where d: "drop (nat r) str = CHR 0x00 # junk" and r: "0 \<le> r" by (auto simp: reading_def)
  then have "nat r < length str" by (metis drop_all list.distinct(1) not_le)
  moreover have "str ! nat r = CHR 0x00" using d by (metis Cons_nth_drop_Suc calculation list.inject)
  ultimately show ?thesis using r by (simp add: arr_get_def)
qed

text \<open>Reading \<open>pre\<close> and writing \<open>cs\<close>, which is no longer.\<close>

lemma reading_store:
  assumes "reading str r w (pre @ s)" and "length cs \<le> length pre" and "0 < length pre"
  shows "\<exists>str'. store_chars str (write_pos r w) cs = Some (str', write_pos r w + int (length cs)) \<and>
     reading str' (r + int (length pre)) (Some (write_pos r w + int (length cs))) s \<and> length str' = length str \<and>
     take (nat (write_pos r w) + length cs) str' = take (nat (write_pos r w)) str @ cs"
proof -
  let ?p = "write_pos r w"
  from assms(1) obtain junk where d: "drop (nat r) str = pre @ s @ CHR 0x00 # junk" and p: "0 \<le> ?p" "?p \<le> r"
    by (auto simp: reading_def)
  have "length (drop (nat r) str) = length pre + length s + Suc (length junk)" using d by simp
  then have l: "nat r + length pre < length str" by simp
  then have b: "nat ?p + length cs \<le> length str" using p assms(2) by linarith
  let ?s = "take (nat ?p) str @ cs @ drop (nat ?p + length cs) str"
  have st: "store_chars str ?p cs = Some (?s, ?p + int (length cs))" by (rule store_chars_ok [OF p(1) b])
  have n: "nat (r + int (length pre)) = nat r + length pre" using p by simp
  have "drop (nat r + length pre) ?s = drop (nat r + length pre) str"
  proof -
    have "nat ?p + length cs \<le> nat r + length pre" using p assms(2) by linarith
    moreover have "nat ?p \<le> length str" using b by simp
    ultimately show ?thesis by (simp add: drop_append min_absorb2)
  qed
  also have "\<dots> = drop (length pre) (drop (nat r) str)" by (simp add: add.commute)
  also have "\<dots> = s @ CHR 0x00 # junk" using d by simp
  finally have "reading ?s (r + int (length pre)) (Some (?p + int (length cs))) s"
    using p assms(2) n by (auto simp: reading_def write_pos_def)
  moreover have "take (nat ?p + length cs) ?s = take (nat ?p) str @ cs" using b by simp
  moreover have "length ?s = length str" using b by simp
  ultimately show ?thesis using st by blast
qed

lemma reading_skip:
  assumes "reading str r None (c # s)"
  shows "reading str (r + 1) None s" "take (nat (r + 1)) str = take (nat r) str @ [c]"
proof -
  from assms obtain junk where d: "drop (nat r) str = c # s @ CHR 0x00 # junk" and r: "0 \<le> r"
    by (auto simp: reading_def write_pos_def)
  have n: "nat (r + 1) = Suc (nat r)" using r by simp
  have "drop (Suc (nat r)) str = s @ CHR 0x00 # junk" using d by (metis drop_Suc list.sel(3) tl_drop)
  then show "reading str (r + 1) None s" using r n by (auto simp: reading_def write_pos_def)
  have "nat r < length str" using d by (metis drop_all list.distinct(1) not_le)
  moreover have "str ! nat r = c" using d by (metis Cons_nth_drop_Suc calculation list.inject)
  ultimately show "take (nat (r + 1)) str = take (nat r) str @ [c]" unfolding n by (simp add: take_Suc_conv_app_nth)
qed

definition loop_done :: "string \<Rightarrow> int \<Rightarrow> int option \<Rightarrow> string \<Rightarrow> (string \<times> int \<times> int option) option \<Rightarrow> bool" where
  "loop_done str r w t res \<longleftrightarrow> (\<exists>str' r' w'. res = Some (str', r', w') \<and> length str' = length str \<and>
     write_pos r' w' = write_pos r w + int (length t) + 1 \<and>
     take (nat (write_pos r w) + length t + 1) str' = take (nat (write_pos r w)) str @ t @ [CHR 0x00])"

lemma loop_done_step:
  assumes "loop_done str1 r1 w1 t res" and "length str1 = length str"
    and "write_pos r1 w1 = write_pos r w + int (length u)" and "0 \<le> write_pos r w"
    and "take (nat (write_pos r w) + length u) str1 = take (nat (write_pos r w)) str @ u"
  shows "loop_done str r w (u @ t) res"
proof -
  have n: "nat (write_pos r1 w1) = nat (write_pos r w) + length u" using assms(3,4) by simp
  show ?thesis using assms(1-3,5) unfolding loop_done_def n by (auto simp: add.assoc)
qed

lemma loop_end:
  assumes "reading str r w []"
  shows "loop_done str r w [] (unescape_loop str r w p)"
proof (cases w)
  case None
  obtain junk where "drop (nat r) str = CHR 0x00 # junk" and r: "0 \<le> r"
    using assms None by (auto simp: reading_def write_pos_def)
  then have "take (nat r + 1) str = take (nat r) str @ [CHR 0x00]"
    by (metis Cons_nth_drop_Suc Suc_eq_plus1 drop_all list.distinct(1) list.inject not_le take_Suc_conv_app_nth)
  with None reading_end [OF assms] show ?thesis
    by (subst unescape_loop.simps) (simp add: loop_done_def finish_char_def write_pos_def)
next
  case (Some q)
  have q: "0 \<le> q" "q \<le> r" using assms Some by (auto simp: reading_def write_pos_def)
  have "nat r < length str" using reading_end [OF assms] q by (simp add: arr_get_def split: if_splits)
  then have l: "nat q + length [CHR 0x00] \<le> length str" using q by simp
  from store_chars_ok [OF q(1) l] Some reading_end [OF assms] l show ?thesis
    by (subst unescape_loop.simps) (simp add: loop_done_def finish_char_def write_pos_def)
qed

lemma finish_store: "finish_char str (Some q) c = map_option (\<lambda>(s, p). (s, Some p)) (store_chars str q [c])"
  by (simp add: finish_char_def map_option_case split: Option.bind_split option.split)

lemma loop_plain:
  assumes "reading str r w (c # s)" and "c \<noteq> CHR 0x00" and "c \<noteq> CHR 0x5C"
  shows "\<exists>str' w'. unescape_loop str r w p = unescape_loop str' (r + 1) w' p \<and> reading str' (r + 1) w' s \<and>
     length str' = length str \<and> write_pos (r + 1) w' = write_pos r w + 1 \<and>
     take (nat (write_pos r w) + 1) str' = take (nat (write_pos r w)) str @ [c]"
proof (cases w)
  case None
  have g: "arr_get str r = Some c" using reading_get [of str r w "[]" c s] assms(1) by simp
  have p: "0 \<le> r" using assms(1) None by (simp add: reading_def write_pos_def)
  have "unescape_loop str r w p = unescape_loop str (r + 1) None p"
    using g None assms(2,3) by (subst unescape_loop.simps) (simp add: finish_char_def)
  with reading_skip [of str r c s] assms(1) None p show ?thesis
    by (intro exI [of _ str] exI [of _ None]) (simp add: write_pos_def nat_add_distrib)
next
  case (Some q)
  have g: "arr_get str r = Some c" using reading_get [of str r w "[]" c s] assms(1) by simp
  from reading_store [of str r w "[c]" s "[c]"] assms(1) obtain str' where st:
    "store_chars str (write_pos r w) [c] = Some (str', write_pos r w + 1)"
    "reading str' (r + 1) (Some (write_pos r w + 1)) s" "length str' = length str"
    "take (nat (write_pos r w) + 1) str' = take (nat (write_pos r w)) str @ [c]" by auto
  have q: "write_pos r w = q" using Some by (simp add: write_pos_def)
  have "unescape_loop str r w p = unescape_loop str' (r + 1) (Some (q + 1)) p"
    using g Some st(1) assms(2,3) unfolding q by (subst unescape_loop.simps) (simp add: finish_store del: store_chars.simps)
  with st q show ?thesis by (intro exI [of _ str'] exI [of _ "Some (q + 1)"]) (simp add: write_pos_def)
qed

lemma loop_escape:
  assumes "reading str r w (CHR 0x5C # e # s)" and "arr_get JSON_unescape_table (schar e) = Some c'" and "c' \<noteq> CHR ''u''"
  shows "\<exists>str' w'. unescape_loop str r w p = unescape_loop str' (r + 2) w' p \<and> reading str' (r + 2) w' s \<and>
     length str' = length str \<and> write_pos (r + 2) w' = write_pos r w + 1 \<and>
     take (nat (write_pos r w) + 1) str' = take (nat (write_pos r w)) str @ [c']"
proof -
  have g: "arr_get str r = Some (CHR 0x5C)" "arr_get str (r + 1) = Some e"
    using reading_get [of str r w "[]" "CHR 0x5C" "e # s"] reading_get [of str r w "[CHR 0x5C]" e s] assms(1) by simp_all
  from reading_store [of str r w "[CHR 0x5C, e]" s "[c']"] assms(1) obtain str' where st:
    "store_chars str (write_pos r w) [c'] = Some (str', write_pos r w + 1)"
    "reading str' (r + 2) (Some (write_pos r w + 1)) s" "length str' = length str"
    "take (nat (write_pos r w) + 1) str' = take (nat (write_pos r w)) str @ [c']" by auto
  have q: "(case w of None \<Rightarrow> r | Some p \<Rightarrow> p) = write_pos r w" by (simp add: write_pos_def)
  have "unescape_loop str r w p = unescape_loop str' (r + 2) (Some (write_pos r w + 1)) p"
    using g st(1) assms(2,3) by (subst unescape_loop.simps) (simp add: q finish_store del: store_chars.simps)
  with st show ?thesis by (intro exI [of _ str'] exI [of _ "Some (write_pos r w + 1)"]) (simp add: write_pos_def)
qed

lemma loop_code:
  assumes "reading str r w (CHR 0x5C # e # c4 # c3 # c2 # c1 # s)"
    and "arr_get JSON_unescape_table (schar e) = Some (CHR ''u'')" and "char_code c4 c3 c2 c1 = Some n"
  shows "\<exists>str' w'. unescape_loop str r w p = unescape_loop str' (r + 6) w' (snd (put_code n p)) \<and>
     reading str' (r + 6) w' s \<and> length str' = length str \<and>
     write_pos (r + 6) w' = write_pos r w + int (length (fst (put_code n p))) \<and>
     take (nat (write_pos r w) + length (fst (put_code n p))) str' = take (nat (write_pos r w)) str @ fst (put_code n p)"
proof -
  let ?pre = "[CHR 0x5C, e, c4, c3, c2, c1]" and ?cs = "fst (put_code n p)"
  have rd: "reading str r w (?pre @ s)" using assms(1) by simp
  have g: "arr_get str r = Some (CHR 0x5C)" "arr_get str (r + 1) = Some e" "arr_get str (r + 2) = Some c4"
    "arr_get str (r + 3) = Some c3" "arr_get str (r + 4) = Some c2" "arr_get str (r + 5) = Some c1"
    using reading_get [of str r w "[]" "CHR 0x5C"] reading_get [of str r w "[CHR 0x5C]" e]
      reading_get [of str r w "[CHR 0x5C, e]" c4] reading_get [of str r w "[CHR 0x5C, e, c4]" c3]
      reading_get [of str r w "[CHR 0x5C, e, c4, c3]" c2] reading_get [of str r w "[CHR 0x5C, e, c4, c3, c2]" c1] assms(1)
    by simp_all
  have "length ?cs \<le> length ?pre" using put_code_short [of n p] by simp
  from reading_store [OF rd this] obtain str' where st:
    "store_chars str (write_pos r w) ?cs = Some (str', write_pos r w + int (length ?cs))"
    "reading str' (r + 6) (Some (write_pos r w + int (length ?cs))) s" "length str' = length str"
    "take (nat (write_pos r w) + length ?cs) str' = take (nat (write_pos r w)) str @ ?cs" by auto
  have q: "(case w of None \<Rightarrow> r | Some p \<Rightarrow> p) = write_pos r w" by (simp add: write_pos_def)
  have "unescape_loop str r w p =
      unescape_loop str' (r + 6) (Some (write_pos r w + int (length ?cs))) (snd (put_code n p))"
    using g st(1) assms(2,3) by (subst unescape_loop.simps) (simp add: q)
  with st show ?thesis
    by (intro exI [of _ str'] exI [of _ "Some (write_pos r w + int (length ?cs))"]) (simp add: write_pos_def)
qed

lemma loop_ok:
  assumes "unescaped s p = Some t" and "CHR 0x00 \<notin> set s" and "reading str r w s"
  shows "loop_done str r w t (unescape_loop str r w p)"
  using assms
proof (induction s p arbitrary: t str r w rule: unescaped.induct)
  case (1 p)
  then show ?case using loop_end by simp
next
  case (2 c cs p)
  have p0: "0 \<le> write_pos r w" using "2.prems"(3) by (simp add: reading_def)
  show ?case
  proof (cases "c = CHR 0x5C")
    case False
    with "2.prems"(1) obtain t' where t: "unescaped cs p = Some t'" "t = [c] @ t'" by auto
    have "c \<noteq> CHR 0x00" "CHR 0x00 \<notin> set cs" using "2.prems"(2) by auto
    from loop_plain [OF "2.prems"(3) this(1) False, of p] obtain str' w' where l:
      "unescape_loop str r w p = unescape_loop str' (r + 1) w' p" "reading str' (r + 1) w' cs"
      "length str' = length str" "write_pos (r + 1) w' = write_pos r w + 1"
      "take (nat (write_pos r w) + 1) str' = take (nat (write_pos r w)) str @ [c]" by blast
    have "loop_done str' (r + 1) w' t' (unescape_loop str' (r + 1) w' p)"
      by (rule "2.IH"(3) [OF False t(1) \<open>CHR 0x00 \<notin> set cs\<close> l(2)])
    from loop_done_step [OF this l(3) _ p0, of "[c]"] l t(2) show ?thesis by simp
  next
    case True
    with "2.prems"(1) obtain e u c' where e: "cs = e # u" "arr_get JSON_unescape_table (schar e) = Some c'"
      by (auto split: list.splits option.splits)
    show ?thesis
    proof (cases "c' = CHR ''u''")
      case False
      with "2.prems"(1) True e obtain t' where t: "unescaped u p = Some t'" "t = [c'] @ t'" by auto
      have "CHR 0x00 \<notin> set u" using "2.prems"(2) e by auto
      from loop_escape [of str r w e u c' p] "2.prems"(3) True e False obtain str' w' where l:
        "unescape_loop str r w p = unescape_loop str' (r + 2) w' p" "reading str' (r + 2) w' u"
        "length str' = length str" "write_pos (r + 2) w' = write_pos r w + 1"
        "take (nat (write_pos r w) + 1) str' = take (nat (write_pos r w)) str @ [c']" by blast
      have "loop_done str' (r + 2) w' t' (unescape_loop str' (r + 2) w' p)"
        by (rule "2.IH"(2) [OF True e(1) e(2) False t(1) \<open>CHR 0x00 \<notin> set u\<close> l(2)])
      from loop_done_step [OF this l(3) _ p0, of "[c']"] l t(2) show ?thesis by simp
    next
      case u: True
      with "2.prems"(1) True e obtain c4 c3 c2 c1 s n where
        r: "u = c4 # c3 # c2 # c1 # s" "char_code c4 c3 c2 c1 = Some n"
        by (auto split: list.splits option.splits)
      with u "2.prems"(1) True e obtain t' where t: "unescaped s (snd (put_code n p)) = Some t'" "t = fst (put_code n p) @ t'"
        by auto
      have "CHR 0x00 \<notin> set s" using "2.prems"(2) e r by auto
      from loop_code [of str r w e c4 c3 c2 c1 s n p] "2.prems"(3) True e r u obtain str' w' where l:
        "unescape_loop str r w p = unescape_loop str' (r + 6) w' (snd (put_code n p))" "reading str' (r + 6) w' s"
        "length str' = length str" "write_pos (r + 6) w' = write_pos r w + int (length (fst (put_code n p)))"
        "take (nat (write_pos r w) + length (fst (put_code n p))) str' = take (nat (write_pos r w)) str @ fst (put_code n p)"
        by blast
      have "loop_done str' (r + 6) w' t' (unescape_loop str' (r + 6) w' (snd (put_code n p)))"
        by (rule "2.IH"(1) [OF True e(1) e(2) u r(1) refl refl refl r(2) t(1) \<open>CHR 0x00 \<notin> set s\<close> l(2)])
      from loop_done_step [OF this l(3,4) p0 l(5)] l(1) t(2) show ?thesis by simp
    qed
  qed
qed

lemma JSON_unescape_ok:
  assumes "unescaped s 0 = Some t" and "CHR 0x00 \<notin> set s"
  shows "\<exists>str'. JSON_unescape (s @ CHR 0x00 # junk) = Some (str', int (length t)) \<and>
     length str' = length (s @ CHR 0x00 # junk) \<and> take (length t) str' = t \<and> c_str (drop (length t) str') = []"
proof -
  have "reading (s @ CHR 0x00 # junk) 0 None s" by (simp add: reading_def write_pos_def)
  from loop_ok [OF assms this] obtain str' r' w' where l:
    "unescape_loop (s @ CHR 0x00 # junk) 0 None 0 = Some (str', r', w')" "length str' = length (s @ CHR 0x00 # junk)"
    "write_pos r' w' = int (length t) + 1" "take (length t + 1) str' = t @ [CHR 0x00]"
    by (auto simp: loop_done_def write_pos_def)
  have "take (length t) str' = take (length t) (take (length t + 1) str')" by simp
  then have "take (length t) str' = t" unfolding l(4) by simp
  moreover have "drop (length t) (take (length t + 1) str') = take 1 (drop (length t) str')" by (simp add: drop_take)
  then have "take 1 (drop (length t) str') = [CHR 0x00]" unfolding l(4) by simp
  then have "c_str (drop (length t) str') = []" by (cases "drop (length t) str'") (auto simp: c_str_def)
  moreover have "JSON_unescape (s @ CHR 0x00 # junk) = Some (str', int (length t))"
    using l(1,3) by (simp add: JSON_unescape_def write_pos_def split: option.splits)
  ultimately show ?thesis using l(2) by blast
qed

subsection \<open>Decoding undoes the JSON escapes\<close>

lemma xval_hex_digit: "k < 16 \<Longrightarrow> xval (hex_digit k) = Some k"
proof -
  have "\<forall>k\<in>set [0..<16]. xval (hex_digit k) = Some k" by code_simp
  then show "k < 16 \<Longrightarrow> xval (hex_digit k) = Some k" by simp
qed

lemma char_code_hex:
  assumes "n < 65536"
  shows "char_code (hex_digit (n div 4096 mod 16)) (hex_digit (n div 256 mod 16)) (hex_digit (n div 16 mod 16)) (hex_digit (n mod 16)) = Some n"
proof -
  have "n = 16 * (n div 16) + n mod 16" "n div 16 = 16 * (n div 256) + n div 16 mod 16"
    "n div 256 = 16 * (n div 4096) + n div 256 mod 16"
    using mult_div_mod_eq [of 16 "n div 16"] mult_div_mod_eq [of 16 "n div 256"] by (simp_all flip: div_mult2_eq)
  moreover have m: "n div 4096 mod 16 = n div 4096" using assms by simp
  ultimately have "4096 * (n div 4096 mod 16) + 256 * (n div 256 mod 16) + 16 * (n div 16 mod 16) + n mod 16 = n"
    by linarith
  moreover have "n div 4096 < 16" using assms by simp
  ultimately show ?thesis using m by (simp add: char_code_def xval_hex_digit)
qed

lemma fmt_04x_eq: "fmt_04x n = [hex_digit (n div 4096 mod 16), hex_digit (n div 256 mod 16),
   hex_digit (n div 16 mod 16), hex_digit (n mod 16)]"
  by (simp add: fmt_04x_def)

lemma unescaped_json_char: "unescaped (json_char c @ s) p = map_option ((#) c) (unescaped s p)"
proof (cases "of_char c < (32::nat) \<and> c \<notin> {CHR 0x08, CHR 0x0C, CHR 0x0A, CHR 0x0D, CHR 0x09}")
  case True
  then have j: "json_char c = [CHR 0x5C, CHR ''u''] @ fmt_04x (of_char c)" by (auto simp: json_char_def)
  have n: "of_char c < (65536::nat)" "put_code (of_char c) p = ([c], p)"
    using True by (simp_all add: put_code_def utf8_1_def byte_def)
  have ap: "(@) [c] = (#) c" by (rule ext) simp
  have u: "arr_get JSON_unescape_table (schar (CHR ''u'')) = Some (CHR ''u'')"
    by (simp add: JSON_unescape_table_def arr_get_def schar_def)
  show ?thesis
    unfolding j using char_code_hex [OF n(1)] n(2) u ap by (simp add: fmt_04x_eq)
next
  case False
  then show ?thesis
    by (auto simp: json_char_def JSON_unescape_table_def arr_get_def schar_def)
qed

lemma unescaped_escaped: "unescaped (escaped escape_leaning_toothpicks s) p = Some s"
  by (induction s) (simp_all add: escaped_def escaped_char_json unescaped_json_char)

lemma json_char_no_null: "CHR 0x00 \<notin> set (json_char c)"
proof -
  have h: "hex_digit k \<noteq> CHR 0x00" if "k < 16" for k
  proof -
    have "\<forall>k\<in>set [0..<16]. hex_digit k \<noteq> CHR 0x00" by code_simp
    with that show ?thesis by simp
  qed
  show ?thesis by (auto simp: json_char_def fmt_04x_def h dest: sym)
qed

lemma escaped_no_null: "CHR 0x00 \<notin> set (escaped escape_leaning_toothpicks s)"
  by (induction s) (simp_all add: escaped_def escaped_char_json json_char_no_null)

subsection \<open>UTF-8\<close>

fun utf8_decode :: "nat list \<Rightarrow> nat option" where
  "utf8_decode [a] = (if a < 0x80 then Some a else None)"
| "utf8_decode [a, b] =
     (if a div 32 = 6 \<and> b div 64 = 2 then Some (a mod 32 * 64 + b mod 64) else None)"
| "utf8_decode [a, b, c] =
     (if a div 16 = 14 \<and> b div 64 = 2 \<and> c div 64 = 2 then Some (a mod 16 * 4096 + b mod 64 * 64 + c mod 64) else None)"
| "utf8_decode [a, b, c, d] =
     (if a div 8 = 30 \<and> b div 64 = 2 \<and> c div 64 = 2 \<and> d div 64 = 2
      then Some (a mod 8 * 262144 + b mod 64 * 4096 + c mod 64 * 64 + d mod 64) else None)"
| "utf8_decode _ = None"

lemma or_adds:
  "x < 64 \<Longrightarrow> 0x80 OR x = 0x80 + (x::nat)" "x < 32 \<Longrightarrow> 0xC0 OR x = 0xC0 + (x::nat)"
  "x < 16 \<Longrightarrow> 0xE0 OR x = 0xE0 + (x::nat)" "x < 8 \<Longrightarrow> 0xF0 OR x = 0xF0 + (x::nat)"
proof -
  have "\<forall>x\<in>set [0..<64]. 0x80 OR x = 0x80 + (x::nat)" "\<forall>x\<in>set [0..<32]. 0xC0 OR x = 0xC0 + (x::nat)"
    "\<forall>x\<in>set [0..<16]. 0xE0 OR x = 0xE0 + (x::nat)" "\<forall>x\<in>set [0..<8]. 0xF0 OR x = 0xF0 + (x::nat)"
    by code_simp+
  then show "x < 64 \<Longrightarrow> 0x80 OR x = 0x80 + (x::nat)" "x < 32 \<Longrightarrow> 0xC0 OR x = 0xC0 + (x::nat)"
    "x < 16 \<Longrightarrow> 0xE0 OR x = 0xE0 + (x::nat)" "x < 8 \<Longrightarrow> 0xF0 OR x = 0xF0 + (x::nat)"
    by (simp_all only: set_upt atLeastLessThan_iff Ball_def) auto
qed

lemma and_mods: "n AND 0x3F = n mod 64" "n AND 0x07 = n mod 8" "n AND 0x3FF = n mod (1024::nat)"
  using take_bit_eq_mask [of 6 n] take_bit_eq_mask [of 3 n] take_bit_eq_mask [of 10 n]
  by (simp_all add: take_bit_eq_mod mask_eq_exp_minus_1)

lemma lead_bytes:
  "x < 64 \<Longrightarrow> (128 + x) div 64 = 2 \<and> (128 + x) mod 64 = (x::nat)"
  "x < 32 \<Longrightarrow> (192 + x) div 32 = 6 \<and> (192 + x) mod 32 = (x::nat)"
  "x < 16 \<Longrightarrow> (224 + x) div 16 = 14 \<and> (224 + x) mod 16 = (x::nat)"
  "x < 8 \<Longrightarrow> (240 + x) div 8 = 30 \<and> (240 + x) mod 8 = (x::nat)"
proof -
  have "\<forall>x\<in>set [0..<64]. (128 + x) div 64 = 2 \<and> (128 + x) mod 64 = (x::nat)"
    "\<forall>x\<in>set [0..<32]. (192 + x) div 32 = 6 \<and> (192 + x) mod 32 = (x::nat)"
    "\<forall>x\<in>set [0..<16]. (224 + x) div 16 = 14 \<and> (224 + x) mod 16 = (x::nat)"
    "\<forall>x\<in>set [0..<8]. (240 + x) div 8 = 30 \<and> (240 + x) mod 8 = (x::nat)" by code_simp+
  then show "x < 64 \<Longrightarrow> (128 + x) div 64 = 2 \<and> (128 + x) mod 64 = (x::nat)"
    "x < 32 \<Longrightarrow> (192 + x) div 32 = 6 \<and> (192 + x) mod 32 = (x::nat)"
    "x < 16 \<Longrightarrow> (224 + x) div 16 = 14 \<and> (224 + x) mod 16 = (x::nat)"
    "x < 8 \<Longrightarrow> (240 + x) div 8 = 30 \<and> (240 + x) mod 8 = (x::nat)"
    by (simp_all only: set_upt atLeastLessThan_iff Ball_def) auto
qed

lemma sextets:
  "n div 64 * 64 + n mod 64 = (n::nat)" "n div 4096 * 64 + n div 64 mod 64 = n div 64"
  "n div 262144 * 64 + n div 4096 mod 64 = n div 4096"
  using mult_div_mod_eq [of 64 n] mult_div_mod_eq [of 64 "n div 64"] mult_div_mod_eq [of 64 "n div 4096"]
  by (simp_all add: mult.commute flip: div_mult2_eq)

lemma utf8_decode_code:
  shows "n < 0x80 \<Longrightarrow> utf8_decode (map of_char (utf8_1 n)) = Some n"
    and "n < 0x800 \<Longrightarrow> utf8_decode (map of_char (utf8_2 n)) = Some n"
    and "n < 0x10000 \<Longrightarrow> utf8_decode (map of_char (utf8_3 n)) = Some n"
    and "n < 0x200000 \<Longrightarrow> utf8_decode (map of_char (utf8_4 n)) = Some n"
proof -
  have b: "of_char (byte k) = k" if "k < 256" for k :: nat using that by (simp add: byte_def)
  show "n < 0x80 \<Longrightarrow> utf8_decode (map of_char (utf8_1 n)) = Some n" by (simp add: utf8_1_def b)
  show "utf8_decode (map of_char (utf8_2 n)) = Some n" if "n < 0x800"
  proof -
    have "n div 64 < 32" using that by simp
    then show ?thesis using sextets(1) [of n]
      by (simp add: utf8_2_def and_mods drop_bit_eq_div or_adds b lead_bytes)
  qed
  show "utf8_decode (map of_char (utf8_3 n)) = Some n" if "n < 0x10000"
  proof -
    have "n div 4096 < 16" using that by simp
    moreover have "n div 4096 * 4096 + n div 64 mod 64 * 64 + n mod 64 = n" using sextets [of n] by linarith
    ultimately show ?thesis by (simp add: utf8_3_def and_mods drop_bit_eq_div or_adds b lead_bytes)
  qed
  show "utf8_decode (map of_char (utf8_4 n)) = Some n" if "n < 0x200000"
  proof -
    have "n div 262144 < 8" using that by simp
    moreover have "n div 262144 * 262144 + n div 4096 mod 64 * 4096 + n div 64 mod 64 * 64 + n mod 64 = n" using sextets [of n] by linarith
    ultimately show ?thesis by (simp add: utf8_4_def and_mods drop_bit_eq_div or_adds b lead_bytes)
  qed
qed

lemma surrogate_pair:
  assumes "0xD800 \<le> hi" and "hi < 0xDC00" and "0xDC00 \<le> lo" and "lo < 0xE000"
  shows "put_code hi 0 = ([], hi)"
    "utf8_decode (map of_char (fst (put_code lo hi))) = Some (0x10000 + 0x400 * (hi - 0xD800) + (lo - 0xDC00))"
    "snd (put_code lo hi) = 0"
proof -
  have "hi = 54 * 1024 + (hi - 0xD800)" "hi - 0xD800 < 1024" using assms by auto
  then have h: "hi mod 1024 = hi - 0xD800" by (metis mod_less mod_mult_self3)
  have "lo = 55 * 1024 + (lo - 0xDC00)" "lo - 0xDC00 < 1024" using assms by auto
  then have l: "lo mod 1024 = lo - 0xDC00" by (metis mod_less mod_mult_self3)
  show "put_code hi 0 = ([], hi)" using assms by (simp add: put_code_def)
  have p: "put_code lo hi = (utf8_4 (0x10000 + 0x400 * (hi - 0xD800) + (lo - 0xDC00)), 0)"
    using assms by (simp add: put_code_def and_mods h l push_bit_eq_mult mult.commute)
  then show "snd (put_code lo hi) = 0" by simp
  have "0x10000 + 0x400 * (hi - 0xD800) + (lo - 0xDC00) < 0x200000" using assms by linarith
  then show "utf8_decode (map of_char (fst (put_code lo hi))) = Some (0x10000 + 0x400 * (hi - 0xD800) + (lo - 0xDC00))"
    unfolding p fst_conv by (rule utf8_decode_code(4))
qed

lemma JSON_blob_escaped:
  assumes "tok = 0x22 # map of_char (escaped escape_leaning_toothpicks s) @ [0x22]"
  shows "\<exists>ls. JSON_blob tok = Some ls \<and> ls_len ls = length s \<and> take (ls_len ls) (ls_string ls) = s"
proof -
  let ?e = "escaped escape_leaning_toothpicks s"
  have b: "map byte (map of_char ?e) = ?e" by (simp add: byte_def comp_def)
  from JSON_unescape_ok [OF unescaped_escaped escaped_no_null, of s "[]"] obtain str' where
    "JSON_unescape (?e @ [CHR 0x00]) = Some (str', int (length s))" "take (length s) str' = s" by auto
  with b assms show ?thesis by (simp add: JSON_blob_def arr_get_def in_range_def)
qed

declare unescape_loop.simps [code]

end
