(* ===== verification/Format_Types.thy ===== *)
theory Format_Types
  imports Escapes Keyed_Store
begin

text \<open>
  Output formats (\<open>output_format.h\<close>): cells, nodes, and the symbol table that names the
  nodes of a format. Cells and nodes refer to each other by pointer, and the compiler updates
  them in place, so the model keeps them in stores and a pointer is an index. Index 0 of the
  store of cells is the global \<open>the_null_cell\<close>, index 0 of the store of nodes is
  \<open>the_null_node\<close>.
\<close>

subsection \<open>Cells\<close>

datatype re_type = const_string | item_name | item_value

datatype re_quot = no_quot | quote_char | quote_all

record cell =
  cell_string :: string
  elem_type :: re_type
  elem_quote :: re_quot
  cell_esc :: re_esc
  cell_i :: nat
  cell_next :: "nat option"

text \<open>
  The constructors: constant text, and a field. A cell points to one of the escape tables;
  the model keeps the selector that \<open>get_escapes\<close> is called with.
\<close>

definition text_cell :: "string \<Rightarrow> cell" where
  "text_cell txt =
     \<lparr>cell_string = txt, elem_type = const_string, elem_quote = no_quot, cell_esc = no_esc,
      cell_i = 0, cell_next = None\<rparr>"

definition field_cell :: "re_type \<Rightarrow> re_esc \<Rightarrow> re_quot \<Rightarrow> int \<Rightarrow> cell" where
  "field_cell ty esc qt i =
     \<lparr>cell_string = [], elem_type = ty, elem_quote = qt, cell_esc = esc,
      cell_i = nat (i mod 2 ^ 32), cell_next = None\<rparr>"

text \<open>The list a chain of cells forms. A chain with a cycle has none.\<close>

partial_function (option) cell_chain :: "cell list \<Rightarrow> nat option \<Rightarrow> cell list option" where
  "cell_chain heap p =
     (case p of
        None \<Rightarrow> Some []
      | Some a \<Rightarrow>
          do { c \<leftarrow> arr_get heap (int a);
               cs \<leftarrow> cell_chain heap (cell_next c);
               Some (c # cs) })"

declare cell_chain.simps [code]

subsection \<open>Nodes\<close>

text \<open>
  The class of a node decides which of the fields are in use: \<open>n_cell\<close> for a plain node,
  \<open>n_fmt\<close> and \<open>n_null_fmt\<close> for a record attribute, the last four for a loop. \<open>None\<close>
  is a null pointer.
\<close>

datatype node_class = Plain_node | Rec_attr | Row_loop | Scan_loop | Main_loop

datatype node_type = Top_type | Loop_type | Simple_type

fun type_of_class :: "node_class \<Rightarrow> node_type" where
  "type_of_class Main_loop = Top_type"
| "type_of_class Row_loop = Loop_type"
| "type_of_class Scan_loop = Loop_type"
| "type_of_class Rec_attr = Simple_type"
| "type_of_class Plain_node = Simple_type"

record node =
  n_class :: node_class
  n_name :: string
  unresolved :: string
  unresolved2 :: "string option"
  n_cell :: "nat option"
  n_fmt :: "nat option"
  n_null_fmt :: "nat option"
  l_begin :: "nat option"
  l_core :: "nat option"
  l_sep :: "string option"
  l_end :: "nat option"

definition new_node :: "node_class \<Rightarrow> string \<Rightarrow> string option \<Rightarrow> node" where
  "new_node cl txt txt2 =
     \<lparr>n_class = cl, n_name = [], unresolved = txt, unresolved2 = txt2, n_cell = None, n_fmt = None,
      n_null_fmt = None, l_begin = None, l_core = None, l_sep = None, l_end = None\<rparr>"

definition the_null_cell :: cell where
  "the_null_cell = text_cell []"

definition the_null_node :: node where
  "the_null_node = (new_node Plain_node [] None)\<lparr>n_name := ''the_null_node'', n_cell := Some 0\<rparr>"

subsection \<open>Formats and their symbol tables\<close>

text \<open>A bucket of the symbol table is the list of the nodes it links, the newest first.\<close>

definition SYM_TAB_SZ :: nat where "SYM_TAB_SZ = 16"

record output_format =
  f_name :: string
  is_internal :: bool
  can_override :: bool
  is_raw :: bool
  is_JSON :: bool
  top_node :: "nat option"
  symbol_table :: "nat list list"
  f_nodes :: "node list"

definition new_format :: "string \<Rightarrow> output_format" where
  "new_format nm =
     \<lparr>f_name = nm, is_internal = False, can_override = False, is_raw = False, is_JSON = False,
      top_node = None, symbol_table = replicate SYM_TAB_SZ [], f_nodes = [the_null_node]\<rparr>"

definition symbol_hash :: "string \<Rightarrow> nat" where
  "symbol_hash nm = unat (fold hash_step nm 0 mod 16)"

fun find_symbol :: "string \<Rightarrow> node list \<Rightarrow> nat list \<Rightarrow> nat option" where
  "find_symbol nm ns [] = None"
| "find_symbol nm ns (a # as) =
     (if a < length ns \<and> strcmp nm (n_name (ns ! a)) = 0 then Some a else find_symbol nm ns as)"

definition symbol :: "output_format \<Rightarrow> string \<Rightarrow> nat option" where
  "symbol f nm = find_symbol nm (f_nodes f) (symbol_table f ! symbol_hash nm)"

text \<open>
  The insertion: the new node is allocated in any case, but it enters the table and gets its
  name only if the name is new. The result is the format and the node's address.
\<close>

definition alloc_node :: "output_format \<Rightarrow> node \<Rightarrow> output_format \<times> nat" where
  "alloc_node f nd = (f\<lparr>f_nodes := f_nodes f @ [nd]\<rparr>, length (f_nodes f))"

definition add_symbol :: "string \<Rightarrow> nat \<Rightarrow> output_format \<Rightarrow> output_format" where
  "add_symbol nm a f =
     (if symbol f nm \<noteq> None then f
      else f\<lparr>f_nodes := (f_nodes f)[a := (f_nodes f ! a)\<lparr>n_name := nm\<rparr>],
             symbol_table := (symbol_table f)[symbol_hash nm := a # symbol_table f ! symbol_hash nm]\<rparr>)"

definition define_node :: "string \<Rightarrow> node \<Rightarrow> output_format \<Rightarrow> output_format" where
  "define_node nm nd f = (let (f', a) = alloc_node f nd in add_symbol nm a f')"

end
