(* ===== verification/Format_Compiler.thy ===== *)
theory Format_Compiler
  imports Format_Types
begin

text \<open>
  The compiler of output formats (\<open>format_compiler.cc\<close>): the scanner, the parser of
  cells and nodes, and the compilation of a symbol table. A step of the parser has three
  outcomes: \<open>None\<close> for a failed assertion or a read outside the text, \<open>Inl\<close> for a thrown
  \<open>ParserError\<close>, and \<open>Inr\<close> for a value and the new state.
\<close>

subsection \<open>The parser's state\<close>

text \<open>
  A pointer into a text is the text and an offset. The parser keeps its pointers from one
  text to the next, so two of them can belong to different texts.
\<close>

type_synonym ptr = "string \<times> int"

datatype token =
    tok_no_more | tok_plaintext | tok_ellipses | tok_fieldname | tok_fieldval | tok_fieldnum | tok_node

record parser =
  token_start :: ptr
  token_end :: ptr
  token_next :: ptr
  node_symbol :: string
  old_start :: ptr
  current_token :: token
  old_token :: token
  cells :: "cell list"

definition new_parser :: parser where
  "new_parser =
     \<lparr>token_start = ([], 0), token_end = ([], 0), token_next = ([], 0), node_symbol = [],
      old_start = ([], 0), current_token = tok_no_more, old_token = tok_no_more, cells = [the_null_cell]\<rparr>"

type_synonym 'a step = "parser \<Rightarrow> (string + 'a \<times> parser) option"

definition return :: "'a \<Rightarrow> 'a step" where
  "return x st = Some (Inr (x, st))"

definition throw :: "string \<Rightarrow> 'a step" where
  "throw msg st = Some (Inl msg)"

definition seq :: "'a step \<Rightarrow> ('a \<Rightarrow> 'b step) \<Rightarrow> 'b step" where
  "seq m f st =
     (case m st of
        None \<Rightarrow> None
      | Some (Inl msg) \<Rightarrow> Some (Inl msg)
      | Some (Inr (x, st')) \<Rightarrow> f x st')"

subsection \<open>The scanner\<close>

text \<open>The rest of the text at a pointer; the null byte that ends it is at its last offset.\<close>

definition rest_at :: "ptr \<Rightarrow> string option" where
  "rest_at p = (if 0 \<le> snd p \<and> snd p \<le> int (length (fst p)) then Some (drop (nat (snd p)) (fst p)) else None)"

definition at :: "ptr \<Rightarrow> int \<Rightarrow> ptr" where
  "at p n = (fst p, snd p + n)"

text \<open>
  The length of a plain text: it ends before two dots and before a dollar sign that no
  backslash precedes. \<open>prev\<close> is the character before; a plain text does not start with a
  dollar sign, so the one before the first character is never looked at.
\<close>

fun plain_length :: "char \<Rightarrow> string \<Rightarrow> nat" where
  "plain_length prev [] = 0"
| "plain_length prev (c # cs) =
     (if c = CHR ''.'' \<and> take 1 cs = ''.'' \<or> c = CHR ''$'' \<and> prev \<noteq> CHR 0x5C then 0
      else Suc (plain_length c cs))"

definition field_token :: "string \<Rightarrow> token" where
  "field_token s =
     (if take 6 s = ''$name$'' \<or> take 6 s = ''$name/'' then tok_fieldname
      else if take 6 s = ''$value'' then tok_fieldval
      else if isdigit (s ! 1) then tok_fieldnum
      else tok_node)"

definition quoted :: "string \<Rightarrow> string" where
  "quoted s = CHR 0x27 # s @ [CHR 0x27]"

definition scan_token :: "string \<Rightarrow> token step" where
  "scan_token s st =
     (let p = token_start st; inner = takeWhile (\<lambda>c. c \<noteq> CHR ''$'') (tl s); n = int (length inner) in
      if s = [] then return tok_no_more st
      else if take 3 s = ''...'' then return tok_ellipses (st\<lparr>token_end := at p 2, token_next := at p 3\<rparr>)
      else if hd s = CHR ''$'' then
        (if length inner + 1 < length s then
           let st' = st\<lparr>token_end := at p (n + 1), token_next := at p (n + 2)\<rparr>; t = field_token s
           in return t (if t = tok_node then st'\<lparr>node_symbol := inner\<rparr> else st')
         else throw (''Expected terminating '' @ quoted ''$'' @ '' after '' @ quoted s) st)
      else let k = int (plain_length (CHR 0x00) s)
        in return tok_plaintext (st\<lparr>token_next := at p k, token_end := at p (k - 1)\<rparr>))"

definition scan :: "string option \<Rightarrow> token step" where
  "scan start st =
     (let p = (case start of Some t \<Rightarrow> (t, 0) | None \<Rightarrow> token_next st);
          st1 = st\<lparr>old_token := current_token st, old_start := token_start st, token_start := p\<rparr>
      in do { s \<leftarrow> rest_at p; scan_token s st1 })"

definition next_token :: "string option \<Rightarrow> token step" where
  "next_token start = seq (scan start) (\<lambda>t st. return t (st\<lparr>current_token := t\<rparr>))"

definition rollback :: "parser \<Rightarrow> parser" where
  "rollback st =
     st\<lparr>token_next := token_start st, token_end := at (token_start st) (-1),
        token_start := old_start st, current_token := old_token st\<rparr>"

subsection \<open>Cells\<close>

definition new_cell :: "cell \<Rightarrow> nat step" where
  "new_cell c st = return (length (cells st)) (st\<lparr>cells := cells st @ [c]\<rparr>)"

text \<open>\<open>copy_node_text\<close> asserts that the token is not empty.\<close>

definition copy_node_text :: "string step" where
  "copy_node_text st =
     (let p = token_start st; q = token_next st in
      if fst p = fst q \<and> snd p < snd q
      then do { s \<leftarrow> rest_at p; return (take (nat (snd q - snd p)) s) st }
      else None)"

text \<open>The flags of a field, from the slash to the end of the token.\<close>

fun field_flags :: "string \<Rightarrow> re_esc \<times> re_quot \<Rightarrow> re_esc \<times> re_quot" where
  "field_flags [] f = f"
| "field_flags (c # cs) (e, q) =
     field_flags cs
       (if c = CHR ''q'' then (e, quote_char)
        else if c = CHR ''Q'' then (e, quote_all)
        else if c = CHR ''x'' then (esc_xml, q)
        else if c = CHR ''j'' then (esc_json, q)
        else if c = CHR ''k'' then (esc_xmljson, q)
        else (e, q))"

definition build_cell :: "nat \<Rightarrow> nat step" where
  "build_cell long_bits st =
     (let t = current_token st; p = token_start st in
      if t = tok_plaintext then seq copy_node_text (\<lambda>s. new_cell (text_cell s)) st
      else if t = tok_fieldname \<or> t = tok_fieldval \<or> t = tok_fieldnum then
        do { s \<leftarrow> rest_at p;
             let tok = take (nat (snd (token_end st) - snd p)) s;
             let (e, q) = field_flags (dropWhile (\<lambda>c. c \<noteq> CHR ''/'') tok) (no_esc, no_quot);
             let i = (if t = tok_fieldnum then to_int (strtol long_bits 10 (tl s)) else 0);
             new_cell (field_cell (if t = tok_fieldname then item_name else item_value) e q i) st }
      else None)"

definition expected :: "string \<Rightarrow> 'a step" where
  "expected what st =
     do { s \<leftarrow> rest_at (token_start st);
          throw (''Parser error: '' @ what @ '' expected at '' @ quoted s) st }"

definition is_terminal :: "token \<Rightarrow> bool" where
  "is_terminal t \<longleftrightarrow> t \<in> {tok_plaintext, tok_fieldname, tok_fieldval, tok_fieldnum}"

definition get_cell :: "nat \<Rightarrow> bool \<Rightarrow> string option \<Rightarrow> nat step" where
  "get_cell long_bits required code =
     seq (next_token code) (\<lambda>t.
       if is_terminal t then build_cell long_bits
       else if required then expected ''terminal'' else return 0)"

definition link_cell :: "nat \<Rightarrow> nat \<Rightarrow> parser \<Rightarrow> parser" where
  "link_cell a b st = st\<lparr>cells := (cells st)[a := (cells st ! a)\<lparr>cell_next := Some b\<rparr>]\<rparr>"

partial_function (option) chain_loop :: "nat \<Rightarrow> nat \<Rightarrow> parser \<Rightarrow> (string + parser) option" where
  "chain_loop long_bits c1 st =
     (case get_cell long_bits False None st of
        None \<Rightarrow> None
      | Some (Inl msg) \<Rightarrow> Some (Inl msg)
      | Some (Inr (c2, st')) \<Rightarrow>
          if c2 = 0 then Some (Inr st') else chain_loop long_bits c2 (link_cell c1 c2 st'))"

declare chain_loop.simps [code]

definition get_cell_chain :: "nat \<Rightarrow> bool \<Rightarrow> string option \<Rightarrow> nat step" where
  "get_cell_chain long_bits required code =
     seq (get_cell long_bits required code) (\<lambda>c0 st.
       case chain_loop long_bits c0 st of
         None \<Rightarrow> None
       | Some (Inl msg) \<Rightarrow> Some (Inl msg)
       | Some (Inr st') \<Rightarrow> return c0 (if current_token st' \<noteq> tok_no_more then rollback st' else st'))"

subsection \<open>Strings, ellipses, nodes and the end\<close>

text \<open>\<open>get_string\<close> returns \<open>None\<close> for the global null string.\<close>

definition get_string :: "bool \<Rightarrow> string option step" where
  "get_string required =
     seq (next_token None) (\<lambda>t.
       if t = tok_plaintext then seq copy_node_text (\<lambda>s. return (Some s))
       else if required then expected ''constant string'' else return None)"

definition get_ellipses :: "bool \<Rightarrow> bool step" where
  "get_ellipses required =
     seq (next_token None) (\<lambda>t.
       if t = tok_ellipses then return True
       else if required then expected ''ellipses'' else return False)"

definition get_node :: "output_format \<Rightarrow> bool \<Rightarrow> nat step" where
  "get_node f required =
     seq (next_token None) (\<lambda>t st.
       if t = tok_node then
         (case symbol f (node_symbol st) of
            Some a \<Rightarrow> return a st
          | None \<Rightarrow> throw (''Undefined symbol '' @ quoted (node_symbol st)) st)
       else if required then expected ''node'' st else return 0 st)"

definition the_end :: "bool \<Rightarrow> bool step" where
  "the_end required =
     seq (next_token None) (\<lambda>t.
       if t = tok_no_more then return True
       else if required then throw ''Unexpected text at end of format.'' else return False)"

subsection \<open>Nodes\<close>

definition compile_attr :: "nat \<Rightarrow> node \<Rightarrow> node step" where
  "compile_attr lb nd =
     seq (get_cell_chain lb True (Some (unresolved nd))) (\<lambda>c.
       case unresolved2 nd of
         Some t \<Rightarrow> seq (get_cell_chain lb True (Some t)) (\<lambda>c'.
           return (nd\<lparr>n_fmt := Some c, n_null_fmt := Some c'\<rparr>))
       | None \<Rightarrow> return (nd\<lparr>n_fmt := Some c, n_null_fmt := Some c\<rparr>))"

definition update :: "(parser \<Rightarrow> parser) \<Rightarrow> unit step" where
  "update f st = return () (f st)"

text \<open>The separator, the ellipses and the end of a loop that has a core.\<close>

definition loop_tail :: "nat \<Rightarrow> nat \<Rightarrow> (string \<times> nat) step" where
  "loop_tail lb core =
     (if core = 0 then return ([], 0)
      else seq (get_string False) (\<lambda>sep.
           seq (update (if sep = None then rollback else id)) (\<lambda>_.
           seq (get_ellipses True) (\<lambda>_.
           seq (get_cell_chain lb False None) (\<lambda>e.
             return (case sep of None \<Rightarrow> [] | Some s \<Rightarrow> s, e))))))"

definition compile_loop :: "nat \<Rightarrow> output_format \<Rightarrow> node \<Rightarrow> node step" where
  "compile_loop lb f nd =
     seq (get_cell_chain lb False (Some (unresolved nd))) (\<lambda>b.
     seq (get_node f False) (\<lambda>core.
     seq (loop_tail lb core) (\<lambda>(sep, e).
     seq (the_end True) (\<lambda>_.
       return (nd\<lparr>l_begin := Some b, l_core := Some core, l_sep := Some sep, l_end := Some e\<rparr>)))))"

definition compile_main :: "nat \<Rightarrow> output_format \<Rightarrow> node \<Rightarrow> node step" where
  "compile_main lb f nd =
     seq (get_cell lb False (Some (unresolved nd))) (\<lambda>b.
     seq (update (if b = 0 then rollback else id)) (\<lambda>_.
     seq (get_node f False) (\<lambda>core.
       if core \<noteq> 0 \<and> type_of_class (n_class (f_nodes f ! core)) \<noteq> Loop_type
       then throw ''The core of a Format object must be a Row or Scan object.''
       else seq (get_cell lb False None) (\<lambda>e.
            seq (the_end True) (\<lambda>_.
              return (nd\<lparr>l_begin := Some b, l_core := Some core, l_sep := Some [], l_end := Some e\<rparr>))))))"

definition compile_node :: "nat \<Rightarrow> output_format \<Rightarrow> node \<Rightarrow> node step" where
  "compile_node lb f nd =
     (case n_class nd of
        Plain_node \<Rightarrow> seq (get_cell lb True (Some (unresolved nd))) (\<lambda>c. return (nd\<lparr>n_cell := Some c\<rparr>))
      | Rec_attr \<Rightarrow> compile_attr lb nd
      | Row_loop \<Rightarrow> compile_loop lb f nd
      | Scan_loop \<Rightarrow> compile_loop lb f nd
      | Main_loop \<Rightarrow> compile_main lb f nd)"

subsection \<open>Formats\<close>

text \<open>The addresses of the nodes in the order in which \<open>compile\<close> meets them.\<close>

fun compile_nodes :: "nat \<Rightarrow> nat list \<Rightarrow> output_format \<Rightarrow> output_format step" where
  "compile_nodes lb [] f = return f"
| "compile_nodes lb (a # as) f =
     (\<lambda>st. case compile_node lb f (f_nodes f ! a) st of
        None \<Rightarrow> None
      | Some (Inl msg) \<Rightarrow> Some (Inl (msg @ '' [compiling: '' @ n_name (f_nodes f ! a) @ '']''))
      | Some (Inr (nd, st')) \<Rightarrow> compile_nodes lb as (f\<lparr>f_nodes := (f_nodes f)[a := nd]\<rparr>) st')"

definition compile :: "nat \<Rightarrow> output_format \<Rightarrow> output_format step" where
  "compile lb f = compile_nodes lb (concat (symbol_table f)) f"

subsection \<open>The built-in formats\<close>

definition add_main :: "string \<Rightarrow> output_format \<Rightarrow> output_format" where
  "add_main txt f =
     (let (f', a) = alloc_node f (new_node Main_loop txt None) in add_symbol ''_main'' a (f'\<lparr>top_node := Some a\<rparr>))"

definition NL :: char where "NL = CHR 0x0A"
definition DQ :: char where "DQ = CHR 0x22"

definition json_format :: output_format where
  "json_format =
     define_node ''item''
       (new_node Rec_attr ''$name/Q$:$value/qj$'' (Some ''$name/Q$:null''))
     (define_node ''row'' (new_node Row_loop '' { $item$ , ... }'' None)
     (define_node ''scan'' (new_node Scan_loop (''['' @ NL # '' $row$,'' @ NL # '' ... '' @ NL # '']'') None)
     (add_main (''$scan$'' @ [NL])
     ((new_format ''JSON'')\<lparr>is_internal := True, can_override := True, is_JSON := True\<rparr>))))"

definition xml_format :: output_format where
  "xml_format =
     define_node ''attr''
       (new_node Rec_attr ''<Attr name=$name/Q$ value=$value/Qx$ />''
          (Some (''<Attr name=$name/Q$ isNull='' @ DQ # ''1'' @ DQ # '' />'')))
     (define_node ''row'' (new_node Row_loop ('' <NDBTuple> $attr$ '' @ NL # ''  ...  </NDBTuple>'') None)
     (define_node ''scan''
       (new_node Scan_loop (''<NDBScan>'' @ NL # ''$row$'' @ NL # ''...'' @ NL # ''</NDBScan>'') None)
     (add_main (''$scan$'' @ [NL])
     ((new_format ''XML'')\<lparr>is_internal := True, can_override := True\<rparr>))))"

definition raw_format :: output_format where
  "raw_format = (new_format ''raw'')\<lparr>is_internal := True, is_raw := True\<rparr>"

end
