(* ===== verification/MySQL_Value.thy ===== *)
theory MySQL_Value
  imports C_Library Query_Source "HOL-Library.Signed_Division" "HOL-Library.Word"
begin

text \<open>
  The encoder of column values (\<open>MySQL_value.cc\<close>): from the text of a request to what the
  NDB API stores. Buffers have the size the code allocates, and a write past the end of one
  is \<open>None\<close>. Floating point, the decimal library and the clock are arguments; the width of
  \<open>long\<close> and the byte order macros depend on the platform.
\<close>

unbundle bit_operations_syntax

subsection \<open>Columns and encoded values\<close>

datatype column_type =
    Col_Tinyint | Col_Tinyunsigned | Col_Smallint | Col_Smallunsigned | Col_Mediumint | Col_Mediumunsigned
  | Col_Int | Col_Unsigned | Col_Bigint | Col_Bigunsigned | Col_Float | Col_Double
  | Col_Olddecimal | Col_Olddecimalunsigned | Col_Decimal | Col_Decimalunsigned
  | Col_Char | Col_Varchar | Col_Binary | Col_Varbinary | Col_Datetime | Col_Date | Col_Blob | Col_Text
  | Col_Bit | Col_Longvarchar | Col_Longvarbinary | Col_Time | Col_Year | Col_Timestamp

record ndb_column =
  nc_name :: string
  nc_type :: column_type
  nc_length :: nat
  nc_precision :: int
  nc_scale :: int

datatype mvalue_use =
    err_bad_user_value | err_bad_data_type | err_bad_column | must_use_binary | mvalue_is_good
  | use_char | use_signed | use_unsigned | use_64 | use_unsigned_64 | use_float | use_double
  | use_interpreted | use_null | use_autoinc | use_blob

text \<open>The code compares uses as integers.\<close>

fun use_num :: "mvalue_use \<Rightarrow> nat" where
  "use_num err_bad_user_value = 0" | "use_num err_bad_data_type = 1" | "use_num err_bad_column = 2"
| "use_num must_use_binary = 3" | "use_num mvalue_is_good = 4" | "use_num use_char = 5"
| "use_num use_signed = 6" | "use_num use_unsigned = 7" | "use_num use_64 = 8" | "use_num use_unsigned_64 = 9"
| "use_num use_float = 10" | "use_num use_double = 11" | "use_num use_interpreted = 12"
| "use_num use_null = 13" | "use_num use_autoinc = 14" | "use_num use_blob = 15"

lemma use_num_inj: "use_num a = use_num b \<Longrightarrow> a = b"
  by (cases a; cases b; simp)

instantiation mvalue_use :: linorder
begin

definition less_eq_mvalue_use :: "mvalue_use \<Rightarrow> mvalue_use \<Rightarrow> bool" where
  "less_eq_mvalue_use a b \<longleftrightarrow> use_num a \<le> use_num b"

definition less_mvalue_use :: "mvalue_use \<Rightarrow> mvalue_use \<Rightarrow> bool" where
  "less_mvalue_use a b \<longleftrightarrow> use_num a < use_num b"

instance
  by standard (auto simp: less_eq_mvalue_use_def less_mvalue_use_def intro: use_num_inj)

end

datatype mvalue_interpreted = not_interpreted | is_increment | is_decrement

text \<open>The union: which member was written last, and its value; three bytes are \<open>U_24\<close>.\<close>

datatype 'f uval =
    U_undef | U_char string | U_signed int | U_unsigned int | U_time int | U_64 int | U_unsigned_64 int
  | U_float 'f | U_double 'f | U_8 int | U_unsigned_8 int | U_16 int | U_unsigned_16 int | U_24 int

record 'f mvalue =
  mv_column :: "ndb_column option"
  mv_u :: "'f uval"
  mv_len :: nat
  binary_info :: "len_string option"
  col_len :: nat
  use_value :: mvalue_use
  interpreted :: mvalue_interpreted
  over :: bool

definition zero_mvalue :: "'f mvalue" where
  "zero_mvalue =
     \<lparr>mv_column = None, mv_u = U_undef, mv_len = 0, binary_info = None, col_len = 0,
      use_value = err_bad_user_value, interpreted = not_interpreted, over = False\<rparr>"

definition mval_is_usable :: "'f mvalue \<Rightarrow> bool option" where
  "mval_is_usable m =
     (if use_value m > mvalue_is_good then Some True
      else if use_value m = err_bad_user_value \<or> use_value m = err_bad_column \<or> use_value m = err_bad_data_type
        then Some False
      else None)"

subsection \<open>Platform and libraries\<close>

record 'f platform =
  long_bits :: nat
  i386 :: bool
  clock :: int
  read_float :: "string \<Rightarrow> 'f"
  read_decimal :: "string \<Rightarrow> int \<Rightarrow> int \<Rightarrow> string"

definition flip64 :: "64 word \<Rightarrow> 64 word" where
  "flip64 i = drop_bit 32 (i AND 0xffffffff00000000) OR push_bit 32 (i AND 0x00000000ffffffff)"

definition ndbapi_bit_flip :: "'f platform \<Rightarrow> int \<Rightarrow> int" where
  "ndbapi_bit_flip pf x = (if i386 pf then x else uint (flip64 (word_of_int x)))"

text \<open>\<open>ap_cpystrn\<close>, and a buffer of a given size that is filled from its start.\<close>

definition cpystrn :: "string \<Rightarrow> nat \<Rightarrow> string" where
  "cpystrn src n = take (n - 1) (c_str src) @ [CHR 0x00]"

definition in_buffer :: "nat \<Rightarrow> string \<Rightarrow> string option" where
  "in_buffer n bytes = (if length bytes \<le> n then Some bytes else None)"

definition store24 :: "int \<Rightarrow> 'f uval" where
  "store24 v = U_24 (v mod 2 ^ 24)"

subsection \<open>Strings\<close>

definition set_null :: "'f mvalue \<Rightarrow> 'f mvalue" where
  "set_null m = m\<lparr>use_value := use_null, mv_u := U_64 0\<rparr>"

definition value_varchar :: "'f mvalue \<Rightarrow> ndb_column \<Rightarrow> string \<Rightarrow> 'f mvalue option" where
  "value_varchar m col val =
     (let len0 = length val mod 256;
          len = (if len0 > nc_length col then nc_length col mod 256 else len0)
      in do { b \<leftarrow> in_buffer (len + 2) (char_of len # cpystrn val (len + 1));
              Some (m\<lparr>mv_len := len0, mv_u := U_char b, use_value := use_char, col_len := nc_length col + 1\<rparr>) })"

definition value_longvarchar :: "'f mvalue \<Rightarrow> ndb_column \<Rightarrow> string \<Rightarrow> 'f mvalue option" where
  "value_longvarchar m col val =
     (let len0 = length val mod 65536;
          len = (if len0 > nc_length col then nc_length col mod 65536 else len0)
      in do { b \<leftarrow> in_buffer (len + 3) (char_of (len AND 255) # char_of (drop_bit 8 (len AND 65280)) # cpystrn val (len + 1));
              Some (m\<lparr>mv_len := len0, mv_u := U_char b, use_value := use_char, col_len := nc_length col + 2\<rparr>) })"

text \<open>\<open>strcpy\<close> copies the whole text before the padding overwrites what follows \<open>l_len\<close>.\<close>

definition value_char :: "'f mvalue \<Rightarrow> ndb_column \<Rightarrow> string \<Rightarrow> 'f mvalue option" where
  "value_char m col val =
     (let l_len = (if length val > nc_length col then nc_length col else length val)
      in do { b \<leftarrow> in_buffer (nc_length col + 1) (val @ [CHR 0x00]);
              Some (m\<lparr>mv_len := length val,
                      mv_u := U_char (take l_len b @ replicate (nc_length col - l_len) (CHR '' '') @ [CHR 0x00]),
                      use_value := use_char, col_len := nc_length col\<rparr>) })"

subsection \<open>Dates\<close>

text \<open>The sign and the digits of the first 62 characters after it.\<close>

definition date_digits :: "string \<Rightarrow> string" where
  "date_digits val =
     (case val of
        c # cs \<Rightarrow> if c = CHR ''-'' \<or> c = CHR ''+'' then c # filter isdigit (take 62 cs)
                  else filter isdigit (take 62 val)
      | [] \<Rightarrow> [])"

definition pack_date :: "int \<Rightarrow> int" where
  "pack_date yymmdd =
     (let year = (yymmdd sdiv 10000 smod 10000) mod 2 ^ 32;
          month = (yymmdd sdiv 100 smod 100) mod 2 ^ 32;
          day = (yymmdd smod 100) mod 2 ^ 32
      in to_int (((push_bit 9 year mod 2 ^ 32) OR (push_bit 5 month mod 2 ^ 32)) OR day))"

definition value_date :: "'f platform \<Rightarrow> 'f mvalue \<Rightarrow> column_type \<Rightarrow> string \<Rightarrow> 'f mvalue option" where
  "value_date pf m t val =
     (let buf = date_digits val in
      if t = Col_Datetime then
        Some (m\<lparr>mv_u := U_unsigned_64 (strtoul 64 10 buf), use_value := use_unsigned_64\<rparr>)
      else if t = Col_Time then
        Some (m\<lparr>use_value := use_signed, mv_u := store24 (to_int (strtol (long_bits pf) 10 buf))\<rparr>)
      else if t = Col_Date then
        Some (m\<lparr>use_value := use_signed, mv_u := store24 (pack_date (to_int (strtol (long_bits pf) 10 buf)))\<rparr>)
      else None)"

subsection \<open>Numbers\<close>

definition clamp :: "int \<Rightarrow> int \<Rightarrow> int \<Rightarrow> int \<times> bool" where
  "clamp lo hi v = (if v < lo then (lo, True) else if v > hi then (hi, True) else (v, False))"

definition value_small :: "'f mvalue \<Rightarrow> mvalue_use \<Rightarrow> int \<Rightarrow> int \<Rightarrow> (int \<Rightarrow> 'f uval) \<Rightarrow> int \<Rightarrow> 'f mvalue" where
  "value_small m us lo hi con aux =
     (let (v, ovf) = clamp lo hi aux
      in (if ovf then m\<lparr>over := True\<rparr> else m)\<lparr>use_value := us, mv_u := con v\<rparr>)"

definition value_at :: "'f platform \<Rightarrow> 'f mvalue \<Rightarrow> column_type \<Rightarrow> string \<Rightarrow> 'f mvalue option" where
  "value_at pf m t val =
     (if strcmp val ''@null'' = 0 then Some (set_null m)
      else if strcmp val ''@++'' = 0 then Some (m\<lparr>use_value := use_interpreted, interpreted := is_increment\<rparr>)
      else if strcmp val ''@--'' = 0 then Some (m\<lparr>use_value := use_interpreted, interpreted := is_decrement\<rparr>)
      else if strcmp val ''@time'' = 0 then Some (m\<lparr>use_value := use_unsigned, mv_u := U_time (clock pf)\<rparr>)
      else if strcmp val ''@autoinc'' = 0
        then Some (m\<lparr>use_value := use_autoinc, mv_len := (if t = Col_Bigint \<or> t = Col_Bigunsigned then 8 else 4)\<rparr>)
      else None)"

text \<open>A decimal is packed into a buffer of 32 bytes.\<close>

definition value_decimal :: "'f platform \<Rightarrow> 'f mvalue \<Rightarrow> ndb_column \<Rightarrow> string \<Rightarrow> 'f mvalue option" where
  "value_decimal pf m col val =
     do { b \<leftarrow> in_buffer 32 (read_decimal pf val (nc_precision col) (nc_scale col));
          Some (m\<lparr>use_value := use_char, col_len := 0, mv_u := U_char b\<rparr>) }"

definition value_number :: "'f platform \<Rightarrow> 'f mvalue \<Rightarrow> ndb_column \<Rightarrow> string \<Rightarrow> 'f mvalue option" where
  "value_number pf m col val =
     (let w = long_bits pf; aux_int = to_int (strtol w 0 val) in
      case nc_type col of
        Col_Int \<Rightarrow> Some (m\<lparr>use_value := use_signed, mv_u := U_signed (atoi w val)\<rparr>)
      | Col_Unsigned \<Rightarrow> Some (m\<lparr>use_value := use_unsigned, mv_u := U_unsigned (strtoul w 0 val mod 2 ^ 32)\<rparr>)
      | Col_Timestamp \<Rightarrow> Some (m\<lparr>use_value := use_unsigned, mv_u := U_unsigned (strtoul w 0 val mod 2 ^ 32)\<rparr>)
      | Col_Float \<Rightarrow> Some (m\<lparr>use_value := use_float, mv_u := U_float (read_float pf val)\<rparr>)
      | Col_Double \<Rightarrow> Some (m\<lparr>use_value := use_double, mv_u := U_double (read_float pf val)\<rparr>)
      | Col_Bigint \<Rightarrow> Some (m\<lparr>use_value := use_64, mv_u := U_64 (strtol 64 0 val)\<rparr>)
      | Col_Bigunsigned \<Rightarrow> Some (m\<lparr>use_value := use_unsigned_64, mv_u := U_unsigned_64 (strtoul 64 0 val)\<rparr>)
      | Col_Bit \<Rightarrow> Some (m\<lparr>use_value := use_unsigned_64, mv_u := U_unsigned_64 (ndbapi_bit_flip pf (strtoul 64 0 val))\<rparr>)
      | Col_Tinyint \<Rightarrow> Some (value_small m use_signed (-128) 127 U_8 aux_int)
      | Col_Tinyunsigned \<Rightarrow> Some (value_small m use_unsigned 0 255 U_unsigned_8 aux_int)
      | Col_Smallint \<Rightarrow> Some (value_small m use_signed (-32768) 32767 U_16 aux_int)
      | Col_Smallunsigned \<Rightarrow> Some (value_small m use_unsigned 0 65535 U_unsigned_16 aux_int)
      | Col_Mediumint \<Rightarrow> Some (value_small m use_signed (-8388608) 8388607 store24 aux_int)
      | Col_Mediumunsigned \<Rightarrow> Some (value_small m use_unsigned 0 16777215 store24 aux_int)
      | Col_Year \<Rightarrow> Some (m\<lparr>use_value := use_unsigned,
            mv_u := U_unsigned_8 (to_int (strtol w 0 val - 1900) mod 256)\<rparr>)
      | Col_Decimal \<Rightarrow> value_decimal pf m col val
      | Col_Decimalunsigned \<Rightarrow> value_decimal pf m col val
      | Col_Text \<Rightarrow> Some (m\<lparr>use_value := must_use_binary\<rparr>)
      | Col_Blob \<Rightarrow> Some (m\<lparr>use_value := must_use_binary\<rparr>)
      | Col_Longvarbinary \<Rightarrow> Some (m\<lparr>use_value := must_use_binary\<rparr>)
      | Col_Varbinary \<Rightarrow> Some (m\<lparr>use_value := must_use_binary\<rparr>)
      | Col_Binary \<Rightarrow> Some (m\<lparr>use_value := must_use_binary\<rparr>)
      | _ \<Rightarrow> Some (m\<lparr>use_value := err_bad_data_type\<rparr>))"

text \<open>The whole routine; \<open>col\<close> and \<open>val\<close> may be null.\<close>

definition MySQL_value :: "'f platform \<Rightarrow> 'f mvalue \<Rightarrow> ndb_column option \<Rightarrow> string option \<Rightarrow> 'f mvalue option" where
  "MySQL_value pf m0 col0 val0 =
     (case col0 of
        None \<Rightarrow> Some (m0\<lparr>use_value := err_bad_column\<rparr>)
      | Some col \<Rightarrow>
          let t = nc_type col; m = m0\<lparr>mv_column := Some col\<rparr> in
          if t = Col_Varchar \<or> t = Col_Longvarchar \<or> t = Col_Char then
            (case val0 of
               None \<Rightarrow> Some (set_null m)
             | Some val \<Rightarrow> if t = Col_Varchar then value_varchar m col val
                           else if t = Col_Longvarchar then value_longvarchar m col val
                           else value_char m col val)
          else if t = Col_Time \<or> t = Col_Date \<or> t = Col_Datetime then
            (case val0 of None \<Rightarrow> Some (set_null m) | Some val \<Rightarrow> value_date pf m t val)
          else
            (case val0 of
               None \<Rightarrow> Some (m\<lparr>use_value := err_bad_user_value\<rparr>)
             | Some val \<Rightarrow>
                 (case (if take 1 val = ''@'' then value_at pf m t val else None) of
                    Some m' \<Rightarrow> Some m'
                  | None \<Rightarrow> value_number pf m col val)))"

subsection \<open>Binary values\<close>

definition value_of_binary :: "'f mvalue \<Rightarrow> ndb_column \<Rightarrow> len_string \<Rightarrow> 'f mvalue option" where
  "value_of_binary m0 col v =
     (let l = (if ls_len v < nc_length col then ls_len v else nc_length col);
          m = m0\<lparr>col_len := nc_length col, mv_len := l\<rparr>;
          data = take l (ls_string v)
      in case nc_type col of
        Col_Text \<Rightarrow> Some (m\<lparr>use_value := use_blob, binary_info := Some v\<rparr>)
      | Col_Blob \<Rightarrow> Some (m\<lparr>use_value := use_blob, binary_info := Some v\<rparr>)
      | Col_Binary \<Rightarrow>
          do { b \<leftarrow> in_buffer (nc_length col) data;
               Some (m\<lparr>use_value := use_char, mv_u := U_char (b @ replicate (nc_length col - l) (CHR 0x00))\<rparr>) }
      | Col_Varbinary \<Rightarrow>
          do { b \<leftarrow> in_buffer (l + 1) (char_of (l mod 256) # data);
               Some (m\<lparr>use_value := use_char, col_len := nc_length col + 1, mv_u := U_char b\<rparr>) }
      | Col_Longvarbinary \<Rightarrow>
          (let s_len = l mod 65536 in
           do { b \<leftarrow> in_buffer (s_len + 2)
                  (char_of (s_len AND 255) # char_of (drop_bit 8 (s_len AND 65280)) # cpystrn (ls_string v) (s_len + 1));
                Some (m\<lparr>use_value := use_char, col_len := nc_length col + 2, mv_u := U_char b\<rparr>) })
      | _ \<Rightarrow> Some (m\<lparr>use_value := err_bad_data_type\<rparr>))"

end
