(* ===== verification/MySQL_Result.thy ===== *)
theory MySQL_Result
  imports MySQL_Value Escapes
begin

text \<open>
  The decoder of column values (\<open>MySQL_result.cc\<close>): from what the NDB API delivers to the
  text of a response. The API's typed readings of a cell are a record; the printing of
  floating-point and decimal numbers is an argument.
\<close>

unbundle bit_operations_syntax

subsection \<open>Cells\<close>

record rec_attr =
  ra_col :: ndb_column
  ra_int :: int
  ra_bytes :: string

record printers =
  print_G :: "string \<Rightarrow> string"
  decimal_text :: "string \<Rightarrow> int \<Rightarrow> int \<Rightarrow> string"
  decimal_string_size :: "string \<Rightarrow> int \<Rightarrow> int \<Rightarrow> int"

record mysql_time =
  tm_year :: int
  tm_month :: int
  tm_day :: int
  tm_hour :: int
  tm_minute :: int
  tm_second :: int
  tm_neg :: bool

definition zero_time :: mysql_time where
  "zero_time = \<lparr>tm_year = 0, tm_month = 0, tm_day = 0, tm_hour = 0, tm_minute = 0, tm_second = 0, tm_neg = False\<rparr>"

subsection \<open>Dates and times\<close>

definition factor_HHMMSS :: "int \<Rightarrow> mysql_time \<Rightarrow> mysql_time" where
  "factor_HHMMSS int_time tm =
     (let tm1 = (if int_time < 0 then tm\<lparr>tm_neg := True\<rparr> else tm);
          t = (if int_time < 0 then - int_time else int_time)
      in tm1\<lparr>tm_hour := t sdiv 10000, tm_minute := t sdiv 100 smod 100, tm_second := t smod 100\<rparr>)"

definition factor_YYYYMMDD :: "int \<Rightarrow> mysql_time \<Rightarrow> mysql_time" where
  "factor_YYYYMMDD int_date tm =
     tm\<lparr>tm_year := int_date sdiv 10000 smod 10000, tm_month := int_date sdiv 100 smod 100,
        tm_day := int_date smod 100\<rparr>"

definition field_to_tm :: "rec_attr \<Rightarrow> mysql_time option" where
  "field_to_tm r =
     (let t = nc_type (ra_col r) in
      if t = Col_Date then
        Some (zero_time\<lparr>tm_day := ra_int r AND 31, tm_month := drop_bit 5 (ra_int r) AND 15,
                        tm_year := drop_bit 9 (ra_int r)\<rparr>)
      else
        do { (int_date, int_time) \<leftarrow>
               (if t = Col_Datetime then
                  let d = to_int (ra_int r div 1000000)
                  in Some (d, to_int ((ra_int r - d * 1000000) mod 2 ^ 64))
                else if t = Col_Time then Some (-1, ra_int r)
                else None);
             let tm1 = (if int_time \<noteq> -99 then factor_HHMMSS int_time zero_time else zero_time);
             Some (if int_date \<noteq> -1 then factor_YYYYMMDD int_date tm1 else tm1) })"

definition date_text :: "mysql_time \<Rightarrow> string" where
  "date_text tm = fmt_0d 4 (tm_year tm) @ ''-'' @ fmt_0d 2 (tm_month tm) @ ''-'' @ fmt_0d 2 (tm_day tm)"

definition time_text :: "mysql_time \<Rightarrow> string" where
  "time_text tm = fmt_0d 2 (tm_hour tm) @ '':'' @ fmt_0d 2 (tm_minute tm) @ '':'' @ fmt_0d 2 (tm_second tm)"

subsection \<open>Strings\<close>

datatype ndb_string_packing = char_fixed | char_var | char_longvar

definition unpack_string :: "ndb_string_packing \<Rightarrow> string \<Rightarrow> (nat \<times> string) option" where
  "unpack_string p ref =
     (case p of
        char_fixed \<Rightarrow> Some (length ref, ref)
      | char_var \<Rightarrow> do { b \<leftarrow> arr_get ref 0; Some (of_char b, drop 1 ref) }
      | char_longvar \<Rightarrow> do { b0 \<leftarrow> arr_get ref 0; b1 \<leftarrow> arr_get ref 1; Some (of_char b0 + 256 * of_char b1, drop 2 ref) })"

fun trim_nulls :: "string \<Rightarrow> nat \<Rightarrow> nat option" where
  "trim_nulls ref 0 = Some 0"
| "trim_nulls ref (Suc n) =
     do { c \<leftarrow> arr_get ref (int n); if c = CHR 0x00 then trim_nulls ref n else Some (Suc n) }"

definition out_string ::
  "(int \<Rightarrow> bool) \<Rightarrow> result_buffer \<Rightarrow> string \<Rightarrow> ndb_string_packing \<Rightarrow> escape_table option \<Rightarrow> result_buffer option" where
  "out_string grant rb bytes p escapes =
     do { (sz0, ref) \<leftarrow> unpack_string p bytes;
          sz \<leftarrow> trim_nulls ref sz0;
          (case escapes of
             Some t \<Rightarrow> escape_string grant (take sz ref) rb t
           | None \<Rightarrow> out_len grant sz ref rb) }"

text \<open>The output of a decimal ignores the result of \<open>prepare\<close>.\<close>

definition put_decimal :: "(int \<Rightarrow> bool) \<Rightarrow> int \<Rightarrow> string \<Rightarrow> result_buffer \<Rightarrow> result_buffer option" where
  "put_decimal grant to_len digits rb = do { (rb1, ok) \<leftarrow> prepare grant to_len rb; put_chars digits rb1 }"

definition out_decimal :: "(int \<Rightarrow> bool) \<Rightarrow> printers \<Rightarrow> rec_attr \<Rightarrow> result_buffer \<Rightarrow> result_buffer option" where
  "out_decimal grant pr r rb =
     (let prec = nc_precision (ra_col r); scale = nc_scale (ra_col r) in
      put_decimal grant (decimal_string_size pr (ra_bytes r) prec scale) (decimal_text pr (ra_bytes r) prec scale) rb)"

subsection \<open>The result\<close>

text \<open>
  \<open>contents\<close> is the buffer of a blob column; whether the value is null comes from the
  record attribute or from the blob handle.
\<close>

record result =
  res_rec :: rec_attr
  res_null :: bool
  contents :: result_buffer

definition buffer_text :: "result_buffer \<Rightarrow> string option" where
  "buffer_text rb =
     do { b \<leftarrow> buff rb;
          if 0 \<le> rb_sz rb \<and> rb_sz rb \<le> int (length b)
          then those (take (nat (rb_sz rb)) b) else None }"

definition number_text :: "printers \<Rightarrow> rec_attr \<Rightarrow> string option" where
  "number_text pr r =
     (case nc_type (ra_col r) of
        Col_Int \<Rightarrow> Some (fmt_d (ra_int r))
      | Col_Unsigned \<Rightarrow> Some (fmt_d (ra_int r))
      | Col_Timestamp \<Rightarrow> Some (fmt_d (ra_int r))
      | Col_Bigunsigned \<Rightarrow> Some (fmt_d (ra_int r))
      | Col_Bigint \<Rightarrow> Some (fmt_d (ra_int r))
      | Col_Smallunsigned \<Rightarrow> Some (fmt_d (ra_int r mod 65536))
      | Col_Tinyunsigned \<Rightarrow> Some (fmt_d (ra_int r))
      | Col_Smallint \<Rightarrow> Some (fmt_d (ra_int r))
      | Col_Tinyint \<Rightarrow> Some (fmt_d (ra_int r))
      | Col_Mediumint \<Rightarrow> Some (fmt_d (ra_int r))
      | Col_Mediumunsigned \<Rightarrow> Some (fmt_d (ra_int r))
      | Col_Year \<Rightarrow> Some (fmt_0d 4 (1900 + ra_int r))
      | Col_Float \<Rightarrow> Some (print_G pr (ra_bytes r))
      | Col_Double \<Rightarrow> Some (print_G pr (ra_bytes r))
      | _ \<Rightarrow> None)"

definition result_out ::
  "'f platform \<Rightarrow> printers \<Rightarrow> (int \<Rightarrow> bool) \<Rightarrow> result \<Rightarrow> result_buffer \<Rightarrow> escape_table option \<Rightarrow> result_buffer option" where
  "result_out pf pr grant res rb escapes =
     (let r = res_rec res; t = nc_type (ra_col r) in
      case t of
        Col_Varchar \<Rightarrow> out_string grant rb (ra_bytes r) char_var escapes
      | Col_Varbinary \<Rightarrow> out_string grant rb (ra_bytes r) char_var escapes
      | Col_Char \<Rightarrow> out_string grant rb (ra_bytes r) char_fixed escapes
      | Col_Binary \<Rightarrow> out_string grant rb (ra_bytes r) char_fixed escapes
      | Col_Longvarchar \<Rightarrow> out_string grant rb (ra_bytes r) char_longvar escapes
      | Col_Longvarbinary \<Rightarrow> out_string grant rb (ra_bytes r) char_longvar escapes
      | Col_Date \<Rightarrow> do { tm \<leftarrow> field_to_tm r; out_fmt grant (date_text tm) rb }
      | Col_Time \<Rightarrow> do { tm \<leftarrow> field_to_tm r; out_fmt grant ((if tm_neg tm then ''-'' else []) @ time_text tm) rb }
      | Col_Datetime \<Rightarrow> do { tm \<leftarrow> field_to_tm r; out_fmt grant (date_text tm @ '' '' @ time_text tm) rb }
      | Col_Bit \<Rightarrow> out_fmt grant (fmt_d (ndbapi_bit_flip pf (ra_int r))) rb
      | Col_Decimal \<Rightarrow> out_decimal grant pr r rb
      | Col_Decimalunsigned \<Rightarrow> out_decimal grant pr r rb
      | Col_Text \<Rightarrow>
          do { s \<leftarrow> buffer_text (contents res);
               (case escapes of Some e \<Rightarrow> escape_string grant s rb e | None \<Rightarrow> out_len grant (length s) s rb) }
      | Col_Blob \<Rightarrow>
          (case escapes of
             Some e \<Rightarrow> out_fmt grant ''++ CANNOT ESCAPE BLOB ++'' rb
           | None \<Rightarrow> do { s \<leftarrow> buffer_text (contents res); out_len grant (length s) s rb })
      | Col_Olddecimal \<Rightarrow> Some rb
      | Col_Olddecimalunsigned \<Rightarrow> Some rb
      | _ \<Rightarrow> do { s \<leftarrow> number_text pr r; out_fmt grant s rb })"

end
