(* ===== verification/MySQL_Correct.thy ===== *)
theory MySQL_Correct
  imports MySQL_Result
begin

text \<open>
  The encoder and the decoder of column values belong together: what \<open>MySQL::value\<close> stores
  is read back by \<open>MySQL::result\<close> as the same text. \<open>stored_int\<close> is what the typed readings
  of the NDB API return for a cell that holds an encoded value.
\<close>

subsection \<open>Digits\<close>

lemma read_digits_shift: "\<forall>c\<in>set xs. isdigit c \<Longrightarrow> read_digits 10 acc xs = acc * 10 ^ length xs + read_digits 10 0 xs"
proof (induction xs arbitrary: acc rule: rev_induct)
  case (snoc x xs)
  then have d: "\<forall>c\<in>set xs. isdigit c" "digit_val x < 10" by (auto simp: isdigit_val)
  have v: "\<forall>c\<in>set xs. digit_val c < 10" using d(1) isdigit_val by blast
  have "read_digits 10 a (xs @ [x]) = read_digits 10 a xs * 10 + digit_val x" for a
    using read_digits_append [OF v] d(2) by simp
  with snoc.IH [OF d(1), of acc] show ?case by (simp add: algebra_simps)
qed simp

lemma read_number_digits:
  assumes "\<forall>c\<in>set ds. isdigit c" and "ds \<noteq> []"
  shows "read_number 10 ds = (False, read_digits 10 0 ds)"
proof -
  obtain c cs where c: "ds = c # cs" "isdigit c" using assms by (cases ds) auto
  then have "read_sign (dropWhile isspace ds) = (False, ds)"
    using isdigit_not_special [of c] by (simp add: read_sign_def)
  then show ?thesis by (simp add: read_number_def read_base_def)
qed

lemma read_number_minus_digits:
  assumes "\<forall>c\<in>set ds. isdigit c" and "ds \<noteq> []"
  shows "read_number 10 (CHR ''-'' # ds) = (True, read_digits 10 0 ds)"
  using assms by (simp add: read_number_def read_sign_def isspace_def read_base_def)

lemma length_dec: "n < 10 ^ w \<Longrightarrow> 0 < w \<Longrightarrow> length (dec n) \<le> w"
proof (induction n arbitrary: w rule: dec.induct)
  case (1 n)
  show ?case
  proof (cases "n < 10")
    case True
    with "1.prems" show ?thesis by (subst dec.simps) simp
  next
    case False
    with "1.prems" obtain v where v: "w = Suc v" "0 < v" by (cases w; cases "w - 1") auto
    with "1.prems" have "n div 10 < 10 ^ v" by (simp add: less_mult_imp_div_less)
    from "1.IH" [OF False this v(2)] False v show ?thesis by (subst dec.simps) simp
  qed
qed

definition digits :: "nat \<Rightarrow> nat \<Rightarrow> string" where
  "digits w n = pad0 w (dec n)"

lemma fmt_0d_nat: "fmt_0d w (int n) = digits w n"
  by (simp add: fmt_0d_def digits_def)

lemma digits_isdigit: "\<forall>c\<in>set (digits w n). isdigit c"
  using dec_isdigit [of n] by (auto simp: digits_def pad0_def isdigit_def)

lemma digits_nonempty [simp]: "digits w n \<noteq> []"
  by (simp add: digits_def pad0_def)

lemma length_digits: "n < 10 ^ w \<Longrightarrow> 0 < w \<Longrightarrow> length (digits w n) = w"
  using length_dec [of n w] by (simp add: digits_def pad0_def)

lemma read_digits_zeros: "read_digits 10 0 (replicate k (CHR ''0'') @ xs) = read_digits 10 0 xs"
  by (induction k) (simp_all add: digit_val_def)

lemma read_digits_digits: "read_digits 10 0 (digits w n) = n"
  by (simp add: digits_def pad0_def read_digits_zeros read_digits_dec)

lemma read_digits_digits_acc:
  assumes "n < 10 ^ w" and "0 < w"
  shows "read_digits 10 acc (digits w n @ xs) = read_digits 10 (acc * 10 ^ w + n) xs"
proof -
  have "\<forall>c\<in>set (digits w n). digit_val c < 10" using digits_isdigit isdigit_val by blast
  then have "read_digits 10 acc (digits w n @ xs) = read_digits 10 (read_digits 10 acc (digits w n)) xs"
    by (rule read_digits_append)
  moreover have "read_digits 10 acc (digits w n) = acc * 10 ^ w + n"
    using read_digits_shift [OF digits_isdigit, of acc w n] length_digits [OF assms] by (simp add: read_digits_digits)
  ultimately show ?thesis by simp
qed

subsection \<open>What the database returns\<close>

definition stored_int :: "column_type \<Rightarrow> 'f uval \<Rightarrow> int" where
  "stored_int t u =
     (case u of
        U_signed v \<Rightarrow> v | U_unsigned v \<Rightarrow> v | U_time v \<Rightarrow> v mod 2 ^ 32 | U_64 v \<Rightarrow> v | U_unsigned_64 v \<Rightarrow> v
      | U_8 v \<Rightarrow> v | U_unsigned_8 v \<Rightarrow> v | U_16 v \<Rightarrow> v | U_unsigned_16 v \<Rightarrow> v
      | U_24 b \<Rightarrow> if (t = Col_Mediumint \<or> t = Col_Time) \<and> b \<ge> 2 ^ 23 then b - 2 ^ 24 else b
      | _ \<Rightarrow> 0)"

definition stored_bytes :: "'f uval \<Rightarrow> string" where
  "stored_bytes u = (case u of U_char b \<Rightarrow> b | _ \<Rightarrow> [])"

definition read_back :: "'f mvalue \<Rightarrow> ndb_column \<Rightarrow> string \<Rightarrow> result" where
  "read_back m col bytes =
     \<lparr>res_rec = \<lparr>ra_col = col, ra_int = stored_int (nc_type col) (mv_u m), ra_bytes = bytes\<rparr>,
      res_null = False, contents = no_buffer 0\<rparr>"

definition platform_ok :: "'f platform \<Rightarrow> bool" where
  "platform_ok pf \<longleftrightarrow> long_bits pf = 32 \<or> long_bits pf = 64"

subsection \<open>Integers\<close>

definition int_range :: "column_type \<Rightarrow> (int \<times> int) option" where
  "int_range t =
     (case t of
        Col_Tinyint \<Rightarrow> Some (-128, 127) | Col_Tinyunsigned \<Rightarrow> Some (0, 255)
      | Col_Smallint \<Rightarrow> Some (-32768, 32767) | Col_Smallunsigned \<Rightarrow> Some (0, 65535)
      | Col_Mediumint \<Rightarrow> Some (-8388608, 8388607) | Col_Mediumunsigned \<Rightarrow> Some (0, 16777215)
      | _ \<Rightarrow> None)"

lemma fmt_d_nonempty: "fmt_d z \<noteq> []"
  by (simp add: fmt_d_def)

lemma fmt_d_no_at: "take 1 (fmt_d z) \<noteq> ''@''"
proof -
  have "isdigit (hd (dec n))" for n using dec_isdigit [of n] hd_in_set [OF dec_nonempty] by blast
  moreover have "\<not> isdigit (CHR ''@'')" by (simp add: isdigit_def)
  ultimately have "hd (dec n) \<noteq> CHR ''@''" for n by metis
  then show ?thesis by (cases "dec (nat z)") (auto simp: fmt_d_def take_Suc, metis list.sel(1))
qed

lemma long_int:
  assumes "platform_ok pf" and "- (2 ^ 31) \<le> z" and "z < 2 ^ 31"
  shows "to_int (strtol (long_bits pf) 0 (fmt_d z)) = z" "atoi (long_bits pf) (fmt_d z) = z"
proof -
  have r: "- (2 ^ (long_bits pf - 1)) \<le> z" "z < 2 ^ (long_bits pf - 1)"
    using assms by (auto simp: platform_ok_def)
  then show "to_int (strtol (long_bits pf) 0 (fmt_d z)) = z" "atoi (long_bits pf) (fmt_d z) = z"
    using assms(2,3) by (simp_all add: strtol_fmt_d atoi_def to_int_id)
qed

lemma MySQL_value_number:
  assumes "take 1 val \<noteq> ''@''"
    and "nc_type col \<notin> {Col_Varchar, Col_Longvarchar, Col_Char, Col_Time, Col_Date, Col_Datetime}"
  shows "MySQL_value pf m (Some col) (Some val) = value_number pf (m\<lparr>mv_column := Some col\<rparr>) col val"
  using assms by (auto simp: MySQL_value_def Let_def)

lemma value_small_stored:
  assumes "int_range (nc_type col) = Some (lo, hi)" and "to_int (strtol (long_bits pf) 0 val) = a"
    and "take 1 val \<noteq> ''@''"
  shows "\<exists>m'. MySQL_value pf m (Some col) (Some val) = Some m' \<and>
     stored_int (nc_type col) (mv_u m') = max lo (min hi a) \<and> (over m' \<longleftrightarrow> over m \<or> a < lo \<or> hi < a) \<and>
     mval_is_usable m' = Some True"
proof -
  have t: "nc_type col \<notin> {Col_Varchar, Col_Longvarchar, Col_Char, Col_Time, Col_Date, Col_Datetime}"
    using assms(1) by (auto simp: int_range_def)
  have st: "stored_int t (store24 v) = v" if "t = Col_Mediumint \<and> -8388608 \<le> v \<and> v \<le> 8388607 \<or>
      t = Col_Mediumunsigned \<and> 0 \<le> v \<and> v \<le> 16777215" for t v
  proof (cases "v < 0")
    case True
    then have "v mod 2 ^ 24 = v + 2 ^ 24" using that by (intro mod_pos_pos_trivial [of "v + 2 ^ 24" "2 ^ 24", simplified mod_add_self2]) auto
    with that True show ?thesis by (simp add: stored_int_def store24_def)
  next
    case False
    with that show ?thesis by (auto simp: stored_int_def store24_def)
  qed
  show ?thesis
    unfolding MySQL_value_number [OF assms(3) t]
    using assms(1,2)
    by (cases "nc_type col")
       (auto simp: value_number_def int_range_def mval_is_usable_def less_mvalue_use_def Let_def
          value_small_def clamp_def st, auto simp: stored_int_def)
qed

definition full_range :: "column_type \<Rightarrow> (int \<times> int) option" where
  "full_range t =
     (case t of
        Col_Int \<Rightarrow> Some (- (2 ^ 31), 2 ^ 31 - 1)
      | Col_Unsigned \<Rightarrow> Some (0, 2 ^ 32 - 1) | Col_Timestamp \<Rightarrow> Some (0, 2 ^ 32 - 1)
      | Col_Bigint \<Rightarrow> Some (- (2 ^ 63), 2 ^ 63 - 1) | Col_Bigunsigned \<Rightarrow> Some (0, 2 ^ 64 - 1)
      | _ \<Rightarrow> int_range t)"

lemma int_range_bounds: "int_range t = Some (lo, hi) \<Longrightarrow> - (2 ^ 31) \<le> lo \<and> hi < 2 ^ 31"
  by (auto simp: int_range_def split: column_type.splits)

lemma value_int_stored:
  assumes "platform_ok pf" and "full_range (nc_type col) = Some (lo, hi)" and "lo \<le> z" and "z \<le> hi"
  shows "\<exists>m'. MySQL_value pf m (Some col) (Some (fmt_d z)) = Some m' \<and> stored_int (nc_type col) (mv_u m') = z"
proof (cases "int_range (nc_type col)")
  case None
  have t: "nc_type col \<notin> {Col_Varchar, Col_Longvarchar, Col_Char, Col_Time, Col_Date, Col_Datetime}"
    using assms(2) by (auto simp: full_range_def int_range_def)
  have u: "strtoul (long_bits pf) 0 (fmt_d z) = z" if "0 \<le> z" "z < 2 ^ 32"
    using that assms(1) by (auto simp: platform_ok_def intro!: strtoul_fmt_d)
  have i: "atoi (long_bits pf) (fmt_d z) = z" if "- (2 ^ 31) \<le> z" "z < 2 ^ 31"
    using that long_int [OF assms(1)] by blast
  have b: "strtol 64 0 (fmt_d z) = z" if "- (2 ^ 63) \<le> z" "z < 2 ^ 63" using that by (intro strtol_fmt_d) auto
  have bu: "strtoul 64 0 (fmt_d z) = z" if "0 \<le> z" "z < 2 ^ 64" using that by (intro strtoul_fmt_d) auto
  show ?thesis
    unfolding MySQL_value_number [OF fmt_d_no_at t]
    using assms(2-4) None u i b bu
    by (cases "nc_type col") (auto simp: full_range_def value_number_def stored_int_def Let_def)
next
  case (Some r)
  then have r: "int_range (nc_type col) = Some (lo, hi)"
    using assms(2) by (auto simp: full_range_def int_range_def split: column_type.splits)
  have "- (2 ^ 31) \<le> z" "z < 2 ^ 31" using int_range_bounds [OF r] assms(3,4) by auto
  from value_small_stored [OF r long_int(1) [OF assms(1) this] fmt_d_no_at, of m] assms(3,4) show ?thesis by auto
qed

lemma result_int:
  assumes "full_range (nc_type col) = Some (lo, hi)" and "stored_int (nc_type col) (mv_u m) = z"
    and "lo \<le> z" and "z \<le> hi" and "holds rb t" and "\<forall>n. grant n"
  shows "\<exists>rb'. result_out pf pr grant (read_back m col bytes) rb escapes = Some rb' \<and> holds rb' (t @ fmt_d z)"
proof -
  have "result_out pf pr grant (read_back m col bytes) rb escapes = out_fmt grant (fmt_d z) rb"
    using assms(1-4)
    by (cases "nc_type col") (auto simp: result_out_def read_back_def number_text_def full_range_def int_range_def Let_def)
  with out_fmt_holds [OF assms(5,6)] show ?thesis by simp
qed

subsection \<open>Strings\<close>

lemma trim_nulls_id:
  "n \<le> length ref \<Longrightarrow> n = 0 \<or> ref ! (n - 1) \<noteq> CHR 0x00 \<Longrightarrow> trim_nulls ref n = Some n"
  by (cases n) (simp_all add: arr_simps)

lemma c_str_id: "CHR 0x00 \<notin> set s \<Longrightarrow> c_str s = s"
  by (induction s) (auto simp: c_str_def)

lemma no_null_last: "CHR 0x00 \<notin> set s \<Longrightarrow> s = [] \<or> s ! (length s - 1) \<noteq> CHR 0x00"
  by (metis last_conv_nth last_in_set)

lemma value_varchar_ok:
  assumes "CHR 0x00 \<notin> set val"
  shows "\<exists>m'. value_varchar m col val = Some m' \<and> use_value m' = use_char \<and>
     mv_u m' = U_char (char_of (min (length val mod 256) (nc_length col)) #
       take (min (length val mod 256) (nc_length col)) val @ [CHR 0x00])"
proof -
  let ?k = "length val mod 256"
  have l: "(if ?k > nc_length col then nc_length col mod 256 else ?k) = min ?k (nc_length col)"
  proof (cases "?k > nc_length col")
    case True
    have "?k < 256" by simp
    with True have "nc_length col < 256" by linarith
    with True show ?thesis by simp
  qed simp
  show ?thesis unfolding value_varchar_def Let_def l
    by (simp add: in_buffer_def cpystrn_def c_str_id [OF assms])
qed

text \<open>The text of the cell is the text stored, up to the limits of the column and of a length byte.\<close>

lemma varchar_cell:
  assumes "CHR 0x00 \<notin> set val" and "n \<le> length val" and "n < 256"
  shows "unpack_string char_var (char_of n # take n val @ [CHR 0x00]) = Some (n, take n val @ [CHR 0x00])"
    "trim_nulls (take n val @ [CHR 0x00]) n = Some n"
proof -
  show "unpack_string char_var (char_of n # take n val @ [CHR 0x00]) = Some (n, take n val @ [CHR 0x00])"
    using assms(3) by (simp add: unpack_string_def arr_get_def)
  have nn: "CHR 0x00 \<notin> set (take n val)" using assms(1) by (meson in_set_takeD)
  have "n = 0 \<or> (take n val @ [CHR 0x00]) ! (n - 1) \<noteq> CHR 0x00"
    using no_null_last [OF nn] assms(2) by (auto simp: nth_append)
  then show "trim_nulls (take n val @ [CHR 0x00]) n = Some n" using assms(2) by (intro trim_nulls_id) auto
qed

lemma varchar_round_trip:
  assumes "nc_type col = Col_Varchar" and "CHR 0x00 \<notin> set val" and "holds rb t" and "\<forall>n. grant n"
    and "rb_sz rb + 256 < 2 ^ 31 - 1"
  shows "\<exists>m'. MySQL_value pf m (Some col) (Some val) = Some m' \<and> mval_is_usable m' = Some True \<and>
     (\<exists>rb'. result_out pf pr grant (read_back m' col (stored_bytes (mv_u m'))) rb None = Some rb' \<and>
        holds rb' (t @ take (min (length val mod 256) (nc_length col)) val))"
proof -
  let ?n = "min (length val mod 256) (nc_length col)"
  have n: "?n \<le> length val" "?n < 256"
    using mod_less_eq_dividend [of "length val" 256] by (simp_all add: min_le_iff_disj min_less_iff_disj)
  have v: "MySQL_value pf m (Some col) (Some val) = value_varchar (m\<lparr>mv_column := Some col\<rparr>) col val"
    using assms(1) by (simp add: MySQL_value_def)
  from value_varchar_ok [OF assms(2), of "m\<lparr>mv_column := Some col\<rparr>" col] obtain m' where
    m': "value_varchar (m\<lparr>mv_column := Some col\<rparr>) col val = Some m'" "use_value m' = use_char"
      "mv_u m' = U_char (char_of ?n # take ?n val @ [CHR 0x00])" by auto
  note cell = varchar_cell [OF assms(2) n]
  have "result_out pf pr grant (read_back m' col (stored_bytes (mv_u m'))) rb None =
      out_len grant ?n (take ?n val @ [CHR 0x00]) rb"
    using assms(1) m'(3) cell
    by (simp add: result_out_def read_back_def stored_bytes_def out_string_def Let_def)
  moreover have "rb_sz rb + int ?n < 2 ^ 31 - 1" using assms(5) n(2) by linarith
  then obtain rb' where "out_len grant ?n (take ?n val @ [CHR 0x00]) rb = Some rb'"
      "holds rb' (t @ take ?n (take ?n val @ [CHR 0x00]))"
    using out_len_holds [OF assms(3,4), of ?n "take ?n val @ [CHR 0x00]"] n(1) by auto
  ultimately show ?thesis using v m' n(1)
    by (auto simp: mval_is_usable_def less_mvalue_use_def)
qed

lemma value_char_overflow:
  assumes "nc_type col = Col_Char"
  shows "MySQL_value pf m (Some col) (Some val) = None \<longleftrightarrow> nc_length col < length val"
  using assms by (auto simp: MySQL_value_def value_char_def in_buffer_def Let_def)

lemma longvarbinary_overflow:
  assumes "nc_type col = Col_Longvarbinary" and "ls_len v \<le> length (ls_string v)" and "ls_len v \<le> nc_length col"
    and "ls_len v < 65536" and "CHR 0x00 \<notin> set (take (ls_len v) (ls_string v))"
  shows "value_of_binary m col v = None"
proof -
  have s: "(if ls_len v < nc_length col then ls_len v else nc_length col) mod 65536 = ls_len v" using assms(3,4) by auto
  have "take (ls_len v) (c_str (ls_string v)) = take (ls_len v) (ls_string v)"
  proof -
    have "c_str (ls_string v) = take (ls_len v) (ls_string v) @ c_str (drop (ls_len v) (ls_string v))"
      unfolding c_str_def using assms(5) by (subst append_take_drop_id [of "ls_len v", symmetric], subst takeWhile_append2) auto
    then show ?thesis using assms(2) by simp
  qed
  then have "length (cpystrn (ls_string v) (ls_len v + 1)) = ls_len v + 1" using assms(2) by (simp add: cpystrn_def)
  then show ?thesis using assms(1) s by (simp add: value_of_binary_def in_buffer_def Let_def)
qed

subsection \<open>Dates and times\<close>

unbundle bit_operations_syntax

lemma or_low: "0 \<le> b \<Longrightarrow> b < 2 ^ n \<Longrightarrow> push_bit n a OR b = push_bit n a + (b::int)"
proof -
  assume b: "0 \<le> b" "b < 2 ^ n"
  then have t: "take_bit n b = b" by (simp add: take_bit_int_eq_self)
  have "push_bit n a AND take_bit n b = 0" by (rule bit_eqI) (auto simp: bit_simps)
  then have "push_bit n a AND b = 0" unfolding t .
  then show ?thesis by (simp add: disjunctive_add_eq_or)
qed

lemma sdiv_nonneg: "0 \<le> a \<Longrightarrow> 0 < b \<Longrightarrow> a sdiv b = a div (b::int)" "0 \<le> a \<Longrightarrow> 0 < b \<Longrightarrow> a smod b = a mod (b::int)"
  by (auto simp: signed_divide_int_def signed_modulo_int_def sgn_if)

lemma split_fields:
  fixes x y z b c :: nat
  assumes "y < b" and "z < c"
  shows "(x * (b * c) + y * c + z) mod c = z" "(x * (b * c) + y * c + z) div c mod b = y"
    "(x * (b * c) + y * c + z) div (b * c) = x"
proof -
  have e: "x * (b * c) + y * c + z = (x * b + y) * c + z" by (simp add: algebra_simps)
  then show "(x * (b * c) + y * c + z) mod c = z" using assms(2) by simp
  have d: "(x * (b * c) + y * c + z) div c = x * b + y" unfolding e using assms(2) by simp
  then show "(x * (b * c) + y * c + z) div c mod b = y" using assms(1) by simp
  have "(x * (b * c) + y * c + z) div (b * c) = (x * b + y) div b"
    using d by (metis div_mult2_eq mult.commute)
  then show "(x * (b * c) + y * c + z) div (b * c) = x" using assms(1) by simp
qed

lemmas decimal_fields = split_fields [where b = 100 and c = 100, simplified]
lemmas date_fields = split_fields [where b = 16 and c = 32, simplified]

lemma decimal_parts:
  "int n sdiv 10000 smod 10000 = int (n div 10000 mod 10000)" "int n sdiv 100 smod 100 = int (n div 100 mod 100)"
  "int n smod 100 = int (n mod 100)" "int n sdiv 10000 = int (n div 10000)"
  by (simp_all add: sdiv_nonneg pos_imp_zdiv_nonneg_iff zdiv_int zmod_int)

lemma binary_parts: "int n mod 32 = int (n mod 32)" "int n div 32 mod 16 = int (n div 32 mod 16)"
  "int n div 512 = int (n div 512)"
  by (simp_all add: zdiv_int zmod_int)

lemma pack_date_ok:
  assumes "y < 10000" and "mo < 16" and "d < 32"
  shows "pack_date (int (y * 10000 + mo * 100 + d)) = int (y * 512 + mo * 32 + d)"
proof -
  have q: "(y * 10000 + mo * 100 + d) div 10000 = y" "(y * 10000 + mo * 100 + d) div 100 mod 100 = mo"
    "(y * 10000 + mo * 100 + d) mod 100 = d"
    using decimal_fields [of mo d y] assms by auto
  have p: "int (y * 10000 + mo * 100 + d) sdiv 10000 smod 10000 = int y"
    "int (y * 10000 + mo * 100 + d) sdiv 100 smod 100 = int mo" "int (y * 10000 + mo * 100 + d) smod 100 = int d"
    unfolding decimal_parts q using assms(1) by (simp_all add: sdiv_nonneg)
  have "push_bit 9 (int y) OR push_bit 5 (int mo) = push_bit 9 (int y) + push_bit 5 (int mo)"
    using assms(2) by (intro or_low) (auto simp: push_bit_eq_mult)
  then have "(push_bit 9 (int y) OR push_bit 5 (int mo)) OR int d = push_bit 5 (int (y * 16 + mo)) OR int d"
    by (simp add: push_bit_eq_mult algebra_simps)
  also have "\<dots> = push_bit 5 (int (y * 16 + mo)) + int d" using assms(3) by (intro or_low) auto
  finally have o: "(push_bit 9 (int y) OR push_bit 5 (int mo)) OR int d = int (y * 512 + mo * 32 + d)"
    by (simp add: push_bit_eq_mult)
  have small: "push_bit 9 (int y) mod 2 ^ 32 = push_bit 9 (int y)" "push_bit 5 (int mo) mod 2 ^ 32 = push_bit 5 (int mo)"
    "int y mod 2 ^ 32 = int y" "int mo mod 2 ^ 32 = int mo" "int d mod 2 ^ 32 = int d"
    using assms by (simp_all add: push_bit_eq_mult)
  have "to_int (int (y * 512 + mo * 32 + d)) = int (y * 512 + mo * 32 + d)" using assms by (intro to_int_id) auto
  then show ?thesis unfolding pack_date_def Let_def p small o .
qed

text \<open>Texts of digits and separators.\<close>

lemma filter_digits [simp]: "filter isdigit (digits w n) = digits w n"
  using digits_isdigit by (simp add: filter_id_conv)

lemma not_digit [simp]: "\<not> isdigit (CHR ''-'')" "\<not> isdigit (CHR '':'')" "\<not> isdigit (CHR '' '')"
  by (simp_all add: isdigit_def)

lemma date_digits_plain:
  assumes "length s \<le> 61"
  shows "date_digits (digits w n @ s) = filter isdigit (take 62 (digits w n @ s))"
proof -
  obtain c cs where c: "digits w n = c # cs" by (cases "digits w n") auto
  then have "isdigit c" using digits_isdigit [of w n] by simp
  then show ?thesis using isdigit_not_special [of c] unfolding c by (simp add: date_digits_def)
qed

definition date_string :: "nat \<Rightarrow> nat \<Rightarrow> nat \<Rightarrow> string" where
  "date_string y mo d = digits 4 y @ ''-'' @ digits 2 mo @ ''-'' @ digits 2 d"

definition time_string :: "nat \<Rightarrow> nat \<Rightarrow> nat \<Rightarrow> string" where
  "time_string h mi s = digits 2 h @ '':'' @ digits 2 mi @ '':'' @ digits 2 s"

lemma strtol_digits:
  assumes "platform_ok pf" and "\<forall>c\<in>set ds. isdigit c" and "ds \<noteq> []" and "read_digits 10 0 ds = n" and "n < 2 ^ 31"
  shows "to_int (strtol (long_bits pf) 10 ds) = int n" "to_int (strtol (long_bits pf) 10 (CHR ''-'' # ds)) = - int n"
  using assms(1,4,5) read_number_digits [OF assms(2,3)] read_number_minus_digits [OF assms(2,3)]
  by (auto simp: strtol_def platform_ok_def to_int_id)

lemma date_round_trip:
  assumes "platform_ok pf" and "nc_type col = Col_Date" and "y < 10000" and "mo < 16" and "d < 32"
    and "holds rb t" and "\<forall>n. grant n"
  shows "\<exists>m'. MySQL_value pf m (Some col) (Some (date_string y mo d)) = Some m' \<and> mval_is_usable m' = Some True \<and>
     (\<exists>rb'. result_out pf pr grant (read_back m' col bytes) rb escapes = Some rb' \<and> holds rb' (t @ date_string y mo d))"
proof -
  let ?ds = "digits 4 y @ digits 2 mo @ digits 2 d"
  have l: "length (digits 4 y) = 4" "length (digits 2 mo) = 2" "length (digits 2 d) = 2"
    using assms(3-5) by (simp_all add: length_digits)
  have dd: "date_digits (date_string y mo d) = ?ds"
    unfolding date_string_def using l by (subst date_digits_plain) simp_all
  have "read_digits 10 0 ?ds = y * 10000 + mo * 100 + d"
    using read_digits_digits_acc [of y 4 0] read_digits_digits_acc [of mo 2 y]
      read_digits_digits_acc [of d 2 "y * 100 + mo" "[]"] assms(3-5) by simp
  then have "to_int (strtol (long_bits pf) 10 ?ds) = int (y * 10000 + mo * 100 + d)"
    using assms(3-5) digits_isdigit by (intro strtol_digits(1) [OF assms(1)]) auto
  then have v: "MySQL_value pf m (Some col) (Some (date_string y mo d)) =
      Some (m\<lparr>mv_column := Some col, use_value := use_signed, mv_u := U_24 (int (y * 512 + mo * 32 + d) mod 2 ^ 24)\<rparr>)"
    using assms(2) dd pack_date_ok [OF assms(3-5)]
    by (simp add: MySQL_value_def value_date_def store24_def Let_def)
  let ?v = "y * 512 + mo * 32 + d"
  have s: "int ?v mod 2 ^ 24 = int ?v" using assms(3-5) by simp
  have "int ?v AND 31 = int ?v mod 32" "drop_bit 5 (int ?v) AND 15 = int ?v div 32 mod 16" "drop_bit 9 (int ?v) = int ?v div 512"
    using take_bit_eq_mask [of 5 "int ?v"] take_bit_eq_mask [of 4 "int ?v div 32"]
    by (simp_all add: take_bit_eq_mod mask_eq_exp_minus_1 drop_bit_eq_div)
  moreover have "?v mod 32 = d" "?v div 32 mod 16 = mo" "?v div 512 = y" using date_fields [OF assms(4,5), of y] by simp_all
  then have "int ?v mod 32 = int d" "int ?v div 32 mod 16 = int mo" "int ?v div 512 = int y"
    unfolding binary_parts by (simp_all only:)
  ultimately have tm: "int ?v AND 31 = int d" "drop_bit 5 (int ?v) AND 15 = int mo" "drop_bit 9 (int ?v) = int y" by simp_all
  let ?m = "m\<lparr>mv_column := Some col, use_value := use_signed, mv_u := U_24 (int ?v mod 2 ^ 24)\<rparr>"
  have ri: "ra_int (res_rec (read_back ?m col bytes)) = int ?v"
    using assms(2) s by (simp add: read_back_def stored_int_def)
  have "field_to_tm (res_rec (read_back ?m col bytes)) =
      Some (zero_time\<lparr>tm_day := int d, tm_month := int mo, tm_year := int y\<rparr>)"
    unfolding field_to_tm_def Let_def ri tm using assms(2) by (simp add: read_back_def)
  then have "result_out pf pr grant (read_back ?m col bytes) rb escapes = out_fmt grant (date_string y mo d) rb"
    using assms(2) by (simp add: result_out_def read_back_def date_text_def fmt_0d_nat date_string_def Let_def)
  with v out_fmt_holds [OF assms(6,7), of "date_string y mo d"] show ?thesis
    by (simp add: mval_is_usable_def less_mvalue_use_def)
qed

lemma factor_time:
  assumes "mi < 100" and "s < 100"
  shows "factor_HHMMSS (int (h * 10000 + mi * 100 + s)) zero_time =
      zero_time\<lparr>tm_hour := int h, tm_minute := int mi, tm_second := int s\<rparr>"
    "0 < h * 10000 + mi * 100 + s \<Longrightarrow> factor_HHMMSS (- int (h * 10000 + mi * 100 + s)) zero_time =
      zero_time\<lparr>tm_neg := True, tm_hour := int h, tm_minute := int mi, tm_second := int s\<rparr>"
  using decimal_fields [OF assms, of h] unfolding factor_HHMMSS_def Let_def
  by (simp_all add: decimal_parts del: of_nat_add of_nat_mult)

lemma date_digits_minus:
  "length s \<le> 62 \<Longrightarrow> date_digits (CHR ''-'' # s) = CHR ''-'' # filter isdigit s"
  by (simp add: date_digits_def)

definition signed_time :: "bool \<Rightarrow> nat \<Rightarrow> nat \<Rightarrow> nat \<Rightarrow> string" where
  "signed_time neg h mi s = (if neg then ''-'' else []) @ time_string h mi s"

lemma length_digits_le: "n < 1000 \<Longrightarrow> length (digits 2 n) \<le> 3"
  using length_dec [of n 3] by (simp add: digits_def pad0_def)

lemma time_round_trip:
  assumes "platform_ok pf" and "nc_type col = Col_Time" and "h < 839" and "mi < 60" and "s < 60"
    and "neg \<Longrightarrow> 0 < h + mi + s" and "holds rb t" and "\<forall>n. grant n"
  shows "\<exists>m'. MySQL_value pf m (Some col) (Some (signed_time neg h mi s)) = Some m' \<and> mval_is_usable m' = Some True \<and>
     (\<exists>rb'. result_out pf pr grant (read_back m' col bytes) rb escapes = Some rb' \<and> holds rb' (t @ signed_time neg h mi s))"
proof -
  let ?ds = "digits 2 h @ digits 2 mi @ digits 2 s" and ?n = "h * 10000 + mi * 100 + s"
  let ?z = "if neg then - int ?n else int ?n"
  have l: "length (digits 2 h) \<le> 3" "length (digits 2 mi) = 2" "length (digits 2 s) = 2"
    using assms(3-5) length_digits_le by (simp_all add: length_digits)
  have f: "filter isdigit (time_string h mi s) = ?ds" by (simp add: time_string_def)
  have len: "length (time_string h mi s) \<le> 9" using l by (simp add: time_string_def)
  have dd: "date_digits (signed_time neg h mi s) = (if neg then CHR ''-'' # ?ds else ?ds)"
  proof (cases neg)
    case True
    with date_digits_minus [of "time_string h mi s"] len f show ?thesis by (simp add: signed_time_def)
  next
    case False
    have "date_digits (time_string h mi s) = filter isdigit (take 62 (time_string h mi s))"
      unfolding time_string_def using l by (intro date_digits_plain) simp
    with False len f show ?thesis by (simp add: signed_time_def)
  qed
  have "\<forall>c\<in>set (digits 2 h). digit_val c < 10" using digits_isdigit isdigit_val by blast
  then have "read_digits 10 0 ?ds = read_digits 10 h (digits 2 mi @ digits 2 s)"
    using read_digits_append [of "digits 2 h" 10 0] by (simp add: read_digits_digits)
  then have rd: "read_digits 10 0 ?ds = ?n"
    using read_digits_digits_acc [of mi 2 h] read_digits_digits_acc [of s 2 "h * 100 + mi" "[]"] assms(4,5) by simp
  have digs: "\<forall>c\<in>set ?ds. isdigit c" using digits_isdigit by auto
  have "?n < 2 ^ 31" using assms(3-5) by simp
  from strtol_digits [OF assms(1) digs _ rd this] dd
  have num: "to_int (strtol (long_bits pf) 10 (date_digits (signed_time neg h mi s))) = ?z" by simp
  let ?m = "m\<lparr>mv_column := Some col, use_value := use_signed, mv_u := U_24 (?z mod 2 ^ 24)\<rparr>"
  have v: "MySQL_value pf m (Some col) (Some (signed_time neg h mi s)) = Some ?m"
    using assms(2) num by (simp add: MySQL_value_def value_date_def store24_def Let_def)
  have zb: "- (2 ^ 23) < ?z" "?z < 2 ^ 23" using assms(3-5) by auto
  have ri: "ra_int (res_rec (read_back ?m col bytes)) = ?z"
  proof (cases "?z < 0")
    case True
    have "?z mod 2 ^ 24 = (?z + 2 ^ 24) mod 2 ^ 24" by simp
    also have "\<dots> = ?z + 2 ^ 24" using zb True by (intro mod_pos_pos_trivial) auto
    finally show ?thesis using assms(2) zb(1) True by (simp add: read_back_def stored_int_def)
  next
    case False
    then have "?z mod 2 ^ 24 = ?z" using zb by (intro mod_pos_pos_trivial) auto
    then show ?thesis using assms(2) zb(2) by (simp add: read_back_def stored_int_def)
  qed
  have n99: "?z \<noteq> -99" using assms(4,5) by (cases neg; cases "h = 0"; cases "mi = 0") auto
  have pos: "neg \<Longrightarrow> 0 < ?n" using assms(6) by (cases "h = 0"; cases "mi = 0"; cases "s = 0") auto
  have fac: "factor_HHMMSS ?z zero_time =
      zero_time\<lparr>tm_neg := neg, tm_hour := int h, tm_minute := int mi, tm_second := int s\<rparr>"
    using factor_time [of mi s h] assms(4,5) pos by (cases neg) (simp_all add: zero_time_def del: of_nat_add of_nat_mult)
  have ty: "nc_type (ra_col (res_rec (read_back ?m col bytes))) = Col_Time" using assms(2) by (simp add: read_back_def)
  have "field_to_tm (res_rec (read_back ?m col bytes)) =
      Some (zero_time\<lparr>tm_neg := neg, tm_hour := int h, tm_minute := int mi, tm_second := int s\<rparr>)"
    unfolding field_to_tm_def Let_def ty ri using n99 fac by simp
  then have "result_out pf pr grant (read_back ?m col bytes) rb escapes = out_fmt grant (signed_time neg h mi s) rb"
    using ty by (simp add: result_out_def time_text_def fmt_0d_nat time_string_def signed_time_def Let_def)
  with v out_fmt_holds [OF assms(7,8), of "signed_time neg h mi s"] show ?thesis
    by (auto simp: mval_is_usable_def less_mvalue_use_def)
qed

lemma datetime_round_trip:
  assumes "nc_type col = Col_Datetime" and "y < 10000" and "mo < 100" and "d < 100" and "h < 100" and "mi < 100" and "s < 100"
    and "holds rb t" and "\<forall>n. grant n"
  shows "\<exists>m'. MySQL_value pf m (Some col) (Some (date_string y mo d @ '' '' @ time_string h mi s)) = Some m' \<and>
     mval_is_usable m' = Some True \<and>
     (\<exists>rb'. result_out pf pr grant (read_back m' col bytes) rb escapes = Some rb' \<and>
        holds rb' (t @ date_string y mo d @ '' '' @ time_string h mi s))"
proof -
  let ?txt = "date_string y mo d @ '' '' @ time_string h mi s"
  let ?ds = "digits 4 y @ digits 2 mo @ digits 2 d @ digits 2 h @ digits 2 mi @ digits 2 s"
  let ?D = "y * 10000 + mo * 100 + d" and ?T = "h * 10000 + mi * 100 + s"
  have l: "length (digits 4 y) = 4" "length (digits 2 mo) = 2" "length (digits 2 d) = 2"
    "length (digits 2 h) = 2" "length (digits 2 mi) = 2" "length (digits 2 s) = 2"
    using assms(2-7) by (simp_all add: length_digits)
  have dd: "date_digits ?txt = ?ds"
  proof -
    have "?txt = digits 4 y @ ''-'' @ digits 2 mo @ ''-'' @ digits 2 d @ '' '' @ time_string h mi s"
      by (simp add: date_string_def)
    then show ?thesis using l date_digits_plain [of "''-'' @ digits 2 mo @ ''-'' @ digits 2 d @ '' '' @ time_string h mi s" 4 y]
      by (simp add: time_string_def)
  qed
  have rd: "read_digits 10 0 ?ds = ?D * 1000000 + ?T"
    using read_digits_digits_acc [of y 4 0] read_digits_digits_acc [of mo 2 y]
      read_digits_digits_acc [of d 2 "y * 100 + mo"] read_digits_digits_acc [of h 2 "(y * 100 + mo) * 100 + d"]
      read_digits_digits_acc [of mi 2 "((y * 100 + mo) * 100 + d) * 100 + h"]
      read_digits_digits_acc [of s 2 "(((y * 100 + mo) * 100 + d) * 100 + h) * 100 + mi" "[]"] assms(2-7)
    by (simp add: algebra_simps)
  have "read_number 10 ?ds = (False, ?D * 1000000 + ?T)"
    using read_number_digits [of ?ds] digits_isdigit rd by auto
  moreover have "int (?D * 1000000 + ?T) < 2 ^ 64" using assms(2-7) by simp
  ultimately have st: "strtoul 64 10 ?ds = int (?D * 1000000 + ?T)" by (simp add: strtoul_def)
  let ?m = "m\<lparr>mv_column := Some col, mv_u := U_unsigned_64 (int (?D * 1000000 + ?T)), use_value := use_unsigned_64\<rparr>"
  have v: "MySQL_value pf m (Some col) (Some ?txt) = Some ?m"
    using assms(1) dd st by (simp add: MySQL_value_def value_date_def Let_def)
  have ty: "nc_type (ra_col (res_rec (read_back ?m col bytes))) = Col_Datetime"
    and ri: "ra_int (res_rec (read_back ?m col bytes)) = int (?D * 1000000 + ?T)"
    using assms(1) by (simp_all add: read_back_def stored_int_def)
  have tl: "?T < 1000000" and dl: "?D < 2 ^ 31" using assms(2-7) by simp_all
  have "int (?D * 1000000 + ?T) div 1000000 = int ?D" using tl by simp
  then have p1: "to_int (int (?D * 1000000 + ?T) div 1000000) = int ?D" using dl by (simp only:) (intro to_int_id; simp)
  have "(int (?D * 1000000 + ?T) - int ?D * 1000000) mod 2 ^ 64 = int ?T" using tl by simp
  then have p2: "to_int ((int (?D * 1000000 + ?T) - int ?D * 1000000) mod 2 ^ 64) = int ?T"
    using tl by (simp only:) (intro to_int_id; simp)
  have fd: "factor_YYYYMMDD (int ?D) tm = tm\<lparr>tm_year := int y, tm_month := int mo, tm_day := int d\<rparr>" for tm
    unfolding factor_YYYYMMDD_def decimal_parts using decimal_fields [OF assms(3,4), of y] assms(2)
    by (simp add: decimal_parts sdiv_nonneg)
  have "field_to_tm (res_rec (read_back ?m col bytes)) =
      Some (zero_time\<lparr>tm_hour := int h, tm_minute := int mi, tm_second := int s,
                      tm_year := int y, tm_month := int mo, tm_day := int d\<rparr>)"
    unfolding field_to_tm_def Let_def ty ri p1 using p2 fd factor_time(1) [OF assms(6,7), of h]
    by (simp del: of_nat_add of_nat_mult)
  then have "result_out pf pr grant (read_back ?m col bytes) rb escapes = out_fmt grant ?txt rb"
    using ty by (simp add: result_out_def date_text_def time_text_def fmt_0d_nat date_string_def time_string_def Let_def)
  with v out_fmt_holds [OF assms(8,9), of ?txt] show ?thesis
    by (simp add: mval_is_usable_def less_mvalue_use_def)
qed

end
