(* ===== verification/Output_Correct.thy ===== *)
theory Output_Correct
  imports Output_Format
begin

text \<open>
  What a format writes. \<open>appends f s\<close> says that the output routine \<open>f\<close> returns and
  appends exactly \<open>s\<close> to a buffer that has room in the address range; such routines compose.
  The text of every part is then a function of the data alone, and the routines implement it.
\<close>

subsection \<open>Routines that append\<close>

definition limit :: int where "limit = 2 ^ 31 - 1"

definition appends :: "(result_buffer \<Rightarrow> result_buffer option) \<Rightarrow> string \<Rightarrow> bool" where
  "appends f s \<longleftrightarrow> (\<forall>rb u. holds rb u \<longrightarrow> int (length (u @ s)) < limit \<longrightarrow>
     (\<exists>rb'. f rb = Some rb' \<and> holds rb' (u @ s)))"

definition env_ok :: "'f env \<Rightarrow> bool" where
  "env_ok en \<longleftrightarrow> (\<forall>n. e_grant en n)"

lemma appendsI:
  "(\<And>rb u. holds rb u \<Longrightarrow> int (length (u @ s)) < limit \<Longrightarrow> \<exists>rb'. f rb = Some rb' \<and> holds rb' (u @ s)) \<Longrightarrow> appends f s"
  by (simp add: appends_def)

lemma appendsE:
  assumes "appends f s" and "holds rb u" and "int (length (u @ s)) < limit"
  obtains rb' where "f rb = Some rb'" "holds rb' (u @ s)"
  using assms by (auto simp: appends_def)

lemma appends_nothing: "appends Some []"
  by (simp add: appends_def)

lemma appends_seq:
  assumes "appends f s" and "appends g t"
  shows "appends (\<lambda>rb. do { rb' \<leftarrow> f rb; g rb' }) (s @ t)"
proof (rule appendsI)
  fix rb u assume h: "holds rb u" and l: "int (length (u @ s @ t)) < limit"
  from l have "int (length (u @ s)) < limit" by simp
  from assms(1) h this obtain rb1 where 1: "f rb = Some rb1" "holds rb1 (u @ s)" by (rule appendsE)
  from l have "int (length ((u @ s) @ t)) < limit" by simp
  from assms(2) 1(2) this obtain rb2 where "g rb1 = Some rb2" "holds rb2 ((u @ s) @ t)" by (rule appendsE)
  with 1 show "\<exists>rb'. do { rb' \<leftarrow> f rb; g rb' } = Some rb' \<and> holds rb' (u @ s @ t)" by simp
qed

lemma appends_out_len:
  assumes "\<forall>n. grant n" and "len \<le> length s"
  shows "appends (out_len grant len s) (take len s)"
proof (rule appendsI)
  fix rb u assume h: "holds rb u" and l: "int (length (u @ take len s)) < limit"
  have "rb_sz rb + int len < 2 ^ 31 - 1" using h l assms(2) by (simp add: holds_def limit_def)
  from out_len_holds [OF h assms this] show "\<exists>rb'. out_len grant len s rb = Some rb' \<and> holds rb' (u @ take len s)" .
qed

lemma appends_out_text: "env_ok en \<Longrightarrow> appends (out_text en s) s"
  unfolding out_text_def using appends_out_len [of "e_grant en" "length s" s] by (simp add: env_ok_def)

lemma appends_out_fmt: "\<forall>n. grant n \<Longrightarrow> appends (out_fmt grant t) t"
  by (rule appendsI) (rule out_fmt_holds)

lemma appends_each:
  assumes "\<And>x. x \<in> set xs \<Longrightarrow> appends (f x) (t x)"
  shows "appends (each_out f xs) (concat (map t xs))"
  using assms
proof (induction xs)
  case Nil
  then show ?case using appends_nothing by (simp add: appends_def)
next
  case (Cons x xs)
  have "appends (\<lambda>rb. do { rb' \<leftarrow> f x rb; each_out f xs rb' }) (t x @ concat (map t xs))"
    by (intro appends_seq Cons.IH) (use Cons.prems in auto)
  then show ?case by simp
qed

subsection \<open>The text of a value\<close>

definition string_text :: "string \<Rightarrow> ndb_string_packing \<Rightarrow> escape_table option \<Rightarrow> string option" where
  "string_text bytes p escapes =
     do { (sz0, ref) \<leftarrow> unpack_string p bytes;
          sz \<leftarrow> trim_nulls ref sz0;
          (case escapes of
             Some t \<Rightarrow> if ascii (take sz ref) then Some (escaped t (take sz ref)) else None
           | None \<Rightarrow> if sz \<le> length ref then Some (take sz ref) else None) }"

definition contents_text :: "result_buffer \<Rightarrow> escape_table option \<Rightarrow> string option" where
  "contents_text rb escapes =
     do { s \<leftarrow> buffer_text rb;
          (case escapes of Some t \<Rightarrow> if ascii s then Some (escaped t s) else None | None \<Rightarrow> Some s) }"

text \<open>
  The text of a value. Decimals and the types that write nothing are left out; so is an
  escaped string with a byte above 127.
\<close>

definition value_text :: "'f platform \<Rightarrow> printers \<Rightarrow> result \<Rightarrow> escape_table option \<Rightarrow> string option" where
  "value_text pf pr res escapes =
     (let r = res_rec res; t = nc_type (ra_col r) in
      if t \<in> {Col_Varchar, Col_Varbinary} then string_text (ra_bytes r) char_var escapes
      else if t \<in> {Col_Char, Col_Binary} then string_text (ra_bytes r) char_fixed escapes
      else if t \<in> {Col_Longvarchar, Col_Longvarbinary} then string_text (ra_bytes r) char_longvar escapes
      else if t = Col_Date then map_option date_text (field_to_tm r)
      else if t = Col_Time then map_option (\<lambda>tm. (if tm_neg tm then ''-'' else []) @ time_text tm) (field_to_tm r)
      else if t = Col_Datetime then map_option (\<lambda>tm. date_text tm @ '' '' @ time_text tm) (field_to_tm r)
      else if t = Col_Bit then Some (fmt_d (ndbapi_bit_flip pf (ra_int r)))
      else if t = Col_Text then contents_text (contents res) escapes
      else if t = Col_Blob then
        (if escapes = None then contents_text (contents res) None else Some ''++ CANNOT ESCAPE BLOB ++'')
      else number_text pr r)"

lemma appends_escape:
  assumes "table_ok t" and "ascii s" and "\<forall>n. grant n"
  shows "appends (\<lambda>rb. escape_string grant s rb t) (escaped t s)"
proof (rule appendsI)
  fix rb u assume h: "holds rb u" and l: "int (length (u @ escaped t s)) < limit"
  have "rb_sz rb + int (length (escaped t s)) < 2 ^ 31 - 1" using h l by (simp add: holds_def limit_def)
  from escape_string_ok [OF assms(1,2) h assms(3) this]
  show "\<exists>rb'. escape_string grant s rb t = Some rb' \<and> holds rb' (u @ escaped t s)" .
qed

lemma appends_string:
  assumes "string_text bytes p escapes = Some s" and "\<And>t. escapes = Some t \<Longrightarrow> table_ok t" and "\<forall>n. grant n"
  shows "appends (\<lambda>rb. out_string grant rb bytes p escapes) s"
proof -
  from assms(1) obtain sz0 ref sz where u: "unpack_string p bytes = Some (sz0, ref)" "trim_nulls ref sz0 = Some sz"
    by (auto simp: string_text_def split: Option.bind_splits)
  show ?thesis
  proof (cases escapes)
    case None
    with assms(1) u have "s = take sz ref" "sz \<le> length ref" by (auto simp: string_text_def split: if_splits)
    with u None appends_out_len [OF assms(3), of sz ref] show ?thesis by (simp add: out_string_def)
  next
    case (Some t)
    with assms(1) u have "s = escaped t (take sz ref)" "ascii (take sz ref)" by (auto simp: string_text_def split: if_splits)
    with u Some appends_escape [OF assms(2) [OF Some] _ assms(3), of "take sz ref"] show ?thesis by (simp add: out_string_def)
  qed
qed

lemma appends_contents:
  assumes "contents_text b escapes = Some s" and "\<And>t. escapes = Some t \<Longrightarrow> table_ok t" and "\<forall>n. grant n"
  shows "appends (\<lambda>rb. do { x \<leftarrow> buffer_text b;
     (case escapes of Some e \<Rightarrow> escape_string grant x rb e | None \<Rightarrow> out_len grant (length x) x rb) }) s"
proof -
  from assms(1) obtain x where x: "buffer_text b = Some x" by (auto simp: contents_text_def split: Option.bind_splits)
  show ?thesis
  proof (cases escapes)
    case None
    with assms(1) x appends_out_len [OF assms(3), of "length x" x] show ?thesis by (simp add: contents_text_def)
  next
    case (Some t)
    with assms(1) x appends_escape [OF assms(2) [OF Some] _ assms(3), of x] show ?thesis
      by (auto simp: contents_text_def split: if_splits)
  qed
qed

lemma appends_result:
  assumes "value_text pf pr res escapes = Some s" and "\<And>t. escapes = Some t \<Longrightarrow> table_ok t" and "\<forall>n. grant n"
  shows "appends (\<lambda>rb. result_out pf pr grant res rb escapes) s"
proof -
  note str = appends_string [OF _ assms(2,3)] and cont = appends_contents [OF _ assms(2,3)]
    and num = appends_out_fmt [OF assms(3)]
  have blob: "contents_text (contents res) None = Some s \<Longrightarrow>
      appends (\<lambda>rb. do { x \<leftarrow> buffer_text (contents res); out_len grant (length x) x rb }) s"
    using appends_contents [of "contents res" None s grant] assms(3) by simp
  let ?t = "nc_type (ra_col (res_rec res))"
  show ?thesis
  proof (cases ?t)
    case Col_Blob
    with assms(1) num blob show ?thesis
      by (cases escapes) (auto simp: value_text_def result_out_def Let_def)
  next
    case Col_Text
    with assms(1) cont show ?thesis by (simp add: value_text_def result_out_def Let_def)
  qed (use assms(1) str num in \<open>auto simp: value_text_def result_out_def Let_def number_text_def\<close>)
qed

subsection \<open>Cells, items and rows\<close>

definition field_text :: "'f env \<Rightarrow> data_operation \<Rightarrow> result list \<Rightarrow> int \<Rightarrow> cell \<Rightarrow> string option" where
  "field_text en d cols n c =
     (if elem_type c = const_string then Some (cell_string c)
      else do { r \<leftarrow> arr_get cols n;
                nm \<leftarrow> column_name d r n;
                (if elem_type c = item_name then Some (if elem_quote c = no_quot then nm else DQ # nm @ [DQ])
                 else do { v \<leftarrow> value_text (e_platform en) (e_printers en) r (get_escapes (cell_esc c));
                           Some (if cell_quotes (elem_quote c) (nc_type (ra_col (res_rec r)))
                                 then DQ # v @ [DQ] else v) }) })"

definition cell_text :: "'f env \<Rightarrow> data_operation \<Rightarrow> result list \<Rightarrow> cell \<Rightarrow> string option" where
  "cell_text en d cols c =
     (if elem_type c \<noteq> const_string \<and> cell_i c > n_result_cols d then Some []
      else field_text en d cols ((int (cell_i c) - 1) mod 2 ^ 32) c)"

fun join :: "string \<Rightarrow> string list \<Rightarrow> string" where
  "join s [] = []"
| "join s (x # xs) = x @ concat (map (\<lambda>y. s @ y) xs)"

lemma those_Some: "those xs = Some ys \<longleftrightarrow> xs = map Some ys"
  by (induction xs arbitrary: ys) (auto split: option.splits)

lemma appends_each_those:
  assumes "those (map t xs) = Some ts" and "\<And>x s. x \<in> set xs \<Longrightarrow> t x = Some s \<Longrightarrow> appends (f x) s"
  shows "appends (each_out f xs) (concat ts)"
proof -
  from assms(1) have m: "map t xs = map Some ts" by (simp add: those_Some)
  then have e: "ts = map (the \<circ> t) xs" by (simp add: list_eq_iff_nth_eq)
  have "appends (f x) ((the \<circ> t) x)" if x: "x \<in> set xs" for x
  proof -
    from x obtain i where i: "i < length xs" "xs ! i = x" by (auto simp: in_set_conv_nth)
    have l: "length ts = length xs" using m by (metis length_map)
    have "t x = Some (ts ! i)" using m i l by (metis nth_map)
    with assms(2) [OF x] show ?thesis by simp
  qed
  then show ?thesis unfolding e by (rule appends_each)
qed

lemma appends_field:
  assumes "field_text en d cols n c = Some s" and "env_ok en"
  shows "appends (cell_out_col en d cols n c) s"
proof (cases "elem_type c = const_string")
  case True
  then show ?thesis using assms appends_out_text [of en s] by (simp add: field_text_def cell_out_col_def appends_def)
next
  case False
  with assms(1) obtain r nm where r: "arr_get cols n = Some r" "column_name d r n = Some nm"
    by (auto simp: field_text_def split: Option.bind_splits)
  show ?thesis
  proof (cases "elem_type c = item_name")
    case True
    with assms r False appends_out_text [of en nm] appends_out_fmt [of "e_grant en" "DQ # nm @ [DQ]"] show ?thesis
      by (auto simp: field_text_def cell_out_col_def appends_def env_ok_def)
  next
    case nn: False
    let ?q = "cell_quotes (elem_quote c) (nc_type (ra_col (res_rec r)))"
    from assms(1) r False nn obtain v where v: "value_text (e_platform en) (e_printers en) r (get_escapes (cell_esc c)) = Some v"
      "s = (if ?q then DQ # v @ [DQ] else v)"
      by (auto simp: field_text_def split: Option.bind_splits)
    have o: "appends (value_out en c r) v"
      unfolding value_out_def using appends_result [OF v(1) get_escapes_ok] assms(2) by (simp add: env_ok_def)
    have "appends (\<lambda>rb. do { rb1 \<leftarrow> out_text en [DQ] rb; rb2 \<leftarrow> value_out en c r rb1; out_text en [DQ] rb2 }) ([DQ] @ v @ [DQ])"
      by (intro appends_seq appends_out_text o assms(2))
    with o v(2) r False nn show ?thesis by (cases ?q) (simp_all add: cell_out_col_def [abs_def])
  qed
qed

lemma appends_cell:
  assumes "cell_text en d cols c = Some s" and "env_ok en"
  shows "appends (cell_out en d cols c) s"
proof (cases "elem_type c = const_string")
  case True
  with assms appends_out_text [of en s] show ?thesis
    by (simp add: cell_text_def field_text_def cell_out_def appends_def)
next
  case False
  with assms appends_field [of en d cols "(int (cell_i c) - 1) mod 2 ^ 32" c s] appends_nothing show ?thesis
    by (auto simp: cell_text_def cell_out_def appends_def split: if_splits)
qed

definition chain_text :: "(cell \<Rightarrow> string option) \<Rightarrow> cell list \<Rightarrow> nat option \<Rightarrow> string option" where
  "chain_text t heap p =
     do { cs \<leftarrow> cell_chain heap p;
          if p = None then None else map_option concat (those (map t cs)) }"

lemma appends_chain:
  assumes "chain_text (cell_text en d cols) heap p = Some s" and "env_ok en"
  shows "appends (chain_out en d cols heap p) s"
proof -
  from assms(1) obtain cs ts q where "cell_chain heap p = Some cs" "p = Some q"
    "those (map (cell_text en d cols) cs) = Some ts" "s = concat ts"
    by (auto simp: chain_text_def split: Option.bind_splits if_splits)
  with appends_each_those [of "cell_text en d cols" cs ts] appends_cell [OF _ assms(2)] show ?thesis
    unfolding chain_out_def by simp
qed

lemma appends_chain_text:
  assumes "chain_text (\<lambda>c. Some (cell_string c)) heap p = Some s" and "env_ok en"
  shows "appends (chain_text_out en heap p) s"
proof -
  from assms(1) obtain cs ts q where "cell_chain heap p = Some cs" "p = Some q"
    "those (map (\<lambda>c. Some (cell_string c)) cs) = Some ts" "s = concat ts"
    by (auto simp: chain_text_def split: Option.bind_splits if_splits)
  with appends_each_those [of "\<lambda>c. Some (cell_string c)" cs ts] appends_out_text [OF assms(2)] show ?thesis
    unfolding chain_text_out_def by simp
qed

definition item_text :: "'f env \<Rightarrow> data_operation \<Rightarrow> result list \<Rightarrow> cell list \<Rightarrow> node \<Rightarrow> int \<Rightarrow> string option" where
  "item_text en d cols heap nd n =
     (if n_class nd = Rec_attr then
        do { r \<leftarrow> arr_get cols n;
             cs \<leftarrow> cell_chain heap (if res_null r then n_null_fmt nd else n_fmt nd);
             map_option concat (those (map (field_text en d cols n) cs)) }
      else do { p \<leftarrow> n_cell nd; c \<leftarrow> arr_get heap (int p); field_text en d cols n c })"

lemma appends_item:
  assumes "item_text en d cols heap nd n = Some s" and "env_ok en"
  shows "appends (node_out en d cols heap nd n) s"
proof (cases "n_class nd = Rec_attr")
  case True
  with assms(1) obtain r cs ts where "arr_get cols n = Some r"
    "cell_chain heap (if res_null r then n_null_fmt nd else n_fmt nd) = Some cs"
    "those (map (field_text en d cols n) cs) = Some ts" "s = concat ts"
    by (auto simp: item_text_def split: Option.bind_splits)
  with True appends_each_those [of "field_text en d cols n" cs ts] appends_field [OF _ assms(2)] show ?thesis
    unfolding node_out_def by simp
next
  case False
  with assms appends_field show ?thesis
    unfolding node_out_def by (fastforce simp: item_text_def split: Option.bind_splits)
qed

lemma join_items:
  "concat (map (\<lambda>n. (if n \<noteq> 0 then s else []) @ ts ! n) [0..<length ts]) = join s ts"
proof (cases ts)
  case (Cons x xs)
  have "map (\<lambda>n. (if n \<noteq> 0 then s else []) @ ts ! n) [0..<length ts] = x # map (\<lambda>y. s @ y) xs"
    unfolding Cons by (rule nth_equalityI) (auto simp: nth_Cons' simp del: upt_Suc)
  then show ?thesis unfolding Cons by simp
qed simp

definition row_text :: "'f env \<Rightarrow> data_operation \<Rightarrow> result list \<Rightarrow> cell list \<Rightarrow> node list \<Rightarrow> node \<Rightarrow> string option" where
  "row_text en d cols heap nodes nd =
     do { b \<leftarrow> chain_text (cell_text en d cols) heap (l_begin nd);
          a \<leftarrow> l_core nd;
          core \<leftarrow> arr_get nodes (int a);
          sep \<leftarrow> l_sep nd;
          ts \<leftarrow> those (map (\<lambda>n. item_text en d cols heap core (int n)) [0..<n_result_cols d]);
          e \<leftarrow> chain_text (cell_text en d cols) heap (l_end nd);
          Some (b @ join sep ts @ e) }"

lemma appends_row:
  assumes "row_text en d cols heap nodes nd = Some s" and "env_ok en"
  shows "appends (row_out en d cols heap nodes nd) s"
proof -
  from assms(1) obtain b a core sep ts e where p:
    "chain_text (cell_text en d cols) heap (l_begin nd) = Some b" "l_core nd = Some a" "arr_get nodes (int a) = Some core"
    "l_sep nd = Some sep" "those (map (\<lambda>n. item_text en d cols heap core (int n)) [0..<n_result_cols d]) = Some ts"
    "chain_text (cell_text en d cols) heap (l_end nd) = Some e" "s = b @ join sep ts @ e"
    by (auto simp: row_text_def split: Option.bind_splits)
  from p(5) have m: "map (\<lambda>n. item_text en d cols heap core (int n)) [0..<n_result_cols d] = map Some ts"
    by (simp add: those_Some)
  then have l: "length ts = n_result_cols d" by (metis length_map length_upt minus_nat.diff_0)
  have "appends (item_out en d cols heap (l_sep nd) core n) ((if n \<noteq> 0 then sep else []) @ ts ! n)"
    if n: "n \<in> set [0..<n_result_cols d]" for n
  proof -
    have "item_text en d cols heap core (int n) = Some (ts ! n)"
      using arg_cong [OF m, of "\<lambda>xs. xs ! n"] n l by simp
    then have i: "appends (node_out en d cols heap core (int n)) (ts ! n)" using assms(2) by (rule appends_item)
    have "appends (\<lambda>rb. do { rb1 \<leftarrow> out_text en sep rb; node_out en d cols heap core (int n) rb1 }) (sep @ ts ! n)"
      by (intro appends_seq appends_out_text assms(2) i)
    with i p(4) show ?thesis by (cases "n = 0") (simp_all add: item_out_def [abs_def])
  qed
  then have "appends (each_out (item_out en d cols heap (l_sep nd) core) [0..<n_result_cols d])
      (concat (map (\<lambda>n. (if n \<noteq> 0 then sep else []) @ ts ! n) [0..<n_result_cols d]))" by (rule appends_each)
  then have "appends (each_out (item_out en d cols heap (l_sep nd) core) [0..<n_result_cols d]) (join sep ts)"
    using join_items [of sep ts] l by (simp only:)
  then have "appends (\<lambda>rb. do { rb1 \<leftarrow> chain_out en d cols heap (l_begin nd) rb;
      rb2 \<leftarrow> each_out (item_out en d cols heap (l_sep nd) core) [0..<n_result_cols d] rb1;
      chain_out en d cols heap (l_end nd) rb2 }) (b @ join sep ts @ e)"
    by (intro appends_seq appends_chain p assms(2))
  with p show ?thesis unfolding row_out_def by simp
qed

end
