(* ===== verification/Output_Scan.thy ===== *)
theory Output_Scan
  imports Output_Correct
begin

text \<open>
  The loop over the rows of a scan and whole pages. \<open>delivers\<close> is the documented behaviour
  of the scan operation: it hands out its batches one after the other, a call that may fetch
  moves to the next batch, a call that may not stays in the current one. The page is then the
  rows in their order, between the opening and closing texts and with the separator; an empty
  scan writes no row and has the status 404.
\<close>

subsection \<open>The scan operation\<close>

fun in_batch :: "'c scan_api \<Rightarrow> 'c \<Rightarrow> result list list \<Rightarrow> ('c \<Rightarrow> bool) \<Rightarrow> bool" where
  "in_batch api cur [] P \<longleftrightarrow> fst (next_result api False cur) \<noteq> 0 \<and> P (snd (next_result api False cur))"
| "in_batch api cur (r # rs) P \<longleftrightarrow>
     fst (next_result api False cur) = 0 \<and> row_at api (snd (next_result api False cur)) = r \<and>
     in_batch api (snd (next_result api False cur)) rs P"

fun delivers :: "'c scan_api \<Rightarrow> 'c \<Rightarrow> result list list list \<Rightarrow> bool" where
  "delivers api cur [] \<longleftrightarrow> fst (next_result api True cur) \<noteq> 0"
| "delivers api cur (b # bs) \<longleftrightarrow>
     (case b of
        [] \<Rightarrow> False
      | r # rs \<Rightarrow>
          fst (next_result api True cur) = 0 \<and> row_at api (snd (next_result api True cur)) = r \<and>
          in_batch api (snd (next_result api True cur)) rs (\<lambda>c. delivers api c bs))"

text \<open>A scan operation over a list of batches: the current row, the cached rows, the batches to come.\<close>

definition list_scan :: "(result list \<times> result list list \<times> result list list list) scan_api" where
  "list_scan =
     \<lparr>next_result = (\<lambda>fetch (r, cached, bs).
        case cached of
          x # xs \<Rightarrow> (0, x, xs, bs)
        | [] \<Rightarrow> if \<not> fetch then (2, r, [], bs)
               else (case bs of (x # xs) # bs' \<Rightarrow> (0, x, xs, bs') | _ \<Rightarrow> (1, r, [], bs))),
      row_at = fst\<rparr>"

lemma list_scan_cached:
  "in_batch list_scan (r, rs, bs) rs P \<longleftrightarrow> P (last (r # rs), [], bs)"
  by (induction rs arbitrary: r) (simp_all add: list_scan_def)

lemma list_scan_delivers: "[] \<notin> set bs \<Longrightarrow> delivers list_scan (r, [], bs) bs"
proof (induction bs arbitrary: r)
  case (Cons b bs)
  then obtain x xs where b: "b = x # xs" by (cases b) auto
  have n: "next_result list_scan True (r, [], (x # xs) # bs) = (0, x, xs, bs)" "row_at list_scan (x, xs, bs) = x"
    by (simp_all add: list_scan_def)
  show ?case using Cons b list_scan_cached [of x xs bs "\<lambda>c. delivers list_scan c bs"] by (simp add: n)
qed (simp add: list_scan_def)

subsection \<open>The rows\<close>

fun rows_from :: "string \<Rightarrow> string \<Rightarrow> nat \<Rightarrow> string list \<Rightarrow> string" where
  "rows_from b s k [] = []"
| "rows_from b s k (t # ts) = (if k = 0 then b else s) @ t @ rows_from b s (Suc k) ts"

lemma rows_from_Suc: "rows_from b s (Suc k) ts = concat (map (\<lambda>t. s @ t) ts)"
  by (induction ts arbitrary: k) simp_all

lemma rows_from_0: "rows_from b s 0 ts = (if ts = [] then [] else b @ join s ts)"
  by (cases ts) (simp_all add: rows_from_Suc)

lemma scan_loop_end:
  "fst (next_result api True cur) \<noteq> 0 \<Longrightarrow>
   scan_loop api lead core True k cur rb = Some (k, snd (next_result api True cur), rb)"
  by (subst scan_loop.simps) simp

lemma scan_loop_refetch:
  "fst (next_result api False cur) \<noteq> 0 \<Longrightarrow>
   scan_loop api lead core False k cur rb = scan_loop api lead core True k (snd (next_result api False cur)) rb"
  by (subst scan_loop.simps) simp

lemma scan_loop_row:
  assumes "fst (next_result api f cur) = 0" and "row_at api (snd (next_result api f cur)) = r"
    and "\<And>c rb. core c rb = map_option (\<lambda>rb'. (HTTP_OK, c, rb')) (g (row_at api c) rb)"
    and "appends (lead k) (if k = 0 then b else s)" and "appends (g r) t"
    and "holds rb u" and "int (length (u @ (if k = 0 then b else s) @ t)) < limit"
  shows "\<exists>rb'. scan_loop api lead core f k cur rb =
      scan_loop api lead core False (Suc k) (snd (next_result api f cur)) rb' \<and>
     holds rb' (u @ (if k = 0 then b else s) @ t)"
proof -
  have "appends (\<lambda>rb. do { rb1 \<leftarrow> lead k rb; g r rb1 }) ((if k = 0 then b else s) @ t)"
    by (rule appends_seq [OF assms(4,5)])
  from appendsE [OF this assms(6,7)] obtain rb' where
    "do { rb1 \<leftarrow> lead k rb; g r rb1 } = Some rb'" "holds rb' (u @ (if k = 0 then b else s) @ t)" by blast
  with assms(1-3) show ?thesis
    by (subst scan_loop.simps) (auto split: Option.bind_splits)
qed

lemma batch_rows:
  assumes core: "\<And>c rb. core c rb = map_option (\<lambda>rb'. (HTTP_OK, c, rb')) (g (row_at api c) rb)"
    and lead: "\<And>k. appends (lead k) (if k = 0 then b else s)" and row: "\<And>r. good r \<Longrightarrow> appends (g r) (t r)"
    and rest: "\<And>c k rb u. P c \<Longrightarrow> holds rb u \<Longrightarrow> int (length (u @ rows_from b s k ts)) < limit \<Longrightarrow>
      \<exists>c' rb'. scan_loop api lead core True k c rb = Some (k + length ts, c', rb') \<and> holds rb' (u @ rows_from b s k ts)"
    and "in_batch api cur rs P" and "\<forall>r\<in>set rs. good r" and "holds rb u"
    and "int (length (u @ rows_from b s k (map t rs @ ts))) < limit"
  shows "\<exists>c' rb'. scan_loop api lead core False k cur rb = Some (k + length rs + length ts, c', rb') \<and>
     holds rb' (u @ rows_from b s k (map t rs @ ts))"
  using assms(5-8)
proof (induction rs arbitrary: cur k rb u)
  case Nil
  from rest [of _ rb u k] Nil show ?case by (simp add: scan_loop_refetch)
next
  case (Cons r rs)
  let ?l = "if k = 0 then b else s"
  have n: "fst (next_result api False cur) = 0" "row_at api (snd (next_result api False cur)) = r" "good r"
    using Cons.prems(1,2) by auto
  have l: "int (length (u @ ?l @ t r)) < limit" using Cons.prems(4) by simp
  from scan_loop_row [where lead = lead and k = k and b = b and s = s,
      OF n(1,2) core lead row [OF n(3)] Cons.prems(3) l] obtain rb1 where
    1: "scan_loop api lead core False k cur rb =
        scan_loop api lead core False (Suc k) (snd (next_result api False cur)) rb1" "holds rb1 (u @ ?l @ t r)" by auto
  have "int (length ((u @ ?l @ t r) @ rows_from b s (Suc k) (map t rs @ ts))) < limit" using Cons.prems(4) by simp
  from Cons.IH [OF _ _ 1(2) this, of "snd (next_result api False cur)"] Cons.prems(1,2) 1(1) show ?case by simp
qed

lemma scan_all_rows:
  assumes core: "\<And>c rb. core c rb = map_option (\<lambda>rb'. (HTTP_OK, c, rb')) (g (row_at api c) rb)"
    and lead: "\<And>k. appends (lead k) (if k = 0 then b else s)" and row: "\<And>r. good r \<Longrightarrow> appends (g r) (t r)"
    and "delivers api cur bs" and "\<forall>r\<in>set (concat bs). good r" and "holds rb u"
    and "int (length (u @ rows_from b s k (map t (concat bs)))) < limit"
  shows "\<exists>c' rb'. scan_loop api lead core True k cur rb = Some (k + length (concat bs), c', rb') \<and>
     holds rb' (u @ rows_from b s k (map t (concat bs)))"
  using assms(4-7)
proof (induction bs arbitrary: cur k rb u)
  case Nil
  then show ?case by (simp add: scan_loop_end)
next
  case (Cons x bs)
  then obtain r rs where x: "x = r # rs" by (cases x) auto
  let ?l = "if k = 0 then b else s"
  let ?c = "snd (next_result api True cur)"
  have d: "fst (next_result api True cur) = 0" "row_at api ?c = r" "in_batch api ?c rs (\<lambda>c. delivers api c bs)"
    and g: "good r" "\<forall>r\<in>set rs. good r" "\<forall>r\<in>set (concat bs). good r" using Cons.prems(1,2) x by auto
  have l: "int (length (u @ ?l @ t r)) < limit" using Cons.prems(4) x by simp
  from scan_loop_row [where lead = lead and k = k and b = b and s = s,
      OF d(1,2) core lead row [OF g(1)] Cons.prems(3) l] obtain rb1 where
    1: "scan_loop api lead core True k cur rb = scan_loop api lead core False (Suc k) ?c rb1" "holds rb1 (u @ ?l @ t r)" by auto
  have l: "int (length ((u @ ?l @ t r) @ rows_from b s (Suc k) (map t rs @ map t (concat bs)))) < limit"
    using Cons.prems(4) x by simp
  have "\<exists>c' rb'. scan_loop api lead core True k c rb = Some (k + length (map t (concat bs)), c', rb') \<and>
      holds rb' (u @ rows_from b s k (map t (concat bs)))"
    if "delivers api c bs" "holds rb u" "int (length (u @ rows_from b s k (map t (concat bs)))) < limit" for c k rb u
    using Cons.IH [OF that(1) g(3) that(2,3)] by simp
  from batch_rows [OF core lead row this d(3) g(2) 1(2) l] 1(1) x show ?case by (cases "k = 0") (simp_all add: add.assoc)
qed

text \<open>The rows of a compiled format.\<close>

definition row_ready :: "'f env \<Rightarrow> data_operation \<Rightarrow> cell list \<Rightarrow> node list \<Rightarrow> node \<Rightarrow> result list \<Rightarrow> bool" where
  "row_ready en d heap nodes nd r \<longleftrightarrow> row_text en d r heap nodes nd \<noteq> None"

lemma appends_lead:
  assumes "env_ok en" and "chain_text (\<lambda>c. Some (cell_string c)) heap (l_begin nd) = Some b" and "l_sep nd = Some s"
  shows "appends (row_lead en heap nd k) (if k = 0 then b else s)"
  using assms(3) appends_out_text [OF assms(1), of s] appends_chain_text [OF assms(2,1)]
  by (cases "k = 0") (simp_all add: row_lead_def [abs_def])

lemma scan_rows:
  assumes en: "env_ok en" and "n_class row = Row_loop" and "arr_get nodes (int a) = Some row"
    and "chain_text (\<lambda>c. Some (cell_string c)) heap (l_begin nd) = Some b" and "l_sep nd = Some s"
    and "delivers api cur bs" and "\<forall>r\<in>set (concat bs). row_ready en d heap nodes row r" and "holds rb u"
    and "int (length (u @ rows_from b s 0 (map (\<lambda>r. the (row_text en d r heap nodes row)) (concat bs)))) < limit"
  shows "\<exists>c' rb'. scan_loop api (row_lead en heap nd) (\<lambda>cur rb. run (Suc k) en api heap nodes d a cur rb) True 0 cur rb =
       Some (length (concat bs), c', rb') \<and>
     holds rb' (u @ rows_from b s 0 (map (\<lambda>r. the (row_text en d r heap nodes row)) (concat bs)))"
proof -
  have core: "run (Suc k) en api heap nodes d a cur rb =
      map_option (\<lambda>rb'. (HTTP_OK, cur, rb')) (row_out en d (row_at api cur) heap nodes row rb)" for cur rb
    using assms(2,3) by simp
  have row: "appends (row_out en d r heap nodes row) (the (row_text en d r heap nodes row))"
    if "row_ready en d heap nodes row r" for r
    using that appends_row [OF _ en] by (auto simp: row_ready_def)
  from scan_all_rows [where k = 0, OF core appends_lead [OF en assms(4,5)] row assms(6-9)] show ?thesis by simp
qed

end
