(* ===== verification/Built_In.thy ===== *)
theory Built_In
  imports Output_Scan
begin

text \<open>
  The built-in formats, compiled, and the pages they write. The compiler is run on the format
  descriptions of the program; its result is evaluated once and then used as a constant.
\<close>

definition compiled :: "nat \<Rightarrow> output_format \<Rightarrow> parser \<Rightarrow> output_format \<times> parser" where
  "compiled lb f st = (case compile lb f st of Some (Inr r) \<Rightarrow> r | _ \<Rightarrow> (f, st))"

definition json_compiled :: output_format where
  "json_compiled = fst (compiled 64 json_format new_parser)"

definition json_cells :: "cell list" where
  "json_cells = cells (snd (compiled 64 json_format new_parser))"

lemma json_compiles: "case compile 64 json_format new_parser of Some (Inr r) \<Rightarrow> True | _ \<Rightarrow> False"
  by code_simp

lemma json_parts:
  "is_raw json_compiled = False" "is_JSON json_compiled = True" "top_node json_compiled = Some 1"
  "length (f_nodes json_compiled) = 5"
  "map n_class (f_nodes json_compiled) = [Plain_node, Main_loop, Scan_loop, Row_loop, Rec_attr]"
  "map l_begin (f_nodes json_compiled) = [None, Some 0, Some 3, Some 1, None]"
  "map l_core (f_nodes json_compiled) = [None, Some 2, Some 3, Some 4, None]"
  "map l_sep (f_nodes json_compiled) = [None, Some [], Some ('','' @ NL # '' ''), Some '' , '', None]"
  "map l_end (f_nodes json_compiled) = [None, Some 5, Some 4, Some 2, None]"
  "map n_fmt (f_nodes json_compiled) = [None, None, None, None, Some 6]"
  "map n_null_fmt (f_nodes json_compiled) = [None, None, None, None, Some 9]"
  "json_cells = [text_cell [], text_cell '' { '', text_cell '' }'', text_cell (''['' @ NL # '' ''),
     text_cell ('' '' @ NL # '']''), text_cell [NL],
     (field_cell item_name no_esc quote_all 0)\<lparr>cell_next := Some 7\<rparr>, (text_cell '':'')\<lparr>cell_next := Some 8\<rparr>,
     field_cell item_value esc_json quote_char 0,
     (field_cell item_name no_esc quote_all 0)\<lparr>cell_next := Some 10\<rparr>, text_cell '':null'']"
  by code_simp+

definition json_node :: "nat \<Rightarrow> node" where
  "json_node i = f_nodes json_compiled ! i"

lemma json_get: "i < 5 \<Longrightarrow> arr_get (f_nodes json_compiled) (int i) = Some (json_node i)"
  using json_parts(4) by (simp add: arr_get_def json_node_def)

lemma json_nodes:
  "n_class (json_node 1) = Main_loop" "l_begin (json_node 1) = Some 0" "l_core (json_node 1) = Some 2" "l_end (json_node 1) = Some 5"
  "n_class (json_node 2) = Scan_loop" "l_begin (json_node 2) = Some 3" "l_core (json_node 2) = Some 3"
  "l_sep (json_node 2) = Some ('','' @ NL # '' '')" "l_end (json_node 2) = Some 4"
  "n_class (json_node 3) = Row_loop" "l_begin (json_node 3) = Some 1" "l_core (json_node 3) = Some 4"
  "l_sep (json_node 3) = Some '' , ''" "l_end (json_node 3) = Some 2"
  "n_class (json_node 4) = Rec_attr" "n_fmt (json_node 4) = Some 6" "n_null_fmt (json_node 4) = Some 9"
proof -
  obtain a b c d e where ns: "f_nodes json_compiled = [a, b, c, d, e]"
    using json_parts(4) by (auto simp: length_Suc_conv eval_nat_numeral)
  show "n_class (json_node 1) = Main_loop" "l_begin (json_node 1) = Some 0" "l_core (json_node 1) = Some 2" "l_end (json_node 1) = Some 5"
    "n_class (json_node 2) = Scan_loop" "l_begin (json_node 2) = Some 3" "l_core (json_node 2) = Some 3"
    "l_sep (json_node 2) = Some ('','' @ NL # '' '')" "l_end (json_node 2) = Some 4"
    "n_class (json_node 3) = Row_loop" "l_begin (json_node 3) = Some 1" "l_core (json_node 3) = Some 4"
    "l_sep (json_node 3) = Some '' , ''" "l_end (json_node 3) = Some 2"
    "n_class (json_node 4) = Rec_attr" "n_fmt (json_node 4) = Some 6" "n_null_fmt (json_node 4) = Some 9"
    using json_parts unfolding ns by (simp_all add: json_node_def ns)
qed

lemma json_chains:
  "cell_chain json_cells (Some 0) = Some [text_cell []]"
  "cell_chain json_cells (Some 1) = Some [text_cell '' { '']"
  "cell_chain json_cells (Some 2) = Some [text_cell '' }'']"
  "cell_chain json_cells (Some 3) = Some [text_cell (''['' @ NL # '' '')]"
  "cell_chain json_cells (Some 4) = Some [text_cell ('' '' @ NL # '']'')]"
  "cell_chain json_cells (Some 5) = Some [text_cell [NL]]"
  "map_option (map (\<lambda>c. c\<lparr>cell_next := None\<rparr>)) (cell_chain json_cells (Some 6)) =
     Some [field_cell item_name no_esc quote_all 0, text_cell '':'', field_cell item_value esc_json quote_char 0]"
  "map_option (map (\<lambda>c. c\<lparr>cell_next := None\<rparr>)) (cell_chain json_cells (Some 9)) =
     Some [field_cell item_name no_esc quote_all 0, text_cell '':null'']"
  by code_simp+

subsection \<open>The text of a page\<close>

definition json_value :: "'f env \<Rightarrow> result \<Rightarrow> string option" where
  "json_value en r =
     (if res_null r then Some ''null''
      else do { v \<leftarrow> value_text (e_platform en) (e_printers en) r (Some escape_leaning_toothpicks);
                Some (if quoted_type (nc_type (ra_col (res_rec r))) then DQ # v @ [DQ] else v) })"

definition json_member :: "'f env \<Rightarrow> data_operation \<Rightarrow> result list \<Rightarrow> nat \<Rightarrow> string option" where
  "json_member en d cols n =
     do { r \<leftarrow> arr_get cols (int n);
          nm \<leftarrow> column_name d r (int n);
          v \<leftarrow> json_value en r;
          Some (DQ # nm @ DQ # CHR '':'' # v) }"

definition json_row :: "'f env \<Rightarrow> data_operation \<Rightarrow> result list \<Rightarrow> string option" where
  "json_row en d cols =
     do { ms \<leftarrow> those (map (json_member en d cols) [0..<n_result_cols d]);
          Some ('' { '' @ join '' , '' ms @ '' }'') }"

definition json_page :: "string list \<Rightarrow> string" where
  "json_page rows = (if rows = [] then [] else ''['' @ NL # '' '' @ join ('','' @ NL # '' '') rows @ '' '' @ NL # '']'') @ [NL]"

lemma field_text_next: "field_text en d cols n (c\<lparr>cell_next := x\<rparr>) = field_text en d cols n c"
  by (simp add: field_text_def cong: if_cong)

lemma chain_fields:
  assumes "map_option (map (\<lambda>c. c\<lparr>cell_next := None\<rparr>)) (cell_chain heap p) = Some cs"
  shows "\<exists>cs'. cell_chain heap p = Some cs' \<and> map (field_text en d cols n) cs' = map (field_text en d cols n) cs"
  using assms by (auto simp: field_text_next comp_def)

lemma json_item:
  "item_text en d cols json_cells (json_node 4) (int n) = json_member en d cols n"
proof (cases "arr_get cols (int n)")
  case None
  then show ?thesis by (simp add: item_text_def json_nodes json_member_def)
next
  case (Some r)
  obtain cs where c: "cell_chain json_cells (if res_null r then Some 9 else Some 6) = Some cs"
    "map (field_text en d cols (int n)) cs =
       map (field_text en d cols (int n))
         (field_cell item_name no_esc quote_all 0 #
          (if res_null r then [text_cell '':null''] else [text_cell '':'', field_cell item_value esc_json quote_char 0]))"
    using chain_fields [OF json_chains(7), of en d cols "int n"] chain_fields [OF json_chains(8), of en d cols "int n"]
    by (cases "res_null r") auto
  have "item_text en d cols json_cells (json_node 4) (int n) =
      map_option concat (those (map (field_text en d cols (int n)) cs))"
    using Some c(1) by (cases "res_null r") (simp_all add: item_text_def json_nodes)
  then show ?thesis
    unfolding c(2) using Some
    by (cases "column_name d r (int n)"; cases "value_text (e_platform en) (e_printers en) r (Some escape_leaning_toothpicks)")
       (auto simp: json_member_def json_value_def field_text_def field_cell_def text_cell_def get_escapes_def cell_quotes_def)
qed

lemma json_row_text: "row_text en d cols json_cells (f_nodes json_compiled) (json_node 3) = json_row en d cols"
proof -
  have g: "arr_get (f_nodes json_compiled) 4 = Some (json_node 4)" using json_get [of 4] by simp
  have b: "chain_text (cell_text en d cols) json_cells (Some 1) = Some '' { ''"
    "chain_text (cell_text en d cols) json_cells (Some 2) = Some '' }''"
    by (simp_all add: chain_text_def json_chains cell_text_def field_text_def text_cell_def del: One_nat_def)
  show ?thesis by (simp add: row_text_def json_nodes g b json_item json_row_def [abs_def] del: One_nat_def)
qed

lemma json_rows:
  assumes "env_ok en" and "delivers api cur bs" and "those (map (json_row en d) (concat bs)) = Some ts"
    and "holds rb u" and "int (length (u @ rows_from (''['' @ NL # '' '') ('','' @ NL # '' '') 0 ts)) < limit"
  shows "\<exists>c' rb'. scan_loop api (row_lead en json_cells (json_node 2))
       (\<lambda>cur rb. run (Suc k) en api json_cells (f_nodes json_compiled) d 3 cur rb) True 0 cur rb = Some (length ts, c', rb') \<and>
     holds rb' (u @ rows_from (''['' @ NL # '' '') ('','' @ NL # '' '') 0 ts)"
proof -
  from assms(3) have m: "map (json_row en d) (concat bs) = map Some ts" by (simp add: those_Some)
  then have l: "length (concat bs) = length ts" by (metis length_map)
  have "map (\<lambda>r. the (json_row en d r)) (concat bs) = map the (map Some ts)" unfolding m [symmetric] by simp
  then have t: "map (\<lambda>r. the (json_row en d r)) (concat bs) = ts" by (simp add: comp_def)
  have "\<exists>t. json_row en d r = Some t" if "r \<in> set (concat bs)" for r
  proof -
    have "json_row en d r \<in> set (map (json_row en d) (concat bs))" using that by auto
    then show ?thesis unfolding m by auto
  qed
  then have r: "\<forall>r\<in>set (concat bs). row_ready en d json_cells (f_nodes json_compiled) (json_node 3) r"
    by (auto simp: row_ready_def json_row_text)
  have g: "arr_get (f_nodes json_compiled) (int 3) = Some (json_node 3)" using json_get [of 3] by simp
  have b: "chain_text (\<lambda>c. Some (cell_string c)) json_cells (l_begin (json_node 2)) = Some (''['' @ NL # '' '')"
    by (simp add: json_nodes chain_text_def json_chains text_cell_def)
  from scan_rows [OF assms(1) json_nodes(10) g b json_nodes(8) assms(2) r assms(4)] assms(5)
  show ?thesis unfolding json_row_text t l by simp
qed

subsection \<open>Whole pages\<close>

lemma json_main:
  "opt_text_out en json_cells (l_begin (json_node 1)) rb = out_text en [] rb"
  "opt_text_out en json_cells (l_end (json_node 1)) rb = out_text en [NL] rb"
proof -
  have "length json_cells = 11" "cell_string (json_cells ! 0) = []" "cell_string (json_cells ! 5) = [NL]"
    by code_simp+
  then show "opt_text_out en json_cells (l_begin (json_node 1)) rb = out_text en [] rb"
    "opt_text_out en json_cells (l_end (json_node 1)) rb = out_text en [NL] rb"
    unfolding json_nodes by (simp_all add: opt_text_out_def arr_get_def)
qed

lemma json_results:
  assumes "\<And>rb. holds rb [] \<Longrightarrow> \<exists>c' rb'.
      run (Suc (Suc k)) en api json_cells (f_nodes json_compiled) d 2 cur rb = Some (rc, c', rb') \<and> holds rb' t"
    and "env_ok en" and "int (length (t @ [NL])) < limit"
  shows "\<exists>c' rb'. build_results (Suc (Suc (Suc k))) en api json_cells d json_compiled cur rb = Some (rc, c', rb') \<and>
     holds rb' (t @ [NL])"
proof -
  let ?rb = "init (e_grant en) 8192 rb"
  have i: "holds ?rb []" using assms(2) by (intro init_holds) (simp_all add: env_ok_def)
  from appendsE [OF appends_out_text [OF assms(2), of "[]"] i] obtain rb1 where
    1: "out_text en [] ?rb = Some rb1" "holds rb1 []" by (auto simp: limit_def)
  from assms(1) [OF 1(2)] obtain c' rb2 where
    2: "run (Suc (Suc k)) en api json_cells (f_nodes json_compiled) d 2 cur rb1 = Some (rc, c', rb2)" "holds rb2 t" by blast
  from appendsE [OF appends_out_text [OF assms(2), of "[NL]"] 2(2)] assms(3) obtain rb3 where
    3: "out_text en [NL] rb2 = Some rb3" "holds rb3 (t @ [NL])" by auto
  have g: "arr_get (f_nodes json_compiled) (int 1) = Some (json_node 1)" using json_get [of 1] by simp
  have "run (Suc (Suc (Suc k))) en api json_cells (f_nodes json_compiled) d 1 cur ?rb = Some (rc, c', rb3)"
    unfolding run.simps(2) [of "Suc (Suc k)"] g using 1(1) 2(1) 3(1)
    by (simp add: json_nodes(1) json_nodes(3) json_main del: run.simps One_nat_def)
  with 3(2) show ?thesis
    by (simp add: build_results_def json_parts(1,3) del: run.simps One_nat_def)
qed

lemma json_scan_page:
  assumes "env_ok en" and "d_scanop d" and "delivers api cur bs"
    and "those (map (json_row en d) (concat bs)) = Some ts" and "int (length (json_page ts)) < limit"
  shows "\<exists>c' rb'. build_results (Suc (Suc (Suc k))) en api json_cells d json_compiled cur rb =
       Some (if ts = [] then 404 else HTTP_OK, c', rb') \<and> holds rb' (json_page ts)"
proof -
  let ?b = "''['' @ NL # '' ''" and ?s = "'','' @ NL # '' ''" and ?e = "'' '' @ NL # '']''"
  let ?t = "if ts = [] then [] else ?b @ join ?s ts @ ?e"
  have g: "arr_get (f_nodes json_compiled) (int 2) = Some (json_node 2)" using json_get [of 2] by simp
  have e: "chain_text (\<lambda>c. Some (cell_string c)) json_cells (l_end (json_node 2)) = Some ?e"
    by (simp add: json_nodes chain_text_def json_chains text_cell_def)
  have l: "int (length (?t @ [NL])) < limit" using assms(5) by (simp add: json_page_def split: if_splits)
  have lr: "int (length ([] @ rows_from ?b ?s 0 ts)) < limit"
    using assms(5) by (cases "ts = []") (simp_all add: rows_from_0 json_page_def)
  have "\<exists>c' rb'. run (Suc (Suc k)) en api json_cells (f_nodes json_compiled) d 2 cur rb =
      Some (if ts = [] then 404 else HTTP_OK, c', rb') \<and> holds rb' ?t" if h: "holds rb []" for rb
  proof -
    from json_rows [OF assms(1,3,4) h lr, of k] obtain c' rb1 where
      1: "scan_loop api (row_lead en json_cells (json_node 2))
            (\<lambda>cur rb. run (Suc k) en api json_cells (f_nodes json_compiled) d 3 cur rb) True 0 cur rb = Some (length ts, c', rb1)"
        "holds rb1 (rows_from ?b ?s 0 ts)" by auto
    have unf: "run (Suc (Suc k)) en api json_cells (f_nodes json_compiled) d 2 cur rb =
        do { rb3 \<leftarrow> (if length ts \<noteq> 0 then chain_text_out en json_cells (l_end (json_node 2)) rb1 else Some rb1);
             Some (if length ts \<noteq> 0 then HTTP_OK else 404, c', rb3) }"
      unfolding run.simps(2) [of "Suc k"] g using 1(1) assms(2)
      by (simp add: json_nodes(5) json_nodes(7) del: run.simps)
    show ?thesis
    proof (cases "ts = []")
      case True
      with unf 1(2) show ?thesis by (simp add: rows_from_0)
    next
      case False
      then have r: "rows_from ?b ?s 0 ts = ?b @ join ?s ts" by (simp add: rows_from_0)
      have "int (length ((?b @ join ?s ts) @ ?e)) < limit" using l False by simp
      from appendsE [OF appends_chain_text [OF e assms(1)] 1(2) [unfolded r] this] obtain rb3 where
        "chain_text_out en json_cells (l_end (json_node 2)) rb1 = Some rb3" "holds rb3 ((?b @ join ?s ts) @ ?e)" by blast
      with unf False show ?thesis by simp
    qed
  qed
  from json_results [OF this assms(1) l, of rb] show ?thesis by (cases "ts = []") (simp_all add: json_page_def)
qed

lemma json_row_page:
  assumes "env_ok en" and "\<not> d_scanop d" and "json_row en d (row_at api cur) = Some t"
    and "int (length (t @ [NL])) < limit"
  shows "\<exists>c' rb'. build_results (Suc (Suc (Suc k))) en api json_cells d json_compiled cur rb = Some (HTTP_OK, c', rb') \<and>
     holds rb' (t @ [NL])"
proof -
  have g: "arr_get (f_nodes json_compiled) (int 2) = Some (json_node 2)"
    "arr_get (f_nodes json_compiled) (int 3) = Some (json_node 3)" using json_get [of 2] json_get [of 3] by simp_all
  have run: "run (Suc (Suc k)) en api json_cells (f_nodes json_compiled) d 2 cur rb =
      map_option (\<lambda>rb'. (HTTP_OK, cur, rb')) (row_out en d (row_at api cur) json_cells (f_nodes json_compiled) (json_node 3) rb)" for rb
    unfolding run.simps(2) [of "Suc k"] g(1) using assms(2) g(2)
    by (simp add: json_nodes(5) json_nodes(7) json_nodes(10))
  have a: "appends (row_out en d (row_at api cur) json_cells (f_nodes json_compiled) (json_node 3)) t"
    using assms(3) unfolding json_row_text [symmetric] by (rule appends_row) (rule assms(1))
  have "\<exists>c' rb'. run (Suc (Suc k)) en api json_cells (f_nodes json_compiled) d 2 cur rb = Some (HTTP_OK, c', rb') \<and> holds rb' t"
    if "holds rb []" for rb
    using appendsE [OF a that] assms(4) run [of rb] by fastforce
  from json_results [OF this assms(1,4), of rb] show ?thesis .
qed

end
