(* ===== verification/Format_Cases.thy ===== *)
theory Format_Cases
  imports Built_In
begin

text \<open>
  What the compiler makes of the descriptions of loops. A description with opening text,
  core, separator, ellipses and closing text is compiled into exactly these parts. A
  description that starts with its core loses the core without an error. Some descriptions
  are accepted although running them leaves the arrays.
\<close>

subsection \<open>Scanning\<close>

definition plain :: "string \<Rightarrow> bool" where
  "plain s \<longleftrightarrow> s \<noteq> [] \<and> CHR ''.'' \<notin> set s \<and> CHR ''$'' \<notin> set s \<and> CHR 0x5C \<notin> set s"

definition node_word :: "string \<Rightarrow> bool" where
  "node_word nm \<longleftrightarrow> CHR ''$'' \<notin> set nm \<and> (\<forall>s. field_token (CHR ''$'' # nm @ CHR ''$'' # s) = tok_node)"

text \<open>What can follow a plain text: nothing, a dollar sign, or the ellipses.\<close>

definition stops :: "string \<Rightarrow> bool" where
  "stops s \<longleftrightarrow> s = [] \<or> hd s = CHR ''$'' \<or> take 3 s = ''...''"

lemma plain_length_plain:
  assumes "CHR ''.'' \<notin> set x" and "CHR ''$'' \<notin> set x" and "CHR 0x5C \<notin> set x" and "prev \<noteq> CHR 0x5C" and "stops y"
  shows "plain_length prev (x @ y) = length x"
  using assms(1-4)
proof (induction x arbitrary: prev)
  case Nil
  show ?case
  proof (cases y)
    case (Cons c cs)
    with assms(5) Nil(4) show ?thesis by (cases cs) (auto simp: stops_def)
  qed simp
next
  case (Cons c cs)
  then have "c \<noteq> CHR ''.''" "c \<noteq> CHR ''$''" "c \<noteq> CHR 0x5C" by auto
  with Cons.IH [of c] Cons.prems show ?case by simp
qed

definition begins :: "string option \<Rightarrow> parser \<Rightarrow> ptr" where
  "begins code st = (case code of Some t \<Rightarrow> (t, 0) | None \<Rightarrow> token_next st)"

lemma next_plain:
  assumes "begins code st = (t, int i)" and "i \<le> length t" and "drop i t = x @ y" and "plain x" and "stops y"
  shows "\<exists>st'. next_token code st = Some (Inr (tok_plaintext, st')) \<and> token_start st' = (t, int i) \<and>
     token_next st' = (t, int (i + length x)) \<and> current_token st' = tok_plaintext \<and> cells st' = cells st"
proof -
  have k: "plain_length (CHR 0x00) (x @ y) = length x" using assms(4,5) by (intro plain_length_plain) (auto simp: plain_def)
  obtain c cs where x: "x = c # cs" "c \<noteq> CHR ''.''" "c \<noteq> CHR ''$''" using assms(4) by (cases x) (auto simp: plain_def)
  have r: "rest_at (t, int i) = Some (x @ y)" using assms(2,3) by (simp add: rest_at_def)
  show ?thesis
    using assms(1) r k x
    by (auto simp: next_token_def seq_def scan_def scan_token_def return_def at_def begins_def split: option.splits)
qed

lemma next_dots:
  assumes "begins code st = (t, int i)" and "i \<le> length t" and "drop i t = ''...'' @ y"
  shows "\<exists>st'. next_token code st = Some (Inr (tok_ellipses, st')) \<and> token_start st' = (t, int i) \<and>
     token_next st' = (t, int (i + 3)) \<and> current_token st' = tok_ellipses \<and> cells st' = cells st"
proof -
  have r: "rest_at (t, int i) = Some (''...'' @ y)" using assms(2,3) by (simp add: rest_at_def)
  show ?thesis
    using assms(1) r
    by (auto simp: next_token_def seq_def scan_def scan_token_def return_def at_def begins_def split: option.splits)
qed

lemma next_node:
  assumes "begins code st = (t, int i)" and "i \<le> length t" and "drop i t = CHR ''$'' # nm @ CHR ''$'' # y" and "node_word nm"
  shows "\<exists>st'. next_token code st = Some (Inr (tok_node, st')) \<and> token_start st' = (t, int i) \<and> node_symbol st' = nm \<and>
     token_next st' = (t, int (i + length nm + 2)) \<and> current_token st' = tok_node \<and> cells st' = cells st"
proof -
  have r: "rest_at (t, int i) = Some (CHR ''$'' # nm @ CHR ''$'' # y)" using assms(2,3) by (simp add: rest_at_def)
  have w: "takeWhile (\<lambda>c. c \<noteq> CHR ''$'') (nm @ CHR ''$'' # y) = nm" "field_token (CHR ''$'' # nm @ CHR ''$'' # y) = tok_node"
    using assms(4) by (auto simp: node_word_def takeWhile_append takeWhile_eq_all_conv)
  show ?thesis
    using assms(1) r w
    by (auto simp: next_token_def seq_def scan_def scan_token_def return_def at_def begins_def Let_def split: option.splits)
qed

lemma next_end:
  assumes "begins code st = (t, int (length t))"
  shows "\<exists>st'. next_token code st = Some (Inr (tok_no_more, st')) \<and> current_token st' = tok_no_more \<and>
     token_next st' = token_next st \<and> cells st' = cells st"
proof -
  have "rest_at (t, int (length t)) = Some []" by (simp add: rest_at_def)
  then show ?thesis
    using assms
    by (auto simp: next_token_def seq_def scan_def scan_token_def return_def at_def begins_def split: option.splits)
qed

lemma copy_text:
  assumes "token_start st = (t, int i)" and "token_next st = (t, int (i + length x))" and "i \<le> length t" and "drop i t = x @ y"
    and "x \<noteq> []"
  shows "copy_node_text st = Some (Inr (x, st))"
  using assms by (simp add: copy_node_text_def rest_at_def return_def)

lemma get_cell_plain:
  assumes "begins code st = (t, int i)" and "i \<le> length t" and "drop i t = x @ y" and "plain x" and "stops y"
  shows "\<exists>st'. get_cell lb r code st = Some (Inr (length (cells st), st')) \<and>
     token_next st' = (t, int (i + length x)) \<and> cells st' = cells st @ [text_cell x]"
proof -
  from next_plain [OF assms] obtain st1 where
    1: "next_token code st = Some (Inr (tok_plaintext, st1))" "token_start st1 = (t, int i)"
      "token_next st1 = (t, int (i + length x))" "current_token st1 = tok_plaintext" "cells st1 = cells st" by blast
  have "copy_node_text st1 = Some (Inr (x, st1))"
    using assms(4) by (intro copy_text [OF 1(2,3) assms(2,3)]) (simp add: plain_def)
  then show ?thesis
    unfolding get_cell_def using 1
    by (simp add: is_terminal_def build_cell_def seq_def new_cell_def return_def)
qed

lemma get_cell_none:
  assumes "next_token code st = Some (Inr (tk, st'))" and "\<not> is_terminal tk"
  shows "get_cell lb False code st = Some (Inr (0, st'))"
  using assms unfolding get_cell_def by (simp add: seq_def return_def)

text \<open>A chain of one constant cell, followed by something else, or by the end of the text.\<close>

lemma chain_plain:
  assumes "begins code st = (t, int i)" and "i \<le> length t" and "drop i t = x @ y" and "plain x" and "stops y" and "cells st \<noteq> []"
    and "y = [] \<or> (\<exists>z. y = ''...'' @ z) \<or> (\<exists>nm z. node_word nm \<and> y = CHR ''$'' # nm @ CHR ''$'' # z)"
  shows "\<exists>st'. get_cell_chain lb r code st = Some (Inr (length (cells st), st')) \<and>
     token_next st' = (t, int (i + length x)) \<and> cells st' = cells st @ [text_cell x]"
proof -
  from get_cell_plain [OF assms(1-5)] obtain st1 where
    1: "get_cell lb r code st = Some (Inr (length (cells st), st1))" "token_next st1 = (t, int (i + length x))"
      "cells st1 = cells st @ [text_cell x]" by blast
  have b: "begins None st1 = (t, int (i + length x))" using 1(2) by (simp add: begins_def)
  have l: "i + length x \<le> length t" "drop (i + length x) t = y"
  proof -
    have "length (x @ y) = length t - i" using assms(3) [symmetric] by simp
    then show "i + length x \<le> length t" using assms(2) by simp
    show "drop (i + length x) t = y" using assms(3) by (metis add.commute append_eq_conv_conj drop_drop)
  qed
  have "\<exists>tk st2. next_token None st1 = Some (Inr (tk, st2)) \<and> \<not> is_terminal tk \<and> current_token st2 = tk \<and> cells st2 = cells st1 \<and>
      (if tk = tok_no_more then token_next st2 = token_next st1 else token_start st2 = (t, int (i + length x)))"
  proof -
    consider "y = []" | z where "y = ''...'' @ z" | nm z where "node_word nm" "y = CHR ''$'' # nm @ CHR ''$'' # z"
      using assms(7) by blast
    then show ?thesis
    proof cases
      case 1
      then have "i + length x = length t" using l by simp
      with b next_end [of None st1 t] show ?thesis by (auto simp: is_terminal_def)
    next
      case 2
      from next_dots [OF b l(1)] l(2) 2 show ?thesis by (fastforce simp: is_terminal_def)
    next
      case 3
      from next_node [OF b l(1) _ 3(1)] l(2) 3(2) show ?thesis by (fastforce simp: is_terminal_def)
    qed
  qed
  then obtain tk st2 where 2: "next_token None st1 = Some (Inr (tk, st2))" "\<not> is_terminal tk" "current_token st2 = tk"
    "cells st2 = cells st1" "if tk = tok_no_more then token_next st2 = token_next st1 else token_start st2 = (t, int (i + length x))"
    by blast
  have "chain_loop lb (length (cells st)) st1 = Some (Inr st2)"
    by (subst chain_loop.simps) (simp add: get_cell_none [OF 2(1,2)])
  then show ?thesis
    unfolding get_cell_chain_def using 1 2
    by (auto simp: seq_def return_def rollback_def)
qed

subsection \<open>Loops\<close>

lemma stops_simps [simp]: "stops []" "stops (CHR ''$'' # s)" "stops (''...'' @ s)"
  by (simp_all add: stops_def)

lemma compile_loop_parts:
  assumes "unresolved nd = b @ CHR ''$'' # nm @ CHR ''$'' # s @ ''...'' @ e" and "plain b" and "plain s" and "plain e"
    and "node_word nm" and "symbol f nm = Some a" and "a \<noteq> 0" and "cells st \<noteq> []"
  shows "\<exists>st' nd'. compile_loop lb f nd st = Some (Inr (nd', st')) \<and>
     l_core nd' = Some a \<and> l_sep nd' = Some s \<and>
     cells st' = cells st @ [text_cell b, text_cell e] \<and>
     l_begin nd' = Some (length (cells st)) \<and> l_end nd' = Some (Suc (length (cells st)))"
proof -
  let ?t = "unresolved nd"
  let ?i1 = "length b" and ?i2 = "length b + length nm + 2"
  let ?i3 = "length b + length nm + 2 + length s"
  let ?i4 = "length b + length nm + 2 + length s + 3"
  have d: "drop 0 ?t = b @ CHR ''$'' # nm @ CHR ''$'' # s @ ''...'' @ e" "drop ?i1 ?t = CHR ''$'' # nm @ CHR ''$'' # s @ ''...'' @ e"
    "drop ?i2 ?t = s @ ''...'' @ e" "drop ?i3 ?t = ''...'' @ e" "drop ?i4 ?t = e @ []"
    unfolding assms(1) by (simp_all add: drop_Cons' del: append_assoc)
  have l: "?i1 \<le> length ?t" "?i2 \<le> length ?t" "?i3 \<le> length ?t" "?i4 \<le> length ?t" unfolding assms(1) by simp_all
  have b0: "begins (Some ?t) st = (?t, int 0)" by (simp add: begins_def)
  from chain_plain [OF b0 _ d(1) assms(2) _ assms(8), of lb False] assms(5) obtain st1 where
    1: "get_cell_chain lb False (Some ?t) st = Some (Inr (length (cells st), st1))" "token_next st1 = (?t, int ?i1)"
      "cells st1 = cells st @ [text_cell b]" by fastforce
  have "begins None st1 = (?t, int ?i1)" using 1(2) by (simp add: begins_def)
  from next_node [OF this l(1) d(2) assms(5)] obtain st2 where
    2: "next_token None st1 = Some (Inr (tok_node, st2))" "node_symbol st2 = nm" "token_next st2 = (?t, int ?i2)"
      "cells st2 = cells st1" by blast
  have g: "get_node f False st1 = Some (Inr (a, st2))"
    unfolding get_node_def using 2(1,2) assms(6) by (simp add: seq_def return_def)
  have "begins None st2 = (?t, int ?i2)" using 2(3) by (simp add: begins_def)
  from next_plain [OF this l(2) d(3) assms(3) stops_simps(3)] obtain st3 where
    3: "next_token None st2 = Some (Inr (tok_plaintext, st3))" "token_start st3 = (?t, int ?i2)"
      "token_next st3 = (?t, int ?i3)" "cells st3 = cells st2" by blast
  have c: "copy_node_text st3 = Some (Inr (s, st3))"
    using assms(3) by (intro copy_text [OF 3(2,3) l(2) d(3)]) (simp add: plain_def)
  have s: "get_string False st2 = Some (Inr (Some s, st3))"
    unfolding get_string_def using 3(1) c by (simp add: seq_def return_def)
  have "begins None st3 = (?t, int ?i3)" using 3(3) by (simp add: begins_def)
  from next_dots [OF this l(3) d(4)] obtain st4 where
    4: "next_token None st3 = Some (Inr (tok_ellipses, st4))" "token_next st4 = (?t, int ?i4)" "cells st4 = cells st3" by blast
  have e: "get_ellipses True st3 = Some (Inr (True, st4))"
    unfolding get_ellipses_def using 4(1) by (simp add: seq_def return_def)
  have "begins None st4 = (?t, int ?i4)" "cells st4 \<noteq> []" using 4(2,3) 3(4) 2(4) 1(3) by (simp_all add: begins_def)
  from chain_plain [OF this(1) l(4) d(5) assms(4) _ this(2), of lb False] obtain st5 where
    5: "get_cell_chain lb False None st4 = Some (Inr (length (cells st4), st5))" "token_next st5 = (?t, int (?i4 + length e))"
      "cells st5 = cells st4 @ [text_cell e]" by auto
  have "begins None st5 = (?t, int (length ?t))" using 5(2) assms(1) by (simp add: begins_def)
  from next_end [OF this] obtain st6 where
    6: "next_token None st5 = Some (Inr (tok_no_more, st6))" "cells st6 = cells st5" by blast
  have n: "the_end True st5 = Some (Inr (True, st6))"
    unfolding the_end_def using 6(1) by (simp add: seq_def return_def)
  have tl: "loop_tail lb a st2 = Some (Inr ((s, length (cells st4)), st5))"
    using assms(7) s e 5(1) by (simp add: loop_tail_def seq_def update_def return_def)
  show ?thesis
    unfolding compile_loop_def
    using 1(1) g tl n 6(2) 5(3) 4(3) 3(4) 2(4) 1(3) by (simp add: seq_def return_def)
qed

text \<open>
  A description that starts with its core: the chain of opening cells reads past the core, so
  the loop gets none, and the separator is hung onto the global null cell.
\<close>

lemma compile_loop_core_first:
  assumes "unresolved nd = CHR ''$'' # nm @ CHR ''$'' # s @ ''...''" and "plain s" and "node_word nm" and "cells st \<noteq> []"
  shows "\<exists>st' nd'. compile_loop lb f nd st = Some (Inr (nd', st')) \<and> l_core nd' = Some 0 \<and>
     l_begin nd' = Some 0 \<and> cells st' = (cells st)[0 := (cells st ! 0)\<lparr>cell_next := Some (length (cells st))\<rparr>] @ [text_cell s]"
proof -
  let ?t = "unresolved nd"
  let ?i2 = "length nm + 2" and ?i3 = "length nm + 2 + length s"
  let ?c = "length (cells st)"
  have d: "drop 0 ?t = CHR ''$'' # nm @ CHR ''$'' # s @ ''...''" "drop ?i2 ?t = s @ ''...''" "drop ?i3 ?t = ''...'' @ []"
    unfolding assms(1) by (simp_all add: drop_Cons' del: append_assoc)
  have l: "?i2 \<le> length ?t" "?i3 \<le> length ?t" "length ?t = ?i3 + 3" unfolding assms(1) by simp_all
  have "begins (Some ?t) st = (?t, int 0)" by (simp add: begins_def)
  from next_node [OF this _ d(1) assms(3)] obtain st1 where
    1: "next_token (Some ?t) st = Some (Inr (tok_node, st1))" "token_next st1 = (?t, int ?i2)" "cells st1 = cells st" by auto
  have g: "get_cell lb False (Some ?t) st = Some (Inr (0, st1))"
    by (rule get_cell_none [OF 1(1)]) (simp add: is_terminal_def)
  have "begins None st1 = (?t, int ?i2)" using 1(2) by (simp add: begins_def)
  from get_cell_plain [OF this l(1) d(2) assms(2) stops_simps(3) [of "[]", simplified], of lb False] obtain st2 where
    2: "get_cell lb False None st1 = Some (Inr (?c, st2))" "token_next st2 = (?t, int ?i3)" "cells st2 = cells st @ [text_cell s]"
    using 1(3) by auto
  let ?st = "link_cell 0 ?c st2"
  have "begins None ?st = (?t, int ?i3)" using 2(2) by (simp add: begins_def link_cell_def)
  from next_dots [OF this l(2) d(3)] obtain st3 where
    3: "next_token None ?st = Some (Inr (tok_ellipses, st3))" "token_start st3 = (?t, int ?i3)" "current_token st3 = tok_ellipses"
      "cells st3 = cells ?st" by blast
  have "chain_loop lb ?c ?st = Some (Inr st3)"
    by (subst chain_loop.simps) (simp add: get_cell_none [OF 3(1)] is_terminal_def)
  then have "chain_loop lb 0 st1 = Some (Inr st3)"
    using 2(1) assms(4) by (subst chain_loop.simps) simp
  then have ch: "get_cell_chain lb False (Some ?t) st = Some (Inr (0, rollback st3))"
    unfolding get_cell_chain_def using g 3(3) by (simp add: seq_def return_def)
  have "begins None (rollback st3) = (?t, int ?i3)" using 3(2) by (simp add: begins_def rollback_def)
  from next_dots [OF this l(2) d(3)] obtain st4 where
    4: "next_token None (rollback st3) = Some (Inr (tok_ellipses, st4))" "token_next st4 = (?t, int (?i3 + 3))"
      "cells st4 = cells (rollback st3)" by blast
  have n: "get_node f False (rollback st3) = Some (Inr (0, st4))"
    unfolding get_node_def using 4(1) by (simp add: seq_def return_def)
  have "begins None st4 = (?t, int (length ?t))" using 4(2) l(3) by (simp add: begins_def)
  from next_end [OF this] obtain st5 where
    5: "next_token None st4 = Some (Inr (tok_no_more, st5))" "cells st5 = cells st4" by blast
  have e: "the_end True st4 = Some (Inr (True, st5))"
    unfolding the_end_def using 5(1) by (simp add: seq_def return_def)
  have "cells st5 = (cells st)[0 := (cells st ! 0)\<lparr>cell_next := Some ?c\<rparr>] @ [text_cell s]"
    using 5(2) 4(3) 3(4) 2(3) assms(4) by (simp add: rollback_def link_cell_def nth_append list_update_append)
  then show ?thesis
    unfolding compile_loop_def loop_tail_def using ch n e by (simp add: seq_def return_def)
qed

subsection \<open>Accepted and not runnable\<close>

text \<open>A scan whose core is a record, and a row whose opening text holds a field.\<close>

definition record_scan :: output_format where
  "record_scan =
     define_node ''item'' (new_node Rec_attr ''$value$'' None)
     (define_node ''scan'' (new_node Scan_loop ''[$item$,...]'' None)
     (add_main ''$scan$'' (new_format ''f'')))"

definition field_row :: output_format where
  "field_row =
     define_node ''item'' (new_node Rec_attr ''$value$'' None)
     (define_node ''row'' (new_node Row_loop ''<$value$>$item$,...]'' None)
     (add_main ''$row$'' (new_format ''f'')))"

definition compiles_to :: "output_format \<Rightarrow> (cell list \<Rightarrow> node list \<Rightarrow> bool) \<Rightarrow> bool" where
  "compiles_to f P =
     (case compile 64 f new_parser of Some (Inr (f', st)) \<Rightarrow> P (cells st) (f_nodes f') | _ \<Rightarrow> False)"

lemma record_scan_compiles:
  "compiles_to record_scan (\<lambda>heap ns. map n_class ns = [Plain_node, Main_loop, Scan_loop, Rec_attr] \<and>
     map l_begin ns = [None, Some 0, Some 1, None] \<and> map l_core ns = [None, Some 2, Some 3, None] \<and>
     map n_cell ns = [Some 0, None, None, None])"
  by code_simp

lemma field_row_compiles:
  "compiles_to field_row (\<lambda>heap ns. map n_class ns = [Plain_node, Main_loop, Row_loop, Rec_attr] \<and>
     map l_begin ns = [None, Some 0, Some 1, None] \<and> map l_core ns = [None, Some 2, Some 3, None] \<and>
     map n_cell ns = [Some 0, None, None, None] \<and>
     map (\<lambda>c. (elem_type c, cell_i c)) (the (cell_chain heap (Some 1))) = [(const_string, 0), (item_value, 0), (const_string, 0)])"
  by code_simp

lemma nodes4: "length ns = 4 \<Longrightarrow> \<exists>a b c d. ns = [a, b, c, d]"
  by (auto simp: length_Suc_conv eval_nat_numeral)

lemma record_core_crash:
  assumes "n_class nd = Scan_loop" and "arr_get nodes (int a) = Some nd" and "l_core nd = Some b"
    and "arr_get nodes (int b) = Some core" and "n_class core = Rec_attr" and "n_cell core = None"
  shows "\<not> d_scanop d \<Longrightarrow> run (Suc (Suc k)) en api heap nodes d a cur rb = None"
  using assms by simp

lemma record_scan_crashes:
  "compiles_to record_scan (\<lambda>heap ns. \<forall>(en :: 'f env) (api :: 'c scan_api) d cur rb.
     \<not> d_scanop d \<longrightarrow> run (Suc (Suc (Suc k))) en api heap ns d 1 cur rb = None)"
proof -
  obtain f st where c: "compile 64 record_scan new_parser = Some (Inr (f, st))"
    using record_scan_compiles by (auto simp: compiles_to_def split: option.splits sum.splits)
  let ?ns = "f_nodes f"
  have p: "map n_class ?ns = [Plain_node, Main_loop, Scan_loop, Rec_attr]" "map l_core ?ns = [None, Some 2, Some 3, None]"
     "map n_cell ?ns = [Some 0, None, None, None]"
    using record_scan_compiles c by (simp_all add: compiles_to_def)
  have "length ?ns = 4" using arg_cong [OF p(1), of length] by simp
  then obtain x y z w where ns: "?ns = [x, y, z, w]" using nodes4 by blast
  have "run (Suc (Suc (Suc k))) en api (cells st) ?ns d 1 cur rb = None" if "\<not> d_scanop d"
    for en :: "'f env" and api :: "'c scan_api" and d cur rb
  proof -
    have "run (Suc (Suc k)) en api (cells st) ?ns d 2 cur rb' = None" for rb'
      by (rule record_core_crash [where core = w and b = 3 and nd = z]) (use p that ns in \<open>simp_all add: arr_get_def\<close>)
    then show ?thesis using p unfolding run.simps(2) [of "Suc (Suc k)"]
      by (simp add: ns arr_get_def del: run.simps)
  qed
  then show ?thesis using c by (simp add: compiles_to_def del: run.simps)
qed

lemma field_row_crashes:
  "compiles_to field_row (\<lambda>heap ns. \<forall>(en :: 'f env) (api :: 'c scan_api) d cur rb.
     length (row_at api cur) < 2 ^ 32 \<longrightarrow> run (Suc (Suc k)) en api heap ns d 1 cur rb = None)"
proof -
  obtain f st where c: "compile 64 field_row new_parser = Some (Inr (f, st))"
    using field_row_compiles by (auto simp: compiles_to_def split: option.splits sum.splits)
  let ?ns = "f_nodes f" and ?h = "cells st"
  have p: "map n_class ?ns = [Plain_node, Main_loop, Row_loop, Rec_attr]" "map l_core ?ns = [None, Some 2, Some 3, None]"
     "map l_begin ?ns = [None, Some 0, Some 1, None]"
     "map (\<lambda>c. (elem_type c, cell_i c)) (the (cell_chain ?h (Some 1))) = [(const_string, 0), (item_value, 0), (const_string, 0)]"
    using field_row_compiles c by (simp_all add: compiles_to_def)
  have "length ?ns = 4" using arg_cong [OF p(1), of length] by simp
  then obtain x y z w where ns: "?ns = [x, y, z, w]" using nodes4 by blast
  have row: "row_out en d cols ?h ?ns z rb = None" if cols: "length cols < 2 ^ 32" for en d cols rb
  proof (cases "cell_chain ?h (Some 1)")
    case None
    then show ?thesis using p(3) by (simp add: row_out_def chain_out_def ns del: One_nat_def)
  next
    case (Some cs)
    then obtain a b e where cs: "cs = [a, b, e]" "elem_type b = item_value" "cell_i b = 0" using p(4) by auto
    have "cell_out en d cols b rb' = None" for rb'
      using cs(2,3) cols by (simp add: cell_out_def cell_out_col_def arr_get_def)
    then have "each_out (cell_out en d cols) cs rb = None"
      unfolding cs(1) by (cases "cell_out en d cols a rb") simp_all
    then show ?thesis using p(3) Some by (simp add: row_out_def chain_out_def ns del: One_nat_def)
  qed
  have "run (Suc (Suc k)) en api ?h ?ns d 1 cur rb = None" if l: "length (row_at api cur) < 2 ^ 32"
    for en :: "'f env" and api :: "'c scan_api" and d cur rb
  proof -
    have "run (Suc k) en api ?h ?ns d 2 cur rb' = None" for rb'
      unfolding run.simps(2) [of k] using row [OF l] p(1) by (simp add: ns arr_get_def del: run.simps)
    then show ?thesis using p unfolding run.simps(2) [of "Suc k"]
      by (simp add: ns arr_get_def del: run.simps)
  qed
  then show ?thesis using c by (simp add: compiles_to_def del: run.simps)
qed

end
