(* ===== verification/Apache_Table.thy ===== *)
theory Apache_Table
  imports Query_Source
begin

text \<open>
  The tables of Apache, which hold strings under names: names are compared without regard to
  case, and \<open>ap_table_set\<close> replaces what is stored under the name. They are a store in the
  sense of \<open>keyed_store\<close>, and \<open>http_param_table\<close> of \<open>handlers.cc\<close> fills one from a
  query string.
\<close>

type_synonym apache_table = "(string \<times> string) list"

fun table_get :: "apache_table \<Rightarrow> string \<Rightarrow> string option" where
  "table_get [] nm = None"
| "table_get ((k, v) # t) nm = (if strcasecmp k nm = 0 then Some v else table_get t nm)"

definition table_set :: "string \<Rightarrow> string \<Rightarrow> apache_table \<Rightarrow> apache_table" where
  "table_set nm v t = (nm, v) # filter (\<lambda>(k, _). strcasecmp k nm \<noteq> 0) t"

definition same_name :: "string \<Rightarrow> string \<Rightarrow> bool" where
  "same_name a b \<longleftrightarrow> map to_lower a = map to_lower b"

lemma strcasecmp_iff: "strcasecmp a b = 0 \<longleftrightarrow> same_name a b"
  by (simp add: strcasecmp_def strcmp_iffs same_name_def)

lemma table_get_filter:
  "table_get (filter (\<lambda>(k, _). strcasecmp k nm \<noteq> 0) t) x = (if same_name nm x then None else table_get t x)"
  by (induction t) (auto simp: strcasecmp_iff same_name_def)

lemma table_get_set: "table_get (table_set nm v t) x = (if same_name nm x then Some v else table_get t x)"
  unfolding table_set_def table_get.simps table_get_filter by (simp add: strcasecmp_iff)

interpretation table: keyed_store "map to_lower" "\<lambda>t. True" "\<lambda>k v t. Some (table_set k v t)" "\<lambda>k t. Some (table_get t k)"
  by unfold_locales (auto simp: table_get_set same_name_def)

text \<open>A null string gives no table.\<close>

definition http_param_table ::
  "(string \<Rightarrow> char \<Rightarrow> string \<times> string) \<Rightarrow> (string \<Rightarrow> string) \<Rightarrow> string option \<Rightarrow> apache_table option option" where
  "http_param_table getword unescape_url c =
     (case c of
        None \<Rightarrow> Some None
      | Some data \<Rightarrow>
          map_option Some (each_pair getword unescape_url (\<lambda>key val t. Some (table_set key val t)) data []))"

lemma table_pairs: "apply_pairs (\<lambda>key val t. Some (table_set key val t)) un kvs t =
   table.puts (map (\<lambda>(k, v). (un k, un v)) kvs) t"
  by (induction kvs arbitrary: t) auto

lemma http_param_table_get:
  assumes "getword_law gw"
  shows "\<exists>t. http_param_table gw un (Some data) = Some (Some t) \<and>
     (\<forall>nm. table_get t nm = map_of (rev (map (\<lambda>(k, v). (map to_lower (un k), un v)) (form_pairs data))) (map to_lower nm))"
proof -
  let ?kvs = "map (\<lambda>(k, v). (un k, un v)) (form_pairs data)"
  let ?m = "\<lambda>nm. map_of (rev (map (\<lambda>(k, v). (map to_lower (un k), un v)) (form_pairs data))) (map to_lower nm)"
  have m: "map (\<lambda>(k, v). (map to_lower k, v)) ?kvs = map (\<lambda>(k, v). (map to_lower (un k), un v)) (form_pairs data)" by auto
  from table.puts_look [OF TrueI, where s = "[]" and kvs = ?kvs] obtain t where
    t: "table.puts ?kvs [] = Some t"
    "\<And>j. Some (table_get t j) = (case ?m j of Some v \<Rightarrow> Some (Some v) | None \<Rightarrow> Some (table_get [] j))"
    unfolding m by blast
  have "table_get t j = ?m j" for j using t(2) [of j] by (cases "?m j") simp_all
  with t(1) show ?thesis by (simp add: http_param_table_def each_pair_pairs [OF assms] table_pairs)
qed

end
