(* ===== verification/Format_Registry.thy ===== *)
theory Format_Registry
  imports Built_In Config Apache_Table
begin

text \<open>
  The registry of output formats (\<open>output_format.cc\<close>): a table from names to positions in
  the array of formats, with the positions kept as decimal strings, and the three formats
  that are registered at start-up. A lookup that succeeds gives the format last registered
  under the name; a format that cannot be overridden stays.
\<close>

subsection \<open>Symbol tables\<close>

text \<open>The first node defined under a name keeps it.\<close>

definition format_ok :: "output_format \<Rightarrow> bool" where
  "format_ok f \<longleftrightarrow> length (symbol_table f) = SYM_TAB_SZ \<and>
     (\<forall>b\<in>set (symbol_table f). \<forall>a\<in>set b. a < length (f_nodes f))"

lemma symbol_hash_less: "symbol_hash nm < SYM_TAB_SZ"
proof -
  have "fold hash_step nm 0 mod 16 < 16" by (rule word_mod_less_divisor) simp
  then show ?thesis by (simp add: symbol_hash_def SYM_TAB_SZ_def word_less_nat_alt)
qed

lemma new_format_ok: "format_ok (new_format nm)" "symbol (new_format nm) x = None"
  using symbol_hash_less [of x] by (auto simp: format_ok_def new_format_def symbol_def)

lemma find_symbol_nodes:
  assumes "\<And>a. a \<in> set as \<Longrightarrow> a < length ns \<and> a < length ns' \<and> n_name (ns' ! a) = n_name (ns ! a)"
  shows "find_symbol nm ns' as = find_symbol nm ns as"
  using assms by (induction as) auto

lemma define_node_ok:
  assumes "format_ok f"
  shows "format_ok (define_node nm nd f)"
    and "symbol (define_node nm nd f) x =
      (if symbol f nm = None \<and> x = nm then Some (length (f_nodes f)) else symbol f x)"
    and "a < length (f_nodes f) \<Longrightarrow> f_nodes (define_node nm nd f) ! a = f_nodes f ! a"
    and "symbol f nm = None \<Longrightarrow> f_nodes (define_node nm nd f) ! length (f_nodes f) = nd\<lparr>n_name := nm\<rparr>"
proof -
  let ?l = "length (f_nodes f)"
  have h: "symbol_hash y < length (symbol_table f)" for y using symbol_hash_less assms by (simp add: format_ok_def)
  have old: "find_symbol y (f_nodes f @ [nd']) (symbol_table f ! symbol_hash z) = find_symbol y (f_nodes f) (symbol_table f ! symbol_hash z)"
    for y z nd'
    using assms nth_mem [OF h [of z]] by (intro find_symbol_nodes) (auto simp: format_ok_def nth_append intro: less_SucI)
  have s1: "symbol (f\<lparr>f_nodes := f_nodes f @ [nd]\<rparr>) y = symbol f y" for y by (simp add: symbol_def old)
  have d: "define_node nm nd f =
     (if symbol f nm \<noteq> None then f\<lparr>f_nodes := f_nodes f @ [nd]\<rparr>
      else f\<lparr>f_nodes := f_nodes f @ [nd\<lparr>n_name := nm\<rparr>],
             symbol_table := (symbol_table f)[symbol_hash nm := ?l # symbol_table f ! symbol_hash nm]\<rparr>)"
    by (simp add: define_node_def alloc_node_def add_symbol_def s1)
  show "format_ok (define_node nm nd f)"
  proof (cases "symbol f nm")
    case None
    have "a < Suc ?l" if b: "b \<in> set ((symbol_table f)[symbol_hash nm := ?l # symbol_table f ! symbol_hash nm])" and a: "a \<in> set b" for a b
    proof -
      from b have "b = ?l # symbol_table f ! symbol_hash nm \<or> b \<in> set (symbol_table f)"
        by (auto dest!: set_update_subset_insert [THEN subsetD])
      with a assms nth_mem [OF h [of nm]] show ?thesis by (auto simp: format_ok_def less_Suc_eq)
    qed
    with None assms show ?thesis by (simp add: d format_ok_def)
  next
    case (Some a)
    with assms show ?thesis by (auto simp: d format_ok_def less_Suc_eq)
  qed
  show "symbol (define_node nm nd f) x = (if symbol f nm = None \<and> x = nm then Some ?l else symbol f x)"
  proof (cases "symbol f nm")
    case None
    let ?f = "f\<lparr>f_nodes := f_nodes f @ [nd\<lparr>n_name := nm\<rparr>],
             symbol_table := (symbol_table f)[symbol_hash nm := ?l # symbol_table f ! symbol_hash nm]\<rparr>"
    have "symbol ?f x = (if x = nm then Some ?l else symbol f x)"
    proof (cases "symbol_hash x = symbol_hash nm")
      case True
      then have t: "symbol_table ?f ! symbol_hash x = ?l # symbol_table f ! symbol_hash x" using h [of nm] by simp
      have "symbol ?f x = find_symbol x (f_nodes f @ [nd\<lparr>n_name := nm\<rparr>]) (?l # symbol_table f ! symbol_hash x)"
        unfolding symbol_def t by simp
      then show ?thesis using old [of x "nd\<lparr>n_name := nm\<rparr>" x] by (simp add: strcmp_iffs symbol_def)
    next
      case False
      then have "x \<noteq> nm" by auto
      with False old [of x "nd\<lparr>n_name := nm\<rparr>" x] show ?thesis by (simp add: symbol_def)
    qed
    with None show ?thesis by (simp add: d)
  next
    case (Some a)
    then show ?thesis by (simp add: d s1)
  qed
  show "f_nodes (define_node nm nd f) ! a = f_nodes f ! a" if "a < ?l" using that by (simp add: d nth_append)
  show "f_nodes (define_node nm nd f) ! ?l = nd\<lparr>n_name := nm\<rparr>" if "symbol f nm = None" using that by (simp add: d)
qed

subsection \<open>The registry\<close>

text \<open>\<open>None\<close> stands for a position outside the array.\<close>

record registry =
  global_format_names :: "(string \<times> string) list"
  global_output_formats :: "output_format list"

definition initialize_output_formats :: registry where
  "initialize_output_formats = \<lparr>global_format_names = [], global_output_formats = []\<rparr>"

definition get_format_by_name :: "nat \<Rightarrow> string \<Rightarrow> registry \<Rightarrow> nat option option" where
  "get_format_by_name lb nm reg =
     (case table_get (global_format_names reg) nm of
        None \<Rightarrow> Some None
      | Some idx \<Rightarrow>
          let i = atoi lb idx
          in if in_range i (global_output_formats reg) then Some (Some (nat i)) else None)"

definition register_at :: "output_format \<Rightarrow> registry \<Rightarrow> registry" where
  "register_at f reg =
     \<lparr>global_format_names = table_set (f_name f) (fmt_d (int (length (global_output_formats reg)))) (global_format_names reg),
      global_output_formats = global_output_formats reg @ [f]\<rparr>"

definition register_format :: "nat \<Rightarrow> output_format \<Rightarrow> registry \<Rightarrow> (registry \<times> string option) option" where
  "register_format lb f reg =
     do { existing \<leftarrow> get_format_by_name lb (f_name f) reg;
          Some (case existing of
              Some a \<Rightarrow>
                if \<not> can_override (global_output_formats reg ! a) then
                  (reg, Some (''Output format '' @ DQ # f_name f @ DQ # '' already exists '' @
                     (if is_internal (global_output_formats reg ! a) then ''as an internal format '' else []) @
                     ''and cannot be overriden.''))
                else (register_at f reg, None)
            | None \<Rightarrow> (register_at f reg, None)) }"

text \<open>
  The formats of a server: raw, JSON and XML. The program exits when a built-in format does
  not compile (\<open>None\<close>). The results are the registry and the state of the parser.
\<close>

fun register_formats :: "nat \<Rightarrow> output_format list \<Rightarrow> registry \<Rightarrow> registry option" where
  "register_formats lb [] reg = Some reg"
| "register_formats lb (f # fs) reg = do { (reg', _) \<leftarrow> register_format lb f reg; register_formats lb fs reg' }"

definition register_built_in_formatters :: "nat \<Rightarrow> parser \<Rightarrow> registry \<Rightarrow> (registry \<times> parser) option" where
  "register_built_in_formatters lb st reg =
     (case compile lb json_format st of
        Some (Inr (json, st1)) \<Rightarrow>
          (case compile lb xml_format st1 of
             Some (Inr (xml, st2)) \<Rightarrow>
               map_option (\<lambda>reg'. (reg', st2)) (register_formats lb [raw_format, json, xml] reg)
           | _ \<Rightarrow> None)
      | _ \<Rightarrow> None)"

definition init_srv_formats :: "nat \<Rightarrow> parser \<Rightarrow> registry \<Rightarrow> (registry \<times> parser) option" where
  "init_srv_formats lb st reg = register_built_in_formatters lb st initialize_output_formats"

subsection \<open>Looking up what was registered\<close>

definition registry_ok :: "registry \<Rightarrow> bool" where
  "registry_ok reg \<longleftrightarrow> length (global_output_formats reg) < 2 ^ 31 - 1 \<and>
     (\<forall>nm idx. table_get (global_format_names reg) nm = Some idx \<longrightarrow>
        (\<exists>i < length (global_output_formats reg). idx = fmt_d (int i)))"

lemma get_format_ok:
  assumes "registry_ok reg" and "lb = 32 \<or> lb = 64"
  shows "\<exists>r. get_format_by_name lb nm reg = Some r"
    and "get_format_by_name lb nm reg = Some (Some i) \<longleftrightarrow>
      i < length (global_output_formats reg) \<and> table_get (global_format_names reg) nm = Some (fmt_d (int i))"
proof -
  have a: "atoi lb (fmt_d (int k)) = int k" if "k < 2 ^ 31" for k
    using assms(2) that by (auto simp: atoi_def strtol_fmt_d to_int_id)
  have l: "length (global_output_formats reg) < 2 ^ 31" using assms(1) by (simp add: registry_ok_def)
  have f: "table_get (global_format_names reg) nm = Some idx \<Longrightarrow>
      \<exists>k < length (global_output_formats reg). idx = fmt_d (int k) \<and> atoi lb idx = int k" for idx
  proof -
    assume "table_get (global_format_names reg) nm = Some idx"
    then obtain k where "k < length (global_output_formats reg)" "idx = fmt_d (int k)"
      using assms(1) by (auto simp: registry_ok_def)
    with a [of k] l show ?thesis by auto
  qed
  then show "\<exists>r. get_format_by_name lb nm reg = Some r"
    by (cases "table_get (global_format_names reg) nm") (auto simp: get_format_by_name_def in_range_def)
  show "get_format_by_name lb nm reg = Some (Some i) \<longleftrightarrow>
      i < length (global_output_formats reg) \<and> table_get (global_format_names reg) nm = Some (fmt_d (int i))"
  proof (cases "table_get (global_format_names reg) nm")
    case (Some idx)
    from f [OF this] obtain k where "k < length (global_output_formats reg)" "idx = fmt_d (int k)" "atoi lb idx = int k" by blast
    with Some a [of i] l show ?thesis by (auto simp: get_format_by_name_def in_range_def)
  qed (simp add: get_format_by_name_def)
qed

lemma register_at_ok:
  assumes "registry_ok reg" and "length (global_output_formats reg) < 2 ^ 31 - 2" and "lb = 32 \<or> lb = 64"
  shows "registry_ok (register_at f reg)"
    and "get_format_by_name lb nm (register_at f reg) =
      (if same_name (f_name f) nm then Some (Some (length (global_output_formats reg)))
       else get_format_by_name lb nm reg)"
    and "global_output_formats (register_at f reg) ! length (global_output_formats reg) = f"
proof -
  show ok: "registry_ok (register_at f reg)"
    using assms(1,2) by (auto simp: registry_ok_def register_at_def table_get_set less_Suc_eq)
  show "global_output_formats (register_at f reg) ! length (global_output_formats reg) = f"
    by (simp add: register_at_def)
  show "get_format_by_name lb nm (register_at f reg) =
      (if same_name (f_name f) nm then Some (Some (length (global_output_formats reg)))
       else get_format_by_name lb nm reg)"
  proof (cases "same_name (f_name f) nm")
    case True
    then show ?thesis
      using get_format_ok(2) [OF ok assms(3), of nm "length (global_output_formats reg)"]
      by (simp add: register_at_def table_get_set)
  next
    case False
    then have t: "table_get (global_format_names (register_at f reg)) nm = table_get (global_format_names reg) nm"
      by (simp add: register_at_def table_get_set)
    obtain r r' where r: "get_format_by_name lb nm reg = Some r" "get_format_by_name lb nm (register_at f reg) = Some r'"
      using get_format_ok(1) [OF assms(1,3)] get_format_ok(1) [OF ok assms(3)] by metis
    have "r = r'"
    proof (cases "table_get (global_format_names reg) nm")
      case None
      then show ?thesis using r t by (simp add: get_format_by_name_def)
    next
      case (Some idx)
      then obtain k where "k < length (global_output_formats reg)" "idx = fmt_d (int k)" using assms(1) by (auto simp: registry_ok_def)
      then have "get_format_by_name lb nm reg = Some (Some k)" "get_format_by_name lb nm (register_at f reg) = Some (Some k)"
        using Some t get_format_ok(2) [OF assms(1,3), of nm k] get_format_ok(2) [OF ok assms(3), of nm k]
        by (auto simp: register_at_def)
      with r show ?thesis by simp
    qed
    with r False show ?thesis by simp
  qed
qed

lemma register_format_ok:
  assumes "registry_ok reg" and "length (global_output_formats reg) < 2 ^ 31 - 2" and "lb = 32 \<or> lb = 64"
  shows "\<exists>reg' err. register_format lb f reg = Some (reg', err) \<and> registry_ok reg' \<and>
     (err = None \<longrightarrow> (\<forall>nm. get_format_by_name lb nm reg' =
        (if same_name (f_name f) nm then Some (Some (length (global_output_formats reg)))
         else get_format_by_name lb nm reg)) \<and>
        global_output_formats reg' = global_output_formats reg @ [f]) \<and>
     (err \<noteq> None \<longrightarrow> reg' = reg) \<and>
     (err = None \<longleftrightarrow> (\<forall>i. get_format_by_name lb (f_name f) reg = Some (Some i) \<longrightarrow> can_override (global_output_formats reg ! i)))"
proof -
  obtain r where r: "get_format_by_name lb (f_name f) reg = Some r" using get_format_ok(1) [OF assms(1,3)] by blast
  note a = register_at_ok [OF assms, where f = f]
  have fs: "global_output_formats (register_at f reg) = global_output_formats reg @ [f]" by (simp add: register_at_def)
  show ?thesis
    using r a(1,2) fs assms(1) by (cases r) (auto simp: register_format_def)
qed

end
