(* ===== verification/Handlers.thy ===== *)
theory Handlers
  imports Apache_Table Output_Correct Config_Types
begin

text \<open>
  The error documents of \<open>handlers.cc\<close>. What the module does to a request is a record of
  what it has set and sent. \<open>None\<close> stands for a null pointer or for a directive in a
  \<open>printf\<close> format that has no argument.
\<close>

subsection \<open>Requests\<close>

record reply =
  r_status :: int
  content_type :: string
  headers_out :: apache_table
  r_notes :: apache_table
  content_length :: "int option"
  header_sent :: bool
  body :: string

definition new_reply :: reply where
  "new_reply =
     \<lparr>r_status = 200, content_type = [], headers_out = [], r_notes = [], content_length = None,
      header_sent = False, body = []\<rparr>"

definition DONE :: int where "DONE = -2"

definition send_header :: "reply \<Rightarrow> reply" where
  "send_header r = r\<lparr>header_sent := True\<rparr>"

definition rwrite :: "string \<Rightarrow> reply \<Rightarrow> reply" where
  "rwrite s r = r\<lparr>body := body r @ s\<rparr>"

subsection \<open>Errors of the database\<close>

datatype ndb_status = Success | TemporaryError | PermanentError | UnknownResult

datatype ndb_class =
    NoError | ApplicationError | NoDataFound | ConstraintViolation | SchemaError | OtherClass

record ndb_error =
  err_status :: ndb_status
  err_class :: ndb_class
  err_code :: int
  err_message :: string

subsection \<open>Error documents\<close>

text \<open>
  Text printed as a format without arguments: two percent signs give one, any other directive
  reads an argument that was not passed.
\<close>

fun as_format :: "string \<Rightarrow> string option" where
  "as_format [] = Some []"
| "as_format (c # cs) =
     (if c = CHR ''%'' then
        (case cs of [] \<Rightarrow> None
         | c' # cs' \<Rightarrow> if c' = CHR ''%'' then map_option (\<lambda>t. CHR ''%'' # t) (as_format cs') else None)
      else map_option (\<lambda>t. c # t) (as_format cs))"

definition error_page :: "int \<Rightarrow> ndb_error option \<Rightarrow> string option \<Rightarrow> string option" where
  "error_page status error msg =
     (if status = 400 then Some (''Bad request.'' @ [NL])
      else if status = 403 then do { m \<leftarrow> msg; as_format m }
      else if status = 404 then (case msg of Some m \<Rightarrow> as_format m | None \<Rightarrow> Some (''No data could be found.'' @ [NL]))
      else if status = 405 \<or> status = 406 then Some []
      else if status = 409 then map_option (\<lambda>e. err_message e @ ''.'' @ [NL]) error
      else if status = 500 then (case msg of Some m \<Rightarrow> as_format m | None \<Rightarrow> Some [])
      else if status = 503 then Some []
      else Some (''HTTP return code '' @ fmt_d status @ ''.'' @ [NL]))"

definition page_printed :: "int \<Rightarrow> string option \<Rightarrow> bool" where
  "page_printed status msg \<longleftrightarrow> \<not> (status \<in> {405, 406, 503} \<or> status = 500 \<and> msg = None)"

definition error_headers :: "int \<Rightarrow> string option \<Rightarrow> apache_table \<Rightarrow> apache_table" where
  "error_headers status msg t =
     (case msg of
        None \<Rightarrow> t
      | Some m \<Rightarrow> if status = 405 then table_set ''Allow'' m t
                 else if status = 503 then table_set ''Retry-After'' m t else t)"

definition ndb_handle_error ::
  "(int \<Rightarrow> bool) \<Rightarrow> int \<Rightarrow> ndb_error option \<Rightarrow> string option \<Rightarrow> reply \<Rightarrow> (reply \<times> int) option" where
  "ndb_handle_error grant status error msg r =
     (let page = init grant 4096 (no_buffer 0);
          r1 = r\<lparr>r_notes := table_set ''verbose-error-to'' ''*'' (r_notes r), r_status := status,
                 content_type := ''text/plain'', headers_out := error_headers status msg (headers_out r)\<rparr>
      in do { doc \<leftarrow> error_page status error msg;
              page1 \<leftarrow> (if page_printed status msg then out_fmt grant doc page else Some page);
              s \<leftarrow> buffer_text page1;
              Some (rwrite s (send_header (r1\<lparr>content_length := Some (rb_sz page1)\<rparr>)), DONE) })"

definition allowed_methods :: "dir \<Rightarrow> string" where
  "allowed_methods d =
     join '','' ((if visible d \<noteq> [] then [''GET''] else []) @ (if use_etags d then [''HEAD''] else []) @
       (if updatable d \<noteq> [] then [''POST''] else []) @ (if allow_delete d then [''DELETE''] else []))"

lemma as_format_plain: "CHR ''%'' \<notin> set s \<Longrightarrow> as_format s = Some s"
  by (induction s) auto

lemma holds_text: "holds rb t \<Longrightarrow> buffer_text rb = Some t"
  by (auto simp: holds_def buffer_text_def those_Some)

lemma handle_error_ok:
  assumes "\<forall>n. grant n" and "error_page status error msg = Some doc"
  shows "ndb_handle_error grant status error msg r =
    Some (r\<lparr>r_notes := table_set ''verbose-error-to'' ''*'' (r_notes r), r_status := status, content_type := ''text/plain'',
            headers_out := error_headers status msg (headers_out r), content_length := Some (int (length doc)),
            header_sent := True, body := body r @ doc\<rparr>, DONE)"
proof -
  let ?p = "init grant 4096 (no_buffer 0)"
  have i: "holds ?p []" using assms(1) by (intro init_holds) simp_all
  have "\<exists>p1. (if page_printed status msg then out_fmt grant doc ?p else Some ?p) = Some p1 \<and> holds p1 doc"
  proof (cases "page_printed status msg")
    case True
    then show ?thesis using out_fmt_holds [OF i assms(1), of doc] by simp
  next
    case False
    then have "doc = []" using assms(2) by (auto simp: page_printed_def error_page_def split: option.splits)
    with False i show ?thesis by simp
  qed
  then obtain p1 where p1: "(if page_printed status msg then out_fmt grant doc ?p else Some ?p) = Some p1" "holds p1 doc" by blast
  then have "rb_sz p1 = int (length doc)" by (simp add: holds_def)
  with p1 holds_text [OF p1(2)] assms(2) show ?thesis
    by (simp add: ndb_handle_error_def Let_def send_header_def rwrite_def)
qed

end
