(* ===== verification/Execute.thy ===== *)
theory Execute
  imports Handlers Built_In
begin

text \<open>
  The execution of a batch of operations (\<open>Execute.cc\<close>): the retry loop for temporary
  errors, the classification of the other errors, the pages of the read operations, and the
  state in which the instance is left. The transaction of the NDB API is an argument: what
  \<open>execute\<close> and \<open>executePendingBlobOps\<close> do to it, and the error it reports.
\<close>

subsection \<open>The instance\<close>

record stats =
  requests :: "32 word"
  errors :: "32 word"
  temp_errors :: "32 word"
  total_retry_ms :: "32 word"
  temp_timeouts :: "32 word"

text \<open>\<open>i_tx\<close> is the open transaction, if there is one; its state includes the cursors of its operations.\<close>

record 'c ndb_instance =
  i_tx :: "'c option"
  n_read_ops :: nat
  i_data :: "data_operation list"
  f_aborted :: bool
  f_use_etag :: bool
  f_jsonrequest :: bool
  i_stats :: stats

record 'c tx_api =
  tx_scan :: "'c scan_api"
  tx_blobs :: "'c \<Rightarrow> 'c"
  tx_execute :: "'c \<Rightarrow> 'c"
  tx_error :: "'c \<Rightarrow> ndb_error"

definition zero_data :: data_operation where
  "zero_data =
     \<lparr>d_scanop = False, n_result_cols = 0, result_cols = False, d_aliases = [], d_fmt = None, d_select_star = False\<rparr>"

definition cleanup :: "'c ndb_instance \<Rightarrow> 'c ndb_instance" where
  "cleanup i =
     i\<lparr>i_data := replicate (min (n_read_ops i) (length (i_data i))) zero_data @ drop (n_read_ops i) (i_data i),
       n_read_ops := 0, f_aborted := False, f_use_etag := False, f_jsonrequest := False\<rparr>"

subsection \<open>Waiting\<close>

text \<open>The time a wait takes, as the seconds and microseconds handed to \<open>select\<close>.\<close>

definition milliSleep :: "int \<Rightarrow> int \<times> int" where
  "milliSleep milliseconds =
     (let tv_sec = milliseconds sdiv 1000 in (tv_sec, (milliseconds - tv_sec * 1000) * 1000000))"

subsection \<open>The retry loop\<close>

text \<open>
  The counters have 32 bits and the product wraps around. The result tells whether the
  transaction came through, and gives the waits, the statistics and the transaction.
\<close>

definition sleep_ms :: "32 word \<Rightarrow> 32 word" where
  "sleep_ms retries = 5 + 2 * retries * retries"

partial_function (option) exec_commit ::
  "'c tx_api \<Rightarrow> 32 word \<Rightarrow> 32 word \<Rightarrow> 32 word \<Rightarrow> (int \<times> int) list \<Rightarrow> stats \<Rightarrow> 'c \<Rightarrow>
   (bool \<times> (int \<times> int) list \<times> stats \<times> 'c) option" where
  "exec_commit api limit_ms retries total_wait_time waits st cur =
     (let cur1 = tx_execute api cur; ms = sleep_ms retries in
      if err_status (tx_error api cur1) = TemporaryError then
        if total_wait_time + ms < limit_ms then
          exec_commit api limit_ms (retries + 1) (total_wait_time + ms) (waits @ [milliSleep (sint ms)])
            (st\<lparr>total_retry_ms := total_retry_ms st + ms, temp_errors := temp_errors st + 1\<rparr>) cur1
        else Some (False, waits, st\<lparr>temp_timeouts := temp_timeouts st + 1\<rparr>, cur1)
      else Some (True, waits, st, cur1))"

declare exec_commit.simps [code]

subsection \<open>Errors\<close>

text \<open>The status, the message to show, and whether the dictionary is stale.\<close>

definition handle_exec_error :: "ndb_error \<Rightarrow> int \<times> string option \<times> bool" where
  "handle_exec_error e =
     (case err_class e of
        NoDataFound \<Rightarrow> (404, None, False)
      | ConstraintViolation \<Rightarrow> (409, None, False)
      | ApplicationError \<Rightarrow> (403, Some (err_message e), False)
      | SchemaError \<Rightarrow> (500, None, err_code e \<in> {241, 283, 284, 709})
      | _ \<Rightarrow> (500, None, False))"

subsection \<open>Pages\<close>

text \<open>
  The note of a subrequest: the buffer is read as a null-terminated string, but the buffer
  does not end in a null byte; reading a byte that was never written is undefined.
\<close>

fun read_c_string :: "block \<Rightarrow> string option" where
  "read_c_string [] = None"
| "read_c_string (c # cs) =
     do { x \<leftarrow> c; if x = CHR 0x00 then Some [] else map_option (\<lambda>s. x # s) (read_c_string cs) }"

definition set_note :: "nat \<Rightarrow> result_buffer \<Rightarrow> (string \<times> string option) list \<Rightarrow> (string \<times> string option) list option" where
  "set_note num res notes =
     (let nm = ''ndb_result_'' @ fmt_d (int num) in
      case buff res of
        None \<Rightarrow> Some (notes @ [(nm, None)])
      | Some b \<Rightarrow> map_option (\<lambda>s. notes @ [(nm, Some s)]) (read_c_string b))"

text \<open>
  The loop over the read operations: the response code and the buffer are those of the last
  operation that has a page.
\<close>

definition page_step ::
  "nat \<Rightarrow> 'f env \<Rightarrow> 'c tx_api \<Rightarrow> cell list \<Rightarrow> bool \<Rightarrow> bool \<Rightarrow> nat \<Rightarrow> data_operation \<Rightarrow>
   int \<times> 'c \<times> result_buffer \<times> (string \<times> string option) list \<Rightarrow>
   (int \<times> 'c \<times> result_buffer \<times> (string \<times> string option) list) option" where
  "page_step depth en api heap jsonrequest apache_notes opn d s =
     (case s of (rc, cur, res, notes) \<Rightarrow>
       case (if result_cols d then d_fmt d else None) of
         None \<Rightarrow> Some s
       | Some f \<Rightarrow>
           do { (rc', cur', res') \<leftarrow>
                  (if jsonrequest \<and> \<not> is_JSON f then Some (406, cur, res)
                   else build_results depth en (tx_scan api) heap d f cur res);
                notes' \<leftarrow> (if apache_notes then set_note opn res' notes else Some notes);
                Some (rc', cur', res', notes') })"

fun page_loop ::
  "nat \<Rightarrow> 'f env \<Rightarrow> 'c tx_api \<Rightarrow> cell list \<Rightarrow> bool \<Rightarrow> bool \<Rightarrow> nat \<Rightarrow> data_operation list \<Rightarrow>
   int \<times> 'c \<times> result_buffer \<times> (string \<times> string option) list \<Rightarrow>
   (int \<times> 'c \<times> result_buffer \<times> (string \<times> string option) list) option" where
  "page_loop depth en api heap js an opn [] s = Some s"
| "page_loop depth en api heap js an opn (d # ds) s =
     do { s' \<leftarrow> page_step depth en api heap js an opn d s; page_loop depth en api heap js an (Suc opn) ds s' }"

text \<open>
  What is sent to the client: the length, the ETag, and the stand-in for an empty answer to a
  JSONRequest. The digest and the test of the client's conditions are Apache's.
\<close>

record http_api =
  md5 :: "string \<Rightarrow> string"
  meets_conditions :: "reply \<Rightarrow> int"

definition add_etag :: "http_api \<Rightarrow> bool \<Rightarrow> string option \<Rightarrow> int \<times> reply \<Rightarrow> int \<times> reply" where
  "add_etag http use_etag page s =
     (case page of
        Some t \<Rightarrow>
          if use_etag then
            let r = (snd s)\<lparr>headers_out := table_set ''ETag'' (md5 http t) (headers_out (snd s))\<rparr>
            in (meets_conditions http r, r)
          else s
      | None \<Rightarrow> s)"

definition json_stand_in :: string where "json_stand_in = ''{ }'' @ [NL]"

definition send_page :: "http_api \<Rightarrow> 'c ndb_instance \<Rightarrow> string option \<Rightarrow> reply \<Rightarrow> int \<times> reply" where
  "send_page http i page r =
     (let len = (case page of Some t \<Rightarrow> int (length t) | None \<Rightarrow> 0);
          s1 = ((case page of Some _ \<Rightarrow> HTTP_OK | None \<Rightarrow> 204), r\<lparr>content_length := Some len\<rparr>);
          (rc2, r2) = add_etag http (f_use_etag i) page s1;
          (rc3, page3, r3) =
            (if f_jsonrequest i then
               (case page of
                  Some _ \<Rightarrow> (rc2, page, r2\<lparr>content_type := ''application/jsonrequest''\<rparr>)
                | None \<Rightarrow> (HTTP_OK, Some json_stand_in,
                    r2\<lparr>content_type := ''application/jsonrequest'', content_length := Some 4\<rparr>))
             else (rc2, page, r2))
      in if rc3 = HTTP_OK
         then (rc3, (case page3 of Some t \<Rightarrow> rwrite t | None \<Rightarrow> id) (send_header r3))
         else (rc3, r3))"

subsection \<open>The whole\<close>

record 'c outcome =
  o_code :: int
  o_reply :: reply
  o_notes :: "(string \<times> string option) list"
  o_restart :: bool
  o_waits :: "(int \<times> int) list"
  o_instance :: "'c ndb_instance"

text \<open>The text of the buffer that is sent; a null pointer sends nothing.\<close>

definition page_of :: "result_buffer \<Rightarrow> string option option" where
  "page_of res = (if buff res = None then Some None else map_option Some (buffer_text res))"

definition finish_error ::
  "'f env \<Rightarrow> bool \<Rightarrow> int \<Rightarrow> string option \<Rightarrow> bool \<Rightarrow> ndb_error \<Rightarrow> reply \<Rightarrow> (int \<times> reply \<times> bool) option" where
  "finish_error en do_restart rc msg must_restart e r =
     (if must_restart \<and> do_restart then
        map_option (\<lambda>(r', c). (c, r', True)) (ndb_handle_error (e_grant en) 503 (Some e) (Some ''10'') r)
      else if rc > 399 then
        map_option (\<lambda>(r', c). (c, r', False)) (ndb_handle_error (e_grant en) rc (Some e) msg r)
      else Some (rc, r, False))"

text \<open>
  \<open>to_note\<close>: this is a subrequest whose main request has no note that asks to send the
  result. \<open>mem\<close> is the unspecified allocation size of the uninitialised result buffer.
\<close>

definition ExecuteAll ::
  "nat \<Rightarrow> 'f env \<Rightarrow> 'c tx_api \<Rightarrow> http_api \<Rightarrow> cell list \<Rightarrow> srv \<Rightarrow> bool \<Rightarrow> int \<Rightarrow> reply \<Rightarrow> 'c ndb_instance \<Rightarrow>
   'c outcome option" where
  "ExecuteAll depth en api http heap sv to_note mem r i =
     (case i_tx i of
        None \<Rightarrow>
          Some \<lparr>o_code = 400, o_reply = r, o_notes = [], o_restart = False, o_waits = [], o_instance = cleanup i\<rparr>
      | Some tx \<Rightarrow>
          do { (ok, waits, st, cur) \<leftarrow>
                 exec_commit api (word_of_int (max_retry_ms sv)) 0 0 [] (i_stats i) (tx_blobs api tx);
               let e = tx_error api cur;
               let (rc0, msg, stale) = (if \<not> ok then (503, None, False)
                                        else if err_class e \<noteq> NoError then handle_exec_error e
                                        else (HTTP_OK, None, False));
               (rc1, r1, notes) \<leftarrow>
                 (if ok \<and> err_class e = NoError then
                    do { (rc, cur', res, notes) \<leftarrow>
                           page_loop depth en api heap (f_jsonrequest i) to_note 0 (take (n_read_ops i) (i_data i))
                             (HTTP_OK, cur, no_buffer mem, []);
                         page \<leftarrow> page_of res;
                         let (rc', r') = (if rc = HTTP_OK \<and> \<not> to_note then send_page http i page r else (rc, r));
                         Some (rc', r', notes) }
                  else Some (rc0, r, []));
               (rc2, r2, restart) \<leftarrow> finish_error en (force_restart_flag sv \<noteq> 0) rc1 msg stale e r1;
               Some \<lparr>o_code = rc2, o_reply = r2, o_notes = notes, o_restart = restart, o_waits = waits,
                     o_instance = cleanup (i\<lparr>i_stats := st, i_tx := None\<rparr>)\<rparr> })"

end
