(* ===== verification/Query_Setup.thy ===== *)
theory Query_Setup
  imports Index_Object Execute
begin

text \<open>
  The modules of \<open>Query.cc\<close> that tell an NDB operation what to do: the set-up modules, the parts
  of the key, the filters, and the actions. The operation is the list of the calls made on it;
  \<open>rc\<close>, the behaviour of the NDB API, gives the return code of the last call of such a list. A
  result \<open>None\<close> is a null pointer, an overflow or a failed assertion.
\<close>

subsection \<open>Tables and indexes of the dictionary\<close>

record table_info =
  t_columns :: "ndb_column list"
  t_primary :: "string list"
  t_nullable :: "string \<Rightarrow> bool"

record index_info =
  x_kind :: ndb_index
  x_columns :: "ndb_column list"

definition column_named :: "table_info \<Rightarrow> string \<Rightarrow> ndb_column option" where
  "column_named ti nm = find (\<lambda>c. nc_name c = nm) (t_columns ti)"

definition column_no :: "table_info \<Rightarrow> ndb_column \<Rightarrow> nat" where
  "column_no ti c = length (takeWhile (\<lambda>c'. nc_name c' \<noteq> nc_name c) (t_columns ti))"

subsection \<open>Operations\<close>

datatype 'f op_call =
    Read_tuple | Scan_default | Scan_committed | Scan_sorted bool
  | Insert_tuple | Write_tuple | Interpreted_update | Delete_tuple
  | Equal nat "'f uval" | Set_bound key_target int "'f uval"
  | Filter_not_null nat | Filter_text int nat string nat | Filter_value int nat "'f uval"
  | Set_value nat "'f uval" | Set_null nat | Set_auto nat int int | Inc_value nat | Sub_value nat
  | Set_blob string len_string | Get_value nat | Get_blob nat

text \<open>
  The NDB API: whether \<open>get_ndb_operation\<close> gives an operation (a null pointer otherwise), what the calls of an
  operation return, its error, and what the dictionary says of columns that fill themselves and of blobs.
\<close>

record 'f op_api =
  gives_op :: "access_path \<Rightarrow> bool"
  rc :: "'f op_call list \<Rightarrow> int"
  op_error :: "'f op_call list \<Rightarrow> ndb_error"
  auto_inc :: "'f op_call list \<Rightarrow> int \<times> int"
  has_blob :: "string \<Rightarrow> bool"

type_synonym 'f op = "'f op_call list"

definition tell :: "'f op_api \<Rightarrow> 'f op_call \<Rightarrow> 'f op \<Rightarrow> int \<times> 'f op" where
  "tell api c calls = (rc api (calls @ [c]), calls @ [c])"

subsection \<open>Set-up\<close>

definition setup_scan :: "'f op_api \<Rightarrow> index \<Rightarrow> 'f op \<Rightarrow> int \<times> 'f op" where
  "setup_scan api ix = tell api (if sorted_flag ix then Scan_sorted (descending_flag ix) else Scan_committed)"

definition setup_read :: "'f op_api \<Rightarrow> dir \<Rightarrow> query_items \<Rightarrow> 'f op \<Rightarrow> (int \<times> 'f op) option" where
  "setup_read api d q calls =
     (if q_plan q = Scan then
        Some (if idx_name (index_scan d) = None then tell api Scan_default calls else setup_scan api (index_scan d) calls)
      else if q_plan q = OrderedIndexScan then
        map_option (\<lambda>ix. setup_scan api ix calls) (arr_get (indexes d) (active_index q))
      else Some (tell api Read_tuple calls))"

text \<open>
  The values of a write: one for every updatable column, in the order of the configuration. A
  column that the form does not name keeps its zeroed value; a column that the table does not
  have is only logged.
\<close>

definition form_value ::
  "'f platform \<Rightarrow> table_info \<Rightarrow> string \<Rightarrow> len_string \<Rightarrow> 'f mvalue \<Rightarrow> 'f mvalue option" where
  "form_value pf ti key v m =
     (case column_named ti key of
        None \<Rightarrow> Some m
      | Some col \<Rightarrow>
          do { m1 \<leftarrow> MySQL_value pf m (Some col) (Some (c_str (ls_string v)));
               if use_value m1 = must_use_binary then value_of_binary m1 col v else Some m1 })"

fun form_values ::
  "'f platform \<Rightarrow> table_info \<Rightarrow> form_table \<Rightarrow> string list \<Rightarrow> 'f mvalue list option" where
  "form_values pf ti tab [] = Some []"
| "form_values pf ti tab (key # keys) =
     do { item \<leftarrow> get_item key tab;
          m \<leftarrow> (case item of None \<Rightarrow> Some zero_mvalue | Some v \<Rightarrow> form_value pf ti key v zero_mvalue);
          ms \<leftarrow> form_values pf ti tab keys;
          Some (m # ms) }"

definition set_up_write ::
  "'f platform \<Rightarrow> 'f op_api \<Rightarrow> table_info \<Rightarrow> dir \<Rightarrow> form_table \<Rightarrow> bool \<Rightarrow> 'f op \<Rightarrow>
   (int \<times> 'f mvalue list \<times> 'f op) option" where
  "set_up_write pf api ti d tab is_insert calls =
     do { ms \<leftarrow> form_values pf ti tab (updatable d);
          let c = (if is_insert then Insert_tuple
                   else if \<exists>m\<in>set ms. use_value m = use_interpreted then Interpreted_update
                   else Write_tuple);
          let (r, calls') = tell api c calls;
          Some (r, ms, calls') }"

definition op_setup ::
  "'f platform \<Rightarrow> 'f op_api \<Rightarrow> table_info \<Rightarrow> dir \<Rightarrow> query_items \<Rightarrow> form_table \<Rightarrow> setup_module \<Rightarrow> 'f op \<Rightarrow>
   (int \<times> 'f mvalue list \<times> 'f op) option" where
  "op_setup pf api ti d q tab su calls =
     (case su of
        SetupRead \<Rightarrow> map_option (\<lambda>(r, calls'). (r, [], calls')) (setup_read api d q calls)
      | SetupWrite \<Rightarrow> set_up_write pf api ti d tab False calls
      | SetupInsert \<Rightarrow> set_up_write pf api ti d tab True calls
      | SetupDelete \<Rightarrow> (let (r, calls') = tell api Delete_tuple calls in Some (r, [], calls')))"

subsection \<open>The parts of the key\<close>

text \<open>
  The column a part of the key is compared with: a null pointer (inner \<open>None\<close>) makes the value
  unusable, but the primary key object also asks the column for its number.
\<close>

definition key_column :: "table_info \<Rightarrow> index_info option \<Rightarrow> access_path \<Rightarrow> key_target \<Rightarrow> ndb_column option option" where
  "key_column ti xi a t =
     (case t of
        Named nm \<Rightarrow> Some (column_named ti nm)
      | Part n \<Rightarrow>
          if a = Primary_key_access then
            do { nm \<leftarrow> arr_get (t_primary ti) n; c \<leftarrow> column_named ti nm; Some (Some c) }
          else map_option (\<lambda>x. arr_get (x_columns x) n) xi)"

definition key_op_call :: "table_info \<Rightarrow> access_path \<Rightarrow> ndb_column option \<Rightarrow> key_binding \<Rightarrow> 'f uval \<Rightarrow> 'f op_call" where
  "key_op_call ti a col b u =
     (case a of
        Ordered_access _ \<Rightarrow> Set_bound (kb_target b) (kb_rel b) u
      | Primary_key_access \<Rightarrow> Equal (column_no ti (the col)) u
      | _ \<Rightarrow> Equal (case kb_target b of Part n \<Rightarrow> nat n | Named _ \<Rightarrow> 0) u)"

definition put_key ::
  "'f platform \<Rightarrow> 'f op_api \<Rightarrow> table_info \<Rightarrow> index_info option \<Rightarrow> access_path \<Rightarrow> ('f op \<times> 'f mvalue) key_call" where
  "put_key pf api ti xi a b s =
     (case s of (calls, m) \<Rightarrow>
       do { col \<leftarrow> key_column ti xi a (kb_target b);
            m1 \<leftarrow> MySQL_value pf m col (kb_value b);
            ok \<leftarrow> mval_is_usable m1;
            Some (if \<not> ok then (False, calls, m1)
                  else let (r, calls') = tell api (key_op_call ti a col b (mv_u m1)) calls in (r = 0, calls', m1)) })"

subsection \<open>Filters\<close>

definition COND_LIKE :: int where "COND_LIKE = 6"

definition filter_calls ::
  "'f platform \<Rightarrow> table_info \<Rightarrow> dir \<Rightarrow> query_items \<Rightarrow> int \<Rightarrow> 'f mvalue \<Rightarrow> ('f op \<times> 'f mvalue) option" where
  "filter_calls pf ti d q n m =
     do { keycol \<leftarrow> arr_get (key_columns d) n;
          value \<leftarrow> arr_get (q_keys q) n;
          base \<leftarrow> base_col_name keycol;
          col \<leftarrow> column_named ti base;
          let cond = rel_op keycol;
          let no = column_no ti col;
          (if cond \<ge> COND_LIKE then
             do { v \<leftarrow> value;
                  Some ((if cond = COND_LIKE \<and> t_nullable ti base then [Filter_not_null no] else []) @
                        [Filter_text cond no v (length v)], m) }
           else
             do { m1 \<leftarrow> MySQL_value pf m (Some col) value;
                  Some ([if use_value m1 = use_char
                         then Filter_text cond no (stored_bytes (mv_u m1)) (col_len m1)
                         else Filter_value cond no (mv_u m1)], m1) }) }"

fun filters_loop ::
  "'f platform \<Rightarrow> table_info \<Rightarrow> dir \<Rightarrow> query_items \<Rightarrow> int list \<Rightarrow> 'f op \<times> 'f mvalue \<Rightarrow> ('f op \<times> 'f mvalue) option" where
  "filters_loop pf ti d q [] s = Some s"
| "filters_loop pf ti d q (n # ns) s =
     do { (cs, m) \<leftarrow> filter_calls pf ti d q n (snd s); filters_loop pf ti d q ns (fst s @ cs, m) }"

definition set_filters ::
  "'f platform \<Rightarrow> table_info \<Rightarrow> dir \<Rightarrow> query_items \<Rightarrow> 'f op \<times> 'f mvalue \<Rightarrow> ('f op \<times> 'f mvalue) option" where
  "set_filters pf ti d q s =
     (if q_plan q \<ge> Scan \<and> n_filters q \<noteq> 0 then
        (case filter_list q of
           None \<Rightarrow> None
         | Some fl \<Rightarrow> filters_loop pf ti d q (take (nat (n_filters q)) fl) s)
      else Some s)"

subsection \<open>Actions\<close>

definition result_call :: "table_info \<Rightarrow> ndb_column \<Rightarrow> 'f op_call" where
  "result_call ti col =
     (if nc_type col = Col_Blob \<or> nc_type col = Col_Text then Get_blob (column_no ti col) else Get_value (column_no ti col))"

definition result_column :: "table_info \<Rightarrow> dir \<Rightarrow> nat \<Rightarrow> ndb_column option" where
  "result_column ti d n =
     (if select_star d then arr_get (t_columns ti) (int n)
      else do { nm \<leftarrow> arr_get (visible d) (int n); column_named ti nm })"

definition plan_read :: "table_info \<Rightarrow> dir \<Rightarrow> nat \<Rightarrow> 'f op \<Rightarrow> 'f op option" where
  "plan_read ti d n calls =
     map_option (\<lambda>cols. calls @ map (result_call ti) cols) (those (map (result_column ti d) [0..<n]))"

text \<open>The call for one value; the return code of a call that is not made is that of the generator.\<close>

definition write_call :: "'f op_api \<Rightarrow> table_info \<Rightarrow> ndb_column \<Rightarrow> 'f mvalue \<Rightarrow> 'f op \<Rightarrow> (int \<times> 'f op) option" where
  "write_call api ti col m calls =
     (let no = column_no ti col in
      case use_value m of
        use_autoinc \<Rightarrow>
          (let (e, v) = auto_inc api calls in
           Some (if e = 0 then tell api (Set_auto no (if mv_len m = 8 then 64 else 32) (if mv_len m = 8 then v else v mod 2 ^ 32)) calls
                 else (e, calls)))
      | use_null \<Rightarrow> Some (tell api (Set_null no) calls)
      | use_interpreted \<Rightarrow>
          (case interpreted m of
             is_increment \<Rightarrow> Some (tell api (Inc_value no) calls)
           | is_decrement \<Rightarrow> Some (tell api (Sub_value no) calls)
           | not_interpreted \<Rightarrow> None)
      | use_blob \<Rightarrow>
          (if \<not> has_blob api (nc_name col) then None
           else do { v \<leftarrow> binary_info m; Some (tell api (Set_blob (nc_name col) v) calls) })
      | _ \<Rightarrow> Some (tell api (Set_value no (mv_u m)) calls))"

text \<open>
  The loop of \<open>Plan::Write\<close>. Its variable \<open>eqr\<close> starts as 1; the first non-zero code ends the
  loop with an error document.
\<close>

fun write_loop ::
  "'f op_api \<Rightarrow> table_info \<Rightarrow> 'f mvalue list \<Rightarrow> int \<Rightarrow> 'f op \<Rightarrow> (bool \<times> int \<times> 'f op) option" where
  "write_loop api ti [] eqr calls = Some (True, eqr, calls)"
| "write_loop api ti (m # ms) eqr calls =
     (case mv_column m of
        None \<Rightarrow> write_loop api ti ms eqr calls
      | Some col \<Rightarrow>
          do { ok \<leftarrow> mval_is_usable m;
               (e, calls') \<leftarrow> (if ok then write_call api ti col m calls else Some (-4, calls));
               if e \<noteq> 0 then Some (False, e, calls') else write_loop api ti ms e calls' })"

definition plan_write ::
  "(int \<Rightarrow> bool) \<Rightarrow> 'f op_api \<Rightarrow> table_info \<Rightarrow> 'f mvalue list \<Rightarrow> reply \<Rightarrow> 'f op \<Rightarrow> (int \<times> reply \<times> 'f op) option" where
  "plan_write grant api ti ms r calls =
     do { (completed, eqr, calls') \<leftarrow> write_loop api ti ms 1 calls;
          if completed then Some (eqr, r, calls')
          else map_option (\<lambda>(r', code). (code, r', calls')) (ndb_handle_error grant 500 (Some (op_error api calls')) None r) }"

definition op_action ::
  "(int \<Rightarrow> bool) \<Rightarrow> 'f op_api \<Rightarrow> table_info \<Rightarrow> dir \<Rightarrow> setup_module \<Rightarrow> nat \<Rightarrow> 'f mvalue list \<Rightarrow> reply \<Rightarrow> 'f op \<Rightarrow>
   (int \<times> reply \<times> 'f op) option" where
  "op_action grant api ti d su n ms r calls =
     (case su of
        SetupRead \<Rightarrow> map_option (\<lambda>calls'. (0, r, calls')) (plan_read ti d n calls)
      | SetupDelete \<Rightarrow> Some (0, r, calls)
      | _ \<Rightarrow> plan_write grant api ti ms r calls)"

end
