(* ===== verification/Query_Run.thy ===== *)
theory Query_Run
  imports Query_Setup
begin

text \<open>
  The whole of \<open>Query()\<close>: the check of the table, the preparation for the HTTP method, the keys,
  the transaction, the operation with its set-up, key parts, filters and action, and the two ways
  out, to \<open>ExecuteAll\<close> or through the abort labels. The dictionary, the transactions and the
  operations of the NDB API are arguments, collected in one record.
\<close>

subsection \<open>Surroundings and requests\<close>

record ('f, 'c) query_env =
  qe_env :: "'f env"
  qe_op :: "'f op_api"
  qe_tx :: "'c tx_api"
  qe_http :: http_api
  qe_start :: "'c option"
  qe_attach :: "'f op \<Rightarrow> 'c \<Rightarrow> 'c"
  qe_table :: "string option \<Rightarrow> string option \<Rightarrow> table_info option"
  qe_index :: "string \<Rightarrow> index_info option"
  qe_dict_error :: ndb_error
  qe_getword :: "string \<Rightarrow> char \<Rightarrow> string \<times> string"
  qe_unescape :: "string \<Rightarrow> string"
  qe_formats :: "output_format list"
  qe_cells :: "cell list"
  qe_mval :: "'f mvalue"
  qe_size :: int

text \<open>
  A query source: the request, its content type, whether it leaves the transaction open, and what
  \<open>get_form_data\<close> does.
\<close>

record source =
  src_request :: request
  src_content_type :: "string option"
  keep_tx_open :: bool
  form_data :: "(int \<times> form_table) option"

subsection \<open>The method\<close>

definition read_operation :: "output_format list \<Rightarrow> dir \<Rightarrow> table_info \<Rightarrow> data_operation \<Rightarrow> data_operation" where
  "read_operation fmts d ti data =
     data\<lparr>d_fmt := (case fmt d of None \<Rightarrow> None | Some n \<Rightarrow> arr_get fmts (int n)),
          d_select_star := select_star d,
          n_result_cols := (if select_star d then length (t_columns ti) else length (visible d)),
          d_aliases := (if select_star d then d_aliases data else aliases d),
          result_cols := True\<rparr>"

definition claim_read_slot ::
  "output_format list \<Rightarrow> srv \<Rightarrow> dir \<Rightarrow> table_info \<Rightarrow> 'c ndb_instance \<Rightarrow> ('c ndb_instance \<times> bool) option" where
  "claim_read_slot fmts sv d ti i =
     (if int (n_read_ops i) < max_read_operations sv then
        do { data \<leftarrow> arr_upd (i_data i) (int (n_read_ops i)) (read_operation fmts d ti);
             Some (i\<lparr>i_data := data, n_read_ops := Suc (n_read_ops i), f_use_etag := f_use_etag i \<or> use_etags d\<rparr>, True) }
      else Some (i, False))"

definition start_query ::
  "output_format list \<Rightarrow> srv \<Rightarrow> dir \<Rightarrow> table_info \<Rightarrow> source \<Rightarrow> 'c ndb_instance \<Rightarrow>
   ('c ndb_instance \<times> form_table \<times> (int + setup_module \<times> access_plan)) option" where
  "start_query fmts sv d ti src i =
     (let m = req_method (src_request src) in
      do { (i1, slot) \<leftarrow> (if m = M_GET then claim_read_slot fmts sv d ti i else Some (i, True));
           (form_rc, tab) \<leftarrow> (if m = M_POST then form_data src else Some (HTTP_OK, empty_form));
           Some (i1, tab, choose_setup d (src_request src) slot form_rc) })"

definition refusal :: "dir \<Rightarrow> http_method \<Rightarrow> string option" where
  "refusal d m =
     (case m of
        M_GET \<Rightarrow> Some ''Too many read operations in one transaction.''
      | M_POST \<Rightarrow> None
      | _ \<Rightarrow> Some (allowed_methods d))"

subsection \<open>The operation\<close>

definition index_of :: "('f, 'c) query_env \<Rightarrow> access_path \<Rightarrow> index_info option" where
  "index_of qe a = (case a of Ordered_access nm \<Rightarrow> qe_index qe nm | Unique_access nm \<Rightarrow> qe_index qe nm | _ \<Rightarrow> None)"

definition index_parts :: "table_info \<Rightarrow> index_info option \<Rightarrow> access_path \<Rightarrow> int" where
  "index_parts ti xi a =
     (if a = Primary_key_access then int (length (t_primary ti))
      else case xi of None \<Rightarrow> 0 | Some x \<Rightarrow> int (length (x_columns x)))"

definition open_operation :: "access_path \<Rightarrow> data_operation \<Rightarrow> data_operation" where
  "open_operation a data =
     (case a of Table_scan_access \<Rightarrow> data\<lparr>d_scanop := True\<rparr> | Ordered_access _ \<Rightarrow> data\<lparr>d_scanop := True\<rparr> | _ \<Rightarrow> data)"

definition is_jsonrequest :: "string option \<Rightarrow> bool" where
  "is_jsonrequest ct = (case ct of None \<Rightarrow> False | Some t \<Rightarrow> strcasecmp t ''application/jsonrequest'' = 0)"

text \<open>
  From the set-up to the action. The result: the response code, the reply, whether the JSONRequest
  flag is set, and the calls. A code other than 0 leads to the label \<open>abort1\<close>. The pointer that
  \<open>get_ndb_operation\<close> returns is not tested: the set-up calls a method of it, also when it is null.
\<close>

definition run_operation ::
  "('f, 'c) query_env \<Rightarrow> dir \<Rightarrow> table_info \<Rightarrow> source \<Rightarrow> setup_module \<Rightarrow> query_items \<Rightarrow> access_path \<Rightarrow> form_table \<Rightarrow> nat \<Rightarrow>
   reply \<Rightarrow> (int \<times> reply \<times> bool \<times> 'f op) option" where
  "run_operation qe d ti src su q a tab n r =
     (let pf = e_platform (qe_env qe); api = qe_op qe; grant = e_grant (qe_env qe); xi = index_of qe a in
      if \<not> gives_op api a then None
      else do { (rc1, ms, calls) \<leftarrow> op_setup pf api ti d q tab su [];
           if rc1 \<noteq> 0 then Some (404, r, False, calls)
           else do { (bs, err, s) \<leftarrow> bind_index (put_key pf api ti xi a) d q (new_index_object a (index_parts ti xi)) (calls, qe_mval qe);
             (case err of
                Some msg \<Rightarrow>
                  map_option (\<lambda>(r', code). (code, r', False, fst s))
                    (ndb_handle_error grant 500 (Some (op_error api (fst s))) (Some msg) r)
              | None \<Rightarrow>
                  do { (calls3, m3) \<leftarrow> set_filters pf ti d q s;
                       (code, r', calls4) \<leftarrow> op_action grant api ti d su n ms r calls3;
                       Some (code, r', is_jsonrequest (src_content_type src), calls4) }) } })"

subsection \<open>The ways out\<close>

definition answer :: "int \<Rightarrow> reply \<Rightarrow> 'c ndb_instance \<Rightarrow> 'c outcome" where
  "answer code r i =
     \<lparr>o_code = code, o_reply = r, o_notes = [], o_restart = False, o_waits = [], o_instance = i\<rparr>"

text \<open>
  The label \<open>abort2\<close>. \<open>has_cols\<close>: the operation is a read, whose array of results comes from the
  pool of the connection. When the transaction is kept open the array is released with \<open>delete[]\<close>,
  which is undefined for memory of a pool; otherwise \<open>cleanup\<close> has already cleared the pointer.
\<close>

definition abort_query :: "bool \<Rightarrow> bool \<Rightarrow> int \<Rightarrow> reply \<Rightarrow> 'c ndb_instance \<Rightarrow> 'c outcome option" where
  "abort_query keep has_cols code r i =
     (let code' = (if code = 0 then 500 else code); i1 = i\<lparr>i_tx := None\<rparr> in
      if keep then (if has_cols then None else Some (answer code' r (i1\<lparr>f_aborted := True\<rparr>)))
      else Some (answer code' r (cleanup i1)))"

text \<open>
  The transaction; \<open>Inl\<close>: it was aborted before. When none can be started, \<open>abort1\<close> closes a null
  pointer.
\<close>

definition open_tx :: "'c option \<Rightarrow> 'c ndb_instance \<Rightarrow> (int + 'c) option" where
  "open_tx start i =
     (case i_tx i of
        Some tx \<Rightarrow> Some (Inr tx)
      | None \<Rightarrow> if f_aborted i then Some (Inl 500) else map_option Inr start)"

definition store_operation :: "setup_module \<Rightarrow> access_path \<Rightarrow> 'c ndb_instance \<Rightarrow> 'c ndb_instance option" where
  "store_operation su a i =
     (if su = SetupRead
      then map_option (\<lambda>ds. i\<lparr>i_data := ds\<rparr>) (arr_upd (i_data i) (int (n_read_ops i) - 1) (open_operation a))
      else Some i)"

text \<open>The end of an operation: \<open>abort1\<close> after an error, the main request runs the transaction that a subrequest leaves open.\<close>

definition finish_query ::
  "nat \<Rightarrow> ('f, 'c) query_env \<Rightarrow> srv \<Rightarrow> bool \<Rightarrow> bool \<Rightarrow> int \<Rightarrow> reply \<Rightarrow> 'c ndb_instance \<Rightarrow> 'c outcome option" where
  "finish_query depth qe sv keep cols code r i =
     (if code \<noteq> 0 then abort_query keep cols code r i
      else if keep then Some (answer HTTP_OK r i)
      else ExecuteAll depth (qe_env qe) (qe_tx qe) (qe_http qe) (qe_cells qe) sv False (qe_size qe) r i)"

definition run_query ::
  "nat \<Rightarrow> ('f, 'c) query_env \<Rightarrow> srv \<Rightarrow> dir \<Rightarrow> table_info \<Rightarrow> source \<Rightarrow> setup_module \<Rightarrow> query_items \<Rightarrow> form_table \<Rightarrow>
   reply \<Rightarrow> 'c ndb_instance \<Rightarrow> 'c outcome option" where
  "run_query depth qe sv d ti src su q tab r i =
     (let keep = keep_tx_open src; read = (su = SetupRead) in
      do { otx \<leftarrow> open_tx (qe_start qe) i;
           (case otx of
              Inl code \<Rightarrow> abort_query keep read code r i
            | Inr tx \<Rightarrow>
                do { oa \<leftarrow> choose_access (\<lambda>nm. map_option x_kind (qe_index qe nm)) d q;
                     (case oa of
                        Inl code \<Rightarrow> abort_query keep read code r i
                      | Inr a \<Rightarrow>
                          do { i1 \<leftarrow> store_operation su a i;
                               let n = (if read then n_result_cols (i_data i1 ! (n_read_ops i1 - 1)) else 0);
                               (code, r', js, calls) \<leftarrow> run_operation qe d ti src su q a tab n r;
                               let i2 = i1\<lparr>i_tx := Some (qe_attach qe calls tx), f_jsonrequest := f_jsonrequest i1 \<or> js\<rparr>;
                               finish_query depth qe sv keep read code r' i2 }) }) })"

definition refuse :: "('f, 'c) query_env \<Rightarrow> int \<Rightarrow> ndb_error option \<Rightarrow> string option \<Rightarrow> reply \<Rightarrow> 'c ndb_instance \<Rightarrow> 'c outcome option" where
  "refuse qe status e msg r i =
     map_option (\<lambda>(r', code). answer code r' i) (ndb_handle_error (e_grant (qe_env qe)) status e msg r)"

definition Query ::
  "nat \<Rightarrow> ('f, 'c) query_env \<Rightarrow> srv \<Rightarrow> dir \<Rightarrow> source \<Rightarrow> reply \<Rightarrow> 'c ndb_instance \<Rightarrow> 'c outcome option" where
  "Query depth qe sv d src r i =
     (case qe_table qe (database d) (dir_table d) of
        None \<Rightarrow>
          refuse qe 500 (Some (qe_dict_error qe)) (Some ''Configuration error.'') r
            (i\<lparr>i_stats := (i_stats i)\<lparr>errors := errors (i_stats i) + 1\<rparr>\<rparr>)
      | Some ti \<Rightarrow>
          do { (i1, tab, start) \<leftarrow> start_query (qe_formats qe) sv d ti src i;
               (case start of
                  Inl status \<Rightarrow> refuse qe status None (refusal d (req_method (src_request src))) r i1
                | Inr (su, pl) \<Rightarrow>
                    do { q \<leftarrow> plan_keys (qe_getword qe) (qe_unescape qe) d (src_request src) pl;
                         (if no_plan d (src_request src) q
                          then abort_query (keep_tx_open src) (su = SetupRead) 404 r i1
                          else run_query depth qe sv d ti src su q tab r i1) }) })"

end
