(* ===== verification/Execute_Correct.thy ===== *)
theory Execute_Correct
  imports Execute
begin

text \<open>
  The retry loop returns for every transaction as long as the configured limit leaves room
  for one more wait in 32 bits; what it did is described by the schedule \<open>waited\<close>. Every way
  through \<open>ExecuteAll\<close> leaves the instance ready for the next request; errors of the database
  become error documents; and a request with one JSON read operation is answered by the page
  of its rows.
\<close>

subsection \<open>The schedule of the retries\<close>

fun waited :: "nat \<Rightarrow> nat" where
  "waited 0 = 0"
| "waited (Suc r) = waited r + (5 + 2 * r * r)"

lemma waited_closed: "3 * waited r + 3 * r * r = 16 * r + 2 * r * r * r"
  by (induction r) (simp_all add: algebra_simps)

lemma waited_mono: "r \<le> r' \<Longrightarrow> waited r \<le> waited r'"
  by (induction r' rule: dec_induct) simp_all

lemma waited_bound:
  assumes "waited r < 4294967296"
  shows "r < 1900"
proof (rule ccontr)
  assume "\<not> r < 1900"
  then have "waited 1900 \<le> waited r" by (intro waited_mono) simp
  moreover have "3 * waited 1900 + 3 * 1900 * 1900 = 16 * 1900 + 2 * 1900 * 1900 * 1900" by (rule waited_closed)
  then have "waited 1900 \<ge> 4294967296" by simp
  ultimately show False using assms by simp
qed

lemma wait_bound:
  assumes "waited r < 4294967296"
  shows "5 + 2 * r * r < 8388608"
proof -
  have "r \<le> 1899" using waited_bound [OF assms] by simp
  then have "r * r \<le> 1899 * 1899" by (intro mult_le_mono)
  then show ?thesis by simp
qed

lemma sleep_ms_word:
  assumes "waited r < 4294967296"
  shows "sleep_ms (word_of_nat r) = word_of_nat (5 + 2 * r * r)"
  by (simp add: sleep_ms_def)

lemma unat_small: "n < 4294967296 \<Longrightarrow> unat (word_of_nat n :: 32 word) = n"
  by (simp add: unat_of_nat take_bit_nat_eq_self)

lemma step_condition:
  fixes lim :: "32 word"
  assumes "waited r < 4294967296" and "unat lim + 8388608 \<le> 4294967296" and "waited r \<le> unat lim"
  shows "word_of_nat (waited r) + sleep_ms (word_of_nat r) < lim \<longleftrightarrow> waited (Suc r) < unat lim"
proof -
  have "waited (Suc r) < 4294967296" using wait_bound [OF assms(1)] assms(2,3) by simp
  from unat_small [OF this] have "unat (word_of_nat (waited (Suc r)) :: 32 word) = waited (Suc r)" .
  moreover have "word_of_nat (waited r) + sleep_ms (word_of_nat r) = (word_of_nat (waited (Suc r)) :: 32 word)"
    using sleep_ms_word [OF assms(1)] by simp
  ultimately show ?thesis unfolding word_less_nat_alt by (simp only:)
qed

subsection \<open>The retry loop\<close>

definition after :: "'c tx_api \<Rightarrow> nat \<Rightarrow> 'c \<Rightarrow> 'c" where
  "after api n cur = (tx_execute api ^^ n) cur"

definition temporary :: "'c tx_api \<Rightarrow> 'c \<Rightarrow> bool" where
  "temporary api cur \<longleftrightarrow> err_status (tx_error api cur) = TemporaryError"

definition wait_of :: "nat \<Rightarrow> int \<times> int" where
  "wait_of k = milliSleep (5 + 2 * int k * int k)"

definition retried :: "nat \<Rightarrow> nat \<Rightarrow> stats \<Rightarrow> stats" where
  "retried a b st =
     st\<lparr>total_retry_ms := total_retry_ms st + word_of_nat (waited b - waited a),
        temp_errors := temp_errors st + word_of_nat (b - a)\<rparr>"

lemma after_Suc: "after api n (tx_execute api cur) = after api (Suc n) cur"
  by (simp add: after_def funpow_swap1)

lemma after_1 [simp]: "after api (Suc 0) cur = tx_execute api cur"
  by (simp add: after_def)

lemma retried_refl [simp]: "retried a a st = st"
  by (simp add: retried_def)

lemma add_stats:
  "(let st1 = st\<lparr>total_retry_ms := total_retry_ms st + x, temp_errors := temp_errors st + y\<rparr> in
    st1\<lparr>total_retry_ms := total_retry_ms st1 + x', temp_errors := temp_errors st1 + y'\<rparr>) =
   st\<lparr>total_retry_ms := total_retry_ms st + (x + x'), temp_errors := temp_errors st + (y + y')\<rparr>"
  by (simp add: add.assoc)

lemma retried_step:
  assumes "Suc a \<le> b"
  shows "retried (Suc a) b (st\<lparr>total_retry_ms := total_retry_ms st + word_of_nat (5 + 2 * a * a), temp_errors := temp_errors st + 1\<rparr>) =
     retried a b st"
proof -
  have "waited (Suc a) \<le> waited b" using assms by (rule waited_mono)
  then have w: "waited b - waited a = (5 + 2 * a * a) + (waited b - waited (Suc a))" by simp
  have c: "b - a = Suc (b - Suc a)" using assms by simp
  show ?thesis
    unfolding retried_def w c of_nat_add [of "5 + 2 * a * a"] of_nat_Suc by (rule add_stats [unfolded Let_def])
qed

lemma sint_small:
  assumes "n < 8388608"
  shows "sint (word_of_nat n :: 32 word) = int n"
  using assms by (simp add: sint_uint uint_nat unat_small signed_take_bit_int_eq_self)

lemma sint_wait:
  assumes "waited r < 4294967296"
  shows "milliSleep (sint (sleep_ms (word_of_nat r))) = wait_of r"
  unfolding sleep_ms_word [OF assms] sint_small [OF wait_bound [OF assms]] wait_of_def by simp

text \<open>
  What the loop did: it executed \<open>n + 1\<close> times, waited after each temporary error, and
  stopped because the error was another one or because the next wait would have reached
  the limit.
\<close>

definition gave_up :: "'c tx_api \<Rightarrow> nat \<Rightarrow> nat \<Rightarrow> 'c \<Rightarrow> nat \<Rightarrow> bool" where
  "gave_up api lim r cur n \<longleftrightarrow>
     (\<forall>k<n. temporary api (after api (Suc k) cur) \<and> waited (r + Suc k) < lim) \<and>
     (temporary api (after api (Suc n) cur) \<longrightarrow> lim \<le> waited (r + Suc n))"

definition loop_result :: "'c tx_api \<Rightarrow> nat \<Rightarrow> (int \<times> int) list \<Rightarrow> stats \<Rightarrow> 'c \<Rightarrow> nat \<Rightarrow> bool \<times> (int \<times> int) list \<times> stats \<times> 'c" where
  "loop_result api r waits st cur n =
     (let cur' = after api (Suc n) cur; late = temporary api cur'; st' = retried r (r + n) st in
      (\<not> late, waits @ map wait_of [r..<r + n],
       (if late then st'\<lparr>temp_timeouts := temp_timeouts st' + 1\<rparr> else st'), cur'))"

lemma loop_result_step:
  "loop_result api (Suc r) (waits @ [wait_of r])
     (st\<lparr>total_retry_ms := total_retry_ms st + word_of_nat (5 + 2 * r * r), temp_errors := temp_errors st + 1\<rparr>)
     (tx_execute api cur) n = loop_result api r waits st cur (Suc n)"
proof -
  have "[r..<r + Suc n] = r # [Suc r..<Suc r + n]" by (simp add: upt_conv_Cons)
  moreover have "retried (Suc r) (Suc r + n)
      (st\<lparr>total_retry_ms := total_retry_ms st + word_of_nat (5 + 2 * r * r), temp_errors := temp_errors st + 1\<rparr>) =
      retried r (r + Suc n) st" using retried_step [of r "Suc r + n" st] by simp
  ultimately show ?thesis unfolding loop_result_def Let_def after_Suc
    by (simp only: append_assoc append_Cons append_Nil list.map)
qed

lemma gave_up_step:
  assumes "temporary api (tx_execute api cur)" and "waited (Suc r) < lim" and "gave_up api lim (Suc r) (tx_execute api cur) n"
  shows "gave_up api lim r cur (Suc n)"
proof -
  have "temporary api (after api (Suc k) cur) \<and> waited (r + Suc k) < lim" if "k < Suc n" for k
    using that assms by (cases k) (auto simp: gave_up_def after_Suc simp del: waited.simps)
  then show ?thesis using assms(3) by (simp add: gave_up_def after_Suc del: waited.simps)
qed

lemma exec_commit_runs:
  fixes lim :: "32 word"
  assumes "unat lim + 8388608 \<le> 4294967296" and "waited r \<le> unat lim"
  shows "\<exists>n. exec_commit api lim (word_of_nat r) (word_of_nat (waited r)) waits st cur =
      Some (loop_result api r waits st cur n) \<and> gave_up api (unat lim) r cur n"
  using assms(2)
proof (induction "unat lim - waited r" arbitrary: r waits st cur rule: less_induct)
  case less
  have small: "waited r < 4294967296" using assms(1) less.prems by simp
  note c = step_condition [OF small assms(1) less.prems]
  show ?case
  proof (cases "temporary api (tx_execute api cur) \<and> waited (Suc r) < unat lim")
    case True
    let ?st = "st\<lparr>total_retry_ms := total_retry_ms st + word_of_nat (5 + 2 * r * r), temp_errors := temp_errors st + 1\<rparr>"
    have ar: "(word_of_nat r :: 32 word) + 1 = word_of_nat (Suc r)" by simp
    have aw: "word_of_nat (waited r) + sleep_ms (word_of_nat r) = (word_of_nat (waited (Suc r)) :: 32 word)"
      using sleep_ms_word [OF small] by simp
    have "exec_commit api lim (word_of_nat r) (word_of_nat (waited r)) waits st cur =
        exec_commit api lim (word_of_nat (Suc r)) (word_of_nat (waited (Suc r))) (waits @ [wait_of r]) ?st (tx_execute api cur)"
      using True c unfolding ar [symmetric] aw [symmetric] temporary_def sleep_ms_word [OF small, symmetric]
      by (subst exec_commit.simps) (simp add: Let_def sint_wait [OF small] del: waited.simps)
    moreover have "unat lim - waited (Suc r) < unat lim - waited r" using True by simp arith
    then obtain n where "exec_commit api lim (word_of_nat (Suc r)) (word_of_nat (waited (Suc r))) (waits @ [wait_of r]) ?st
        (tx_execute api cur) = Some (loop_result api (Suc r) (waits @ [wait_of r]) ?st (tx_execute api cur) n)"
      "gave_up api (unat lim) (Suc r) (tx_execute api cur) n" using less.hyps [of "Suc r"] True by (meson less_imp_le)
    ultimately show ?thesis using gave_up_step True loop_result_step by metis
  next
    case False
    then have "exec_commit api lim (word_of_nat r) (word_of_nat (waited r)) waits st cur = Some (loop_result api r waits st cur 0)"
      using c by (subst exec_commit.simps) (auto simp: Let_def loop_result_def temporary_def simp del: waited.simps)
    moreover have "gave_up api (unat lim) r cur 0" using False by (auto simp: gave_up_def)
    ultimately show ?thesis by blast
  qed
qed

text \<open>The limit of the configuration is read as an unsigned number of 32 bits.\<close>

lemma exec_commit_returns:
  assumes "0 \<le> max_ms" and "max_ms \<le> 2 ^ 32 - 2 ^ 23"
  shows "\<exists>n. exec_commit api (word_of_int max_ms) 0 0 [] st cur = Some (loop_result api 0 [] st cur n) \<and>
     gave_up api (nat max_ms) 0 cur n"
proof -
  have u: "unat (word_of_int max_ms :: 32 word) = nat max_ms"
    using unat_small [of "nat max_ms"] assms by (simp add: nat_less_iff)
  moreover have "nat max_ms + 8388608 \<le> 4294967296" using assms by simp
  ultimately have "unat (word_of_int max_ms :: 32 word) + 8388608 \<le> 4294967296" by simp
  from exec_commit_runs [OF this, of 0 api "[]" st cur] u show ?thesis by simp
qed

text \<open>Temporary errors until the next wait would reach the limit: the last execution is counted as a timeout.\<close>

lemma exec_commit_late:
  assumes "0 \<le> max_ms" and "max_ms \<le> 2 ^ 32 - 2 ^ 23" and "\<forall>k\<le>n. temporary api (after api (Suc k) cur)"
    and "\<forall>k<n. waited (Suc k) < nat max_ms" and "nat max_ms \<le> waited (Suc n)"
  shows "exec_commit api (word_of_int max_ms) 0 0 [] st cur = Some (False, map wait_of [0..<n],
     st\<lparr>total_retry_ms := total_retry_ms st + word_of_nat (waited n), temp_errors := temp_errors st + word_of_nat n,
       temp_timeouts := temp_timeouts st + 1\<rparr>, after api (Suc n) cur)"
proof -
  from exec_commit_returns [OF assms(1,2), of api st cur] obtain m where
    m: "exec_commit api (word_of_int max_ms) 0 0 [] st cur = Some (loop_result api 0 [] st cur m)" "gave_up api (nat max_ms) 0 cur m"
    by blast
  have "m = n"
  proof (rule linorder_cases [of m n])
    assume l: "m < n"
    with assms(3) m(2) have "nat max_ms \<le> waited (Suc m)" by (simp add: gave_up_def del: waited.simps)
    moreover have "waited (Suc m) < nat max_ms" using assms(4) l by blast
    ultimately show ?thesis by linarith
  next
    assume "n < m"
    with m(2) have "waited (0 + Suc n) < nat max_ms" unfolding gave_up_def by blast
    with assms(5) show ?thesis by (simp del: waited.simps)
  qed
  moreover have "waited 0 = 0" by simp
  ultimately show ?thesis using m(1) assms(3) by (simp add: loop_result_def Let_def retried_def del: waited.simps)
qed

subsection \<open>Waiting\<close>

lemma milliSleep_eq:
  assumes "0 \<le> ms"
  shows "milliSleep ms = (ms div 1000, ms mod 1000 * 1000000)"
proof -
  have "ms sdiv 1000 = ms div 1000" using assms by (cases "ms = 0") (simp_all add: signed_divide_int_def)
  then show ?thesis unfolding milliSleep_def Let_def minus_div_mult_eq_mod [symmetric] by simp
qed

lemma wait_of_short: "k < 22 \<Longrightarrow> wait_of k = (0, int (5 + 2 * k * k) * 1000000)"
proof -
  assume "k < 22"
  then have "k \<le> 21" by simp
  then have "k * k \<le> 21 * 21" by (intro mult_le_mono)
  then have "int (5 + 2 * (k * k)) < 1000" by linarith
  then show ?thesis by (simp add: wait_of_def milliSleep_eq mult.assoc)
qed

subsection \<open>Error documents\<close>

text \<open>The status a classification of the NDB API stands for.\<close>

fun status_of :: "ndb_class \<Rightarrow> int" where
  "status_of NoDataFound = 404"
| "status_of ConstraintViolation = 409"
| "status_of ApplicationError = 403"
| "status_of _ = 500"

definition stale_dictionary :: "ndb_error \<Rightarrow> bool" where
  "stale_dictionary e \<longleftrightarrow> err_class e = SchemaError \<and> err_code e \<in> {241, 283, 284, 709}"

text \<open>What the client reads.\<close>

definition document_of :: "ndb_error \<Rightarrow> string" where
  "document_of e =
     (case err_class e of
        NoDataFound \<Rightarrow> ''No data could be found.'' @ [NL]
      | ConstraintViolation \<Rightarrow> err_message e @ ''.'' @ [NL]
      | ApplicationError \<Rightarrow> err_message e
      | _ \<Rightarrow> [])"

lemma handle_exec_error_eq:
  "handle_exec_error e =
     (status_of (err_class e), (if err_class e = ApplicationError then Some (err_message e) else None), stale_dictionary e)"
  by (cases "err_class e") (simp_all add: handle_exec_error_def stale_dictionary_def)

lemma error_page_of_class:
  assumes "CHR ''%'' \<notin> set (err_message e)"
  shows "error_page (status_of (err_class e)) (Some e) (if err_class e = ApplicationError then Some (err_message e) else None) =
    Some (document_of e)"
  using assms by (cases "err_class e") (simp_all add: error_page_def document_of_def as_format_plain)

definition error_reply :: "int \<Rightarrow> apache_table \<Rightarrow> string \<Rightarrow> reply \<Rightarrow> reply" where
  "error_reply status headers doc r =
     r\<lparr>r_notes := table_set ''verbose-error-to'' ''*'' (r_notes r), r_status := status, content_type := ''text/plain'',
       headers_out := headers, content_length := Some (int (length doc)), header_sent := True, body := body r @ doc\<rparr>"

lemma finish_error_class:
  assumes "env_ok en" and "CHR ''%'' \<notin> set (err_message e)" and "handle_exec_error e = (rc, msg, stale)"
  shows "finish_error en restart rc msg stale e r =
    Some (if stale_dictionary e \<and> restart
          then (DONE, error_reply 503 (table_set ''Retry-After'' ''10'' (headers_out r)) [] r, True)
          else (DONE, error_reply (status_of (err_class e)) (headers_out r) (document_of e) r, False))"
proof -
  have g: "\<forall>n. e_grant en n" using assms(1) by (simp add: env_ok_def)
  have d: "rc = status_of (err_class e)" "msg = (if err_class e = ApplicationError then Some (err_message e) else None)"
    "stale = stale_dictionary e" using assms(3) by (simp_all add: handle_exec_error_eq)
  have p: "error_page 503 (Some e) (Some ''10'') = Some []" by (simp add: error_page_def)
  have h: "error_headers rc msg (headers_out r) = headers_out r" unfolding d(1,2)
    by (cases "err_class e") (simp_all add: error_headers_def)
  have rc: "rc > 399" unfolding d by (cases "err_class e") simp_all
  have 1: "ndb_handle_error (e_grant en) 503 (Some e) (Some ''10'') r =
      Some (error_reply 503 (table_set ''Retry-After'' ''10'' (headers_out r)) [] r, DONE)"
    using handle_error_ok [OF g p, of r] by (simp add: error_reply_def error_headers_def)
  have 2: "ndb_handle_error (e_grant en) rc (Some e) msg r =
      Some (error_reply (status_of (err_class e)) (headers_out r) (document_of e) r, DONE)"
    using handle_error_ok [OF g error_page_of_class [OF assms(2)], of r] h unfolding d by (simp add: error_reply_def)
  show ?thesis using rc 1 2 d(3) by (simp add: finish_error_def)
qed

subsection \<open>The state of the instance\<close>

definition clean :: "'c ndb_instance \<Rightarrow> bool" where
  "clean i \<longleftrightarrow> n_read_ops i = 0 \<and> \<not> f_aborted i \<and> \<not> f_use_etag i \<and> \<not> f_jsonrequest i"

lemma cleanup_clean: "clean (cleanup i)" "i_tx (cleanup i) = i_tx i" "length (i_data (cleanup i)) = length (i_data i)"
  by (simp_all add: clean_def cleanup_def)

lemma cleanup_rest: "n_read_ops i \<le> n \<Longrightarrow> n < length (i_data i) \<Longrightarrow> i_data (cleanup i) ! n = i_data i ! n"
  by (simp add: cleanup_def nth_append)

lemma cleanup_data: "n < n_read_ops i \<Longrightarrow> n < length (i_data i) \<Longrightarrow> i_data (cleanup i) ! n = zero_data"
  by (simp add: cleanup_def nth_append)

lemma ExecuteAll_instance:
  assumes "ExecuteAll depth en api http heap sv to_note mem r i = Some out"
  shows "\<exists>st. o_instance out = cleanup (i\<lparr>i_stats := st, i_tx := None\<rparr>)"
proof (cases "i_tx i")
  case None
  moreover from None have "i\<lparr>i_stats := i_stats i, i_tx := None\<rparr> = i" by (cases i) simp
  then have "cleanup i = cleanup (i\<lparr>i_stats := i_stats i, i_tx := None\<rparr>)" by (simp only:)
  ultimately show ?thesis using assms by (intro exI [of _ "i_stats i"]) (auto simp: ExecuteAll_def)
next
  case (Some tx)
  then show ?thesis using assms
    by (auto simp: ExecuteAll_def Let_def split: prod.splits option.splits Option.bind_splits if_splits)
qed

subsection \<open>Requests that fail\<close>

lemma ExecuteAll_failed:
  assumes "env_ok en" and "i_tx i = Some tx"
    and "exec_commit api (word_of_int (max_retry_ms sv)) 0 0 [] (i_stats i) (tx_blobs api tx) = Some (True, waits, st, cur)"
    and "err_class (tx_error api cur) \<noteq> NoError" and "CHR ''%'' \<notin> set (err_message (tx_error api cur))"
  shows "ExecuteAll depth en api http heap sv to_note mem r i =
    Some (let e = tx_error api cur; restart = stale_dictionary e \<and> force_restart_flag sv \<noteq> 0 in
      \<lparr>o_code = DONE,
       o_reply = (if restart then error_reply 503 (table_set ''Retry-After'' ''10'' (headers_out r)) [] r
                  else error_reply (status_of (err_class e)) (headers_out r) (document_of e) r),
       o_notes = [], o_restart = restart, o_waits = waits,
       o_instance = cleanup (i\<lparr>i_stats := st, i_tx := None\<rparr>)\<rparr>)"
proof -
  obtain rc msg stale where h: "handle_exec_error (tx_error api cur) = (rc, msg, stale)" by (metis prod_cases3)
  show ?thesis using finish_error_class [OF assms(1,5) h, of "force_restart_flag sv \<noteq> 0" r] assms(2-4) h
    by (simp add: ExecuteAll_def Let_def)
qed

lemma ExecuteAll_late:
  assumes "env_ok en" and "i_tx i = Some tx"
    and "exec_commit api (word_of_int (max_retry_ms sv)) 0 0 [] (i_stats i) (tx_blobs api tx) = Some (False, waits, st, cur)"
  shows "ExecuteAll depth en api http heap sv to_note mem r i =
    Some \<lparr>o_code = DONE, o_reply = error_reply 503 (headers_out r) [] r, o_notes = [], o_restart = False, o_waits = waits,
          o_instance = cleanup (i\<lparr>i_stats := st, i_tx := None\<rparr>)\<rparr>"
proof -
  have g: "\<forall>n. e_grant en n" using assms(1) by (simp add: env_ok_def)
  have p: "error_page 503 (Some (tx_error api cur)) None = Some []" by (simp add: error_page_def)
  have "ndb_handle_error (e_grant en) 503 (Some (tx_error api cur)) None r = Some (error_reply 503 (headers_out r) [] r, DONE)"
    using handle_error_ok [OF g p, of r] by (simp add: error_reply_def error_headers_def)
  then show ?thesis using assms(2,3) by (simp add: ExecuteAll_def finish_error_def)
qed

lemma ExecuteAll_timeout:
  assumes "env_ok en" and "i_tx i = Some tx" and "0 \<le> max_retry_ms sv" and "max_retry_ms sv \<le> 2 ^ 32 - 2 ^ 23"
    and "\<forall>k\<le>n. temporary api (after api (Suc k) (tx_blobs api tx))"
    and "\<forall>k<n. waited (Suc k) < nat (max_retry_ms sv)" and "nat (max_retry_ms sv) \<le> waited (Suc n)"
  shows "ExecuteAll depth en api http heap sv to_note mem r i =
    Some \<lparr>o_code = DONE, o_reply = error_reply 503 (headers_out r) [] r, o_notes = [], o_restart = False, o_waits = map wait_of [0..<n],
          o_instance = cleanup (i\<lparr>i_stats := (i_stats i)\<lparr>total_retry_ms := total_retry_ms (i_stats i) + word_of_nat (waited n),
              temp_errors := temp_errors (i_stats i) + word_of_nat n, temp_timeouts := temp_timeouts (i_stats i) + 1\<rparr>,
            i_tx := None\<rparr>)\<rparr>"
  by (rule ExecuteAll_late [OF assms(1,2) exec_commit_late [OF assms(3-7)]])

subsection \<open>Requests that read\<close>

lemma page_of_holds: "holds rb t \<Longrightarrow> page_of rb = Some (Some t)"
  using holds_text [of rb t] by (auto simp: page_of_def holds_def)

definition page_reply :: "string \<Rightarrow> reply \<Rightarrow> reply" where
  "page_reply t r = r\<lparr>content_length := Some (int (length t)), header_sent := True, body := body r @ t\<rparr>"

lemma send_plain_page:
  assumes "\<not> f_use_etag i" and "\<not> f_jsonrequest i"
  shows "send_page http i (Some t) r = (HTTP_OK, page_reply t r)"
  using assms by (simp add: send_page_def add_etag_def page_reply_def rwrite_def send_header_def)

lemma send_json_request:
  assumes "\<not> f_use_etag i" and "f_jsonrequest i"
  shows "send_page http i page r = (HTTP_OK, (page_reply (case page of Some t \<Rightarrow> t | None \<Rightarrow> json_stand_in) r)
     \<lparr>content_type := ''application/jsonrequest''\<rparr>)"
  using assms by (cases page) (simp_all add: send_page_def add_etag_def page_reply_def rwrite_def send_header_def json_stand_in_def)

lemma one_page:
  assumes "result_cols d" and "d_fmt d = Some f" and "js \<longrightarrow> is_JSON f"
    and "build_results depth en (tx_scan api) heap d f cur res = Some (rc, cur', res')"
  shows "page_loop depth en api heap js False n [d] (rc0, cur, res, notes) = Some (rc, cur', res', notes)"
  using assms by (auto simp: page_step_def)

lemma finish_ok [simp]: "finish_error en restart HTTP_OK msg False e r = Some (HTTP_OK, r, False)"
  by (simp add: finish_error_def HTTP_OK_def)

lemma ExecuteAll_page:
  assumes "i_tx i = Some tx"
    and "exec_commit api (word_of_int (max_retry_ms sv)) 0 0 [] (i_stats i) (tx_blobs api tx) = Some (True, waits, st, cur)"
    and "err_class (tx_error api cur) = NoError"
    and "page_loop depth en api heap (f_jsonrequest i) False 0 (take (n_read_ops i) (i_data i)) (HTTP_OK, cur, no_buffer mem, []) =
      Some (HTTP_OK, cur', res, notes)"
    and "holds res t" and "\<not> f_use_etag i" and "\<not> f_jsonrequest i"
  shows "ExecuteAll depth en api http heap sv False mem r i =
    Some \<lparr>o_code = HTTP_OK, o_reply = page_reply t r, o_notes = notes, o_restart = False, o_waits = waits,
          o_instance = cleanup (i\<lparr>i_stats := st, i_tx := None\<rparr>)\<rparr>"
  using assms(1-4,7) page_of_holds [OF assms(5)] send_plain_page [OF assms(6,7), of http t r]
  by (simp add: ExecuteAll_def)

lemma ExecuteAll_no_rows:
  assumes "env_ok en" and "i_tx i = Some tx"
    and "exec_commit api (word_of_int (max_retry_ms sv)) 0 0 [] (i_stats i) (tx_blobs api tx) = Some (True, waits, st, cur)"
    and "err_class (tx_error api cur) = NoError"
    and "page_loop depth en api heap (f_jsonrequest i) to_note 0 (take (n_read_ops i) (i_data i)) (HTTP_OK, cur, no_buffer mem, []) =
      Some (404, cur', res, notes)"
    and "holds res t"
  shows "ExecuteAll depth en api http heap sv to_note mem r i =
    Some \<lparr>o_code = DONE, o_reply = error_reply 404 (headers_out r) (''No data could be found.'' @ [NL]) r,
          o_notes = notes, o_restart = False, o_waits = waits,
          o_instance = cleanup (i\<lparr>i_stats := st, i_tx := None\<rparr>)\<rparr>"
proof -
  have g: "\<forall>n. e_grant en n" using assms(1) by (simp add: env_ok_def)
  have p: "error_page 404 (Some (tx_error api cur)) None = Some (''No data could be found.'' @ [NL])" by (simp add: error_page_def)
  have "ndb_handle_error (e_grant en) 404 (Some (tx_error api cur)) None r =
      Some (error_reply 404 (headers_out r) (''No data could be found.'' @ [NL]) r, DONE)"
    using handle_error_ok [OF g p, of r] by (simp add: error_reply_def error_headers_def)
  then show ?thesis using assms(2-5) page_of_holds [OF assms(6)]
    by (simp add: ExecuteAll_def finish_error_def HTTP_OK_def)
qed

subsection \<open>A request with one JSON read operation\<close>

definition reads_json :: "'c ndb_instance \<Rightarrow> data_operation \<Rightarrow> bool" where
  "reads_json i d \<longleftrightarrow> n_read_ops i = 1 \<and> (\<exists>ds. i_data i = d # ds) \<and> result_cols d \<and> d_fmt d = Some json_compiled"

lemma reads_json_page:
  assumes "reads_json i d"
    and "build_results depth en (tx_scan api) heap d json_compiled cur res = Some (rc, cur', res')"
  shows "page_loop depth en api heap js False 0 (take (n_read_ops i) (i_data i)) (HTTP_OK, cur, res, []) =
    Some (rc, cur', res', [])"
proof -
  have "is_JSON json_compiled" by code_simp
  then have "js \<longrightarrow> is_JSON json_compiled" by simp
  moreover have t: "take (n_read_ops i) (i_data i) = [d]" using assms(1) by (auto simp: reads_json_def)
  have "result_cols d" "d_fmt d = Some json_compiled" using assms(1) by (simp_all add: reads_json_def)
  ultimately show ?thesis unfolding t by (intro one_page [OF _ _ _ assms(2)])
qed

lemma ExecuteAll_JSON_scan:
  assumes en: "env_ok en" and "i_tx i = Some tx"
    and "exec_commit api (word_of_int (max_retry_ms sv)) 0 0 [] (i_stats i) (tx_blobs api tx) = Some (True, waits, st, cur)"
    and "err_class (tx_error api cur) = NoError" and r: "reads_json i d" and "d_scanop d"
    and "delivers (tx_scan api) cur bs" and "those (map (json_row en d) (concat bs)) = Some ts"
    and "int (length (json_page ts)) < limit" and "\<not> f_use_etag i" and "\<not> f_jsonrequest i"
  shows "ExecuteAll (Suc (Suc (Suc k))) en api http json_cells sv False mem r i =
    Some \<lparr>o_code = (if ts = [] then DONE else HTTP_OK),
          o_reply = (if ts = [] then error_reply 404 (headers_out r) (''No data could be found.'' @ [NL]) r
                     else page_reply (json_page ts) r),
          o_notes = [], o_restart = False, o_waits = waits,
          o_instance = cleanup (i\<lparr>i_stats := st, i_tx := None\<rparr>)\<rparr>"
proof -
  from json_scan_page [OF en assms(6-9)] obtain c' rb' where
    b: "build_results (Suc (Suc (Suc k))) en (tx_scan api) json_cells d json_compiled cur (no_buffer mem) =
        Some (if ts = [] then 404 else HTTP_OK, c', rb')" and h: "holds rb' (json_page ts)" by blast
  note l = reads_json_page [OF r b]
  show ?thesis
  proof (cases "ts = []")
    case True
    have "page_loop (Suc (Suc (Suc k))) en api json_cells (f_jsonrequest i) False 0 (take (n_read_ops i) (i_data i))
        (HTTP_OK, cur, no_buffer mem, []) = Some (404, c', rb', [])" using l True by simp
    from ExecuteAll_no_rows [OF en assms(2-4) this h] True show ?thesis by simp
  next
    case False
    have "page_loop (Suc (Suc (Suc k))) en api json_cells (f_jsonrequest i) False 0 (take (n_read_ops i) (i_data i))
        (HTTP_OK, cur, no_buffer mem, []) = Some (HTTP_OK, c', rb', [])" using l False by simp
    from ExecuteAll_page [OF assms(2-4) this h assms(10,11)] False show ?thesis by simp
  qed
qed

lemma ExecuteAll_JSON_row:
  assumes en: "env_ok en" and "i_tx i = Some tx"
    and "exec_commit api (word_of_int (max_retry_ms sv)) 0 0 [] (i_stats i) (tx_blobs api tx) = Some (True, waits, st, cur)"
    and "err_class (tx_error api cur) = NoError" and r: "reads_json i d" and "\<not> d_scanop d"
    and "json_row en d (row_at (tx_scan api) cur) = Some t" and "int (length (t @ [NL])) < limit"
    and "\<not> f_use_etag i" and "\<not> f_jsonrequest i"
  shows "ExecuteAll (Suc (Suc (Suc k))) en api http json_cells sv False mem r i =
    Some \<lparr>o_code = HTTP_OK, o_reply = page_reply (t @ [NL]) r, o_notes = [], o_restart = False, o_waits = waits,
          o_instance = cleanup (i\<lparr>i_stats := st, i_tx := None\<rparr>)\<rparr>"
proof -
  from json_row_page [OF en assms(6-8)] obtain c' rb' where
    b: "build_results (Suc (Suc (Suc k))) en (tx_scan api) json_cells d json_compiled cur (no_buffer mem) = Some (HTTP_OK, c', rb')"
    and h: "holds rb' (t @ [NL])" by blast
  from ExecuteAll_page [OF assms(2-4) reads_json_page [OF r b] h assms(9,10)] show ?thesis .
qed

subsection \<open>Several operations, and notes\<close>

text \<open>A page that was refused leaves no trace once a later operation has a page.\<close>

lemma refused_page_lost:
  assumes "result_cols d1" and "d_fmt d1 = Some f1" and "\<not> is_JSON f1"
    and "result_cols d2" and "d_fmt d2 = Some f2" and "is_JSON f2"
  shows "page_loop depth en api heap True False n [d1, d2] (rc, cur, res, notes) =
     page_loop depth en api heap True False (Suc n) [d2] (rc, cur, res, notes)"
  using assms by (simp add: page_step_def)

lemma read_unterminated:
  assumes "CHR 0x00 \<notin> set t"
  shows "read_c_string (map Some t @ replicate k None) = None"
proof (cases k)
  case 0
  then show ?thesis using assms by (induction t) auto
next
  case (Suc k')
  then show ?thesis using assms by (induction t) auto
qed

lemma put_chars_fresh:
  assumes "buff rb = Some (map Some t @ replicate k None)" and "rb_sz rb = int (length t)" and "length s \<le> k"
  shows "\<exists>rb'. put_chars s rb = Some rb' \<and> buff rb' = Some (map Some (t @ s) @ replicate (k - length s) None)"
  using assms
proof (induction s arbitrary: rb t k)
  case (Cons c s)
  then obtain k' where k: "k = Suc k'" by (cases k) auto
  have 1: "putc c rb = Some (rb\<lparr>buff := Some (map Some (t @ [c]) @ replicate k' None), rb_sz := rb_sz rb + 1\<rparr>)"
    using Cons.prems(1,2) by (simp add: k putc_def arr_upd_def in_range_def list_update_append)
  show ?case using Cons.IH [of "rb\<lparr>buff := Some (map Some (t @ [c]) @ replicate k' None), rb_sz := rb_sz rb + 1\<rparr>" "t @ [c]" k']
      Cons.prems(2,3) 1 by (simp add: k)
qed simp

lemma note_unterminated:
  assumes "\<forall>n. grant n" and "CHR 0x00 \<notin> set s" and "length s \<le> sz"
  shows "do { rb \<leftarrow> out_len grant (length s) s (init grant (int sz) rb0); set_note num rb notes } = None"
proof (cases "s = []")
  case True
  then show ?thesis using assms(1) read_unterminated [of "[]" sz]
    by (simp add: out_len_def init_def malloc_def set_note_def Let_def)
next
  case False
  let ?rb = "init grant (int sz) rb0"
  have b: "buff ?rb = Some (map Some [] @ replicate sz None)" "rb_sz ?rb = int (length [])"
    using assms(1) by (simp_all add: init_def malloc_def)
  from put_chars_fresh [OF b assms(3)] obtain rb' where
    p: "put_chars s ?rb = Some rb'" "buff rb' = Some (map Some s @ replicate (sz - length s) None)" by auto
  have "prepare grant (int (length s)) ?rb = Some (?rb, True)"
    using assms(3) by (simp add: prepare_def init_def Let_def)
  then show ?thesis using p read_unterminated [OF assms(2)] False by (simp add: out_len_def set_note_def Let_def)
qed

end
