(* ===== verification/Query_Run_Correct.thy ===== *)
theory Query_Run_Correct
  imports Query_Run Request_Keys Execute_Correct
begin

text \<open>
  What becomes of a request: a read that finds a plan is executed with exactly the calls for its
  key and its columns; a read without a plan is a 404, or undefined in a subrequest; a write sets
  every value of the form in the order of the configuration; a write that sets nothing is answered
  with the code 1.
\<close>

subsection \<open>Calls that are accepted\<close>

text \<open>The NDB API gives every operation and accepts every call.\<close>

definition api_accepts :: "'f op_api \<Rightarrow> bool" where
  "api_accepts api \<longleftrightarrow> (\<forall>a. gives_op api a) \<and> (\<forall>calls. rc api calls = 0)"

lemma tell_ok: "api_accepts api \<Longrightarrow> tell api c calls = (0, calls @ [c])"
  by (simp add: tell_def api_accepts_def)

text \<open>Values that are passed on as they are.\<close>

definition plain_value :: "'f mvalue \<Rightarrow> bool" where
  "plain_value m \<longleftrightarrow> use_value m \<in> {use_char, use_signed, use_unsigned, use_64, use_unsigned_64, use_float, use_double}"

definition set_calls :: "table_info \<Rightarrow> 'f mvalue list \<Rightarrow> 'f op" where
  "set_calls ti ms = concat (map (\<lambda>m. case mv_column m of None \<Rightarrow> [] | Some col \<Rightarrow> [Set_value (column_no ti col) (mv_u m)]) ms)"

lemma plain_usable: "plain_value m \<Longrightarrow> mval_is_usable m = Some True"
  by (auto simp: plain_value_def mval_is_usable_def less_mvalue_use_def)

lemma write_plain:
  assumes "api_accepts api" and "plain_value m"
  shows "write_call api ti col m calls = Some (0, calls @ [Set_value (column_no ti col) (mv_u m)])"
  using assms by (auto simp: write_call_def plain_value_def tell_ok Let_def)

lemma write_loop_plain:
  assumes "api_accepts api" and "\<forall>m\<in>set ms. mv_column m \<noteq> None \<longrightarrow> plain_value m"
  shows "write_loop api ti ms eqr calls = Some (True, (if set_calls ti ms = [] then eqr else 0), calls @ set_calls ti ms)"
  using assms(2)
proof (induction ms arbitrary: eqr calls)
  case (Cons m ms)
  show ?case
  proof (cases "mv_column m")
    case None
    with Cons show ?thesis by (simp add: set_calls_def)
  next
    case (Some col)
    with Cons.prems have p: "plain_value m" by simp
    show ?thesis using Cons Some by (simp add: plain_usable [OF p] write_plain [OF assms(1) p] set_calls_def)
  qed
qed (simp add: set_calls_def)

lemma form_values_none:
  assumes "\<forall>key\<in>set keys. get_item key tab = Some None"
  shows "form_values pf ti tab keys = Some (replicate (length keys) zero_mvalue)"
  using assms by (induction keys) simp_all

lemma set_calls_zero: "set_calls ti (replicate n zero_mvalue) = []"
  by (induction n) (simp_all add: set_calls_def zero_mvalue_def)

subsection \<open>Reads without a plan\<close>

lemma claim_slot:
  assumes "int (n_read_ops i) < max_read_operations sv" and "n_read_ops i < length (i_data i)"
  shows "claim_read_slot fmts sv d ti i =
    Some (i\<lparr>i_data := (i_data i)[n_read_ops i := read_operation fmts d ti (i_data i ! n_read_ops i)],
            n_read_ops := Suc (n_read_ops i), f_use_etag := f_use_etag i \<or> use_etags d\<rparr>, True)"
  using assms by (simp add: claim_read_slot_def arr_upd_def in_range_def)

definition claimed :: "output_format list \<Rightarrow> dir \<Rightarrow> table_info \<Rightarrow> 'c ndb_instance \<Rightarrow> 'c ndb_instance" where
  "claimed fmts d ti i =
     i\<lparr>i_data := (i_data i)[n_read_ops i := read_operation fmts d ti (i_data i ! n_read_ops i)],
       n_read_ops := Suc (n_read_ops i), f_use_etag := f_use_etag i \<or> use_etags d\<rparr>"

definition is_read :: "source \<Rightarrow> bool" where
  "is_read src \<longleftrightarrow> req_method (src_request src) = M_GET \<and> method_number (src_request src) = M_GET"

definition slot_free :: "srv \<Rightarrow> 'c ndb_instance \<Rightarrow> bool" where
  "slot_free sv i \<longleftrightarrow> int (n_read_ops i) < max_read_operations sv \<and> n_read_ops i < length (i_data i)"

lemma Query_read_start:
  assumes "qe_table qe (database d) (dir_table d) = Some ti" and "is_read src" and "slot_free sv i"
    and "plan_keys (qe_getword qe) (qe_unescape qe) d (src_request src) NoPlan = Some q"
  shows "Query depth qe sv d src r i =
    (if no_plan d (src_request src) q
     then abort_query (keep_tx_open src) True 404 r (claimed (qe_formats qe) d ti i)
     else run_query depth qe sv d ti src SetupRead q empty_form r (claimed (qe_formats qe) d ti i))"
proof -
  have "start_query (qe_formats qe) sv d ti src i = Some (claimed (qe_formats qe) d ti i, empty_form, Inr (SetupRead, NoPlan))"
    using assms(2,3) claim_slot [of i sv "qe_formats qe" d ti]
    by (simp add: start_query_def is_read_def slot_free_def claimed_def choose_setup_def Let_def)
  then show ?thesis using assms(1,4) by (simp add: Query_def)
qed

lemma Query_no_plan:
  assumes "qe_table qe (database d) (dir_table d) = Some ti" and "is_read src" and "slot_free sv i"
    and "plan_keys (qe_getword qe) (qe_unescape qe) d (src_request src) NoPlan = Some q"
    and "no_plan d (src_request src) q"
  shows "Query depth qe sv d src r i =
    (if keep_tx_open src then None
     else Some (answer 404 r (cleanup (claimed (qe_formats qe) d ti i\<lparr>i_tx := None\<rparr>))))"
  using Query_read_start [OF assms(1-4)] assms(5) by (simp add: abort_query_def Let_def)

subsection \<open>Reads with a plan\<close>

definition lookup_path :: "access_path \<Rightarrow> bool" where
  "lookup_path a \<longleftrightarrow> a = Primary_key_access \<or> (\<exists>nm. a = Unique_access nm)"

definition bound_read :: "('f, 'c) query_env \<Rightarrow> dir \<Rightarrow> table_info \<Rightarrow> query_items \<Rightarrow> access_path \<Rightarrow> 'f op \<Rightarrow> bool" where
  "bound_read qe d ti q a calls \<longleftrightarrow>
     (\<exists>bs m. bind_index (put_key (e_platform (qe_env qe)) (qe_op qe) ti (index_of qe a) a) d q
        (new_index_object a (index_parts ti (index_of qe a))) ([Read_tuple], qe_mval qe) = Some (bs, None, calls, m))"

lemma lookup_setup:
  assumes "api_accepts api" and "q_plan q < Scan"
  shows "setup_read api d q calls = Some (0, calls @ [Read_tuple])"
  using assms by (cases "q_plan q") (simp_all add: setup_read_def tell_ok plan_order)

lemma lookup_run:
  assumes "api_accepts (qe_op qe)" and "q_plan q < Scan" and "bound_read qe d ti q a calls"
    and "those (map (result_column ti d) [0..<n]) = Some cols"
  shows "run_operation qe d ti src SetupRead q a tab n r =
    Some (0, r, is_jsonrequest (src_content_type src), calls @ map (result_call ti) cols)"
proof -
  from assms(3) obtain bs m where b:
    "bind_index (put_key (e_platform (qe_env qe)) (qe_op qe) ti (index_of qe a) a) d q
        (new_index_object a (index_parts ti (index_of qe a))) ([Read_tuple], qe_mval qe) = Some (bs, None, calls, m)"
    by (auto simp: bound_read_def)
  have "set_filters (e_platform (qe_env qe)) ti d q s = Some s" for s :: "'a op \<times> 'a mvalue"
    using assms(2) by (auto simp: set_filters_def not_le [symmetric])
  then show ?thesis
    using b assms(1,4) lookup_setup [OF assms(1,2), of d "[]"]
    by (simp add: run_operation_def op_setup_def op_action_def plan_read_def Let_def api_accepts_def)
qed

definition reading :: "('f, 'c) query_env \<Rightarrow> 'f op \<Rightarrow> 'c \<Rightarrow> bool \<Rightarrow> 'c ndb_instance \<Rightarrow> 'c ndb_instance" where
  "reading qe calls tx js i = i\<lparr>i_tx := Some (qe_attach qe calls tx), f_jsonrequest := f_jsonrequest i \<or> js\<rparr>"

lemma open_operation_lookup: "lookup_path a \<Longrightarrow> open_operation a data = data"
  by (auto simp: lookup_path_def open_operation_def)

lemma claimed_data:
  assumes "slot_free sv i"
  shows "n_read_ops (claimed fmts d ti i) = Suc (n_read_ops i)" "n_read_ops i < length (i_data (claimed fmts d ti i))"
    "i_data (claimed fmts d ti i) ! n_read_ops i = read_operation fmts d ti (i_data i ! n_read_ops i)"
  using assms by (simp_all add: claimed_def slot_free_def)

lemma Query_lookup:
  assumes "qe_table qe (database d) (dir_table d) = Some ti" and "is_read src" and s: "slot_free sv i"
    and "plan_keys (qe_getword qe) (qe_unescape qe) d (src_request src) NoPlan = Some q"
    and "\<not> no_plan d (src_request src) q" and "open_tx (qe_start qe) (claimed (qe_formats qe) d ti i) = Some (Inr tx)"
    and "choose_access (\<lambda>nm. map_option x_kind (qe_index qe nm)) d q = Some (Inr a)" and "lookup_path a"
    and "api_accepts (qe_op qe)" and "q_plan q < Scan" and "bound_read qe d ti q a calls"
    and "those (map (result_column ti d) [0..<n_result_cols (read_operation (qe_formats qe) d ti (i_data i ! n_read_ops i))]) = Some cols"
    and "\<not> keep_tx_open src"
  shows "Query depth qe sv d src r i =
    ExecuteAll depth (qe_env qe) (qe_tx qe) (qe_http qe) (qe_cells qe) sv False (qe_size qe) r
      (reading qe (calls @ map (result_call ti) cols) tx (is_jsonrequest (src_content_type src)) (claimed (qe_formats qe) d ti i))"
proof -
  let ?i = "claimed (qe_formats qe) d ti i"
  have "arr_upd (i_data ?i) (int (n_read_ops ?i) - 1) (open_operation a) = Some (i_data ?i)"
    using claimed_data [OF s] open_operation_lookup [OF assms(8)] list_update_id [of "i_data ?i" "n_read_ops i"]
    by (simp add: arr_upd_def in_range_def)
  then have st: "store_operation SetupRead a ?i = Some ?i" by (simp add: store_operation_def)
  have n: "i_data ?i ! (n_read_ops ?i - 1) = read_operation (qe_formats qe) d ti (i_data i ! n_read_ops i)"
    using claimed_data [OF s] by simp
  show ?thesis
    using Query_read_start [OF assms(1,2) s assms(4)] assms(5,6,7,13) st n lookup_run [OF assms(9,10,11,12)]
    by (simp add: run_query_def finish_query_def reading_def Let_def)
qed

subsection \<open>Inserts\<close>

definition is_insert :: "dir \<Rightarrow> source \<Rightarrow> bool" where
  "is_insert d src \<longleftrightarrow> req_method (src_request src) = M_POST \<and> method_number (src_request src) = M_POST \<and>
     args (src_request src) = None \<and> pathinfo_size d = 0 \<and> \<not> table_scan d \<and> default_key d < 0"

lemma insert_plan:
  assumes "is_insert d src"
  shows "plan_keys gw un d (src_request src) PrimaryKey = Some (new_query d\<lparr>q_plan := PrimaryKey\<rparr>)"
  using assms by (simp add: plan_keys_def default_plan_def is_insert_def process_pathinfo_def)

lemma insert_run:
  assumes "api_accepts (qe_op qe)" and "form_values (e_platform (qe_env qe)) ti tab (updatable d) = Some ms"
    and "\<forall>m\<in>set ms. mv_column m \<noteq> None \<longrightarrow> plain_value m"
  shows "run_operation qe d ti src SetupInsert (new_query d\<lparr>q_plan := PrimaryKey\<rparr>) Primary_key_access tab n r =
    Some (if set_calls ti ms = [] then 1 else 0, r, is_jsonrequest (src_content_type src), Insert_tuple # set_calls ti ms)"
  using assms write_loop_plain [OF assms(1,3), of ti 1 "[Insert_tuple]"] assms(1) [unfolded api_accepts_def]
  by (simp add: run_operation_def op_setup_def set_up_write_def op_action_def plan_write_def bind_index_def set_filters_def
      new_query_def plan_order tell_ok Let_def)

lemma Query_insert:
  assumes "qe_table qe (database d) (dir_table d) = Some ti" and "is_insert d src" and "form_data src = Some (HTTP_OK, tab)"
    and "open_tx (qe_start qe) i = Some (Inr tx)" and "api_accepts (qe_op qe)"
    and "form_values (e_platform (qe_env qe)) ti tab (updatable d) = Some ms"
    and "\<forall>m\<in>set ms. mv_column m \<noteq> None \<longrightarrow> plain_value m" and "\<not> keep_tx_open src"
  shows "Query depth qe sv d src r i =
    (let i' = reading qe (Insert_tuple # set_calls ti ms) tx (is_jsonrequest (src_content_type src)) i in
     if set_calls ti ms = [] then Some (answer 1 r (cleanup (i'\<lparr>i_tx := None\<rparr>)))
     else ExecuteAll depth (qe_env qe) (qe_tx qe) (qe_http qe) (qe_cells qe) sv False (qe_size qe) r i')"
proof -
  have st: "start_query (qe_formats qe) sv d ti src i = Some (i, tab, Inr (SetupInsert, PrimaryKey))"
    using assms(2,3) by (simp add: start_query_def is_insert_def choose_setup_def Let_def)
  have np: "\<not> no_plan d (src_request src) q" for q using assms(2) by (simp add: no_plan_def is_insert_def)
  have ac: "choose_access dict d (new_query d\<lparr>q_plan := PrimaryKey\<rparr>) = Some (Inr Primary_key_access)" for dict
    by (simp add: choose_access_def)
  show ?thesis
    using assms(1,4,8) st np ac insert_plan [OF assms(2)] insert_run [OF assms(5-7)]
    by (simp add: Query_def run_query_def finish_query_def store_operation_def reading_def abort_query_def Let_def)
qed

subsection \<open>A lookup from the request to the answer\<close>

text \<open>The operation a request for the JSON format claims in an instance without reads.\<close>

definition json_operation :: "dir \<Rightarrow> table_info \<Rightarrow> data_operation \<Rightarrow> data_operation" where
  "json_operation d ti data = read_operation [json_compiled] (d\<lparr>fmt := Some 0\<rparr>) ti data"

lemma read_operation_json:
  assumes "fmt d = Some k" and "arr_get fmts (int k) = Some json_compiled"
  shows "read_operation fmts d ti data = json_operation d ti data"
  using assms by (simp add: read_operation_def json_operation_def arr_get_def in_range_def)

lemma lookup_answered:
  assumes t: "qe_table qe (database d) (dir_table d) = Some ti" and "is_read src" and s: "slot_free sv i" and z: "n_read_ops i = 0"
    and p: "plan_keys (qe_getword qe) (qe_unescape qe) d (src_request src) NoPlan = Some q"
    and "\<not> no_plan d (src_request src) q" and o: "open_tx (qe_start qe) i = Some (Inr tx)"
    and "choose_access (\<lambda>nm. map_option x_kind (qe_index qe nm)) d q = Some (Inr a)" and "lookup_path a"
    and "api_accepts (qe_op qe)" and "q_plan q < Scan" and "bound_read qe d ti q a calls"
    and c: "those (map (result_column ti d) [0..<n_result_cols (json_operation d ti (i_data i ! 0))]) = Some cols"
    and "\<not> keep_tx_open src" and f: "fmt d = Some k" "arr_get (qe_formats qe) (int k) = Some json_compiled"
    and "qe_cells qe = json_cells" and en: "env_ok (qe_env qe)"
    and x: "exec_commit (qe_tx qe) (word_of_int (max_retry_ms sv)) 0 0 [] (i_stats i)
        (tx_blobs (qe_tx qe) (qe_attach qe (calls @ map (result_call ti) cols) tx)) = Some (True, waits, st, cur)"
    and e: "err_class (tx_error (qe_tx qe) cur) = NoError"
    and r: "json_row (qe_env qe) (json_operation d ti (i_data i ! 0)) (row_at (tx_scan (qe_tx qe)) cur) = Some txt"
    and l: "int (length (txt @ [NL])) < limit" and sc: "\<not> d_scanop (i_data i ! 0)"
    and fl: "\<not> use_etags d" "\<not> f_use_etag i" "\<not> f_jsonrequest i" "\<not> is_jsonrequest (src_content_type src)"
  shows "\<exists>out. Query (Suc (Suc (Suc n))) qe sv d src rp i = Some out \<and> o_code out = HTTP_OK \<and>
     o_reply out = page_reply (txt @ [NL]) rp \<and> i_tx (o_instance out) = None \<and> clean (o_instance out)"
proof -
  let ?i = "claimed (qe_formats qe) d ti i" and ?d = "json_operation d ti (i_data i ! 0)"
  let ?j = "reading qe (calls @ map (result_call ti) cols) tx (is_jsonrequest (src_content_type src)) ?i"
  note ro = read_operation_json [OF f, of ti "i_data i ! 0"]
  have o': "open_tx (qe_start qe) ?i = Some (Inr tx)" using o by (auto simp: open_tx_def claimed_def split: option.splits if_splits)
  have c': "those (map (result_column ti d) [0..<n_result_cols (read_operation (qe_formats qe) d ti (i_data i ! n_read_ops i))]) = Some cols"
    using c ro z by simp
  have Q: "Query (Suc (Suc (Suc n))) qe sv d src rp i =
      ExecuteAll (Suc (Suc (Suc n))) (qe_env qe) (qe_tx qe) (qe_http qe) (qe_cells qe) sv False (qe_size qe) rp ?j"
    by (rule Query_lookup [OF t assms(2) s p assms(6) o' assms(8-12) c' assms(14)])
  obtain d0 ds where i: "i_data i = d0 # ds" using s z by (cases "i_data i") (auto simp: slot_free_def)
  have g: "d_fmt ?d = Some json_compiled" "result_cols ?d" by (simp_all add: json_operation_def read_operation_def arr_get_def in_range_def)
  have j: "reads_json ?j ?d" using ro z i g by (simp add: reads_json_def reading_def claimed_def)
  have k: "i_tx ?j = Some (qe_attach qe (calls @ map (result_call ti) cols) tx)" "i_stats ?j = i_stats i"
    "\<not> f_use_etag ?j" "\<not> f_jsonrequest ?j" using fl by (simp_all add: reading_def claimed_def)
  have sc': "\<not> d_scanop ?d" using sc by (simp add: json_operation_def read_operation_def)
  have x': "exec_commit (qe_tx qe) (word_of_int (max_retry_ms sv)) 0 0 [] (i_stats ?j)
      (tx_blobs (qe_tx qe) (qe_attach qe (calls @ map (result_call ti) cols) tx)) = Some (True, waits, st, cur)"
    using x k(2) by simp
  have "ExecuteAll (Suc (Suc (Suc n))) (qe_env qe) (qe_tx qe) (qe_http qe) (qe_cells qe) sv False (qe_size qe) rp ?j =
      Some \<lparr>o_code = HTTP_OK, o_reply = page_reply (txt @ [NL]) rp, o_notes = [], o_restart = False, o_waits = waits,
           o_instance = cleanup (?j\<lparr>i_stats := st, i_tx := None\<rparr>)\<rparr>"
    unfolding assms(17) by (rule ExecuteAll_JSON_row [OF en k(1) x' e j sc' r l k(3,4)])
  with Q show ?thesis by (simp add: cleanup_clean)
qed

end
