(* ===== verification/Instances.thy ===== *)
theory Instances
  imports Query_Run_Correct
begin

text \<open>
  The life of an instance between requests. \<open>instance_ok\<close>: the array of operations has the length
  of the configuration, and the operations behind the used ones are zero, so that a request can
  claim the next one. \<open>idle\<close>: besides, nothing is left from the requests before. Every request keeps
  the first; a request that ends its transaction leads from an idle instance to an idle one.
\<close>

subsection \<open>Invariants\<close>

definition instance_ok :: "srv \<Rightarrow> 'c ndb_instance \<Rightarrow> bool" where
  "instance_ok sv i \<longleftrightarrow>
     length (i_data i) = nat (max_read_operations sv) \<and> n_read_ops i \<le> length (i_data i) \<and>
     set (drop (n_read_ops i) (i_data i)) \<subseteq> {zero_data}"

definition idle :: "srv \<Rightarrow> 'c ndb_instance \<Rightarrow> bool" where
  "idle sv i \<longleftrightarrow> instance_ok sv i \<and> clean i \<and> i_tx i = None"

lemma idle_instance: "idle sv i \<Longrightarrow> instance_ok sv i"
  by (simp add: idle_def)

lemma idle_slot: "idle sv i \<Longrightarrow> 0 < max_read_operations sv \<Longrightarrow> slot_free sv i"
  by (simp add: idle_def instance_ok_def clean_def slot_free_def)

lemma idle_data: "idle sv i \<Longrightarrow> n < length (i_data i) \<Longrightarrow> i_data i ! n = zero_data"
  using nth_mem [of n "i_data i"] unfolding idle_def instance_ok_def clean_def by (simp add: subset_iff)

lemma instance_ok_fields [simp]:
  "instance_ok sv (i\<lparr>i_tx := t\<rparr>) = instance_ok sv i" "instance_ok sv (i\<lparr>i_stats := st\<rparr>) = instance_ok sv i"
  "instance_ok sv (i\<lparr>f_aborted := a\<rparr>) = instance_ok sv i" "instance_ok sv (i\<lparr>f_jsonrequest := j\<rparr>) = instance_ok sv i"
  by (simp_all add: instance_ok_def)

lemma cleanup_idle: "instance_ok sv i \<Longrightarrow> i_tx i = None \<Longrightarrow> idle sv (cleanup i)"
  by (auto simp: idle_def instance_ok_def clean_def cleanup_def min_def dest: in_set_dropD)

lemma idle_stats [simp]: "idle sv (i\<lparr>i_stats := st\<rparr>) = idle sv i"
  by (simp add: idle_def clean_def)

lemma ExecuteAll_idle:
  assumes "ExecuteAll depth en api http heap sv to_note mem r i = Some out" and "instance_ok sv' i"
  shows "idle sv' (o_instance out)"
proof -
  from ExecuteAll_instance [OF assms(1)] obtain st where "o_instance out = cleanup (i\<lparr>i_stats := st, i_tx := None\<rparr>)" by blast
  with assms(2) cleanup_idle [of sv' "i\<lparr>i_stats := st, i_tx := None\<rparr>"] show ?thesis by simp
qed

subsection \<open>One request\<close>

lemma claim_read_slot_ok:
  assumes "claim_read_slot fmts sv d ti i = Some (i1, slot)" and "instance_ok sv' i"
  shows "instance_ok sv' i1" "\<not> slot \<Longrightarrow> i1 = i"
proof -
  have *: "instance_ok sv' i1 \<and> (\<not> slot \<longrightarrow> i1 = i)"
  proof (cases "int (n_read_ops i) < max_read_operations sv")
    case True
    with assms(1) have r: "n_read_ops i < length (i_data i)"
      and i1: "i1 = claimed fmts d ti i" and "slot"
      by (auto simp: claim_read_slot_def arr_upd_def in_range_def claimed_def split: if_splits)
    have "set (drop (Suc (n_read_ops i)) (i_data i)) \<subseteq> set (drop (n_read_ops i) (i_data i))"
      using r by (simp add: set_drop_subset_set_drop)
    with r assms(2) \<open>slot\<close> show ?thesis unfolding i1 by (auto simp: instance_ok_def claimed_def)
  qed (use assms in \<open>auto simp: claim_read_slot_def\<close>)
  then show "instance_ok sv' i1" "\<not> slot \<Longrightarrow> i1 = i" by auto
qed

lemma start_query_ok:
  assumes "start_query fmts sv d ti src i = Some (i1, tab, st)" and "instance_ok sv' i"
  shows "instance_ok sv' i1" "st = Inl status \<Longrightarrow> i1 = i"
  using assms claim_read_slot_ok [where sv' = sv' and i = i]
  by (auto simp: start_query_def choose_setup_def Let_def split: if_splits http_method.splits Option.bind_splits)

lemma store_operation_ok:
  assumes "store_operation su a i = Some i1" and "instance_ok sv i"
  shows "instance_ok sv i1"
  using assms by (auto simp: store_operation_def instance_ok_def arr_upd_def in_range_def nat_diff_distrib split: if_splits)

lemma abort_query_ok:
  assumes "abort_query keep cols code r i = Some out" and "instance_ok sv i"
  shows "instance_ok sv (o_instance out)" "\<not> keep \<Longrightarrow> idle sv (o_instance out)"
  using assms cleanup_idle [of sv "i\<lparr>i_tx := None\<rparr>"]
  by (auto simp: abort_query_def answer_def Let_def idle_def split: if_splits)

lemma run_query_ok:
  assumes "run_query depth qe sv d ti src su q tab r i = Some out" and ok: "instance_ok sv' i"
  shows "instance_ok sv' (o_instance out) \<and> (\<not> keep_tx_open src \<longrightarrow> idle sv' (o_instance out))"
proof -
  note ab = abort_query_ok [where sv = sv']
  from assms(1) obtain otx where o: "open_tx (qe_start qe) i = Some otx" by (auto simp: run_query_def finish_query_def Let_def split: Option.bind_splits)
  show ?thesis
  proof (cases otx)
    case (Inl c)
    with assms o ab show ?thesis by (auto simp: run_query_def finish_query_def Let_def)
  next
    case (Inr tx)
    with assms(1) o obtain oa where oa: "choose_access (\<lambda>nm. map_option x_kind (qe_index qe nm)) d q = Some oa"
      by (auto simp: run_query_def finish_query_def Let_def split: Option.bind_splits)
    show ?thesis
    proof (cases oa)
      case (Inl c)
      with assms o oa Inr ab show ?thesis by (auto simp: run_query_def finish_query_def Let_def)
    next
      case a: (Inr a)
      from assms(1) o oa Inr a obtain i1 code r' js calls where
        s: "store_operation su a i = Some i1" and
        run: "run_operation qe d ti src su q a tab (if su = SetupRead then n_result_cols (i_data i1 ! (n_read_ops i1 - 1)) else 0) r =
          Some (code, r', js, calls)"
        by (auto simp: run_query_def finish_query_def Let_def split: Option.bind_splits)
      let ?i2 = "i1\<lparr>i_tx := Some (qe_attach qe calls tx), f_jsonrequest := f_jsonrequest i1 \<or> js\<rparr>"
      have k: "instance_ok sv' ?i2" using store_operation_ok [OF s ok] by simp
      have "(if code \<noteq> 0 then abort_query (keep_tx_open src) (su = SetupRead) code r' ?i2
             else if keep_tx_open src then Some (answer HTTP_OK r' ?i2)
             else ExecuteAll depth (qe_env qe) (qe_tx qe) (qe_http qe) (qe_cells qe) sv False (qe_size qe) r' ?i2) = Some out"
        using assms(1) o oa Inr a s run by (simp add: run_query_def finish_query_def Let_def)
      then show ?thesis using k by (auto simp: answer_def idle_instance split: if_splits dest: ab [OF _ k] ExecuteAll_idle [OF _ k])
    qed
  qed
qed

lemma Query_instance:
  assumes "Query depth qe sv d src r i = Some out" and ok: "instance_ok sv' i"
  shows "instance_ok sv' (o_instance out)" "idle sv' i \<Longrightarrow> \<not> keep_tx_open src \<Longrightarrow> idle sv' (o_instance out)"
proof -
  have *: "instance_ok sv' (o_instance out) \<and> (idle sv' i \<longrightarrow> \<not> keep_tx_open src \<longrightarrow> idle sv' (o_instance out))"
  proof (cases "qe_table qe (database d) (dir_table d)")
    case None
    with assms show ?thesis by (auto simp: Query_def refuse_def answer_def)
  next
    case (Some ti)
    with assms(1) obtain i1 tab st where s: "start_query (qe_formats qe) sv d ti src i = Some (i1, tab, st)"
      by (auto simp: Query_def split: Option.bind_splits)
    note k = start_query_ok [OF s ok]
    show ?thesis
    proof (cases st)
      case (Inl status)
      with assms Some s k show ?thesis by (auto simp: Query_def refuse_def answer_def)
    next
      case (Inr p)
      with assms(1) Some s show ?thesis
        by (cases p) (auto simp: Query_def split: Option.bind_splits if_splits dest: abort_query_ok [OF _ k(1)] run_query_ok [OF _ k(1)])
    qed
  qed
  then show "instance_ok sv' (o_instance out)" "idle sv' i \<Longrightarrow> \<not> keep_tx_open src \<Longrightarrow> idle sv' (o_instance out)" by auto
qed

subsection \<open>A lookup in an idle instance\<close>

text \<open>A read by key that has a plan: the request, its items \<open>q\<close> and the access path \<open>a\<close>.\<close>

definition planned_lookup ::
  "('f, 'c) query_env \<Rightarrow> dir \<Rightarrow> source \<Rightarrow> table_info \<Rightarrow> query_items \<Rightarrow> access_path \<Rightarrow> bool" where
  "planned_lookup qe d src ti q a \<longleftrightarrow>
     qe_table qe (database d) (dir_table d) = Some ti \<and> is_read src \<and> \<not> keep_tx_open src \<and>
     plan_keys (qe_getword qe) (qe_unescape qe) d (src_request src) NoPlan = Some q \<and>
     \<not> no_plan d (src_request src) q \<and> q_plan q < Scan \<and>
     choose_access (\<lambda>nm. map_option x_kind (qe_index qe nm)) d q = Some (Inr a) \<and> lookup_path a"

definition json_endpoint :: "('f, 'c) query_env \<Rightarrow> dir \<Rightarrow> bool" where
  "json_endpoint qe d \<longleftrightarrow>
     (\<exists>k. fmt d = Some k \<and> arr_get (qe_formats qe) (int k) = Some json_compiled) \<and> qe_cells qe = json_cells \<and> \<not> use_etags d"

lemma lookup_served:
  assumes p: "planned_lookup qe d src ti q a" and j: "json_endpoint qe d" "\<not> is_jsonrequest (src_content_type src)"
    and i: "idle sv i" "0 < max_read_operations sv" and o: "qe_start qe = Some tx"
    and b: "api_accepts (qe_op qe)" "bound_read qe d ti q a calls"
    and c: "those (map (result_column ti d) [0..<n_result_cols (json_operation d ti zero_data)]) = Some cols"
    and en: "env_ok (qe_env qe)"
    and x: "exec_commit (qe_tx qe) (word_of_int (max_retry_ms sv)) 0 0 [] (i_stats i)
        (tx_blobs (qe_tx qe) (qe_attach qe (calls @ map (result_call ti) cols) tx)) = Some (True, waits, st, cur)"
    and e: "err_class (tx_error (qe_tx qe) cur) = NoError"
    and r: "json_row (qe_env qe) (json_operation d ti zero_data) (row_at (tx_scan (qe_tx qe)) cur) = Some txt"
    and l: "int (length (txt @ [NL])) < limit"
  shows "\<exists>out. Query (Suc (Suc (Suc n))) qe sv d src rp i = Some out \<and> o_code out = HTTP_OK \<and>
     o_reply out = page_reply (txt @ [NL]) rp \<and> idle sv (o_instance out)"
proof -
  have s: "slot_free sv i" using idle_slot [OF i] .
  have z: "n_read_ops i = 0" "\<not> f_use_etag i" "\<not> f_jsonrequest i" "i_tx i = None" "\<not> f_aborted i"
    using i(1) by (simp_all add: idle_def clean_def)
  have d0: "i_data i ! 0 = zero_data" using idle_data [OF i(1)] s z(1) by (simp add: slot_free_def)
  have sc: "\<not> d_scanop (i_data i ! 0)" by (simp add: d0 zero_data_def)
  obtain k where k: "fmt d = Some k" "arr_get (qe_formats qe) (int k) = Some json_compiled" "qe_cells qe = json_cells" "\<not> use_etags d"
    using j(1) by (auto simp: json_endpoint_def)
  have ot: "open_tx (qe_start qe) i = Some (Inr tx)" using z o by (simp add: open_tx_def)
  have pl: "qe_table qe (database d) (dir_table d) = Some ti" "is_read src" "\<not> keep_tx_open src"
    "plan_keys (qe_getword qe) (qe_unescape qe) d (src_request src) NoPlan = Some q"
    "\<not> no_plan d (src_request src) q" "q_plan q < Scan"
    "choose_access (\<lambda>nm. map_option x_kind (qe_index qe nm)) d q = Some (Inr a)" "lookup_path a"
    using p by (simp_all add: planned_lookup_def)
  from lookup_answered [OF pl(1,2) s z(1) pl(4,5) ot pl(7,8) b(1) pl(6) b(2) c [folded d0] pl(3) k(1,2,3) en x e r [folded d0] l sc k(4) z(2,3) j(2)]
  obtain out where "Query (Suc (Suc (Suc n))) qe sv d src rp i = Some out" "o_code out = HTTP_OK"
    "o_reply out = page_reply (txt @ [NL]) rp" by blast
  moreover from Query_instance(2) [OF this(1) idle_instance [OF i(1)] i(1) pl(3)] have "idle sv (o_instance out)" .
  ultimately show ?thesis by blast
qed

subsection \<open>An insert in an idle instance\<close>

lemma ExecuteAll_write:
  assumes "i_tx i = Some tx" and "n_read_ops i = 0" and "\<not> f_jsonrequest i"
    and "exec_commit api (word_of_int (max_retry_ms sv)) 0 0 [] (i_stats i) (tx_blobs api tx) = Some (True, waits, st, cur)"
    and "err_class (tx_error api cur) = NoError"
  shows "ExecuteAll depth en api http heap sv False mem r i =
    Some \<lparr>o_code = 204, o_reply = r\<lparr>content_length := Some 0\<rparr>, o_notes = [], o_restart = False, o_waits = waits,
          o_instance = cleanup (i\<lparr>i_stats := st, i_tx := None\<rparr>)\<rparr>"
  using assms
  by (simp add: ExecuteAll_def send_page_def add_etag_def page_of_def no_buffer_def finish_error_def HTTP_OK_def Let_def)

definition planned_insert :: "('f, 'c) query_env \<Rightarrow> dir \<Rightarrow> source \<Rightarrow> table_info \<Rightarrow> 'f mvalue list \<Rightarrow> bool" where
  "planned_insert qe d src ti ms \<longleftrightarrow>
     qe_table qe (database d) (dir_table d) = Some ti \<and> is_insert d src \<and> \<not> keep_tx_open src \<and>
     (\<exists>tab. form_data src = Some (HTTP_OK, tab) \<and> form_values (e_platform (qe_env qe)) ti tab (updatable d) = Some ms) \<and>
     (\<forall>m\<in>set ms. mv_column m \<noteq> None \<longrightarrow> plain_value m)"

lemma planned_insert_run:
  assumes "planned_insert qe d src ti ms" and i: "idle sv i" and "qe_start qe = Some tx" and "api_accepts (qe_op qe)"
  shows "Query depth qe sv d src r i =
    (let i' = reading qe (Insert_tuple # set_calls ti ms) tx (is_jsonrequest (src_content_type src)) i in
     if set_calls ti ms = [] then Some (answer 1 r (cleanup (i'\<lparr>i_tx := None\<rparr>)))
     else ExecuteAll depth (qe_env qe) (qe_tx qe) (qe_http qe) (qe_cells qe) sv False (qe_size qe) r i')"
proof -
  have o: "open_tx (qe_start qe) i = Some (Inr tx)" using i assms(3) by (simp add: open_tx_def idle_def clean_def)
  from assms(1) obtain tab where p: "qe_table qe (database d) (dir_table d) = Some ti" "is_insert d src" "form_data src = Some (HTTP_OK, tab)"
    "form_values (e_platform (qe_env qe)) ti tab (updatable d) = Some ms" "\<forall>m\<in>set ms. mv_column m \<noteq> None \<longrightarrow> plain_value m"
    "\<not> keep_tx_open src" by (auto simp: planned_insert_def)
  show ?thesis by (rule Query_insert [OF p(1-3) o assms(4) p(4-6)])
qed

lemma insert_served:
  assumes p: "planned_insert qe d src ti ms" and i: "idle sv i" and o: "qe_start qe = Some tx" and a: "api_accepts (qe_op qe)"
    and n: "set_calls ti ms \<noteq> []" and j: "\<not> is_jsonrequest (src_content_type src)"
    and x: "exec_commit (qe_tx qe) (word_of_int (max_retry_ms sv)) 0 0 [] (i_stats i)
        (tx_blobs (qe_tx qe) (qe_attach qe (Insert_tuple # set_calls ti ms) tx)) = Some (True, waits, st, cur)"
    and e: "err_class (tx_error (qe_tx qe) cur) = NoError"
  shows "\<exists>out. Query depth qe sv d src r i = Some out \<and> o_code out = 204 \<and> o_reply out = r\<lparr>content_length := Some 0\<rparr> \<and>
     idle sv (o_instance out)"
proof -
  let ?i = "reading qe (Insert_tuple # set_calls ti ms) tx (is_jsonrequest (src_content_type src)) i"
  have k: "i_tx ?i = Some (qe_attach qe (Insert_tuple # set_calls ti ms) tx)" "n_read_ops ?i = 0" "\<not> f_jsonrequest ?i" "i_stats ?i = i_stats i"
    using i j by (simp_all add: reading_def idle_def clean_def)
  note r = planned_insert_run [OF p i o a, of depth r] ExecuteAll_write [OF k(1-3) x [folded k(4)] e, of depth "qe_env qe" "qe_http qe" "qe_cells qe" "qe_size qe" r]
  then obtain out where q: "Query depth qe sv d src r i = Some out" "o_code out = 204" "o_reply out = r\<lparr>content_length := Some 0\<rparr>"
    using n by (simp add: Let_def)
  have "\<not> keep_tx_open src" using p by (simp add: planned_insert_def)
  from Query_instance(2) [OF q(1) idle_instance [OF i] i this] q show ?thesis by blast
qed

lemma insert_nothing:
  assumes "planned_insert qe d src ti ms" and i: "idle sv i" and "qe_start qe = Some tx" and "api_accepts (qe_op qe)"
    and "set_calls ti ms = []"
  shows "\<exists>i'. Query depth qe sv d src r i = Some (answer 1 r i') \<and> idle sv i'"
proof -
  from planned_insert_run [OF assms(1-4), of depth r] assms(5) obtain i' where q: "Query depth qe sv d src r i = Some (answer 1 r i')"
    by (simp add: Let_def)
  have "\<not> keep_tx_open src" using assms(1) by (simp add: planned_insert_def)
  from Query_instance(2) [OF q idle_instance [OF i] i this] q show ?thesis by (auto simp: answer_def)
qed

end
