(* ===== verification/Process.thy ===== *)
theory Process
  imports Instances
begin

text \<open>
  The Apache process (\<open>mod_ndb_ap20.cc\<close>): the connection to the cluster, the table with one
  instance per thread, the choice of the instance for a request, and the restart. Connection
  objects are numbered in the order in which they are made; what the cluster answers, the threading
  of the server and the limits it reports are arguments. \<open>None\<close> is a loop without end, a division
  by zero or an access outside the table.
\<close>

subsection \<open>The state of a process\<close>

record cluster_api =
  connect_rc :: "nat \<Rightarrow> nat \<Rightarrow> int"
  ready_nodes :: "nat \<Rightarrow> int"
  ndb_init_rc :: "nat option \<Rightarrow> nat \<Rightarrow> int"

record mpm =
  mpm_threaded :: bool
  mpm_max_threads :: int
  mpm_hard_limit_threads :: int

text \<open>\<open>i_db\<close>: the connection the \<open>Ndb\<close> object of the instance was made for; \<open>None\<close> is the null pointer.\<close>

record 'c ndb_slot =
  i_db :: "nat option"
  server_config :: srv
  the_instance :: "'c ndb_instance"

record 'c process =
  n_connections :: int
  n_threads :: int
  thread_limit :: int
  apache_is_threaded :: bool
  connected :: bool
  connection :: "nat option"
  n_made :: nat
  instances :: "'c ndb_slot list"
  will_restart :: int
  restart_signals :: nat

definition new_process :: "'c process" where
  "new_process =
     \<lparr>n_connections = 0, n_threads = 0, thread_limit = 0, apache_is_threaded = False, connected = False,
      connection = None, n_made = 0, instances = [], will_restart = 0, restart_signals = 0\<rparr>"

subsection \<open>Connecting\<close>

text \<open>The loop over the attempts: whether it succeeded, and the number of attempts.\<close>

partial_function (option) connect_loop :: "(nat \<Rightarrow> int) \<Rightarrow> nat \<Rightarrow> (bool \<times> nat) option" where
  "connect_loop connect conn_retries =
     (let n = Suc conn_retries; r = connect n in
      if r = 0 then Some (True, n)
      else if r = -1 then Some (False, n)
      else if r = 1 \<and> n = 5 then Some (False, n)
      else connect_loop connect n)"

definition connect_to_cluster :: "cluster_api \<Rightarrow> bool \<Rightarrow> 'c process \<Rightarrow> 'c process option" where
  "connect_to_cluster api in_parent p =
     (let c = n_made p; p1 = p\<lparr>connection := Some c, n_made := Suc c\<rparr> in
      do { (ok, _) \<leftarrow> connect_loop (connect_rc api c) 0;
           Some (if \<not> ok then p1
                 else if in_parent then p1\<lparr>connected := True\<rparr>
                 else if ready_nodes api c < 0 then p1
                 else p1\<lparr>connected := True\<rparr>) })"

text \<open>The test in the parent process; the pointer to the deleted connection stays.\<close>

definition mod_ndb_post_config :: "cluster_api \<Rightarrow> 'c process \<Rightarrow> (int \<times> 'c process) option" where
  "mod_ndb_post_config api p =
     do { p1 \<leftarrow> connect_to_cluster api True p;
          Some (if connected p1 then (HTTP_OK, p1\<lparr>connected := False\<rparr>) else (500, p1)) }"

subsection \<open>The start of a child\<close>

definition zero_stats :: stats where
  "zero_stats = \<lparr>requests = 0, errors = 0, temp_errors = 0, total_retry_ms = 0, temp_timeouts = 0\<rparr>"

definition init_instance :: "cluster_api \<Rightarrow> srv \<Rightarrow> nat option \<Rightarrow> nat \<Rightarrow> 'c ndb_slot" where
  "init_instance api sv c n =
     \<lparr>i_db = (if ndb_init_rc api c n = -1 then None else c), server_config = sv,
      the_instance =
        \<lparr>i_tx = None, n_read_ops = 0, i_data = replicate (nat (max_read_operations sv)) zero_data,
         f_aborted = False, f_use_etag = False, f_jsonrequest = False, i_stats = zero_stats\<rparr>\<rparr>"

definition mod_ndb_child_init :: "cluster_api \<Rightarrow> mpm \<Rightarrow> srv \<Rightarrow> 'c process \<Rightarrow> 'c process option" where
  "mod_ndb_child_init api m sv p =
     (let p1 = p\<lparr>apache_is_threaded := mpm_threaded m,
                 n_threads := (if mpm_threaded m then mpm_max_threads m else 1),
                 thread_limit := (if mpm_threaded m then mpm_hard_limit_threads m else 1),
                 n_connections := 1\<rparr> in
      do { p2 \<leftarrow> connect_to_cluster api False p1;
           Some (p2\<lparr>instances := map (init_instance api sv (connection p2)) [0..<nat (n_threads p2)]\<rparr>) })"

subsection \<open>The instance for a request\<close>

text \<open>The position of the instance in the table, where there is one; \<open>conn_id\<close> is the number of the client connection.\<close>

definition my_instance :: "cluster_api \<Rightarrow> int \<Rightarrow> 'c process \<Rightarrow> (int option \<times> 'c process) option" where
  "my_instance api conn_id p =
     do { thread_id \<leftarrow> (if apache_is_threaded p
                        then (if thread_limit p = 0 then None else Some (conn_id smod thread_limit p)) else Some 0);
          (if n_connections p = 1 then
             do { p1 \<leftarrow> (if connected p then Some p else connect_to_cluster api False p);
                  (if \<not> connected p1 then Some (None, p1)
                   else if in_range thread_id (instances p1) then Some (Some thread_id, p1) else None) }
           else Some (None, p)) }"

definition module_must_restart :: "'c process \<Rightarrow> 'c process" where
  "module_must_restart p =
     p\<lparr>will_restart := will_restart p + 1,
       restart_signals := (if will_restart p = 0 then Suc (restart_signals p) else restart_signals p)\<rparr>"

text \<open>The exit of a child: the objects that are deleted, the \<open>Ndb\<close> objects and then the connection.\<close>

definition mod_ndb_child_exit :: "'c process \<Rightarrow> (nat list \<times> nat option) option" where
  "mod_ndb_child_exit p =
     (case connection p of
        None \<Rightarrow> Some ([], None)
      | Some c \<Rightarrow>
          do { slots \<leftarrow> those (map (\<lambda>n. arr_get (instances p) (int n)) [0..<nat (n_threads p)]);
               Some (List.map_filter i_db slots, Some c) })"

subsection \<open>Connecting ends\<close>

text \<open>The documented results of \<open>Ndb_cluster_connection::connect\<close>: success, a permanent error, a temporary one.\<close>

definition connect_law :: "cluster_api \<Rightarrow> bool" where
  "connect_law api \<longleftrightarrow> (\<forall>c n. connect_rc api c n \<in> {0, -1, 1})"

lemma connect_loop_returns:
  assumes "\<forall>n. connect n \<in> {0, -1, 1}" and "k < 5"
  shows "\<exists>ok n. connect_loop connect k = Some (ok, n) \<and> k < n \<and> n \<le> 5 \<and> (ok \<longleftrightarrow> connect n = 0) \<and>
     (\<forall>j. k < j \<and> j < n \<longrightarrow> connect j = 1)"
  using assms(2)
proof (induction "5 - k" arbitrary: k)
  case (Suc x)
  show ?case
  proof (cases "connect (Suc k) = 1 \<and> Suc k \<noteq> 5")
    case True
    then have k: "Suc k < 5" "x = 5 - Suc k" using Suc.prems Suc.hyps(2) by simp_all
    from Suc.hyps(1) [OF k(2,1)] obtain ok n where
      n: "connect_loop connect (Suc k) = Some (ok, n)" "Suc k < n" "n \<le> 5" "ok \<longleftrightarrow> connect n = 0"
        "\<forall>j. Suc k < j \<and> j < n \<longrightarrow> connect j = 1" by (elim exE conjE)
    have "connect_loop connect k = Some (ok, n)" using n(1) True by (subst connect_loop.simps) (simp add: Let_def)
    moreover have "connect j = 1" if "k < j" "j < n" for j
      using n(5) True that by (cases "j = Suc k") auto
    ultimately show ?thesis using n by auto
  next
    case False
    have "connect (Suc k) \<in> {0, -1, 1}" using assms(1) by blast
    with False have "connect_loop connect k = Some (connect (Suc k) = 0, Suc k)"
      by (subst connect_loop.simps) (auto simp: Let_def)
    then show ?thesis using Suc.prems by auto
  qed
qed simp

lemma connect_loop_undocumented:
  assumes "\<forall>n>k. connect n \<notin> {0, -1, 1}"
  shows "connect_loop connect k = None"
proof (rule ccontr)
  assume "connect_loop connect k \<noteq> None"
  then obtain r where "connect_loop connect k = Some r" by blast
  then show False using assms
  proof (induction rule: connect_loop.raw_induct [rotated, consumes 1, case_names step])
    case (step f connect k r)
    have "connect (Suc k) \<notin> {0, -1, 1}" using step(3) by blast
    with step(2) have "f connect (Suc k) = Some r" by (auto simp: Let_def split: if_splits)
    moreover have "\<forall>n>Suc k. connect n \<notin> {0, -1, 1}" using step(3) by simp
    ultimately show False by (rule step(1))
  qed
qed

lemma connect_to_cluster_returns:
  assumes "connect_law api"
  shows "\<exists>p'. connect_to_cluster api in_parent p = Some p' \<and> p' = p\<lparr>connection := Some (n_made p), n_made := Suc (n_made p), connected := connected p'\<rparr> \<and>
    (connected p \<longrightarrow> connected p')"
proof -
  have "\<forall>n. connect_rc api (n_made p) n \<in> {0, -1, 1}" using assms by (simp add: connect_law_def)
  from connect_loop_returns [OF this, of 0] obtain ok n where "connect_loop (connect_rc api (n_made p)) 0 = Some (ok, n)" by auto
  then show ?thesis by (auto simp: connect_to_cluster_def Let_def)
qed

lemma connect_to_cluster_frame:
  assumes "connect_to_cluster api in_parent p = Some p'"
  shows "instances p' = instances p" "n_threads p' = n_threads p" "thread_limit p' = thread_limit p"
    "n_connections p' = n_connections p" "apache_is_threaded p' = apache_is_threaded p" "connection p' = Some (n_made p)"
  using assms by (auto simp: connect_to_cluster_def Let_def split: Option.bind_splits if_splits)

end
