(* ===== verification/Format_Files.thy ===== *)
theory Format_Files
  imports Format_Registry
begin

text \<open>
  Formats as text: the \<open>ResultFormat\<close> container of the configuration (\<open>config.cc\<close>), which defines
  a format line by line, and the dumper (\<open>format_dumper.cc\<close>), which writes a format as such a
  container or its compiled parts as JSON. \<open>ap_getword_conf\<close>, which takes a possibly quoted word from
  a line, and \<open>ap_find_last_token\<close> are arguments; the lines are those that \<open>ap_cfg_getline\<close> gives.
\<close>

subsection \<open>The container\<close>

text \<open>One line: an error message, or the format with what the line defines.\<close>

definition container_line ::
  "(string \<Rightarrow> string \<times> string) \<Rightarrow> string \<Rightarrow> string \<Rightarrow> output_format \<Rightarrow> string + output_format" where
  "container_line gw name line f =
     (let (word1, p1) = gw line; (word2, p2) = gw p1; (word3, p3) = gw p2; (word4, p4) = gw p3 in
      if word1 = [] \<or> hd word1 = CHR ''#'' then Inr f
      else if word2 = [] \<or> CHR ''$'' \<in> set word2 then
        Inl (''Syntax error at '' @ DQ # word1 @ DQ # '' in result format '' @ DQ # name @ [DQ])
      else if take 1 word3 \<noteq> ''='' then
        Inl (''Expected '' @ [CHR 0x27] @ ''='' @ [CHR 0x27] @ '' after '' @ DQ # word1 @ '' '' @ word2 @ DQ # '' in result format '' @ DQ # name @ [DQ])
      else if word4 = [] then
        Inl (''Incomplete assignment to '' @ word1 @ '' '' @ word2 @ '' in result format '' @ DQ # name @ [DQ])
      else let txt = unescape word4 in
        if strcasecmp word1 ''Format'' = 0 then Inr (add_main txt f)
        else if strcasecmp word1 ''Scan'' = 0 then Inr (define_node word2 (new_node Scan_loop txt None) f)
        else if strcasecmp word1 ''Row'' = 0 then Inr (define_node word2 (new_node Row_loop txt None) f)
        else if strcasecmp word1 ''Record'' = 0 then
          (let (word5, p5) = gw p4; (word6, p6) = gw p5 in
           if word6 = [] then Inr (define_node word2 (new_node Rec_attr txt (Some txt)) f)
           else if strcasecmp word5 ''or'' \<noteq> 0 then Inl (''Expected '' @ [CHR 0x27] @ ''or'' @ [CHR 0x27])
           else Inr (define_node word2 (new_node Rec_attr txt (Some (unescape word6))) f))
        else Inl (''Unknown object type '' @ DQ # word1 @ DQ # '' in result format '' @ DQ # name @ DQ # ''.''))"

fun container_lines ::
  "(string \<Rightarrow> string \<times> string) \<Rightarrow> string \<Rightarrow> string list \<Rightarrow> output_format \<Rightarrow> string + output_format" where
  "container_lines gw name [] f = Inr f"
| "container_lines gw name (line # lines) f =
     (if strcasecmp line ''</ResultFormat>'' = 0 then Inr f
      else case container_line gw name line f of Inl e \<Rightarrow> Inl e | Inr f' \<Rightarrow> container_lines gw name lines f')"

text \<open>The directive: an error message, the registry and the parser. Apache stops at an error.\<close>

definition result_fmt_container ::
  "nat \<Rightarrow> (string \<Rightarrow> string \<times> string) \<Rightarrow> (string \<Rightarrow> string \<Rightarrow> bool) \<Rightarrow> string \<Rightarrow> string list \<Rightarrow> registry \<Rightarrow> parser \<Rightarrow>
   (string option \<times> registry \<times> parser) option" where
  "result_fmt_container lb gw find_last_token args lines reg st =
     (let (name, pos) = gw args in
      if \<not> find_last_token pos ''>'' then
        Some (Some (''Could not find closing '' @ [CHR 0x27] @ ''>'' @ [CHR 0x27] @ '' at top line of result format '' @ DQ # name @ DQ #
          ''. (Put the format name in quotes?)''), reg, st)
      else case container_lines gw name lines (new_format name) of
          Inl e \<Rightarrow> Some (Some e, reg, st)
        | Inr f \<Rightarrow>
            (if top_node f = None then
               Some (Some (''You must define a Format object in result format '' @ DQ # name @ [DQ]), reg, st)
             else case compile lb f st of
                 None \<Rightarrow> None
               | Some (Inl e) \<Rightarrow> Some (Some e, reg, st)
               | Some (Inr (f', st')) \<Rightarrow>
                   map_option (\<lambda>(reg', err). (err, reg', st')) (register_format lb f' reg)))"

subsection \<open>The dump as a container\<close>

fun conf_chars :: "(int \<Rightarrow> bool) \<Rightarrow> string \<Rightarrow> result_buffer \<Rightarrow> result_buffer option" where
  "conf_chars grant [] rb = Some rb"
| "conf_chars grant (c # cs) rb =
     do { rb' \<leftarrow> (if c = NL then out_fmt grant [CHR 0x5C, CHR ''n''] rb
                  else do { rb1 \<leftarrow> (if c = CHR 0x27 then putc (CHR 0x5C) rb else Some rb); putc c rb1 });
          conf_chars grant cs rb' }"

definition escape_conf_str :: "(int \<Rightarrow> bool) \<Rightarrow> string \<Rightarrow> result_buffer \<Rightarrow> result_buffer option" where
  "escape_conf_str grant str rb =
     do { rb1 \<leftarrow> putc (CHR 0x27) rb; rb2 \<leftarrow> conf_chars grant str rb1; putc (CHR 0x27) rb2 }"

definition node_dump_source :: "(int \<Rightarrow> bool) \<Rightarrow> string \<Rightarrow> node \<Rightarrow> result_buffer \<Rightarrow> result_buffer option" where
  "node_dump_source grant fname nd rb =
     (if n_class nd = Plain_node then Some rb
      else do {
        rb1 \<leftarrow> out_fmt grant
          ((case n_class nd of
              Main_loop \<Rightarrow> ''    Format  '' @ fname
            | Scan_loop \<Rightarrow> ''    Scan  '' @ n_name nd
            | Row_loop \<Rightarrow> ''    Row  '' @ n_name nd
            | _ \<Rightarrow> ''    Record  '' @ n_name nd) @ '' = '') rb;
        rb2 \<leftarrow> escape_conf_str grant (unresolved nd) rb1;
        rb3 \<leftarrow> (case (if n_class nd = Rec_attr then unresolved2 nd else None) of
                  None \<Rightarrow> Some rb2
                | Some t \<Rightarrow> do { rb' \<leftarrow> out_fmt grant ''  or  '' rb2; escape_conf_str grant t rb' });
        out_fmt grant [NL] rb3 })"

fun dump_nodes :: "(int \<Rightarrow> bool) \<Rightarrow> string \<Rightarrow> node list \<Rightarrow> nat list \<Rightarrow> result_buffer \<Rightarrow> result_buffer option" where
  "dump_nodes grant fname ns [] rb = Some rb"
| "dump_nodes grant fname ns (a # as) rb =
     do { nd \<leftarrow> arr_get ns (int a);
          rb' \<leftarrow> (if strcmp (n_name nd) ''_main'' \<noteq> 0 then node_dump_source grant fname nd rb else Some rb);
          dump_nodes grant fname ns as rb' }"

definition dump_source :: "(int \<Rightarrow> bool) \<Rightarrow> output_format \<Rightarrow> result_buffer \<Rightarrow> result_buffer option" where
  "dump_source grant f rb =
     (if is_raw f then Some rb
      else do {
        rb1 \<leftarrow> out_fmt grant (''<ResultFormat '' @ DQ # f_name f @ DQ # ''>'' @ [NL]) rb;
        top \<leftarrow> top_node f;
        nd \<leftarrow> arr_get (f_nodes f) (int top);
        rb2 \<leftarrow> node_dump_source grant (f_name f) nd rb1;
        rb3 \<leftarrow> dump_nodes grant (f_name f) (f_nodes f) (concat (symbol_table f)) rb2;
        out_fmt grant (''</ResultFormat>'' @ [NL, NL]) rb3 })"

subsection \<open>The dump as JSON\<close>

text \<open>
  The variant of \<open>escape_string\<close> for the pool: both passes take their index from an unsigned
  character. The second pass writes into a block of the size the first has found.
\<close>

fun pool_escaped_size :: "escape_table \<Rightarrow> string \<Rightarrow> int option" where
  "pool_escaped_size escapes [] = Some 0"
| "pool_escaped_size escapes (c # cs) =
     do { esc \<leftarrow> arr_get escapes (of_char c);
          n \<leftarrow> (case esc of None \<Rightarrow> Some 1 | Some e \<Rightarrow> map_option schar (arr_get e 0));
          rest \<leftarrow> pool_escaped_size escapes cs;
          Some (n + rest) }"

fun pool_escaped :: "escape_table \<Rightarrow> string \<Rightarrow> string option" where
  "pool_escaped escapes [] = Some []"
| "pool_escaped escapes (c # cs) =
     do { esc \<leftarrow> arr_get escapes (of_char c);
          s \<leftarrow> (case esc of
                  None \<Rightarrow> Some [c]
                | Some e \<Rightarrow> do { n \<leftarrow> arr_get e 0; those (map (\<lambda>j. arr_get e (int j)) [1..<Suc (nat (schar n))]) });
          rest \<leftarrow> pool_escaped escapes cs;
          Some (s @ rest) }"

definition pool_escape_string :: "escape_table \<Rightarrow> string \<Rightarrow> string option" where
  "pool_escape_string escapes str =
     do { n \<leftarrow> pool_escaped_size escapes str;
          if n = int (length str) then Some str
          else do { out \<leftarrow> pool_escaped escapes str;
                    if int (length out) \<le> n then Some out else None } }"

definition json_str :: "string \<Rightarrow> string option" where
  "json_str str = pool_escape_string escape_leaning_toothpicks str"

definition make_inset :: "nat \<Rightarrow> string" where
  "make_inset n = NL # replicate n (CHR '' '')"

text \<open>The text of one cell of a chain; the dump of a chain separates them by commas.\<close>

definition cell_flags :: "cell \<Rightarrow> string" where
  "cell_flags c =
     (if cell_esc c = no_esc \<and> elem_quote c = no_quot then []
      else ''/'' @ (case elem_quote c of quote_char \<Rightarrow> ''q'' | quote_all \<Rightarrow> ''Q'' | no_quot \<Rightarrow> []) @
        (case cell_esc c of esc_json \<Rightarrow> ''j'' | esc_xml \<Rightarrow> ''x'' | esc_xmljson \<Rightarrow> ''k'' | no_esc \<Rightarrow> []))"

definition cell_item :: "cell \<Rightarrow> string option" where
  "cell_item c =
     (case elem_type c of
        const_string \<Rightarrow> map_option (\<lambda>v. DQ # v @ [DQ]) (json_str (cell_string c))
      | item_name \<Rightarrow>
          Some (DQ # ''$name'' @ (case elem_quote c of quote_char \<Rightarrow> ''/q'' | quote_all \<Rightarrow> ''/Q'' | no_quot \<Rightarrow> []) @ CHR ''$'' # [DQ])
      | item_value \<Rightarrow>
          Some (DQ # (if cell_i c > 0 then CHR ''$'' # fmt_d (to_int (int (cell_i c))) else ''$value'') @ cell_flags c @ CHR ''$'' # [DQ]))"

definition cell_dump :: "cell list \<Rightarrow> nat option \<Rightarrow> string option" where
  "cell_dump heap p =
     do { a \<leftarrow> p;
          cs \<leftarrow> cell_chain heap (Some a);
          items \<leftarrow> those (map cell_item cs);
          Some (''['' @ join '' , '' items @ '']'') }"

text \<open>
  The parts of a node; a core that leads back to a loop gives no end. The text is what the calls
  of \<open>out\<close> write one after the other.
\<close>

partial_function (option) node_dump :: "cell list \<Rightarrow> node list \<Rightarrow> nat \<Rightarrow> nat \<Rightarrow> string option" where
  "node_dump heap ns a indent =
     do { nd \<leftarrow> arr_get ns (int a);
          let inset = make_inset indent;
          (case n_class nd of
             Plain_node \<Rightarrow>
               do { c \<leftarrow> n_cell nd;
                    cl \<leftarrow> arr_get heap (int c);
                    if cell_string cl \<noteq> [] then
                      do { t \<leftarrow> cell_dump heap (n_cell nd); Some (inset @ ''{ '' @ DQ # ''cell'' @ DQ # '':'' @ t @ '' }'') }
                    else Some '' null'' }
           | Rec_attr \<Rightarrow>
               do { t \<leftarrow> cell_dump heap (n_fmt nd);
                    u \<leftarrow> cell_dump heap (n_null_fmt nd);
                    Some (inset @ ''{'' @ inset @ ''  '' @ DQ # ''fmt'' @ DQ # '' :     '' @ t @ '' ,'' @ inset @ ''  '' @ DQ # ''null_fmt'' @ DQ # '': '' @ u @ inset @ ''}'') }
           | Main_loop \<Rightarrow>
               do { b \<leftarrow> l_begin nd; bc \<leftarrow> arr_get heap (int b); bt \<leftarrow> json_str (cell_string bc);
                    e \<leftarrow> l_end nd; ec \<leftarrow> arr_get heap (int e); et \<leftarrow> json_str (cell_string ec);
                    c \<leftarrow> (case l_core nd of None \<Rightarrow> Some ''null'' | Some core \<Rightarrow> node_dump heap ns core 6);
                    Some (''    '' @ DQ # ''begin'' @ DQ # '': '' @ DQ # bt @ DQ # '', '' @ DQ # ''end'' @ DQ # '': '' @ DQ # et @ DQ # '', '' @
                      DQ # ''core'' @ DQ # '': '' @ NL # ''    [ '' @ c @ NL # ''    ]'' @ [NL]) }
           | _ \<Rightarrow>
               do { b \<leftarrow> cell_dump heap (l_begin nd);
                    core \<leftarrow> l_core nd;
                    c \<leftarrow> node_dump heap ns core (indent + 4);
                    sep \<leftarrow> l_sep nd;
                    s \<leftarrow> json_str sep;
                    e \<leftarrow> cell_dump heap (l_end nd);
                    Some (''{ '' @ DQ # n_name nd @ DQ # '':'' @ inset @ ''  {'' @ inset @ ''    '' @ DQ # ''begin'' @ DQ # '': '' @ b @
                      '' ,'' @ inset @ ''    '' @ DQ # ''core'' @ DQ # '':  '' @ c @
                      '' ,'' @ inset @ ''    '' @ DQ # ''sep'' @ DQ # '': '' @ DQ # s @ DQ # '' , '' @ DQ # ''end'' @ DQ # '': '' @ e @
                      inset @ ''  }'' @ inset @ ''}'') }) }"

definition show_bool :: "bool \<Rightarrow> string" where
  "show_bool b = (if b then ''true'' else ''false'')"

definition dump :: "cell list \<Rightarrow> output_format \<Rightarrow> string option" where
  "dump heap f =
     do { t \<leftarrow> (if is_raw f then Some []
                else do { a \<leftarrow> top_node f; node_dump heap (f_nodes f) a 0 });
          Some (''{ '' @ DQ # f_name f @ DQ # '':'' @ NL # ''  { '' @ DQ # ''is_internal'' @ DQ # '': '' @ show_bool (is_internal f) @
            '', '' @ DQ # ''can_override'' @ DQ # '': '' @ show_bool (can_override f) @
            '', '' @ DQ # ''is_raw'' @ DQ # '': '' @ (if is_raw f then ''true'' else ''false ,'') @ '' '' @ NL # t @
            ''  }'' @ NL # ''}'' @ [NL]) }"

end
