(* ===== verification/Content_Handlers.thy ===== *)
theory Content_Handlers
  imports Process Format_Files
begin

text \<open>
  The content handlers of \<open>handlers.cc\<close> for queries, batches, dumps of formats and the status page,
  and the query sources they make. A request of Apache is a record; a subrequest carries the notes of its main
  request, through which the page that includes it passes a method and data.
\<close>

subsection \<open>Requests of Apache\<close>

record http_request =
  hr_handler :: string
  hr_connection :: int
  hr_method :: http_method
  hr_args :: "string option"
  hr_path_info :: string
  hr_content_type :: "string option"
  hr_body :: client_body
  hr_main_notes :: "apache_table option"

record 'c response =
  rs_code :: int
  rs_reply :: reply
  rs_notes :: "(string \<times> string option) list"
  rs_main_notes :: "apache_table option"
  rs_process :: "'c process"

definition OK :: int where "OK = 0"

definition HTTP_SERVICE_UNAVAILABLE :: int where "HTTP_SERVICE_UNAVAILABLE = 503"

definition table_unset :: "string \<Rightarrow> apache_table \<Rightarrow> apache_table" where
  "table_unset nm t = filter (\<lambda>(k, _). strcasecmp k nm \<noteq> 0) t"

definition HTTP_query_source ::
  "(string \<Rightarrow> char \<Rightarrow> string \<times> string) \<Rightarrow> (string \<Rightarrow> string) \<Rightarrow> (string \<Rightarrow> int \<Rightarrow> form_table \<Rightarrow> (form_table \<times> nat) option) \<Rightarrow>
   http_request \<Rightarrow> source" where
  "HTTP_query_source gw un pj h =
     \<lparr>src_request = \<lparr>req_method = hr_method h, method_number = hr_method h, args = hr_args h, path_info = hr_path_info h\<rparr>,
      src_content_type = hr_content_type h, keep_tx_open = False,
      form_data = http_get_form_data gw un pj (hr_method h) (hr_content_type h) (hr_body h) empty_form\<rparr>"

definition Apache_subrequest_query_source ::
  "(string \<Rightarrow> char \<Rightarrow> string \<times> string) \<Rightarrow> (string \<Rightarrow> string) \<Rightarrow> apache_table \<Rightarrow> http_request \<Rightarrow> source" where
  "Apache_subrequest_query_source gw un main_notes h =
     \<lparr>src_request = \<lparr>req_method = subrequest_method (table_get main_notes ''ndb_request_method''),
                     method_number = hr_method h, args = hr_args h, path_info = hr_path_info h\<rparr>,
      src_content_type = None, keep_tx_open = True,
      form_data = subrequest_get_form_data gw un (table_get main_notes ''ndb_request_data'') empty_form\<rparr>"

text \<open>The source, and the notes of the main request once the request has used them.\<close>

definition query_source_of ::
  "(string \<Rightarrow> char \<Rightarrow> string \<times> string) \<Rightarrow> (string \<Rightarrow> string) \<Rightarrow> (string \<Rightarrow> int \<Rightarrow> form_table \<Rightarrow> (form_table \<times> nat) option) \<Rightarrow>
   http_request \<Rightarrow> source" where
  "query_source_of gw un pj h =
     (case hr_main_notes h of
        None \<Rightarrow> HTTP_query_source gw un pj h
      | Some t \<Rightarrow> Apache_subrequest_query_source gw un t h)"

definition used_notes :: "bool \<Rightarrow> source \<Rightarrow> apache_table option \<Rightarrow> apache_table option" where
  "used_notes form_read src notes =
     map_option (\<lambda>t. let t1 = table_unset ''ndb_request_method'' t in
       if form_read \<and> req_method (src_request src) = M_POST then table_unset ''ndb_request_data'' t1 else t1) notes"

subsection \<open>Handlers\<close>

definition reply_only :: "int \<Rightarrow> reply \<Rightarrow> http_request \<Rightarrow> 'c process \<Rightarrow> 'c response" where
  "reply_only code r h p = \<lparr>rs_code = code, rs_reply = r, rs_notes = [], rs_main_notes = hr_main_notes h, rs_process = p\<rparr>"

text \<open>The instance after a request goes back into its place; a restart is a matter of the process.\<close>

definition put_back :: "int \<Rightarrow> 'c outcome \<Rightarrow> 'c process \<Rightarrow> 'c process" where
  "put_back t out p =
     (let p1 = p\<lparr>instances := (instances p)[nat t := (instances p ! nat t)\<lparr>the_instance := o_instance out\<rparr>]\<rparr> in
      if o_restart out then module_must_restart p1 else p1)"

definition count_request :: "'c ndb_instance \<Rightarrow> 'c ndb_instance" where
  "count_request i = i\<lparr>i_stats := (i_stats i)\<lparr>requests := requests (i_stats i) + 1\<rparr>\<rparr>"

definition with_instance ::
  "cluster_api \<Rightarrow> http_request \<Rightarrow> reply \<Rightarrow> 'c process \<Rightarrow>
   ('c ndb_slot \<Rightarrow> 'c outcome option) \<Rightarrow> apache_table option \<Rightarrow> 'c response option" where
  "with_instance capi h r p act notes =
     do { (thread, p1) \<leftarrow> my_instance capi (hr_connection h) p;
          (case thread of
             None \<Rightarrow> Some (reply_only HTTP_SERVICE_UNAVAILABLE r h p1)
           | Some t \<Rightarrow>
               do { slot \<leftarrow> arr_get (instances p1) t;
                    out \<leftarrow> act slot;
                    Some \<lparr>rs_code = o_code out, rs_reply = o_reply out, rs_notes = o_notes out,
                          rs_main_notes = notes, rs_process = put_back t out p1\<rparr> }) }"

definition ndb_handler ::
  "nat \<Rightarrow> cluster_api \<Rightarrow> ('f, 'c) query_env \<Rightarrow> (string \<Rightarrow> int \<Rightarrow> form_table \<Rightarrow> (form_table \<times> nat) option) \<Rightarrow> dir \<Rightarrow>
   http_request \<Rightarrow> reply \<Rightarrow> 'c process \<Rightarrow> 'c response option" where
  "ndb_handler depth capi qe pj d h r p =
     (if strcmp (hr_handler h) ''ndb-cluster'' \<noteq> 0 then Some (reply_only DECLINED r h p)
      else if database d = None \<or> dir_table d = None then
        map_option (\<lambda>(r', code). reply_only code r' h p)
          (ndb_handle_error (e_grant (qe_env qe)) 500 None (Some ''Configuration error.'') r)
      else
        (let src = query_source_of (qe_getword qe) (qe_unescape qe) pj h in
         with_instance capi h r p
           (\<lambda>slot. if i_db slot = None then None
                   else Query depth qe (server_config slot) d src r (count_request (the_instance slot)))
           (used_notes (qe_table qe (database d) (dir_table d) \<noteq> None) src (hr_main_notes h))))"

text \<open>The results of a subrequest go into notes unless the page asks for them to be sent.\<close>

definition ndb_exec_batch_handler ::
  "nat \<Rightarrow> cluster_api \<Rightarrow> ('f, 'c) query_env \<Rightarrow> http_request \<Rightarrow> reply \<Rightarrow> 'c process \<Rightarrow> 'c response option" where
  "ndb_exec_batch_handler depth capi qe h r p =
     (if strcmp (hr_handler h) ''ndb-exec-batch'' \<noteq> 0 then Some (reply_only DECLINED r h p)
      else
        (let to_note = (case hr_main_notes h of None \<Rightarrow> False | Some t \<Rightarrow> table_get t ''ndb_send_result'' = None) in
         with_instance capi h r p
           (\<lambda>slot. ExecuteAll depth (qe_env qe) (qe_tx qe) (qe_http qe) (qe_cells qe) (server_config slot) to_note (qe_size qe) r
              (count_request (the_instance slot)))
           (hr_main_notes h)))"

subsection \<open>The status page\<close>

definition show_s :: "string option \<Rightarrow> string" where
  "show_s s = (case s of None \<Rightarrow> ''(null)'' | Some t \<Rightarrow> t)"

definition endpoint_line :: "dir \<Rightarrow> string" where
  "endpoint_line d =
     ''  .. DB: '' @ show_s (database d) @ '' , Table: '' @ show_s (dir_table d) @ '' , Path: '' @ dir_path d @ [NL]"

definition stats_lines :: "nat \<Rightarrow> stats \<Rightarrow> string" where
  "stats_lines node st =
     ''Node Id: '' @ fmt_d (int node) @ [NL, NL] @
     ''Requests in:        '' @ dec (unat (requests st)) @ [NL] @
     ''Errors:             '' @ dec (unat (errors st)) @ [NL] @
     ''Temporary Errors:   '' @ dec (unat (temp_errors st)) @ [NL] @
     ''Total retry time:   '' @ dec (unat (total_retry_ms st)) @ '' ms'' @ [NL] @
     ''Retry timeouts hit: '' @ dec (unat (temp_timeouts st)) @ [NL]"

definition status_head :: "int \<Rightarrow> srv \<Rightarrow> 'c process \<Rightarrow> string" where
  "status_head pid sv p =
     ''Process ID: '' @ fmt_d pid @ [NL] @
     ''Connect string: '' @ show_s (connect_string sv) @ [NL] @
     ''NDB Cluster Connections: '' @ fmt_d (n_connections p) @ [NL] @
     ''Apache Threads: '' @ fmt_d (n_threads p) @ [NL] @
     ''Force restart on stale dictionary: '' @ (if force_restart_flag sv \<noteq> 0 then ''Yes'' else ''No'') @ [NL] @
     ''Max retry time on temporary errors: '' @ fmt_d (max_retry_ms sv) @ '' ms'' @ [NL]"

definition ndb_status_handler ::
  "cluster_api \<Rightarrow> int \<Rightarrow> (nat \<Rightarrow> nat) \<Rightarrow> srv \<Rightarrow> (nat \<Rightarrow> dir) \<Rightarrow> endpoints \<Rightarrow> http_request \<Rightarrow> reply \<Rightarrow> 'c process \<Rightarrow> 'c response option" where
  "ndb_status_handler capi pid node_id sv dir_at ep h r p =
     (if strcmp (hr_handler h) ''ndb-status'' \<noteq> 0 then Some (reply_only DECLINED r h p)
      else
        do { let r1 = rwrite (status_head pid sv p) (send_header (r\<lparr>content_type := ''text/plain''\<rparr>));
             (thread, p1) \<leftarrow> my_instance capi (hr_connection h) p;
             (case thread of
                None \<Rightarrow>
                  Some (reply_only OK (rwrite (NL # '' -- RUNTIME ERROR: Cannot retrieve an NDB instance.'' @ [NL] @
                    (if connected p1 then '''' else ''Not connected to NDB cluster.'' @ [NL])) r1) h p1)
              | Some t \<Rightarrow>
                  do { slot \<leftarrow> arr_get (instances p1) t;
                       c \<leftarrow> connection p1;
                       ps \<leftarrow> those (map (\<lambda>n. arr_get (all_endpoints ep) (int n)) [0..<nat (n_endp ep)]);
                       ds \<leftarrow> those (map (map_option dir_at) ps);
                       Some (reply_only OK (rwrite (stats_lines (node_id c) (i_stats (the_instance slot)) @
                         NL # ''Endpoints:     '' @ fmt_d (n_endp ep) @ [NL] @ concat (map endpoint_line ds)) r1) h p1) }) })"

subsection \<open>The dump of a format\<close>

text \<open>\<open>fnmatch\<close> is the matching of file names of Apache, with the result 0 for a match.\<close>

definition ndb_dump_format_handler ::
  "nat \<Rightarrow> (int \<Rightarrow> bool) \<Rightarrow> (string \<Rightarrow> string) \<Rightarrow> (string \<Rightarrow> string \<Rightarrow> int) \<Rightarrow> registry \<Rightarrow> cell list \<Rightarrow>
   http_request \<Rightarrow> reply \<Rightarrow> 'c process \<Rightarrow> 'c response option" where
  "ndb_dump_format_handler lb grant md5sum fnmatch reg heap h r p =
     (if strcmp (hr_handler h) ''ndb-dump-format'' \<noteq> 0 then Some (reply_only DECLINED r h p)
      else do {
        name \<leftarrow> hr_args h;
        found \<leftarrow> get_format_by_name lb name reg;
        (case found of
           None \<Rightarrow>
             map_option (\<lambda>(r', code). reply_only code r' h p)
               (ndb_handle_error grant 404 None (Some (''Unknown format.'' @ [NL])) r)
         | Some a \<Rightarrow>
             do { let f = global_output_formats reg ! a;
                  let rb = init grant 8192 (no_buffer 0);
                  rb' \<leftarrow> (if fnmatch ''*/source'' (hr_path_info h) = 0 then dump_source grant f rb
                          else do { t \<leftarrow> dump heap f; out_fmt grant t rb });
                  t \<leftarrow> buffer_text rb';
                  let r1 = r\<lparr>headers_out := table_set ''ETag'' (md5sum t) (headers_out r), content_length := Some (int (length t)),
                             content_type := ''text/plain''\<rparr>;
                  Some (reply_only OK (rwrite t (send_header r1)) h p) }) })"

end
