(* ===== verification/Process_Correct.thy ===== *)
theory Process_Correct
  imports Content_Handlers
begin

text \<open>
  What holds in every state of a child process: the table has one instance per thread, and every
  instance is in order. The states are those reached from the start of the child by the
  handlers, in any order, over any tables and for any behaviour of the cluster; \<open>ok\<close> restricts the
  requests.
\<close>

subsection \<open>Reachable states\<close>

inductive reachable ::
  "(('f, 'c) query_env \<Rightarrow> http_request \<Rightarrow> bool) \<Rightarrow> cluster_api \<Rightarrow> mpm \<Rightarrow> srv \<Rightarrow> 'c process \<Rightarrow> bool"
  for ok :: "('f, 'c) query_env \<Rightarrow> http_request \<Rightarrow> bool" and capi :: cluster_api and m :: mpm and sv :: srv where
  start: "mod_ndb_post_config papi new_process = Some (code, p0) \<Longrightarrow> mod_ndb_child_init capi m sv p0 = Some p \<Longrightarrow>
    reachable ok capi m sv p"
| query: "reachable ok capi m sv p \<Longrightarrow> ok qe h \<Longrightarrow> ndb_handler depth capi qe pj d h r p = Some rs \<Longrightarrow>
    reachable ok capi m sv (rs_process rs)"
| batch: "reachable ok capi m sv p \<Longrightarrow> ok qe h \<Longrightarrow> ndb_exec_batch_handler depth capi qe h r p = Some rs \<Longrightarrow>
    reachable ok capi m sv (rs_process rs)"
| status: "reachable ok capi m sv p \<Longrightarrow> ndb_status_handler capi pid node_id sv' dir_at ep h r p = Some rs \<Longrightarrow>
    reachable ok capi m sv (rs_process rs)"

definition main_request :: "('f, 'c) query_env \<Rightarrow> http_request \<Rightarrow> bool" where
  "main_request qe h \<longleftrightarrow> hr_main_notes h = None"

definition threads :: "mpm \<Rightarrow> int" where
  "threads m = (if mpm_threaded m then mpm_max_threads m else 1)"

definition process_ok :: "('c ndb_instance \<Rightarrow> bool) \<Rightarrow> mpm \<Rightarrow> srv \<Rightarrow> 'c process \<Rightarrow> bool" where
  "process_ok good m sv p \<longleftrightarrow>
     n_connections p = 1 \<and> n_threads p = threads m \<and> apache_is_threaded p = mpm_threaded m \<and>
     thread_limit p = (if mpm_threaded m then mpm_hard_limit_threads m else 1) \<and>
     length (instances p) = nat (threads m) \<and>
     (\<forall>s\<in>set (instances p). server_config s = sv \<and> good (the_instance s))"

lemma init_instance_idle: "idle sv (the_instance (init_instance api sv c n))"
proof -
  have "set (replicate k zero_data) \<subseteq> {zero_data}" for k by (simp add: set_replicate_conv_if)
  then show ?thesis by (simp add: init_instance_def idle_def instance_ok_def clean_def)
qed

lemma child_init_ok:
  assumes "mod_ndb_child_init capi m sv p0 = Some p" and "\<And>i. idle sv i \<Longrightarrow> good i"
  shows "process_ok good m sv p"
proof -
  let ?p1 = "p0\<lparr>apache_is_threaded := mpm_threaded m, n_threads := (if mpm_threaded m then mpm_max_threads m else 1),
    thread_limit := (if mpm_threaded m then mpm_hard_limit_threads m else 1), n_connections := 1\<rparr>"
  from assms(1) obtain p2 where c: "connect_to_cluster capi False ?p1 = Some p2"
    and p: "p = p2\<lparr>instances := map (init_instance capi sv (connection p2)) [0..<nat (n_threads p2)]\<rparr>"
    by (auto simp: mod_ndb_child_init_def Let_def split: Option.bind_splits)
  note f = connect_to_cluster_frame [OF c]
  have "good (the_instance (init_instance capi sv c n))" for c n using assms(2) init_instance_idle by blast
  then have "\<forall>s\<in>set (instances p). server_config s = sv \<and> good (the_instance s)"
    using p by (auto simp: init_instance_def)
  then show ?thesis using p f by (simp add: process_ok_def threads_def)
qed

lemma connect_process_ok:
  assumes "connect_to_cluster api b p = Some p'"
  shows "process_ok good m sv p' = process_ok good m sv p"
  unfolding process_ok_def connect_to_cluster_frame [OF assms] ..

lemma my_instance_ok:
  assumes "my_instance capi conn_id p = Some (t, p1)"
  shows "process_ok good m sv p1 = process_ok good m sv p" "t = Some n \<Longrightarrow> in_range n (instances p1)"
  using assms by (auto simp: my_instance_def connect_process_ok split: Option.bind_splits if_splits)

lemma put_back_ok:
  assumes "process_ok good m sv p" and "in_range t (instances p)" and "good (o_instance out)"
  shows "process_ok good m sv (put_back t out p)"
proof -
  have "instances p ! nat t \<in> set (instances p)" using assms(2) by (auto simp: in_range_def intro: nth_mem)
  with assms show ?thesis
    by (auto simp: process_ok_def put_back_def module_must_restart_def Let_def dest!: subsetD [OF set_update_subset_insert])
qed

lemma with_instance_ok:
  assumes "with_instance capi h r p act notes = Some rs" and p: "process_ok good m sv p"
    and act: "\<And>slot out. act slot = Some out \<Longrightarrow> server_config slot = sv \<Longrightarrow> good (the_instance slot) \<Longrightarrow> good (o_instance out)"
  shows "process_ok good m sv (rs_process rs)"
proof -
  from assms(1) obtain t p1 where mi: "my_instance capi (hr_connection h) p = Some (t, p1)"
    by (auto simp: with_instance_def split: Option.bind_splits)
  have p1: "process_ok good m sv p1" using my_instance_ok(1) [OF mi] p by simp
  show ?thesis
  proof (cases t)
    case None
    with assms(1) mi p1 show ?thesis by (auto simp: with_instance_def reply_only_def)
  next
    case (Some n)
    then have n: "in_range n (instances p1)" using my_instance_ok(2) [OF mi] by simp
    then have s: "instances p1 ! nat n \<in> set (instances p1)" by (auto simp: in_range_def intro: nth_mem)
    from assms(1) mi Some n obtain out where out: "act (instances p1 ! nat n) = Some out" "rs_process rs = put_back n out p1"
      by (auto simp: with_instance_def arr_get_def split: Option.bind_splits if_splits)
    have "good (o_instance out)" using act [OF out(1)] s p1 by (simp add: process_ok_def)
    with put_back_ok [OF p1 n] out(2) show ?thesis by simp
  qed
qed

lemma count_request_ok: "instance_ok sv (count_request i) = instance_ok sv i" "idle sv (count_request i) = idle sv i"
  by (simp_all add: count_request_def)

text \<open>A property of instances that holds after a clean-up and is kept by requests holds in every reachable state.\<close>

lemma reachable_good:
  assumes "reachable ok capi m sv p" and idle: "\<And>i. idle sv i \<Longrightarrow> good i" and count: "\<And>i. good i \<Longrightarrow> good (count_request i)"
    and query: "\<And>qe h depth pj d r i out. ok qe h \<Longrightarrow> good i \<Longrightarrow>
      Query depth qe sv d (query_source_of (qe_getword qe) (qe_unescape qe) pj h) r i = Some out \<Longrightarrow> good (o_instance out)"
    and batch: "\<And>i. good i \<Longrightarrow> instance_ok sv i"
  shows "process_ok good m sv p"
  using assms(1)
proof (induction rule: reachable.induct)
  case (start papi code p0 p)
  from child_init_ok [OF start(2) idle] show ?case .
next
  case q: (query p qe h depth pj d r rs)
  show ?case
  proof (cases "strcmp (hr_handler h) ''ndb-cluster'' \<noteq> 0 \<or> database d = None \<or> dir_table d = None")
    case True
    then show ?thesis using q(3,4) by (auto simp: ndb_handler_def reply_only_def split: if_splits)
  next
    case False
    let ?src = "query_source_of (qe_getword qe) (qe_unescape qe) pj h"
    have "with_instance capi h r p
        (\<lambda>slot. if i_db slot = None then None
                else Query depth qe (server_config slot) d ?src r (count_request (the_instance slot)))
        (used_notes (qe_table qe (database d) (dir_table d) \<noteq> None) ?src (hr_main_notes h)) = Some rs"
      using q(3) False by (auto simp: ndb_handler_def Let_def)
    then show ?thesis by (rule with_instance_ok [OF _ q(4)]) (auto dest: query [OF q(2) count] split: if_splits)
  qed
next
  case b: (batch p qe h depth r rs)
  show ?case
  proof (cases "strcmp (hr_handler h) ''ndb-exec-batch'' \<noteq> 0")
    case True
    then show ?thesis using b(3,4) by (auto simp: ndb_exec_batch_handler_def reply_only_def)
  next
    case False
    let ?to_note = "case hr_main_notes h of None \<Rightarrow> False | Some t \<Rightarrow> table_get t ''ndb_send_result'' = None"
    have "with_instance capi h r p
        (\<lambda>slot. ExecuteAll depth (qe_env qe) (qe_tx qe) (qe_http qe) (qe_cells qe) (server_config slot) ?to_note (qe_size qe) r
          (count_request (the_instance slot))) (hr_main_notes h) = Some rs"
      using b(3) False by (simp add: ndb_exec_batch_handler_def Let_def)
    from with_instance_ok [OF this b(4)] show ?thesis using ExecuteAll_idle [OF _ batch [OF count]] idle by blast
  qed
next
  case (status p pid node_id sv' dir_at ep h r rs)
  then show ?case
    by (auto simp: ndb_status_handler_def Let_def reply_only_def my_instance_ok(1) split: if_splits Option.bind_splits option.splits)
qed

lemma reachable_ok:
  assumes "reachable ok capi m sv p"
  shows "process_ok (instance_ok sv) m sv p"
  by (rule reachable_good [OF assms]) (auto simp: count_request_ok idle_instance dest: Query_instance(1))

lemma reachable_idle:
  assumes "reachable main_request capi m sv p"
  shows "process_ok (idle sv) m sv p"
proof (rule reachable_good [OF assms])
  fix qe :: "('a, 'b) query_env" and h depth pj d r and i :: "'b ndb_instance" and out
  assume "main_request qe h" and "idle sv i"
    and "Query depth qe sv d (query_source_of (qe_getword qe) (qe_unescape qe) pj h) r i = Some out"
  moreover from this(1) have "\<not> keep_tx_open (query_source_of (qe_getword qe) (qe_unescape qe) pj h)"
    by (simp add: main_request_def query_source_of_def HTTP_query_source_def)
  ultimately show "idle sv (o_instance out)" using Query_instance(2) idle_instance by blast
qed (simp_all add: count_request_ok idle_instance)

subsection \<open>The table of instances\<close>

text \<open>The position is the connection modulo the hard limit of threads; the table has the length of the configured one.\<close>

lemma my_instance_outside:
  assumes "process_ok good m sv p" and "connected p" and "0 \<le> conn_id"
    and "mpm_threaded m \<Longrightarrow> 0 < mpm_hard_limit_threads m"
  shows "my_instance capi conn_id p = None \<longleftrightarrow>
    mpm_threaded m \<and> mpm_max_threads m \<le> conn_id mod mpm_hard_limit_threads m"
proof -
  have "conn_id smod mpm_hard_limit_threads m = conn_id mod mpm_hard_limit_threads m" if "mpm_threaded m"
    using assms(3,4) that by (cases "conn_id = 0") (simp_all add: signed_modulo_int_def)
  moreover have "\<not> conn_id mod mpm_hard_limit_threads m < 0" if "mpm_threaded m" using assms(4) that by (simp add: not_less)
  ultimately show ?thesis using assms by (auto simp: my_instance_def process_ok_def threads_def in_range_def)
qed

text \<open>The numbers that Apache gives to its connections: those of a child are the multiples of the limit and the threads after it.\<close>

lemma my_instance_thread:
  assumes "process_ok good m sv p" and "connected p" and "mpm_threaded m" and "0 \<le> child"
    and "0 \<le> t" and "t < mpm_max_threads m" and "mpm_max_threads m \<le> mpm_hard_limit_threads m"
  shows "my_instance capi (child * mpm_hard_limit_threads m + t) p = Some (Some t, p)"
proof -
  let ?l = "mpm_hard_limit_threads m" and ?id = "child * mpm_hard_limit_threads m + t"
  have l: "0 < ?l" "t < ?l" using assms(5-7) by linarith+
  have i: "?id mod ?l = t" using l(2) assms(5) by simp
  have id: "0 \<le> ?id" using assms(4,5) l(1) by simp
  then have "?id smod ?l = t" using i l(1) by (cases "?id = 0") (simp_all add: signed_modulo_int_def)
  then show ?thesis using assms l(1) by (simp add: my_instance_def process_ok_def threads_def in_range_def)
qed

text \<open>A connection that comes later does not reach the instances.\<close>

lemma late_connection:
  assumes "mod_ndb_child_init capi m sv p0 = Some p" and "\<not> connected p" and "my_instance capi conn_id p = Some (Some t, p1)"
  shows "connection p1 = Some (Suc (n_made p0))" "connected p1" "t = int n \<Longrightarrow> i_db (instances p1 ! n) \<in> {None, Some (n_made p0)}"
proof -
  have *: "connection p1 = Some (n_made p) \<and> connected p1 \<and> instances p1 = instances p \<and> in_range t (instances p1)"
    using assms(2,3) by (auto simp: my_instance_def connect_to_cluster_frame split: Option.bind_splits if_splits)
  from assms(1) obtain p1' p2 where c: "connect_to_cluster capi False p1' = Some p2" "n_made p1' = n_made p0"
    and p: "p = p2\<lparr>instances := map (init_instance capi sv (connection p2)) [0..<nat (n_threads p2)]\<rparr>"
    by (auto simp: mod_ndb_child_init_def Let_def split: Option.bind_splits)
  have n: "n_made p2 = Suc (n_made p0)" using c by (auto simp: connect_to_cluster_def Let_def split: Option.bind_splits if_splits)
  show "connection p1 = Some (Suc (n_made p0))" "connected p1" using * p n by simp_all
  assume "t = int n"
  then show "i_db (instances p1 ! n) \<in> {None, Some (n_made p0)}"
    using * p c connect_to_cluster_frame(6) [OF c(1)] by (auto simp: init_instance_def in_range_def split: if_splits)
qed

end
