(* ===== verification/Sample_Database.thy ===== *)
theory Sample_Database
  imports Execute_Correct
begin

text \<open>
  A small database for the witnesses: a transaction that fails a given number of times with a
  temporary error, then ends with a given error and hands out a list of batches, with
  surroundings whose allocator never fails.
\<close>

definition sample_env :: "unit env" where
  "sample_env =
     \<lparr>e_platform = \<lparr>long_bits = 64, i386 = True, clock = 0, read_float = (\<lambda>_. ()), read_decimal = (\<lambda>_ _ _. [])\<rparr>,
      e_printers = \<lparr>print_G = id, decimal_text = (\<lambda>s _ _. s), decimal_string_size = (\<lambda>s _ _. int (length s))\<rparr>,
      e_grant = (\<lambda>_. True)\<rparr>"

definition ndb_error_of :: "ndb_status \<Rightarrow> ndb_class \<Rightarrow> int \<Rightarrow> ndb_error" where
  "ndb_error_of s c n = \<lparr>err_status = s, err_class = c, err_code = n, err_message = ''Rejected''\<rparr>"

type_synonym sample_tx = "nat \<times> result list \<times> result list list \<times> result list list list"

definition sample_tx :: "nat \<Rightarrow> ndb_error \<Rightarrow> sample_tx tx_api" where
  "sample_tx n e =
     \<lparr>tx_scan = \<lparr>next_result = (\<lambda>fetch (k, c). case next_result list_scan fetch c of (rc, c') \<Rightarrow> (rc, k, c')),
                 row_at = (\<lambda>(k, c). row_at list_scan c)\<rparr>,
      tx_blobs = id, tx_execute = (\<lambda>(k, c). (Suc k, c)),
      tx_error = (\<lambda>(k, c). if k \<le> n then ndb_error_of TemporaryError OtherClass 4010 else e)\<rparr>"

definition int_result :: "string \<Rightarrow> int \<Rightarrow> result" where
  "int_result nm z =
     \<lparr>res_rec = \<lparr>ra_col = \<lparr>nc_name = nm, nc_type = Col_Int, nc_length = 4, nc_precision = 0, nc_scale = 0\<rparr>,
                 ra_int = z, ra_bytes = []\<rparr>, res_null = False, contents = no_buffer 0\<rparr>"

definition null_result :: "string \<Rightarrow> result" where
  "null_result nm = (int_result nm 0)\<lparr>res_null := True\<rparr>"

definition sample_rows :: "result list list list" where
  "sample_rows = [[[int_result ''id'' 1, int_result ''age'' 30], [int_result ''id'' 2, null_result ''age'']],
     [[int_result ''id'' 3, int_result ''age'' 7]]]"

definition sample_operation :: "bool \<Rightarrow> data_operation" where
  "sample_operation sc =
     \<lparr>d_scanop = sc, n_result_cols = 2, result_cols = True, d_aliases = [''id'', ''age''],
      d_fmt = Some json_compiled, d_select_star = False\<rparr>"

definition sample_stats :: stats where
  "sample_stats = \<lparr>requests = 0, errors = 0, temp_errors = 0, total_retry_ms = 0, temp_timeouts = 0\<rparr>"

definition sample_instance :: "bool \<Rightarrow> result list list list \<Rightarrow> sample_tx ndb_instance" where
  "sample_instance sc bs =
     \<lparr>i_tx = Some (0, [], [], bs), n_read_ops = 1, i_data = [sample_operation sc], f_aborted = False,
      f_use_etag = False, f_jsonrequest = False, i_stats = sample_stats\<rparr>"

definition sample_http :: http_api where
  "sample_http = \<lparr>md5 = id, meets_conditions = (\<lambda>_. HTTP_OK)\<rparr>"

definition sample_srv :: "int \<Rightarrow> srv" where
  "sample_srv ms = init_srv\<lparr>max_retry_ms := ms, force_restart_flag := 1\<rparr>"

definition sample_column :: "column_type \<Rightarrow> nat \<Rightarrow> ndb_column" where
  "sample_column t n = \<lparr>nc_name = ''c'', nc_type = t, nc_length = n, nc_precision = 0, nc_scale = 0\<rparr>"

definition fresh_page :: result_buffer where
  "fresh_page = init (\<lambda>_. True) 8192 (no_buffer 0)"

lemma fresh_page_holds: "holds fresh_page []" "rb_sz fresh_page = 0"
  by (simp_all add: fresh_page_def init_holds) (simp add: init_def)

lemma sample_column_simps [simp]: "nc_type (sample_column t n) = t" "nc_length (sample_column t n) = n"
  by (simp_all add: sample_column_def)

lemma sample_platform_ok: "platform_ok (e_platform sample_env)"
  by (simp add: platform_ok_def sample_env_def)

lemma sample_env_ok: "env_ok sample_env"
  by (simp add: env_ok_def sample_env_def)

lemma sample_scan_delivers:
  "delivers (tx_scan (sample_tx n e)) (k, [], [], sample_rows) sample_rows"
  by (simp add: sample_rows_def sample_tx_def list_scan_def)

lemma int_result_json: "- (2 ^ 31) \<le> z \<Longrightarrow> z < 2 ^ 31 \<Longrightarrow> json_value sample_env (int_result nm z) = Some (fmt_d z)"
  by (simp add: json_value_def int_result_def value_text_def number_text_def quoted_type_def Let_def)

lemma sample_numbers: "fmt_d 1 = ''1''" "fmt_d 2 = ''2''" "fmt_d 3 = ''3''" "fmt_d 7 = ''7''" "fmt_d 30 = ''30''"
  by code_simp+

lemma sample_row:
  assumes "json_value sample_env r = Some v" and "json_value sample_env r' = Some v'"
  shows "json_row sample_env (sample_operation sc) [r, r'] =
    Some ('' { '' @ DQ # ''id'' @ DQ # CHR '':'' # v @ '' , '' @ DQ # ''age'' @ DQ # CHR '':'' # v' @ '' }'')"
  using assms by (simp add: json_row_def sample_operation_def json_member_def column_name_def arr_get_def in_range_def upt_conv_Cons)

lemma sample_texts:
  "those (map (json_row sample_env (sample_operation True)) (concat sample_rows)) =
     Some ['' { '' @ DQ # ''id'' @ DQ # '':1 , '' @ DQ # ''age'' @ DQ # '':30 }'',
           '' { '' @ DQ # ''id'' @ DQ # '':2 , '' @ DQ # ''age'' @ DQ # '':null }'',
           '' { '' @ DQ # ''id'' @ DQ # '':3 , '' @ DQ # ''age'' @ DQ # '':7 }'']"
proof -
  have "json_value sample_env (null_result nm) = Some ''null''" for nm by (simp add: json_value_def null_result_def)
  then show ?thesis
    by (simp add: sample_rows_def sample_row [OF int_result_json int_result_json] sample_row [OF int_result_json] sample_numbers)
qed

lemma sample_reads: "reads_json (sample_instance sc bs) (sample_operation sc)"
  by (simp add: reads_json_def sample_instance_def sample_operation_def)

lemma sample_commit:
  assumes "err_status e \<noteq> TemporaryError"
  shows "exec_commit (sample_tx 0 e) lim 0 0 [] st (0, c) = Some (True, [], st, (1, c))"
  using assms by (subst exec_commit.simps) (simp add: sample_tx_def Let_def)

lemma sample_tx_simps [simp]:
  "tx_blobs (sample_tx n e) = id" "tx_error (sample_tx n e) (k, c) = (if k \<le> n then ndb_error_of TemporaryError OtherClass 4010 else e)"
  by (simp_all add: sample_tx_def)

end
