(* ===== verification/Format_Text.thy ===== *)
theory Format_Text
  imports Format_Files
begin

text \<open>
  The text of a dumped format. A description is written character by character into the room the
  buffer has left: the text is right when it fits, and a description that does not fit is written
  behind the end of the buffer. The JSON escapes of the dump are those of the tables, for every byte.
\<close>

subsection \<open>Escapes\<close>

lemma pool_escaped_ok:
  assumes "table_ok t"
  shows "pool_escaped t s = Some (escaped t s)" "pool_escaped_size t s = Some (int (length (escaped t s)))"
proof -
  have *: "pool_escaped t s = Some (escaped t s) \<and> pool_escaped_size t s = Some (int (length (escaped t s)))"
  proof (induction s)
    case (Cons c s)
    show ?case
    proof (cases "t ! of_char c")
      case None
      with Cons table_get [OF assms, of c] show ?thesis by (simp add: escaped_def escaped_char_def)
    next
      case (Some e)
      have sq: "seq_ok e" using table_ok_nth [OF assms of_char_256 Some] .
      then obtain n es where e: "e = n # es" "schar n = int (length es)" by (cases e) (auto simp: seq_ok_def)
      have "those (map (\<lambda>j. arr_get e (int j)) [1..<Suc (length es)]) = Some es"
      proof -
        have "map (\<lambda>j. arr_get e (int j)) [1..<Suc (length es)] = map Some es"
          by (rule nth_equalityI) (auto simp: e(1) arr_get_def nat_add_distrib simp del: upt_Suc)
        then show ?thesis by (simp add: those_Some)
      qed
      with Cons Some e table_get [OF assms, of c] show ?thesis
        by (simp add: escaped_def escaped_char_def arr_get_def del: upt_Suc)
    qed
  qed (simp add: escaped_def)
  then show "pool_escaped t s = Some (escaped t s)" "pool_escaped_size t s = Some (int (length (escaped t s)))" by simp_all
qed

lemma json_char_length: "length (json_char c) = 1 \<Longrightarrow> json_char c = [c]" "1 \<le> length (json_char c)"
  by (auto simp: json_char_def control_escape_def fmt_04x_def split: if_splits)

lemma json_escaped_same: "length (concat (map json_char s)) = length s \<Longrightarrow> concat (map json_char s) = s"
proof (induction s)
  case (Cons c s)
  have "length s \<le> length (concat (map json_char s))"
  proof (induction s)
    case (Cons c s)
    then show ?case using json_char_length(2) [of c] by simp
  qed simp
  with Cons.prems json_char_length(2) [of c] have "length (json_char c) = 1" "length (concat (map json_char s)) = length s"
    by simp_all
  with Cons.IH json_char_length(1) [of c] show ?case by simp
qed simp

lemma escaped_json: "escaped escape_leaning_toothpicks s = concat (map json_char s)"
  by (simp add: escaped_def escaped_char_json [abs_def])

lemma json_str_escaped: "json_str s = Some (escaped escape_leaning_toothpicks s)"
  using pool_escaped_ok [OF table_ok_toothpicks, of s] json_escaped_same [of s]
  by (auto simp: json_str_def pool_escape_string_def escaped_json)

subsection \<open>Writing into the room that is left\<close>

definition fits :: "(result_buffer \<Rightarrow> result_buffer option) \<Rightarrow> string \<Rightarrow> bool" where
  "fits f s \<longleftrightarrow> (\<forall>rb u. holds rb u \<longrightarrow> int (length (u @ s)) < alloc_sz rb \<longrightarrow>
     (\<exists>rb'. f rb = Some rb' \<and> holds rb' (u @ s) \<and> alloc_sz rb' = alloc_sz rb))"

lemma fitsI:
  "(\<And>rb u. holds rb u \<Longrightarrow> int (length (u @ s)) < alloc_sz rb \<Longrightarrow>
     \<exists>rb'. f rb = Some rb' \<and> holds rb' (u @ s) \<and> alloc_sz rb' = alloc_sz rb) \<Longrightarrow> fits f s"
  by (simp add: fits_def)

lemma fitsE:
  assumes "fits f s" and "holds rb u" and "int (length (u @ s)) < alloc_sz rb"
  obtains rb' where "f rb = Some rb'" "holds rb' (u @ s)" "alloc_sz rb' = alloc_sz rb"
  using assms unfolding fits_def by blast

lemma fits_nothing: "fits Some []"
  by (simp add: fits_def)

lemma fits_seq:
  assumes "fits f s" and "fits g t"
  shows "fits (\<lambda>rb. do { rb' \<leftarrow> f rb; g rb' }) (s @ t)"
proof (rule fitsI)
  fix rb u assume h: "holds rb u" and l: "int (length (u @ s @ t)) < alloc_sz rb"
  then have "int (length (u @ s)) < alloc_sz rb" by simp
  from assms(1) h this obtain rb1 where 1: "f rb = Some rb1" "holds rb1 (u @ s)" "alloc_sz rb1 = alloc_sz rb" by (rule fitsE)
  have "int (length ((u @ s) @ t)) < alloc_sz rb1" using l 1(3) by simp
  from assms(2) 1(2) this obtain rb2 where "g rb1 = Some rb2" "holds rb2 ((u @ s) @ t)" "alloc_sz rb2 = alloc_sz rb1" by (rule fitsE)
  with 1 show "\<exists>rb'. do { rb' \<leftarrow> f rb; g rb' } = Some rb' \<and> holds rb' (u @ s @ t) \<and> alloc_sz rb' = alloc_sz rb" by simp
qed

lemma fits_putc: "fits (putc c) [c]"
proof (rule fitsI)
  fix rb u assume h: "holds rb u" and l: "int (length (u @ [c])) < alloc_sz rb"
  then have "rb_sz rb < alloc_sz rb" by (simp add: holds_def)
  from putc_holds [OF h this, of c] show "\<exists>rb'. putc c rb = Some rb' \<and> holds rb' (u @ [c]) \<and> alloc_sz rb' = alloc_sz rb" by blast
qed

lemma fits_out_fmt: "fits (out_fmt grant s) s"
proof (rule fitsI)
  fix rb u assume h: "holds rb u" and l: "int (length (u @ s)) < alloc_sz rb"
  from h obtain b where b: "buff rb = Some b" "int (length b) = alloc_sz rb" "take (length u) b = map Some u" "rb_sz rb = int (length u)"
    "0 < alloc_sz rb" by (auto simp: holds_def)
  let ?b = "take (length u) b @ map Some s @ [Some (CHR 0x00)] @ drop (length u + length s + 1) b"
  have v: "vsnprintf b (rb_sz rb) (alloc_sz rb - rb_sz rb) s = Some ?b"
    using b l by (auto simp: vsnprintf_def Let_def)
  have "out_fmt grant s rb = Some (rb\<lparr>buff := Some ?b, rb_sz := rb_sz rb + int (length s)\<rparr>)"
    using b v l by (subst out_fmt.simps) (simp add: Let_def)
  moreover have "holds (rb\<lparr>buff := Some ?b, rb_sz := rb_sz rb + int (length s)\<rparr>) (u @ s)"
    using b l by (auto simp: holds_def)
  ultimately show "\<exists>rb'. out_fmt grant s rb = Some rb' \<and> holds rb' (u @ s) \<and> alloc_sz rb' = alloc_sz rb" by simp
qed

subsection \<open>The text of a format\<close>

definition conf_char :: "char \<Rightarrow> string" where
  "conf_char c = (if c = NL then [CHR 0x5C, CHR ''n''] else if c = CHR 0x27 then [CHR 0x5C, CHR 0x27] else [c])"

definition conf_quoted :: "string \<Rightarrow> string" where
  "conf_quoted s = CHR 0x27 # concat (map conf_char s) @ [CHR 0x27]"

definition node_head :: "string \<Rightarrow> node \<Rightarrow> string" where
  "node_head fname nd =
     (case n_class nd of
        Main_loop \<Rightarrow> ''    Format  '' @ fname
      | Scan_loop \<Rightarrow> ''    Scan  '' @ n_name nd
      | Row_loop \<Rightarrow> ''    Row  '' @ n_name nd
      | _ \<Rightarrow> ''    Record  '' @ n_name nd) @ '' = ''"

definition node_alternative :: "node \<Rightarrow> string" where
  "node_alternative nd =
     (case (if n_class nd = Rec_attr then unresolved2 nd else None) of None \<Rightarrow> [] | Some t \<Rightarrow> ''  or  '' @ conf_quoted t)"

definition node_line :: "string \<Rightarrow> node \<Rightarrow> string" where
  "node_line fname nd = node_head fname nd @ conf_quoted (unresolved nd) @ node_alternative nd"

definition node_text :: "string \<Rightarrow> node \<Rightarrow> string" where
  "node_text fname nd = (if n_class nd = Plain_node then [] else node_line fname nd @ [NL])"

definition other_nodes :: "output_format \<Rightarrow> node list" where
  "other_nodes f = filter (\<lambda>nd. n_name nd \<noteq> ''_main'') (map ((!) (f_nodes f)) (concat (symbol_table f)))"

definition source_head :: "output_format \<Rightarrow> string" where
  "source_head f = ''<ResultFormat '' @ DQ # f_name f @ DQ # ''>'' @ [NL]"

definition source_text :: "output_format \<Rightarrow> string" where
  "source_text f =
     source_head f @ node_text (f_name f) (f_nodes f ! the (top_node f)) @ concat (map (node_text (f_name f)) (other_nodes f)) @
     ''</ResultFormat>'' @ [NL, NL]"

lemma fits_conf_chars: "fits (conf_chars grant s) (concat (map conf_char s))"
proof (induction s)
  case Nil
  show ?case using fits_nothing by (simp add: fits_def)
next
  case (Cons c s)
  have "fits (\<lambda>rb. if c = NL then out_fmt grant [CHR 0x5C, CHR ''n''] rb
      else do { rb1 \<leftarrow> (if c = CHR 0x27 then putc (CHR 0x5C) rb else Some rb); putc c rb1 }) (conf_char c)"
    using fits_out_fmt [of grant "[CHR 0x5C, CHR ''n'']"] fits_seq [OF fits_putc [of "CHR 0x5C"] fits_putc [of c]] fits_putc [of c]
    by (cases "c = NL"; cases "c = CHR 0x27") (simp_all add: conf_char_def)
  from fits_seq [OF this Cons] show ?case by (simp add: fits_def)
qed

lemma fits_escape_conf_str: "fits (escape_conf_str grant s) (conf_quoted s)"
  using fits_seq [OF fits_putc [of "CHR 0x27"] fits_seq [OF fits_conf_chars [of grant s] fits_putc [of "CHR 0x27"]]]
  by (simp add: fits_def escape_conf_str_def conf_quoted_def)

lemma fits_node_dump_source: "fits (node_dump_source grant fname nd) (node_text fname nd)"
proof (cases "n_class nd = Plain_node")
  case True
  then show ?thesis using fits_nothing by (simp add: fits_def node_dump_source_def node_text_def)
next
  case False
  have a: "fits (\<lambda>rb. case (if n_class nd = Rec_attr then unresolved2 nd else None) of
      None \<Rightarrow> Some rb | Some t \<Rightarrow> do { rb' \<leftarrow> out_fmt grant ''  or  '' rb; escape_conf_str grant t rb' }) (node_alternative nd)"
    using fits_nothing fits_seq [OF fits_out_fmt [of grant "''  or  ''"] fits_escape_conf_str]
    by (cases "if n_class nd = Rec_attr then unresolved2 nd else None") (simp_all add: node_alternative_def)
  from fits_seq [OF fits_out_fmt [of grant "node_head fname nd"] fits_seq [OF fits_escape_conf_str [of grant "unresolved nd"]
      fits_seq [OF a fits_out_fmt [of grant "[NL]"]]]]
  show ?thesis using False by (simp add: fits_def node_dump_source_def node_text_def node_line_def node_head_def)
qed

lemma fits_dump_nodes:
  assumes "\<forall>a\<in>set as. a < length ns"
  shows "fits (dump_nodes grant fname ns as)
     (concat (map (node_text fname) (filter (\<lambda>nd. n_name nd \<noteq> ''_main'') (map ((!) ns) as))))"
  using assms
proof (induction as)
  case Nil
  show ?case using fits_nothing by (simp add: fits_def)
next
  case (Cons a as)
  then have "fits (dump_nodes grant fname ns as) (concat (map (node_text fname) (filter (\<lambda>nd. n_name nd \<noteq> ''_main'') (map ((!) ns) as))))"
    by simp
  from this fits_seq [OF fits_node_dump_source [of grant fname "ns ! a"] this] Cons.prems show ?case
    by (cases "n_name (ns ! a) = ''_main''") (simp_all add: fits_def arr_get_def strcmp_iffs)
qed

lemma fits_dump_source:
  assumes "format_ok f" and "\<not> is_raw f" and "top_node f = Some a" and "a < length (f_nodes f)"
  shows "fits (dump_source grant f) (source_text f)"
proof -
  have "\<forall>a\<in>set (concat (symbol_table f)). a < length (f_nodes f)" using assms(1) by (auto simp: format_ok_def)
  from fits_seq [OF fits_out_fmt [of grant "source_head f"] fits_seq [OF fits_node_dump_source [of grant "f_name f" "f_nodes f ! a"]
      fits_seq [OF fits_dump_nodes [OF this, of grant "f_name f"] fits_out_fmt [of grant "''</ResultFormat>'' @ [NL, NL]"]]]]
  show ?thesis using assms(2-4) by (simp add: fits_def dump_source_def source_text_def source_head_def other_nodes_def arr_get_def)
qed

subsection \<open>Descriptions that do not fit\<close>

lemma put_chars_overflow:
  assumes "holds rb u" and "alloc_sz rb < rb_sz rb + int (length s)"
  shows "put_chars s rb = None"
  using assms
proof (induction s arbitrary: rb u)
  case Nil
  then show ?case by (auto simp: holds_def)
next
  case (Cons c s)
  show ?case
  proof (cases "rb_sz rb = alloc_sz rb")
    case True
    from putc_full [OF Cons.prems(1) this, of c] show ?thesis by simp
  next
    case False
    then have "rb_sz rb < alloc_sz rb" using Cons.prems(1) by (auto simp: holds_def)
    from putc_holds [OF Cons.prems(1) this, of c] obtain rb1 where
      r: "putc c rb = Some rb1" "holds rb1 (u @ [c])" "alloc_sz rb1 = alloc_sz rb" by blast
    have "rb_sz rb1 = rb_sz rb + 1" using r(2) Cons.prems(1) by (simp add: holds_def)
    with Cons.IH [OF r(2)] r(1,3) Cons.prems(2) show ?thesis by simp
  qed
qed

lemma conf_chars_plain:
  assumes "NL \<notin> set s"
  shows "conf_chars grant s rb = put_chars (concat (map conf_char s)) rb"
  using assms
proof (induction s arbitrary: rb)
  case (Cons c s)
  then have e: "conf_chars grant s = put_chars (concat (map conf_char s))" by (simp add: fun_eq_iff)
  have "conf_char c = (if c = CHR 0x27 then [CHR 0x5C, CHR 0x27] else [c])" using Cons.prems by (auto simp: conf_char_def)
  moreover have "put_chars (x # xs) = (\<lambda>rb. do { rb' \<leftarrow> putc x rb; put_chars xs rb' })" for x xs by (rule ext) simp
  ultimately show ?case using Cons.prems by (auto simp: e)
qed simp

lemma escape_conf_str_overflow:
  assumes "holds rb u" and "NL \<notin> set s" and "alloc_sz rb < rb_sz rb + int (length (conf_quoted s))"
  shows "escape_conf_str grant s rb = None"
proof -
  have "put_chars [c] r = putc c r" for c r by (cases "putc c r") simp_all
  then have "put_chars (xs @ [c]) = (\<lambda>rb. do { rb' \<leftarrow> put_chars xs rb; putc c rb' })" for xs c
    by (intro ext) (simp add: put_chars_append del: put_chars.simps)
  then have "escape_conf_str grant s rb = put_chars (conf_quoted s) rb"
    by (simp add: escape_conf_str_def conf_quoted_def conf_chars_plain [OF assms(2)])
  with put_chars_overflow [OF assms(1,3)] show ?thesis by simp
qed

lemma conf_quoted_length: "length s + 2 \<le> length (conf_quoted s)"
proof -
  have "length s \<le> length (concat (map conf_char s))" by (induction s) (simp_all add: conf_char_def)
  then show ?thesis by (simp add: conf_quoted_def)
qed

lemma long_format_overflows:
  assumes "\<not> is_raw f" and "top_node f = Some a" and "a < length (f_nodes f)" and "n_class (f_nodes f ! a) = Main_loop"
    and "NL \<notin> set (unresolved (f_nodes f ! a))" and "alloc_sz rb \<le> int (length (unresolved (f_nodes f ! a)))"
    and "holds rb []" and "int (length (source_head f @ node_head (f_name f) (f_nodes f ! a))) < alloc_sz rb"
  shows "dump_source grant f rb = None"
proof -
  let ?nd = "f_nodes f ! a" and ?h = "source_head f" and ?n = "node_head (f_name f) (f_nodes f ! a)"
  from fits_out_fmt [of grant ?h] assms(7) obtain rb1 where 1: "out_fmt grant ?h rb = Some rb1" "holds rb1 ?h" "alloc_sz rb1 = alloc_sz rb"
    by (rule fitsE) (use assms(8) in simp_all)
  from fits_out_fmt [of grant ?n] 1(2) obtain rb2 where 2: "out_fmt grant ?n rb1 = Some rb2" "holds rb2 (?h @ ?n)" "alloc_sz rb2 = alloc_sz rb1"
    by (rule fitsE) (use assms(8) 1(3) in simp_all)
  have "alloc_sz rb2 < rb_sz rb2 + int (length (conf_quoted (unresolved ?nd)))"
    using assms(6) 1(3) 2(2,3) conf_quoted_length [of "unresolved ?nd"] by (simp add: holds_def)
  from escape_conf_str_overflow [OF 2(2) assms(5) this] show ?thesis
    using assms(1-4) 1(1) 2(1)
    by (simp add: dump_source_def node_dump_source_def source_head_def node_head_def arr_get_def)
qed

end
