(* ===== verification/Format_Read.thy ===== *)
theory Format_Read
  imports Format_Text
begin

text \<open>
  Reading a dumped format back. The names and descriptions that survive are those that the quoting of
  the configuration can carry: a name is one plain word, and a description has no backslash.
\<close>

subsection \<open>Words of a line\<close>

definition BS :: char where "BS = CHR 0x5C"

definition conf_space :: "char \<Rightarrow> bool" where
  "conf_space c \<longleftrightarrow> c \<in> {CHR '' '', CHR 0x09, CHR 0x0A, CHR 0x0B, CHR 0x0C, CHR 0x0D}"

text \<open>A quoted word and the rest behind it: a backslash protects a quote or a backslash and stays otherwise.\<close>

fun conf_word :: "char \<Rightarrow> string \<Rightarrow> string \<times> string" where
  "conf_word q [] = ([], [])"
| "conf_word q (c # cs) =
     (if c = q then ([], cs)
      else if c = BS then
        (case cs of
           [] \<Rightarrow> ([c], [])
         | d # ds \<Rightarrow>
             if d = BS \<or> d = q then (d # fst (conf_word q ds), snd (conf_word q ds))
             else (c # fst (conf_word q cs), snd (conf_word q cs)))
      else (c # fst (conf_word q cs), snd (conf_word q cs)))"

definition plain_word :: "string \<Rightarrow> bool" where
  "plain_word w \<longleftrightarrow> w \<noteq> [] \<and> list_all (\<lambda>c. \<not> conf_space c \<and> c \<noteq> BS) w \<and> hd w \<noteq> DQ \<and> hd w \<noteq> CHR 0x27"

text \<open>What is documented of \<open>ap_getword_conf\<close>: it skips white space, takes a word that may be quoted, and skips the white space behind it.\<close>

definition getword_conf_law :: "(string \<Rightarrow> string \<times> string) \<Rightarrow> bool" where
  "getword_conf_law gw \<longleftrightarrow>
     (\<forall>sp. list_all conf_space sp \<longrightarrow> gw sp = ([], [])) \<and>
     (\<forall>sp w rest. list_all conf_space sp \<and> plain_word w \<and> (rest = [] \<or> conf_space (hd rest)) \<longrightarrow>
        gw (sp @ w @ rest) = (w, dropWhile conf_space rest)) \<and>
     (\<forall>sp q s. list_all conf_space sp \<and> q \<in> {DQ, CHR 0x27} \<longrightarrow>
        gw (sp @ q # s) = (fst (conf_word q s), dropWhile conf_space (snd (conf_word q s))))"

definition getword_conf_fn :: "string \<Rightarrow> string \<times> string" where
  "getword_conf_fn line =
     (case dropWhile conf_space line of
        [] \<Rightarrow> ([], [])
      | c # cs \<Rightarrow>
          if c = DQ \<or> c = CHR 0x27 then (fst (conf_word c cs), dropWhile conf_space (snd (conf_word c cs)))
          else (takeWhile (\<lambda>c. \<not> conf_space c) (c # cs), dropWhile conf_space (dropWhile (\<lambda>c. \<not> conf_space c) (c # cs))))"

lemma getword_conf_fn_law: "getword_conf_law getword_conf_fn"
proof -
  have sp: "list_all conf_space sp \<Longrightarrow> dropWhile conf_space (sp @ xs) = dropWhile conf_space xs" for sp xs
    by (induction sp) simp_all
  have q: "\<not> conf_space DQ" "\<not> conf_space (CHR 0x27)" by (simp_all add: conf_space_def DQ_def)
  have "getword_conf_fn (sp @ w @ rest) = (w, dropWhile conf_space rest)"
    if ls: "list_all conf_space sp" and pw: "plain_word w" and r: "rest = [] \<or> conf_space (hd rest)" for sp w rest
  proof -
    obtain c cs where w: "w = c # cs" "\<not> conf_space c" "c \<noteq> DQ" "c \<noteq> CHR 0x27" "list_all (\<lambda>c. \<not> conf_space c) cs"
      using pw by (cases w) (auto simp: plain_word_def list_all_iff)
    have "takeWhile (\<lambda>c. \<not> conf_space c) (cs @ rest) = cs" "dropWhile (\<lambda>c. \<not> conf_space c) (cs @ rest) = rest"
      using w(5) r by (induction cs) (cases rest; auto)+
    with w sp [OF ls] show ?thesis by (simp add: getword_conf_fn_def)
  qed
  moreover have "getword_conf_fn sp = ([], [])" if "list_all conf_space sp" for sp
  proof -
    have e: "dropWhile conf_space sp = []" using that by (induction sp) simp_all
    show ?thesis unfolding getword_conf_fn_def e by simp
  qed
  moreover have "getword_conf_fn (sp @ c # s) = (fst (conf_word c s), dropWhile conf_space (snd (conf_word c s)))"
    if "list_all conf_space sp" "c \<in> {DQ, CHR 0x27}" for sp c s
    using that q by (auto simp: getword_conf_fn_def sp)
  ultimately show ?thesis by (auto simp: getword_conf_law_def)
qed

lemma word_end:
  assumes "getword_conf_law gw"
  shows "gw [] = ([], [])"
  using assms by (simp add: getword_conf_law_def)

lemma word_plain:
  assumes "getword_conf_law gw" and "plain_word w" and "rest = [] \<or> conf_space (hd rest)"
  shows "gw (w @ rest) = (w, dropWhile conf_space rest)"
proof -
  have "list_all conf_space []" by simp
  with assms show ?thesis unfolding getword_conf_law_def by (metis append_Nil)
qed

subsection \<open>Quoted descriptions\<close>

definition conf_kept :: "char \<Rightarrow> string" where
  "conf_kept c = (if c = NL then [BS, CHR ''n''] else [c])"

lemma conf_word_quoted:
  assumes "BS \<notin> set s"
  shows "conf_word (CHR 0x27) (concat (map conf_char s) @ CHR 0x27 # rest) = (concat (map conf_kept s), rest)"
  using assms
proof (induction s)
  case (Cons c s)
  have "conf_word (CHR 0x27) (concat (map conf_char s) @ CHR 0x27 # rest) = (concat (map conf_kept s), rest)" using Cons by simp
  with Cons.prems show ?case by (auto simp: conf_char_def [of c] conf_kept_def [of c] BS_def NL_def)
qed simp

lemma word_quoted:
  assumes "getword_conf_law gw" and "BS \<notin> set s"
  shows "gw (conf_quoted s @ rest) = (concat (map conf_kept s), dropWhile conf_space rest)"
proof -
  have "list_all conf_space []" by simp
  with assms(1) have "gw ([] @ CHR 0x27 # (concat (map conf_char s) @ CHR 0x27 # rest)) =
      (fst (conf_word (CHR 0x27) (concat (map conf_char s) @ CHR 0x27 # rest)),
       dropWhile conf_space (snd (conf_word (CHR 0x27) (concat (map conf_char s) @ CHR 0x27 # rest))))"
    unfolding getword_conf_law_def by blast
  then show ?thesis by (simp add: conf_word_quoted [OF assms(2)] conf_quoted_def)
qed

lemma unescape_kept: "BS \<notin> set s \<Longrightarrow> unescape (concat (map conf_kept s)) = s"
proof (induction s)
  case (Cons c s)
  then have "unescape (concat (map conf_kept s)) = s" "c \<noteq> CHR 0x5C" by (auto simp: BS_def)
  then show ?case by (simp add: conf_kept_def [of c] BS_def NL_def)
qed simp

lemma conf_kept_nonempty [simp]: "conf_kept c \<noteq> []"
  by (simp add: conf_kept_def)

lemma kept_empty: "concat (map conf_kept s) = [] \<longleftrightarrow> s = []"
  by (cases s) (simp_all add: conf_kept_def)

subsection \<open>One line\<close>

definition text_ok :: "string \<Rightarrow> bool" where
  "text_ok t \<longleftrightarrow> t \<noteq> [] \<and> BS \<notin> set t"

definition name_ok :: "string \<Rightarrow> bool" where
  "name_ok nm \<longleftrightarrow> plain_word nm \<and> CHR ''$'' \<notin> set nm"

definition null_text :: "node \<Rightarrow> string option" where
  "null_text nd = (if n_class nd = Rec_attr then Some (case unresolved2 nd of None \<Rightarrow> unresolved nd | Some t \<Rightarrow> t) else None)"

definition node_ok :: "node \<Rightarrow> bool" where
  "node_ok nd \<longleftrightarrow> n_class nd \<in> {Scan_loop, Row_loop, Rec_attr} \<and> name_ok (n_name nd) \<and> text_ok (unresolved nd) \<and>
     (\<forall>t. unresolved2 nd = Some t \<longrightarrow> text_ok t)"

definition fresh_node :: "node \<Rightarrow> node" where
  "fresh_node nd = new_node (n_class nd) (unresolved nd) (null_text nd)"

lemma plain_keywords:
  "plain_word ''Format''" "plain_word ''Scan''" "plain_word ''Row''" "plain_word ''Record''" "plain_word ''=''" "plain_word ''or''"
  "strcasecmp ''Format'' ''Format'' = 0" "strcasecmp ''Scan'' ''Format'' \<noteq> 0" "strcasecmp ''Scan'' ''Scan'' = 0"
  "strcasecmp ''Row'' ''Format'' \<noteq> 0" "strcasecmp ''Row'' ''Scan'' \<noteq> 0" "strcasecmp ''Row'' ''Row'' = 0"
  "strcasecmp ''Record'' ''Format'' \<noteq> 0" "strcasecmp ''Record'' ''Scan'' \<noteq> 0" "strcasecmp ''Record'' ''Row'' \<noteq> 0"
  "strcasecmp ''Record'' ''Record'' = 0" "strcasecmp ''or'' ''or'' = 0"
  by (code_simp | simp)+

lemma plain_not_space: "plain_word w \<Longrightarrow> \<not> conf_space (hd w) \<and> w \<noteq> []"
  by (cases w) (auto simp: plain_word_def)

lemma plain_drop: "plain_word w \<Longrightarrow> dropWhile conf_space (w @ xs) = w @ xs"
  by (cases w) (auto simp: plain_word_def)

lemma space_simps [simp]: "conf_space (CHR '' '')" "\<not> conf_space (CHR 0x27)" "\<not> conf_space (CHR ''='')" "\<not> conf_space (CHR ''o'')"
  by (simp_all add: conf_space_def)

lemma quoted_drop: "dropWhile conf_space (conf_quoted s @ xs) = conf_quoted s @ xs"
  by (simp add: conf_quoted_def)

text \<open>The first four words of a line, and what is left of it.\<close>

lemma line_words:
  assumes g: "getword_conf_law gw" and "plain_word kw" and "plain_word nm" and "BS \<notin> set t" and "rest = [] \<or> conf_space (hd rest)"
  shows "gw (kw @ ''  '' @ nm @ '' = '' @ conf_quoted t @ rest) = (kw, nm @ '' = '' @ conf_quoted t @ rest)"
    "gw (nm @ '' = '' @ conf_quoted t @ rest) = (nm, ''= '' @ conf_quoted t @ rest)"
    "gw (''= '' @ conf_quoted t @ rest) = (''='', conf_quoted t @ rest)"
    "gw (conf_quoted t @ rest) = (concat (map conf_kept t), dropWhile conf_space rest)"
  using word_plain [OF g assms(2), of "''  '' @ nm @ '' = '' @ conf_quoted t @ rest"] word_plain [OF g assms(3), of "'' = '' @ conf_quoted t @ rest"]
    word_plain [OF g plain_keywords(5), of "'' '' @ conf_quoted t @ rest"] word_quoted [OF g assms(4), of rest]
    plain_drop [OF assms(3)] quoted_drop [of t rest]
  by simp_all

lemma read_main_line:
  assumes g: "getword_conf_law gw" and "name_ok nm" and t: "text_ok t"
  shows "container_line gw fname (''Format  '' @ nm @ '' = '' @ conf_quoted t) f = Inr (add_main t f)"
proof -
  have n: "plain_word nm" "nm \<noteq> []" "CHR ''$'' \<notin> set nm" "BS \<notin> set t" "t \<noteq> []"
    using assms(2,3) plain_not_space by (auto simp: name_ok_def text_ok_def)
  from line_words [OF g plain_keywords(1) n(1,4), of "[]"] n kept_empty [of t] unescape_kept [OF n(4)] plain_keywords show ?thesis
    by (simp add: container_line_def Let_def)
qed

lemma read_node_line:
  assumes g: "getword_conf_law gw" and ok: "node_ok nd"
  shows "container_line gw fname (dropWhile conf_space (node_line fname nd)) f = Inr (define_node (n_name nd) (fresh_node nd) f)"
proof -
  have n: "plain_word (n_name nd)" "n_name nd \<noteq> []" "CHR ''$'' \<notin> set (n_name nd)" "BS \<notin> set (unresolved nd)" "unresolved nd \<noteq> []"
    using ok plain_not_space by (auto simp: node_ok_def name_ok_def text_ok_def)
  note w = kept_empty [of "unresolved nd"] unescape_kept [OF n(4)] plain_keywords
  consider "n_class nd = Scan_loop" | "n_class nd = Row_loop" | (rec1) "n_class nd = Rec_attr" "unresolved2 nd = None"
    | (rec2) u where "n_class nd = Rec_attr" "unresolved2 nd = Some u"
    using ok by (cases "unresolved2 nd") (auto simp: node_ok_def)
  then show ?thesis
  proof cases
    case 1
    from line_words [OF g plain_keywords(2) n(1,4), of "[]"] n w 1 show ?thesis
      by (simp add: container_line_def node_line_def node_head_def node_alternative_def fresh_node_def null_text_def Let_def conf_space_def [of "CHR ''S''"])
  next
    case 2
    from line_words [OF g plain_keywords(3) n(1,4), of "[]"] n w 2 show ?thesis
      by (simp add: container_line_def node_line_def node_head_def node_alternative_def fresh_node_def null_text_def Let_def conf_space_def [of "CHR ''R''"])
  next
    case rec1
    from line_words [OF g plain_keywords(4) n(1,4), of "[]"] n w rec1 word_end [OF g] show ?thesis
      by (simp add: container_line_def node_line_def node_head_def node_alternative_def fresh_node_def null_text_def Let_def conf_space_def [of "CHR ''R''"])
  next
    case (rec2 u)
    then have u: "BS \<notin> set u" "u \<noteq> []" using ok by (auto simp: node_ok_def text_ok_def)
    have o: "gw (''or  '' @ conf_quoted u) = (''or'', conf_quoted u)"
      using word_plain [OF g plain_keywords(6), of "''  '' @ conf_quoted u"] quoted_drop [of u "[]"] by simp
    from line_words [OF g plain_keywords(4) n(1,4), of "''  or  '' @ conf_quoted u"] n w rec2 o word_quoted [OF g u(1), of "[]"]
      kept_empty [of u] u(2) unescape_kept [OF u(1)]
    show ?thesis
      by (simp add: container_line_def node_line_def node_head_def node_alternative_def fresh_node_def null_text_def Let_def conf_space_def [of "CHR ''R''"])
  qed
qed

subsection \<open>All lines\<close>

fun split_lines :: "string \<Rightarrow> string list" where
  "split_lines [] = []"
| "split_lines (c # cs) =
     (if c = NL then [] # split_lines cs
      else case split_lines cs of [] \<Rightarrow> [[c]] | l # ls \<Rightarrow> (c # l) # ls)"

text \<open>The lines of a configuration file: \<open>ap_cfg_getline\<close> drops the white space in front.\<close>

definition cfg_lines :: "string \<Rightarrow> string list" where
  "cfg_lines t = map (dropWhile conf_space) (split_lines t)"

lemma split_line: "NL \<notin> set l \<Longrightarrow> split_lines (l @ NL # t) = l # split_lines t"
  by (induction l) auto

lemma conf_quoted_line: "NL \<notin> set (conf_quoted s)"
  by (auto simp: conf_quoted_def conf_char_def NL_def split: if_splits)

lemma plain_line: "plain_word w \<Longrightarrow> NL \<notin> set w"
  by (auto simp: plain_word_def list_all_iff NL_def conf_space_def)

lemma node_line_line: "plain_word fname \<Longrightarrow> n_class nd = Main_loop \<or> plain_word (n_name nd) \<Longrightarrow> NL \<notin> set (node_line fname nd)"
  using conf_quoted_line plain_line [of fname] plain_line [of "n_name nd"]
  by (auto simp: node_line_def node_head_def node_alternative_def NL_def split: node_class.splits option.splits)

lemma split_nodes:
  assumes "plain_word fname" and "\<forall>nd\<in>set nds. node_ok nd"
  shows "split_lines (concat (map (node_text fname) nds) @ t) = map (node_line fname) nds @ split_lines t"
  using assms(2)
proof (induction nds)
  case (Cons nd nds)
  then have "n_class nd \<noteq> Plain_node" "plain_word (n_name nd)" by (auto simp: node_ok_def name_ok_def)
  with Cons split_line [OF node_line_line [OF assms(1), of nd]] show ?case by (simp add: node_text_def)
qed simp

definition read_nodes :: "node list \<Rightarrow> output_format \<Rightarrow> output_format" where
  "read_nodes nds f = fold (\<lambda>nd. define_node (n_name nd) (fresh_node nd)) nds f"

lemma not_closing:
  assumes "c \<in> {CHR ''F'', CHR ''S'', CHR ''R''}"
  shows "strcasecmp (c # cs) ''</ResultFormat>'' \<noteq> 0"
proof -
  have "to_lower (CHR ''F'') \<noteq> to_lower (CHR ''<'')" "to_lower (CHR ''S'') \<noteq> to_lower (CHR ''<'')" "to_lower (CHR ''R'') \<noteq> to_lower (CHR ''<'')"
    by code_simp+
  with assms show ?thesis by (auto simp: strcasecmp_iff same_name_def)
qed

lemma node_line_start:
  assumes "n_class nd \<in> {Main_loop, Scan_loop, Row_loop, Rec_attr}"
  shows "strcasecmp (dropWhile conf_space (node_line fname nd)) ''</ResultFormat>'' \<noteq> 0"
  using assms not_closing [of "CHR ''F''"] not_closing [of "CHR ''S''"] not_closing [of "CHR ''R''"]
  by (auto simp: node_line_def node_head_def conf_space_def [of "CHR ''F''"] conf_space_def [of "CHR ''S''"] conf_space_def [of "CHR ''R''"])

lemma read_node_lines:
  assumes g: "getword_conf_law gw" and "\<forall>nd\<in>set nds. node_ok nd"
  shows "container_lines gw fname (map (dropWhile conf_space) (map (node_line fname) nds) @ ''</ResultFormat>'' # ls) f =
    Inr (read_nodes nds f)"
  using assms(2)
proof (induction nds arbitrary: f)
  case Nil
  have "strcasecmp ''</ResultFormat>'' ''</ResultFormat>'' = 0" by code_simp
  then show ?case by (simp add: read_nodes_def)
next
  case (Cons nd nds)
  then have "node_ok nd" by simp
  with Cons read_node_line [OF g this, of fname] node_line_start [of nd fname] show ?case
    by (auto simp: read_nodes_def node_ok_def)
qed

subsection \<open>What a format means\<close>

definition node_def :: "node \<Rightarrow> node_class \<times> string \<times> string option" where
  "node_def nd = (n_class nd, unresolved nd, null_text nd)"

definition meaning :: "output_format \<Rightarrow> string \<Rightarrow> (node_class \<times> string \<times> string option) option" where
  "meaning f nm = map_option (\<lambda>a. node_def (f_nodes f ! a)) (symbol f nm)"

lemma node_def_fresh: "node_def (fresh_node nd) = node_def nd"
  by (simp add: node_def_def fresh_node_def new_node_def null_text_def)

lemma node_def_name [simp]: "node_def (nd\<lparr>n_name := nm\<rparr>) = node_def nd"
  by (simp add: node_def_def null_text_def split: option.split)

lemma find_symbol_Some: "find_symbol nm ns as = Some a \<Longrightarrow> a \<in> set as \<and> a < length ns \<and> n_name (ns ! a) = nm"
  by (induction as) (auto simp: strcmp_iffs split: if_splits)

lemma symbol_Some: "symbol f nm = Some a \<Longrightarrow> a < length (f_nodes f) \<and> n_name (f_nodes f ! a) = nm \<and> a \<in> set (symbol_table f ! symbol_hash nm)"
  unfolding symbol_def by (drule find_symbol_Some) simp

lemma meaning_define:
  assumes "format_ok f"
  shows "meaning (define_node nm nd f) x = (if symbol f nm = None \<and> x = nm then Some (node_def nd) else meaning f x)"
proof (cases "symbol f nm = None \<and> x = nm")
  case True
  then show ?thesis using define_node_ok [OF assms] by (simp add: meaning_def)
next
  case False
  then have s: "symbol (define_node nm nd f) x = symbol f x" using define_node_ok(2) [OF assms] by auto
  show ?thesis
  proof (cases "symbol f x")
    case (Some a)
    then have "a < length (f_nodes f)" using symbol_Some by blast
    with False s Some define_node_ok(3) [OF assms] show ?thesis by (auto simp: meaning_def)
  qed (use False s in \<open>auto simp: meaning_def\<close>)
qed

lemma meaning_read:
  assumes "format_ok f"
  shows "meaning (read_nodes nds f) x =
    (case meaning f x of Some v \<Rightarrow> Some v | None \<Rightarrow> map_of (map (\<lambda>nd. (n_name nd, node_def nd)) nds) x)"
  using assms
proof (induction nds arbitrary: f)
  case (Cons nd nds)
  have "read_nodes (nd # nds) f = read_nodes nds (define_node (n_name nd) (fresh_node nd) f)" by (simp add: read_nodes_def)
  with Cons.IH [OF define_node_ok(1) [OF Cons.prems]] meaning_define [OF Cons.prems, of "n_name nd" "fresh_node nd" x] show ?case
    by (auto simp: node_def_fresh meaning_def split: option.splits)
qed (simp add: read_nodes_def split: option.split)

lemma read_nodes_keep:
  assumes "format_ok f" and "a < length (f_nodes f)"
  shows "top_node (read_nodes nds f) = top_node f" "f_nodes (read_nodes nds f) ! a = f_nodes f ! a" "f_name (read_nodes nds f) = f_name f"
proof -
  have d: "top_node (define_node nm nd f) = top_node f" "f_name (define_node nm nd f) = f_name f"
    "length (f_nodes f) \<le> length (f_nodes (define_node nm nd f))" for nm nd f
    by (simp_all add: define_node_def alloc_node_def add_symbol_def Let_def)
  have "top_node (read_nodes nds f) = top_node f \<and> f_nodes (read_nodes nds f) ! a = f_nodes f ! a \<and> f_name (read_nodes nds f) = f_name f"
    using assms
  proof (induction nds arbitrary: f)
    case (Cons nd nds)
    let ?f = "define_node (n_name nd) (fresh_node nd) f"
    have "a < length (f_nodes ?f)" using Cons.prems(2) d(3) [of f] by (meson less_le_trans)
    from Cons.IH [OF define_node_ok(1) [OF Cons.prems(1)] this] define_node_ok(3) [OF Cons.prems(1,2)] d show ?case
      by (simp add: read_nodes_def)
  qed (simp add: read_nodes_def)
  then show "top_node (read_nodes nds f) = top_node f" "f_nodes (read_nodes nds f) ! a = f_nodes f ! a" "f_name (read_nodes nds f) = f_name f"
    by auto
qed

lemma add_main_new:
  "add_main t (new_format nm) = (define_node ''_main'' (new_node Main_loop t None) (new_format nm))\<lparr>top_node := Some 1\<rparr>"
  by (simp add: add_main_def define_node_def alloc_node_def add_symbol_def symbol_def new_format_def Let_def)

lemma main_new:
  "format_ok (add_main t (new_format nm))" "meaning (add_main t (new_format nm)) x = (if x = ''_main'' then Some (Main_loop, t, None) else None)"
  "top_node (add_main t (new_format nm)) = Some 1" "1 < length (f_nodes (add_main t (new_format nm)))" "f_name (add_main t (new_format nm)) = nm"
  "node_def (f_nodes (add_main t (new_format nm)) ! 1) = (Main_loop, t, None)"
proof -
  let ?f = "define_node ''_main'' (new_node Main_loop t None) (new_format nm)"
  have ok: "format_ok (f\<lparr>top_node := a\<rparr>) = format_ok f" "meaning (f\<lparr>top_node := a\<rparr>) x = meaning f x" for f a
    by (simp_all add: format_ok_def meaning_def symbol_def)
  have n: "node_def (new_node Main_loop t None) = (Main_loop, t, None)" by (simp add: node_def_def new_node_def null_text_def)
  have l: "length (f_nodes (new_format nm)) = 1" by (simp add: new_format_def)
  show "format_ok (add_main t (new_format nm))" unfolding add_main_new ok by (rule define_node_ok(1) [OF new_format_ok(1)])
  show "meaning (add_main t (new_format nm)) x = (if x = ''_main'' then Some (Main_loop, t, None) else None)"
    unfolding add_main_new ok meaning_define [OF new_format_ok(1)] n by (auto simp: new_format_ok meaning_def)
  show "top_node (add_main t (new_format nm)) = Some 1" by (simp add: add_main_new)
  show "1 < length (f_nodes (add_main t (new_format nm)))" "f_name (add_main t (new_format nm)) = nm"
    by (simp_all add: add_main_def alloc_node_def add_symbol_def new_format_def Let_def)
  have "f_nodes ?f ! 1 = (new_node Main_loop t None)\<lparr>n_name := ''_main''\<rparr>"
    using define_node_ok(4) [OF new_format_ok(1) new_format_ok(2)] l by metis
  then show "node_def (f_nodes (add_main t (new_format nm)) ! 1) = (Main_loop, t, None)" by (simp add: add_main_new n)
qed

subsection \<open>The round trip\<close>

text \<open>Formats that the text can carry: every name is found where it is linked, and all names and descriptions survive the quoting.\<close>

definition dumpable :: "output_format \<Rightarrow> bool" where
  "dumpable f \<longleftrightarrow> format_ok f \<and> \<not> is_raw f \<and> name_ok (f_name f) \<and>
     (\<exists>a. top_node f = Some a \<and> symbol f ''_main'' = Some a \<and> n_class (f_nodes f ! a) = Main_loop \<and> text_ok (unresolved (f_nodes f ! a))) \<and>
     (\<forall>a\<in>set (concat (symbol_table f)). symbol f (n_name (f_nodes f ! a)) = Some a) \<and>
     (\<forall>nd\<in>set (other_nodes f). node_ok nd)"

lemma map_of_only:
  assumes "\<forall>y\<in>set ys. g y = x \<longrightarrow> y = v" and "v \<in> set ys" and "g v = x"
  shows "map_of (map (\<lambda>y. (g y, h y)) ys) x = Some (h v)"
  using assms(1,2)
proof (induction ys)
  case (Cons y ys)
  show ?case
  proof (cases "g y = x")
    case True
    with Cons.prems(1) have "y = v" by simp
    with assms(3) show ?thesis by simp
  next
    case False
    with assms(3) have "y \<noteq> v" by blast
    with Cons have "map_of (map (\<lambda>y. (g y, h y)) ys) x = Some (h v)" by simp
    with False show ?thesis by simp
  qed
qed simp

lemma other_nodes_meaning:
  assumes "format_ok f" and s: "\<forall>a\<in>set (concat (symbol_table f)). symbol f (n_name (f_nodes f ! a)) = Some a" and "x \<noteq> ''_main''"
  shows "map_of (map (\<lambda>nd. (n_name nd, node_def nd)) (other_nodes f)) x = meaning f x"
proof (cases "symbol f x")
  case None
  have "x \<notin> n_name ` set (other_nodes f)"
    using s None by (force simp: other_nodes_def)
  then show ?thesis using None by (simp add: meaning_def map_of_eq_None_iff image_image)
next
  case (Some a)
  have "a \<in> set (concat (symbol_table f))" "n_name (f_nodes f ! a) = x"
    using symbol_Some [OF Some] symbol_hash_less [of x] assms(1) by (auto simp: format_ok_def intro!: bexI [of _ "symbol_table f ! symbol_hash x"])
  then have i: "f_nodes f ! a \<in> set (other_nodes f)" using assms(3) by (auto simp: other_nodes_def)
  have u: "nd = f_nodes f ! a" if nd: "nd \<in> set (other_nodes f)" "n_name nd = x" for nd
  proof -
    obtain a' where "a' \<in> set (concat (symbol_table f))" "nd = f_nodes f ! a'" using nd(1) by (auto simp: other_nodes_def)
    moreover from this s have "symbol f (n_name nd) = Some a'" by blast
    ultimately show ?thesis using nd(2) Some by simp
  qed
  have "\<forall>nd\<in>set (other_nodes f). n_name nd = x \<longrightarrow> nd = f_nodes f ! a" using u by blast
  from map_of_only [OF this i \<open>n_name (f_nodes f ! a) = x\<close>, of node_def] show ?thesis using Some by (simp add: meaning_def)
qed

lemma source_lines:
  assumes "dumpable f" and "top_node f = Some a"
  shows "tl (cfg_lines (source_text f)) =
    dropWhile conf_space (node_line (f_name f) (f_nodes f ! a)) #
    map (dropWhile conf_space) (map (node_line (f_name f)) (other_nodes f)) @ ''</ResultFormat>'' # [[]]"
proof -
  have p: "plain_word (f_name f)" and m: "n_class (f_nodes f ! a) = Main_loop" and o: "\<forall>nd\<in>set (other_nodes f). node_ok nd"
    using assms by (auto simp: dumpable_def name_ok_def)
  have h: "NL \<notin> set (''<ResultFormat '' @ DQ # f_name f @ DQ # ''>'')" using plain_line [OF p] by (simp add: NL_def DQ_def)
  have e: "split_lines (''</ResultFormat>'' @ [NL, NL]) = [''</ResultFormat>'', []]" by (simp add: NL_def)
  have "source_text f = (''<ResultFormat '' @ DQ # f_name f @ DQ # ''>'') @ NL # node_line (f_name f) (f_nodes f ! a) @ NL #
      concat (map (node_text (f_name f)) (other_nodes f)) @ ''</ResultFormat>'' @ [NL, NL]"
    using assms(2) m by (simp add: source_text_def source_head_def node_text_def)
  then have "split_lines (source_text f) = (''<ResultFormat '' @ DQ # f_name f @ DQ # ''>'') # node_line (f_name f) (f_nodes f ! a) #
      map (node_line (f_name f)) (other_nodes f) @ [''</ResultFormat>'', []]"
    using split_line [OF h] split_line [OF node_line_line [OF p, of "f_nodes f ! a"]] m split_nodes [OF p o] e by simp
  then show ?thesis by (simp add: cfg_lines_def conf_space_def [of "CHR ''<''"])
qed

lemma dump_read_back:
  assumes g: "getword_conf_law gw" and d: "dumpable f"
  shows "\<exists>f'. container_lines gw (f_name f) (tl (cfg_lines (source_text f))) (new_format (f_name f)) = Inr f' \<and>
     f_name f' = f_name f \<and> meaning f' = meaning f \<and>
     map_option (\<lambda>a. node_def (f_nodes f' ! a)) (top_node f') = map_option (\<lambda>a. node_def (f_nodes f ! a)) (top_node f)"
proof -
  obtain a where a: "top_node f = Some a" "symbol f ''_main'' = Some a" "n_class (f_nodes f ! a) = Main_loop" "text_ok (unresolved (f_nodes f ! a))"
    using d by (auto simp: dumpable_def)
  have ok: "format_ok f" "name_ok (f_name f)" "\<forall>a\<in>set (concat (symbol_table f)). symbol f (n_name (f_nodes f ! a)) = Some a"
    "\<forall>nd\<in>set (other_nodes f). node_ok nd" using d by (simp_all add: dumpable_def)
  let ?t = "unresolved (f_nodes f ! a)" and ?g = "add_main (unresolved (f_nodes f ! a)) (new_format (f_name f))"
  let ?f = "read_nodes (other_nodes f) ?g"
  have l: "dropWhile conf_space (node_line (f_name f) (f_nodes f ! a)) = ''Format  '' @ f_name f @ '' = '' @ conf_quoted ?t"
    using a(3) by (simp add: node_line_def node_head_def node_alternative_def conf_space_def [of "CHR ''F''"])
  have r: "container_lines gw (f_name f) (tl (cfg_lines (source_text f))) (new_format (f_name f)) = Inr ?f"
    using read_main_line [OF g ok(2) a(4), of "f_name f" "new_format (f_name f)"] node_line_start [of "f_nodes f ! a" "f_name f"] a(3)
      read_node_lines [OF g ok(4), of "f_name f" "[[]]" ?g]
    unfolding source_lines [OF d a(1)] l by simp
  note k = read_nodes_keep [OF main_new(1,4), of "other_nodes f" ?t "f_name f"]
  have m: "node_def (f_nodes f ! a) = (Main_loop, ?t, None)" using a(3) by (simp add: node_def_def null_text_def)
  have "meaning ?f x = meaning f x" for x
  proof (cases "x = ''_main''")
    case True
    with a(2) m show ?thesis unfolding meaning_read [OF main_new(1)] main_new(2) by (simp add: meaning_def)
  next
    case False
    with other_nodes_meaning [OF ok(1,3) False] show ?thesis unfolding meaning_read [OF main_new(1)] main_new(2) by simp
  qed
  then have "meaning ?f = meaning f" by (rule ext)
  then show ?thesis using r k main_new(3,5,6) a(1) m by (intro exI [of _ ?f]) simp
qed

end
