(* ===== verification/Sample_Requests.thy ===== *)
theory Sample_Requests
  imports Process_Correct Sample_Database Format_Read
begin

text \<open>
  A small table with a unique index for the witnesses about whole requests: its three integer
  columns, an endpoint over it, and surroundings in which the operation finds its row exactly when
  it was told the right calls.
\<close>

definition int_column :: "string \<Rightarrow> ndb_column" where
  "int_column nm = \<lparr>nc_name = nm, nc_type = Col_Int, nc_length = 4, nc_precision = 0, nc_scale = 0\<rparr>"

definition sample_table :: table_info where
  "sample_table = \<lparr>t_columns = map int_column [''a'', ''b'', ''c''], t_primary = [''c''], t_nullable = (\<lambda>_. False)\<rparr>"

definition sample_index :: index_info where
  "sample_index = \<lparr>x_kind = Ndb_unique_hash, x_columns = map int_column [''b'', ''a'']\<rparr>"

definition sample_op_api :: "unit op_api" where
  "sample_op_api = \<lparr>gives_op = (\<lambda>_. True), rc = (\<lambda>_. 0), op_error = (\<lambda>_. ndb_error_of Success NoError 0), auto_inc = (\<lambda>_. (0, 1)), has_blob = (\<lambda>_. False)\<rparr>"

definition lookup_dir :: dir where
  "lookup_dir = sample_dir\<lparr>database := Some ''db'', dir_table := Some ''t'', fmt := Some 0, visible := [''a'', ''c''],
     aliases := [''a'', ''c''], updatable := [''c''], use_etags := False, table_scan := False, select_star := False\<rparr>"

text \<open>The row is found exactly by the key \<open>b = 42\<close>, \<open>a = 7\<close>, when the columns \<open>a\<close> and \<open>c\<close> are asked for.\<close>

definition lookup_calls :: "unit op" where
  "lookup_calls = [Read_tuple, Equal 0 (U_signed 42), Equal 1 (U_signed 7)]"

definition found_row :: "unit op \<Rightarrow> result list" where
  "found_row calls = (if calls = lookup_calls @ [Get_value 0, Get_value 2] then [int_result ''a'' 7, int_result ''c'' 30] else [])"

definition sample_query_env :: "ndb_error \<Rightarrow> (unit, sample_tx) query_env" where
  "sample_query_env e =
     \<lparr>qe_env = sample_env, qe_op = sample_op_api, qe_tx = sample_tx 0 e, qe_http = sample_http, qe_start = Some (0, [], [], []),
      qe_attach = (\<lambda>calls (k, c). (k, found_row calls, [], [])), qe_table = (\<lambda>_ _. Some sample_table),
      qe_index = (\<lambda>nm. if nm = ''i'' then Some sample_index else None), qe_dict_error = ndb_error_of PermanentError SchemaError 723,
      qe_getword = getword_fn, qe_unescape = id, qe_formats = [json_compiled], qe_cells = json_cells, qe_mval = zero_mvalue, qe_size = 0\<rparr>"

definition get_source :: "string \<Rightarrow> source" where
  "get_source a =
     \<lparr>src_request = \<lparr>req_method = M_GET, method_number = M_GET, args = Some a, path_info = []\<rparr>, src_content_type = None,
      keep_tx_open = False, form_data = None\<rparr>"

definition idle_instance_of :: "srv \<Rightarrow> sample_tx ndb_instance" where
  "idle_instance_of sv =
     \<lparr>i_tx = None, n_read_ops = 0, i_data = replicate (nat (max_read_operations sv)) zero_data, f_aborted = False,
      f_use_etag = False, f_jsonrequest = False, i_stats = sample_stats\<rparr>"

lemma idle_instance_of_idle: "idle sv (idle_instance_of sv)" "i_stats (idle_instance_of sv) = sample_stats"
  by (simp_all add: idle_def idle_instance_of_def instance_ok_def clean_def set_replicate_conv_if)

lemma sample_query_env_simps [simp]:
  "qe_env (sample_query_env e) = sample_env" "qe_op (sample_query_env e) = sample_op_api" "qe_tx (sample_query_env e) = sample_tx 0 e"
  "qe_start (sample_query_env e) = Some (0, [], [], [])" "qe_table (sample_query_env e) db t = Some sample_table"
  "qe_attach (sample_query_env e) calls (k, c) = (k, found_row calls, [], [])"
  "qe_index (sample_query_env e) nm = (if nm = ''i'' then Some sample_index else None)"
  "qe_getword (sample_query_env e) = getword_fn" "qe_unescape (sample_query_env e) = id" "qe_mval (sample_query_env e) = zero_mvalue"
  "qe_formats (sample_query_env e) = [json_compiled]" "qe_cells (sample_query_env e) = json_cells"
  by (simp_all add: sample_query_env_def)

lemma sample_op_api_accepts: "api_accepts sample_op_api"
  by (simp add: api_accepts_def sample_op_api_def)

text \<open>The plan for a request that gives both columns of the index.\<close>

lemma lookup_planned:
  "\<exists>q. planned_lookup (sample_query_env e) lookup_dir (get_source ''a=7&b=42'') sample_table q (Unique_access ''i'') \<and>
     bound_read (sample_query_env e) lookup_dir sample_table q (Unique_access ''i'') lookup_calls"
proof -
  let ?r = "src_request (get_source ''a=7&b=42'')" and ?dict = "\<lambda>nm. if nm = ''i'' then Some Ndb_unique_hash else None"
  have "case plan_keys getword_fn id lookup_dir ?r NoPlan of
      Some q \<Rightarrow> \<not> no_plan lookup_dir ?r q \<and> plan_num (q_plan q) = 3 \<and>
        choose_access ?dict lookup_dir q = Some (Inr (Unique_access ''i'')) \<and>
        (case bind_index (put_key (e_platform sample_env) sample_op_api sample_table (Some sample_index) (Unique_access ''i''))
            lookup_dir q (new_index_object (Unique_access ''i'') (index_parts sample_table (Some sample_index))) ([Read_tuple], zero_mvalue) of
           Some (bs, None, calls, m) \<Rightarrow> calls = lookup_calls
         | _ \<Rightarrow> False)
    | None \<Rightarrow> False"
    by code_simp
  then obtain q bs m where
    q: "plan_keys getword_fn id lookup_dir ?r NoPlan = Some q" "\<not> no_plan lookup_dir ?r q" "plan_num (q_plan q) = 3"
      "choose_access ?dict lookup_dir q = Some (Inr (Unique_access ''i''))" and
    b: "bind_index (put_key (e_platform sample_env) sample_op_api sample_table (Some sample_index) (Unique_access ''i''))
      lookup_dir q (new_index_object (Unique_access ''i'') (index_parts sample_table (Some sample_index))) ([Read_tuple], zero_mvalue) =
        Some (bs, None, lookup_calls, m)"
    by (auto split: option.splits)
  have d: "(\<lambda>nm. map_option x_kind (qe_index (sample_query_env e) nm)) = ?dict" by (auto simp: sample_index_def)
  have "is_read (get_source ''a=7&b=42'')" "\<not> keep_tx_open (get_source ''a=7&b=42'')"
    by (simp_all add: is_read_def get_source_def)
  moreover have "q_plan q < Scan" using q(3) by (simp add: plan_order)
  ultimately have "planned_lookup (sample_query_env e) lookup_dir (get_source ''a=7&b=42'') sample_table q (Unique_access ''i'')"
    using q d by (simp add: planned_lookup_def lookup_path_def)
  moreover have "bound_read (sample_query_env e) lookup_dir sample_table q (Unique_access ''i'') lookup_calls"
    using b by (auto simp: bound_read_def index_of_def)
  ultimately show ?thesis by blast
qed

lemma lookup_endpoint: "json_endpoint (sample_query_env e) lookup_dir"
  by (simp add: json_endpoint_def lookup_dir_def arr_get_def in_range_def)

lemma lookup_columns:
  "those (map (result_column sample_table lookup_dir) [0..<n_result_cols (json_operation lookup_dir sample_table zero_data)]) =
     Some [int_column ''a'', int_column ''c'']"
  "map (result_call sample_table) [int_column ''a'', int_column ''c''] = [Get_value 0, Get_value 2]"
proof -
  have "n_result_cols (json_operation lookup_dir sample_table zero_data) = 2"
    by (simp add: json_operation_def read_operation_def lookup_dir_def)
  then show "those (map (result_column sample_table lookup_dir) [0..<n_result_cols (json_operation lookup_dir sample_table zero_data)]) =
     Some [int_column ''a'', int_column ''c'']"
    by (simp add: result_column_def lookup_dir_def upt_conv_Cons arr_get_def in_range_def column_named_def sample_table_def int_column_def)
  show "map (result_call sample_table) [int_column ''a'', int_column ''c''] = [Get_value 0, Get_value 2]"
    by (simp add: result_call_def column_no_def sample_table_def int_column_def)
qed

lemma lookup_row:
  "json_row sample_env (json_operation lookup_dir sample_table zero_data) [int_result ''a'' 7, int_result ''c'' 30] =
     Some ('' { '' @ DQ # ''a'' @ DQ # '':7 , '' @ DQ # ''c'' @ DQ # '':30 }'')"
  by (simp add: json_row_def json_operation_def read_operation_def lookup_dir_def json_member_def column_name_def arr_get_def in_range_def
      upt_conv_Cons int_result_json sample_numbers)

text \<open>A form that is posted to the endpoint; only the column \<open>c\<close> may be written.\<close>

definition post_source :: "(string \<times> string) list \<Rightarrow> source" where
  "post_source form =
     \<lparr>src_request = \<lparr>req_method = M_POST, method_number = M_POST, args = None, path_info = []\<rparr>, src_content_type = None,
      keep_tx_open = False,
      form_data = map_option (\<lambda>t. (HTTP_OK, t)) (apply_pairs (\<lambda>k v. set_item k (c_string v)) id form empty_form)\<rparr>"

lemma insert_planned:
  "\<exists>ms. planned_insert (sample_query_env e) lookup_dir (post_source [(''c'', ''5''), (''x'', ''1'')]) sample_table ms \<and>
     set_calls sample_table ms = [Set_value 2 (U_signed 5)]"
  "\<exists>ms. planned_insert (sample_query_env e) lookup_dir (post_source [(''x'', ''1'')]) sample_table ms \<and> set_calls sample_table ms = []"
proof -
  have form: "\<exists>ms. planned_insert (sample_query_env e) lookup_dir (post_source form) sample_table ms \<and> set_calls sample_table ms = calls"
    if r: "case form_data (post_source form) of
      Some (code, tab) \<Rightarrow> code = HTTP_OK \<and>
        (case form_values (e_platform sample_env) sample_table tab (updatable lookup_dir) of
           Some ms \<Rightarrow> list_all (\<lambda>m. mv_column m = None \<or> use_value m = use_signed) ms \<and> set_calls sample_table ms = calls
         | None \<Rightarrow> False)
    | None \<Rightarrow> False" for form calls
  proof -
    have "is_insert lookup_dir (post_source form)" unfolding is_insert_def by (simp add: post_source_def) code_simp
    with r show ?thesis
      by (auto simp: planned_insert_def plain_value_def list_all_iff post_source_def split: option.splits prod.splits)
  qed
  show "\<exists>ms. planned_insert (sample_query_env e) lookup_dir (post_source [(''c'', ''5''), (''x'', ''1'')]) sample_table ms \<and>
     set_calls sample_table ms = [Set_value 2 (U_signed 5)]" by (rule form) code_simp
  show "\<exists>ms. planned_insert (sample_query_env e) lookup_dir (post_source [(''x'', ''1'')]) sample_table ms \<and> set_calls sample_table ms = []"
    by (rule form) code_simp
qed

subsection \<open>Processes\<close>

text \<open>A cluster that is there at once, and one that answers from the second connection on.\<close>

definition calm_cluster :: cluster_api where
  "calm_cluster = \<lparr>connect_rc = (\<lambda>_ _. 0), ready_nodes = (\<lambda>_. 1), ndb_init_rc = (\<lambda>_ _. 0)\<rparr>"

definition late_cluster :: cluster_api where
  "late_cluster = \<lparr>connect_rc = (\<lambda>c _. if c = 0 then 1 else 0), ready_nodes = (\<lambda>_. 1), ndb_init_rc = (\<lambda>_ _. 0)\<rparr>"

definition two_threads :: "int \<Rightarrow> mpm" where
  "two_threads hard = \<lparr>mpm_threaded = True, mpm_max_threads = 2, mpm_hard_limit_threads = hard\<rparr>"

lemma calm_connect: "connect_to_cluster calm_cluster b p =
    Some (p\<lparr>connection := Some (n_made p), n_made := Suc (n_made p), connected := True\<rparr>)"
proof -
  have "connect_loop (connect_rc calm_cluster c) 0 = Some (True, 1)" for c
    by (subst connect_loop.simps) (simp add: calm_cluster_def Let_def)
  then show ?thesis by (simp add: connect_to_cluster_def calm_cluster_def Let_def)
qed

lemma calm_start:
  fixes ok :: "('f, 'c) query_env \<Rightarrow> http_request \<Rightarrow> bool"
  shows "\<exists>p :: 'c process. reachable ok calm_cluster (two_threads hard) sv p \<and> connected p"
proof -
  have "\<exists>code p0. mod_ndb_post_config calm_cluster (new_process :: 'c process) = Some (code, p0)"
    by (simp add: mod_ndb_post_config_def calm_connect)
  then obtain code and p0 :: "'c process" where "mod_ndb_post_config calm_cluster new_process = Some (code, p0)" by blast
  note post = this
  have "\<exists>p. mod_ndb_child_init calm_cluster (two_threads hard) sv p0 = Some p \<and> connected p"
    by (simp add: mod_ndb_child_init_def calm_connect Let_def)
  then obtain p where p: "mod_ndb_child_init calm_cluster (two_threads hard) sv p0 = Some p" "connected p" by blast
  from reachable.start [OF post p(1), of ok] p(2) show ?thesis by blast
qed

lemma late_cluster_simps: "ready_nodes late_cluster c = 1" "ndb_init_rc late_cluster d n = 0"
  by (simp_all add: late_cluster_def)

lemma late_connects:
  "connect_to_cluster late_cluster b p = Some (p\<lparr>connection := Some (n_made p), n_made := Suc (n_made p),
     connected := n_made p \<noteq> 0 \<or> connected p\<rparr>)"
proof -
  have no: "connect_loop (connect_rc late_cluster 0) 0 = Some (False, 5)"
    by (simp add: connect_loop.simps late_cluster_def Let_def)
  have yes: "connect_loop (connect_rc late_cluster (Suc c)) 0 = Some (True, 1)" for c
    by (subst connect_loop.simps) (simp add: late_cluster_def Let_def)
  show ?thesis by (cases "n_made p") (simp_all add: connect_to_cluster_def no yes Let_def late_cluster_simps)
qed

lemma late_start:
  "\<exists>p p1. mod_ndb_child_init late_cluster (two_threads 2) sv new_process = Some p \<and> \<not> connected p \<and>
     my_instance late_cluster 1 p = Some (Some (int 1), p1) \<and> i_db (instances p1 ! 1) \<noteq> None"
proof -
  have two: "[0..<2] = [0, 1::nat]" by (simp add: upt_conv_Cons)
  have "(1::int) smod 2 = 1" by code_simp
  then show ?thesis
    by (simp add: mod_ndb_child_init_def late_connects Let_def new_process_def two_threads_def my_instance_def in_range_def
        init_instance_def late_cluster_simps two)
qed

subsection \<open>A format that can be dumped\<close>

lemma json_format_dumpable: "dumpable json_format"
proof -
  have t: "top_node json_format = Some 1 \<and> symbol json_format ''_main'' = Some 1 \<and> n_class (f_nodes json_format ! 1) = Main_loop \<and>
      text_ok (unresolved (f_nodes json_format ! 1))" by code_simp
  have "format_ok json_format" by code_simp
  moreover have "\<not> is_raw json_format" by code_simp
  moreover have "name_ok (f_name json_format)" by code_simp
  moreover have "\<forall>a\<in>set (concat (symbol_table json_format)). symbol json_format (n_name (f_nodes json_format ! a)) = Some a" by code_simp
  moreover have "list_all (\<lambda>nd. n_class nd \<in> {Scan_loop, Row_loop, Rec_attr} \<and> name_ok (n_name nd) \<and> text_ok (unresolved nd) \<and>
      (case unresolved2 nd of None \<Rightarrow> True | Some t \<Rightarrow> text_ok t)) (other_nodes json_format)" by code_simp
  then have "\<forall>nd\<in>set (other_nodes json_format). node_ok nd" by (auto simp: list_all_iff node_ok_def)
  ultimately show ?thesis using t by (auto simp: dumpable_def)
qed

end
