(* ===== verification/Handler_Dispatch.thy ===== *)
theory Handler_Dispatch
  imports Content_Handlers
begin

text \<open>
  How a request reaches its handler. Under Apache 2 the module registers its four handlers as hooks
  (\<open>mod_ndb_register_hooks\<close> of \<open>mod_ndb_ap20.cc\<close>); Apache calls the hooks until one does not decline, and each
  tests the name itself. Under Apache 1.3 the table \<open>mod_ndb_handlers\<close> of \<open>mod_ndb_ap13.cc\<close> gives the handler of a
  name. The lemmas: at most the handler of the name acts, whatever the order of the hooks, so the chain of
  Apache 2 is the look-up in the table of Apache 1.3.
\<close>

datatype content_handler = H_ndb | H_exec_batch | H_dump_format | H_status

text \<open>What the handlers use: the directory and server configuration, the formats, Apache and the cluster.\<close>

record ('f, 'c) server_env =
  sv_depth :: nat
  sv_cluster :: cluster_api
  sv_query :: "('f, 'c) query_env"
  sv_json :: "string \<Rightarrow> int \<Rightarrow> form_table \<Rightarrow> (form_table \<times> nat) option"
  sv_dir :: dir
  sv_long_bits :: nat
  sv_md5 :: "string \<Rightarrow> string"
  sv_fnmatch :: "string \<Rightarrow> string \<Rightarrow> int"
  sv_registry :: registry
  sv_cells :: "cell list"
  sv_pid :: int
  sv_node_id :: "nat \<Rightarrow> nat"
  sv_server :: srv
  sv_dir_at :: "nat \<Rightarrow> dir"
  sv_endpoints :: endpoints

definition call_handler ::
  "('f, 'c) server_env \<Rightarrow> content_handler \<Rightarrow> http_request \<Rightarrow> reply \<Rightarrow> 'c process \<Rightarrow> 'c response option" where
  "call_handler ev k =
     (case k of
        H_ndb \<Rightarrow> ndb_handler (sv_depth ev) (sv_cluster ev) (sv_query ev) (sv_json ev) (sv_dir ev)
      | H_exec_batch \<Rightarrow> ndb_exec_batch_handler (sv_depth ev) (sv_cluster ev) (sv_query ev)
      | H_dump_format \<Rightarrow> ndb_dump_format_handler (sv_long_bits ev) (e_grant (qe_env (sv_query ev))) (sv_md5 ev) (sv_fnmatch ev)
          (sv_registry ev) (sv_cells ev)
      | H_status \<Rightarrow> ndb_status_handler (sv_cluster ev) (sv_pid ev) (sv_node_id ev) (sv_server ev) (sv_dir_at ev) (sv_endpoints ev))"

definition registered_handlers :: "content_handler list" where
  "registered_handlers = [H_ndb, H_exec_batch, H_dump_format, H_status]"

definition mod_ndb_handlers :: "(string \<times> content_handler) list" where
  "mod_ndb_handlers =
     [(''ndb-cluster'', H_ndb), (''ndb-status'', H_status), (''ndb-exec-batch'', H_exec_batch), (''ndb-dump-format'', H_dump_format)]"

text \<open>The hooks of a request, in any order: what a handler that declines has done to the request stays.\<close>

fun run_hooks ::
  "('f, 'c) server_env \<Rightarrow> content_handler list \<Rightarrow> http_request \<Rightarrow> reply \<Rightarrow> 'c process \<Rightarrow> 'c response option" where
  "run_hooks ev [] h r p = Some (reply_only DECLINED r h p)"
| "run_hooks ev (k # ks) h r p =
     do { rs \<leftarrow> call_handler ev k h r p;
          if rs_code rs \<noteq> DECLINED then Some rs
          else map_option (\<lambda>rs'. rs'\<lparr>rs_notes := rs_notes rs @ rs_notes rs'\<rparr>)
            (run_hooks ev ks (h\<lparr>hr_main_notes := rs_main_notes rs\<rparr>) (rs_reply rs) (rs_process rs)) }"

subsection \<open>Only the handler of the name acts\<close>

lemma handler_names: "map_of mod_ndb_handlers nm = Some k \<longleftrightarrow> (nm, k) \<in> set mod_ndb_handlers"
  by (rule map_of_eq_Some_iff) (simp add: mod_ndb_handlers_def)

lemma other_handler_declines:
  assumes "map_of mod_ndb_handlers (hr_handler h) \<noteq> Some k"
  shows "call_handler ev k h r p = Some (reply_only DECLINED r h p)"
  using assms unfolding handler_names
  by (cases k) (simp_all add: call_handler_def mod_ndb_handlers_def ndb_handler_def ndb_exec_batch_handler_def
      ndb_dump_format_handler_def ndb_status_handler_def strcmp_zero_iff)

lemma reply_only_simps [simp]:
  "rs_code (reply_only c r h p) = c" "rs_reply (reply_only c r h p) = r" "rs_notes (reply_only c r h p) = []"
  "rs_main_notes (reply_only c r h p) = hr_main_notes h" "rs_process (reply_only c r h p) = p"
  by (simp_all add: reply_only_def)

lemma request_notes_same [simp]: "h\<lparr>hr_main_notes := hr_main_notes h\<rparr> = (h :: http_request)"
  by simp

lemma others_decline:
  "map_of mod_ndb_handlers (hr_handler h) \<notin> Some ` set ks \<Longrightarrow> run_hooks ev ks h r p = Some (reply_only DECLINED r h p)"
  by (induction ks) (auto simp: other_handler_declines reply_only_def)

text \<open>A response that declines looks to the hooks behind it as a request that was only touched in its notes.\<close>

lemma declined_again:
  "rs_code rs = DECLINED \<Longrightarrow>
   (reply_only DECLINED (rs_reply rs) (h\<lparr>hr_main_notes := rs_main_notes rs\<rparr>) (rs_process rs))\<lparr>rs_notes := rs_notes rs\<rparr> = rs"
  by (cases rs) (simp add: reply_only_def)

lemma hooks_in_any_order:
  assumes "distinct ks" and "map_of mod_ndb_handlers (hr_handler h) = Some k" and "k \<in> set ks"
  shows "run_hooks ev ks h r p = call_handler ev k h r p"
  using assms(1,3)
proof (induction ks)
  case (Cons k' ks)
  show ?case
  proof (cases "k' = k")
    case True
    with Cons.prems assms(2) have "run_hooks ev ks (h\<lparr>hr_main_notes := n\<rparr>) r' p' = Some (reply_only DECLINED r' (h\<lparr>hr_main_notes := n\<rparr>) p')"
      for n r' p' by (intro others_decline) auto
    with True show ?thesis by (auto simp: bind_eq_None_conv declined_again split: Option.bind_splits)
  next
    case False
    with assms(2) have d: "call_handler ev k' h r p = Some (reply_only DECLINED r h p)" by (intro other_handler_declines) simp
    have "run_hooks ev ks h r p = call_handler ev k h r p" using Cons False by simp
    with d show ?thesis by (cases "call_handler ev k h r p") simp_all
  qed
qed simp

lemma hooks_are_the_table:
  "run_hooks ev registered_handlers h r p =
     (case map_of mod_ndb_handlers (hr_handler h) of
        None \<Rightarrow> Some (reply_only DECLINED r h p)
      | Some k \<Rightarrow> call_handler ev k h r p)"
proof (cases "map_of mod_ndb_handlers (hr_handler h)")
  case (Some k)
  have "k \<in> set registered_handlers" by (cases k) (simp_all add: registered_handlers_def)
  moreover have "distinct registered_handlers" by (simp add: registered_handlers_def)
  ultimately show ?thesis using hooks_in_any_order [OF _ Some] Some by simp
qed (use others_decline [of h registered_handlers] in auto)

end
