(* ===== verification/Blob_Result.thy ===== *)
theory Blob_Result
  imports Handlers
begin

text \<open>
  The life of a result object of \<open>MySQL_result.cc\<close>: the constructor, which makes a buffer for a blob or text column and
  asks for the value otherwise, the hook that fills the buffer when the blob becomes active, and the destructor.
\<close>

text \<open>What the NDB API says of a blob: \<open>getNull\<close> sets its argument to -1 when it does not know.\<close>

record ndb_blob =
  null_state :: int
  blob_bytes :: string

record result_object =
  r_column :: ndb_column
  r_attr :: "(rec_attr \<times> bool) option"
  r_contents :: "result_buffer option"

definition has_blob_buffer :: "column_type \<Rightarrow> bool" where
  "has_blob_buffer t \<longleftrightarrow> t = Col_Blob \<or> t = Col_Text"

text \<open>\<open>attr\<close>: the record attribute, with its null flag, that \<open>getValue\<close> returns; \<open>junk\<close>: the memory of the new buffer.\<close>

definition new_result :: "(int \<Rightarrow> bool) \<Rightarrow> int \<Rightarrow> rec_attr \<times> bool \<Rightarrow> ndb_column \<Rightarrow> result_object" where
  "new_result grant junk attr col =
     (if has_blob_buffer (nc_type col)
      then \<lparr>r_column = col, r_attr = None, r_contents = Some (init grant 8192 (no_buffer junk))\<rparr>
      else \<lparr>r_column = col, r_attr = Some attr, r_contents = None\<rparr>)"

definition BLOBisNull :: "ndb_blob \<Rightarrow> bool option" where
  "BLOBisNull blob = (if null_state blob = -1 then None else Some (null_state blob \<noteq> 0))"

definition isNull :: "ndb_blob \<Rightarrow> result_object \<Rightarrow> bool option" where
  "isNull blob res = (case r_attr res of Some (r, n) \<Rightarrow> Some n | None \<Rightarrow> BLOBisNull blob)"

definition activateBlob :: "(int \<Rightarrow> bool) \<Rightarrow> ndb_blob \<Rightarrow> result_object \<Rightarrow> result_object option" where
  "activateBlob grant blob res =
     do { n \<leftarrow> isNull blob res;
          (if n then Some res
           else do { rb \<leftarrow> r_contents res; rb' \<leftarrow> read_blob grant (blob_bytes blob) rb; Some (res\<lparr>r_contents := Some rb'\<rparr>) }) }"

definition result_frees :: "result_object \<Rightarrow> block option" where
  "result_frees res = (case r_contents res of None \<Rightarrow> None | Some rb \<Rightarrow> destructor_frees rb)"

text \<open>A value that is not null is printed as the bytes of the blob; a null leaves the buffer empty; an unknown state fails the assertion.\<close>

lemma read_blob_holds:
  assumes "holds rb t" and "\<forall>n. grant n" and "rb_sz rb + int (length data) < 2 ^ 31 - 1"
  shows "\<exists>rb'. read_blob grant data rb = Some rb' \<and> holds rb' (t @ data)"
proof -
  have l: "int (length data) mod 2 ^ 32 = int (length data)" using assms(1,3) by (simp add: holds_def)
  from prepare_holds [OF assms(1) _ assms(2,3)] obtain rb1 where
    "prepare grant (int (length data)) rb = Some (rb1, True)" "holds rb1 t" "rb_sz rb1 = rb_sz rb" "rb_sz rb + int (length data) \<le> alloc_sz rb1" by auto
  with put_chars_holds [of rb1 t data] l show ?thesis by (auto simp: read_blob_def Let_def)
qed

lemma blob_shown:
  assumes "nc_type col \<in> {Col_Text, Col_Blob}" and "null_state blob = 0" and "\<forall>n. grant n"
    and "holds rb t" and "rb_sz rb + int (length (blob_bytes blob)) < 2 ^ 31 - 1" and "ra_col r = col"
  shows "\<exists>c rb'. activateBlob grant blob (new_result grant junk attr col) = Some \<lparr>r_column = col, r_attr = None, r_contents = Some c\<rparr> \<and>
    result_out pf pr grant \<lparr>res_rec = r, res_null = False, contents = c\<rparr> rb None = Some rb' \<and> holds rb' (t @ blob_bytes blob)"
proof -
  let ?c = "init grant 8192 (no_buffer junk)"
  have "holds ?c []" by (rule init_holds) (simp_all add: assms(3))
  moreover from this have "rb_sz ?c + int (length (blob_bytes blob)) < 2 ^ 31 - 1" using assms(4,5) by (simp add: holds_def)
  ultimately obtain c where c: "read_blob grant (blob_bytes blob) ?c = Some c" "holds c (blob_bytes blob)"
    using read_blob_holds [OF _ assms(3)] by fastforce
  from out_len_holds [OF assms(4,3) order_refl assms(5)] obtain rb' where
    "out_len grant (length (blob_bytes blob)) (blob_bytes blob) rb = Some rb'" "holds rb' (t @ blob_bytes blob)" by auto
  moreover have "nc_type col = Col_Text \<or> nc_type col = Col_Blob" using assms(1) by auto
  ultimately show ?thesis using c assms(2,6) holds_text [OF c(2)]
    by (auto simp: activateBlob_def isNull_def BLOBisNull_def new_result_def has_blob_buffer_def result_out_def Let_def)
qed

lemma null_blob_empty:
  assumes "null_state blob \<noteq> -1" and "null_state blob \<noteq> 0" and "has_blob_buffer (nc_type col)"
  shows "activateBlob grant blob (new_result grant junk attr col) = Some (new_result grant junk attr col)"
  using assms by (simp add: activateBlob_def isNull_def BLOBisNull_def new_result_def)

lemma unknown_null_fails: "null_state blob = -1 \<Longrightarrow> r_attr res = None \<Longrightarrow> activateBlob grant blob res = None"
  by (simp add: activateBlob_def isNull_def BLOBisNull_def)

end
