(* ===== verification/Coco_Parser.thy ===== *)
theory Coco_Parser
  imports Prelude
begin

text \<open>
  The part of a generated parser that does not depend on the grammar: \<open>Parser.frame\<close> of the
  N-SQL and the JSON parser. The tokens come from the generated scanner; the kind \<open>None\<close> is the
  end of the input, which the scanner delivers again and again. A grammar extends the record with
  the variables of its semantic actions. A production is a function of the parser; \<open>None\<close> is a
  crash of a semantic action.
\<close>

subsection \<open>Tokens and errors\<close>

text \<open>The text of a token is an array of wide characters; \<open>narrow\<close> is \<open>coco_create_apache_string\<close>, which casts each to \<open>char\<close>.\<close>

definition wide :: "string \<Rightarrow> nat list" where
  "wide s = map of_char s"

definition narrow :: "nat list \<Rightarrow> string" where
  "narrow w = map char_of w"

lemma narrow_wide [simp]: "narrow (wide s) = s"
  by (simp add: narrow_def wide_def comp_def)

record 'k token =
  kind :: "'k option"
  val :: "nat list"

record 'k parser =
  last_token :: "'k token"
  input :: "'k token list"
  err_dist :: nat
  err_count :: nat

definition minErrDist :: nat where "minErrDist = 2"

definition la :: "('k, 'z) parser_scheme \<Rightarrow> 'k token" where
  "la p = (case input p of [] \<Rightarrow> \<lparr>kind = None, val = []\<rparr> | tk # _ \<Rightarrow> tk)"

abbreviation la_kind :: "('k, 'z) parser_scheme \<Rightarrow> 'k option" where
  "la_kind p \<equiv> kind (la p)"

definition Get :: "('k, 'z) parser_scheme \<Rightarrow> ('k, 'z) parser_scheme" where
  "Get p = p\<lparr>last_token := la p, input := tl (input p), err_dist := Suc (err_dist p)\<rparr>"

text \<open>A syntax error and an error of a semantic action are counted in the same way.\<close>

definition count_error :: "('k, 'z) parser_scheme \<Rightarrow> ('k, 'z) parser_scheme" where
  "count_error p =
     p\<lparr>err_count := (if err_dist p \<ge> minErrDist then Suc (err_count p) else err_count p), err_dist := 0\<rparr>"

definition SynErr :: "('k, 'z) parser_scheme \<Rightarrow> ('k, 'z) parser_scheme" where
  "SynErr p = count_error p"

definition SemErr :: "('k, 'z) parser_scheme \<Rightarrow> ('k, 'z) parser_scheme" where
  "SemErr p = count_error p"

definition Expect :: "'k option \<Rightarrow> ('k, 'z) parser_scheme \<Rightarrow> ('k, 'z) parser_scheme" where
  "Expect k p = (if la_kind p = k then Get p else SynErr p)"

text \<open>The repetition of a grammar whose items begin with a separator.\<close>

partial_function (option) repeated ::
  "'k \<Rightarrow> (('k, 'z) parser_scheme \<Rightarrow> ('k, 'z) parser_scheme option) \<Rightarrow> ('k, 'z) parser_scheme \<Rightarrow>
   ('k, 'z) parser_scheme option" where
  "repeated sep item p =
     (if la_kind p = Some sep then do { q \<leftarrow> item (Get p); repeated sep item q } else Some p)"

declare repeated.simps [code]

text \<open>The state in which \<open>Parse\<close> begins its first production: the constructor, then the first \<open>Get\<close>.\<close>

definition start_parser :: "'k token list \<Rightarrow> 'z \<Rightarrow> ('k, 'z) parser_scheme" where
  "start_parser toks z =
     Get \<lparr>last_token = \<lparr>kind = None, val = wide ''Dummy Token''\<rparr>, input = \<lparr>kind = None, val = wide ''Dummy Token''\<rparr> # toks,
          err_dist = minErrDist, err_count = 0, \<dots> = z\<rparr>"

subsection \<open>Reading without an error\<close>

text \<open>While there is no error, the next one is counted.\<close>

definition errors_counted :: "('k, 'z) parser_scheme \<Rightarrow> bool" where
  "errors_counted p \<longleftrightarrow> (err_count p = 0 \<longrightarrow> err_dist p \<ge> minErrDist)"

named_theorems parse_simps

lemma la_input [parse_simps]: "input p = tk # r \<Longrightarrow> la p = tk"
  by (simp add: la_def)

lemma Get_fields [simp]:
  "last_token (Get p) = la p" "input (Get p) = tl (input p)" "err_count (Get p) = err_count p"
  "parser.more (Get p) = parser.more p"
  by (simp_all add: Get_def)

lemma count_error_fields [simp]:
  "last_token (count_error p) = last_token p" "input (count_error p) = input p"
  "parser.more (count_error p) = parser.more p"
  by (simp_all add: count_error_def)

lemma errors_counted_Get [simp]: "errors_counted p \<Longrightarrow> errors_counted (Get p)"
  by (auto simp: errors_counted_def Get_def)

lemma count_error_nonzero: "errors_counted p \<Longrightarrow> err_count (count_error p) \<noteq> 0"
  by (auto simp: errors_counted_def count_error_def)

lemma errors_counted_count [simp]: "errors_counted p \<Longrightarrow> errors_counted (count_error p)"
  using count_error_nonzero [of p] by (auto simp: errors_counted_def)

lemma start_parser_fields:
  "input (start_parser toks z) = toks" "err_count (start_parser toks z) = 0"
  "errors_counted (start_parser toks z)" "parser.more (start_parser toks z) = z"
  by (simp_all add: start_parser_def errors_counted_def Get_def minErrDist_def)

definition first :: "'k token list \<Rightarrow> 'k option" where
  "first r = (case r of [] \<Rightarrow> None | tk # _ \<Rightarrow> kind tk)"

lemma first_simps [simp]: "first (tk # r) = kind tk" "first [] = None"
  by (simp_all add: first_def)

lemma la_first: "input p = r \<Longrightarrow> la_kind p = first r"
  by (simp add: la_def first_def split: list.split)

lemma Expect_kw: "input p = tk # r \<Longrightarrow> Expect (kind tk) p = Get p"
  by (simp add: Expect_def la_input)

end
