(* ===== verification/Coco_Scanner.thy ===== *)
theory Coco_Scanner
  imports Coco_Parser
begin

text \<open>
  The scanner of a generated parser: the characters that \<open>JSON/Scanner.frame\<close> makes of the bytes of a buffer, and
  \<open>NextToken\<close>, which follows the automaton of the token definitions as long as there is a transition. The
  automaton is given by the definitions themselves, as regular expressions: its state are what is left of each of
  them. The lemmas: a token is a word of its definition that cannot be continued, the tokens and the blanks
  between them are the input, and the tokens of a text that was laid out with blanks are found again.
\<close>

subsection \<open>Characters\<close>

text \<open>\<open>Buffer::Read\<close>: the next byte, or a number that is no byte at the end.\<close>

definition EoF :: nat where "EoF = 65536"

definition read_byte :: "nat list \<Rightarrow> nat \<times> nat list" where
  "read_byte bs = (case bs of [] \<Rightarrow> (EoF, []) | b # r \<Rightarrow> (b, r))"

text \<open>\<open>UTF8Buffer::Read\<close>: bytes that begin no character are skipped.\<close>

definition utf8_read :: "nat list \<Rightarrow> nat \<times> nat list" where
  "utf8_read bs =
     (let (ch, r) = read_byte (dropWhile (\<lambda>b. 128 \<le> b \<and> and b 0xC0 \<noteq> 0xC0) bs) in
      if ch < 128 \<or> ch = EoF then (ch, r)
      else if and ch 0xF0 = 0xF0 then
        (let (b2, r2) = read_byte r; (b3, r3) = read_byte r2; (b4, r4) = read_byte r3
         in ((((and ch 0x07 * 64 + and b2 0x3F) * 64 + and b3 0x3F) * 64 + and b4 0x3F), r4))
      else if and ch 0xE0 = 0xE0 then
        (let (b2, r2) = read_byte r; (b3, r3) = read_byte r2 in ((and ch 0x0F * 64 + and b2 0x3F) * 64 + and b3 0x3F, r3))
      else (let (b2, r2) = read_byte r in (and ch 0x1F * 64 + and b2 0x3F, r2)))"

lemma read_byte_length: "read_byte bs = (b, r) \<Longrightarrow> length r \<le> length bs"
  by (auto simp: read_byte_def split: list.split_asm)

lemma utf8_read_less: "utf8_read bs = (ch, r) \<Longrightarrow> ch \<noteq> EoF \<Longrightarrow> length r < length bs"
proof -
  assume u: "utf8_read bs = (ch, r)" and ch: "ch \<noteq> EoF"
  let ?ds = "dropWhile (\<lambda>b. 128 \<le> b \<and> and b 0xC0 \<noteq> 0xC0) bs"
  have le: "length ?ds \<le> length bs" by (rule length_dropWhile_le)
  show "length r < length bs"
  proof (cases ?ds)
    case Nil
    with u ch show ?thesis by (simp add: utf8_read_def read_byte_def)
  next
    case (Cons b ds)
    with u have "length r \<le> length ds"
      by (auto simp: utf8_read_def read_byte_def [of "b # ds"] Let_def split: if_splits prod.splits dest!: read_byte_length)
    with Cons le show ?thesis by simp
  qed
qed

function utf8_chars :: "nat list \<Rightarrow> nat list" where
  "utf8_chars bs = (let (ch, r) = utf8_read bs in if ch = EoF then [] else ch # utf8_chars r)"
  by pat_completeness auto
termination by (relation "measure length") (auto dest: utf8_read_less [OF sym])

declare utf8_chars.simps [simp del, code]

text \<open>\<open>NextCh\<close>: a carriage return without a line feed behind it is a line feed.\<close>

fun line_ends :: "nat list \<Rightarrow> nat list" where
  "line_ends [] = []"
| "line_ends (c # cs) = (if c = 13 \<and> (cs = [] \<or> hd cs \<noteq> 10) then 10 else c) # line_ends cs"

text \<open>\<open>Init\<close>: the mark of UTF-8; a first byte of the mark with something else behind it ends the process.\<close>

definition start_chars :: "nat list \<Rightarrow> nat list option" where
  "start_chars bs =
     (if take 1 bs \<noteq> [0xEF] then Some (line_ends bs)
      else if take 2 (drop 1 bs) \<noteq> [0xBB, 0xBF] then None
      else Some (line_ends (utf8_chars (drop 3 bs))))"

subsection \<open>Token definitions\<close>

text \<open>
  The regular expressions of the section TOKENS over character classes. \<open>never\<close>: no word is left, where every class
  has a member.
\<close>

datatype rexp = R_none | R_empty | R_char "nat \<Rightarrow> bool" | R_alt rexp rexp | R_seq rexp rexp | R_many rexp

definition R_option :: "rexp \<Rightarrow> rexp" where
  "R_option r = R_alt R_empty r"

definition R_literal :: "string \<Rightarrow> rexp" where
  "R_literal s = foldr (\<lambda>c. R_seq (R_char (\<lambda>x. x = of_char c))) s R_empty"

fun nullable :: "rexp \<Rightarrow> bool" where
  "nullable R_none = False"
| "nullable R_empty = True"
| "nullable (R_char p) = False"
| "nullable (R_alt r s) = (nullable r \<or> nullable s)"
| "nullable (R_seq r s) = (nullable r \<and> nullable s)"
| "nullable (R_many r) = True"

fun alt_of :: "rexp \<Rightarrow> rexp \<Rightarrow> rexp" where
  "alt_of R_none s = s"
| "alt_of r R_none = r"
| "alt_of r s = R_alt r s"

fun seq_of :: "rexp \<Rightarrow> rexp \<Rightarrow> rexp" where
  "seq_of R_none s = R_none"
| "seq_of R_empty s = s"
| "seq_of r s = R_seq r s"

fun after_char :: "nat \<Rightarrow> rexp \<Rightarrow> rexp" where
  "after_char c R_none = R_none"
| "after_char c R_empty = R_none"
| "after_char c (R_char p) = (if p c then R_empty else R_none)"
| "after_char c (R_alt r s) = alt_of (after_char c r) (after_char c s)"
| "after_char c (R_seq r s) =
     (if nullable r then alt_of (seq_of (after_char c r) s) (after_char c s) else seq_of (after_char c r) s)"
| "after_char c (R_many r) = seq_of (after_char c r) (R_many r)"

text \<open>The words of a definition.\<close>

inductive word_of :: "rexp \<Rightarrow> nat list \<Rightarrow> bool" where
  empty: "word_of R_empty []"
| char: "p c \<Longrightarrow> word_of (R_char p) [c]"
| left: "word_of r w \<Longrightarrow> word_of (R_alt r s) w"
| right: "word_of s w \<Longrightarrow> word_of (R_alt r s) w"
| seq: "word_of r v \<Longrightarrow> word_of s w \<Longrightarrow> word_of (R_seq r s) (v @ w)"
| finished: "word_of (R_many r) []"
| again: "word_of r v \<Longrightarrow> word_of (R_many r) w \<Longrightarrow> word_of (R_many r) (v @ w)"

inductive_simps word_simps [simp]: "word_of R_none w" "word_of R_empty w" "word_of (R_char p) w" "word_of (R_alt r s) w"
inductive_simps word_seq: "word_of (R_seq r s) w"

lemma nullable_word: "nullable r \<longleftrightarrow> word_of r []"
  by (induction r) (auto simp: word_seq intro: word_of.intros)

lemma word_alt_of [simp]: "word_of (alt_of r s) w \<longleftrightarrow> word_of r w \<or> word_of s w"
  by (induction r s rule: alt_of.induct) auto

lemma word_seq_of [simp]: "word_of (seq_of r s) w \<longleftrightarrow> word_of (R_seq r s) w"
  by (induction r s rule: seq_of.induct) (auto simp: word_seq)

lemma many_nonempty: "word_of (R_many r) w \<Longrightarrow> w = c # w' \<Longrightarrow> \<exists>u v. w' = u @ v \<and> word_of r (c # u) \<and> word_of (R_many r) v"
  by (induction "R_many r" w arbitrary: w' rule: word_of.induct) (auto simp: append_eq_Cons_conv)

lemma word_after: "word_of (after_char c r) w \<longleftrightarrow> word_of r (c # w)"
proof (induction r arbitrary: w)
  case (R_seq r s)
  then show ?case by (auto simp: word_seq nullable_word Cons_eq_append_conv)
next
  case (R_many r)
  then show ?case using many_nonempty [of r "c # w" c w] word_of.again [of r "c # _"] by (fastforce simp: word_seq)
qed auto

fun after_word :: "nat list \<Rightarrow> rexp \<Rightarrow> rexp" where
  "after_word [] r = r"
| "after_word (c # w) r = after_word w (after_char c r)"

lemma after_word_word: "nullable (after_word w r) \<longleftrightarrow> word_of r w"
  by (induction w arbitrary: r) (auto simp: nullable_word word_after)

subsection \<open>The next token\<close>

definition alive :: "rexp \<Rightarrow> bool" where
  "alive r = (case r of R_none \<Rightarrow> False | _ \<Rightarrow> True)"

text \<open>What a grammar gives to the frame: the token definitions, the kind of a character that begins no token, and IGNORE.\<close>

record 'k scanner_spec =
  token_defs :: "('k \<times> rexp) list"
  no_sym :: 'k
  ignored :: "nat \<Rightarrow> bool"

definition tokens_after :: "nat \<Rightarrow> ('k \<times> rexp) list \<Rightarrow> ('k \<times> rexp) list" where
  "tokens_after c ds = filter (\<lambda>d. alive (snd d)) (map (\<lambda>d. (fst d, after_char c (snd d))) ds)"

definition token_kind :: "('k \<times> rexp) list \<Rightarrow> 'k option" where
  "token_kind ds = map_option fst (find (\<lambda>d. nullable (snd d)) ds)"

fun walk :: "('k \<times> rexp) list \<Rightarrow> nat list \<Rightarrow> nat list \<times> 'k option \<times> nat list" where
  "walk ds [] = ([], token_kind ds, [])"
| "walk ds (c # cs) =
     (case tokens_after c ds of
        [] \<Rightarrow> ([], token_kind ds, c # cs)
      | d # ds' \<Rightarrow> (let (w, k, r) = walk (d # ds') cs in (c # w, k, r)))"

text \<open>The first character belongs to the token whether a definition begins with it or not.\<close>

definition read_token :: "'k scanner_spec \<Rightarrow> nat \<Rightarrow> nat list \<Rightarrow> 'k token \<times> nat list" where
  "read_token sp c cs =
     (case tokens_after c (token_defs sp) of
        [] \<Rightarrow> (\<lparr>kind = Some (no_sym sp), val = [c]\<rparr>, cs)
      | d # ds' \<Rightarrow>
          (let (w, k, r) = walk (d # ds') cs
           in (\<lparr>kind = Some (case k of None \<Rightarrow> no_sym sp | Some k \<Rightarrow> k), val = c # w\<rparr>, r)))"

definition blank :: "'k scanner_spec \<Rightarrow> nat \<Rightarrow> bool" where
  "blank sp c \<longleftrightarrow> c = 32 \<or> ignored sp c"

text \<open>\<open>AppendVal\<close>: wide characters of four bytes, and a text with its end that fits a block of the heap.\<close>

definition HEAP_BLOCK_SIZE :: nat where "HEAP_BLOCK_SIZE = 64 * 1024"

definition token_too_long :: "nat list \<Rightarrow> bool" where
  "token_too_long w \<longleftrightarrow> HEAP_BLOCK_SIZE < (length w + 1) * 4"

lemma walk_splits: "walk ds cs = (w, k, r) \<Longrightarrow> cs = w @ r"
  by (induction ds cs arbitrary: w k r rule: walk.induct) (auto split: list.splits prod.splits)

lemma read_token_splits: "read_token sp c cs = (tk, r) \<Longrightarrow> c # cs = val tk @ r \<and> val tk \<noteq> []"
  by (auto simp: read_token_def split: list.splits prod.splits dest!: walk_splits)

text \<open>The tokens up to the end, or up to one that is too long; when the parser asks for that one, the process ends.\<close>

function scan_tokens :: "'k scanner_spec \<Rightarrow> nat list \<Rightarrow> 'k token list \<times> bool" where
  "scan_tokens sp cs =
     (case dropWhile (blank sp) cs of
        [] \<Rightarrow> ([], False)
      | c # cs' \<Rightarrow>
          (let (tk, r) = read_token sp c cs' in
           if token_too_long (val tk) then ([], True)
           else (let (tks, ends) = scan_tokens sp r in (tk # tks, ends))))"
  by pat_completeness auto
termination
proof (relation "measure (length \<circ> snd)", goal_cases)
  case (2 sp cs c cs' p tk r)
  then have "length r < length (c # cs')" using read_token_splits [of sp c cs' tk r] by (cases "val tk") auto
  also have "\<dots> \<le> length cs" using 2(1) length_dropWhile_le [of "blank sp" cs] by simp
  finally show ?case by simp
qed simp

declare scan_tokens.simps [simp del, code]

subsection \<open>A token is a word that cannot be continued\<close>

lemma alive_iff [simp]: "alive R_none = False" "alive R_empty = True" "alive (R_char p) = True"
    "alive (R_alt r s) = True" "alive (R_seq r s) = True" "alive (R_many r) = True"
  by (simp_all add: alive_def)

lemma after_word_none [simp]: "after_word w R_none = R_none"
  by (induction w) simp_all

lemma after_word_append [simp]: "after_word (v @ w) r = after_word w (after_word v r)"
  by (induction v arbitrary: r) simp_all

lemma not_alive: "\<not> alive r \<longleftrightarrow> r = R_none"
  by (cases r) simp_all

lemma after_word_alive: "alive (after_word w r) \<Longrightarrow> alive r"
  by (cases "alive r") (auto simp: not_alive)

lemma nullable_alive: "nullable r \<Longrightarrow> alive r"
  by (cases r) simp_all

definition left_of :: "nat list \<Rightarrow> ('k \<times> rexp) list \<Rightarrow> ('k \<times> rexp) list" where
  "left_of w ds = filter (\<lambda>d. alive (snd d)) (map (\<lambda>d. (fst d, after_word w (snd d))) ds)"

lemma left_of_Cons: "left_of w (tokens_after c ds) = left_of (c # w) ds"
proof (induction ds)
  case (Cons d ds)
  have "alive (after_char c (snd d))" if "alive (after_word w (after_char c (snd d)))" using after_word_alive [OF that] .
  with Cons show ?case by (auto simp: left_of_def tokens_after_def)
qed (simp add: left_of_def tokens_after_def)

lemma left_of_none: "left_of w ds = [] \<longleftrightarrow> (\<forall>d\<in>set ds. after_word w (snd d) = R_none)"
  by (auto simp: left_of_def filter_empty_conv not_alive)

lemma token_kind_left: "token_kind (left_of w ds) = map_option fst (find (\<lambda>d. word_of (snd d) w) ds)"
proof (induction ds)
  case (Cons d ds)
  have "alive (after_word w (snd d))" if "word_of (snd d) w" using that by (simp add: after_word_word [symmetric] nullable_alive)
  with Cons show ?case by (auto simp: token_kind_def left_of_def after_word_word)
qed (simp add: token_kind_def left_of_def)

lemma tokens_after_left: "tokens_after c ds = left_of [c] ds"
  by (simp add: tokens_after_def left_of_def)

definition cannot_continue :: "('k \<times> rexp) list \<Rightarrow> nat list \<Rightarrow> nat list \<Rightarrow> bool" where
  "cannot_continue ds w r \<longleftrightarrow> (case r of [] \<Rightarrow> True | c # _ \<Rightarrow> \<forall>d\<in>set ds. after_word (w @ [c]) (snd d) = R_none)"

lemma left_of_prefix: "left_of (v @ w) ds \<noteq> [] \<Longrightarrow> left_of v ds \<noteq> []"
  unfolding left_of_none after_word_append by (metis after_word_none)

lemma walk_left:
  assumes "left_of w ds \<noteq> []" and "cannot_continue ds w r"
  shows "walk ds (w @ r) = (w, token_kind (left_of w ds), r)"
  using assms
proof (induction w arbitrary: ds)
  case Nil
  have "token_kind (left_of [] ds) = token_kind ds"
    by (auto simp: token_kind_def left_of_def nullable_alive) (induction ds; auto dest: nullable_alive)
  moreover have "tokens_after c ds = []" if "r = c # r'" for c r'
    using Nil.prems(2) that by (simp add: cannot_continue_def tokens_after_left left_of_none)
  ultimately show ?case by (cases r) simp_all
next
  case (Cons c w)
  have t: "tokens_after c ds \<noteq> []" using left_of_prefix [of "[c]" w ds] Cons.prems(1) by (simp add: tokens_after_left)
  have "cannot_continue (tokens_after c ds) w r"
    using Cons.prems(2) by (auto simp: cannot_continue_def tokens_after_def split: list.splits)
  with Cons.IH [of "tokens_after c ds"] Cons.prems(1) have "walk (tokens_after c ds) (w @ r) = (w, token_kind (left_of (c # w) ds), r)"
    by (simp add: left_of_Cons)
  with t show ?case by (auto split: list.split)
qed

lemma find_in: "find p xs = Some x \<Longrightarrow> x \<in> set xs \<and> p x"
  by (induction xs) (auto split: if_splits)

lemma read_token_word:
  assumes "find (\<lambda>d. word_of (snd d) (c # w)) (token_defs sp) = Some (k, e)" and "cannot_continue (token_defs sp) (c # w) r"
  shows "read_token sp c (w @ r) = (\<lparr>kind = Some k, val = c # w\<rparr>, r)"
proof -
  let ?ds = "tokens_after c (token_defs sp)"
  have "(k, e) \<in> set (token_defs sp)" "word_of (snd (k, e)) (c # w)"
    using find_in [OF assms(1)] by simp_all
  then have "left_of (c # w) (token_defs sp) \<noteq> []" unfolding left_of_none
    using after_word_word [of "c # w" e] by (metis nullable.simps(1) snd_conv)
  then have n: "left_of (c # w) (token_defs sp) \<noteq> []" .
  have l: "left_of w ?ds \<noteq> []" unfolding left_of_Cons by (rule n)
  have l2: "?ds \<noteq> []" unfolding tokens_after_left by (rule left_of_prefix [of "[c]" w]) (use n in simp)
  have "cannot_continue ?ds w r"
    using assms(2) by (auto simp: cannot_continue_def tokens_after_def split: list.splits)
  from walk_left [OF l this] have "walk ?ds (w @ r) = (w, Some k, r)"
    by (simp add: left_of_Cons token_kind_left assms(1))
  with l2 show ?thesis by (auto simp: read_token_def split: list.split)
qed

text \<open>The characters of the tokens and the blanks in front of them make up the input, up to what could not be read.\<close>

inductive spaced :: "(nat \<Rightarrow> bool) \<Rightarrow> 'k token list \<Rightarrow> nat list \<Rightarrow> bool" for bl where
  no_token: "\<forall>c\<in>set e. bl c \<Longrightarrow> spaced bl [] e"
| token: "\<forall>c\<in>set b. bl c \<Longrightarrow> val tk \<noteq> [] \<Longrightarrow> spaced bl tks cs \<Longrightarrow> spaced bl (tk # tks) (b @ val tk @ cs)"

lemma dropWhile_splits: "\<exists>b. cs = b @ dropWhile p cs \<and> (\<forall>c\<in>set b. p c)"
proof (intro exI conjI)
  show "cs = takeWhile p cs @ dropWhile p cs" by (rule takeWhile_dropWhile_id [symmetric])
  show "\<forall>c\<in>set (takeWhile p cs). p c" using set_takeWhileD by fast
qed

lemma scan_tokens_spaced: "scan_tokens sp cs = (tks, ends) \<Longrightarrow> \<exists>v w. cs = v @ w \<and> spaced (blank sp) tks v \<and> (\<not> ends \<longrightarrow> w = [])"
proof (induction sp cs arbitrary: tks ends rule: scan_tokens.induct)
  case (1 sp cs)
  obtain b where b: "cs = b @ dropWhile (blank sp) cs" "\<forall>c\<in>set b. blank sp c" using dropWhile_splits [of cs "blank sp"] by blast
  show ?case
  proof (cases "dropWhile (blank sp) cs")
    case Nil
    with 1(2) have "tks = []" "\<not> ends" by (simp_all add: scan_tokens.simps [of sp cs])
    moreover have "cs = b" using b(1) Nil by simp
    ultimately show ?thesis using b(2) by (auto intro: spaced.no_token)
  next
    case (Cons c cs')
    obtain tk r where n: "read_token sp c cs' = (tk, r)" by (cases "read_token sp c cs'")
    show ?thesis
    proof (cases "token_too_long (val tk)")
      case True
      with 1(2) Cons n have "tks = []" "ends" by (simp_all add: scan_tokens.simps [of sp cs])
      then show ?thesis using spaced.no_token [of "[]" "blank sp"] by (intro exI [of _ "[]"] exI [of _ cs]) simp
    next
      case False
      obtain tks' where s: "scan_tokens sp r = (tks', ends)" "tks = tk # tks'"
        using 1(2) Cons n False by (auto simp: scan_tokens.simps [of sp cs] split: prod.splits)
      from 1(1) [OF Cons refl n [symmetric] False] s(1) obtain v w where
        "r = v @ w" "spaced (blank sp) tks' v" "\<not> ends \<longrightarrow> w = []" by auto
      moreover have "cs = (b @ val tk @ v) @ w" using b(1) Cons read_token_splits [OF n] \<open>r = v @ w\<close> by simp
      ultimately show ?thesis using s(2) b(2) read_token_splits [OF n] by (blast intro: spaced.token)
    qed
  qed
qed

subsection \<open>The tokens of a laid out text\<close>

text \<open>Every token with the blanks in front of it, and the blanks at the end.\<close>

fun laid_out :: "(nat list \<times> 'k token) list \<Rightarrow> nat list \<Rightarrow> nat list" where
  "laid_out [] e = e"
| "laid_out ((b, tk) # ps) e = b @ val tk @ laid_out ps e"

definition declared :: "'k scanner_spec \<Rightarrow> 'k token \<Rightarrow> bool" where
  "declared sp tk \<longleftrightarrow>
     val tk \<noteq> [] \<and> \<not> blank sp (hd (val tk)) \<and> \<not> token_too_long (val tk) \<and>
     (\<exists>k e. kind tk = Some k \<and> find (\<lambda>d. word_of (snd d) (val tk)) (token_defs sp) = Some (k, e))"

fun readable :: "'k scanner_spec \<Rightarrow> (nat list \<times> 'k token) list \<Rightarrow> nat list \<Rightarrow> bool" where
  "readable sp [] e = (\<forall>c\<in>set e. blank sp c)"
| "readable sp ((b, tk) # ps) e =
     ((\<forall>c\<in>set b. blank sp c) \<and> declared sp tk \<and> cannot_continue (token_defs sp) (val tk) (laid_out ps e) \<and> readable sp ps e)"

lemma scan_laid_out: "readable sp ps e \<Longrightarrow> scan_tokens sp (laid_out ps e) = (map snd ps, False)"
proof (induction ps e rule: laid_out.induct)
  case (1 e)
  then have e: "dropWhile (blank sp) e = []" by (simp add: dropWhile_eq_Nil_conv)
  show ?case unfolding laid_out.simps scan_tokens.simps [of sp e] e by simp
next
  case (2 b tk ps e)
  let ?r = "laid_out ps e"
  from 2(2) have b: "\<forall>c\<in>set b. blank sp c" and d: "declared sp tk" and n: "cannot_continue (token_defs sp) (val tk) ?r"
    and s: "scan_tokens sp ?r = (map snd ps, False)" using 2(1) by simp_all
  from d obtain c w k de where v: "val tk = c # w" "\<not> blank sp c" "\<not> token_too_long (val tk)" "kind tk = Some k"
    "find (\<lambda>d. word_of (snd d) (c # w)) (token_defs sp) = Some (k, de)"
    by (cases "val tk") (auto simp: declared_def)
  have w: "dropWhile (blank sp) (b @ val tk @ ?r) = c # w @ ?r" using b v(1,2) by simp
  have "read_token sp c (w @ ?r) = (tk, ?r)" using read_token_word [OF v(5), of ?r] n v(1,4) by (cases tk) simp
  with w s v(3) show ?case by (simp add: scan_tokens.simps [of sp "b @ val tk @ ?r"])
qed

text \<open>What the scanner delivers is a character that begins no token, or a word of the definition of its kind.\<close>

lemma walk_kind: "walk ds cs = (w, k, r) \<Longrightarrow> \<forall>d\<in>set ds. alive (snd d) \<Longrightarrow> k = token_kind (left_of w ds)"
proof (induction ds cs arbitrary: w k r rule: walk.induct)
  case (2 ds c cs)
  have a: "\<forall>d\<in>set (tokens_after c ds). alive (snd d)" by (auto simp: tokens_after_def)
  show ?case
  proof (cases "tokens_after c ds")
    case Nil
    with 2 show ?thesis by (auto simp: left_of_def)
  next
    case (Cons d ds')
    obtain w' where "walk (tokens_after c ds) cs = (w', k, r)" "w = c # w'"
      using 2(2) Cons by (auto split: prod.splits)
    with 2(1) [OF Cons, of w' k r] a Cons show ?thesis by (simp add: left_of_Cons [symmetric])
  qed
qed (auto simp: left_of_def)

lemma token_kind_def_word: "token_kind (left_of w ds) = Some k \<Longrightarrow> \<exists>e. (k, e) \<in> set ds \<and> word_of e w"
  unfolding token_kind_left by (auto dest!: find_in)

definition delivered :: "'k scanner_spec \<Rightarrow> 'k token \<Rightarrow> bool" where
  "delivered sp tk \<longleftrightarrow> kind tk = Some (no_sym sp) \<or> (\<exists>k e. kind tk = Some k \<and> (k, e) \<in> set (token_defs sp) \<and> word_of e (val tk))"

lemma read_token_delivered:
  assumes "read_token sp c cs = (tk, r)"
  shows "delivered sp tk"
proof (cases "tokens_after c (token_defs sp)")
  case Nil
  with assms show ?thesis by (auto simp: read_token_def delivered_def)
next
  case (Cons d ds)
  obtain w k r' where w': "walk (tokens_after c (token_defs sp)) cs = (w, k, r')" by (rule prod_cases3)
  then have w: "walk (tokens_after c (token_defs sp)) cs = (w, k, r)" using assms Cons by (simp add: read_token_def)
  then have "tk = \<lparr>kind = Some (case k of None \<Rightarrow> no_sym sp | Some k \<Rightarrow> k), val = c # w\<rparr>"
    using assms Cons by (simp add: read_token_def)
  moreover have "k = token_kind (left_of (c # w) (token_defs sp))"
  proof -
    have "\<forall>d\<in>set (tokens_after c (token_defs sp)). alive (snd d)" by (simp add: tokens_after_def)
    from walk_kind [OF w this] show ?thesis unfolding left_of_Cons .
  qed
  ultimately show ?thesis using token_kind_def_word [of "c # w" "token_defs sp"] 
    by (cases "token_kind (left_of (c # w) (token_defs sp))") (auto simp: delivered_def)
qed

lemma scan_tokens_delivered: "scan_tokens sp cs = (tks, ends) \<Longrightarrow> \<forall>tk\<in>set tks. delivered sp tk"
proof (induction sp cs arbitrary: tks ends rule: scan_tokens.induct)
  case (1 sp cs)
  show ?case
  proof (cases "dropWhile (blank sp) cs")
    case Nil
    with 1(2) show ?thesis by (simp add: scan_tokens.simps [of sp cs])
  next
    case (Cons c cs')
    obtain tk r where n: "read_token sp c cs' = (tk, r)" by (cases "read_token sp c cs'")
    with 1(2) Cons 1(1) [OF Cons refl n [symmetric]] read_token_delivered [OF n] show ?thesis
      by (auto simp: scan_tokens.simps [of sp cs] split: if_splits prod.splits)
  qed
qed

end
