(* ===== verification/JSON_Body.thy ===== *)
theory JSON_Body
  imports Coco_Parser JSON_Encoding
begin

text \<open>
  The body of a JSON request: the productions of \<open>JSON/JSON.atg\<close> with their semantic actions, and
  \<open>read_jsonrequest\<close> of \<open>request_body.cc\<close>. The scanner is generated and is an argument.
\<close>

subsection \<open>The parser\<close>

datatype json_kind = J_string | J_number | J_key string | J_unknown

text \<open>\<open>json_val\<close>: \<open>None\<close> is a pointer that cannot be read, null or, before the first value, uninitialised.\<close>

record json_parser = "json_kind parser" +
  json_key :: string
  json_val :: "len_string option"
  json_form :: form_table

definition JSON_string :: "nat list \<Rightarrow> string option" where
  "JSON_string tok = map_option (\<lambda>ls. c_str (ls_string ls)) (JSON_blob tok)"

definition set_blob :: "json_parser \<Rightarrow> json_parser option" where
  "set_blob p = map_option (\<lambda>ls. p\<lparr>json_val := Some ls\<rparr>) (JSON_blob (val (last_token p)))"

definition store_item :: "json_parser \<Rightarrow> json_parser option" where
  "store_item p =
     do { ls \<leftarrow> json_val p; t \<leftarrow> set_item (json_key p) ls (json_form p); Some (p\<lparr>json_form := t\<rparr>) }"

definition value_starts :: "json_kind option set" where
  "value_starts =
     {Some J_string, Some J_number, Some (J_key ''{''), Some (J_key ''[''), Some (J_key ''true''),
      Some (J_key ''false''), Some (J_key ''null'')}"

text \<open>One function for the productions, which call each other; the repetitions are productions of their own.\<close>

datatype json_production = P_object | P_pairs | P_pair | P_array | P_values | P_value

partial_function (option) json_run :: "json_production \<Rightarrow> json_parser \<Rightarrow> json_parser option" where
  "json_run pr p =
     (case pr of
        P_object \<Rightarrow>
          (let p1 = Expect (Some (J_key ''{'')) p in
           do { p2 \<leftarrow> (if la_kind p1 = Some J_string then do { q \<leftarrow> json_run P_pair p1; json_run P_pairs q } else Some p1);
                Some (Expect (Some (J_key ''}'')) p2) })
      | P_pairs \<Rightarrow>
          (if la_kind p = Some (J_key '','') then do { q \<leftarrow> json_run P_pair (Get p); json_run P_pairs q } else Some p)
      | P_pair \<Rightarrow>
          (let p1 = Expect (Some J_string) p in
           do { k \<leftarrow> JSON_string (val (last_token p1));
                q \<leftarrow> json_run P_value (Expect (Some (J_key '':'')) (p1\<lparr>json_key := k\<rparr>));
                store_item q })
      | P_array \<Rightarrow>
          (let p1 = Expect (Some (J_key ''['')) p in
           do { p2 \<leftarrow> (if la_kind p1 \<in> value_starts then do { q \<leftarrow> json_run P_value p1; json_run P_values q } else Some p1);
                Some (Expect (Some (J_key '']'')) p2) })
      | P_values \<Rightarrow>
          (if la_kind p = Some (J_key '','') then do { q \<leftarrow> json_run P_value (Get p); json_run P_values q } else Some p)
      | P_value \<Rightarrow>
          (if la_kind p = Some J_string then set_blob (Get p)
           else if la_kind p = Some J_number then set_blob (Get p)
           else if la_kind p = Some (J_key ''{'') then json_run P_object p
           else if la_kind p = Some (J_key ''['') then json_run P_array p
           else if la_kind p = Some (J_key ''true'') then set_blob (Get p)
           else if la_kind p = Some (J_key ''false'') then set_blob (Get p)
           else if la_kind p = Some (J_key ''null'') then Some ((Get p)\<lparr>json_val := None\<rparr>)
           else Some (SynErr p)))"

declare json_run.simps [code]

definition json_parse :: "string \<Rightarrow> json_kind token list \<Rightarrow> form_table \<Rightarrow> json_parser option" where
  "json_parse key toks tab =
     (let p = start_parser toks \<lparr>json_key = key, json_val = None, json_form = tab\<rparr> in
      do { q \<leftarrow> (if la_kind p = Some (J_key ''{'') then json_run P_object p
                 else if la_kind p = Some (J_key ''['') then json_run P_array p
                 else Some (SynErr p));
           Some (Expect None q) })"

text \<open>The table and the error count; \<open>http_get_form_data\<close> turns a count that is not zero into status 400.\<close>

definition read_jsonrequest ::
  "(string \<Rightarrow> int \<Rightarrow> json_kind token list) \<Rightarrow> string \<Rightarrow> string \<Rightarrow> int \<Rightarrow> form_table \<Rightarrow> (form_table \<times> nat) option" where
  "read_jsonrequest scan key databuffer len tab =
     map_option (\<lambda>q. (json_form q, err_count q)) (json_parse key (scan databuffer len) tab)"

subsection \<open>Texts and their meaning\<close>

text \<open>The string and number tokens carry their text, with the quotes.\<close>

datatype json =
    JString "nat list" | JNumber "nat list" | JTrue | JFalse | JNull
  | JObject "(nat list \<times> json) list" | JArray "json list"

definition jk :: "string \<Rightarrow> json_kind token" where
  "jk s = \<lparr>kind = Some (J_key s), val = wide s\<rparr>"

definition jstr :: "nat list \<Rightarrow> json_kind token" where
  "jstr w = \<lparr>kind = Some J_string, val = w\<rparr>"

lemma jk_simps [simp]: "kind (jk s) = Some (J_key s)" "val (jk s) = wide s" "kind (jstr w) = Some J_string" "val (jstr w) = w"
  by (simp_all add: jk_def jstr_def)

fun json_toks :: "json \<Rightarrow> json_kind token list" and pair_toks :: "nat list \<times> json \<Rightarrow> json_kind token list" where
  "json_toks (JString w) = [jstr w]"
| "json_toks (JNumber w) = [\<lparr>kind = Some J_number, val = w\<rparr>]"
| "json_toks JTrue = [jk ''true'']"
| "json_toks JFalse = [jk ''false'']"
| "json_toks JNull = [jk ''null'']"
| "json_toks (JObject ps) =
     [jk ''{''] @ (case ps of [] \<Rightarrow> [] | x # xs \<Rightarrow> pair_toks x @ concat (map (\<lambda>y. jk '','' # pair_toks y) xs)) @ [jk ''}'']"
| "json_toks (JArray js) =
     [jk ''[''] @ (case js of [] \<Rightarrow> [] | x # xs \<Rightarrow> json_toks x @ concat (map (\<lambda>y. jk '','' # json_toks y) xs)) @ [jk '']'']"
| "pair_toks (w, j) = [jstr w, jk '':''] @ json_toks j"

text \<open>What a text does to the variables of the parser: the key, the value and the form table.\<close>

type_synonym json_state = "string \<times> len_string option \<times> form_table"

definition blob_act :: "nat list \<Rightarrow> json_state \<Rightarrow> json_state option" where
  "blob_act w s = map_option (\<lambda>ls. (fst s, Some ls, snd (snd s))) (JSON_blob w)"

fun run_acts :: "('a \<Rightarrow> json_state \<Rightarrow> json_state option) \<Rightarrow> 'a list \<Rightarrow> json_state \<Rightarrow> json_state option" where
  "run_acts act [] s = Some s"
| "run_acts act (x # xs) s = do { s' \<leftarrow> act x s; run_acts act xs s' }"

lemma run_acts_cong [fundef_cong]:
  assumes "xs = ys" and "s = t" and "\<And>x s. x \<in> set ys \<Longrightarrow> f x s = g x s"
  shows "run_acts f xs s = run_acts g ys t"
  using assms(3) unfolding assms(1,2) by (induction ys arbitrary: t) (simp_all cong: Option.bind_cong)

definition pair_act :: "(json_state \<Rightarrow> json_state option) \<Rightarrow> nat list \<Rightarrow> json_state \<Rightarrow> json_state option" where
  "pair_act value w s =
     do { k \<leftarrow> JSON_string w;
          (key, v, t) \<leftarrow> value (k, snd s);
          ls \<leftarrow> v;
          t' \<leftarrow> set_item key ls t;
          Some (key, v, t') }"

lemma pair_act_cong [fundef_cong]:
  assumes "w = w'" and "s = s'" and "\<And>t. f t = g t"
  shows "pair_act f w s = pair_act g w' s'"
  using assms by (simp add: pair_act_def)

fun json_act :: "json \<Rightarrow> json_state \<Rightarrow> json_state option" where
  "json_act (JString w) s = blob_act w s"
| "json_act (JNumber w) s = blob_act w s"
| "json_act JTrue s = blob_act (wide ''true'') s"
| "json_act JFalse s = blob_act (wide ''false'') s"
| "json_act JNull s = Some (fst s, None, snd (snd s))"
| "json_act (JObject ps) s = run_acts (\<lambda>(w, j) s. pair_act (json_act j) w s) ps s"
| "json_act (JArray js) s = run_acts (\<lambda>j s. json_act j s) js s"

subsection \<open>The parser computes the meaning\<close>

definition jstate :: "json_parser \<Rightarrow> json_state" where
  "jstate p = (json_key p, json_val p, json_form p)"

definition jresults :: "json_state option \<Rightarrow> json_kind token list \<Rightarrow> json_parser \<Rightarrow> json_parser option \<Rightarrow> bool" where
  "jresults m r p out \<longleftrightarrow>
     (case m of None \<Rightarrow> out = None
      | Some s \<Rightarrow> \<exists>q. out = Some q \<and> input q = r \<and> jstate q = s \<and> err_count q = err_count p)"

lemma json_fields [simp]:
  fixes p :: json_parser
  shows "json_key (Get p) = json_key p" "json_val (Get p) = json_val p" "json_form (Get p) = json_form p" "jstate (Get p) = jstate p"
  by (simp_all add: Get_def jstate_def)

lemma jresults_cases:
  assumes "jresults m r p out"
  obtains (crash) "m = None" and "out = None"
    | (run) s q where "m = Some s" and "out = Some q" and "input q = r" and "jstate q = s" and "err_count q = err_count p"
  using assms by (cases m) (auto simp: jresults_def)

lemma jresults_run: "input q = r \<Longrightarrow> jstate q = s \<Longrightarrow> err_count q = err_count p \<Longrightarrow> jresults (Some s) r p (Some q)"
  by (simp add: jresults_def)

lemma jresults_crash: "jresults None r p None"
  by (simp add: jresults_def)

lemma jresults_from: "jresults m r p' out \<Longrightarrow> err_count p' = err_count p \<Longrightarrow> jresults m r p out"
  by (simp add: jresults_def cong: option.case_cong)

lemma jresults_bind:
  assumes "jresults m1 r1 p out1" and "\<And>q. input q = r1 \<Longrightarrow> jresults (m2 (jstate q)) r2 q (f q)"
  shows "jresults (m1 \<bind> m2) r2 p (out1 \<bind> f)"
  using assms(1)
proof (cases rule: jresults_cases)
  case (run s q)
  have "jresults (m2 s) r2 p (f q)" using jresults_from [OF assms(2) [OF run(3)] run(5)] run(4) by simp
  with run(1,2) show ?thesis by simp
qed (simp add: jresults_crash)

lemma repetition_results:
  assumes "\<And>p. R p = (if la_kind p = Some (J_key '','') then do { q \<leftarrow> item (Get p); R q } else Some p)"
    and "\<And>x p r'. x \<in> set xs \<Longrightarrow> input p = toks x @ r' \<Longrightarrow> jresults (act x (jstate p)) r' p (item p)"
    and "first r \<noteq> Some (J_key '','')" and "input p = concat (map (\<lambda>y. jk '','' # toks y) xs) @ r"
  shows "jresults (run_acts act xs (jstate p)) r p (R p)"
  using assms(2,4)
proof (induction xs arbitrary: p)
  case Nil
  then have "R p = Some p" using assms(3) la_first [of p r] by (subst assms(1)) simp
  with Nil show ?case by (simp add: jresults_run)
next
  case (Cons x xs)
  let ?r = "concat (map (\<lambda>y. jk '','' # toks y) xs) @ r"
  have "la_kind p = Some (J_key '','')" "input (Get p) = toks x @ ?r" using Cons.prems(2) by (simp_all add: la_input)
  then have e: "R p = item (Get p) \<bind> R" and x: "jresults (act x (jstate (Get p))) ?r (Get p) (item (Get p))"
    using Cons.prems(1) [of x "Get p" ?r] by (simp_all add: assms(1) [of p])
  have "jresults (act x (jstate (Get p)) \<bind> run_acts act xs) r (Get p) (item (Get p) \<bind> R)"
    by (rule jresults_bind [OF x]) (rule Cons.IH; use Cons.prems(1) in simp)
  then show ?case unfolding e by (simp add: jresults_from)
qed

lemma json_productions:
  "json_run P_object p =
     (let p1 = Expect (Some (J_key ''{'')) p in
      do { p2 \<leftarrow> (if la_kind p1 = Some J_string then do { q \<leftarrow> json_run P_pair p1; json_run P_pairs q } else Some p1);
           Some (Expect (Some (J_key ''}'')) p2) })"
  "json_run P_pair p =
     (let p1 = Expect (Some J_string) p in
      do { k \<leftarrow> JSON_string (val (last_token p1));
           q \<leftarrow> json_run P_value (Expect (Some (J_key '':'')) (p1\<lparr>json_key := k\<rparr>));
           store_item q })"
  "json_run P_array p =
     (let p1 = Expect (Some (J_key ''['')) p in
      do { p2 \<leftarrow> (if la_kind p1 \<in> value_starts then do { q \<leftarrow> json_run P_value p1; json_run P_values q } else Some p1);
           Some (Expect (Some (J_key '']'')) p2) })"
  by (subst json_run.simps; simp)+

lemma json_repetitions:
  "json_run P_pairs p = (if la_kind p = Some (J_key '','') then do { q \<leftarrow> json_run P_pair (Get p); json_run P_pairs q } else Some p)"
  "json_run P_values p = (if la_kind p = Some (J_key '','') then do { q \<leftarrow> json_run P_value (Get p); json_run P_values q } else Some p)"
  by (subst json_run.simps; simp)+

lemma json_values:
  "la_kind p = Some J_string \<or> la_kind p = Some J_number \<or> la_kind p = Some (J_key ''true'') \<or> la_kind p = Some (J_key ''false'') \<Longrightarrow>
     json_run P_value p = set_blob (Get p)"
  "la_kind p = Some (J_key ''{'') \<Longrightarrow> json_run P_value p = json_run P_object p"
  "la_kind p = Some (J_key ''['') \<Longrightarrow> json_run P_value p = json_run P_array p"
  "la_kind p = Some (J_key ''null'') \<Longrightarrow> json_run P_value p = Some ((Get p)\<lparr>json_val := None\<rparr>)"
  by (subst json_run.simps; auto)+

lemma set_blob_results:
  assumes "val (la p) = w" and "input p = tk # r"
  shows "jresults (blob_act w (jstate p)) r p (set_blob (Get p))"
  using assms by (cases "JSON_blob w") (simp_all add: set_blob_def blob_act_def jresults_def jstate_def)

lemma pair_results:
  assumes val_ok: "\<And>p r. input p = json_toks j @ r \<Longrightarrow> jresults (json_act j (jstate p)) r p (json_run P_value p)"
    and "input p = pair_toks (w, j) @ r"
  shows "jresults (pair_act (json_act j) w (jstate p)) r p (json_run P_pair p)"
proof (cases "JSON_string w")
  case None
  then show ?thesis using assms(2) by (simp add: pair_act_def json_productions(2) Expect_def la_input jresults_crash)
next
  case (Some k)
  let ?p1 = "(Get p)\<lparr>json_key := k\<rparr>"
  let ?p2 = "Get ?p1"
  have i: "input ?p1 = jk '':'' # json_toks j @ r" "input ?p2 = json_toks j @ r" using assms(2) by simp_all
  have e: "json_run P_pair p = json_run P_value ?p2 \<bind> store_item"
    using assms(2) Some i(1) by (simp add: json_productions(2) Expect_def la_input)
  have s: "jstate ?p2 = (k, snd (jstate p))" by (simp add: jstate_def)
  have "jresults (json_act j (jstate ?p2) \<bind> (\<lambda>(key, v, t). v \<bind> (\<lambda>ls. set_item key ls t \<bind> (\<lambda>t'. Some (key, v, t'))))) r ?p2
      (json_run P_value ?p2 \<bind> store_item)"
  proof (rule jresults_bind [OF val_ok [OF i(2)]])
    fix q :: json_parser
    assume "input q = r"
    then show "jresults (case jstate q of (key, v, t) \<Rightarrow> v \<bind> (\<lambda>ls. set_item key ls t \<bind> (\<lambda>t'. Some (key, v, t')))) r q (store_item q)"
      by (auto simp: jstate_def store_item_def jresults_def split: Option.bind_split)
  qed
  then show ?thesis unfolding e pair_act_def s using Some by (simp add: jresults_from)
qed

lemma object_results:
  assumes "\<And>w j p r. (w, j) \<in> set ps \<Longrightarrow> input p = json_toks j @ r \<Longrightarrow> jresults (json_act j (jstate p)) r p (json_run P_value p)"
    and "input p = json_toks (JObject ps) @ r"
  shows "jresults (json_act (JObject ps) (jstate p)) r p (json_run P_object p)"
proof (cases ps)
  case Nil
  then show ?thesis using assms(2) by (simp add: json_productions(1) Expect_def la_input jresults_run)
next
  case (Cons x xs)
  let ?act = "\<lambda>(w, j) s. pair_act (json_act j) w s"
  let ?p1 = "Get p" and ?r1 = "jk ''}'' # r" and ?rest = "concat (map (\<lambda>y. jk '','' # pair_toks y) xs)"
  have pair: "jresults (?act y (jstate q)) r' q (json_run P_pair q)" if "y \<in> set ps" "input q = pair_toks y @ r'" for y q r'
  proof -
    obtain w j where y: "y = (w, j)" by (cases y)
    with that pair_results [OF assms(1), where w = w and j = j] show ?thesis by simp
  qed
  have i: "input p = jk ''{'' # pair_toks x @ ?rest @ ?r1" "input ?p1 = pair_toks x @ ?rest @ ?r1" using assms(2) Cons by simp_all
  have l: "la_kind ?p1 = Some J_string" using i(2) by (cases x) (simp add: la_input)
  have e: "json_run P_object p = (json_run P_pair ?p1 \<bind> json_run P_pairs) \<bind> (\<lambda>q. Some (Expect (Some (J_key ''}'')) q))"
    using i(1) l by (simp add: json_productions(1) Expect_def la_input)
  have x: "jresults (?act x (jstate ?p1)) (?rest @ ?r1) ?p1 (json_run P_pair ?p1)" by (rule pair) (use Cons i(2) in simp_all)
  have rep: "jresults (run_acts ?act xs (jstate q)) ?r1 q (json_run P_pairs q)" if "input q = ?rest @ ?r1" for q
    by (rule repetition_results [OF json_repetitions(1) _ _ that]) (use Cons pair in \<open>auto simp del: pair_toks.simps\<close>)
  have "jresults (?act x (jstate ?p1) \<bind> run_acts ?act xs) ?r1 ?p1 (json_run P_pair ?p1 \<bind> json_run P_pairs)"
    by (rule jresults_bind [OF x rep])
  then have "jresults (run_acts ?act ps (jstate p)) ?r1 p (json_run P_pair ?p1 \<bind> json_run P_pairs)"
    using Cons by (simp add: jresults_from)
  then show ?thesis unfolding e
    by (cases rule: jresults_cases) (simp_all add: jresults_crash jresults_run Expect_def la_input)
qed

lemma array_results:
  assumes "\<And>j p r. j \<in> set js \<Longrightarrow> input p = json_toks j @ r \<Longrightarrow> jresults (json_act j (jstate p)) r p (json_run P_value p)"
    and "input p = json_toks (JArray js) @ r"
  shows "jresults (json_act (JArray js) (jstate p)) r p (json_run P_array p)"
proof (cases js)
  case Nil
  then show ?thesis using assms(2) by (simp add: json_productions(3) Expect_def la_input value_starts_def jresults_run)
next
  case (Cons x xs)
  let ?p1 = "Get p" and ?r1 = "jk '']'' # r" and ?rest = "concat (map (\<lambda>y. jk '','' # json_toks y) xs)"
  have i: "input p = jk ''['' # json_toks x @ ?rest @ ?r1" "input ?p1 = json_toks x @ ?rest @ ?r1" using assms(2) Cons by simp_all
  have l: "la_kind ?p1 \<in> value_starts" using i(2) by (cases x) (simp_all add: la_input value_starts_def)
  have e: "json_run P_array p = (json_run P_value ?p1 \<bind> json_run P_values) \<bind> (\<lambda>q. Some (Expect (Some (J_key '']'')) q))"
    using i(1) l by (simp add: json_productions(3) Expect_def la_input)
  have x: "jresults (json_act x (jstate ?p1)) (?rest @ ?r1) ?p1 (json_run P_value ?p1)" by (rule assms(1)) (use Cons i(2) in simp_all)
  have rep: "jresults (run_acts json_act xs (jstate q)) ?r1 q (json_run P_values q)" if "input q = ?rest @ ?r1" for q
    by (rule repetition_results [OF json_repetitions(2) _ _ that]) (use Cons assms(1) in auto)
  have "jresults (json_act x (jstate ?p1) \<bind> run_acts json_act xs) ?r1 ?p1 (json_run P_value ?p1 \<bind> json_run P_values)"
    by (rule jresults_bind [OF x rep])
  then have "jresults (run_acts json_act js (jstate p)) ?r1 p (json_run P_value ?p1 \<bind> json_run P_values)"
    using Cons by (simp add: jresults_from)
  then show ?thesis unfolding e
    by (cases rule: jresults_cases) (simp_all add: jresults_crash jresults_run Expect_def la_input)
qed

lemma value_results:
  assumes "input p = json_toks j @ r"
  shows "jresults (json_act j (jstate p)) r p (json_run P_value p)"
  using assms
proof (induction j arbitrary: p r)
  case (JObject ps)
  have "jresults (json_act (JObject ps) (jstate p)) r p (json_run P_object p)"
    by (rule object_results) (use JObject in \<open>fastforce intro: snds.intros\<close>)+
  moreover have "la_kind p = Some (J_key ''{'')" using JObject(2) by (simp add: la_input)
  ultimately show ?case by (simp add: json_values(2))
next
  case (JArray js)
  have "jresults (json_act (JArray js) (jstate p)) r p (json_run P_array p)" by (rule array_results) (use JArray in blast)+
  moreover have "la_kind p = Some (J_key ''['')" using JArray(2) by (simp add: la_input)
  ultimately show ?case by (simp add: json_values(3))
next
  case JNull
  then have "la_kind p = Some (J_key ''null'')" by (simp add: la_input)
  with JNull show ?case by (simp add: json_values(4) jresults_run jstate_def)
qed (simp_all add: json_values(1) la_input set_blob_results)

definition json_text :: "json \<Rightarrow> bool" where
  "json_text j \<longleftrightarrow> (case j of JObject ps \<Rightarrow> True | JArray js \<Rightarrow> True | _ \<Rightarrow> False)"

lemma json_parse_jresults:
  assumes "json_text j"
  shows "jresults (json_act j (key, None, tab)) [] (start_parser (json_toks j) \<lparr>json_key = key, json_val = None, json_form = tab\<rparr>)
    (json_parse key (json_toks j) tab)"
proof -
  let ?p = "start_parser (json_toks j) \<lparr>json_key = key, json_val = None, json_form = tab\<rparr> :: json_parser"
  have s: "jstate ?p = (key, None, tab)" "input ?p = json_toks j" "err_count ?p = 0"
    by (simp_all add: start_parser_fields) (simp add: start_parser_def Get_def jstate_def)
  have res: "jresults (json_act j (jstate ?p)) [] ?p
    (if la_kind ?p = Some (J_key ''{'') then json_run P_object ?p
     else if la_kind ?p = Some (J_key ''['') then json_run P_array ?p else Some (SynErr ?p))"
  proof (cases j)
    case (JObject ps)
    with s(2) have "la_kind ?p = Some (J_key ''{'')" by (simp add: la_input)
    with object_results [OF value_results, of ps ?p "[]"] JObject s(2) show ?thesis by simp
  next
    case (JArray js)
    with s(2) have "la_kind ?p = Some (J_key ''['')" by (simp add: la_input)
    with array_results [OF value_results, of js ?p "[]"] JArray s(2) show ?thesis by simp
  qed (use assms in \<open>simp_all add: json_text_def\<close>)
  show ?thesis
  proof (cases rule: jresults_cases [OF res])
    case 1
    then show ?thesis unfolding s(1) json_parse_def Let_def by (simp add: jresults_crash)
  next
    case (2 st q)
    have "Expect None q = Get q" using 2(3) by (simp add: Expect_def la_def)
    with 2 show ?thesis unfolding s(1) json_parse_def Let_def by (simp add: jresults_run)
  qed
qed

lemma json_parse_results:
  assumes "json_text j"
  shows "map_option (\<lambda>q. (json_form q, err_count q)) (json_parse key (json_toks j) tab) =
    map_option (\<lambda>s. (snd (snd s), 0)) (json_act j (key, None, tab))"
    and "json_parse key (json_toks j) tab = Some q \<Longrightarrow> input q = []"
proof -
  have "err_count (start_parser (json_toks j) \<lparr>json_key = key, json_val = None, json_form = tab\<rparr> :: json_parser) = 0"
    by (simp add: start_parser_fields)
  then show "map_option (\<lambda>q. (json_form q, err_count q)) (json_parse key (json_toks j) tab) =
    map_option (\<lambda>s. (snd (snd s), 0)) (json_act j (key, None, tab))"
    by (cases rule: jresults_cases [OF json_parse_jresults [OF assms, of key tab]]) (auto simp: jstate_def)
  show "json_parse key (json_toks j) tab = Some q \<Longrightarrow> input q = []"
    by (cases rule: jresults_cases [OF json_parse_jresults [OF assms, of key tab]]) auto
qed

end
