(* ===== verification/JSON_Body_Correct.thy ===== *)
theory JSON_Body_Correct
  imports JSON_Body
begin

text \<open>
  What the JSON reader does to the form table: a flat object gives every name its last value; a null
  crashes; the name of a member with an object as its value is lost; and the reader reports no error
  exactly for the texts of the grammar.
\<close>

subsection \<open>Strings, numbers and truth values\<close>

datatype scalar = Text string | Num string | Flag bool

definition json_quoted :: "string \<Rightarrow> nat list" where
  "json_quoted s = 0x22 # wide (escaped escape_leaning_toothpicks s) @ [0x22]"

fun scalar_json :: "scalar \<Rightarrow> json" where
  "scalar_json (Text s) = JString (json_quoted s)"
| "scalar_json (Num s) = JNumber (wide s)"
| "scalar_json (Flag b) = (if b then JTrue else JFalse)"

fun scalar_text :: "scalar \<Rightarrow> string" where
  "scalar_text (Text s) = s"
| "scalar_text (Num s) = s"
| "scalar_text (Flag b) = (if b then ''true'' else ''false'')"

definition bare_word :: "string \<Rightarrow> bool" where
  "bare_word s \<longleftrightarrow> s \<noteq> [] \<and> set s \<inter> {CHR 0x22, CHR 0x5C, CHR 0x00} = {}"

fun scalar_ok :: "scalar \<Rightarrow> bool" where
  "scalar_ok (Num s) \<longleftrightarrow> bare_word s"
| "scalar_ok _ \<longleftrightarrow> True"

definition pair_text :: "len_string \<Rightarrow> string" where
  "pair_text ls = take (ls_len ls) (ls_string ls)"

lemma byte_wide: "map byte (wide s) = s"
  by (simp add: wide_def byte_def comp_def)

lemma blob_quoted:
  obtains ls where "JSON_blob (json_quoted s) = Some ls" and "pair_text ls = s" and "CHR 0x00 \<notin> set s \<Longrightarrow> c_str (ls_string ls) = s"
proof -
  let ?e = "escaped escape_leaning_toothpicks s"
  from JSON_unescape_ok [OF unescaped_escaped escaped_no_null, of s "[]"] obtain str' where u:
    "JSON_unescape (?e @ [CHR 0x00]) = Some (str', int (length s))" "take (length s) str' = s" "c_str (drop (length s) str') = []" by auto
  have b: "JSON_blob (json_quoted s) = Some \<lparr>ls_len = length s, ls_string = str'\<rparr>"
    using u(1) by (simp add: JSON_blob_def json_quoted_def arr_get_def in_range_def byte_wide)
  have c: "c_str str' = s" if "CHR 0x00 \<notin> set s"
  proof -
    have "c_str (s @ drop (length s) str') = s @ c_str (drop (length s) str')"
      using that unfolding c_str_def by (subst takeWhile_append2) auto
    moreover have "s @ drop (length s) str' = str'" using u(2) append_take_drop_id [of "length s" str'] by simp
    ultimately show ?thesis using u(3) by simp
  qed
  show thesis by (rule that [OF b]) (simp_all add: pair_text_def u(2) c)
qed

lemma string_quoted: "CHR 0x00 \<notin> set s \<Longrightarrow> JSON_string (json_quoted s) = Some s"
  by (rule blob_quoted [of s]) (simp add: JSON_string_def)

lemma unescaped_plain: "bare_word s \<Longrightarrow> unescaped s p = Some s"
proof -
  have "CHR 0x5C \<notin> set s \<Longrightarrow> unescaped s p = Some s" by (induction s) auto
  then show "bare_word s \<Longrightarrow> unescaped s p = Some s" by (simp add: bare_word_def)
qed

lemma blob_plain:
  assumes "bare_word s"
  obtains ls where "JSON_blob (wide s) = Some ls" and "pair_text ls = s"
proof -
  obtain c cs where s: "s = c # cs" "c \<noteq> CHR 0x22" using assms by (cases s) (auto simp: bare_word_def)
  have "CHR 0x00 \<notin> set s" using assms by (auto simp: bare_word_def)
  from JSON_unescape_ok [OF unescaped_plain [OF assms] this, of "[]"] obtain str' where u:
    "JSON_unescape (s @ [CHR 0x00]) = Some (str', int (length s))" "take (length s) str' = s" by auto
  have "wide s ! 0 = of_char c" using s(1) by (simp add: wide_def)
  moreover have "(of_char c :: nat) \<noteq> 0x22"
  proof
    assume "(of_char c :: nat) = 0x22"
    then have "char_of (of_char c :: nat) = (char_of (0x22 :: nat) :: char)" by simp
    moreover have "(char_of (0x22 :: nat) :: char) = CHR 0x22" by code_simp
    ultimately show False using s(2) by simp
  qed
  ultimately have "JSON_blob (wide s) = Some \<lparr>ls_len = length s, ls_string = str'\<rparr>"
    using u(1) s(1) byte_wide [of s] by (simp add: JSON_blob_def arr_get_def in_range_def) (simp add: wide_def)
  then show thesis by (rule that) (simp add: pair_text_def u(2))
qed

text \<open>The value that a scalar leaves behind.\<close>

lemma scalar_act:
  assumes "scalar_ok x"
  obtains ls where "\<And>s. json_act (scalar_json x) s = Some (fst s, Some ls, snd (snd s))" and "pair_text ls = scalar_text x"
proof (cases x)
  case (Text s)
  then show thesis using that by (cases rule: blob_quoted [of s]) (simp add: blob_act_def)
next
  case (Num s)
  with assms have "bare_word s" by simp
  then show thesis using that Num by (cases rule: blob_plain [of s]) (simp_all add: blob_act_def)
next
  case (Flag b)
  have "bare_word (scalar_text (Flag b))" by (simp add: bare_word_def)
  then obtain ls where "JSON_blob (wide (scalar_text (Flag b))) = Some ls" "pair_text ls = scalar_text (Flag b)" by (rule blob_plain)
  then show thesis using that [of ls] Flag by (cases b) (simp_all add: blob_act_def)
qed

subsection \<open>Flat objects\<close>

definition member :: "string \<times> scalar \<Rightarrow> nat list \<times> json" where
  "member kx = (json_quoted (fst kx), scalar_json (snd kx))"

definition members_ok :: "(string \<times> scalar) list \<Rightarrow> bool" where
  "members_ok kxs \<longleftrightarrow> (\<forall>(k, x)\<in>set kxs. CHR 0x00 \<notin> set k \<and> scalar_ok x)"

abbreviation members_act :: "(nat list \<times> json) list \<Rightarrow> json_state \<Rightarrow> json_state option" where
  "members_act \<equiv> run_acts (\<lambda>(w, j) s. pair_act (json_act j) w s)"

text \<open>The texts that the table holds.\<close>

definition texts :: "form_table \<Rightarrow> string \<Rightarrow> string option" where
  "texts tab name = (case get_item name tab of Some (Some ls) \<Rightarrow> Some (pair_text ls) | _ \<Rightarrow> None)"

lemma texts_set_item:
  assumes "form_ok tab"
  shows "\<exists>tab'. set_item k ls tab = Some tab' \<and> form_ok tab' \<and> texts tab' = (texts tab)(k \<mapsto> pair_text ls)"
proof -
  from form.put_ok [OF assms] obtain tab' where t: "set_item k ls tab = Some tab'" "form_ok tab'" by blast
  have "texts tab' j = ((texts tab)(k \<mapsto> pair_text ls)) j" for j
    using form.look_put [OF assms t(1), of j] by (simp add: texts_def)
  with t show ?thesis by blast
qed

lemma texts_empty: "texts empty_form = Map.empty"
  by (simp add: texts_def fun_eq_iff empty_form_ok)

lemma member_act:
  assumes "CHR 0x00 \<notin> set k" and "scalar_ok x" and "form_ok tab"
  shows "\<exists>ls tab'. pair_act (json_act (scalar_json x)) (json_quoted k) (key, v, tab) = Some (k, Some ls, tab') \<and>
    pair_text ls = scalar_text x \<and> form_ok tab' \<and> texts tab' = (texts tab)(k \<mapsto> scalar_text x)"
proof -
  obtain ls where ls: "\<And>s. json_act (scalar_json x) s = Some (fst s, Some ls, snd (snd s))" "pair_text ls = scalar_text x"
    using scalar_act [OF assms(2)] by metis
  from texts_set_item [OF assms(3), of k ls] obtain tab' where
    "set_item k ls tab = Some tab'" "form_ok tab'" "texts tab' = (texts tab)(k \<mapsto> pair_text ls)" by blast
  with ls string_quoted [OF assms(1)] show ?thesis by (simp add: pair_act_def)
qed

text \<open>The names and the value that a series of members leaves behind; the last member decides.\<close>

lemma members_results:
  assumes "members_ok kxs" and "form_ok tab"
  shows "\<exists>key' v' tab'. members_act (map member kxs) (key, v, tab) = Some (key', v', tab') \<and> form_ok tab' \<and>
    texts tab' = texts tab ++ map_of (rev (map (\<lambda>(k, x). (k, scalar_text x)) kxs)) \<and>
    (kxs = [] \<longrightarrow> key' = key \<and> v' = v) \<and>
    (kxs \<noteq> [] \<longrightarrow> key' = fst (last kxs) \<and> map_option pair_text v' = Some (scalar_text (snd (last kxs))))"
  using assms
proof (induction kxs arbitrary: key v tab)
  case (Cons kx kxs)
  obtain k x where kx: "kx = (k, x)" by (cases kx)
  with Cons.prems have ok: "CHR 0x00 \<notin> set k" "scalar_ok x" "members_ok kxs" by (auto simp: members_ok_def)
  from member_act [OF ok(1,2) Cons.prems(2), of key v] obtain ls tab1 where
    m: "pair_act (json_act (scalar_json x)) (json_quoted k) (key, v, tab) = Some (k, Some ls, tab1)" "pair_text ls = scalar_text x"
      "form_ok tab1" "texts tab1 = (texts tab)(k \<mapsto> scalar_text x)" by blast
  from Cons.IH [OF ok(3) m(3), of k "Some ls"] obtain key' v' tab' where
    r: "members_act (map member kxs) (k, Some ls, tab1) = Some (key', v', tab')" "form_ok tab'"
      "texts tab' = texts tab1 ++ map_of (rev (map (\<lambda>(k, x). (k, scalar_text x)) kxs))"
      "kxs = [] \<longrightarrow> key' = k \<and> v' = Some ls"
      "kxs \<noteq> [] \<longrightarrow> key' = fst (last kxs) \<and> map_option pair_text v' = Some (scalar_text (snd (last kxs)))" by blast
  have "members_act (map member (kx # kxs)) (key, v, tab) = Some (key', v', tab')"
    using m(1) r(1) by (simp add: member_def kx)
  moreover have "texts tab' = texts tab ++ map_of (rev (map (\<lambda>(k, x). (k, scalar_text x)) (kx # kxs)))"
    using r(3) m(4) kx by simp
  moreover have "key' = fst (last (kx # kxs)) \<and> map_option pair_text v' = Some (scalar_text (snd (last (kx # kxs))))"
    using r(4,5) m(2) kx by (cases "kxs = []") auto
  ultimately show ?case using r(2) by blast
qed simp

lemma flat_object_read:
  assumes "members_ok kxs" and "form_ok tab" and "scan buf n = json_toks (JObject (map member kxs))"
  shows "\<exists>tab'. read_jsonrequest scan key buf n tab = Some (tab', 0) \<and> form_ok tab' \<and>
    texts tab' = texts tab ++ map_of (rev (map (\<lambda>(k, x). (k, scalar_text x)) kxs))"
proof -
  have "json_text (JObject (map member kxs))" by (simp add: json_text_def)
  from json_parse_results(1) [OF this, of key tab] members_results [OF assms(1,2), of key None] assms(3)
  show ?thesis by (auto simp: read_jsonrequest_def)
qed

text \<open>The reader for a request with a JSON body: the buffer holds the blocks and is filled with nulls.\<close>

definition body_buffer :: "nat \<Rightarrow> client_body \<Rightarrow> string" where
  "body_buffer n b =
     take n (concat (client_blocks b)) @ replicate (Suc n - length (take n (concat (client_blocks b)))) (CHR 0x00)"

lemma json_body_read:
  assumes "choose_reader ct = Some Jsonrequest" and "setup_rc b = HTTP_OK" and "should_block b" and "[] \<notin> set (client_blocks b)"
    and "remaining b = int n" and "members_ok kxs" and "form_ok tab"
    and "scan (body_buffer n b) (int (length (take n (concat (client_blocks b))))) = json_toks (JObject (map member kxs))"
  shows "\<exists>tab'. http_get_form_data gw un (read_jsonrequest scan key) M_POST ct b tab = Some (HTTP_OK, tab') \<and> form_ok tab' \<and>
    texts tab' = texts tab ++ map_of (rev (map (\<lambda>(k, x). (k, scalar_text x)) kxs))"
proof -
  obtain tab' where "read_jsonrequest scan key (body_buffer n b) (int (length (take n (concat (client_blocks b))))) tab = Some (tab', 0)"
      "form_ok tab'" "texts tab' = texts tab ++ map_of (rev (map (\<lambda>(k, x). (k, scalar_text x)) kxs))"
    using flat_object_read [where scan = scan and buf = "body_buffer n b" and key = key, OF assms(6-8)] by blast
  with util_read_ok [OF assms(4), of n] assms(1-3,5) show ?thesis
    by (auto simp: http_get_form_data_def read_body_def body_buffer_def)
qed


subsection \<open>Null and nested objects\<close>

lemma run_acts_append: "run_acts f (xs @ ys) s = run_acts f xs s \<bind> run_acts f ys"
  by (induction xs arbitrary: s) (simp_all add: bind_assoc split: Option.bind_split)

lemma read_text:
  assumes "json_text j" and "scan buf n = json_toks j"
  shows "read_jsonrequest scan key buf n tab = map_option (\<lambda>s. (snd (snd s), 0)) (json_act j (key, None, tab))"
  using json_parse_results(1) [OF assms(1), of key tab] assms(2) by (simp add: read_jsonrequest_def)

lemma object_text [simp]: "json_text (JObject ps)" and array_text [simp]: "json_text (JArray js)"
  by (simp_all add: json_text_def)

lemma null_member_crashes:
  assumes "members_ok kxs" and "form_ok tab" and "scan buf n = json_toks (JObject (map member kxs @ (w, JNull) # others))"
  shows "read_jsonrequest scan key buf n tab = None"
proof -
  obtain key' v' tab' where "members_act (map member kxs) (key, None, tab) = Some (key', v', tab')"
    using members_results [OF assms(1,2), of key None] by blast
  then have "json_act (JObject (map member kxs @ (w, JNull) # others)) (key, None, tab) = None"
    by (simp add: run_acts_append pair_act_def split: Option.bind_split)
  then show ?thesis using read_text [where scan = scan and buf = buf, OF object_text assms(3)] by simp
qed

lemma pair_act_some:
  "JSON_string w = Some k \<Longrightarrow> f (k, snd s) = Some (key, Some ls, t) \<Longrightarrow> set_item key ls t = Some t' \<Longrightarrow>
   pair_act f w s = Some (key, Some ls, t')"
  by (simp add: pair_act_def)

text \<open>The names of the members of a nested object replace its own name, which the form never gets.\<close>

lemma nested_object_flattened:
  assumes "members_ok kxs" and "members_ok inner" and "members_ok others" and "inner \<noteq> []" and "CHR 0x00 \<notin> set k"
    and "form_ok tab"
    and "scan buf n = json_toks (JObject (map member kxs @ (json_quoted k, JObject (map member inner)) # map member others))"
  shows "\<exists>tab'. read_jsonrequest scan key buf n tab = Some (tab', 0) \<and>
    texts tab' = texts tab ++ map_of (rev (map (\<lambda>(k, x). (k, scalar_text x)) (kxs @ inner @ others)))"
proof -
  let ?m = "\<lambda>kxs. map_of (rev (map (\<lambda>(k, x). (k, scalar_text x)) kxs))"
  obtain key1 v1 tab1 where r1: "members_act (map member kxs) (key, None, tab) = Some (key1, v1, tab1)" "form_ok tab1"
      "texts tab1 = texts tab ++ ?m kxs"
    using members_results [OF assms(1,6), of key None] by blast
  obtain key2 v2 tab2 where r2: "members_act (map member inner) (k, v1, tab1) = Some (key2, v2, tab2)" "form_ok tab2"
      "texts tab2 = texts tab1 ++ ?m inner" "key2 = fst (last inner)" "map_option pair_text v2 = Some (scalar_text (snd (last inner)))"
    using members_results [OF assms(2) r1(2), of k v1] assms(4) by blast
  obtain ls where ls: "v2 = Some ls" "pair_text ls = scalar_text (snd (last inner))" using r2(5) by auto
  obtain tab3 where t3: "set_item key2 ls tab2 = Some tab3" "form_ok tab3" "texts tab3 = (texts tab2)(key2 \<mapsto> pair_text ls)"
    using texts_set_item [OF r2(2), of key2 ls] by blast
  have "pair_act (json_act (JObject (map member inner))) (json_quoted k) (key1, v1, tab1) = Some (key2, v2, tab3)"
    unfolding ls(1) by (rule pair_act_some [OF string_quoted [OF assms(5)] _ t3(1)]) (use r2(1) ls(1) in simp)
  moreover obtain key4 v4 tab4 where r4: "members_act (map member others) (key2, v2, tab3) = Some (key4, v4, tab4)"
      "texts tab4 = texts tab3 ++ ?m others"
    using members_results [OF assms(3) t3(2), of key2 v2] by blast
  ultimately have "json_act (JObject (map member kxs @ (json_quoted k, JObject (map member inner)) # map member others)) (key, None, tab) =
      Some (key4, v4, tab4)"
    using r1(1) by (simp add: run_acts_append)
  then have "read_jsonrequest scan key buf n tab = Some (tab4, 0)"
    using read_text [where scan = scan and buf = buf, OF object_text assms(7)] by simp
  moreover have "?m inner key2 = Some (pair_text ls)"
  proof -
    have "inner = butlast inner @ [last inner]" using assms(4) by simp
    then have "?m inner = ?m (butlast inner @ [last inner])" by simp
    then show ?thesis using r2(4) ls(2) by (cases "last inner") simp
  qed
  then have "texts tab3 = texts tab2" using t3(3) r2(3) by (auto simp: map_add_def)
  ultimately show ?thesis using r1(3) r2(3) r4(2) by (simp add: map_add_assoc)
qed

text \<open>An empty object leaves no value of its own: as the first member it crashes, later it repeats the value before it.\<close>

lemma empty_object_crashes:
  assumes "CHR 0x00 \<notin> set k" and "scan buf n = json_toks (JObject ((json_quoted k, JObject []) # others))"
  shows "read_jsonrequest scan key buf n tab = None"
  unfolding read_text [where scan = scan and buf = buf, OF object_text assms(2)] by (simp add: pair_act_def string_quoted assms(1))

subsection \<open>The accepted texts\<close>

text \<open>What the scanner delivers before the end: a literal token has the text of its literal.\<close>

definition json_tokens :: "json_kind token list \<Rightarrow> bool" where
  "json_tokens toks \<longleftrightarrow>
     (\<forall>tk\<in>set toks. case kind tk of None \<Rightarrow> False | Some (J_key s) \<Rightarrow> tk = jk s | _ \<Rightarrow> True)"

lemma json_tokens_append: "json_tokens (s @ t) \<longleftrightarrow> json_tokens s \<and> json_tokens t"
  by (auto simp: json_tokens_def)

text \<open>From \<open>p\<close> to \<open>q\<close> the parser reports an error or reads a text of the language.\<close>

definition reads :: "json_kind token list set \<Rightarrow> json_parser \<Rightarrow> json_parser \<Rightarrow> bool" where
  "reads S p q \<longleftrightarrow>
     (errors_counted p \<longrightarrow> errors_counted q \<and> (err_count q = 0 \<longrightarrow> err_count p = 0) \<and>
        (err_count q = 0 \<and> json_tokens (input p) \<longrightarrow> (\<exists>ts\<in>S. input p = ts @ input q)))"

definition then_text :: "json_kind token list set \<Rightarrow> json_kind token list set \<Rightarrow> json_kind token list set" where
  "then_text S T = {s @ t |s t. s \<in> S \<and> t \<in> T}"

lemma reads_mono: "reads S p q \<Longrightarrow> S \<subseteq> T \<Longrightarrow> reads T p q"
  unfolding reads_def by blast

lemma reads_seq:
  assumes "reads S p q" and "reads T q r"
  shows "reads (then_text S T) p r"
proof -
  have "\<exists>ts\<in>then_text S T. input p = ts @ input r"
    if e: "errors_counted p" "err_count r = 0" "json_tokens (input p)"
  proof -
    from assms e have q: "errors_counted q" "err_count q = 0" by (auto simp: reads_def)
    with assms(1) e obtain ts where ts: "ts \<in> S" "input p = ts @ input q" by (auto simp: reads_def)
    with e(3) have "json_tokens (input q)" by (simp add: json_tokens_append)
    with assms(2) q e(2) obtain us where "us \<in> T" "input q = us @ input r" by (auto simp: reads_def)
    with ts show ?thesis unfolding then_text_def by force
  qed
  with assms show ?thesis by (simp add: reads_def)
qed

lemma reads_nothing: "reads {[]} p p"
  by (simp add: reads_def)

lemma reads_error: "reads S p (SynErr p)"
  using count_error_nonzero [of p] by (auto simp: reads_def SynErr_def)

lemma reads_Get:
  assumes "la_kind p = Some k" and "\<And>tk. kind tk = Some k \<Longrightarrow> json_tokens [tk] \<Longrightarrow> [tk] \<in> S"
  shows "reads S p (Get p)"
proof (cases "input p")
  case Nil
  with assms(1) show ?thesis by (simp add: la_def)
next
  case (Cons tk ts)
  then show ?thesis using assms(2) [of tk] assms(1) json_tokens_append [of "[tk]" ts] by (auto simp: reads_def la_input)
qed

lemma key_token: "kind tk = Some (J_key s) \<Longrightarrow> json_tokens [tk] \<Longrightarrow> [tk] \<in> {[jk s]}"
  by (simp add: json_tokens_def)

lemma reads_Expect: "reads {[jk s]} p (Expect (Some (J_key s)) p)"
  using reads_Get [OF _ key_token] reads_error by (simp add: Expect_def)

lemma reads_fields: "reads S p q \<Longrightarrow> input q' = input q \<Longrightarrow> err_count q' = err_count q \<Longrightarrow> err_dist q' = err_dist q \<Longrightarrow> reads S p q'"
  by (simp add: reads_def errors_counted_def)

fun json_texts :: "json_production \<Rightarrow> json_kind token list set" where
  "json_texts P_object = range (\<lambda>ps. json_toks (JObject ps))"
| "json_texts P_pairs = range (\<lambda>ps. concat (map (\<lambda>y. jk '','' # pair_toks y) ps))"
| "json_texts P_pair = range pair_toks"
| "json_texts P_array = range (\<lambda>js. json_toks (JArray js))"
| "json_texts P_values = range (\<lambda>js. concat (map (\<lambda>j. jk '','' # json_toks j) js))"
| "json_texts P_value = range json_toks"

lemma object_closed:
  "then_text {[jk ''{'']} (then_text {[]} {[jk ''}'']}) \<subseteq> json_texts P_object"
  "then_text {[jk ''{'']} (then_text (then_text (json_texts P_pair) (json_texts P_pairs)) {[jk ''}'']}) \<subseteq> json_texts P_object"
proof -
  have "json_toks (JObject []) = [jk ''{'', jk ''}'']" by simp
  then show "then_text {[jk ''{'']} (then_text {[]} {[jk ''}'']}) \<subseteq> json_texts P_object"
    unfolding then_text_def by (auto intro: range_eqI [of _ _ "[]"])
  have "jk ''{'' # (pair_toks y @ concat (map (\<lambda>y. jk '','' # pair_toks y) ps)) @ [jk ''}''] = json_toks (JObject (y # ps))" for y ps
    by simp
  then show "then_text {[jk ''{'']} (then_text (then_text (json_texts P_pair) (json_texts P_pairs)) {[jk ''}'']}) \<subseteq> json_texts P_object"
    unfolding then_text_def by (fastforce simp del: json_toks.simps pair_toks.simps)
qed

lemma array_closed:
  "then_text {[jk ''['']} (then_text {[]} {[jk '']'']}) \<subseteq> json_texts P_array"
  "then_text {[jk ''['']} (then_text (then_text (json_texts P_value) (json_texts P_values)) {[jk '']'']}) \<subseteq> json_texts P_array"
proof -
  have "json_toks (JArray []) = [jk ''['', jk '']'']" by simp
  then show "then_text {[jk ''['']} (then_text {[]} {[jk '']'']}) \<subseteq> json_texts P_array"
    unfolding then_text_def by (auto intro: range_eqI [of _ _ "[]"])
  have "jk ''['' # (json_toks j @ concat (map (\<lambda>j. jk '','' # json_toks j) js)) @ [jk '']''] = json_toks (JArray (j # js))" for j js
    by simp
  then show "then_text {[jk ''['']} (then_text (then_text (json_texts P_value) (json_texts P_values)) {[jk '']'']}) \<subseteq> json_texts P_array"
    unfolding then_text_def by (fastforce simp del: json_toks.simps pair_toks.simps)
qed

lemma repetitions_closed:
  "then_text {[jk '','']} (then_text (json_texts P_pair) (json_texts P_pairs)) \<subseteq> json_texts P_pairs"
  "then_text {[jk '','']} (then_text (json_texts P_value) (json_texts P_values)) \<subseteq> json_texts P_values"
proof -
  have "jk '','' # pair_toks y @ concat (map (\<lambda>y. jk '','' # pair_toks y) ps) = concat (map (\<lambda>y. jk '','' # pair_toks y) (y # ps))" for y ps
    by simp
  then show "then_text {[jk '','']} (then_text (json_texts P_pair) (json_texts P_pairs)) \<subseteq> json_texts P_pairs"
    unfolding then_text_def by (fastforce simp del: json_toks.simps pair_toks.simps concat.simps list.map)
  have "jk '','' # json_toks j @ concat (map (\<lambda>y. jk '','' # json_toks y) js) = concat (map (\<lambda>y. jk '','' # json_toks y) (j # js))" for j js
    by simp
  then show "then_text {[jk '','']} (then_text (json_texts P_value) (json_texts P_values)) \<subseteq> json_texts P_values"
    unfolding then_text_def by (fastforce simp del: json_toks.simps pair_toks.simps concat.simps list.map)
qed

lemma pair_closed: "then_text (range (\<lambda>w. [jstr w])) (then_text {[jk '':'']} (json_texts P_value)) \<subseteq> json_texts P_pair"
proof -
  have "jstr w # jk '':'' # json_toks j = pair_toks (w, j)" for w j by simp
  then show ?thesis unfolding then_text_def by (fastforce simp del: json_toks.simps pair_toks.simps)
qed

lemma value_closed:
  "range (\<lambda>w. [jstr w]) \<subseteq> json_texts P_value" "range (\<lambda>w. [\<lparr>kind = Some J_number, val = w\<rparr>]) \<subseteq> json_texts P_value"
  "{[jk ''true'']} \<subseteq> json_texts P_value" "{[jk ''false'']} \<subseteq> json_texts P_value" "{[jk ''null'']} \<subseteq> json_texts P_value"
  "json_texts P_object \<subseteq> json_texts P_value" "json_texts P_array \<subseteq> json_texts P_value"
  using json_toks.simps(1-5) by (auto simp del: json_toks.simps simp: image_iff) (metis json_toks.simps)+


lemma string_token: "kind tk = Some J_string \<Longrightarrow> json_tokens [tk] \<Longrightarrow> [tk] \<in> range (\<lambda>w. [jstr w])"
  by (cases tk) (auto simp: jstr_def)

lemma number_token: "kind tk = Some J_number \<Longrightarrow> json_tokens [tk] \<Longrightarrow> [tk] \<in> range (\<lambda>w. [\<lparr>kind = Some J_number, val = w\<rparr>])"
  by (cases tk) auto

lemma reads_set_blob: "set_blob p' = Some q \<Longrightarrow> reads S p p' \<Longrightarrow> reads S p q"
  by (auto simp: set_blob_def intro: reads_fields)

lemma reads_store: "store_item p' = Some q \<Longrightarrow> reads S p p' \<Longrightarrow> reads S p q"
  by (auto simp: store_item_def bind_eq_Some_conv intro: reads_fields)

text \<open>The three shapes of a production: a list in brackets, the rest of a list, a single token.\<close>

lemma bracketed_reads:
  assumes "(let p1 = Expect (Some (J_key l)) p in
      do { p2 \<leftarrow> (if starts p1 then do { q \<leftarrow> item p1; items q } else Some p1); Some (Expect (Some (J_key r)) p2) }) = Some q"
    and item: "\<And>p q. item p = Some q \<Longrightarrow> reads S p q" and items: "\<And>p q. items p = Some q \<Longrightarrow> reads T p q"
    and "then_text {[jk l]} (then_text {[]} {[jk r]}) \<subseteq> U" and "then_text {[jk l]} (then_text (then_text S T) {[jk r]}) \<subseteq> U"
  shows "reads U p q"
proof (cases "starts (Expect (Some (J_key l)) p)")
  case True
  with assms(1) obtain p2 p3 where s: "item (Expect (Some (J_key l)) p) = Some p2" "items p2 = Some p3" "q = Expect (Some (J_key r)) p3"
    by (auto simp: Let_def bind_eq_Some_conv)
  have "reads (then_text {[jk l]} (then_text (then_text S T) {[jk r]})) p q"
    unfolding s(3) by (rule reads_seq [OF reads_Expect reads_seq [OF reads_seq [OF item [OF s(1)] items [OF s(2)]] reads_Expect]])
  then show ?thesis by (rule reads_mono) (rule assms(5))
next
  case False
  with assms(1) have q: "q = Expect (Some (J_key r)) (Expect (Some (J_key l)) p)" by (simp add: Let_def)
  have "reads (then_text {[jk l]} (then_text {[]} {[jk r]})) p q"
    unfolding q by (rule reads_seq [OF reads_Expect reads_seq [OF reads_nothing reads_Expect]])
  then show ?thesis by (rule reads_mono) (rule assms(4))
qed

lemma separated_reads:
  assumes "(if la_kind p = Some (J_key s) then do { q \<leftarrow> item (Get p); items q } else Some p) = Some q"
    and item: "\<And>p q. item p = Some q \<Longrightarrow> reads S p q" and items: "\<And>p q. items p = Some q \<Longrightarrow> reads T p q"
    and "then_text {[jk s]} (then_text S T) \<subseteq> T" and "[] \<in> T"
  shows "reads T p q"
proof (cases "la_kind p = Some (J_key s)")
  case True
  with assms(1) obtain p2 where s: "item (Get p) = Some p2" "items p2 = Some q" by (auto simp: bind_eq_Some_conv)
  have "reads (then_text {[jk s]} (then_text S T)) p q"
    by (rule reads_seq [OF reads_Get [OF True key_token] reads_seq [OF item [OF s(1)] items [OF s(2)]]])
  then show ?thesis by (rule reads_mono) (rule assms(4))
next
  case False
  with assms(1,5) show ?thesis by (auto intro: reads_mono [OF reads_nothing])
qed

lemma blob_reads:
  assumes "set_blob (Get p) = Some q" and "la_kind p = Some k" and "\<And>tk. kind tk = Some k \<Longrightarrow> json_tokens [tk] \<Longrightarrow> [tk] \<in> S"
    and "S \<subseteq> json_texts P_value"
  shows "reads (json_texts P_value) p q"
  by (rule reads_set_blob [OF assms(1)]) (rule reads_mono [OF reads_Get [OF assms(2,3)] assms(4)])

lemma pair_reads:
  assumes "(let p1 = Expect (Some J_string) p in
      do { k \<leftarrow> JSON_string (val (last_token p1)); q \<leftarrow> value_of (Expect (Some (J_key '':'')) (p1\<lparr>json_key := k\<rparr>)); store_item q }) = Some q"
    and "\<And>p q. value_of p = Some q \<Longrightarrow> reads (json_texts P_value) p q"
  shows "reads (json_texts P_pair) p q"
proof -
  let ?p1 = "Expect (Some J_string) p"
  from assms(1) obtain k p2 where s: "value_of (Expect (Some (J_key '':'')) (?p1\<lparr>json_key := k\<rparr>)) = Some p2" "store_item p2 = Some q"
    by (auto simp: Let_def bind_eq_Some_conv)
  have "reads (range (\<lambda>w. [jstr w])) p ?p1"
    using reads_Get [OF _ string_token] reads_error by (simp add: Expect_def)
  then have "reads (range (\<lambda>w. [jstr w])) p (?p1\<lparr>json_key := k\<rparr>)" by (rule reads_fields) simp_all
  then have "reads (then_text (range (\<lambda>w. [jstr w])) (then_text {[jk '':'']} (json_texts P_value))) p p2"
    by (rule reads_seq) (rule reads_seq [OF reads_Expect assms(2) [OF s(1)]])
  then have "reads (json_texts P_pair) p p2" by (rule reads_mono) (rule pair_closed)
  then show ?thesis by (rule reads_store [OF s(2)])
qed

lemma value_reads:
  assumes "(if la_kind p = Some J_string then set_blob (Get p)
       else if la_kind p = Some J_number then set_blob (Get p)
       else if la_kind p = Some (J_key ''{'') then object p
       else if la_kind p = Some (J_key ''['') then array p
       else if la_kind p = Some (J_key ''true'') then set_blob (Get p)
       else if la_kind p = Some (J_key ''false'') then set_blob (Get p)
       else if la_kind p = Some (J_key ''null'') then Some ((Get p)\<lparr>json_val := None\<rparr>)
       else Some (SynErr p)) = Some q"
    and "\<And>p q. object p = Some q \<Longrightarrow> reads (json_texts P_object) p q" and "\<And>p q. array p = Some q \<Longrightarrow> reads (json_texts P_array) p q"
  shows "reads (json_texts P_value) p q"
proof -
  have "reads (json_texts P_value) p (Get p)" if "la_kind p = Some (J_key ''null'')"
    by (rule reads_mono [OF reads_Get [OF that key_token] value_closed(5)])
  then have "reads (json_texts P_value) p ((Get p)\<lparr>json_val := None\<rparr>)" if "la_kind p = Some (J_key ''null'')"
    using that by (auto intro: reads_fields)
  moreover note blob_reads [OF _ _ string_token value_closed(1)] blob_reads [OF _ _ number_token value_closed(2)]
    blob_reads [OF _ _ key_token value_closed(3)] blob_reads [OF _ _ key_token value_closed(4)]
    reads_mono [OF assms(2) value_closed(6)] reads_mono [OF assms(3) value_closed(7)]
  moreover have "SynErr p = q \<Longrightarrow> reads (json_texts P_value) p q" using reads_error by blast
  ultimately show ?thesis using assms(1) by (simp split: if_splits del: json_texts.simps)
qed

lemma json_run_reads:
  assumes "json_run pr p = Some q"
  shows "reads (json_texts pr) p q"
proof (rule json_run.raw_induct [OF _ assms, where P = "\<lambda>pr p q. reads (json_texts pr) p q"], goal_cases)
  case (1 json_run pr p q)
  note IH = 1(1) and run = 1(2)
  have nil: "[] \<in> json_texts P_pairs" "[] \<in> json_texts P_values" by (auto intro: range_eqI [of _ _ "[]"])
  show ?case
  proof (cases pr)
    case P_object
    show ?thesis unfolding P_object
      by (rule bracketed_reads [OF run [unfolded P_object json_production.case] _ _ object_closed]) (erule IH)+
  next
    case P_pairs
    show ?thesis unfolding P_pairs
      by (rule separated_reads [where item = "json_run P_pair" and items = "json_run P_pairs", OF run [unfolded P_pairs json_production.case] _ _ repetitions_closed(1) nil(1)]) (erule IH)+
  next
    case P_pair
    show ?thesis unfolding P_pair by (rule pair_reads [OF run [unfolded P_pair json_production.case]]) (erule IH)
  next
    case P_array
    show ?thesis unfolding P_array
      by (rule bracketed_reads [OF run [unfolded P_array json_production.case] _ _ array_closed]) (erule IH)+
  next
    case P_values
    show ?thesis unfolding P_values
      by (rule separated_reads [where item = "json_run P_value" and items = "json_run P_values", OF run [unfolded P_values json_production.case] _ _ repetitions_closed(2) nil(2)]) (erule IH)+
  next
    case P_value
    show ?thesis unfolding P_value by (rule value_reads [where object = "json_run P_object" and array = "json_run P_array", OF run [unfolded P_value json_production.case]]) (erule IH)+
  qed
qed


lemma json_tokens_kind: "json_tokens toks \<Longrightarrow> input p = toks \<Longrightarrow> la_kind p = None \<longleftrightarrow> toks = []"
  by (cases toks) (auto simp: la_def json_tokens_def split: option.splits)

text \<open>The count of errors is zero exactly for the texts of the grammar, and then the reader has computed their meaning.\<close>

lemma json_accepted:
  assumes "json_tokens (scan buf n)" and "read_jsonrequest scan key buf n tab = Some (tab', errors)"
  shows "errors = 0 \<longleftrightarrow> (\<exists>j. json_text j \<and> scan buf n = json_toks j \<and>
    map_option (\<lambda>s. snd (snd s)) (json_act j (key, None, tab)) = Some tab')"
proof
  let ?p = "start_parser (scan buf n) \<lparr>json_key = key, json_val = None, json_form = tab\<rparr> :: json_parser"
  let ?S = "json_texts P_object \<union> json_texts P_array"
  assume e: "errors = 0"
  obtain q where q: "(if la_kind ?p = Some (J_key ''{'') then json_run P_object ?p
       else if la_kind ?p = Some (J_key ''['') then json_run P_array ?p else Some (SynErr ?p)) = Some q"
      "err_count (Expect None q) = 0"
    using assms(2) e by (auto simp: read_jsonrequest_def json_parse_def Let_def bind_eq_Some_conv)
  have r: "reads ?S ?p q"
    using q(1) reads_mono [OF json_run_reads, of P_object ?p q ?S] reads_mono [OF json_run_reads, of P_array ?p q ?S] reads_error [of ?S ?p]
    by (auto split: if_splits simp del: json_texts.simps)
  have s: "input ?p = scan buf n" "errors_counted ?p" by (rule start_parser_fields)+
  with r have c: "errors_counted q" by (simp add: reads_def)
  have k: "la_kind q = None" "err_count q = 0"
    using q(2) count_error_nonzero [OF c] by (auto simp: Expect_def SynErr_def split: if_splits)
  with r s assms(1) obtain ts where ts: "ts \<in> ?S" "scan buf n = ts @ input q" by (auto simp: reads_def)
  with assms(1) have "json_tokens (input q)" by (simp add: json_tokens_append)
  with k(1) have "input q = []" using json_tokens_kind by blast
  moreover have "\<exists>j. json_text j \<and> ts = json_toks j"
    using ts(1) object_text array_text unfolding json_texts.simps by blast
  ultimately obtain j where j: "json_text j" "scan buf n = json_toks j" using ts(2) by auto
  with assms(2) read_text [where scan = scan and buf = buf, OF j, of key tab] show
    "\<exists>j. json_text j \<and> scan buf n = json_toks j \<and> map_option (\<lambda>s. snd (snd s)) (json_act j (key, None, tab)) = Some tab'" by auto
next
  assume "\<exists>j. json_text j \<and> scan buf n = json_toks j \<and> map_option (\<lambda>s. snd (snd s)) (json_act j (key, None, tab)) = Some tab'"
  then obtain j where j: "json_text j" "scan buf n = json_toks j" by blast
  with assms(2) read_text [where scan = scan and buf = buf, OF j, of key tab] show "errors = 0" by auto
qed

end
