(* ===== verification/JSON_Scanner.thy ===== *)
theory JSON_Scanner
  imports Coco_Scanner JSON_Body_Correct
begin

text \<open>
  The scanner of JSON requests: the sections CHARACTERS, TOKENS and IGNORE of \<open>JSON/JSON.atg\<close>, and the reader from
  the bytes of the body. The lemmas: every value whose strings and numbers are words of their definitions, laid
  out with blanks anywhere between its tokens, is read as these tokens; so is an object of members, quoted as the
  module quotes them; and what ends the process.
\<close>

subsection \<open>The definitions of the grammar\<close>

definition json_control :: "nat \<Rightarrow> bool" where
  "json_control c \<longleftrightarrow> c \<le> 0x1F"

definition json_text_char :: "nat \<Rightarrow> bool" where
  "json_text_char c \<longleftrightarrow> c \<le> 65535 \<and> \<not> json_control c \<and> c \<noteq> 0x5C \<and> c \<noteq> 0x22"

definition json_digit :: "nat \<Rightarrow> bool" where
  "json_digit c \<longleftrightarrow> 0x31 \<le> c \<and> c \<le> 0x39"

definition json_dec :: "nat \<Rightarrow> bool" where
  "json_dec c \<longleftrightarrow> c = 0x30 \<or> json_digit c"

definition json_hex :: "nat \<Rightarrow> bool" where
  "json_hex c \<longleftrightarrow> json_dec c \<or> c \<in> set (wide ''ABCDEF'') \<or> c \<in> set (wide ''abcdef'')"

definition json_escapecode :: "nat \<Rightarrow> bool" where
  "json_escapecode c \<longleftrightarrow> c = 0x22 \<or> c = 0x5C \<or> c \<in> set (wide ''/bfnrt'')"

abbreviation R_this :: "char \<Rightarrow> rexp" where
  "R_this c \<equiv> R_char (\<lambda>x. x = of_char c)"

definition json_escape_rest :: rexp where
  "json_escape_rest =
     R_alt (R_char json_escapecode)
       (R_seq (R_this (CHR ''u'')) (R_seq (R_char json_hex) (R_seq (R_char json_hex) (R_seq (R_char json_hex) (R_char json_hex)))))"

definition json_string_rest :: rexp where
  "json_string_rest = R_seq (R_many (R_alt (R_char json_text_char) (R_seq (R_this (CHR 0x5C)) json_escape_rest))) (R_this (CHR 0x22))"

definition json_string :: rexp where
  "json_string = R_seq (R_this (CHR 0x22)) json_string_rest"

definition json_exponent :: rexp where
  "json_exponent =
     R_seq (R_alt (R_this (CHR ''e'')) (R_this (CHR ''E'')))
       (R_seq (R_option (R_alt (R_this (CHR ''+'')) (R_this (CHR ''-'')))) (R_seq (R_char json_dec) (R_many (R_char json_dec))))"

definition json_fraction :: rexp where
  "json_fraction = R_seq (R_this (CHR ''.'')) (R_seq (R_char json_dec) (R_many (R_char json_dec)))"

definition json_number :: rexp where
  "json_number =
     R_seq (R_option (R_this (CHR ''-'')))
       (R_seq (R_alt (R_this (CHR ''0'')) (R_seq (R_char json_digit) (R_many (R_char json_dec))))
         (R_seq (R_option json_fraction) (R_option json_exponent)))"

definition json_literals :: "string list" where
  "json_literals = [''{'', '','', ''}'', '':'', ''['', '']'', ''true'', ''false'', ''null'']"

definition json_spec :: "json_kind scanner_spec" where
  "json_spec =
     \<lparr>token_defs = (J_string, json_string) # (J_number, json_number) # map (\<lambda>s. (J_key s, R_literal s)) json_literals,
      no_sym = J_unknown, ignored = (\<lambda>c. c = 13 \<or> c = 9 \<or> c = 10)\<rparr>"

subsection \<open>The reader from the bytes of a body\<close>

text \<open>\<open>None\<close> is the end of the process in \<open>Init\<close>, and \<open>True\<close> says that the token behind the last one ends it.\<close>

definition json_scan :: "string \<Rightarrow> int \<Rightarrow> (json_kind token list \<times> bool) option" where
  "json_scan databuffer len = map_option (scan_tokens json_spec) (start_chars (map of_char (take (nat len) databuffer)))"

definition read_json_body :: "string \<Rightarrow> string \<Rightarrow> int \<Rightarrow> form_table \<Rightarrow> (form_table \<times> nat) option" where
  "read_json_body key databuffer len tab =
     do { (toks, ends) \<leftarrow> json_scan databuffer len;
          q \<leftarrow> json_parse key toks tab;
          if ends \<and> input q = [] then None else Some (json_form q, err_count q) }"

subsection \<open>Words of the definitions\<close>

lemma after_literal:
  "after_char c (R_literal []) = R_none"
  "after_char c (R_literal (a # s)) = (if c = of_char a then R_literal s else R_none)"
  by (simp_all add: R_literal_def)

lemma word_literal: "word_of (R_literal s) w \<longleftrightarrow> w = wide s"
  by (induction s arbitrary: w) (auto simp: R_literal_def wide_def word_seq)

definition many_text :: rexp where
  "many_text = R_many (R_alt (R_char json_text_char) (R_seq (R_this (CHR 0x5C)) json_escape_rest))"

fun hex_left :: "nat \<Rightarrow> rexp" where
  "hex_left 0 = R_char json_hex"
| "hex_left (Suc n) = R_seq (R_char json_hex) (hex_left n)"

definition text_after :: "rexp \<Rightarrow> rexp" where
  "text_after r = R_seq (R_seq r many_text) (R_this (CHR 0x22))"

definition string_state :: "rexp \<Rightarrow> bool" where
  "string_state r \<longleftrightarrow> r = json_string_rest \<or> r = text_after json_escape_rest \<or> (\<exists>n. r = text_after (hex_left n))"

lemma rest_step:
  "after_char c json_string_rest =
     (if c = 0x22 then R_empty else if c = 0x5C then text_after json_escape_rest
      else if json_text_char c then json_string_rest else R_none)"
  by (auto simp: json_string_rest_def text_after_def many_text_def json_text_char_def json_escape_rest_def)

lemma escape_step:
  "after_char c (text_after json_escape_rest) =
     (if json_escapecode c then json_string_rest else if c = 0x75 then text_after (hex_left 3) else R_none)"
  by (auto simp: json_string_rest_def text_after_def many_text_def json_escape_rest_def json_escapecode_def wide_def numeral_3_eq_3)

lemma hex_step:
  "after_char c (text_after (hex_left n)) =
     (if json_hex c then case n of 0 \<Rightarrow> json_string_rest | Suc m \<Rightarrow> text_after (hex_left m) else R_none)"
  by (cases n; cases "n - 1") (auto simp: json_string_rest_def text_after_def many_text_def)

lemma string_state_step: "string_state r \<Longrightarrow> string_state (after_char c r) \<or> after_char c r \<in> {R_none, R_empty}"
  unfolding string_state_def by (elim disjE exE) (auto simp: rest_step escape_step hex_step split: nat.split)

lemma string_state_not_nullable: "string_state r \<Longrightarrow> \<not> nullable r"
  by (auto simp: string_state_def json_string_rest_def text_after_def)

lemma string_state_word: "string_state r \<Longrightarrow> word_of r w \<Longrightarrow> after_word w r = R_empty"
proof (induction w arbitrary: r)
  case Nil
  then show ?case using string_state_not_nullable nullable_word by blast
next
  case (Cons c w)
  then have w: "word_of (after_char c r) w" by (simp add: word_after)
  show ?case
  proof (cases "string_state (after_char c r)")
    case True
    with Cons.IH w show ?thesis by simp
  next
    case False
    with string_state_step [OF Cons.prems(1), of c] w show ?thesis by auto
  qed
qed

lemma string_first: "after_char c json_string = (if c = 0x22 then json_string_rest else R_none)"
  by (auto simp: json_string_def json_string_rest_def)

lemma string_word: "word_of json_string w \<Longrightarrow> after_word w json_string = R_empty \<and> (\<exists>w'. w = 0x22 # w')"
proof (cases w)
  case Nil
  then show "word_of json_string w \<Longrightarrow> ?thesis" using nullable_word [of json_string] by (simp add: json_string_def)
next
  case (Cons c w')
  assume "word_of json_string w"
  then have "word_of (after_char c json_string) w'" by (simp add: word_after Cons)
  then have "c = 0x22" "word_of json_string_rest w'" by (auto simp: string_first split: if_splits)
  then show ?thesis using string_state_word [of json_string_rest w'] Cons by (simp add: string_first string_state_def)
qed

text \<open>What is left of a number.\<close>

definition decs :: rexp where "decs = R_many (R_char json_dec)"

definition exponent_rest :: rexp where
  "exponent_rest = R_seq (R_option (R_alt (R_this (CHR ''+'')) (R_this (CHR ''-'')))) (R_seq (R_char json_dec) decs)"

definition number_tail :: rexp where
  "number_tail = R_seq (R_option json_fraction) (R_option json_exponent)"

definition unsigned_number :: rexp where
  "unsigned_number = R_seq (R_alt (R_this (CHR ''0'')) (R_seq (R_char json_digit) decs)) number_tail"

definition number_states :: "rexp list" where
  "number_states =
     [json_number, unsigned_number, number_tail, R_seq decs number_tail,
      R_seq (R_seq (R_char json_dec) decs) (R_option json_exponent), R_seq decs (R_option json_exponent),
      exponent_rest, R_seq (R_char json_dec) decs, decs]"

definition number_char :: "nat \<Rightarrow> bool" where
  "number_char c \<longleftrightarrow> json_dec c \<or> c \<in> set (wide ''.eE'')"

lemmas number_defs = json_number_def unsigned_number_def number_tail_def exponent_rest_def decs_def json_fraction_def
  json_exponent_def R_option_def

text \<open>The kinds of characters that a number tells apart.\<close>

lemma number_char_cases:
  obtains (sign) "c = 0x2D \<or> c = 0x2B" "\<not> json_dec c" "\<not> json_digit c"
    | (point) "c = 0x2E" "\<not> json_dec c" "\<not> json_digit c"
    | (exponent) "c = 0x65 \<or> c = 0x45" "\<not> json_dec c" "\<not> json_digit c"
    | (zero) "c = 0x30" "json_dec c" "\<not> json_digit c"
    | (nonzero) "json_dec c" "json_digit c" "c \<noteq> 0x2D" "c \<noteq> 0x2B" "c \<noteq> 0x2E" "c \<noteq> 0x65" "c \<noteq> 0x45" "c \<noteq> 0x30"
    | (other) "\<not> json_dec c" "\<not> json_digit c" "c \<noteq> 0x2D" "c \<noteq> 0x2B" "c \<noteq> 0x2E" "c \<noteq> 0x65" "c \<noteq> 0x45" "c \<noteq> 0x30"
proof -
  have d: "json_dec c \<longleftrightarrow> c = 0x30 \<or> json_digit c" "json_digit c \<Longrightarrow> 0x31 \<le> c \<and> c \<le> 0x39"
    by (auto simp: json_dec_def json_digit_def)
  show thesis
  proof (cases "json_digit c")
    case True
    with d show thesis by (intro nonzero) auto
  next
    case False
    with d(1) have "json_dec c \<longleftrightarrow> c = 0x30" by simp
    with False sign point exponent zero other show thesis
      by (cases "c \<in> {0x2D, 0x2B, 0x2E, 0x65, 0x45, 0x30}") auto
  qed
qed

lemma number_step: "r \<in> set number_states \<Longrightarrow> after_char c r \<in> insert R_none (set number_states)"
  by (cases rule: number_char_cases [of c]) (auto simp: number_states_def number_defs)

lemma number_stops: "r \<in> set number_states \<Longrightarrow> nullable r \<Longrightarrow> \<not> number_char c \<Longrightarrow> after_char c r = R_none"
  by (cases rule: number_char_cases [of c]) (auto simp: number_states_def number_char_def wide_def number_defs)

lemma number_states_word: "r \<in> set number_states \<Longrightarrow> after_word w r \<in> insert R_none (set number_states)"
proof (induction w arbitrary: r)
  case (Cons c w)
  from number_step [OF Cons.prems, of c] Cons.IH [of "after_char c r"] show ?case by auto
qed simp

lemma number_first: "after_char c json_number \<noteq> R_none \<Longrightarrow> c = 0x2D \<or> json_dec c"
  by (cases rule: number_char_cases [of c]) (auto simp: number_defs)

lemma number_word:
  assumes "word_of json_number w"
  shows "\<not> number_char c \<Longrightarrow> after_word (w @ [c]) json_number = R_none" and "\<exists>d w'. w = d # w' \<and> (d = 0x2D \<or> json_dec d)"
proof -
  have n: "nullable (after_word w json_number)" using assms by (simp add: after_word_word)
  have "json_number \<in> set number_states" by (simp add: number_states_def)
  from number_states_word [OF this, of w] n have "after_word w json_number \<in> set number_states" by auto
  from number_stops [OF this n] show "\<not> number_char c \<Longrightarrow> after_word (w @ [c]) json_number = R_none" by simp
  have "\<not> nullable json_number" by (simp add: number_defs)
  with n obtain d w' where w: "w = d # w'" by (cases w) auto
  with n have "after_char d json_number \<noteq> R_none" by auto
  from number_first [OF this] w show "\<exists>d w'. w = d # w' \<and> (d = 0x2D \<or> json_dec d)" by blast
qed

subsection \<open>Tokens that the scanner declares\<close>

lemma json_defs: "d \<in> set (token_defs json_spec) \<longleftrightarrow>
  d = (J_string, json_string) \<or> d = (J_number, json_number) \<or> (\<exists>s\<in>set json_literals. d = (J_key s, R_literal s))"
  by (auto simp: json_spec_def)

lemma json_blank: "blank json_spec c \<longleftrightarrow> c \<in> {32, 13, 9, 10}"
  by (auto simp: blank_def json_spec_def)

lemma literal_first: "s \<in> set json_literals \<Longrightarrow>
  \<exists>a s'. s = a # s' \<and> of_char a \<notin> ({0x22, 0x2D, 32, 13, 9, 10} :: nat set) \<and> \<not> json_dec (of_char a) \<and> \<not> number_char (of_char a)"
proof -
  have "\<forall>s\<in>set json_literals. s \<noteq> [] \<and> of_char (hd s) \<notin> ({0x22, 0x2D, 32, 13, 9, 10} :: nat set) \<and> \<not> json_dec (of_char (hd s)) \<and>
    \<not> number_char (of_char (hd s))" by code_simp
  then show "s \<in> set json_literals \<Longrightarrow> ?thesis" by (cases s) auto
qed

lemma wide_inj [simp]: "wide s = wide t \<longleftrightarrow> s = t"
  by (metis narrow_wide)

lemma find_literal: "s \<in> set ss \<Longrightarrow>
  find (\<lambda>d. word_of (snd d) (wide s)) (map (\<lambda>s. (J_key s, R_literal s)) ss) = Some (J_key s, R_literal s)"
  by (induction ss) (auto simp: word_literal)

lemma after_literal_word:
  "after_word (wide s) (R_literal t) = (if take (length s) t = s then R_literal (drop (length s) t) else R_none)"
proof (induction s arbitrary: t)
  case (Cons a s)
  then show ?case by (cases t) (auto simp: wide_def after_literal)
qed (simp add: wide_def)

lemma literals_apart: "\<forall>s\<in>set json_literals. \<forall>t\<in>set json_literals. take (length s) t = s \<longrightarrow> s = t"
  by code_simp

lemma literal_ends: "s \<in> set json_literals \<Longrightarrow> t \<in> set json_literals \<Longrightarrow> after_word (wide s @ [c]) (R_literal t) = R_none"
  using literals_apart by (cases "take (length s) t = s") (force simp: after_literal_word after_literal)+

text \<open>The tokens that the definitions allow.\<close>

definition json_word :: "json_kind token \<Rightarrow> bool" where
  "json_word tk \<longleftrightarrow> \<not> token_too_long (val tk) \<and>
     ((\<exists>w. tk = jstr w \<and> word_of json_string w) \<or> (\<exists>w. tk = \<lparr>kind = Some J_number, val = w\<rparr> \<and> word_of json_number w) \<or>
      (\<exists>s\<in>set json_literals. tk = jk s))"

lemma json_word_cases:
  assumes "json_word tk"
  obtains (string) w' where "kind tk = Some J_string" "word_of json_string (val tk)" "val tk = 0x22 # w'"
    | (number) d w' where "kind tk = Some J_number" "word_of json_number (val tk)" "val tk = d # w'" "d = 0x2D \<or> json_dec d"
    | (literal) s a s' where "s \<in> set json_literals" "tk = jk s" "s = a # s'"
        "of_char a \<notin> ({0x22, 0x2D, 32, 13, 9, 10} :: nat set)" "\<not> json_dec (of_char a)" "\<not> number_char (of_char a)"
  using assms unfolding json_word_def
proof (elim conjE disjE exE bexE)
  fix s
  assume "s \<in> set json_literals" "tk = jk s"
  with literal_first show thesis using literal by blast
next
  fix w
  assume "tk = jstr w" "word_of json_string w"
  moreover from string_word [OF this(2)] obtain w' where "w = 0x22 # w'" by blast
  ultimately show thesis by (intro string) simp_all
next
  fix w
  assume w: "tk = \<lparr>kind = Some J_number, val = w\<rparr>" "word_of json_number w"
  from number_word(2) [OF w(2)] obtain d w' where "w = d # w'" "d = 0x2D \<or> json_dec d" by blast
  with w show thesis by (intro number) simp_all
qed

lemma other_first:
  "c \<noteq> 0x22 \<Longrightarrow> after_char c json_string = R_none"
  "c \<noteq> 0x2D \<Longrightarrow> \<not> json_dec c \<Longrightarrow> after_char c json_number = R_none"
  "t \<in> set json_literals \<Longrightarrow> c = 0x22 \<or> c = 0x2D \<or> json_dec c \<Longrightarrow> after_char c (R_literal t) = R_none"
proof -
  show "t \<in> set json_literals \<Longrightarrow> c = 0x22 \<or> c = 0x2D \<or> json_dec c \<Longrightarrow> after_char c (R_literal t) = R_none"
    using literal_first [of t] by (auto simp: after_literal)
qed (auto simp: string_first dest: number_first)

lemma no_word_first: "after_char c r = R_none \<Longrightarrow> \<not> word_of r (c # w)"
  by (simp add: word_after [symmetric])

lemma json_token_defs:
  "token_defs json_spec = (J_string, json_string) # (J_number, json_number) # map (\<lambda>s. (J_key s, R_literal s)) json_literals"
  by (simp add: json_spec_def)

lemma json_word_declared:
  assumes "json_word tk"
  shows "declared json_spec tk"
proof -
  have l: "\<not> token_too_long (val tk)" using assms by (simp add: json_word_def)
  from assms show ?thesis
  proof (cases rule: json_word_cases)
    case (string w')
    then show ?thesis using l by (simp add: declared_def json_blank json_token_defs)
  next
    case (number d w')
    then have "\<not> word_of json_string (val tk)" using no_word_first [OF other_first(1), of d] by (auto simp: json_dec_def json_digit_def)
    with number l show ?thesis by (auto simp: declared_def json_blank json_token_defs json_dec_def json_digit_def)
  next
    case (literal s a s')
    then have v: "val tk = wide s" "wide s = of_char a # wide s'" by (simp_all add: wide_def)
    have "\<not> word_of json_string (wide s)" "\<not> word_of json_number (wide s)"
      using literal(4,5) v(2) no_word_first [OF other_first(1)] no_word_first [OF other_first(2)] by auto
    with find_literal [OF literal(1)] literal v l show ?thesis by (auto simp: declared_def json_blank json_token_defs)
  qed
qed

lemma json_word_stops:
  assumes "json_word tk" and "kind tk = Some J_number \<Longrightarrow> cs \<noteq> [] \<Longrightarrow> \<not> number_char (hd cs)"
  shows "cannot_continue (token_defs json_spec) (val tk) cs"
proof (cases cs)
  case (Cons c cs')
  have "after_word (val tk @ [c]) (snd d) = R_none" if d: "d \<in> set (token_defs json_spec)" for d
    using assms(1)
  proof (cases rule: json_word_cases)
    case (string w')
    with d string_word [OF string(2)] other_first(2,3) [where c = "0x22"] show ?thesis by (auto simp: json_defs json_dec_def json_digit_def)
  next
    case (number e w')
    with d number_word(1) [OF number(2), of c] assms(2) Cons other_first(1,3) [where c = e] show ?thesis
      by (auto simp: json_defs json_dec_def json_digit_def)
  next
    case (literal s a s')
    then have v: "val tk = wide s" "wide s = of_char a # wide s'" by (simp_all add: wide_def)
    from d literal_ends [OF literal(1)] literal(4,5) v(2) other_first(1,2) [where c = "of_char a"] show ?thesis
      unfolding v(1) json_defs by (auto simp: v(2))
  qed
  with Cons show ?thesis by (simp add: cannot_continue_def)
qed (simp add: cannot_continue_def)

subsection \<open>Layouts of a text\<close>

abbreviation is_number :: "json_kind token \<Rightarrow> bool" where
  "is_number tk \<equiv> kind tk = Some J_number"

text \<open>Numbers do not follow each other, so that blanks may be put anywhere between the tokens, or nowhere.\<close>

definition numbers_apart :: "json_kind token list \<Rightarrow> bool" where
  "numbers_apart toks \<longleftrightarrow> successively (\<lambda>a b. \<not> (is_number a \<and> is_number b)) toks"

definition json_layout :: "(nat list \<times> json_kind token) list \<Rightarrow> nat list \<Rightarrow> bool" where
  "json_layout ps e \<longleftrightarrow> (\<forall>b\<in>insert e (fst ` set ps). \<forall>c\<in>set b. blank json_spec c)"

lemma blank_no_number: "blank json_spec c \<Longrightarrow> \<not> number_char c"
  by (auto simp: json_blank number_char_def json_dec_def json_digit_def wide_def)

lemma word_no_number: "json_word tk \<Longrightarrow> \<not> is_number tk \<Longrightarrow> \<not> number_char (hd (val tk))"
  by (erule json_word_cases) (auto simp: wide_def number_char_def json_dec_def json_digit_def)

lemma json_layout_readable:
  "\<forall>tk\<in>set (map snd ps). json_word tk \<Longrightarrow> numbers_apart (map snd ps) \<Longrightarrow> json_layout ps e \<Longrightarrow> readable json_spec ps e"
proof (induction ps)
  case (Cons p ps)
  obtain b tk where p: "p = (b, tk)" by (cases p)
  let ?r = "laid_out ps e"
  have bl: "\<forall>c\<in>set b. blank json_spec c" and ly: "json_layout ps e" using Cons.prems(3) p by (auto simp: json_layout_def)
  have w: "json_word tk" "\<forall>tk\<in>set (map snd ps). json_word tk" using Cons.prems(1) p by auto
  have na: "numbers_apart (map snd ps)" using Cons.prems(2) by (cases ps) (auto simp: numbers_apart_def)
  have "\<not> number_char (hd ?r)" if "is_number tk" "?r \<noteq> []"
  proof (cases ps)
    case Nil
    with that(2) ly show ?thesis using hd_in_set [of e] blank_no_number by (auto simp: json_layout_def)
  next
    case (Cons p' ps')
    obtain b' tk' where p': "p' = (b', tk')" by (cases p')
    have w': "json_word tk'" using w(2) Cons p' by simp
    then have "val tk' \<noteq> []" "\<not> number_char (hd (val tk'))"
      using word_no_number that(1) Cons.prems(2) json_word_declared [OF w'] by (auto simp: numbers_apart_def p Cons p' declared_def)
    with ly show ?thesis using hd_in_set [of b'] blank_no_number by (cases b') (auto simp: Cons p' json_layout_def)
  qed
  then have "cannot_continue (token_defs json_spec) (val tk) ?r" by (rule json_word_stops [OF w(1)])
  with Cons.IH [OF w(2) na ly] json_word_declared [OF w(1)] bl show ?case by (simp add: p)
qed (simp add: json_layout_def)

text \<open>The values whose strings and numbers are words of their definitions.\<close>

fun json_words :: "json \<Rightarrow> bool" where
  "json_words (JString w) = (word_of json_string w \<and> \<not> token_too_long w)"
| "json_words (JNumber w) = (word_of json_number w \<and> \<not> token_too_long w)"
| "json_words (JObject ps) = (\<forall>(w, j)\<in>set ps. word_of json_string w \<and> \<not> token_too_long w \<and> json_words j)"
| "json_words (JArray js) = (\<forall>j\<in>set js. json_words j)"
| "json_words _ = True"

definition no_number_next :: "json_kind token list \<Rightarrow> bool" where
  "no_number_next r \<longleftrightarrow> numbers_apart r \<and> (r \<noteq> [] \<longrightarrow> \<not> is_number (hd r))"

lemma apart_Cons: "\<not> is_number tk \<Longrightarrow> numbers_apart (tk # r) \<longleftrightarrow> numbers_apart r"
  by (cases r) (simp_all add: numbers_apart_def)

lemma next_Cons: "\<not> is_number tk \<Longrightarrow> no_number_next (tk # r) \<longleftrightarrow> numbers_apart r"
  by (simp add: no_number_next_def apart_Cons)

lemma apart_items:
  assumes "\<And>x r. x \<in> set xs \<Longrightarrow> no_number_next r \<Longrightarrow> numbers_apart (toks x @ r)" and "no_number_next r"
  shows "no_number_next (concat (map (\<lambda>y. jk '','' # toks y) xs) @ r)"
  using assms by (induction xs) (simp_all add: next_Cons)

lemma jk_word: "s \<in> set json_literals \<Longrightarrow> json_word (jk s)"
proof -
  have "\<forall>s\<in>set json_literals. length s \<le> 5" by code_simp
  then show "s \<in> set json_literals \<Longrightarrow> ?thesis" by (auto simp: json_word_def token_too_long_def HEAP_BLOCK_SIZE_def wide_def)
qed

lemma literal_words: "json_word (jk ''{'')" "json_word (jk '','')" "json_word (jk ''}'')" "json_word (jk '':'')" "json_word (jk ''['')"
    "json_word (jk '']'')" "json_word (jk ''true'')" "json_word (jk ''false'')" "json_word (jk ''null'')"
  by (simp_all add: jk_word json_literals_def)

lemma string_json_word: "word_of json_string w \<Longrightarrow> \<not> token_too_long w \<Longrightarrow> json_word (jstr w)"
  by (auto simp: json_word_def)

definition apart_words :: "json_kind token list \<Rightarrow> bool" where
  "apart_words ts \<longleftrightarrow> (\<forall>tk\<in>set ts. json_word tk) \<and> (\<forall>r. no_number_next r \<longrightarrow> numbers_apart (ts @ r))"

lemma list_words:
  assumes x: "\<And>x. x \<in> set xs \<Longrightarrow> apart_words (toks x)" and l: "json_word (jk a)" "json_word (jk z)"
  shows "apart_words ([jk a] @ (case xs of [] \<Rightarrow> [] | x # xs \<Rightarrow> toks x @ concat (map (\<lambda>y. jk '','' # toks y) xs)) @ [jk z])"
proof (cases xs)
  case Nil
  with l show ?thesis by (simp add: apart_words_def apart_Cons no_number_next_def)
next
  case (Cons y ys)
  let ?items = "concat (map (\<lambda>y. jk '','' # toks y) ys)"
  have w: "json_word tk" if "tk \<in> set (toks y @ ?items)" for tk
    using that x [of y] x Cons by (auto simp: apart_words_def literal_words split: if_splits)
  have "numbers_apart (toks y @ ?items @ jk z # r)" if "no_number_next r" for r
  proof -
    have "no_number_next (?items @ jk z # r)"
      by (rule apart_items) (use x Cons that in \<open>auto simp: next_Cons apart_Cons apart_words_def no_number_next_def\<close>)
    with x [of y] Cons show ?thesis by (simp add: apart_words_def)
  qed
  with w l Cons show ?thesis by (auto simp: apart_words_def apart_Cons)
qed

lemma json_toks_words: "json_words j \<Longrightarrow> apart_words (json_toks j)"
proof (induction j)
  case (JObject ps)
  have "apart_words (pair_toks x)" if "x \<in> set ps" for x
  proof -
    obtain w j where x: "x = (w, j)" by (cases x)
    with JObject.prems that have w: "word_of json_string w" "\<not> token_too_long w" "json_words j" by auto
    with JObject.IH [of x j] that x show ?thesis by (auto simp: apart_words_def apart_Cons string_json_word literal_words)
  qed
  then show ?case unfolding json_toks.simps by (rule list_words) (simp_all add: literal_words)
next
  case (JArray js)
  then show ?case unfolding json_toks.simps by (intro list_words) (simp_all add: literal_words)
next
  case (JNumber w)
  then show ?case by (auto simp: apart_words_def json_word_def no_number_next_def numbers_apart_def successively_Cons)
qed (auto simp: apart_words_def string_json_word literal_words apart_Cons no_number_next_def)

subsection \<open>From the bytes of a body\<close>

lemma no_such_char:
  assumes "\<And>v. after_char c (after_word v r) = R_none" and "word_of r w"
  shows "c \<notin> set w"
proof
  assume "c \<in> set w"
  then obtain u v where "w = u @ c # v" by (meson split_list)
  with assms have "nullable R_none" by (metis after_word.simps(2) after_word_append after_word_none after_word_word)
  then show False by simp
qed

lemma string_no_return: "string_state r \<or> r \<in> {R_none, R_empty} \<Longrightarrow> after_char 13 (after_word v r) = R_none"
proof (induction v arbitrary: r)
  case Nil
  have "\<not> json_text_char 13" "\<not> json_escapecode 13" "\<not> json_hex 13"
    by (simp_all add: json_text_char_def json_control_def json_escapecode_def json_hex_def json_dec_def json_digit_def wide_def)
  with Nil show ?case by (auto simp: string_state_def rest_step escape_step hex_step)
next
  case (Cons c v)
  from Cons.prems have "string_state (after_char c r) \<or> after_char c r \<in> {R_none, R_empty}"
  proof
    assume "r \<in> {R_none, R_empty}"
    then show ?thesis by auto
  qed (rule string_state_step)
  from Cons.IH [OF this] show ?case by simp
qed

lemma number_no_return: "r \<in> insert R_none (set number_states) \<Longrightarrow> after_char 13 r = R_none"
  by (auto simp: number_states_def number_defs json_dec_def json_digit_def)

lemma json_word_no_return: "json_word tk \<Longrightarrow> 13 \<notin> set (val tk)"
proof (erule json_word_cases)
  fix w'
  assume w: "word_of json_string (val tk)" "val tk = 0x22 # w'"
  then have "word_of json_string_rest w'" by (simp add: word_after [symmetric] string_first)
  moreover have "after_char 13 (after_word v json_string_rest) = R_none" for v
    by (rule string_no_return) (simp add: string_state_def)
  ultimately have "13 \<notin> set w'" using no_such_char by blast
  with w(2) show ?thesis by simp
next
  assume "word_of json_number (val tk)"
  moreover have "after_char 13 (after_word v json_number) = R_none" for v
    by (rule number_no_return) (rule number_states_word, simp add: number_states_def)
  ultimately show ?thesis using no_such_char by blast
next
  fix s
  assume s: "s \<in> set json_literals" "tk = jk s"
  have "\<forall>s\<in>set json_literals. 13 \<notin> set (wide s)" by code_simp
  with s show ?thesis by simp
qed

lemma line_ends_append:
  "\<exists>xs'. line_ends (xs @ ys) = xs' @ line_ends ys \<and> list_all2 (\<lambda>x x'. x' = x \<or> x = 13 \<and> x' = 10) xs xs'"
proof (induction xs)
  case (Cons x xs)
  then obtain xs' where "line_ends (xs @ ys) = xs' @ line_ends ys" "list_all2 (\<lambda>x x'. x' = x \<or> x = 13 \<and> x' = 10) xs xs'" by blast
  then show ?case by (intro exI [of _ "(if x = 13 \<and> (xs @ ys = [] \<or> hd (xs @ ys) \<noteq> 10) then 10 else x) # xs'"]) auto
qed simp

lemma line_ends_same: "13 \<notin> set xs \<Longrightarrow> line_ends (xs @ ys) = xs @ line_ends ys"
  by (induction xs) auto

lemma line_ends_blanks:
  assumes "\<forall>c\<in>set b. blank json_spec c"
  shows "\<exists>b'. line_ends (b @ ys) = b' @ line_ends ys \<and> (\<forall>c\<in>set b'. blank json_spec c)"
proof -
  obtain b' where b: "line_ends (b @ ys) = b' @ line_ends ys" "list_all2 (\<lambda>x x'. x' = x \<or> x = 13 \<and> x' = 10) b b'"
    using line_ends_append by blast
  have "\<forall>c\<in>set b'. blank json_spec c"
    using b(2) assms by (induction rule: list_all2_induct) (auto simp: json_blank)
  with b(1) show ?thesis by blast
qed

lemma line_ends_layout:
  "\<forall>tk\<in>set (map snd ps). json_word tk \<Longrightarrow> json_layout ps e \<Longrightarrow>
   \<exists>ps' e'. line_ends (laid_out ps e) = laid_out ps' e' \<and> map snd ps' = map snd ps \<and> json_layout ps' e'"
proof (induction ps)
  case Nil
  then obtain e' where "line_ends (e @ []) = e' @ line_ends []" "\<forall>c\<in>set e'. blank json_spec c"
    using line_ends_blanks [of e "[]"] by (auto simp: json_layout_def)
  then show ?case by (intro exI [of _ "[]"] exI [of _ e']) (simp add: json_layout_def)
next
  case (Cons p ps)
  obtain b tk where p: "p = (b, tk)" by (cases p)
  with Cons obtain ps' e' where i: "line_ends (laid_out ps e) = laid_out ps' e'" "map snd ps' = map snd ps" "json_layout ps' e'"
    by (auto simp: json_layout_def)
  from p Cons.prems(2) obtain b' where b: "line_ends (b @ val tk @ laid_out ps e) = b' @ line_ends (val tk @ laid_out ps e)"
    "\<forall>c\<in>set b'. blank json_spec c" using line_ends_blanks [of b "val tk @ laid_out ps e"] by (auto simp: json_layout_def)
  have "13 \<notin> set (val tk)" using json_word_no_return Cons.prems(1) p by simp
  with b i p show ?case
    by (intro exI [of _ "(b', tk) # ps'"] exI [of _ e']) (auto simp: line_ends_same json_layout_def)
qed

lemma json_word_first: "json_word tk \<Longrightarrow> \<exists>c w. val tk = c # w \<and> c \<noteq> 0xEF"
proof -
  have "\<forall>s\<in>set json_literals. of_char (hd s) \<noteq> (0xEF :: nat)" by code_simp
  then show "json_word tk \<Longrightarrow> ?thesis"
    by (elim json_word_cases) (auto simp: json_dec_def json_digit_def wide_def)
qed

lemma toks_nonempty: "json_toks j \<noteq> []"
  by (cases j) simp_all

lemma layout_first:
  assumes "\<forall>tk\<in>set (map snd ps). json_word tk" and "json_layout ps e" and "ps \<noteq> []"
  shows "take 1 (laid_out ps e) \<noteq> [0xEF]"
proof -
  obtain b tk ps' where ps: "ps = (b, tk) # ps'" using assms(3) by (cases ps) auto
  with assms(2) have "\<forall>c\<in>set b. blank json_spec c" by (simp add: json_layout_def)
  with ps assms(1) json_word_first [of tk] show ?thesis by (cases b) (auto simp: json_blank)
qed

text \<open>Every layout of tokens is read as these tokens, in particular that of a value.\<close>

lemma layout_scanned:
  assumes "\<forall>tk\<in>set (map snd ps). json_word tk" and "numbers_apart (map snd ps)" and "ps \<noteq> []" and "json_layout ps e"
    and "map of_char (take (nat len) databuffer) = laid_out ps e"
  shows "json_scan databuffer len = Some (map snd ps, False)"
proof -
  obtain ps' e' where l: "line_ends (laid_out ps e) = laid_out ps' e'" "map snd ps' = map snd ps" "json_layout ps' e'"
    using line_ends_layout [OF assms(1,4)] by blast
  have "start_chars (laid_out ps e) = Some (laid_out ps' e')"
    using layout_first [OF assms(1,4,3)] l(1) by (simp add: start_chars_def)
  moreover have "readable json_spec ps' e'" using assms(1,2) l(2) by (intro json_layout_readable [OF _ _ l(3)]) simp_all
  ultimately show ?thesis using assms(5) l(2) by (simp add: json_scan_def scan_laid_out)
qed

lemma json_body_scanned:
  assumes "json_words j" and "map snd ps = json_toks j" and "json_layout ps e"
    and "map of_char (take (nat len) databuffer) = laid_out ps e"
  shows "json_scan databuffer len = Some (json_toks j, False)"
proof -
  have "no_number_next []" by (simp add: no_number_next_def numbers_apart_def)
  with json_toks_words [OF assms(1)] have "\<forall>tk\<in>set (json_toks j). json_word tk" "numbers_apart (json_toks j @ [])"
    unfolding apart_words_def by blast+
  moreover have "ps \<noteq> []" using assms(2) toks_nonempty [of j] by auto
  ultimately show ?thesis using layout_scanned [OF _ _ _ assms(3,4)] assms(2) by simp
qed

lemma read_body_scanned:
  assumes "json_scan databuffer len = Some (toks, False)"
  shows "read_json_body key databuffer len tab = read_jsonrequest (\<lambda>_ _. toks) key databuffer len tab"
  using assms by (simp add: read_json_body_def read_jsonrequest_def map_conv_bind_option comp_def)

subsection \<open>Quoted texts\<close>

lemma hex_digit_hex: "k < 16 \<Longrightarrow> json_hex (of_char (hex_digit k))"
  by (auto simp: hex_digit_def json_hex_def json_dec_def json_digit_def wide_def)

lemma hex_word: "\<forall>c\<in>set [a, b, c, d]. json_hex c \<Longrightarrow> after_word [a, b, c, d] (text_after (hex_left 3)) = json_string_rest"
  unfolding numeral_3_eq_3 by (simp add: hex_step del: hex_left.simps)

lemma json_char_word: "after_word (wide (json_char c)) json_string_rest = json_string_rest"
proof -
  have short: ?thesis if "json_char c = [CHR 0x5C, d]" "d \<in> set [CHR 0x5C, CHR 0x22, CHR ''b'', CHR ''f'', CHR ''n'', CHR ''r'', CHR ''t'']" for d
  proof -
    have "json_escapecode (of_char d)" using that(2) by (auto simp: json_escapecode_def wide_def)
    with that(1) show ?thesis by (simp add: wide_def rest_step escape_step)
  qed
  have code: ?thesis if "json_char c = [CHR 0x5C, CHR ''u''] @ fmt_04x n" for n
  proof -
    have h: "json_hex (of_char (hex_digit (k mod 16)))" for k by (rule hex_digit_hex) simp
    have "\<not> json_escapecode 0x75" by (simp add: json_escapecode_def wide_def)
    then have "after_word (wide (json_char c)) json_string_rest = after_word (wide (fmt_04x n)) (text_after (hex_left 3))"
      using that by (simp add: wide_def rest_step escape_step)
    also have "\<dots> = json_string_rest"
      unfolding fmt_04x_eq wide_def list.map by (rule hex_word) (simp add: h)
    finally show ?thesis .
  qed
  have self: ?thesis if "json_char c = [c]" "c \<noteq> CHR 0x5C" "c \<noteq> CHR 0x22" "\<not> of_char c < (32 :: nat)"
  proof -
    have "of_char c \<noteq> (of_char (CHR 0x5C) :: nat)" "of_char c \<noteq> (of_char (CHR 0x22) :: nat)"
      using that(2,3) by (metis char_of_char)+
    moreover have "of_char c \<le> (65535 :: nat)" using of_char_256 [of c] by linarith
    ultimately show ?thesis using that(1,4) by (simp add: wide_def rest_step json_text_char_def json_control_def)
  qed
  show ?thesis
    using short code self unfolding json_char_def by (auto split: if_split_asm)
qed

lemma escaped_word: "after_word (wide (escaped escape_leaning_toothpicks s)) json_string_rest = json_string_rest"
proof (induction s)
  case (Cons c s)
  have "wide (escaped escape_leaning_toothpicks (c # s)) = wide (json_char c) @ wide (escaped escape_leaning_toothpicks s)"
    by (simp add: escaped_def escaped_char_json wide_def)
  with Cons json_char_word show ?case by simp
qed (simp add: escaped_def wide_def)

lemma quoted_word: "word_of json_string (json_quoted s)"
  by (simp add: after_word_word [symmetric] json_quoted_def string_first escaped_word rest_step)

text \<open>Members that a client can send: numbers of the grammar, and tokens that fit the heap of the scanner.\<close>

fun sendable_scalar :: "scalar \<Rightarrow> bool" where
  "sendable_scalar (Text s) = (\<not> token_too_long (json_quoted s))"
| "sendable_scalar (Num s) = (word_of json_number (wide s) \<and> \<not> token_too_long (wide s))"
| "sendable_scalar (Flag b) = True"

definition sendable :: "(string \<times> scalar) list \<Rightarrow> bool" where
  "sendable kxs \<longleftrightarrow> (\<forall>(k, x)\<in>set kxs. CHR 0x00 \<notin> set k \<and> \<not> token_too_long (json_quoted k) \<and> sendable_scalar x)"

lemma number_other: "\<not> number_char c \<Longrightarrow> c \<noteq> 0x2D \<Longrightarrow> c \<noteq> 0x2B \<Longrightarrow> r \<in> insert R_none (set number_states) \<Longrightarrow> after_char c r = R_none"
  by (cases rule: number_char_cases [of c]) (auto simp: number_states_def number_char_def wide_def number_defs)

lemma number_bare: "word_of json_number (wide s) \<Longrightarrow> bare_word s"
proof -
  assume w: "word_of json_number (wide s)"
  have no: "of_char c \<notin> set (wide s)" if "of_char c \<in> {0x22, 0x5C, 0 :: nat}" for c
  proof (rule no_such_char [OF _ w])
    fix v
    show "after_char (of_char c) (after_word v json_number) = R_none"
      by (rule number_other)
        (use that number_states_word [of json_number v] in \<open>auto simp: number_char_def wide_def json_dec_def json_digit_def number_states_def\<close>)
  qed
  have "c \<notin> set s" if "of_char c \<in> {0x22, 0x5C, 0 :: nat}" for c
    using no [OF that] by (force simp: wide_def)
  moreover have "s \<noteq> []" using number_word(2) [OF w] by (auto simp: wide_def)
  ultimately show ?thesis by (auto simp: bare_word_def)
qed

lemma sendable_ok: "sendable kxs \<Longrightarrow> members_ok kxs \<and> json_words (JObject (map member kxs))"
proof -
  have "scalar_ok x \<and> json_words (scalar_json x)" if "sendable_scalar x" for x
    using that by (cases x) (simp_all add: quoted_word number_bare)
  then show "sendable kxs \<Longrightarrow> ?thesis"
    by (auto simp: sendable_def members_ok_def member_def quoted_word)
qed

text \<open>A posted object, from the bytes of its blocks to the form.\<close>

lemma posted_object_read:
  assumes "choose_reader ct = Some Jsonrequest" and "setup_rc b = HTTP_OK" and "should_block b" and "[] \<notin> set (client_blocks b)"
    and "remaining b = int n" and "sendable kxs" and "form_ok tab"
    and "map snd ps = json_toks (JObject (map member kxs))" and "json_layout ps e"
    and "map of_char (take n (concat (client_blocks b))) = laid_out ps e"
  shows "\<exists>tab'. http_get_form_data gw un (read_json_body key) M_POST ct b tab = Some (HTTP_OK, tab') \<and> form_ok tab' \<and>
    texts tab' = texts tab ++ map_of (rev (map (\<lambda>(k, x). (k, scalar_text x)) kxs))"
proof -
  let ?d = "take n (concat (client_blocks b))" and ?j = "JObject (map member kxs)"
  have ok: "members_ok kxs" "json_words ?j" using sendable_ok [OF assms(6)] by auto
  have "take (length d) (d @ x) = d" for d x :: string by simp
  then have "take (nat (int (length ?d))) (body_buffer n b) = ?d" unfolding body_buffer_def nat_int .
  then have s: "json_scan (body_buffer n b) (int (length ?d)) = Some (json_toks ?j, False)"
    using json_body_scanned [OF ok(2) assms(8,9), of "int (length ?d)" "body_buffer n b"] assms(10) by simp
  let ?scan = "\<lambda>_ _. json_toks ?j"
  obtain tab' where r: "read_jsonrequest ?scan key (body_buffer n b) (int (length ?d)) tab = Some (tab', 0)"
      "form_ok tab'" "texts tab' = texts tab ++ map_of (rev (map (\<lambda>(k, x). (k, scalar_text x)) kxs))"
    using flat_object_read [where scan = ?scan and buf = "body_buffer n b" and key = key, OF ok(1) assms(7) refl] by blast
  have "read_json_body key (body_buffer n b) (int (length ?d)) tab = Some (tab', 0)"
    unfolding read_body_scanned [OF s] by (rule r(1))
  with r(2,3) util_read_ok [OF assms(4), of n] assms(1-3,5) show ?thesis
    by (auto simp: http_get_form_data_def read_body_def body_buffer_def)
qed

subsection \<open>What is accepted and what ends the process\<close>

lemma scanned_tokens: "json_scan databuffer len = Some (toks, ends) \<Longrightarrow> json_tokens toks"
proof -
  assume "json_scan databuffer len = Some (toks, ends)"
  then obtain cs where "scan_tokens json_spec cs = (toks, ends)" by (auto simp: json_scan_def)
  from scan_tokens_delivered [OF this] show ?thesis
    by (fastforce simp: delivered_def json_tokens_def json_defs word_literal jk_def json_spec_def split: option.splits json_kind.splits)
qed

lemma end_reached:
  assumes "json_parse key toks tab = Some q" and "err_count q = 0" and "json_tokens toks"
  shows "input q = []"
proof -
  obtain j where "toks = json_toks j" "json_text j"
    using json_accepted [where scan = "\<lambda>_ _. toks" and buf = "[]" and n = 0 and key = key and tab = tab and tab' = "json_form q" and errors = 0]
      assms by (auto simp: read_jsonrequest_def)
  with json_parse_results(2) [of j key tab q] assms(1) show ?thesis by simp
qed

lemma read_body_accepted:
  assumes "read_json_body key databuffer len tab = Some (tab', n_errors)"
  shows "n_errors = 0 \<longleftrightarrow> (\<exists>j. json_text j \<and> json_scan databuffer len = Some (json_toks j, False) \<and>
    map_option (\<lambda>s. snd (snd s)) (json_act j (key, None, tab)) = Some tab')"
proof -
  obtain toks ends q where s: "json_scan databuffer len = Some (toks, ends)" and q: "json_parse key toks tab = Some q"
    and e: "\<not> (ends \<and> input q = [])" and r: "tab' = json_form q" "n_errors = err_count q"
    using assms by (auto simp: read_json_body_def bind_eq_Some_conv split: if_splits)
  have t: "json_tokens toks" by (rule scanned_tokens [OF s])
  have "read_jsonrequest (\<lambda>_ _. toks) key [] 0 tab = Some (tab', n_errors)" using q r by (simp add: read_jsonrequest_def)
  from json_accepted [where scan = "\<lambda>_ _. toks", OF t this] have a: "n_errors = 0 \<longleftrightarrow> (\<exists>j. json_text j \<and> toks = json_toks j \<and>
    map_option (\<lambda>s. snd (snd s)) (json_act j (key, None, tab)) = Some tab')" by simp
  have "\<not> ends" if "n_errors = 0" using end_reached [OF q _ t] e r(2) that by simp
  with a s show ?thesis by auto
qed

text \<open>
  Two bodies end the child process: one that begins with the first byte of the mark of UTF-8 but not with the
  mark, and one whose first name is too long for the heap of the scanner.
\<close>

lemma bad_mark_exits:
  assumes "map of_char (take (nat len) databuffer) = (0xEF :: nat) # cs" and "take 2 cs \<noteq> [0xBB, 0xBF]"
  shows "read_json_body key databuffer len tab = None"
  using assms by (simp add: read_json_body_def json_scan_def start_chars_def)

lemma long_name_exits:
  assumes "map of_char (take (nat len) databuffer) = 0x7B # w @ cs" and "word_of json_string w" and "token_too_long w"
  shows "read_json_body key databuffer len tab = None"
proof -
  obtain w' where w: "w = 0x22 # w'" using string_word [OF assms(2)] by blast
  have "word_of json_string_rest w'" using assms(2) unfolding w by (simp add: word_after [symmetric] string_first)
  moreover have "after_char 13 (after_word v json_string_rest) = R_none" for v
    by (rule string_no_return) (simp add: string_state_def)
  ultimately have "13 \<notin> set w'" using no_such_char by blast
  then have "13 \<notin> set (0x7B # w)" by (simp add: w)
  from line_ends_same [OF this, of cs] have l: "line_ends (0x7B # w @ cs) = 0x7B # w @ line_ends cs" by simp
  let ?cs = "line_ends cs"
  have s: "find (\<lambda>d. word_of (snd d) (0x22 # w')) (token_defs json_spec) = Some (J_string, json_string)"
    using assms(2) w by (simp add: json_token_defs)
  have c: "cannot_continue (token_defs json_spec) (0x22 # w') ?cs"
  proof (cases ?cs)
    case (Cons d ds)
    have "after_word ((0x22 # w') @ [d]) (snd e) = R_none" if "e \<in> set (token_defs json_spec)" for e
      using that string_word [OF assms(2)] other_first(2,3) [where c = "0x22"] w by (auto simp: json_defs json_dec_def json_digit_def)
    with Cons show ?thesis by (simp add: cannot_continue_def)
  qed (simp add: cannot_continue_def)
  have "scan_tokens json_spec (w @ ?cs) = ([], True)"
    using read_token_word [OF s c] assms(3) unfolding w scan_tokens.simps [of json_spec "(0x22 # w') @ ?cs"] by (simp add: json_blank)
  moreover have "read_token json_spec 0x7B (w @ ?cs) = (jk ''{'', w @ ?cs)"
  proof -
    have b: "json_word (jk ''{'')" by (rule literal_words)
    from json_word_declared [OF b] have "find (\<lambda>d. word_of (snd d) (0x7B # [])) (token_defs json_spec) = Some (J_key ''{'', R_literal ''{'')"
      using find_literal [of "''{''" json_literals] no_word_first [OF other_first(1), of "0x7B" "[]"] no_word_first [OF other_first(2), of "0x7B" "[]"]
      by (simp add: json_token_defs json_literals_def wide_def json_dec_def json_digit_def)
    from read_token_word [OF this, of "w @ ?cs"] json_word_stops [OF b, of "w @ ?cs"] show ?thesis
      by (simp add: jk_def wide_def)
  qed
  ultimately have "scan_tokens json_spec (0x7B # w @ ?cs) = ([jk ''{''], True)"
    by (simp add: scan_tokens.simps [of json_spec "0x7B # w @ ?cs"] json_blank token_too_long_def HEAP_BLOCK_SIZE_def wide_def)
  then have "json_scan databuffer len = Some ([jk ''{''], True)"
    using assms(1) l by (simp add: json_scan_def start_chars_def)
  moreover have "json_parse key [jk ''{''] tab = Some q \<Longrightarrow> input q = []" for q
    by (auto simp: json_parse_def Let_def start_parser_fields la_def json_productions(1) Expect_def SynErr_def split: if_splits)
  ultimately show ?thesis by (auto simp: read_json_body_def split: Option.bind_splits)
qed

inductive ends_process :: "nat list \<Rightarrow> bool" where
  null_member: "sendable kxs \<Longrightarrow> \<not> token_too_long (json_quoted k) \<Longrightarrow> json_words (JObject others) \<Longrightarrow>
    map snd ps = json_toks (JObject (map member kxs @ (json_quoted k, JNull) # others)) \<Longrightarrow> json_layout ps e \<Longrightarrow>
    ends_process (laid_out ps e)"
| bad_mark: "take 2 cs \<noteq> [0xBB, 0xBF] \<Longrightarrow> ends_process (0xEF # cs)"
| long_name: "word_of json_string w \<Longrightarrow> token_too_long w \<Longrightarrow> ends_process (0x7B # w @ cs)"

lemma body_ends_process:
  assumes "ends_process cs" and "map of_char (take (nat len) databuffer) = cs" and "form_ok tab"
  shows "read_json_body key databuffer len tab = None"
  using assms(1)
proof cases
  case (null_member kxs k others ps e)
  let ?j = "JObject (map member kxs @ (json_quoted k, JNull) # others)"
  have "json_words ?j" using sendable_ok [OF null_member(2)] null_member(3,4) by (auto simp: quoted_word)
  then have s: "json_scan databuffer len = Some (json_toks ?j, False)"
    using null_member(5,6) assms(2) null_member(1) by (intro json_body_scanned) simp_all
  have "read_jsonrequest (\<lambda>_ _. json_toks ?j) key databuffer len tab = None"
    using sendable_ok [OF null_member(2)] by (intro null_member_crashes [where scan = "\<lambda>_ _. json_toks ?j", OF _ assms(3) refl]) simp
  then show ?thesis unfolding read_body_scanned [OF s] .
next
  case (bad_mark cs')
  then show ?thesis using bad_mark_exits [of len databuffer cs'] assms(2) by simp
next
  case (long_name w cs')
  then show ?thesis using long_name_exits [of len databuffer w cs'] assms(2) by simp
qed

lemma posted_body_ends_process:
  assumes "choose_reader ct = Some Jsonrequest" and "setup_rc b = HTTP_OK" and "should_block b" and "[] \<notin> set (client_blocks b)"
    and "remaining b = int n" and "ends_process (map of_char (take n (concat (client_blocks b))))" and "form_ok tab"
  shows "http_get_form_data gw un (read_json_body key) M_POST ct b tab = None"
proof -
  let ?d = "take n (concat (client_blocks b))"
  have "take (length d) (d @ x) = d" for d x :: string by simp
  then have "take (nat (int (length ?d))) (body_buffer n b) = ?d" unfolding body_buffer_def nat_int .
  then have "read_json_body key (body_buffer n b) (int (length ?d)) tab = None"
    using body_ends_process [OF assms(6) _ assms(7), of "int (length ?d)" "body_buffer n b" key] by simp
  with util_read_ok [OF assms(4), of n] assms(1-3,5) show ?thesis
    by (auto simp: http_get_form_data_def read_body_def body_buffer_def)
qed

end
