(* ===== verification/JSON_Body_Ends.thy ===== *)
theory JSON_Body_Ends
  imports JSON_Body
begin

text \<open>
  The JSON parser ends on every sequence of tokens. \<open>json_run\<close> does not tell a crash of an action from a run
  without end; here the same productions run on fuel, with a value of its own for each of the two. The lemmas: with
  fuel that is linear in the number of tokens no run is cut off, and the outcome is that of \<open>json_run\<close>.
\<close>

subsection \<open>The productions on fuel\<close>

text \<open>\<open>None\<close>: the fuel is used up. \<open>Some None\<close>: an action crashes.\<close>

fun and_then :: "'a option option \<Rightarrow> ('a \<Rightarrow> 'b option option) \<Rightarrow> 'b option option" where
  "and_then None f = None"
| "and_then (Some None) f = Some None"
| "and_then (Some (Some x)) f = f x"

lemma and_then_cong [fundef_cong]:
  "m = m' \<Longrightarrow> (\<And>x. m' = Some (Some x) \<Longrightarrow> f x = g x) \<Longrightarrow> and_then m f = and_then m' g"
  by (cases "(m, f)" rule: and_then.cases) auto

lemma and_then_Some: "and_then m f = Some r \<longleftrightarrow> m = Some None \<and> r = None \<or> (\<exists>x. m = Some (Some x) \<and> f x = Some r)"
  by (cases "(m, f)" rule: and_then.cases) auto

lemma and_then_done: "m \<noteq> None \<Longrightarrow> (\<And>x. m = Some (Some x) \<Longrightarrow> f x \<noteq> None) \<Longrightarrow> and_then m f \<noteq> None"
  by (cases "(m, f)" rule: and_then.cases) auto

fun json_fuel :: "nat \<Rightarrow> json_production \<Rightarrow> json_parser \<Rightarrow> json_parser option option" where
  "json_fuel 0 pr p = None"
| "json_fuel (Suc n) P_object p =
     (let p1 = Expect (Some (J_key ''{'')) p in
      and_then (if la_kind p1 = Some J_string then and_then (json_fuel n P_pair p1) (json_fuel n P_pairs) else Some (Some p1))
        (\<lambda>p2. Some (Some (Expect (Some (J_key ''}'')) p2))))"
| "json_fuel (Suc n) P_pairs p =
     (if la_kind p = Some (J_key '','') then and_then (json_fuel n P_pair (Get p)) (json_fuel n P_pairs) else Some (Some p))"
| "json_fuel (Suc n) P_pair p =
     (let p1 = Expect (Some J_string) p in
      and_then (Some (JSON_string (val (last_token p1))))
        (\<lambda>k. and_then (json_fuel n P_value (Expect (Some (J_key '':'')) (p1\<lparr>json_key := k\<rparr>))) (\<lambda>q. Some (store_item q))))"
| "json_fuel (Suc n) P_array p =
     (let p1 = Expect (Some (J_key ''['')) p in
      and_then (if la_kind p1 \<in> value_starts then and_then (json_fuel n P_value p1) (json_fuel n P_values) else Some (Some p1))
        (\<lambda>p2. Some (Some (Expect (Some (J_key '']'')) p2))))"
| "json_fuel (Suc n) P_values p =
     (if la_kind p = Some (J_key '','') then and_then (json_fuel n P_value (Get p)) (json_fuel n P_values) else Some (Some p))"
| "json_fuel (Suc n) P_value p =
     (if la_kind p = Some J_string then Some (set_blob (Get p))
      else if la_kind p = Some J_number then Some (set_blob (Get p))
      else if la_kind p = Some (J_key ''{'') then json_fuel n P_object p
      else if la_kind p = Some (J_key ''['') then json_fuel n P_array p
      else if la_kind p = Some (J_key ''true'') then Some (set_blob (Get p))
      else if la_kind p = Some (J_key ''false'') then Some (set_blob (Get p))
      else if la_kind p = Some (J_key ''null'') then Some (Some ((Get p)\<lparr>json_val := None\<rparr>))
      else Some (Some (SynErr p)))"

definition json_parse_fuel :: "nat \<Rightarrow> string \<Rightarrow> json_kind token list \<Rightarrow> form_table \<Rightarrow> json_parser option option" where
  "json_parse_fuel n key toks tab =
     (let p = start_parser toks \<lparr>json_key = key, json_val = None, json_form = tab\<rparr> in
      and_then (if la_kind p = Some (J_key ''{'') then json_fuel n P_object p
                else if la_kind p = Some (J_key ''['') then json_fuel n P_array p
                else Some (Some (SynErr p)))
        (\<lambda>q. Some (Some (Expect None q))))"

subsection \<open>The outcome is that of the parser\<close>

lemma json_fuel_agrees: "json_fuel n pr p = Some r \<Longrightarrow> json_run pr p = r"
proof (induction n arbitrary: pr p r)
  case (Suc n)
  then show ?case
    by (subst json_run.simps, cases pr) (auto simp: Let_def and_then_Some split: if_splits dest!: Suc.IH)
qed simp

lemma json_parse_fuel_agrees: "json_parse_fuel n key toks tab = Some r \<Longrightarrow> json_parse key toks tab = r"
  by (auto simp: json_parse_fuel_def json_parse_def Let_def and_then_Some dest!: json_fuel_agrees split: if_splits)

subsection \<open>Fuel for every token\<close>

lemma Expect_input: "length (input (Expect k p)) \<le> length (input p)"
  by (simp add: Expect_def SynErr_def)

lemma Get_input: "la_kind p = Some k \<Longrightarrow> length (input p) = Suc (length (input (Get p)))"
  by (cases "input p") (simp_all add: la_def)

lemma set_blob_input: "set_blob p = Some q \<Longrightarrow> input q = input p"
  by (auto simp: set_blob_def)

lemma store_item_input: "store_item p = Some q \<Longrightarrow> input q = input p"
  by (auto simp: store_item_def split: Option.bind_splits)

lemma json_fuel_input: "json_fuel n pr p = Some (Some q) \<Longrightarrow> length (input q) \<le> length (input p)"
proof (induction n arbitrary: pr p q)
  case (Suc n)
  have e: "length (input (Expect k p)) \<le> m" if "length (input p) \<le> m" for k and p :: json_parser and m
    using Expect_input [of k p] that by linarith
  have g: "length (input (Get p)) \<le> m" if "length (input p) \<le> m" for p :: json_parser and m
    using that by simp
  have k: "length (input (p\<lparr>json_key := k\<rparr>)) \<le> m" if "length (input p) \<le> m" for p :: json_parser and k m
    using that by simp
  have trans: "length (input q) \<le> m" if "json_fuel n pr p = Some (Some q)" "length (input p) \<le> m" for pr p q m
    using Suc.IH [OF that(1)] that(2) by linarith
  show ?case using Suc.prems
    by (cases pr) (auto simp: Let_def and_then_Some set_blob_input store_item_input SynErr_def split: if_splits
        intro!: e g k elim!: trans)
qed simp

text \<open>
  A production needs three units for every token and its place in the chain pair, value, object. An object or an
  array is only begun at its bracket.
\<close>

fun place :: "json_production \<Rightarrow> nat" where
  "place P_pair = 3"
| "place P_value = 2"
| "place _ = 1"

fun begun :: "json_production \<Rightarrow> json_parser \<Rightarrow> bool" where
  "begun P_object p = (la_kind p = Some (J_key ''{''))"
| "begun P_array p = (la_kind p = Some (J_key ''[''))"
| "begun _ p = True"

lemma Expect_this: "la_kind p = Some k \<Longrightarrow> Expect (Some k) p = Get p"
  by (simp add: Expect_def)

lemma json_fuel_enough: "begun pr p \<Longrightarrow> 3 * length (input p) + place pr \<le> n \<Longrightarrow> json_fuel n pr p \<noteq> None"
proof (induction n arbitrary: pr p)
  case 0
  then show ?case by (cases pr) simp_all
next
  case (Suc n)
  have ih: "json_fuel n pr' p' \<noteq> None" if "begun pr' p'" "3 * length (input p') + place pr' \<le> n" for pr' p'
    by (rule Suc.IH [OF that])
  have less: "3 * length (input (Get p)) + 3 \<le> 3 * length (input p)" if "la_kind p = Some k" for k
    using Get_input [OF that] by simp
  have two: "and_then (json_fuel n x p') (json_fuel n y) \<noteq> None"
    if "begun x p'" "\<And>q. begun y q" "3 * length (input p') + 3 \<le> n" for x y p'
  proof (rule and_then_done)
    have le: "place x \<le> 3" "place y \<le> 3" by (cases x; simp) (cases y; simp)
    show "json_fuel n x p' \<noteq> None" using that(1,3) le by (intro ih) simp_all
    show "json_fuel n y q \<noteq> None" if "json_fuel n x p' = Some (Some q)" for q
      using json_fuel_input [OF that] le \<open>3 * length (input p') + 3 \<le> n\<close> \<open>\<And>q. begun y q\<close> by (intro ih) simp_all
  qed
  show ?case
  proof (cases pr)
    case P_object
    with Suc.prems have l: "la_kind p = Some (J_key ''{'')" by simp
    from P_object Suc.prems less [OF l] have n: "3 * length (input (Get p)) + 3 \<le> n" by simp
    show ?thesis unfolding P_object json_fuel.simps Let_def Expect_this [OF l]
      by (rule and_then_done) (use two [OF _ _ n] in simp_all)
  next
    case P_array
    with Suc.prems have l: "la_kind p = Some (J_key ''['')" by simp
    from P_array Suc.prems less [OF l] have n: "3 * length (input (Get p)) + 3 \<le> n" by simp
    show ?thesis unfolding P_array json_fuel.simps Let_def Expect_this [OF l]
      by (rule and_then_done) (use two [OF _ _ n] in simp_all)
  next
    case P_pairs
    have n: "3 * length (input (Get p)) + 3 \<le> n" if "la_kind p = Some (J_key '','')" using less [OF that] P_pairs Suc.prems by simp
    then show ?thesis unfolding P_pairs json_fuel.simps using two [of P_pair "Get p" P_pairs] by simp
  next
    case P_values
    have n: "3 * length (input (Get p)) + 3 \<le> n" if "la_kind p = Some (J_key '','')" using less [OF that] P_values Suc.prems by simp
    then show ?thesis unfolding P_values json_fuel.simps using two [of P_value "Get p" P_values] by simp
  next
    case P_pair
    have "3 * length (input (Expect (Some (J_key '':'')) ((Expect (Some J_string) p)\<lparr>json_key := k\<rparr>))) + 2 \<le> n" for k
      using Expect_input [of "Some (J_key '':'')" "(Expect (Some J_string) p)\<lparr>json_key := k\<rparr>"] Expect_input [of "Some J_string" p] P_pair Suc.prems
      by simp
    then show ?thesis unfolding P_pair json_fuel.simps Let_def by (intro and_then_done ih) auto
  next
    case P_value
    with Suc.prems show ?thesis using ih [of P_object p] ih [of P_array p] by simp
  qed
qed

lemma json_parse_ends:
  assumes "3 * length toks + 1 \<le> n"
  shows "json_parse_fuel n key toks tab = Some (json_parse key toks tab)"
proof -
  let ?p = "start_parser toks \<lparr>json_key = key, json_val = None, json_form = tab\<rparr> :: json_parser"
  have i: "input ?p = toks" by (simp add: start_parser_def)
  have "json_parse_fuel n key toks tab \<noteq> None"
    unfolding json_parse_fuel_def Let_def
    using json_fuel_enough [of P_object ?p n] json_fuel_enough [of P_array ?p n] assms i by (intro and_then_done) simp_all
  then obtain r where "json_parse_fuel n key toks tab = Some r" by blast
  with json_parse_fuel_agrees [OF this] show ?thesis by simp
qed

end
