(* ===== verification/N_SQL.thy ===== *)
theory N_SQL
  imports Coco_Parser Config_Directives
begin

text \<open>
  The N-SQL parser: the productions of \<open>N-SQL/NSQL.atg\<close> with their semantic actions, as the parser
  generator turns them into functions (an alternative is chosen by the next token, a missing token
  is counted as an error and parsing goes on). The scanner is generated and not modelled; keywords
  and punctuation are the kinds \<open>Key\<close>.
\<close>

subsection \<open>The parser\<close>

datatype sql_kind = DBName | FuncName | Name | Qstring | Number | Key string | Unknown

record sql_parser = "sql_kind parser" +
  sql_dir :: dir
  sql_e :: nsql_expr
  idxname :: string
  is_bounded :: bool

definition copy_token :: "sql_parser \<Rightarrow> string" where
  "copy_token p = narrow (val (last_token p))"

definition build_index :: "char \<Rightarrow> sql_parser \<Rightarrow> sql_parser" where
  "build_index idxtype p =
     (if get_index_by_name (sql_dir p) (idxname p) = -1
      then p\<lparr>sql_dir := fst (build_index_record (sql_dir p) idxtype (idxname p))\<rparr> else p)"

definition index_condition :: "sql_parser \<Rightarrow> sql_parser option" where
  "index_condition p =
     do { (d, cf_err) \<leftarrow>
            (case vtype (sql_e p) of
               Param \<Rightarrow> named_idx (sql_dir p) (idxname p) (sql_e p)
             | Const \<Rightarrow> index_constant (sql_dir p) (idxname p) (sql_e p)
             | Column \<Rightarrow> None);
          Some (if cf_err = None then p\<lparr>sql_dir := d\<rparr> else SemErr (p\<lparr>sql_dir := d\<rparr>)) }"

subsection \<open>Values and conditions\<close>

definition pr_constant :: "sql_parser \<Rightarrow> sql_parser" where
  "pr_constant p = (if la_kind p = Some Qstring then Get p else if la_kind p = Some Number then Get p else SynErr p)"

definition set_value :: "value_type \<Rightarrow> sql_parser \<Rightarrow> sql_parser" where
  "set_value v p = p\<lparr>sql_e := (sql_e p)\<lparr>vtype := v, expr_value := copy_token p\<rparr>\<rparr>"

definition pr_IndexValue :: "sql_parser \<Rightarrow> sql_parser option" where
  "pr_IndexValue p =
     index_condition
       (if la_kind p = Some (Key ''$'') \<or> la_kind p = Some Name
        then set_value Param (Expect (Some Name) (if la_kind p = Some (Key ''$'') then Get p else p))
        else if la_kind p = Some Qstring \<or> la_kind p = Some Number then set_value Const (pr_constant p)
        else SynErr p)"

definition pr_ValueList :: "sql_parser \<Rightarrow> sql_parser option" where
  "pr_ValueList p =
     do { q \<leftarrow> pr_IndexValue (p\<lparr>sql_e := (sql_e p)\<lparr>base_col_name := Some '''', rel_op := 4\<rparr>\<rparr>);
          repeated (Key '','') pr_IndexValue q }"

definition relops :: "(string \<times> int) list" where
  "relops = [(''='', 4), (''<'', 3), (''<='', 2), (''>'', 1), (''>='', 0)]"

definition pr_relop :: "sql_parser \<Rightarrow> sql_parser" where
  "pr_relop p =
     (case la_kind p of
        Some (Key s) \<Rightarrow>
          (case map_of relops s of
             Some n \<Rightarrow> (Get p)\<lparr>sql_e := (sql_e p)\<lparr>rel_op := n\<rparr>\<rparr>
           | None \<Rightarrow> SynErr p)
      | _ \<Rightarrow> SynErr p)"

definition pr_IndexCondition :: "sql_parser \<Rightarrow> sql_parser option" where
  "pr_IndexCondition p =
     (let q = Expect (Some Name) p
      in pr_IndexValue (pr_relop (q\<lparr>sql_e := (sql_e q)\<lparr>base_col_name := Some (copy_token q)\<rparr>\<rparr>)))"

definition pr_WhereClause :: "sql_parser \<Rightarrow> sql_parser option" where
  "pr_WhereClause p =
     do { q \<leftarrow> pr_IndexCondition ((build_index (CHR ''O'') (Expect (Some (Key ''WHERE'')) p))\<lparr>is_bounded := True\<rparr>);
          repeated (Key ''AND'') pr_IndexCondition q }"

subsection \<open>Plans\<close>

definition pr_Order :: "sql_parser \<Rightarrow> sql_parser option" where
  "pr_Order p =
     (if la_kind p = Some (Key ''ASC'')
      then map_option (\<lambda>d. (Get p)\<lparr>sql_dir := d\<rparr>) (sort_scan (sql_dir p) (is_bounded p) (idxname p) Asc)
      else if la_kind p = Some (Key ''DESC'')
      then map_option (\<lambda>d. (Get p)\<lparr>sql_dir := d\<rparr>) (sort_scan (sql_dir p) (is_bounded p) (idxname p) Desc)
      else Some (SynErr p))"

definition full_scan :: "string \<Rightarrow> dir \<Rightarrow> dir" where
  "full_scan idx d = d\<lparr>table_scan := True, index_scan := (index_scan d)\<lparr>idx_name := Some idx\<rparr>\<rparr>"

definition pr_IndexScan :: "sql_parser \<Rightarrow> sql_parser option" where
  "pr_IndexScan p =
     (let p1 = Expect (Some (Key ''INDEX'')) (Expect (Some (Key ''ORDERED'')) p);
          p2 = (if la_kind p1 = Some Name then (let q = Get p1 in q\<lparr>idxname := copy_token q\<rparr>)
                else if la_kind p1 = Some (Key ''PRIMARY'') then Get p1
                else p1)
      in if la_kind p2 = Some (Key ''WHERE'') then pr_WhereClause p2
         else if la_kind p2 = Some (Key ''ORDER'') \<or> la_kind p2 = Some (Key '';'')
           then Some (p2\<lparr>sql_dir := full_scan (idxname p2) (sql_dir p2)\<rparr>)
         else Some (SynErr p2))"

definition pr_Scan :: "sql_parser \<Rightarrow> sql_parser option" where
  "pr_Scan p =
     (let p1 = (Expect (Some (Key ''USING'')) p)\<lparr>idxname := ''PRIMARY'', is_bounded := False\<rparr>
      in if la_kind p1 = Some (Key ''TABLE'')
           then (let q = Expect (Some (Key ''SCAN'')) (Get p1) in Some (q\<lparr>sql_dir := (sql_dir q)\<lparr>table_scan := True\<rparr>\<rparr>))
         else if la_kind p1 = Some (Key ''ORDERED'')
           then do { q \<leftarrow> pr_IndexScan p1;
                     (if la_kind q = Some (Key ''ORDER'') then pr_Order (Get q) else Some q) }
         else Some (SynErr p1))"

definition pr_UniqueIndexSpec :: "sql_parser \<Rightarrow> sql_parser option" where
  "pr_UniqueIndexSpec p =
     (let (q, idxtype) =
        (if la_kind p = Some (Key ''PRIMARY'')
           then ((Expect (Some (Key ''KEY'')) (Get p))\<lparr>idxname := ''*Primary$Key*''\<rparr>, CHR ''P'')
         else if la_kind p = Some (Key ''UNIQUE'')
           then (let r = Expect (Some Name) (Expect (Some (Key ''INDEX'')) (Get p))
                 in (r\<lparr>idxname := copy_token r\<rparr>, CHR ''U''))
         else (SynErr p, CHR 0x00))
      in pr_ValueList (Expect (Some (Key ''='')) (build_index idxtype q)))"

definition pr_OneRowWhereClause :: "sql_parser \<Rightarrow> sql_parser option" where
  "pr_OneRowWhereClause p = pr_UniqueIndexSpec (Expect (Some (Key ''WHERE'')) p)"

definition pr_QueryPlan :: "sql_parser \<Rightarrow> sql_parser option" where
  "pr_QueryPlan p =
     (if la_kind p = Some (Key ''WHERE'') then pr_OneRowWhereClause p
      else if la_kind p = Some (Key ''USING'') then pr_Scan p
      else Some (SynErr p))"

subsection \<open>Statements\<close>

definition pr_TableSpec :: "sql_parser \<Rightarrow> sql_parser" where
  "pr_TableSpec p =
     (let p1 = (if la_kind p = Some DBName
                then (let q = Get p in Expect (Some (Key ''.'')) (q\<lparr>sql_dir := (sql_dir q)\<lparr>database := Some (copy_token q)\<rparr>\<rparr>))
                else p);
          p2 = Expect (Some Name) p1
      in p2\<lparr>sql_dir := (sql_dir p2)\<lparr>dir_table := Some (copy_token p2)\<rparr>\<rparr>)"

definition pr_Column :: "sql_parser \<Rightarrow> sql_parser" where
  "pr_Column p =
     (let p1 = Expect (Some Name) p; c_name = copy_token p1;
          p2 = (if la_kind p1 = Some (Key ''AS'') then Expect (Some Name) (Get p1) else p1);
          c_alias = (if la_kind p1 = Some (Key ''AS'') then copy_token p2 else c_name)
      in p2\<lparr>sql_dir := (sql_dir p2)\<lparr>visible := visible (sql_dir p2) @ [c_name],
                                    aliases := aliases (sql_dir p2) @ [c_alias]\<rparr>\<rparr>)"

definition pr_SelectQuery :: "sql_parser \<Rightarrow> sql_parser option" where
  "pr_SelectQuery p =
     (let p1 = Expect (Some (Key ''SELECT'')) p in
      do { p2 \<leftarrow> (if la_kind p1 = Some (Key ''*'')
                  then (let q = Get p1 in Some (q\<lparr>sql_dir := (sql_dir q)\<lparr>select_star := True\<rparr>\<rparr>))
                  else if la_kind p1 = Some Name then repeated (Key '','') (Some \<circ> pr_Column) (pr_Column p1)
                  else Some (SynErr p1));
           let p3 = pr_TableSpec (Expect (Some (Key ''FROM'')) p2);
           (if la_kind p3 = Some (Key ''WHERE'') \<or> la_kind p3 = Some (Key ''USING'') then pr_QueryPlan p3 else Some p3) })"

definition pr_DeleteQuery :: "sql_parser \<Rightarrow> sql_parser option" where
  "pr_DeleteQuery p =
     map_option (\<lambda>q. q\<lparr>sql_dir := (sql_dir q)\<lparr>allow_delete := True\<rparr>\<rparr>)
       (pr_OneRowWhereClause (pr_TableSpec (Expect (Some (Key ''FROM'')) (Expect (Some (Key ''DELETE'')) p))))"

definition pr_NSQL :: "sql_parser \<Rightarrow> sql_parser option" where
  "pr_NSQL p =
     do { q \<leftarrow> (if la_kind p = Some (Key ''SELECT'') then pr_SelectQuery p
                else if la_kind p = Some (Key ''DELETE'') then pr_DeleteQuery p
                else if la_kind p = Some (Key ''WHERE'') \<or> la_kind p = Some (Key ''USING'') then pr_QueryPlan p
                else Some (SynErr p));
          Some (Expect (Some (Key '';'')) q) }"

text \<open>
  The variables of the semantic actions have no initial value: \<open>e\<close>, \<open>idx\<close> and \<open>b\<close> are what the memory holds.
  Unlike the frame of the JSON parser, this one does not ask for the end of the input after the root production.
\<close>

definition sql_parse :: "nsql_expr \<Rightarrow> string \<Rightarrow> bool \<Rightarrow> sql_kind token list \<Rightarrow> dir \<Rightarrow> sql_parser option" where
  "sql_parse e idx b toks d = pr_NSQL (start_parser toks \<lparr>sql_dir = d, sql_e = e, idxname = idx, is_bounded = b\<rparr>)"

end
