(* ===== verification/N_SQL_Meaning.thy ===== *)
theory N_SQL_Meaning
  imports N_SQL
begin

text \<open>
  The sentences of N-SQL, their tokens, and what a sentence means for the directory: the calls of
  the configuration routines, in order. The parser computes this meaning on every sentence, with
  and without errors of the routines.
\<close>

subsection \<open>Sentences\<close>

datatype sql_value = Parameter bool string | Quoted string | Numeral string

datatype sql_key = Primary_Key | Unique_Key string

datatype sql_index = Default_Index | Primary_Index | Named_Index string

record sql_condition =
  c_column :: string
  c_relop :: string
  c_value :: sql_value

datatype sql_plan =
    One_Row sql_key sql_value "sql_value list"
  | Table_Scan
  | Index_Scan sql_index "sql_condition list" "sort_order option"

type_synonym sql_table = "string option \<times> string"

datatype sql_statement =
    Select "((string \<times> string option) \<times> (string \<times> string option) list) option" sql_table "sql_plan option"
  | Delete sql_table sql_key sql_value "sql_value list"
  | Plan sql_plan

subsection \<open>Their tokens\<close>

text \<open>Keywords are recognised in any case: \<open>sp\<close> gives the spelling.\<close>

definition kw :: "(string \<Rightarrow> string) \<Rightarrow> string \<Rightarrow> sql_kind token" where
  "kw sp s = \<lparr>kind = Some (Key s), val = wide (sp s)\<rparr>"

definition name_tok :: "string \<Rightarrow> sql_kind token" where
  "name_tok s = \<lparr>kind = Some Name, val = wide s\<rparr>"

fun value_toks :: "(string \<Rightarrow> string) \<Rightarrow> sql_value \<Rightarrow> sql_kind token list" where
  "value_toks sp (Parameter dollar s) = (if dollar then [kw sp ''$''] else []) @ [name_tok s]"
| "value_toks sp (Quoted s) = [\<lparr>kind = Some Qstring, val = wide s\<rparr>]"
| "value_toks sp (Numeral s) = [\<lparr>kind = Some Number, val = wide s\<rparr>]"

definition condition_toks :: "(string \<Rightarrow> string) \<Rightarrow> sql_condition \<Rightarrow> sql_kind token list" where
  "condition_toks sp c = [name_tok (c_column c), kw sp (c_relop c)] @ value_toks sp (c_value c)"

definition separated :: "sql_kind token \<Rightarrow> ('a \<Rightarrow> sql_kind token list) \<Rightarrow> 'a list \<Rightarrow> sql_kind token list" where
  "separated sep toks xs = concat (map (\<lambda>x. sep # toks x) xs)"

fun key_toks :: "(string \<Rightarrow> string) \<Rightarrow> sql_key \<Rightarrow> sql_kind token list" where
  "key_toks sp Primary_Key = [kw sp ''PRIMARY'', kw sp ''KEY'']"
| "key_toks sp (Unique_Key s) = [kw sp ''UNIQUE'', kw sp ''INDEX'', name_tok s]"

fun index_toks :: "(string \<Rightarrow> string) \<Rightarrow> sql_index \<Rightarrow> sql_kind token list" where
  "index_toks sp Default_Index = []"
| "index_toks sp Primary_Index = [kw sp ''PRIMARY'']"
| "index_toks sp (Named_Index s) = [name_tok s]"

definition one_row_toks :: "(string \<Rightarrow> string) \<Rightarrow> sql_key \<Rightarrow> sql_value \<Rightarrow> sql_value list \<Rightarrow> sql_kind token list" where
  "one_row_toks sp key v vs =
     [kw sp ''WHERE''] @ key_toks sp key @ [kw sp ''=''] @ value_toks sp v @ separated (kw sp '','') (value_toks sp) vs"

definition where_toks :: "(string \<Rightarrow> string) \<Rightarrow> sql_condition list \<Rightarrow> sql_kind token list" where
  "where_toks sp cs =
     (case cs of [] \<Rightarrow> []
      | c # cs \<Rightarrow> [kw sp ''WHERE''] @ condition_toks sp c @ separated (kw sp ''AND'') (condition_toks sp) cs)"

definition order_toks :: "(string \<Rightarrow> string) \<Rightarrow> sort_order option \<Rightarrow> sql_kind token list" where
  "order_toks sp ord =
     (case ord of None \<Rightarrow> [] | Some Asc \<Rightarrow> [kw sp ''ORDER'', kw sp ''ASC''] | Some Desc \<Rightarrow> [kw sp ''ORDER'', kw sp ''DESC''])"

fun plan_toks :: "(string \<Rightarrow> string) \<Rightarrow> sql_plan \<Rightarrow> sql_kind token list" where
  "plan_toks sp (One_Row key v vs) = one_row_toks sp key v vs"
| "plan_toks sp Table_Scan = [kw sp ''USING'', kw sp ''TABLE'', kw sp ''SCAN'']"
| "plan_toks sp (Index_Scan ix cs ord) =
     [kw sp ''USING'', kw sp ''ORDERED'', kw sp ''INDEX''] @ index_toks sp ix @ where_toks sp cs @ order_toks sp ord"

fun table_toks :: "(string \<Rightarrow> string) \<Rightarrow> sql_table \<Rightarrow> sql_kind token list" where
  "table_toks sp (db, t) =
     (case db of None \<Rightarrow> [] | Some s \<Rightarrow> [\<lparr>kind = Some DBName, val = wide s\<rparr>, kw sp ''.'']) @ [name_tok t]"

fun column_toks :: "(string \<Rightarrow> string) \<Rightarrow> string \<times> string option \<Rightarrow> sql_kind token list" where
  "column_toks sp (c, al) = [name_tok c] @ (case al of None \<Rightarrow> [] | Some s \<Rightarrow> [kw sp ''AS'', name_tok s])"

fun columns_toks :: "(string \<Rightarrow> string) \<Rightarrow> ((string \<times> string option) \<times> (string \<times> string option) list) option \<Rightarrow> sql_kind token list" where
  "columns_toks sp None = [kw sp ''*'']"
| "columns_toks sp (Some (c, cs)) = column_toks sp c @ separated (kw sp '','') (column_toks sp) cs"

fun statement_toks :: "(string \<Rightarrow> string) \<Rightarrow> sql_statement \<Rightarrow> sql_kind token list" where
  "statement_toks sp (Select cols t pl) =
     [kw sp ''SELECT''] @ columns_toks sp cols @ [kw sp ''FROM''] @ table_toks sp t @
     (case pl of None \<Rightarrow> [] | Some q \<Rightarrow> plan_toks sp q) @ [kw sp '';'']"
| "statement_toks sp (Delete t key v vs) =
     [kw sp ''DELETE'', kw sp ''FROM''] @ table_toks sp t @ one_row_toks sp key v vs @ [kw sp '';'']"
| "statement_toks sp (Plan q) = plan_toks sp q @ [kw sp '';'']"

fun good_plan :: "sql_plan \<Rightarrow> bool" where
  "good_plan (Index_Scan ix cs ord) \<longleftrightarrow> (\<forall>c\<in>set cs. c_relop c \<in> fst ` set relops)"
| "good_plan _ \<longleftrightarrow> True"

fun good_statement :: "sql_statement \<Rightarrow> bool" where
  "good_statement (Select cols t pl) \<longleftrightarrow> (case pl of None \<Rightarrow> True | Some q \<Rightarrow> good_plan q)"
| "good_statement (Delete t key v vs) \<longleftrightarrow> True"
| "good_statement (Plan q) \<longleftrightarrow> good_plan q"

subsection \<open>Their meaning\<close>

text \<open>The directory after the sentence, and whether a routine has reported an error.\<close>

type_synonym dir_action = "dir \<Rightarrow> (dir \<times> bool) option"

fun run_all :: "dir_action list \<Rightarrow> dir_action" where
  "run_all [] d = Some (d, False)"
| "run_all (f # fs) d = do { (d1, b1) \<leftarrow> f d; (d2, b2) \<leftarrow> run_all fs d1; Some (d2, b1 \<or> b2) }"

definition sql_expr :: "string \<Rightarrow> int \<Rightarrow> value_type \<Rightarrow> string \<Rightarrow> nsql_expr" where
  "sql_expr base op v s = (param_expr s)\<lparr>base_col_name := Some base, rel_op := op, vtype := v\<rparr>"

fun value_action :: "string \<Rightarrow> string \<Rightarrow> int \<Rightarrow> sql_value \<Rightarrow> dir_action" where
  "value_action idx base op (Parameter dollar s) d =
     map_option (\<lambda>(d', e). (d', e \<noteq> None)) (named_idx d idx (sql_expr base op Param s))"
| "value_action idx base op (Quoted s) d =
     map_option (\<lambda>(d', e). (d', e \<noteq> None)) (index_constant d idx (sql_expr base op Const s))"
| "value_action idx base op (Numeral s) d =
     map_option (\<lambda>(d', e). (d', e \<noteq> None)) (index_constant d idx (sql_expr base op Const s))"

definition relop_num :: "string \<Rightarrow> int" where
  "relop_num s = the (map_of relops s)"

definition condition_action :: "string \<Rightarrow> sql_condition \<Rightarrow> dir_action" where
  "condition_action idx c = value_action idx (c_column c) (relop_num (c_relop c)) (c_value c)"

definition with_index :: "char \<Rightarrow> string \<Rightarrow> dir \<Rightarrow> dir" where
  "with_index t idx d = (if get_index_by_name d idx = -1 then fst (build_index_record d t idx) else d)"

fun key_name :: "sql_key \<Rightarrow> string" where
  "key_name Primary_Key = ''*Primary$Key*''"
| "key_name (Unique_Key s) = s"

fun key_type :: "sql_key \<Rightarrow> char" where
  "key_type Primary_Key = CHR ''P''"
| "key_type (Unique_Key s) = CHR ''U''"

fun scan_name :: "sql_index \<Rightarrow> string" where
  "scan_name (Named_Index s) = s"
| "scan_name _ = ''PRIMARY''"

definition one_row_action :: "sql_key \<Rightarrow> sql_value list \<Rightarrow> dir_action" where
  "one_row_action key vs d =
     run_all (map (value_action (key_name key) '''' 4) vs) (with_index (key_type key) (key_name key) d)"

definition scan_action :: "string \<Rightarrow> sql_condition list \<Rightarrow> dir_action" where
  "scan_action idx cs d =
     (if cs = [] then Some (full_scan idx d, False)
      else run_all (map (condition_action idx) cs) (with_index (CHR ''O'') idx d))"

definition order_action :: "string \<Rightarrow> bool \<Rightarrow> sort_order option \<Rightarrow> dir_action" where
  "order_action idx bounded ord d =
     (case ord of None \<Rightarrow> Some (d, False) | Some ord' \<Rightarrow> map_option (\<lambda>d'. (d', False)) (sort_scan d bounded idx ord'))"

fun plan_action :: "sql_plan \<Rightarrow> dir_action" where
  "plan_action (One_Row key v vs) d = one_row_action key (v # vs) d"
| "plan_action Table_Scan d = Some (d\<lparr>table_scan := True\<rparr>, False)"
| "plan_action (Index_Scan ix cs ord) d =
     run_all [scan_action (scan_name ix) cs, order_action (scan_name ix) (cs \<noteq> []) ord] d"

fun set_table :: "sql_table \<Rightarrow> dir \<Rightarrow> dir" where
  "set_table (db, t) d = d\<lparr>database := (if db = None then database d else db), dir_table := Some t\<rparr>"

fun add_column :: "string \<times> string option \<Rightarrow> dir \<Rightarrow> dir" where
  "add_column (c, al) d =
     d\<lparr>visible := visible d @ [c], aliases := aliases d @ [case al of None \<Rightarrow> c | Some s \<Rightarrow> s]\<rparr>"

fun set_columns :: "((string \<times> string option) \<times> (string \<times> string option) list) option \<Rightarrow> dir \<Rightarrow> dir" where
  "set_columns None d = d\<lparr>select_star := True\<rparr>"
| "set_columns (Some (c, cs)) d = fold add_column (c # cs) d"

fun statement_action :: "sql_statement \<Rightarrow> dir_action" where
  "statement_action (Select cols t pl) d =
     (case pl of None \<Rightarrow> Some (set_table t (set_columns cols d), False)
      | Some q \<Rightarrow> plan_action q (set_table t (set_columns cols d)))"
| "statement_action (Delete t key v vs) d =
     map_option (\<lambda>(d', b). (d'\<lparr>allow_delete := True\<rparr>, b)) (one_row_action key (v # vs) (set_table t d))"
| "statement_action (Plan q) d = plan_action q d"

end
