(* ===== verification/N_SQL_Correct.thy ===== *)
theory N_SQL_Correct
  imports N_SQL_Meaning
begin

text \<open>
  The parser computes the meaning of every sentence. \<open>results\<close> compares a run of a production with
  a meaning: the tokens left, the directory, whether an error was counted, and what the
  production keeps (\<open>K\<close>).
\<close>

subsection \<open>Results of a production\<close>

definition results ::
  "(sql_parser \<Rightarrow> 'b) \<Rightarrow> (dir \<times> bool) option \<Rightarrow> sql_kind token list \<Rightarrow> sql_parser \<Rightarrow> sql_parser option \<Rightarrow> bool" where
  "results K m r p out \<longleftrightarrow>
     (case m of None \<Rightarrow> out = None
      | Some (d, b) \<Rightarrow> \<exists>q. out = Some q \<and> input q = r \<and> sql_dir q = d \<and> errors_counted q \<and>
          (err_count q = 0 \<longleftrightarrow> err_count p = 0 \<and> \<not> b) \<and> K q = K p)"

lemma kw_simps [simp]: "kind (kw sp s) = Some (Key s)" "val (kw sp s) = wide (sp s)" "kind (name_tok s) = Some Name" "val (name_tok s) = wide s"
  by (simp_all add: kw_def name_tok_def)

lemma sql_fields [simp]:
  fixes p :: sql_parser
  shows "sql_dir (Get p) = sql_dir p" "sql_e (Get p) = sql_e p" "idxname (Get p) = idxname p" "is_bounded (Get p) = is_bounded p"
    "sql_dir (count_error p) = sql_dir p" "sql_e (count_error p) = sql_e p" "idxname (count_error p) = idxname p"
    "is_bounded (count_error p) = is_bounded p"
  by (simp_all add: Get_def count_error_def)

lemma sql_updates [simp]:
  fixes p :: sql_parser
  shows "errors_counted (p\<lparr>sql_dir := d\<rparr>) = errors_counted p" "errors_counted (p\<lparr>sql_e := e\<rparr>) = errors_counted p"
    "errors_counted (p\<lparr>idxname := i\<rparr>) = errors_counted p" "errors_counted (p\<lparr>is_bounded := b\<rparr>) = errors_counted p"
  by (simp_all add: errors_counted_def)

lemma Expect_key: "input p = kw sp s # r \<Longrightarrow> Expect (Some (Key s)) p = Get p"
  using Expect_kw [of p "kw sp s" r] by simp

lemma Expect_name: "input p = name_tok s # r \<Longrightarrow> Expect (Some Name) p = Get p"
  using Expect_kw [of p "name_tok s" r] by simp

lemmas token_simps = la_input Expect_key Expect_name copy_token_def

lemma results_cases:
  assumes "results K m r p out"
  obtains (crash) "m = None" and "out = None"
    | (run) d b q where "m = Some (d, b)" and "out = Some q" and "input q = r" and "sql_dir q = d" and "errors_counted q"
        and "err_count q = 0 \<longleftrightarrow> err_count p = 0 \<and> \<not> b" and "K q = K p"
proof (cases m)
  case None
  with assms crash show thesis by (simp add: results_def)
next
  case (Some db)
  obtain d b where db: "db = (d, b)" by (cases db)
  with Some assms have "\<exists>q. out = Some q \<and> input q = r \<and> sql_dir q = d \<and> errors_counted q \<and>
    (err_count q = 0 \<longleftrightarrow> err_count p = 0 \<and> \<not> b) \<and> K q = K p" by (simp only: results_def option.case prod.case)
  then obtain q where "out = Some q" "input q = r" "sql_dir q = d" "errors_counted q"
    "err_count q = 0 \<longleftrightarrow> err_count p = 0 \<and> \<not> b" "K q = K p" by (elim exE conjE)
  with Some db show thesis by (intro run [of d b q]) simp_all
qed

lemma results_run:
  assumes "input q = r" and "sql_dir q = d" and "errors_counted q" and "err_count q = 0 \<longleftrightarrow> err_count p = 0 \<and> \<not> b" and "K q = K p"
  shows "results K (Some (d, b)) r p (Some q)"
  unfolding results_def option.case prod.case by (rule exI [of _ q], intro conjI refl assms)

lemma results_crash: "results K None r p None"
  by (simp add: results_def)

lemma results_bind:
  assumes "results K m1 r1 p out1"
    and "\<And>q. input q = r1 \<Longrightarrow> errors_counted q \<Longrightarrow> K q = K p \<Longrightarrow> results K (m2 (sql_dir q)) r2 q (f q)"
  shows "results K (do { (d1, b1) \<leftarrow> m1; (d2, b2) \<leftarrow> m2 d1; Some (d2, b1 \<or> b2) }) r2 p (out1 \<bind> f)"
  using assms(1)
proof (cases rule: results_cases)
  case crash
  then show ?thesis by (simp add: results_crash)
next
  case (run d1 b1 q)
  have "results K (m2 d1) r2 q (f q)" using assms(2) [OF run(3,5,7)] run(4) by simp
  then show ?thesis
  proof (cases rule: results_cases)
    case crash
    with run(1,2) show ?thesis by (simp add: results_crash)
  next
    case run2: (run d2 b2 q2)
    have "results K (Some (d2, b1 \<or> b2)) r2 p (Some q2)" by (rule results_run) (use run run2 in auto)
    with run(1,2) run2(1,2) show ?thesis by simp
  qed
qed

lemma results_from:
  assumes "results K m r p' out" and "err_count p' = 0 \<longleftrightarrow> err_count p = 0" and "K p' = K p"
  shows "results K m r p out"
  using assms(1) unfolding results_def assms(2,3) .

lemma results_map:
  assumes "results K m r p out"
    and "\<And>q. sql_dir (g q) = h (sql_dir q)" "\<And>q. input (g q) = input q" "\<And>q. err_count (g q) = err_count q"
      "\<And>q. errors_counted (g q) = errors_counted q" "\<And>q. K q = K p \<Longrightarrow> K' (g q) = K' p"
  shows "results K' (map_option (\<lambda>(d, b). (h d, b)) m) r p (map_option g out)"
  using assms(1)
proof (cases rule: results_cases)
  case crash
  then show ?thesis by (simp add: results_crash)
next
  case (run d b q)
  have "results K' (Some (h d, b)) r p (Some (g q))" by (rule results_run) (use run assms(2-5) assms(6) [OF run(7)] in simp_all)
  with run(1,2) show ?thesis by simp
qed

lemma results_keep:
  assumes "results K m r p out" and "\<And>q. K q = K p \<Longrightarrow> K' q = K' p"
  shows "results K' m r p out"
  using assms(1)
proof (cases rule: results_cases)
  case (run d b q)
  have "results K' (Some (d, b)) r p (Some q)" by (rule results_run) (use run(3-6) assms(2) [OF run(7)] in simp_all)
  with run(1,2) show ?thesis by simp
qed (simp add: results_crash)

lemma run_all_one: "run_all [f] d = f d"
  by (cases "f d") auto

lemma results_cons:
  assumes "results K (a (sql_dir p)) r1 p out1"
    and "\<And>q. input q = r1 \<Longrightarrow> errors_counted q \<Longrightarrow> K q = K p \<Longrightarrow> results K (run_all as (sql_dir q)) r2 q (f q)"
  shows "results K (run_all (a # as) (sql_dir p)) r2 p (out1 \<bind> f)"
proof -
  note b = results_bind [where K = K and ?m1.0 = "a (sql_dir p)" and ?m2.0 = "run_all as" and ?r1.0 = r1 and ?r2.0 = r2 and p = p
      and ?out1.0 = out1 and f = f]
  show ?thesis unfolding run_all.simps by (rule b; fact assms)
qed

lemma repeated_results:
  assumes "\<And>x p r'. x \<in> set xs \<Longrightarrow> input p = toks x @ r' \<Longrightarrow> first r' \<in> {Some s, first r} \<Longrightarrow> errors_counted p \<Longrightarrow> K p = k \<Longrightarrow>
      results K (act x (sql_dir p)) r' p (item p)"
    and "kind sep = Some s" and "first r \<noteq> Some s" and "\<And>p. K (Get p) = K p"
    and "input p = separated sep toks xs @ r" and "errors_counted p" and "K p = k"
  shows "results K (run_all (map act xs) (sql_dir p)) r p (repeated s item p)"
  using assms(1,5-7)
proof (induction xs arbitrary: p)
  case Nil
  then have "la_kind p = first r" by (simp add: la_first separated_def)
  then have "repeated s item p = Some p" using assms(3) by (simp add: repeated.simps)
  with Nil show ?case by (simp add: results_def separated_def)
next
  case (Cons x xs)
  have i: "input (Get p) = toks x @ separated sep toks xs @ r" and l: "la p = sep"
    using Cons.prems(2) by (simp_all add: separated_def la_input)
  have fr: "first (separated sep toks xs @ r) \<in> {Some s, first r}" using assms(2) by (cases xs) (simp_all add: separated_def)
  have k: "K (Get p) = k" using assms(4) Cons.prems(4) by simp
  have x: "results K (act x (sql_dir (Get p))) (separated sep toks xs @ r) (Get p) (item (Get p))"
    by (rule Cons.prems(1) [OF _ i fr _ k]) (use Cons.prems(3) in simp_all)
  have "results K (run_all (act x # map act xs) (sql_dir (Get p))) r (Get p) (item (Get p) \<bind> repeated s item)"
  proof (rule results_cons [where a = "act x" and as = "map act xs" and p = "Get p", OF x])
    fix q assume "input q = separated sep toks xs @ r" "errors_counted q" "K q = K (Get p)"
    then show "results K (run_all (map act xs) (sql_dir q)) r q (repeated s item q)"
      using Cons.IH [of q] Cons.prems(1) k by simp
  qed
  moreover have "repeated s item p = item (Get p) \<bind> repeated s item" using l assms(2) by (simp add: repeated.simps)
  ultimately show ?case by (simp add: results_from [where p' = "Get p"] assms(4))
qed

subsection \<open>Values and conditions\<close>

lemma named_idx_cong:
  assumes "rel_op e = rel_op e'" and "base_col_name e = base_col_name e'" and "expr_value e = expr_value e'"
  shows "named_idx d idx e = named_idx d idx e'"
proof -
  have "col_assoc i ix e = col_assoc i ix e'" for i ix
    using assms by (simp add: fun_eq_iff col_assoc_def Let_def split: option.split)
  then have "add_column_to_index d i e = add_column_to_index d i e'" for d i
    unfolding add_column_to_index_def assms(3) by presburger
  then show ?thesis unfolding named_idx_def assms(3) by presburger
qed

lemma index_constant_cong:
  assumes "rel_op e = rel_op e'" and "base_col_name e = base_col_name e'" and "expr_value e = expr_value e'"
  shows "index_constant d idx e = index_constant d idx e'"
  unfolding index_constant_def assms ..

definition kept_by_value :: "sql_parser \<Rightarrow> string \<times> bool \<times> string option \<times> int" where
  "kept_by_value p = (idxname p, is_bounded p, base_col_name (sql_e p), rel_op (sql_e p))"

definition kept_by_condition :: "sql_parser \<Rightarrow> string \<times> bool" where
  "kept_by_condition p = (idxname p, is_bounded p)"

lemma index_condition_results:
  assumes "input p = r" and "errors_counted p" and "vtype (sql_e p) = v"
    and "m = map_option (\<lambda>(d', e). (d', e \<noteq> None))
      (case v of Param \<Rightarrow> named_idx (sql_dir p) (idxname p) (sql_e p)
       | Const \<Rightarrow> index_constant (sql_dir p) (idxname p) (sql_e p) | Column \<Rightarrow> None)"
  shows "results kept_by_value m r p (index_condition p)"
proof (cases "case v of Param \<Rightarrow> named_idx (sql_dir p) (idxname p) (sql_e p)
    | Const \<Rightarrow> index_constant (sql_dir p) (idxname p) (sql_e p) | Column \<Rightarrow> None")
  case None
  with assms show ?thesis by (simp add: results_def index_condition_def)
next
  case (Some de)
  obtain d e where "de = (d, e)" by (cases de)
  with Some assms show ?thesis
    using count_error_nonzero [of "p\<lparr>sql_dir := d\<rparr>"]
    by (auto simp: results_def index_condition_def kept_by_value_def SemErr_def)
qed

lemma IndexValue_results:
  assumes "input p = value_toks sp v @ r" and "errors_counted p" and "base_col_name (sql_e p) = Some base" and "rel_op (sql_e p) = op"
  shows "results kept_by_value (value_action (idxname p) base op v (sql_dir p)) r p (pr_IndexValue p)"
proof -
  have set: "results kept_by_value (value_action (idxname p) base op v (sql_dir p)) r p (index_condition (set_value vt q))"
    if "input q = r" "errors_counted q" "err_count q = err_count p" "parser.more q = parser.more p"
      "\<exists>w. (vt = Param \<and> v = Parameter w (copy_token q)) \<or> (vt = Const \<and> v \<in> {Quoted (copy_token q), Numeral (copy_token q)})"
    for q vt
  proof -
    have f: "sql_dir q = sql_dir p" "sql_e q = sql_e p" "idxname q = idxname p" "is_bounded q = is_bounded p"
      using that(4) by (cases p; cases q; simp)+
    let ?q = "set_value vt q" and ?s = "copy_token q"
    have n: "named_idx (sql_dir q) (idxname q) (sql_e ?q) = named_idx (sql_dir p) (idxname p) (sql_expr base op Param ?s)"
      "index_constant (sql_dir q) (idxname q) (sql_e ?q) = index_constant (sql_dir p) (idxname p) (sql_expr base op Const ?s)"
      unfolding f by (rule named_idx_cong index_constant_cong; simp add: set_value_def sql_expr_def param_expr_def assms(3,4) f copy_token_def)+
    have "results kept_by_value (value_action (idxname p) base op v (sql_dir p)) r ?q (index_condition ?q)"
      using that(5) n by (intro index_condition_results [where v = vt]) (use that(1,2) in \<open>auto simp: set_value_def\<close>)
    then show ?thesis by (rule results_from) (use that(3) f in \<open>simp_all add: set_value_def kept_by_value_def\<close>)
  qed
  show ?thesis
  proof (cases v)
    case (Parameter dollar s)
    have "pr_IndexValue p = index_condition (set_value Param (if dollar then Get (Get p) else Get p))"
      using Parameter assms(1) by (auto simp: pr_IndexValue_def token_simps)
    moreover have "copy_token (if dollar then Get (Get p) else Get p) = s"
      "input (if dollar then Get (Get p) else Get p) = r"
      using Parameter assms(1) by (auto simp: token_simps)
    ultimately show ?thesis
      using set [of "if dollar then Get (Get p) else Get p" Param] Parameter assms(2) by auto
  next
    case (Quoted s)
    have "pr_IndexValue p = index_condition (set_value Const (Get p))"
      using Quoted assms(1) by (auto simp: pr_IndexValue_def pr_constant_def token_simps)
    then show ?thesis using set [of "Get p" Const] Quoted assms(1,2) by (auto simp: token_simps)
  next
    case (Numeral s)
    have "pr_IndexValue p = index_condition (set_value Const (Get p))"
      using Numeral assms(1) by (auto simp: pr_IndexValue_def pr_constant_def token_simps)
    then show ?thesis using set [of "Get p" Const] Numeral assms(1,2) by (auto simp: token_simps)
  qed
qed

lemma build_index_eq: "build_index t p = p\<lparr>sql_dir := with_index t (idxname p) (sql_dir p)\<rparr>"
  by (simp add: build_index_def with_index_def)

lemma relops_keys: "s \<in> fst ` set relops \<Longrightarrow> map_of relops s = Some (relop_num s)"
  by (auto simp: relops_def relop_num_def)

lemma IndexCondition_results:
  assumes "input p = condition_toks sp c @ r" and "c_relop c \<in> fst ` set relops" and "errors_counted p"
  shows "results kept_by_condition (condition_action (idxname p) c (sql_dir p)) r p (pr_IndexCondition p)"
proof -
  let ?p1 = "(Get p)\<lparr>sql_e := (sql_e p)\<lparr>base_col_name := Some (c_column c)\<rparr>\<rparr>"
  let ?p2 = "(Get ?p1)\<lparr>sql_e := (sql_e ?p1)\<lparr>rel_op := relop_num (c_relop c)\<rparr>\<rparr>"
  have i: "input p = name_tok (c_column c) # kw sp (c_relop c) # value_toks sp (c_value c) @ r"
    using assms(1) by (simp add: condition_toks_def)
  have l: "la ?p1 = kw sp (c_relop c)" using i by (simp add: token_simps)
  have "pr_IndexCondition p = pr_IndexValue (pr_relop ?p1)" using i by (simp add: pr_IndexCondition_def token_simps)
  also have "pr_relop ?p1 = ?p2" using l relops_keys [OF assms(2)] by (simp add: pr_relop_def)
  finally have e: "pr_IndexCondition p = pr_IndexValue ?p2" .
  have "results kept_by_value (value_action (idxname ?p2) (c_column c) (relop_num (c_relop c)) (c_value c) (sql_dir ?p2)) r ?p2
      (pr_IndexValue ?p2)"
    by (rule IndexValue_results [where sp = sp]) (use i assms(3) in simp_all)
  then have "results kept_by_condition (condition_action (idxname p) c (sql_dir p)) r ?p2 (pr_IndexCondition p)"
    unfolding e condition_action_def by (intro results_keep [where K = kept_by_value and K' = kept_by_condition])
      (simp_all add: kept_by_value_def kept_by_condition_def)
  then show ?thesis by (rule results_from) (simp_all add: kept_by_condition_def)
qed

lemma ValueList_results:
  assumes "input p = value_toks sp v @ separated (kw sp '','') (value_toks sp) vs @ r" and "first r \<noteq> Some (Key '','')"
    and "errors_counted p"
  shows "results (\<lambda>_. ()) (run_all (map (value_action (idxname p) '''' 4) (v # vs)) (sql_dir p)) r p (pr_ValueList p)"
proof -
  let ?p = "p\<lparr>sql_e := (sql_e p)\<lparr>base_col_name := Some '''', rel_op := 4\<rparr>\<rparr>"
  let ?r1 = "separated (kw sp '','') (value_toks sp) vs @ r"
  have item: "results kept_by_value (value_action (idxname p) '''' 4 w (sql_dir q)) r' q (pr_IndexValue q)"
    if "input q = value_toks sp w @ r'" "errors_counted q" "kept_by_value q = kept_by_value ?p" for w q r'
    using IndexValue_results [OF that(1,2), of "''''" 4] that(3) by (simp add: kept_by_value_def)
  have one: "results kept_by_value (value_action (idxname p) '''' 4 v (sql_dir ?p)) ?r1 ?p (pr_IndexValue ?p)"
    by (rule item) (use assms in simp_all)
  have rest: "results kept_by_value (run_all (map (value_action (idxname p) '''' 4) vs) (sql_dir q)) r q (repeated (Key '','') pr_IndexValue q)"
    if "input q = ?r1" "errors_counted q" "kept_by_value q = kept_by_value ?p" for q
    by (rule repeated_results [where toks = "value_toks sp" and sep = "kw sp '',''" and k = "kept_by_value ?p"])
      (use that assms(2) item in \<open>simp_all add: kept_by_value_def\<close>)
  have "results kept_by_value (run_all (value_action (idxname p) '''' 4 v # map (value_action (idxname p) '''' 4) vs) (sql_dir ?p)) r ?p
      (pr_IndexValue ?p \<bind> repeated (Key '','') pr_IndexValue)"
    by (rule results_cons [where a = "value_action (idxname p) '''' 4 v" and p = ?p, OF one rest])
  then have "results (\<lambda>_. ()) (run_all (map (value_action (idxname p) '''' 4) (v # vs)) (sql_dir ?p)) r ?p (pr_ValueList p)"
    unfolding pr_ValueList_def list.map by (rule results_keep) simp
  then have "results (\<lambda>_. ()) (run_all (map (value_action (idxname p) [] 4) (v # vs)) (sql_dir p)) r ?p (pr_ValueList p)" by simp
  then show ?thesis by (rule results_from) simp_all
qed

subsection \<open>Plans\<close>

lemma WhereClause_results:
  assumes "input p = where_toks sp cs @ r" and "cs \<noteq> []" and "\<forall>c\<in>set cs. c_relop c \<in> fst ` set relops"
    and "first r \<noteq> Some (Key ''AND'')" and "errors_counted p"
  shows "results kept_by_condition (scan_action (idxname p) cs (sql_dir p)) r (p\<lparr>is_bounded := True\<rparr>) (pr_WhereClause p)"
proof -
  obtain c cs' where cs: "cs = c # cs'" using assms(2) by (cases cs) auto
  let ?p = "(build_index (CHR ''O'') (Get p))\<lparr>is_bounded := True\<rparr>"
  let ?r1 = "separated (kw sp ''AND'') (condition_toks sp) cs' @ r"
  let ?act = "condition_action (idxname p)"
  have item: "results kept_by_condition (?act x (sql_dir q)) r' q (pr_IndexCondition q)"
    if "x \<in> set cs" "input q = condition_toks sp x @ r'" "errors_counted q" "kept_by_condition q = kept_by_condition ?p" for x q r'
    using IndexCondition_results [OF that(2) _ that(3)] that(1,4) assms(3) by (simp add: kept_by_condition_def build_index_eq)
  have one: "results kept_by_condition (?act c (sql_dir ?p)) ?r1 ?p (pr_IndexCondition ?p)"
    by (rule item) (use assms(1,5) cs in \<open>simp_all add: build_index_eq where_toks_def\<close>)
  have rest: "results kept_by_condition (run_all (map ?act cs') (sql_dir q)) r q (repeated (Key ''AND'') pr_IndexCondition q)"
    if "input q = ?r1" "errors_counted q" "kept_by_condition q = kept_by_condition ?p" for q
    by (rule repeated_results [where toks = "condition_toks sp" and sep = "kw sp ''AND''" and k = "kept_by_condition ?p"])
      (use that assms(4) item cs in \<open>simp_all add: kept_by_condition_def\<close>)
  have "results kept_by_condition (run_all (?act c # map ?act cs') (sql_dir ?p)) r ?p
      (pr_IndexCondition ?p \<bind> repeated (Key ''AND'') pr_IndexCondition)"
    by (rule results_cons [where a = "?act c" and p = ?p, OF one rest])
  moreover have "pr_WhereClause p = pr_IndexCondition ?p \<bind> repeated (Key ''AND'') pr_IndexCondition"
    using assms(1) cs by (simp add: pr_WhereClause_def where_toks_def token_simps)
  ultimately have "results kept_by_condition (scan_action (idxname p) cs (sql_dir p)) r ?p (pr_WhereClause p)"
    using cs by (simp add: scan_action_def build_index_eq del: run_all.simps)
  then show ?thesis by (rule results_from) (simp_all add: build_index_eq kept_by_condition_def)
qed

lemma Order_results:
  assumes "input p = order_toks sp ord @ r" and "first r = Some (Key '';'')" and "errors_counted p"
  shows "results (\<lambda>_. ()) (order_action (idxname p) (is_bounded p) ord (sql_dir p)) r p
    (if la_kind p = Some (Key ''ORDER'') then pr_Order (Get p) else Some p)"
proof (cases ord)
  case None
  then have "la_kind p = Some (Key '';'')" using assms(1,2) by (simp add: la_first order_toks_def)
  with None assms show ?thesis by (simp add: order_action_def order_toks_def results_run)
next
  case (Some o')
  have l: "la_kind p = Some (Key ''ORDER'')" "la_kind (Get p) = Some (Key (case o' of Asc \<Rightarrow> ''ASC'' | Desc \<Rightarrow> ''DESC''))"
    "input (Get (Get p)) = r" using assms(1) Some by (cases o'; simp add: order_toks_def la_input)+
  then have "pr_Order (Get p) = map_option (\<lambda>d. (Get (Get p))\<lparr>sql_dir := d\<rparr>) (sort_scan (sql_dir p) (is_bounded p) (idxname p) o')"
    by (cases o') (simp_all add: pr_Order_def)
  with l Some assms(3) show ?thesis
    by (cases "sort_scan (sql_dir p) (is_bounded p) (idxname p) o'") (simp_all add: order_action_def results_crash results_run)
qed

lemma IndexScan_results:
  assumes "input p = [kw sp ''ORDERED'', kw sp ''INDEX''] @ index_toks sp ix @ where_toks sp cs @ r"
    and "\<forall>c\<in>set cs. c_relop c \<in> fst ` set relops" and "first r \<in> {Some (Key ''ORDER''), Some (Key '';'')}" and "errors_counted p"
    and "idxname p = ''PRIMARY''" and "\<not> is_bounded p"
  shows "results kept_by_condition (scan_action (scan_name ix) cs (sql_dir p)) r
    (p\<lparr>idxname := scan_name ix, is_bounded := cs \<noteq> []\<rparr>) (pr_IndexScan p)"
proof -
  let ?p1 = "Get (Get p)"
  let ?p2 = "if ix = Default_Index then ?p1 else (Get ?p1)\<lparr>idxname := scan_name ix\<rparr>"
  have k: "first (where_toks sp cs @ r) \<in> {Some (Key ''WHERE''), Some (Key ''ORDER''), Some (Key '';'')}"
    using assms(3) by (cases cs) (auto simp: where_toks_def)
  have i1: "input ?p1 = index_toks sp ix @ where_toks sp cs @ r" using assms(1) by simp
  have s: "Expect (Some (Key ''INDEX'')) (Expect (Some (Key ''ORDERED'')) p) = ?p1" using assms(1) by (simp add: token_simps)
  have p2: "(if la_kind ?p1 = Some Name then (let q = Get ?p1 in q\<lparr>idxname := copy_token q\<rparr>)
      else if la_kind ?p1 = Some (Key ''PRIMARY'') then Get ?p1 else ?p1) = ?p2"
    using i1 k assms(5) by (cases ix) (auto simp: token_simps la_first)
  have f: "input ?p2 = where_toks sp cs @ r" "idxname ?p2 = scan_name ix" "sql_dir ?p2 = sql_dir p" "errors_counted ?p2"
    "is_bounded ?p2 = is_bounded p" "err_count ?p2 = err_count p"
    using i1 assms(4,5) by (cases ix; simp)+
  have e: "pr_IndexScan p = (if la_kind ?p2 = Some (Key ''WHERE'') then pr_WhereClause ?p2
         else if la_kind ?p2 = Some (Key ''ORDER'') \<or> la_kind ?p2 = Some (Key '';'')
           then Some (?p2\<lparr>sql_dir := full_scan (idxname ?p2) (sql_dir ?p2)\<rparr>)
         else Some (SynErr ?p2))"
    unfolding pr_IndexScan_def s Let_def p2 [unfolded Let_def] ..
  show ?thesis
  proof (cases "cs = []")
    case True
    then have "la_kind ?p2 = Some (Key ''ORDER'') \<or> la_kind ?p2 = Some (Key '';'')" "input ?p2 = r"
      using la_first [OF f(1)] assms(3) f(1) by (auto simp: where_toks_def)
    then have "pr_IndexScan p = Some (?p2\<lparr>sql_dir := full_scan (idxname ?p2) (sql_dir ?p2)\<rparr>)" unfolding e by auto
    with True f \<open>input ?p2 = r\<close> assms(6) show ?thesis
      by (simp add: scan_action_def results_run kept_by_condition_def del: if_split_asm)
  next
    case False
    then have "la_kind ?p2 = Some (Key ''WHERE'')" using la_first [OF f(1)] by (cases cs) (simp_all add: where_toks_def)
    then have "pr_IndexScan p = pr_WhereClause ?p2" unfolding e by simp
    moreover have "first r \<noteq> Some (Key ''AND'')" using assms(3) by auto
    ultimately have "results kept_by_condition (scan_action (scan_name ix) cs (sql_dir p)) r (?p2\<lparr>is_bounded := True\<rparr>) (pr_IndexScan p)"
      using WhereClause_results [OF f(1) False assms(2) _ f(4)] f(2,3) by simp
    then show ?thesis by (rule results_from) (use f False in \<open>simp_all add: kept_by_condition_def\<close>)
  qed
qed

lemma Scan_results:
  assumes "input p = plan_toks sp (Index_Scan ix cs ord) @ r" and "\<forall>c\<in>set cs. c_relop c \<in> fst ` set relops"
    and "first r = Some (Key '';'')" and "errors_counted p"
  shows "results (\<lambda>_. ()) (plan_action (Index_Scan ix cs ord) (sql_dir p)) r p (pr_Scan p)"
proof -
  let ?p1 = "(Get p)\<lparr>idxname := ''PRIMARY'', is_bounded := False\<rparr>"
  let ?p2 = "?p1\<lparr>idxname := scan_name ix, is_bounded := cs \<noteq> []\<rparr>"
  let ?r1 = "order_toks sp ord @ r"
  let ?order = "\<lambda>q. if la_kind q = Some (Key ''ORDER'') then pr_Order (Get q) else Some q"
  have sd: "sql_dir ?p2 = sql_dir p" by simp
  have l: "la_kind ?p1 = Some (Key ''ORDERED'')" using assms(1) by (simp add: la_input)
  then have e: "pr_Scan p = pr_IndexScan ?p1 \<bind> ?order" using assms(1) by (simp add: pr_Scan_def token_simps)
  have fo: "first ?r1 \<in> {Some (Key ''ORDER''), Some (Key '';'')}" using assms(3) by (cases ord) (auto simp: order_toks_def split: sort_order.split)
  have "results kept_by_condition (scan_action (scan_name ix) cs (sql_dir ?p1)) ?r1 ?p2 (pr_IndexScan ?p1)"
    by (rule IndexScan_results [OF _ assms(2) fo]) (use assms(1,4) in simp_all)
  then have one: "results kept_by_condition (scan_action (scan_name ix) cs (sql_dir ?p2)) ?r1 ?p2 (pr_IndexScan ?p1)" by simp
  have two: "results kept_by_condition (run_all [order_action (scan_name ix) (cs \<noteq> []) ord] (sql_dir q)) r q (?order q)"
    if "input q = ?r1" "errors_counted q" "kept_by_condition q = kept_by_condition ?p2" for q
  proof -
    have "idxname q = scan_name ix" "is_bounded q = (cs \<noteq> [])" using that(3) by (simp_all add: kept_by_condition_def)
    moreover have "results kept_by_condition (order_action (idxname q) (is_bounded q) ord (sql_dir q)) r q (?order q)"
    proof -
      note o = Order_results [OF that(1) assms(3) that(2)]
      show ?thesis
      proof (cases rule: results_cases [OF o])
        case 1
        then show ?thesis by (simp add: results_crash)
      next
        case (2 d b q')
        then have "kept_by_condition q' = kept_by_condition q"
          by (auto simp: pr_Order_def kept_by_condition_def SynErr_def split: if_splits)
        with 2 show ?thesis by (simp add: results_run)
      qed
    qed
    ultimately show ?thesis unfolding run_all_one by simp
  qed
  have "results kept_by_condition (run_all [scan_action (scan_name ix) cs, order_action (scan_name ix) (cs \<noteq> []) ord] (sql_dir ?p2)) r ?p2
      (pr_IndexScan ?p1 \<bind> ?order)"
    by (rule results_cons [where a = "scan_action (scan_name ix) cs" and p = ?p2, OF one two])
  then have "results (\<lambda>_. ()) (run_all [scan_action (scan_name ix) cs, order_action (scan_name ix) (cs \<noteq> []) ord] (sql_dir ?p2)) r ?p2
      (pr_Scan p)" unfolding e by (rule results_keep) simp
  then have "results (\<lambda>_. ()) (plan_action (Index_Scan ix cs ord) (sql_dir p)) r ?p2 (pr_Scan p)"
    unfolding plan_action.simps sd .
  then show ?thesis by (rule results_from) simp_all
qed

lemma OneRow_results:
  assumes "input p = one_row_toks sp key v vs @ r" and "first r \<noteq> Some (Key '','')" and "errors_counted p"
  shows "results (\<lambda>_. ()) (one_row_action key (v # vs) (sql_dir p)) r p (pr_OneRowWhereClause p)"
proof -
  let ?q = "(case key of Primary_Key \<Rightarrow> Get (Get (Get p)) | Unique_Key s \<Rightarrow> Get (Get (Get (Get p))))\<lparr>idxname := key_name key\<rparr>"
  let ?p = "Get (build_index (key_type key) ?q)"
  have q: "input ?q = kw sp ''='' # value_toks sp v @ separated (kw sp '','') (value_toks sp) vs @ r" "sql_dir ?q = sql_dir p"
    "errors_counted ?q" "err_count ?q = err_count p" "idxname ?q = key_name key"
    using assms(1,3) by (cases key; simp add: one_row_toks_def)+
  have e: "pr_OneRowWhereClause p = pr_ValueList ?p"
    using assms(1) q(1) by (cases key) (simp_all add: pr_OneRowWhereClause_def pr_UniqueIndexSpec_def one_row_toks_def token_simps build_index_eq)
  have i: "input ?p = value_toks sp v @ separated (kw sp '','') (value_toks sp) vs @ r" using q(1) by (simp add: build_index_eq)
  have "results (\<lambda>_. ()) (run_all (map (value_action (idxname ?p) '''' 4) (v # vs)) (sql_dir ?p)) r ?p (pr_ValueList ?p)"
    by (rule ValueList_results [OF i assms(2)]) (use q(3) in \<open>simp add: build_index_eq\<close>)
  then have "results (\<lambda>_. ()) (one_row_action key (v # vs) (sql_dir p)) r ?p (pr_OneRowWhereClause p)"
    unfolding e one_row_action_def using q by (simp add: build_index_eq del: run_all.simps)
  then show ?thesis by (rule results_from) (cases key; simp add: build_index_eq)+
qed

lemma QueryPlan_results:
  assumes "input p = plan_toks sp pl @ r" and "good_plan pl" and "first r = Some (Key '';'')" and "errors_counted p"
  shows "results (\<lambda>_. ()) (plan_action pl (sql_dir p)) r p (pr_QueryPlan p)"
proof (cases pl)
  case (One_Row key v vs)
  then have "la_kind p = Some (Key ''WHERE'')" using assms(1) by (simp add: one_row_toks_def la_input)
  with One_Row assms OneRow_results show ?thesis by (simp add: pr_QueryPlan_def)
next
  case Table_Scan
  with assms show ?thesis by (simp add: pr_QueryPlan_def pr_Scan_def token_simps results_run)
next
  case (Index_Scan ix cs ord)
  then have "la_kind p = Some (Key ''USING'')" using assms(1) by (simp add: la_input)
  then have "pr_QueryPlan p = pr_Scan p" by (simp add: pr_QueryPlan_def)
  with Index_Scan assms Scan_results [of p sp ix cs ord r] show ?thesis by (simp del: plan_action.simps plan_toks.simps)
qed

subsection \<open>Statements\<close>

lemma TableSpec_results:
  assumes "input p = table_toks sp t @ r" and "errors_counted p"
  shows "input (pr_TableSpec p) = r" "sql_dir (pr_TableSpec p) = set_table t (sql_dir p)" "errors_counted (pr_TableSpec p)"
    "err_count (pr_TableSpec p) = err_count p"
proof -
  obtain db tb where t: "t = (db, tb)" by (cases t)
  have *: "input (pr_TableSpec p) = r \<and> sql_dir (pr_TableSpec p) = set_table t (sql_dir p) \<and> errors_counted (pr_TableSpec p) \<and>
    err_count (pr_TableSpec p) = err_count p"
  proof (cases db)
    case None
    with assms t show ?thesis by (simp add: pr_TableSpec_def token_simps)
  next
    case (Some s)
    with assms t show ?thesis by (simp add: pr_TableSpec_def token_simps)
  qed
  then show "input (pr_TableSpec p) = r" "sql_dir (pr_TableSpec p) = set_table t (sql_dir p)" "errors_counted (pr_TableSpec p)"
    "err_count (pr_TableSpec p) = err_count p" by simp_all
qed

lemma Column_results:
  assumes "input p = column_toks sp c @ r" and "first r \<noteq> Some (Key ''AS'')" and "errors_counted p"
  shows "results (\<lambda>_. ()) (Some (add_column c (sql_dir p), False)) r p (Some (pr_Column p))"
proof -
  obtain n al where c: "c = (n, al)" by (cases c)
  have "la_kind (Get p) = first r" if "al = None" using assms(1) c that by (simp add: la_first)
  with assms c show ?thesis
    by (cases al) (auto simp: pr_Column_def token_simps results_run split: option.splits)
qed

lemma run_all_pure: "run_all (map (\<lambda>x d. Some (f x d, False)) xs) d = Some (fold f xs d, False)"
  by (induction xs arbitrary: d) auto

lemma Columns_results:
  assumes "input p = columns_toks sp cols @ r" and "first r = Some (Key ''FROM'')" and "errors_counted p"
  shows "results (\<lambda>_. ()) (Some (set_columns cols (sql_dir p), False)) r p
    (if la_kind p = Some (Key ''*'') then (let q = Get p in Some (q\<lparr>sql_dir := (sql_dir q)\<lparr>select_star := True\<rparr>\<rparr>))
     else if la_kind p = Some Name then repeated (Key '','') (Some \<circ> pr_Column) (pr_Column p)
     else Some (SynErr p))"
proof (cases cols)
  case None
  with assms show ?thesis by (simp add: token_simps results_run)
next
  case (Some ccs)
  obtain c cs where cs: "ccs = (c, cs)" by (cases ccs)
  let ?act = "\<lambda>c d. Some (add_column c d, False)" and ?r1 = "separated (kw sp '','') (column_toks sp) cs @ r"
  have i: "input p = column_toks sp c @ ?r1" using assms(1) Some cs by simp
  then have l: "la_kind p = Some Name" by (cases c) (simp add: la_input)
  have fr: "first ?r1 \<noteq> Some (Key ''AS'')" using assms(2) by (cases cs) (auto simp: separated_def)
  have one: "results (\<lambda>_. ()) (?act c (sql_dir p)) ?r1 p (Some (pr_Column p))" by (rule Column_results [OF i fr assms(3)])
  have rest: "results (\<lambda>_. ()) (run_all (map ?act cs) (sql_dir q)) r q (repeated (Key '','') (Some \<circ> pr_Column) q)"
    if "input q = ?r1" "errors_counted q" for q
    by (rule repeated_results [where toks = "column_toks sp" and sep = "kw sp '',''" and k = "()"])
      (use that assms(2) in \<open>auto intro: Column_results\<close>)
  have "results (\<lambda>_. ()) (run_all (?act c # map ?act cs) (sql_dir p)) r p (Some (pr_Column p) \<bind> repeated (Key '','') (Some \<circ> pr_Column))"
    by (rule results_cons [where a = "?act c", OF one rest])
  then have "results (\<lambda>_. ()) (Some (fold add_column (c # cs) (sql_dir p), False)) r p
      (repeated (Key '','') (Some \<circ> pr_Column) (pr_Column p))"
    using run_all_pure [of add_column "c # cs" "sql_dir p"] by (simp del: run_all.simps fold.simps)
  with Some cs l show ?thesis by simp
qed

lemma plan_toks_first: "first (plan_toks sp pl @ r) = (case pl of One_Row _ _ _ \<Rightarrow> Some (Key ''WHERE'') | _ \<Rightarrow> Some (Key ''USING''))"
  by (cases pl) (simp_all add: one_row_toks_def)

lemma DeleteQuery_results:
  assumes "input p = [kw sp ''DELETE'', kw sp ''FROM''] @ table_toks sp t @ one_row_toks sp key v vs @ r" and "first r \<noteq> Some (Key '','')"
    and "errors_counted p"
  shows "results (\<lambda>_. ()) (statement_action (Delete t key v vs) (sql_dir p)) r p (pr_DeleteQuery p)"
proof -
  let ?p1 = "Get (Get p)"
  let ?p2 = "pr_TableSpec ?p1"
  have i: "input ?p1 = table_toks sp t @ one_row_toks sp key v vs @ r" "errors_counted ?p1"
    "pr_DeleteQuery p = map_option (\<lambda>q. q\<lparr>sql_dir := (sql_dir q)\<lparr>allow_delete := True\<rparr>\<rparr>) (pr_OneRowWhereClause ?p2)"
    using assms(1,3) by (simp_all add: token_simps pr_DeleteQuery_def)
  note t = TableSpec_results [OF i(1,2)]
  have "results (\<lambda>_. ()) (one_row_action key (v # vs) (sql_dir ?p2)) r ?p2 (pr_OneRowWhereClause ?p2)"
    by (rule OneRow_results [OF t(1) assms(2) t(3)])
  from results_map [OF this, of "\<lambda>q. q\<lparr>sql_dir := (sql_dir q)\<lparr>allow_delete := True\<rparr>\<rparr>" "\<lambda>d. d\<lparr>allow_delete := True\<rparr>" "\<lambda>_. ()"]
  have "results (\<lambda>_. ()) (statement_action (Delete t key v vs) (sql_dir p)) r ?p2 (pr_DeleteQuery p)"
    unfolding i(3) using t(2) by simp
  then show ?thesis by (rule results_from) (use t(4) in simp_all)
qed

lemma after_from_results:
  assumes "input q = [kw sp ''FROM''] @ table_toks sp t @ (case pl of None \<Rightarrow> [] | Some q \<Rightarrow> plan_toks sp q) @ r"
    and "first r = Some (Key '';'')" and "errors_counted q" and "\<And>q'. pl = Some q' \<Longrightarrow> good_plan q'"
  shows "results (\<lambda>_. ()) (case pl of None \<Rightarrow> Some (set_table t (sql_dir q), False) | Some q' \<Rightarrow> plan_action q' (set_table t (sql_dir q))) r q
    (let p3 = pr_TableSpec (Expect (Some (Key ''FROM'')) q) in
     if la_kind p3 = Some (Key ''WHERE'') \<or> la_kind p3 = Some (Key ''USING'') then pr_QueryPlan p3 else Some p3)"
proof -
  let ?q = "pr_TableSpec (Get q)"
  have x: "Expect (Some (Key ''FROM'')) q = Get q" using assms(1) by (simp add: token_simps)
  have "input (Get q) = table_toks sp t @ (case pl of None \<Rightarrow> [] | Some q \<Rightarrow> plan_toks sp q) @ r" "errors_counted (Get q)"
    using assms by simp_all
  note ts = TableSpec_results [OF this]
  show ?thesis
  proof (cases pl)
    case None
    then have "la_kind ?q = Some (Key '';'')" using la_first [OF ts(1)] assms(2) by simp
    with None ts show ?thesis unfolding x Let_def by (simp add: results_run)
  next
    case (Some q')
    then have "la_kind ?q = Some (Key ''WHERE'') \<or> la_kind ?q = Some (Key ''USING'')"
      using la_first [OF ts(1)] plan_toks_first by (simp split: sql_plan.splits)
    moreover have "results (\<lambda>_. ()) (plan_action q' (sql_dir ?q)) r ?q (pr_QueryPlan ?q)"
      by (rule QueryPlan_results) (use Some ts assms(2,4) in simp_all)
    then have "results (\<lambda>_. ()) (plan_action q' (set_table t (sql_dir q))) r ?q (pr_QueryPlan ?q)" by (simp only: ts(2) sql_fields)
    then have "results (\<lambda>_. ()) (plan_action q' (set_table t (sql_dir q))) r q (pr_QueryPlan ?q)"
      by (rule results_from) (use ts(4) in simp_all)
    ultimately show ?thesis using Some unfolding x Let_def by simp
  qed
qed

lemma SelectQuery_results:
  assumes "input p = [kw sp ''SELECT''] @ columns_toks sp cols @ [kw sp ''FROM''] @ table_toks sp t @
      (case pl of None \<Rightarrow> [] | Some q \<Rightarrow> plan_toks sp q) @ r"
    and "first r = Some (Key '';'')" and "errors_counted p" and "\<And>q'. pl = Some q' \<Longrightarrow> good_plan q'"
  shows "results (\<lambda>_. ()) (statement_action (Select cols t pl) (sql_dir p)) r p (pr_SelectQuery p)"
proof -
  let ?p1 = "Get p"
  let ?r1 = "[kw sp ''FROM''] @ table_toks sp t @ (case pl of None \<Rightarrow> [] | Some q \<Rightarrow> plan_toks sp q) @ r"
  let ?act = "\<lambda>d. case pl of None \<Rightarrow> Some (set_table t d, False) | Some q \<Rightarrow> plan_action q (set_table t d)"
  have l: "Expect (Some (Key ''SELECT'')) p = ?p1" "input ?p1 = columns_toks sp cols @ ?r1"
    using assms(1) by (simp_all add: token_simps)
  have c: "results (\<lambda>_. ()) (Some (set_columns cols (sql_dir ?p1), False)) ?r1 ?p1
    (if la_kind ?p1 = Some (Key ''*'') then (let q = Get ?p1 in Some (q\<lparr>sql_dir := (sql_dir q)\<lparr>select_star := True\<rparr>\<rparr>))
     else if la_kind ?p1 = Some Name then repeated (Key '','') (Some \<circ> pr_Column) (pr_Column ?p1)
     else Some (SynErr ?p1))"
    by (rule Columns_results [OF l(2)]) (use assms(3) in simp_all)
  note a = after_from_results [OF _ assms(2) _ assms(4), where t = t and sp = sp]
  have "results (\<lambda>_. ()) (do { (d1, b1) \<leftarrow> Some (set_columns cols (sql_dir ?p1), False); (d2, b2) \<leftarrow> ?act d1; Some (d2, b1 \<or> b2) }) r ?p1
    (pr_SelectQuery p)"
    unfolding pr_SelectQuery_def Let_def l(1) by (rule results_bind [OF c [unfolded Let_def] a [unfolded Let_def]])
  then have "results (\<lambda>_. ()) (statement_action (Select cols t pl) (sql_dir p)) r ?p1 (pr_SelectQuery p)"
    by (simp split: option.splits)
  then show ?thesis by (rule results_from) simp_all
qed

lemma NSQL_results:
  assumes "input p = statement_toks sp st" and "good_statement st" and "errors_counted p"
  shows "results (\<lambda>_. ()) (statement_action st (sql_dir p)) [] p (pr_NSQL p)"
proof -
  let ?out = "case st of Select _ _ _ \<Rightarrow> pr_SelectQuery p | Delete _ _ _ _ \<Rightarrow> pr_DeleteQuery p | Plan _ \<Rightarrow> pr_QueryPlan p"
  have "results (\<lambda>_. ()) (statement_action st (sql_dir p)) [kw sp '';''] p ?out"
  proof (cases st)
    case (Select cols t pl)
    have "results (\<lambda>_. ()) (statement_action (Select cols t pl) (sql_dir p)) [kw sp '';''] p (pr_SelectQuery p)"
      by (rule SelectQuery_results) (use assms Select in simp_all)
    with Select show ?thesis by simp
  next
    case (Delete t key v vs)
    have "results (\<lambda>_. ()) (statement_action (Delete t key v vs) (sql_dir p)) [kw sp '';''] p (pr_DeleteQuery p)"
      by (rule DeleteQuery_results) (use assms Delete in simp_all)
    with Delete show ?thesis by simp
  next
    case (Plan pl)
    have "results (\<lambda>_. ()) (plan_action pl (sql_dir p)) [kw sp '';''] p (pr_QueryPlan p)"
      by (rule QueryPlan_results) (use assms Plan in simp_all)
    with Plan show ?thesis by simp
  qed
  then have "results (\<lambda>_. ()) (statement_action st (sql_dir p)) [] p (?out \<bind> (\<lambda>q. Some (Expect (Some (Key '';'')) q)))"
    by (cases rule: results_cases) (simp_all add: results_crash results_run token_simps)
  moreover have "la_kind p = (case st of Select _ _ _ \<Rightarrow> Some (Key ''SELECT'') | Delete _ _ _ _ \<Rightarrow> Some (Key ''DELETE'')
      | Plan (One_Row _ _ _) \<Rightarrow> Some (Key ''WHERE'') | Plan _ \<Rightarrow> Some (Key ''USING''))"
    using la_first [OF assms(1)] plan_toks_first by (cases st) (simp_all split: sql_plan.splits)
  then have "pr_NSQL p = ?out \<bind> (\<lambda>q. Some (Expect (Some (Key '';'')) q))"
    by (cases st) (auto simp: pr_NSQL_def split: sql_plan.splits)
  ultimately show ?thesis by simp
qed

lemma sql_parse_results:
  assumes "good_statement st"
  shows "(case statement_action st d of None \<Rightarrow> sql_parse e idx b (statement_toks sp st) d = None
    | Some (d', bad) \<Rightarrow> \<exists>q. sql_parse e idx b (statement_toks sp st) d = Some q \<and> sql_dir q = d' \<and> (err_count q = 0 \<longleftrightarrow> \<not> bad))"
proof -
  let ?p = "start_parser (statement_toks sp st) \<lparr>sql_dir = d, sql_e = e, idxname = idx, is_bounded = b\<rparr> :: sql_parser"
  have "sql_dir ?p = d" by (simp add: start_parser_def Get_def)
  with NSQL_results [of ?p sp st] assms
  have "results (\<lambda>_. ()) (statement_action st d) [] ?p (pr_NSQL ?p)" by (simp add: start_parser_fields)
  then show ?thesis
    by (cases rule: results_cases) (simp_all add: sql_parse_def Expect_def la_def start_parser_fields)
qed

end
