(* ===== verification/N_SQL_Config.thy ===== *)
theory N_SQL_Config
  imports N_SQL_Correct
begin

text \<open>
  What an N-SQL statement does to the indexes of a directory: it keeps the directory well formed
  and gives the index of its plan exactly the parameters it names, as the directives for
  indexes do.
\<close>

subsection \<open>Changes that do not touch the links\<close>

definition index_view :: "index \<Rightarrow> string option \<times> int \<times> int \<times> char" where
  "index_view ix = (idx_name ix, first_col ix, first_col_serial ix, idx_type ix)"

definition same_links :: "dir \<Rightarrow> dir \<Rightarrow> bool" where
  "same_links d d' \<longleftrightarrow> key_columns d' = key_columns d \<and> map index_view (indexes d') = map index_view (indexes d) \<and>
     pathinfo d' = pathinfo d \<and> pathinfo_size d' = pathinfo_size d \<and> dir_magic_number d' = dir_magic_number d"

lemma same_links_names:
  assumes "same_links d d'"
  shows "map idx_name (indexes d') = map idx_name (indexes d)" "map idx_type (indexes d') = map idx_type (indexes d)"
    "length (indexes d') = length (indexes d)"
    "m < length (indexes d) \<Longrightarrow> index_view (indexes d' ! m) = index_view (indexes d ! m)"
proof -
  have v: "map index_view (indexes d') = map index_view (indexes d)" using assms by (simp add: same_links_def)
  have "map (fst \<circ> index_view) (indexes d') = map (fst \<circ> index_view) (indexes d)"
    "map (snd \<circ> snd \<circ> snd \<circ> index_view) (indexes d') = map (snd \<circ> snd \<circ> snd \<circ> index_view) (indexes d)"
    using v by (metis map_map)+
  then show "map idx_name (indexes d') = map idx_name (indexes d)" "map idx_type (indexes d') = map idx_type (indexes d)"
    by (simp_all add: comp_def index_view_def)
  show l: "length (indexes d') = length (indexes d)" using v by (metis length_map)
  assume "m < length (indexes d)"
  then show "index_view (indexes d' ! m) = index_view (indexes d ! m)" using v l by (metis nth_map)
qed

lemma same_links_columns:
  assumes "same_links d d'" and "m < length (indexes d)"
  shows "index_columns d' (indexes d' ! m) = index_columns d (indexes d ! m)"
  using assms same_links_names(4) [OF assms] by (simp add: same_links_def index_columns_def index_view_def)

lemma same_links_ok:
  assumes "same_links d d'" and "config_ok d"
  shows "config_ok d'" "index_map d' = index_map d" "pathinfo_columns d' = pathinfo_columns d"
proof -
  note v = same_links_names [OF assms(1)]
  have s: "key_columns d' = key_columns d" "pathinfo d' = pathinfo d" "pathinfo_size d' = pathinfo_size d"
    "dir_magic_number d' = dir_magic_number d" using assms(1) by (simp_all add: same_links_def)
  have ok: "dir_ok_upto (nat (pathinfo_size d)) d" using assms(2) by (simp add: config_ok_def dir_ok_def)
  then obtain S where "chains d S" by (rule chains_exist)
  then have "chains d' S" using v(3,4) s(1) by (auto simp: chains_def head_ok_def index_view_def)
  moreover have "pathinfo_ok_upto (nat (pathinfo_size d)) d'" "cols_ok (key_columns d')"
    using ok s by (auto simp: dir_ok_upto_def pathinfo_ok_upto_def)
  ultimately have ok': "dir_ok_upto (nat (pathinfo_size d)) d'" by (simp add: chains_dir_ok)
  have c: "columns d' m = columns d m" if "m < length (indexes d)" for m
    using same_links_columns [OF assms(1) that] by (simp add: columns_def)
  show "index_map d' = index_map d" by (rule index_map_cong [OF ok ok' v(1) c])
  show "pathinfo_columns d' = pathinfo_columns d" using s by (simp add: pathinfo_columns_def)
  show "config_ok d'" using ok' s v assms(2) c by (simp add: config_ok_def dir_ok_def separate_def names_once_def)
qed

lemma same_links_trans: "same_links d1 d2 \<Longrightarrow> same_links d2 d3 \<Longrightarrow> same_links d1 d3"
  by (simp add: same_links_def)

lemma set_table_links: "same_links d (set_table t d)"
  by (cases t) (simp add: same_links_def)

lemma set_columns_links: "same_links d (set_columns cols d)"
proof -
  have add: "same_links d (add_column c d)" for c d by (cases c) (simp add: same_links_def)
  have "same_links d (fold add_column cs d)" for cs d
    by (induction cs arbitrary: d) (auto simp: same_links_def [of d d for d] intro: same_links_trans [OF add])
  then show ?thesis by (cases cols) (auto simp: same_links_def [of d "d\<lparr>select_star := True\<rparr>"] split: prod.splits simp del: fold.simps)
qed

lemma full_scan_links: "same_links d (full_scan idx d)"
  by (simp add: same_links_def full_scan_def)

lemma sort_scan_links:
  assumes "sort_scan d bounded idx ord = Some d'"
  shows "same_links d d'"
proof -
  have "index_view (set_sorted ord ix) = index_view ix" for ix by (simp add: index_view_def set_sorted_def Let_def)
  with assms show ?thesis
    by (auto simp: sort_scan_def same_links_def arr_upd_Some Let_def map_update_same split: if_splits Option.bind_splits)
qed

lemma index_constant_links:
  assumes "index_constant d idx e = Some (d', err)"
  shows "same_links d d'"
  using assms
  by (auto simp: index_constant_def same_links_def arr_upd_Some Let_def map_update_same index_view_def
      split: if_splits Option.bind_splits list.splits)

subsection \<open>Values\<close>

lemma named_idx_types:
  assumes "named_idx d idx e = Some (d', err)"
  shows "map idx_type (indexes d') = map idx_type (indexes d)"
proof -
  have sorted: "map idx_type (indexes d1) = map idx_type (indexes d)" if "sort_scan d True idx ord = Some d1" for ord d1
    using same_links_names(2) [OF sort_scan_links [OF that]] .
  have fix_ix: "map idx_type ixs' = map idx_type ixs" if "fix_indexes ixs keys = Some (ixs', keys')" for ixs keys ixs' keys'
    using that by (induction ixs keys arbitrary: ixs' keys' rule: fix_indexes.induct)
      (force simp: fix_index_def split: Option.bind_splits if_splits)+
  have col: "map idx_type (indexes d1) = map idx_type (indexes d)" if "add_column_to_index d n e = Some (d1, col, ex)" for n d1 col ex
    using that by (auto simp: add_column_to_index_def add_key_column_def relink_def Let_def dest!: fix_ix split: prod.splits if_splits Option.bind_splits)
  have link: "map idx_type (indexes d2) = map idx_type (indexes d1)" if "link_column d1 n c = Some d2" for d1 d2 n c
    using that by (auto simp: link_column_def arr_upd_Some map_update_same split: if_splits Option.bind_splits)
  from assms show ?thesis
    by (auto simp: named_idx_def Let_def arr_upd_Some map_update_same sorted dest!: link split: if_splits Option.bind_splits)
      (drule col, simp)+
qed

lemma param_step:
  assumes "config_ok d" and "get_index_by_name d idx = int n" and "fresh_column d (expr_value e)"
    and "columns_fit d ws" and "expr_value e \<in> set ws"
  shows "\<exists>d'. named_idx d idx e = Some (d', None) \<and> config_ok d' \<and> index_map d' = append_col idx (expr_value e) (index_map d) \<and>
    map idx_name (indexes d') = map idx_name (indexes d) \<and> map idx_type (indexes d') = map idx_type (indexes d) \<and>
    pathinfo_columns d' = pathinfo_columns d"
proof -
  have ok: "dir_ok d" "separate d" using assms(1) by (simp_all add: config_ok_def)
  have u: "unused (expr_value e) d" "take 1 (expr_value e) \<noteq> ''[''"
    using assms(1,3) unused_iff [of d "expr_value e"] names_once_get [of d] by (auto simp: config_ok_def fresh_column_def ran_def)
  from named_idx_map [OF ok assms(2) u(2,1) assms(4,5)] obtain d' where
    d': "named_idx d idx e = Some (d', None)" "dir_ok d'" "separate d'"
      "index_map d' = (index_map d)(idx \<mapsto> columns d n @ [expr_value e])" "frame d' = frame d"
      "pathinfo_columns d' = pathinfo_columns d" "map idx_name (indexes d') = map idx_name (indexes d)" by (elim exE conjE)
  have "index_map d idx = Some (columns d n)" using index_map_Some [OF ok(1) assms(2)] get_index_by_name_range [OF assms(2)] by simp
  then have "index_map d' = append_col idx (expr_value e) (index_map d)" using d'(4) by (simp add: append_col_def)
  moreover have "config_ok d'"
    using d' assms(1) frame_magic [OF d'(5)] names_once_cong [OF d'(7)] by (simp add: config_ok_def)
  ultimately show ?thesis using d' named_idx_types [OF d'(1)] by blast
qed

fun value_params :: "sql_value \<Rightarrow> string list" where
  "value_params (Parameter dollar s) = [s]"
| "value_params _ = []"

text \<open>The scanner delivers quoted strings that can be taken apart, and numbers that do not begin with a quote.\<close>

fun value_ok :: "sql_value \<Rightarrow> bool" where
  "value_ok (Quoted s) \<longleftrightarrow> unquote_qstring s \<noteq> None"
| "value_ok (Numeral s) \<longleftrightarrow> take 1 s \<noteq> [CHR 0x22]"
| "value_ok _ \<longleftrightarrow> True"

definition known_type :: "index \<Rightarrow> bool" where
  "known_type ix \<longleftrightarrow> idx_type ix \<in> {CHR ''P'', CHR ''U'', CHR ''O''}"

lemma constant_step:
  assumes "get_index_by_name d idx = int n" and "n < length (indexes d)" and "known_type (indexes d ! n)"
    and "take 1 (expr_value e) = [CHR 0x22] \<longrightarrow> unquote_qstring (expr_value e) \<noteq> None"
  shows "\<exists>d' err. index_constant d idx e = Some (d', err) \<and> (err \<noteq> None \<longleftrightarrow> idx_type (indexes d ! n) \<noteq> CHR ''O'')"
proof -
  obtain w where "(case expr_value e of c # cs \<Rightarrow> if c = CHR 0x22 then unquote_qstring (expr_value e) else Some (expr_value e)
    | [] \<Rightarrow> Some []) = Some w" 
    using assms(4) by (cases "expr_value e"; cases "take 1 (expr_value e) = [CHR 0x22]") auto
  with assms(1-3) show ?thesis by (auto simp: index_constant_def arr_simps Let_def known_type_def)
qed

lemma value_step:
  assumes "config_ok d" and "get_index_by_name d idx = int n" and "\<forall>ix\<in>set (indexes d). known_type ix" and "value_ok v"
    and "\<forall>s\<in>set (value_params v). fresh_column d s" and "columns_fit d ws" and "set (value_params v) \<subseteq> set ws"
  shows "\<exists>d' b. value_action idx base op v d = Some (d', b) \<and> config_ok d' \<and>
    index_map d' = fold (append_col idx) (value_params v) (index_map d) \<and>
    map idx_name (indexes d') = map idx_name (indexes d) \<and> map idx_type (indexes d') = map idx_type (indexes d) \<and>
    pathinfo_columns d' = pathinfo_columns d \<and> (b \<longleftrightarrow> value_params v = [] \<and> idx_type (indexes d ! n) \<noteq> CHR ''O'') \<and>
    set (names (key_columns d')) \<subseteq> set (value_params v) \<union> set (names (key_columns d))"
proof -
  have n: "n < length (indexes d)" using get_index_by_name_range [OF assms(2)] by simp
  then have t: "known_type (indexes d ! n)" using assms(3) by simp
  have const: ?thesis if "value_params v = []" "value_action idx base op v d = map_option (\<lambda>(d', e). (d', e \<noteq> None)) (index_constant d idx e)"
    "take 1 (expr_value e) = [CHR 0x22] \<longrightarrow> unquote_qstring (expr_value e) \<noteq> None" for e
  proof -
    from constant_step [OF assms(2) n t that(3)] obtain d' err where
      c: "index_constant d idx e = Some (d', err)" "err \<noteq> None \<longleftrightarrow> idx_type (indexes d ! n) \<noteq> CHR ''O''" by blast
    note l = index_constant_links [OF c(1)]
    have "key_columns d' = key_columns d" using l by (simp add: same_links_def)
    then show ?thesis using c that same_links_ok [OF l assms(1)] same_links_names(1,2) [OF l] by simp
  qed
  show ?thesis
  proof (cases v)
    case (Parameter dollar s)
    let ?e = "sql_expr base op Param s"
    have e: "expr_value ?e = s" by (simp add: sql_expr_def param_expr_def)
    with param_step [OF assms(1,2) _ assms(6), of ?e] assms(5,7) Parameter obtain d' where
      d': "named_idx d idx ?e = Some (d', None)" "config_ok d'" "index_map d' = append_col idx s (index_map d)"
        "map idx_name (indexes d') = map idx_name (indexes d)" "map idx_type (indexes d') = map idx_type (indexes d)"
        "pathinfo_columns d' = pathinfo_columns d" by auto
    from d' named_idx_names(1) [OF d'(1)] Parameter show ?thesis unfolding e by (simp add: ex_bool_eq del: set_map)
  next
    case (Quoted s)
    then show ?thesis using assms(4) by (intro const [of "sql_expr base op Const s"]) (simp_all add: sql_expr_def param_expr_def)
  next
    case (Numeral s)
    then show ?thesis using assms(4) by (intro const [of "sql_expr base op Const s"]) (simp_all add: sql_expr_def param_expr_def)
  qed
qed

subsection \<open>Lists of values\<close>

definition params :: "(string \<times> int \<times> sql_value) list \<Rightarrow> string list" where
  "params xs = concat (map (\<lambda>(base, op, v). value_params v) xs)"

definition actions :: "string \<Rightarrow> (string \<times> int \<times> sql_value) list \<Rightarrow> dir_action list" where
  "actions idx xs = map (\<lambda>(base, op, v). value_action idx base op v) xs"

definition fresh_columns :: "dir \<Rightarrow> string list \<Rightarrow> bool" where
  "fresh_columns d cols \<longleftrightarrow> distinct cols \<and> (\<forall>s\<in>set cols. fresh_column d s)"

lemma append_cols_ran:
  assumes "cs \<in> ran (fold (append_col idx) cols m)" and "x \<in> set cs"
  shows "x \<in> set cols \<or> (\<exists>cs'\<in>ran m. x \<in> set cs')"
  using assms(1)
proof (induction cols arbitrary: m)
  case (Cons c cols)
  then have "x \<in> set cols \<or> (\<exists>cs'\<in>ran (append_col idx c m). x \<in> set cs')" by simp
  then show ?case using append_col_ran [of _ idx c m x] by auto
qed (use assms(2) in auto)

lemma fresh_columns_append:
  assumes "fresh_columns d (xs @ ys)" and "index_map d' = fold (append_col idx) xs (index_map d)"
  shows "fresh_columns d xs" "fresh_columns d' ys"
proof -
  show "fresh_columns d xs" using assms(1) by (auto simp: fresh_columns_def)
  have n: "s \<notin> set cs" if "s \<in> set ys" "cs \<in> ran (index_map d')" for s cs
  proof
    assume "s \<in> set cs"
    with that(2) have "s \<in> set xs \<or> (\<exists>cs'\<in>ran (index_map d). s \<in> set cs')" unfolding assms(2) by (rule append_cols_ran)
    with that(1) assms(1) show False by (auto simp: fresh_columns_def fresh_column_def)
  qed
  have y: "distinct ys" "\<And>s. s \<in> set ys \<Longrightarrow> fresh_column d s" using assms(1) by (simp_all add: fresh_columns_def)
  have "fresh_column d' s" if "s \<in> set ys" for s
    unfolding fresh_column_def using y(2) [OF that, unfolded fresh_column_def] n [OF that] by (intro conjI ballI) (elim conjE)
  with y(1) show "fresh_columns d' ys" by (simp add: fresh_columns_def)
qed

lemma known_types_cong:
  assumes "map idx_type (indexes d') = map idx_type (indexes d)"
  shows "(\<forall>ix\<in>set (indexes d'). known_type ix) = (\<forall>ix\<in>set (indexes d). known_type ix)"
proof -
  have k: "(\<forall>ix\<in>set (indexes d). known_type ix) \<longleftrightarrow> set (map idx_type (indexes d)) \<subseteq> {CHR ''P'', CHR ''U'', CHR ''O''}" for d
    by (auto simp: known_type_def)
  show ?thesis unfolding k assms ..
qed

definition values_ok :: "(string \<times> int \<times> sql_value) list \<Rightarrow> bool" where
  "values_ok xs \<longleftrightarrow> (\<forall>(base, op, v)\<in>set xs. value_ok v)"

definition all_params :: "(string \<times> int \<times> sql_value) list \<Rightarrow> bool" where
  "all_params xs \<longleftrightarrow> (\<forall>(base, op, v)\<in>set xs. value_params v \<noteq> [])"

lemma values_step:
  assumes "config_ok d" and "get_index_by_name d idx = int n" and "\<forall>ix\<in>set (indexes d). known_type ix"
    and "values_ok xs" and "fresh_columns d (params xs)" and "columns_fit d (params xs)"
  shows "\<exists>d' b. run_all (actions idx xs) d = Some (d', b) \<and> config_ok d' \<and>
    index_map d' = fold (append_col idx) (params xs) (index_map d) \<and>
    map idx_name (indexes d') = map idx_name (indexes d) \<and> map idx_type (indexes d') = map idx_type (indexes d) \<and>
    pathinfo_columns d' = pathinfo_columns d \<and> (b \<longleftrightarrow> \<not> all_params xs \<and> idx_type (indexes d ! n) \<noteq> CHR ''O'')"
  using assms
proof (induction xs arbitrary: d)
  case (Cons x xs)
  obtain base op v where x: "x = (base, op, v)" by (cases x)
  have p: "params (x # xs) = value_params v @ params xs" by (simp add: params_def x)
  have v: "value_ok v" "\<forall>s\<in>set (value_params v). fresh_column d s" "values_ok xs"
    using Cons.prems(4) fresh_columns_append(1) [of d "value_params v" "params xs"] Cons.prems(5)
    unfolding p by (auto simp: values_ok_def fresh_columns_def x)
  have "set (value_params v) \<subseteq> set (params (x # xs))" unfolding p by simp
  from value_step [OF Cons.prems(1-3) v(1,2) Cons.prems(6) this, of base op] obtain d1 b1 where
    d1: "value_action idx base op v d = Some (d1, b1)" "config_ok d1"
      "index_map d1 = fold (append_col idx) (value_params v) (index_map d)"
      "map idx_name (indexes d1) = map idx_name (indexes d)" "map idx_type (indexes d1) = map idx_type (indexes d)"
      "pathinfo_columns d1 = pathinfo_columns d" "b1 \<longleftrightarrow> value_params v = [] \<and> idx_type (indexes d ! n) \<noteq> CHR ''O''"
      "set (names (key_columns d1)) \<subseteq> set (value_params v) \<union> set (names (key_columns d))"
    by (elim exE conjE)
  have fit: "columns_fit d1 (params xs)" using columns_fit_step [OF _ d1(8)] Cons.prems(6) unfolding p by blast
  have g: "get_index_by_name d1 idx = int n" using get_index_by_name_cong [OF d1(4) [symmetric]] Cons.prems(2) by simp
  have k: "\<forall>ix\<in>set (indexes d1). known_type ix" using known_types_cong [OF d1(5)] Cons.prems(3) by simp
  have n: "n < length (indexes d)" "n < length (indexes d1)" using get_index_by_name_range [OF Cons.prems(2)] get_index_by_name_range [OF g] by simp_all
  have t: "idx_type (indexes d1 ! n) = idx_type (indexes d ! n)" using d1(5) n by (metis nth_map)
  from Cons.IH [OF d1(2) g k v(3) fresh_columns_append(2) [OF _ d1(3)] fit] Cons.prems(5) p obtain d2 b2 where
    d2: "run_all (actions idx xs) d1 = Some (d2, b2)" "config_ok d2" "index_map d2 = fold (append_col idx) (params xs) (index_map d1)"
      "map idx_name (indexes d2) = map idx_name (indexes d1)" "map idx_type (indexes d2) = map idx_type (indexes d1)"
      "pathinfo_columns d2 = pathinfo_columns d1" "b2 \<longleftrightarrow> \<not> all_params xs \<and> idx_type (indexes d1 ! n) \<noteq> CHR ''O''"
    by auto
  have "run_all (actions idx (x # xs)) d = Some (d2, b1 \<or> b2)" using d1(1) d2(1) by (simp add: actions_def x)
  moreover have "b1 \<or> b2 \<longleftrightarrow> \<not> all_params (x # xs) \<and> idx_type (indexes d ! n) \<noteq> CHR ''O''"
    using d1(7) d2(7) t by (auto simp: all_params_def x)
  ultimately show ?case using d1 d2 p by simp
qed (auto simp: actions_def params_def all_params_def)

subsection \<open>The index of a plan\<close>

definition open_index :: "string \<Rightarrow> (string \<rightharpoonup> string list) \<Rightarrow> (string \<rightharpoonup> string list)" where
  "open_index idx m = m(idx \<mapsto> (case m idx of None \<Rightarrow> [] | Some cs \<Rightarrow> cs))"

lemma with_index_ok:
  assumes "config_ok d" and "indexes_fit d [idx]"
  shows "config_ok (with_index t idx d)" "index_map (with_index t idx d) = open_index idx (index_map d)"
    "pathinfo_columns (with_index t idx d) = pathinfo_columns d" "\<exists>n. get_index_by_name (with_index t idx d) idx = int n"
    "fresh_column d s \<Longrightarrow> fresh_column (with_index t idx d) s"
    "t \<in> {CHR ''P'', CHR ''U'', CHR ''O''} \<Longrightarrow> \<forall>ix\<in>set (indexes d). known_type ix \<Longrightarrow> \<forall>ix\<in>set (indexes (with_index t idx d)). known_type ix"
    "key_columns (with_index t idx d) = key_columns d"
proof -
  have ok: "dir_ok d" "separate d" "names_once d" "dir_magic_number d = dir_magic" using assms(1) by (simp_all add: config_ok_def)
  let ?d = "with_index t idx d"
  show "key_columns ?d = key_columns d" by (simp add: with_index_def build_index_record_def)
  have *: "config_ok ?d \<and> index_map ?d = open_index idx (index_map d) \<and> pathinfo_columns ?d = pathinfo_columns d \<and>
    (\<exists>n. get_index_by_name ?d idx = int n)"
  proof (cases rule: get_index_by_name_cases [of d idx])
    case negative: 1
    have 1: "get_index_by_name d idx = -1" by (rule indexes_fit_get [OF ok(3) assms(2) _ negative]) simp
    note b = build_index_record_ok [OF ok(1,2) 1, where t = t]
    have "Some idx \<notin> set (map idx_name (indexes d))" "length (indexes d) < 32768"
      using index_search_range [of 0 idx "indexes d"] 1 by (auto simp: get_index_by_name_def)
    then have "names_once (fst (build_index_record d t idx))" "dir_magic_number (fst (build_index_record d t idx)) = dir_magic"
      using ok(3,4) by (simp_all add: names_once_def build_index_record_def)
    then show ?thesis using 1 b index_map_None [OF negative] by (simp add: with_index_def config_ok_def open_index_def)
  next
    case (2 n)
    then show ?thesis using assms(1) index_map_Some [OF ok(1) 2(1,2)] by (auto simp: with_index_def open_index_def)
  qed
  then show "config_ok ?d" and m: "index_map ?d = open_index idx (index_map d)" and "pathinfo_columns ?d = pathinfo_columns d"
    and "\<exists>n. get_index_by_name ?d idx = int n" by simp_all
  show "fresh_column ?d s" if "fresh_column d s"
    using that unfolding fresh_column_def m by (auto simp: open_index_def ran_def split: if_splits option.splits)
  show "\<forall>ix\<in>set (indexes ?d). known_type ix" if "t \<in> {CHR ''P'', CHR ''U'', CHR ''O''}" "\<forall>ix\<in>set (indexes d). known_type ix"
    using that by (auto simp: with_index_def build_index_record_def known_type_def)
qed

fun plan_values :: "sql_plan \<Rightarrow> (string \<times> int \<times> sql_value) list" where
  "plan_values (One_Row key v vs) = map (\<lambda>v. ('''', 4, v)) (v # vs)"
| "plan_values Table_Scan = []"
| "plan_values (Index_Scan ix cs ord) = map (\<lambda>c. (c_column c, relop_num (c_relop c), c_value c)) cs"

fun plan_index :: "sql_plan \<Rightarrow> (char \<times> string) option" where
  "plan_index (One_Row key v vs) = Some (key_type key, key_name key)"
| "plan_index Table_Scan = None"
| "plan_index (Index_Scan ix cs ord) = (if cs = [] then None else Some (CHR ''O'', scan_name ix))"

definition plan_map :: "sql_plan \<Rightarrow> (string \<rightharpoonup> string list) \<Rightarrow> (string \<rightharpoonup> string list)" where
  "plan_map pl m =
     (case plan_index pl of None \<Rightarrow> m | Some (t, idx) \<Rightarrow> fold (append_col idx) (params (plan_values pl)) (open_index idx m))"

definition index_type :: "dir \<Rightarrow> string \<Rightarrow> char" where
  "index_type d idx = idx_type (indexes d ! nat (get_index_by_name d idx))"

text \<open>A constant is refused for a primary key and for a unique index.\<close>

definition refused_constant :: "sql_plan \<Rightarrow> dir \<Rightarrow> bool" where
  "refused_constant pl d \<longleftrightarrow>
     (case plan_index pl of None \<Rightarrow> False
      | Some (t, idx) \<Rightarrow> \<not> all_params (plan_values pl) \<and> index_type (with_index t idx d) idx \<noteq> CHR ''O'')"

text \<open>The columns and the index of a plan: not more than the directory can take.\<close>

definition plan_fits :: "sql_plan \<Rightarrow> dir \<Rightarrow> bool" where
  "plan_fits pl d \<longleftrightarrow> columns_fit d (params (plan_values pl)) \<and>
     (case plan_index pl of None \<Rightarrow> True | Some (t, idx) \<Rightarrow> indexes_fit d [idx])"

definition sql_ready :: "dir \<Rightarrow> bool" where
  "sql_ready d \<longleftrightarrow> config_ok d \<and> (\<forall>ix\<in>set (indexes d). known_type ix)"

lemma sql_ready_links: "same_links d d' \<Longrightarrow> sql_ready d \<Longrightarrow> sql_ready d'"
  using same_links_ok(1) known_types_cong [OF same_links_names(2)] by (auto simp: sql_ready_def)

lemma indexed_plan:
  assumes "sql_ready d" and "t \<in> {CHR ''P'', CHR ''U'', CHR ''O''}" and "values_ok xs" and "fresh_columns d (params xs)"
    and "columns_fit d (params xs)" and "indexes_fit d [idx]"
  shows "\<exists>d' b. run_all (actions idx xs) (with_index t idx d) = Some (d', b) \<and> sql_ready d' \<and>
    index_map d' = fold (append_col idx) (params xs) (open_index idx (index_map d)) \<and>
    pathinfo_columns d' = pathinfo_columns d \<and> (\<exists>n. get_index_by_name d' idx = int n) \<and>
    (b \<longleftrightarrow> \<not> all_params xs \<and> index_type (with_index t idx d) idx \<noteq> CHR ''O'')"
proof -
  let ?d = "with_index t idx d"
  have c: "config_ok d" "\<forall>ix\<in>set (indexes d). known_type ix" using assms(1) by (simp_all add: sql_ready_def)
  note w = with_index_ok [OF c(1) assms(6), where t = t]
  from w(4) obtain n where n: "get_index_by_name ?d idx = int n" by blast
  have f: "fresh_columns ?d (params xs)" using assms(4) w(5) by (simp add: fresh_columns_def)
  from values_step [OF w(1) n w(6) [OF assms(2) c(2)] assms(3) f] assms(5) w(7) obtain d' b where
    d': "run_all (actions idx xs) ?d = Some (d', b)" "config_ok d'" "index_map d' = fold (append_col idx) (params xs) (index_map ?d)"
      "map idx_name (indexes d') = map idx_name (indexes ?d)" "map idx_type (indexes d') = map idx_type (indexes ?d)"
      "pathinfo_columns d' = pathinfo_columns ?d" "b \<longleftrightarrow> \<not> all_params xs \<and> idx_type (indexes ?d ! n) \<noteq> CHR ''O''" by (auto simp: columns_fit_def)
  have "get_index_by_name d' idx = int n" using get_index_by_name_cong [OF d'(4) [symmetric]] n by simp
  moreover have "sql_ready d'" using d'(2) known_types_cong [OF d'(5)] w(6) [OF assms(2) c(2)] by (simp add: sql_ready_def)
  ultimately show ?thesis using d' w(2,3) n by (auto simp: index_type_def)
qed

lemma plan_actions: "map (value_action idx base op) vs = actions idx (map (\<lambda>v. (base, op, v)) vs)"
  "map (condition_action idx) cs = actions idx (map (\<lambda>c. (c_column c, relop_num (c_relop c), c_value c)) cs)"
  by (simp_all add: actions_def condition_action_def fun_eq_iff)

lemma order_action_ready:
  assumes "sql_ready d" and "bounded \<longrightarrow> (\<exists>n. get_index_by_name d idx = int n)"
  shows "\<exists>d'. order_action idx bounded ord d = Some (d', False) \<and> same_links d d'"
proof (cases ord)
  case None
  then show ?thesis by (simp add: order_action_def same_links_def)
next
  case (Some ord')
  have "\<exists>d'. sort_scan d bounded idx ord' = Some d'"
    using assms(2) get_index_by_name_range [of d idx] by (auto simp: sort_scan_def arr_upd_def in_range_def Let_def)
  with Some sort_scan_links show ?thesis by (auto simp: order_action_def)
qed

lemma plan_ready:
  assumes "sql_ready d" and "values_ok (plan_values pl)" and "fresh_columns d (params (plan_values pl))" and "plan_fits pl d"
  shows "\<exists>d' b. plan_action pl d = Some (d', b) \<and> sql_ready d' \<and> index_map d' = plan_map pl (index_map d) \<and>
    pathinfo_columns d' = pathinfo_columns d \<and> (b \<longleftrightarrow> refused_constant pl d)"
proof (cases pl)
  case (One_Row key v vs)
  have t: "key_type key \<in> {CHR ''P'', CHR ''U'', CHR ''O''}" by (cases key) simp_all
  from indexed_plan [OF assms(1) t assms(2,3), of "key_name key"] assms(4) show ?thesis
    using One_Row by (auto simp: one_row_action_def plan_actions plan_map_def plan_fits_def refused_constant_def simp del: run_all.simps list.map)
next
  case Table_Scan
  have "same_links d (d\<lparr>table_scan := True\<rparr>)" by (simp add: same_links_def)
  with Table_Scan assms(1) same_links_ok [of d "d\<lparr>table_scan := True\<rparr>"] sql_ready_links show ?thesis
    by (simp add: plan_map_def refused_constant_def sql_ready_def ex_bool_eq)
next
  case (Index_Scan ix cs ord)
  have "\<exists>d1 b. scan_action (scan_name ix) cs d = Some (d1, b) \<and> sql_ready d1 \<and> index_map d1 = plan_map pl (index_map d) \<and>
    pathinfo_columns d1 = pathinfo_columns d \<and> (b \<longleftrightarrow> refused_constant pl d) \<and>
    (cs \<noteq> [] \<longrightarrow> (\<exists>n. get_index_by_name d1 (scan_name ix) = int n))"
  proof (cases "cs = []")
    case True
    then show ?thesis using Index_Scan assms(1) same_links_ok [OF full_scan_links] sql_ready_links [OF full_scan_links]
      by (simp add: scan_action_def plan_map_def refused_constant_def sql_ready_def ex_bool_eq)
  next
    case False
    with indexed_plan [OF assms(1) _ assms(2,3), of "CHR ''O''" "scan_name ix"] Index_Scan assms(4) show ?thesis
      by (auto simp: scan_action_def plan_actions plan_map_def plan_fits_def refused_constant_def simp del: run_all.simps)
  qed
  then obtain d1 b where d1: "scan_action (scan_name ix) cs d = Some (d1, b)" "sql_ready d1" "index_map d1 = plan_map pl (index_map d)"
    "pathinfo_columns d1 = pathinfo_columns d" "b \<longleftrightarrow> refused_constant pl d"
    "cs \<noteq> [] \<longrightarrow> (\<exists>n. get_index_by_name d1 (scan_name ix) = int n)" by (elim exE conjE)
  from order_action_ready [OF d1(2,6), of ord] obtain d2 where
    d2: "order_action (scan_name ix) (cs \<noteq> []) ord d1 = Some (d2, False)" "same_links d1 d2" by (elim exE conjE)
  have "config_ok d1" using d1(2) by (simp add: sql_ready_def)
  with d1 d2 Index_Scan show ?thesis using same_links_ok [OF d2(2)] sql_ready_links [OF d2(2)] by simp
qed

subsection \<open>Statements\<close>

fun statement_plan :: "sql_statement \<Rightarrow> sql_plan" where
  "statement_plan (Select cols t pl) = (case pl of None \<Rightarrow> Table_Scan | Some q \<Rightarrow> q)"
| "statement_plan (Delete t key v vs) = One_Row key v vs"
| "statement_plan (Plan q) = q"

lemma fresh_columns_links: "same_links d d' \<Longrightarrow> config_ok d \<Longrightarrow> fresh_columns d' cols = fresh_columns d cols"
  using same_links_ok(2) by (simp add: fresh_columns_def fresh_column_def)

lemma refused_links:
  assumes "same_links d d'"
  shows "refused_constant pl d' = refused_constant pl d"
proof -
  have "index_type (with_index t idx d') idx = index_type (with_index t idx d) idx" for t idx
  proof -
    have g: "get_index_by_name d' idx = get_index_by_name d idx"
      using get_index_by_name_cong [OF same_links_names(1) [OF assms, symmetric]] by simp
    have l: "same_links (with_index t idx d) (with_index t idx d')"
      using assms g by (simp add: with_index_def same_links_def build_index_record_def)
    have gw: "get_index_by_name (with_index t idx d') idx = get_index_by_name (with_index t idx d) idx"
      using get_index_by_name_cong [OF same_links_names(1) [OF l, symmetric]] by simp
    show ?thesis
    proof (cases rule: get_index_by_name_cases [of "with_index t idx d" idx])
      case 1
      have "map idx_type (indexes (with_index t idx d')) = map idx_type (indexes (with_index t idx d))" by (rule same_links_names(2) [OF l])
      with 1 gw show ?thesis
        by (cases "indexes (with_index t idx d')"; cases "indexes (with_index t idx d)") (simp_all add: index_type_def)
    next
      case (2 n)
      then show ?thesis using same_links_names(2,3) [OF l] gw by (simp add: index_type_def) (metis nth_map)
    qed
  qed
  then show ?thesis by (simp add: refused_constant_def split: option.split)
qed

lemma statement_ready:
  assumes "sql_ready d" and "values_ok (plan_values (statement_plan st))" and "fresh_columns d (params (plan_values (statement_plan st)))"
    and "plan_fits (statement_plan st) d"
  shows "\<exists>d' b. statement_action st d = Some (d', b) \<and> sql_ready d' \<and> index_map d' = plan_map (statement_plan st) (index_map d) \<and>
    pathinfo_columns d' = pathinfo_columns d \<and> (b \<longleftrightarrow> refused_constant (statement_plan st) d)"
proof -
  have run: "\<exists>d' b. plan_action (statement_plan st) d1 = Some (d', b) \<and> sql_ready d' \<and> index_map d' = plan_map (statement_plan st) (index_map d) \<and>
    pathinfo_columns d' = pathinfo_columns d \<and> (b \<longleftrightarrow> refused_constant (statement_plan st) d)" if l: "same_links d d1" for d1
  proof -
    have "config_ok d" using assms(1) by (simp add: sql_ready_def)
    moreover have "plan_fits (statement_plan st) d1"
      using assms(4) same_links_names(1) [OF l] l by (simp add: plan_fits_def columns_fit_def indexes_fit_def same_links_def del: set_map split: option.splits prod.splits)
    ultimately show ?thesis using plan_ready [OF sql_ready_links [OF l assms(1)] assms(2)] assms(3) fresh_columns_links [OF l] same_links_ok [OF l] refused_links [OF l]
      by simp
  qed
  show ?thesis
  proof (cases st)
    case (Select cols t pl)
    have l: "same_links d (set_table t (set_columns cols d))" by (rule same_links_trans [OF set_columns_links set_table_links])
    show ?thesis
    proof (cases pl)
      case None
      have "config_ok d" using assms(1) by (simp add: sql_ready_def)
      with None Select same_links_ok [OF l] sql_ready_links [OF l assms(1)] show ?thesis
        by (simp add: plan_map_def refused_constant_def ex_bool_eq)
    next
      case (Some q)
      with Select run [OF l] show ?thesis by simp
    qed
  next
    case (Delete t key v vs)
    from run [OF set_table_links [of d t]] Delete obtain d' b where
      d': "one_row_action key (v # vs) (set_table t d) = Some (d', b)" "sql_ready d'" "index_map d' = plan_map (statement_plan st) (index_map d)"
        "pathinfo_columns d' = pathinfo_columns d" "b \<longleftrightarrow> refused_constant (statement_plan st) d" by auto
    have l: "same_links d' (d'\<lparr>allow_delete := True\<rparr>)" by (simp add: same_links_def)
    have "config_ok d'" using d'(2) by (simp add: sql_ready_def)
    with d' Delete same_links_ok [OF l] sql_ready_links [OF l d'(2)] show ?thesis by simp
  next
    case (Plan q)
    have "same_links d d" by (simp add: same_links_def)
    from run [OF this] Plan show ?thesis by simp
  qed
qed

subsection \<open>Statements and directives\<close>

lemma named_index_as_value:
  assumes "dir_magic_number d = dir_magic" and "idx_name (index_scan d) \<noteq> Some idx"
  shows "value_action idx '''' 4 (Parameter dollar c) (with_index t idx d) =
    map_option (\<lambda>(d', e). (d', e \<noteq> None)) (named_index t d idx c)"
proof -
  have "sql_expr '''' 4 Param c = param_expr c" by (simp add: sql_expr_def param_expr_def BoundEQ_def)
  with assms show ?thesis by (simp add: named_index_def with_index_def)
qed

lemma directives_as_values:
  assumes "config_ok d" and "fresh_columns d (map snd cols)" and "idx_name (index_scan d) \<noteq> Some idx"
    and "columns_fit d (map snd cols)" and "indexes_fit d [idx]"
  shows "\<exists>d'. index_directives (map (\<lambda>(dollar, c). (t, idx, c)) cols) d = Some d' \<and>
    run_all (actions idx (map (\<lambda>(dollar, c). ('''', 4, Parameter dollar c)) cols)) (if cols = [] then d else with_index t idx d) = Some (d', False)"
  using assms
proof (induction cols arbitrary: d)
  case (Cons x cols)
  obtain dollar c where x: "x = (dollar, c)" by (cases x)
  have c: "fresh_column d c" using Cons.prems(2) by (simp add: fresh_columns_def x)
  from named_index_config_ok [OF Cons.prems(1) c Cons.prems(3,4) _ Cons.prems(5), of t] x obtain d1 where
    d1: "named_index t d idx c = Some (d1, None)" "config_ok d1" "index_map d1 = append_col idx c (index_map d)"
      "index_scan d1 = index_scan d" by auto
  have fit: "columns_fit d1 (map snd cols)" "indexes_fit d1 [idx]"
    using columns_fit_step [of d "[c]" "map snd cols" d1] indexes_fit_step [of d "[idx]" "[idx]" d1] Cons.prems(4,5) named_index_names [OF d1(1)]
    by (simp_all add: x indexes_fit_def del: set_map)
  have "\<not> get_index_by_name d1 idx < 0" using index_map_None [of d1 idx] d1(3) by (auto simp: append_col_def)
  then have w: "(if cols = [] then d1 else with_index t idx d1) = d1" by (simp add: with_index_def)
  have "dir_magic_number d = dir_magic" using Cons.prems(1) by (simp add: config_ok_def)
  from named_index_as_value [OF this Cons.prems(3)] d1(1)
  have v: "value_action idx '''' 4 (Parameter dollar c) (with_index t idx d) = Some (d1, False)" by simp
  have f: "fresh_columns d1 (map snd cols)"
    by (rule fresh_columns_append(2) [where xs = "[c]" and idx = idx, OF _]) (use Cons.prems(2) d1(3) in \<open>simp_all add: x\<close>)
  have "idx_name (index_scan d1) \<noteq> Some idx" using Cons.prems(3) d1(4) by simp
  from Cons.IH [OF d1(2) f this fit] obtain d' where
    "index_directives (map (\<lambda>(dollar, c). (t, idx, c)) cols) d1 = Some d'"
    "run_all (actions idx (map (\<lambda>(dollar, c). ('''', 4, Parameter dollar c)) cols)) d1 = Some (d', False)"
    unfolding w by (elim exE conjE)
  with d1(1) v show ?case by (simp add: x actions_def)
qed (simp add: actions_def)

lemma one_row_as_directives:
  assumes "config_ok d" and "fresh_columns d (map snd ((b, c) # cols))" and "idx_name (index_scan d) \<noteq> Some (key_name key)"
    and "columns_fit d (map snd ((b, c) # cols))" and "indexes_fit d [key_name key]"
  shows "\<exists>d'. index_directives (map (\<lambda>(dollar, c). (key_type key, key_name key, c)) ((b, c) # cols)) d = Some d' \<and>
    one_row_action key (map (\<lambda>(dollar, c). Parameter dollar c) ((b, c) # cols)) d = Some (d', False)"
proof -
  let ?xs = "(b, c) # cols"
  have v: "map (value_action (key_name key) [] 4) (map (\<lambda>(dollar, c). Parameter dollar c) ?xs) =
      actions (key_name key) (map (\<lambda>(dollar, c). ([], 4, Parameter dollar c)) ?xs)"
    by (auto simp: actions_def)
  show ?thesis using directives_as_values [OF assms, of "key_type key"] unfolding one_row_action_def v by (simp only: list.distinct if_False)
qed

end
