(* ===== verification/Query_Text.thy ===== *)
theory Query_Text
  imports N_SQL_Config Query_Source
begin

text \<open>
  From the text of an N-SQL query in the configuration file to the parser: \<open>copy_sql_into_buffer\<close>
  in its two versions and \<open>sql_container\<close> of \<open>config.cc\<close>. The buffer has a fixed length
  (\<open>SQL_BUFFER_LEN\<close>, here the length of the list); a write outside it is \<open>None\<close>.
\<close>

subsection \<open>Copying from the configuration tree\<close>

text \<open>A line of the tree: the first word and the rest. \<open>copy_string\<close> writes the null byte of the string as well.\<close>

type_synonym conf_line = "string \<times> string"

definition put_char :: "string \<Rightarrow> nat \<Rightarrow> char \<Rightarrow> string option" where
  "put_char buf e c = arr_upd buf (int e) (\<lambda>_. c)"

fun copy_string :: "string \<Rightarrow> string \<Rightarrow> nat \<Rightarrow> bool \<Rightarrow> (string \<times> nat \<times> bool) option" where
  "copy_string [] buf e more_query = do { b \<leftarrow> put_char buf e (CHR 0x00); Some (b, e, more_query) }"
| "copy_string (c # cs) buf e more_query =
     do { b \<leftarrow> put_char buf e c; copy_string cs b (Suc e) (more_query \<and> c \<noteq> CHR '';'') }"

fun copy_lines :: "nat \<Rightarrow> conf_line list \<Rightarrow> string \<Rightarrow> nat \<Rightarrow> bool \<Rightarrow> (string \<times> nat \<times> conf_line list) option" where
  "copy_lines len [] buf e more_query = Some (buf, e, [])"
| "copy_lines len ((directive, args) # ls) buf e more_query =
     (if \<not> more_query \<or> len \<le> e then Some (buf, e, (directive, args) # ls)
      else do { (b1, e1, m1) \<leftarrow> copy_string directive buf e more_query;
                (b2, e2, m2) \<leftarrow>
                  (if e1 < len \<and> m1
                   then do { b \<leftarrow> put_char b1 e1 (CHR '' '');
                             (b', e', m') \<leftarrow> copy_string args b (Suc e1) m1;
                             b'' \<leftarrow> put_char b' e' (CHR 0x0A);
                             Some (b'', Suc e', m') }
                   else Some (b1, e1, m1));
                copy_lines len ls b2 e2 m2 })"

definition too_long :: string where
  "too_long = ''N-SQL query too long (missing semicolon?).''"

text \<open>The buffer, the error, and the lines that stay for Apache to process.\<close>

definition copy_sql_into_buffer ::
  "conf_line list \<Rightarrow> string \<Rightarrow> (string \<times> string option \<times> conf_line list) option" where
  "copy_sql_into_buffer ls query_buff =
     do { (b, e, rest) \<leftarrow> copy_lines (length query_buff) ls query_buff 0 True;
          b' \<leftarrow> put_char b e (CHR 0x00);
          Some (if length query_buff \<le> e then (b', Some too_long, ls) else (b', None, rest)) }"

subsection \<open>Copying from the configuration file (Apache 1.3)\<close>

text \<open>
  The characters of the file come from \<open>ap_cfg_getc\<close>, which gives \<open>-1\<close> at the end; stored in a
  \<open>char\<close> that is the byte \<open>0xFF\<close>. The result is the buffer, the position and the characters not read.
\<close>

fun copy_rest_of_line :: "nat \<Rightarrow> string \<Rightarrow> string \<Rightarrow> nat \<Rightarrow> bool \<Rightarrow> (string \<times> nat \<times> bool) option" where
  "copy_rest_of_line len [] buf e fin = do { b \<leftarrow> put_char buf e (CHR 0x00); Some (b, e, fin) }"
| "copy_rest_of_line len (c # cs) buf e fin =
     do { b \<leftarrow> put_char buf e c; copy_rest_of_line len cs b (Suc e) (fin \<or> c = CHR '';'' \<or> Suc e = len) }"

definition cfg_getc :: "string \<Rightarrow> char \<times> string" where
  "cfg_getc file = (case file of [] \<Rightarrow> (CHR 0xFF, []) | c # cs \<Rightarrow> (c, cs))"

partial_function (option) copy_file :: "nat \<Rightarrow> string \<Rightarrow> string \<Rightarrow> nat \<Rightarrow> (string \<times> nat \<times> string) option" where
  "copy_file len file buf e =
     (let (c, file') = cfg_getc file in
      if c = CHR 0x00 then Some (buf, e, file')
      else do { b \<leftarrow> put_char buf e c;
                (if c = CHR '';'' \<or> Suc e = len then Some (b, Suc e, file') else copy_file len file' b (Suc e)) })"

definition copy_sql_into_buffer_13 ::
  "string \<Rightarrow> string \<Rightarrow> string \<Rightarrow> string \<Rightarrow> (string \<times> string option \<times> string) option" where
  "copy_sql_into_buffer_13 keyword args file query_buff =
     do { (b1, e1, _) \<leftarrow> copy_string (take 9 keyword) query_buff 0 True;
          (b2, e2, end_of_query) \<leftarrow> copy_rest_of_line (length query_buff) args b1 e1 False;
          (b3, e3, file') \<leftarrow> (if end_of_query then Some (b2, e2, file) else copy_file (length query_buff) file b2 e2);
          b4 \<leftarrow> put_char b3 e3 (CHR 0x00);
          Some (b4, if length query_buff \<le> e3 then Some too_long else None, file') }"

subsection \<open>The container\<close>

definition parser_errors :: "nat \<Rightarrow> string \<Rightarrow> string" where
  "parser_errors n text =
     ''NSQL parser: '' @ fmt_d (int n) @ '' error'' @ (if n = 1 then '''' else ''s'') @ '' in '' @ [CHR 0x27] @ text @ [CHR 0x27] @ ''.''"

text \<open>
  The test of the magic number assigns it. \<open>scan\<close> is the generated scanner; \<open>e\<close>, \<open>idx\<close> and \<open>bd\<close> are the
  uninitialised variables of the parser.
\<close>

definition sql_container ::
  "(string \<Rightarrow> sql_kind token list) \<Rightarrow> nsql_expr \<Rightarrow> string \<Rightarrow> bool \<Rightarrow> nat \<Rightarrow> bool \<Rightarrow> conf_line list \<Rightarrow> dir \<Rightarrow>
   (dir \<times> string option \<times> conf_line list) option" where
  "sql_container scan e idx bd buffer_len in_location ls d =
     (let query_buff = replicate buffer_len (CHR 0x00) in
      if \<not> in_location then Some (d, Some ''N-SQL query found outside of <Location> section'', ls)
      else do { (buf, err, rest) \<leftarrow> copy_sql_into_buffer ls query_buff;
                (if err \<noteq> None then Some (d, err, rest)
                 else do { q \<leftarrow> sql_parse e idx bd (scan buf) (d\<lparr>dir_magic_number := dir_magic\<rparr>);
                           Some (sql_dir q, if err_count q \<noteq> 0 then Some (parser_errors (err_count q) (c_str buf)) else None, rest) }) })"

subsection \<open>The text of a query\<close>

fun query_text :: "conf_line list \<Rightarrow> string" where
  "query_text [] = []"
| "query_text ((directive, args) # ls) =
     (if CHR '';'' \<in> set directive then directive
      else directive @ [CHR '' ''] @ args @ [CHR 0x0A] @ (if CHR '';'' \<in> set args then [] else query_text ls))"

fun query_rest :: "conf_line list \<Rightarrow> conf_line list" where
  "query_rest [] = []"
| "query_rest ((directive, args) # ls) = (if CHR '';'' \<in> set directive \<or> CHR '';'' \<in> set args then ls else query_rest ls)"

text \<open>What is written, over the zeros of the buffer.\<close>

definition written :: "nat \<Rightarrow> string \<Rightarrow> string" where
  "written len text = text @ replicate (len - length text) (CHR 0x00)"

lemma written_length [simp]: "length text \<le> len \<Longrightarrow> length (written len text) = len"
  by (simp add: written_def)

lemma put_char_written:
  "put_char (written len text) (length text) c = (if length text < len then Some (written len (text @ [c])) else None)"
proof (cases "length text < len")
  case True
  then obtain k where "len - length text = Suc k" by (metis Suc_diff_Suc)
  then have "written len text = text @ CHR 0x00 # replicate k (CHR 0x00)" "len - Suc (length text) = k" by (simp_all add: written_def)
  with True show ?thesis by (simp add: put_char_def arr_upd_def written_def)
qed (simp add: put_char_def arr_upd_def written_def)

lemma put_zero_written:
  "put_char (written len text) (length text) (CHR 0x00) = (if length text < len then Some (written len text) else None)"
proof -
  have "written len (text @ [CHR 0x00]) = written len text" if "length text < len"
  proof -
    from that have "len - length text = Suc (len - Suc (length text))" by simp
    then show ?thesis unfolding written_def by (metis append.assoc append_Cons append_Nil length_append_singleton replicate_Suc)
  qed
  then show ?thesis using put_char_written [of len _ "CHR 0x00"] by simp
qed

lemma copy_string_written:
  "copy_string s (written len text) (length text) m =
     (if length text + length s < len
      then Some (written len (text @ s), length (text @ s), m \<and> CHR '';'' \<notin> set s) else None)"
proof (induction s arbitrary: "text" m)
  case Nil
  then show ?case by (simp add: put_zero_written)
next
  case (Cons c s)
  from Cons.IH [of "text @ [c]"] show ?case by (auto simp: put_char_written)
qed

lemma copy_lines_written:
  assumes "length text \<le> len"
  shows "copy_lines len ls (written len text) (length text) True =
    (if length text + length (query_text ls) < len
     then Some (written len (text @ query_text ls), length (text @ query_text ls), query_rest ls)
     else copy_lines len ls (written len text) (length text) True)"
  using assms
proof (induction ls arbitrary: "text")
  case (Cons l ls)
  obtain dn args where l: "l = (dn, args)" by (cases l)
  show ?case
  proof (cases "length text + length (query_text (l # ls)) < len")
    case True
    show ?thesis
    proof (cases "CHR '';'' \<in> set dn")
      case semi: True
      have "copy_lines len ls b e False = Some (b, e, ls)" for b e by (cases ls) auto
      with semi True l show ?thesis by (simp add: copy_string_written)
    next
      case nosemi: False
      let ?t = "text @ dn @ [CHR '' ''] @ args @ [CHR 0x0A]"
      have p1: "put_char (written len (text @ dn)) (length text + length dn) (CHR '' '') = Some (written len (text @ dn @ [CHR '' '']))"
        using put_char_written [of len "text @ dn"] True l nosemi by simp
      have p2: "copy_string args (written len (text @ dn @ [CHR '' ''])) (Suc (length text + length dn)) True =
          Some (written len (text @ dn @ [CHR '' ''] @ args), length text + length dn + 1 + length args, CHR '';'' \<notin> set args)"
        using copy_string_written [of args len "text @ dn @ [CHR '' '']" True] True l nosemi by simp
      have p3: "put_char (written len (text @ dn @ [CHR '' ''] @ args)) (length text + length dn + 1 + length args) (CHR 0x0A) = Some (written len ?t)"
        using put_char_written [of len "text @ dn @ [CHR '' ''] @ args"] True l nosemi by (simp add: add.assoc)
      have step: "copy_lines len (l # ls) (written len text) (length text) True =
          copy_lines len ls (written len ?t) (length ?t) (CHR '';'' \<notin> set args)"
        using True l nosemi p1 p2 p3 by (simp add: copy_string_written add.assoc)
      show ?thesis
      proof (cases "CHR '';'' \<in> set args")
        case semi: True
        have "copy_lines len ls b e False = Some (b, e, ls)" for b e by (cases ls) auto
        with step semi True l nosemi show ?thesis by simp
      next
        case False
        with True l nosemi have "length ?t + length (query_text ls) < len" "length ?t \<le> len" by simp_all
        with Cons.IH [of ?t] step False True l nosemi show ?thesis by simp
      qed
    qed
  qed simp
qed simp

lemma copy_lines_full:
  assumes "length text \<le> len" and "len \<le> length text + length (query_text ls)"
  shows "copy_lines len ls (written len text) (length text) True = None \<or>
    (\<exists>b rest. copy_lines len ls (written len text) (length text) True = Some (b, len, rest) \<and> length b = len)"
  using assms
proof (induction ls arbitrary: "text")
  case Nil
  then show ?case by (simp add: written_def)
next
  case (Cons l ls)
  obtain dn args where l: "l = (dn, args)" by (cases l)
  let ?t1 = "text @ dn" and ?t2 = "text @ dn @ [CHR '' ''] @ args" and ?t = "text @ dn @ [CHR '' ''] @ args @ [CHR 0x0A]"
  show ?case
  proof (cases "length text < len \<and> length ?t1 < len \<and> CHR '';'' \<notin> set dn \<and> length ?t2 < len")
    case False
    show ?thesis
    proof (cases "length text < len")
      case lt: True
      have p: "put_char (written len ?t1) (length text + length dn) (CHR '' '') = Some (written len (?t1 @ [CHR '' '']))" if "length ?t1 < len"
        using put_char_written [of len ?t1] that by simp
      have "copy_string args (written len (?t1 @ [CHR '' ''])) (Suc (length text + length dn)) True = None" if "\<not> length ?t2 < len"
        using copy_string_written [of args len "?t1 @ [CHR '' '']" True] that by simp
      with False lt l Cons.prems(2) p show ?thesis
        by (cases "CHR '';'' \<in> set dn"; cases "length ?t1 < len") (auto simp: copy_string_written)
    qed (use l Cons.prems in \<open>simp add: written_def\<close>)
  next
    case True
    have p: "put_char (written len ?t1) (length text + length dn) (CHR '' '') = Some (written len (?t1 @ [CHR '' '']))"
      "copy_string args (written len (?t1 @ [CHR '' ''])) (Suc (length text + length dn)) True = Some (written len ?t2, length ?t2, CHR '';'' \<notin> set args)"
      "put_char (written len ?t2) (length ?t2) (CHR 0x0A) = Some (written len ?t)"
      using put_char_written [of len ?t1] copy_string_written [of args len "?t1 @ [CHR '' '']" True] put_char_written [of len ?t2] True
      by (simp_all add: add.assoc)
    have step: "copy_lines len (l # ls) (written len text) (length text) True =
        copy_lines len ls (written len ?t) (length ?t) (CHR '';'' \<notin> set args)"
      using True l p by (simp add: copy_string_written)
    have le: "length ?t \<le> len" using True by simp
    show ?thesis
    proof (cases "CHR '';'' \<in> set args")
      case semi: True
      have "copy_lines len ls b e False = Some (b, e, ls)" for b e by (cases ls) auto
      with step semi l True Cons.prems(2) le show ?thesis by (simp add: written_def)
    next
      case False
      with Cons.IH [OF le] step l True Cons.prems(2) show ?thesis by simp
    qed
  qed
qed

text \<open>The query is copied when it fits, and otherwise the copy leaves the buffer: the test for its end comes too late.\<close>

lemma copy_sql_result:
  "copy_sql_into_buffer ls (replicate len (CHR 0x00)) =
     (if length (query_text ls) < len then Some (written len (query_text ls), None, query_rest ls) else None)"
proof -
  have w: "replicate len (CHR 0x00) = written len ''''" by (simp add: written_def)
  show ?thesis
  proof (cases "length (query_text ls) < len")
    case True
    then have "copy_lines len ls (written len '''') 0 True = Some (written len (query_text ls), length (query_text ls), query_rest ls)"
      using copy_lines_written [of "''''" len ls] by simp
    with True show ?thesis by (simp add: copy_sql_into_buffer_def w put_zero_written)
  next
    case False
    with copy_lines_full [of "''''" len ls] have "copy_lines len ls (written len '''') 0 True = None \<or>
      (\<exists>b rest. copy_lines len ls (written len '''') 0 True = Some (b, len, rest) \<and> length b = len)" by simp
    with False show ?thesis by (auto simp: copy_sql_into_buffer_def w put_char_def arr_upd_def)
  qed
qed

lemma c_str_written: "CHR 0x00 \<notin> set text \<Longrightarrow> c_str (written len text) = text"
  unfolding written_def c_str_zeros by (auto simp: c_str_def takeWhile_eq_all_conv)

subsection \<open>Apache 1.3\<close>

lemma put_char_length: "put_char buf e c = Some b \<Longrightarrow> length b = length buf \<and> e < length buf"
  by (auto simp: put_char_def arr_upd_def split: if_splits)

lemma copy_string_length: "copy_string s buf e m = Some (b, e', m') \<Longrightarrow> length b = length buf \<and> e' < length buf"
proof (induction s arbitrary: buf e m)
  case (Cons c s)
  then obtain x where x: "put_char buf e c = Some x" "copy_string s x (Suc e) (m \<and> c \<noteq> CHR '';'') = Some (b, e', m')"
    by (auto split: Option.bind_splits)
  from Cons.IH [OF x(2)] put_char_length [OF x(1)] show ?case by simp
qed (auto split: Option.bind_splits dest: put_char_length)

lemma copy_rest_length: "copy_rest_of_line len s buf e fin = Some (b, e', fin') \<Longrightarrow> length b = length buf"
  by (induction s arbitrary: buf e fin) (auto split: Option.bind_splits dest: put_char_length)

lemma copy_file_length: "copy_file len cs buf e = Some r \<Longrightarrow> length (fst r) = length buf"
proof (induction rule: copy_file.raw_induct [rotated, consumes 1, case_names step])
  case (step copy_file len cs buf e r)
  obtain c cs1 where c: "cfg_getc cs = (c, cs1)" by (cases "cfg_getc cs")
  show ?case
  proof (cases "c = CHR 0x00")
    case False
    with step(2) c obtain b where b: "put_char buf e c = Some b"
      "(if c = CHR '';'' \<or> Suc e = len then Some (b, Suc e, cs1) else copy_file len cs1 b (Suc e)) = Some r"
      by (auto split: Option.bind_splits)
    show ?thesis
    proof (cases "c = CHR '';'' \<or> Suc e = len")
      case True
      with b put_char_length [OF b(1)] show ?thesis by auto
    next
      case no: False
      with b step(1) [of len cs1 b "Suc e" r] put_char_length [OF b(1)] show ?thesis by simp
    qed
  qed (use step(2) c in auto)
qed

text \<open>The error message is never returned: it needs a write behind the buffer.\<close>

lemma copy_13_never_reports:
  assumes "copy_sql_into_buffer_13 keyword args cs0 query_buff = Some (b, err, rest)"
  shows "err = None"
proof -
  from assms obtain b1 e1 m1 b2 e2 fin b3 e3 cs where
    c: "copy_string (take 9 keyword) query_buff 0 True = Some (b1, e1, m1)"
      "copy_rest_of_line (length query_buff) args b1 e1 False = Some (b2, e2, fin)"
      "(if fin then Some (b2, e2, cs0) else copy_file (length query_buff) cs0 b2 e2) = Some (b3, e3, cs)"
      "put_char b3 e3 (CHR 0x00) = Some b" "err = (if length query_buff \<le> e3 then Some too_long else None)"
    by (auto simp: copy_sql_into_buffer_13_def split: Option.bind_splits)
  have "length b3 = length query_buff"
    using c(3) copy_string_length [OF c(1)] copy_rest_length [OF c(2)] copy_file_length [of "length query_buff" cs0 b2 e2]
    by (auto split: if_splits)
  then show ?thesis using put_char_length [OF c(4)] c(5) by simp
qed

subsection \<open>From the text to the directory\<close>

lemma container_result:
  assumes "sql_ready d" and "good_statement st" and "values_ok (plan_values (statement_plan st))"
    and "fresh_columns d (params (plan_values (statement_plan st)))" and "plan_fits (statement_plan st) d"
    and "length (query_text ls) < len" and "scan (written len (query_text ls)) = statement_toks sp st"
  shows "\<exists>d' err. sql_container scan e idx bd len True ls d = Some (d', err, query_rest ls) \<and> sql_ready d' \<and>
    index_map d' = plan_map (statement_plan st) (index_map d) \<and> pathinfo_columns d' = pathinfo_columns d \<and>
    (err = None \<longleftrightarrow> \<not> refused_constant (statement_plan st) d)"
proof -
  have m: "d\<lparr>dir_magic_number := dir_magic\<rparr> = d" using assms(1) by (simp add: sql_ready_def config_ok_def)
  from statement_ready [OF assms(1,3-5)] obtain d' b where
    d': "statement_action st d = Some (d', b)" "sql_ready d'" "index_map d' = plan_map (statement_plan st) (index_map d)"
      "pathinfo_columns d' = pathinfo_columns d" "b \<longleftrightarrow> refused_constant (statement_plan st) d" by (elim exE conjE)
  from sql_parse_results [OF assms(2), where d = d and e = e and idx = idx and b = bd and sp = sp] d'(1) obtain q where
    q: "sql_parse e idx bd (statement_toks sp st) d = Some q" "sql_dir q = d'" "err_count q = 0 \<longleftrightarrow> \<not> b" by auto
  have "sql_container scan e idx bd len True ls d =
    Some (d', if err_count q \<noteq> 0 then Some (parser_errors (err_count q) (c_str (written len (query_text ls)))) else None, query_rest ls)"
    using assms(6,7) q(1,2) m by (simp add: sql_container_def copy_sql_result)
  with d' q(3) show ?thesis by auto
qed

lemma where_as_directives:
  assumes "config_ok d" and "fresh_columns d (map snd ((b, c) # cols))" and "idx_name (index_scan d) \<noteq> Some (key_name key)"
    and "columns_fit d (map snd ((b, c) # cols))" and "indexes_fit d [key_name key]"
  shows "\<exists>q. sql_parse e idx bd (statement_toks sp (Plan (One_Row key (Parameter b c) (map (\<lambda>(dollar, c). Parameter dollar c) cols)))) d = Some q \<and>
    err_count q = 0 \<and> index_directives (map (\<lambda>(dollar, c). (key_type key, key_name key, c)) ((b, c) # cols)) d = Some (sql_dir q)"
proof -
  let ?st = "Plan (One_Row key (Parameter b c) (map (\<lambda>(dollar, c). Parameter dollar c) cols))"
  from one_row_as_directives [OF assms] obtain d' where
    d': "index_directives (map (\<lambda>(dollar, c). (key_type key, key_name key, c)) ((b, c) # cols)) d = Some d'"
      "statement_action ?st d = Some (d', False)" by auto
  have "good_statement ?st" by simp
  from sql_parse_results [OF this, where d = d and e = e and idx = idx and b = bd and sp = sp] d' show ?thesis by (simp del: statement_toks.simps statement_action.simps) blast
qed

end
