(* ===== verification/Command_Table.thy ===== *)
theory Command_Table
  imports Query_Text Format_Files
begin

text \<open>
  The table \<open>configuration_commands\<close> of \<open>config.cc\<close>, through which Apache reaches the handlers: which
  directive calls which handler, with how many arguments, and where it may stand. The handlers are cast to one
  type in the table; \<open>run_command\<close> calls them through it and gives \<open>None\<close> where the arguments do not
  fit the handler, where a handler fails an assertion and where it crashes.
\<close>

subsection \<open>The table\<close>

datatype cmd_how = RAW_ARGS | TAKE1 | TAKE3 | TAKE12 | TAKE123 | ITERATE | ITERATE2 | FLAG

datatype req_override = RSRC_CONF | ACCESS_CONF

datatype command_func =
    F_connectstring | F_srv_set_int | F_force_restart | F_result_fmt_container | F_set_string_slot | F_table
  | F_dir_set_flag | F_result_format | F_non_key_column | F_primary_key | F_named_index | F_pathinfo | F_filter
  | F_sql_container

record command_rec =
  cmd_name :: string
  func :: command_func
  cmd_data :: string
  override :: req_override
  exec_on_read :: bool
  args_how :: cmd_how

definition command :: "string \<Rightarrow> command_func \<Rightarrow> string \<Rightarrow> req_override \<Rightarrow> cmd_how \<Rightarrow> command_rec" where
  "command nm f cdata ov how =
     \<lparr>cmd_name = nm, func = f, cmd_data = cdata, override = ov, exec_on_read = False, args_how = how\<rparr>"

text \<open>\<open>EXEC_ON_READ\<close> is set for \<open>ResultFormat\<close>; under Apache 1.3 it is zero.\<close>

definition configuration_commands :: "command_rec list" where
  "configuration_commands =
     [command ''ndb-connectstring'' F_connectstring '''' RSRC_CONF TAKE1,
      command ''ndb-max-read-subrequests'' F_srv_set_int '''' RSRC_CONF TAKE1,
      command ''ndb-retry-ms'' F_srv_set_int '''' RSRC_CONF TAKE1,
      command ''ndb-force-restart'' F_force_restart '''' RSRC_CONF FLAG,
      (command ''<ResultFormat'' F_result_fmt_container '''' RSRC_CONF RAW_ARGS)\<lparr>exec_on_read := True\<rparr>,
      command ''Database'' F_set_string_slot ''database'' ACCESS_CONF TAKE1,
      command ''Table'' F_table '''' ACCESS_CONF TAKE123,
      command ''Deletes'' F_dir_set_flag '''' ACCESS_CONF FLAG,
      command ''ETags'' F_dir_set_flag '''' ACCESS_CONF FLAG,
      command ''Format'' F_result_format '''' ACCESS_CONF TAKE1,
      command ''Columns'' F_non_key_column ''R'' ACCESS_CONF ITERATE,
      command ''AllowUpdate'' F_non_key_column ''W'' ACCESS_CONF ITERATE,
      command ''PrimaryKey'' F_primary_key ''P'' ACCESS_CONF ITERATE,
      command ''UniqueIndex'' F_named_index ''U'' ACCESS_CONF ITERATE2,
      command ''OrderedIndex'' F_named_index ''O'' ACCESS_CONF ITERATE2,
      command ''PathInfo'' F_pathinfo '''' ACCESS_CONF TAKE12,
      command ''Filter'' F_filter '''' ACCESS_CONF TAKE3,
      command ''SELECT'' F_sql_container ''SELECT '' ACCESS_CONF RAW_ARGS,
      command ''DELETE'' F_sql_container ''DELETE '' ACCESS_CONF RAW_ARGS,
      command ''WHERE'' F_sql_container ''WHERE '' ACCESS_CONF RAW_ARGS,
      command ''USING'' F_sql_container ''USING '' ACCESS_CONF RAW_ARGS]"

subsection \<open>Calling a handler\<close>

text \<open>
  What Apache passes for each kind: a flag, the words (a null pointer for one that is left out), or the rest
  of the line; the lines of the file after it are those a container reads.
\<close>

datatype command_call = Flag_call bool | Args "string option list" | Raw_call string "string list"

fun passes :: "cmd_how \<Rightarrow> command_call \<Rightarrow> bool" where
  "passes FLAG (Flag_call b) = True"
| "passes RAW_ARGS (Raw_call s ls) = True"
| "passes TAKE1 (Args [Some a]) = True"
| "passes ITERATE (Args [Some a]) = True"
| "passes ITERATE2 (Args [Some a, Some b]) = True"
| "passes TAKE12 (Args [Some a, b]) = True"
| "passes TAKE3 (Args [Some a, Some b, Some c]) = True"
| "passes TAKE123 (Args [Some a, b, c]) = (b = None \<longrightarrow> c = None)"
| "passes _ _ = False"

text \<open>What the handlers change. \<open>c_lines\<close> are the lines of the configuration tree from the directive on.\<close>

record configuration =
  c_srv :: srv
  c_dir :: dir
  c_registry :: registry
  c_compiler :: Format_Compiler.parser
  c_lines :: "conf_line list"

text \<open>Library routines, the scanner, the uninitialised variables of the parser and the length of the buffer.\<close>

record conf_env =
  conf_long_bits :: nat
  ap_getword :: "string \<Rightarrow> char \<Rightarrow> string \<times> string"
  ap_getword_conf :: "string \<Rightarrow> string \<times> string"
  ap_find_last_token :: "string \<Rightarrow> string \<Rightarrow> bool"
  ap_str_tolower :: "string \<Rightarrow> string"
  ap_strcasecmp_match :: "string \<Rightarrow> string \<Rightarrow> int"
  ap_set_string_slot :: "string \<Rightarrow> string"
  nsql_scanner :: "string \<Rightarrow> sql_kind Coco_Parser.token list"
  e_memory :: nsql_expr
  idx_memory :: string
  bounded_memory :: bool
  sql_buffer_len :: nat
  in_location :: bool

definition srv_call :: "configuration \<Rightarrow> srv option \<Rightarrow> (configuration \<times> string option) option" where
  "srv_call st r = map_option (\<lambda>s. (st\<lparr>c_srv := s\<rparr>, None)) r"

definition dir_call :: "configuration \<Rightarrow> cmd_result \<Rightarrow> (configuration \<times> string option) option" where
  "dir_call st r = map_option (\<lambda>(d, err). (st\<lparr>c_dir := d\<rparr>, err)) r"

definition run_command ::
  "conf_env \<Rightarrow> command_rec \<Rightarrow> command_call \<Rightarrow> configuration \<Rightarrow> (configuration \<times> string option) option" where
  "run_command ev c call st =
     (case func c of
        F_connectstring \<Rightarrow> (case call of Args [Some a] \<Rightarrow> srv_call st (connectstring (c_srv st) a) | _ \<Rightarrow> None)
      | F_srv_set_int \<Rightarrow> (case call of Args [Some a] \<Rightarrow> srv_call st (srv_set_int (conf_long_bits ev) (cmd_name c) (c_srv st) a) | _ \<Rightarrow> None)
      | F_force_restart \<Rightarrow> (case call of Flag_call b \<Rightarrow> srv_call st (force_restart (c_srv st) (of_bool b)) | _ \<Rightarrow> None)
      | F_result_fmt_container \<Rightarrow>
          (case call of
             Raw_call a file \<Rightarrow>
               map_option (\<lambda>(err, reg, comp). (st\<lparr>c_registry := reg, c_compiler := comp\<rparr>, err))
                 (result_fmt_container (conf_long_bits ev) (ap_getword_conf ev) (ap_find_last_token ev) a file (c_registry st) (c_compiler st))
           | _ \<Rightarrow> None)
      | F_set_string_slot \<Rightarrow>
          (case call of Args [Some a] \<Rightarrow> dir_call st (Some ((c_dir st)\<lparr>database := Some (ap_set_string_slot ev a)\<rparr>, None)) | _ \<Rightarrow> None)
      | F_table \<Rightarrow> (case call of Args [Some a, b, c] \<Rightarrow> dir_call st (table (ap_strcasecmp_match ev) (c_dir st) a b c) | _ \<Rightarrow> None)
      | F_dir_set_flag \<Rightarrow> (case call of Flag_call b \<Rightarrow> dir_call st (dir_set_flag (cmd_name c) (c_dir st) b) | _ \<Rightarrow> None)
      | F_result_format \<Rightarrow>
          (case call of
             Args [Some a] \<Rightarrow>
               do { f \<leftarrow> get_format_by_name (conf_long_bits ev) a (c_registry st); dir_call st (result_format (\<lambda>_. f) (c_dir st) a) }
           | _ \<Rightarrow> None)
      | F_non_key_column \<Rightarrow> (case call of Args [Some a] \<Rightarrow> dir_call st (non_key_column (hd (cmd_data c)) (c_dir st) a) | _ \<Rightarrow> None)
      | F_primary_key \<Rightarrow> (case call of Args [Some a] \<Rightarrow> dir_call st (primary_key (c_dir st) a) | _ \<Rightarrow> None)
      | F_named_index \<Rightarrow>
          (case call of Args [Some a, Some b] \<Rightarrow> dir_call st (named_index (hd (cmd_data c)) (c_dir st) a b) | _ \<Rightarrow> None)
      | F_pathinfo \<Rightarrow>
          (case call of Args [Some a, b] \<Rightarrow> dir_call st (pathinfo_directive (ap_getword ev) (ap_str_tolower ev) (c_dir st) a b) | _ \<Rightarrow> None)
      | F_filter \<Rightarrow>
          (case call of Args [Some a, Some b, Some c] \<Rightarrow> dir_call st (filter_directive (c_dir st) a b c) | _ \<Rightarrow> None)
      | F_sql_container \<Rightarrow>
          (case call of
             Raw_call a file \<Rightarrow>
               map_option (\<lambda>(d, err, ls). (st\<lparr>c_dir := d, c_lines := ls\<rparr>, err))
                 (sql_container (nsql_scanner ev) (e_memory ev) (idx_memory ev) (bounded_memory ev) (sql_buffer_len ev) (in_location ev)
                   (c_lines st) (c_dir st))
           | _ \<Rightarrow> None))"

end
