(* ===== verification/Compiler_Runs.thy ===== *)
theory Compiler_Runs
  imports Format_Files
begin

text \<open>
  The compiler of formats comes back on every format whose texts have their dots alone or in threes, with the
  compiled format or an error. The one assertion it can fail is that of \<open>copy_node_text\<close>, on a plain text
  without a character: the scanner makes one where two dots stand that a third does not follow.
\<close>

subsection \<open>Dots\<close>

text \<open>Every run of dots is cut into ellipses from its start, and at most one dot is left over.\<close>

fun dots_ok :: "string \<Rightarrow> bool" where
  "dots_ok [] = True"
| "dots_ok (c # cs) =
     (if c \<noteq> CHR ''.'' \<or> take 1 cs \<noteq> ''.'' then dots_ok cs
      else take 2 cs = ''..'' \<and> dots_ok (drop 2 cs))"

lemma dots_ok_after: "dots_ok (xs @ c # ys) \<Longrightarrow> c \<noteq> CHR ''.'' \<Longrightarrow> dots_ok ys"
proof (induction xs rule: dots_ok.induct)
  case (2 x xs)
  show ?case
  proof (cases "x \<noteq> CHR ''.'' \<or> take 1 (xs @ c # ys) \<noteq> ''.''")
    case True
    with 2 show ?thesis by (cases xs) (auto split: if_splits)
  next
    case False
    then obtain zs where xs: "xs = CHR ''.'' # zs" using 2(4) by (cases xs) auto
    with False 2(3,4) obtain ws where "zs = CHR ''.'' # ws" by (cases zs) auto
    with xs False 2 show ?thesis by simp
  qed
qed simp

lemma dots_ok_plain: "dots_ok s \<Longrightarrow> dots_ok (drop (plain_length prev s) s)"
  by (induction prev s rule: plain_length.induct) (auto split: if_splits)

lemma plain_length_pos:
  assumes "dots_ok s" and "s \<noteq> []" and "take 3 s \<noteq> ''...''" and "hd s \<noteq> CHR ''$''"
  shows "0 < plain_length prev s"
  using assms by (cases s) (auto simp: numeral_3_eq_3 numeral_2_eq_2 split: if_splits)

lemma dots_ok_ellipses:
  assumes "dots_ok s" and "take 3 s = ''...''"
  shows "dots_ok (drop 3 s)"
proof -
  have "s = ''...'' @ drop 3 s" using assms(2) append_take_drop_id [of 3 s] by simp
  with assms(1) have "dots_ok (''...'' @ drop 3 s)" by simp
  then show ?thesis by (simp add: numeral_2_eq_2)
qed

lemma plain_length_le: "plain_length prev s \<le> length s"
  by (induction prev s rule: plain_length.induct) auto

subsection \<open>Steps that come back\<close>

definition runs :: "'a step \<Rightarrow> ('a \<Rightarrow> parser \<Rightarrow> bool) \<Rightarrow> parser \<Rightarrow> bool" where
  "runs m Q st \<longleftrightarrow>
     (case m st of None \<Rightarrow> False | Some (Inl msg) \<Rightarrow> True | Some (Inr (x, st')) \<Rightarrow> Q x st')"

lemma runs_seq: "runs (seq m f) Q st \<longleftrightarrow> runs m (\<lambda>x. runs (f x) Q) st"
  by (auto simp: runs_def seq_def split: option.splits sum.splits)

lemma runs_return [simp]: "runs (return x) Q st \<longleftrightarrow> Q x st"
  by (simp add: runs_def return_def)

lemma runs_update [simp]: "runs (update f) Q st \<longleftrightarrow> Q () (f st)"
  by (simp add: runs_def update_def return_def)

lemma runs_throw [simp]: "runs (throw msg) Q st"
  by (simp add: runs_def throw_def)

lemma runs_mono: "runs m P st \<Longrightarrow> (\<And>x st'. P x st' \<Longrightarrow> Q x st') \<Longrightarrow> runs m Q st"
  by (auto simp: runs_def split: option.splits sum.splits)

subsection \<open>The scanner on one text\<close>

text \<open>A pointer into the text \<open>t\<close> from which the dots are in order.\<close>

definition inside :: "string \<Rightarrow> ptr \<Rightarrow> bool" where
  "inside t p \<longleftrightarrow> fst p = t \<and> 0 \<le> snd p \<and> snd p \<le> int (length t) \<and> dots_ok (drop (nat (snd p)) t)"

text \<open>Before a token, and after one.\<close>

definition before_token :: "string \<Rightarrow> parser \<Rightarrow> bool" where
  "before_token t st \<longleftrightarrow> inside t (token_next st) \<and> cells st \<noteq> []"

definition after_token :: "string \<Rightarrow> parser \<Rightarrow> bool" where
  "after_token t st \<longleftrightarrow> before_token t st \<and> inside t (token_start st) \<and>
     (current_token st \<noteq> tok_no_more \<longrightarrow> snd (token_start st) < snd (token_next st))"

lemma after_before: "after_token t st \<Longrightarrow> before_token t st"
  by (simp add: after_token_def)

lemma after_rollback: "after_token t st \<Longrightarrow> before_token t (rollback st)"
  by (simp add: after_token_def before_token_def rollback_def)

lemma inside_rest: "inside t p \<Longrightarrow> rest_at p = Some (drop (nat (snd p)) t)"
  by (simp add: inside_def rest_at_def)

lemma inside_at: "inside t p \<Longrightarrow> n \<le> length (drop (nat (snd p)) t) \<Longrightarrow> dots_ok (drop n (drop (nat (snd p)) t)) \<Longrightarrow>
    inside t (at p (int n))"
  by (auto simp: inside_def at_def nat_add_distrib add.commute le_diff_conv2 nat_le_iff)

lemma scan_token_runs:
  assumes "inside t (token_start st)" and "s = drop (nat (snd (token_start st))) t" and "cells st \<noteq> []"
    and "s = [] \<longrightarrow> inside t (token_next st)"
  shows "runs (scan_token s) (\<lambda>tok st'. token_start st' = token_start st \<and> cells st' = cells st \<and> inside t (token_next st') \<and>
    (tok \<noteq> tok_no_more \<longrightarrow> snd (token_start st) < snd (token_next st'))) st"
proof -
  have ok: "dots_ok s" using assms(1,2) by (simp add: inside_def)
  consider "s = []" | "s \<noteq> []" "take 3 s = ''...''" | "s \<noteq> []" "take 3 s \<noteq> ''...''" "hd s = CHR ''$''"
    | "s \<noteq> []" "take 3 s \<noteq> ''...''" "hd s \<noteq> CHR ''$''" by blast
  then show ?thesis
  proof cases
    case 1
    with assms(4) show ?thesis by (simp add: scan_token_def runs_def return_def)
  next
    case 2
    have "3 \<le> length s" using arg_cong [OF 2(2), of length] by simp
    with inside_at [OF assms(1), of 3] dots_ok_ellipses [OF ok 2(2)] assms(2) have "inside t (at (token_start st) 3)" by simp
    with 2 show ?thesis by (simp add: scan_token_def runs_def return_def Let_def at_def)
  next
    case 3
    let ?inner = "takeWhile (\<lambda>c. c \<noteq> CHR ''$'') (tl s)"
    show ?thesis
    proof (cases "length ?inner + 1 < length s")
      case True
      obtain c cs where s: "s = c # cs" using 3(1) by (cases s) auto
      have ne: "dropWhile (\<lambda>c. c \<noteq> CHR ''$'') cs \<noteq> []"
      proof
        assume "dropWhile (\<lambda>c. c \<noteq> CHR ''$'') cs = []"
        then have "takeWhile (\<lambda>c. c \<noteq> CHR ''$'') cs = cs"
          by (simp only: dropWhile_eq_Nil_conv takeWhile_eq_all_conv)
        with True show False unfolding s by simp
      qed
      from hd_dropWhile [OF ne] ne obtain rest where r: "dropWhile (\<lambda>c. c \<noteq> CHR ''$'') cs = CHR ''$'' # rest"
        by (cases "dropWhile (\<lambda>c. c \<noteq> CHR ''$'') cs") auto
      have cs: "s = (c # ?inner) @ CHR ''$'' # rest" using takeWhile_dropWhile_id [of "\<lambda>c. c \<noteq> CHR ''$''" cs] r unfolding s by simp
      then have "dots_ok rest" using ok dots_ok_after [of "c # ?inner" "CHR ''$''" rest] by simp
      moreover have "drop (length ?inner + 2) s = rest" by (subst cs) simp
      ultimately have "inside t (at (token_start st) (int (length ?inner) + 2))"
        using inside_at [OF assms(1), of "length ?inner + 2"] assms(2) True by (simp add: add.commute)
      with 3 True show ?thesis by (simp add: scan_token_def runs_def return_def Let_def at_def)
    next
      case False
      with 3 show ?thesis by (simp add: scan_token_def runs_def throw_def Let_def)
    qed
  next
    case 4
    let ?k = "plain_length (CHR 0x00) s"
    have k: "0 < ?k" "?k \<le> length s" using plain_length_pos [OF ok 4] plain_length_le by blast+
    with inside_at [OF assms(1), of ?k] dots_ok_plain [OF ok] assms(2) have "inside t (at (token_start st) (int ?k))" by simp
    with 4 k show ?thesis by (simp add: scan_token_def runs_def return_def Let_def at_def)
  qed
qed

text \<open>Where the next token starts: at the beginning of a text, or behind the last one.\<close>

lemma next_token_runs:
  assumes "case start of Some u \<Rightarrow> u = t \<and> t \<noteq> [] \<and> dots_ok t \<and> cells st \<noteq> [] | None \<Rightarrow> before_token t st"
  shows "runs (next_token start) (\<lambda>tok st'. after_token t st' \<and> current_token st' = tok \<and> cells st' = cells st \<and>
    (start = None \<longrightarrow> token_start st' = token_next st)) st"
proof -
  let ?p = "case start of Some u \<Rightarrow> (u, 0) | None \<Rightarrow> token_next st"
  let ?st = "st\<lparr>old_token := current_token st, old_start := token_start st, token_start := ?p\<rparr>"
  have p: "inside t ?p" and c: "cells st \<noteq> []"
    using assms by (auto simp: inside_def before_token_def split: option.splits)
  let ?s = "drop (nat (snd ?p)) t"
  have "inside t (token_next ?st)" if "?s = []"
    using assms that by (auto simp: before_token_def split: option.splits)
  then have "runs (scan_token ?s) (\<lambda>tok st'. token_start st' = ?p \<and> cells st' = cells st \<and> inside t (token_next st') \<and>
      (tok \<noteq> tok_no_more \<longrightarrow> snd ?p < snd (token_next st'))) ?st"
    using scan_token_runs [of t ?st ?s] p c by simp
  moreover have "scan start st = scan_token ?s ?st" by (simp add: scan_def inside_rest [OF p] Let_def)
  ultimately have "runs (scan start) (\<lambda>tok st'. token_start st' = ?p \<and> cells st' = cells st \<and> inside t (token_next st') \<and>
      (tok \<noteq> tok_no_more \<longrightarrow> snd ?p < snd (token_next st'))) st" by (simp add: runs_def)
  then have "runs (scan start) (\<lambda>tok. runs (\<lambda>st. return tok (st\<lparr>current_token := tok\<rparr>)) (\<lambda>tok st'. after_token t st' \<and>
      current_token st' = tok \<and> cells st' = cells st \<and> (start = None \<longrightarrow> token_start st' = token_next st))) st"
    by (rule runs_mono) (use p c in \<open>auto simp: runs_def return_def after_token_def before_token_def\<close>)
  then show ?thesis by (simp add: next_token_def runs_seq)
qed

subsection \<open>Cells and chains\<close>

lemma copy_node_text_runs:
  assumes "after_token t st" and "current_token st \<noteq> tok_no_more"
  shows "runs copy_node_text (\<lambda>s st'. st' = st) st"
proof -
  have i: "inside t (token_start st)" "inside t (token_next st)" "snd (token_start st) < snd (token_next st)"
    using assms by (simp_all add: after_token_def before_token_def)
  then have "fst (token_start st) = fst (token_next st)" by (simp add: inside_def)
  with i show ?thesis by (simp add: copy_node_text_def runs_def return_def inside_rest Let_def)
qed

lemma new_cell_runs:
  assumes "after_token t st"
  shows "runs (new_cell c) (\<lambda>a st'. after_token t st' \<and> a \<noteq> 0 \<and> token_start st' = token_start st \<and> current_token st' = current_token st) st"
  using assms by (simp add: new_cell_def runs_def return_def after_token_def before_token_def)

lemma build_cell_runs:
  assumes "after_token t st" and "is_terminal (current_token st)"
  shows "runs (build_cell lb) (\<lambda>a st'. after_token t st' \<and> a \<noteq> 0 \<and> token_start st' = token_start st \<and> current_token st' = current_token st) st"
    (is "runs _ ?Q st")
proof (cases "current_token st = tok_plaintext")
  case True
  then have "runs (seq copy_node_text (\<lambda>s. new_cell (text_cell s))) ?Q st"
    unfolding runs_seq using new_cell_runs [OF assms(1)]
    by (intro runs_mono [OF copy_node_text_runs [OF assms(1)]]) auto
  with True show ?thesis by (simp add: runs_def build_cell_def)
next
  case False
  have "rest_at (token_start st) = Some (drop (nat (snd (token_start st))) t)"
    using assms(1) by (intro inside_rest) (simp add: after_token_def)
  moreover have "runs (new_cell c) ?Q st" for c by (rule new_cell_runs [OF assms(1)])
  ultimately show ?thesis using False assms(2)
    by (auto simp: runs_def build_cell_def is_terminal_def Let_def split: prod.split)
qed

lemma expected_runs [simp]: "after_token t st \<Longrightarrow> runs (expected what) Q st"
  using inside_rest [of t "token_start st"] by (simp add: expected_def runs_def throw_def after_token_def)

definition starts :: "string \<Rightarrow> string option \<Rightarrow> parser \<Rightarrow> bool" where
  "starts t start st \<longleftrightarrow>
     (case start of Some u \<Rightarrow> u = t \<and> t \<noteq> [] \<and> dots_ok t \<and> cells st \<noteq> [] | None \<Rightarrow> before_token t st)"

lemma get_cell_runs:
  assumes "starts t start st"
  shows "runs (get_cell lb req start) (\<lambda>a st'. after_token t st' \<and>
    (start = None \<longrightarrow> a \<noteq> 0 \<longrightarrow> snd (token_next st) < snd (token_next st'))) st"
  unfolding get_cell_def runs_seq
proof (rule runs_mono [OF next_token_runs [OF assms [unfolded starts_def]]], elim conjE)
  fix tok st1
  assume a: "after_token t st1" "current_token st1 = tok" "start = None \<longrightarrow> token_start st1 = token_next st"
  let ?Q = "\<lambda>a st'. after_token t st' \<and> (start = None \<longrightarrow> a \<noteq> 0 \<longrightarrow> snd (token_next st) < snd (token_next st'))"
  have "runs (build_cell lb) ?Q st1" if "is_terminal tok"
  proof (rule runs_mono [OF build_cell_runs [OF a(1)]])
    show "is_terminal (current_token st1)" using that a(2) by simp
    fix c st2
    assume b: "after_token t st2 \<and> c \<noteq> 0 \<and> token_start st2 = token_start st1 \<and> current_token st2 = current_token st1"
    moreover have "current_token st1 \<noteq> tok_no_more" using that a(2) by (auto simp: is_terminal_def)
    ultimately show "?Q c st2" using a(3) by (auto simp: after_token_def)
  qed
  moreover have "runs (expected ''terminal'' :: nat step) ?Q st1" by (rule expected_runs [OF a(1)])
  ultimately show "runs (if is_terminal tok then build_cell lb else if req then expected ''terminal'' else return 0) ?Q st1"
    using a(1) by simp
qed

lemma chain_loop_runs:
  assumes "before_token t st"
  shows "case chain_loop lb c st of None \<Rightarrow> False | Some (Inl msg) \<Rightarrow> True | Some (Inr st') \<Rightarrow> after_token t st'"
  using assms
proof (induction "nat (int (length t) - snd (token_next st))" arbitrary: c st rule: less_induct)
  case less
  have "starts t None st" using less.prems by (simp add: starts_def)
  from get_cell_runs [OF this, of lb False] show ?case
  proof (cases "get_cell lb False None st")
    case (Some r)
    show ?thesis
    proof (cases r)
      case (Inr p)
      obtain c2 st1 where p: "p = (c2, st1)" by (cases p)
      have g: "after_token t st1" "c2 \<noteq> 0 \<longrightarrow> snd (token_next st) < snd (token_next st1)"
        using get_cell_runs [OF \<open>starts t None st\<close>, of lb False] Some Inr p by (simp_all add: runs_def)
      show ?thesis
      proof (cases "c2 = 0")
        case True
        with g Some Inr p show ?thesis by (subst chain_loop.simps) simp
      next
        case False
        let ?st = "link_cell c c2 st1"
        have b: "before_token t ?st" using after_before [OF g(1)] by (simp add: before_token_def link_cell_def)
        have "snd (token_next ?st) \<le> int (length t)" using b by (simp add: before_token_def inside_def)
        with g(2) False have "nat (int (length t) - snd (token_next ?st)) < nat (int (length t) - snd (token_next st))"
          by (simp add: link_cell_def)
        from less.hyps [OF this b] Some Inr p False show ?thesis by (subst chain_loop.simps) simp
      qed
    qed (use Some in \<open>subst chain_loop.simps, simp\<close>)
  qed (simp add: runs_def)
qed

lemma get_cell_chain_runs:
  assumes "starts t start st"
  shows "runs (get_cell_chain lb req start) (\<lambda>a. before_token t) st"
  unfolding get_cell_chain_def runs_seq
proof (rule runs_mono [OF get_cell_runs [OF assms]], elim conjE)
  fix c st1 assume a: "after_token t st1"
  from chain_loop_runs [OF after_before [OF a], of lb c]
  show "runs (\<lambda>st. case chain_loop lb c st of None \<Rightarrow> None | Some (Inl msg) \<Rightarrow> Some (Inl msg)
      | Some (Inr st') \<Rightarrow> return c (if current_token st' \<noteq> tok_no_more then rollback st' else st')) (\<lambda>a. before_token t) st1"
    by (auto simp: runs_def return_def after_rollback after_before split: option.splits sum.splits)
qed

lemma next_runs:
  assumes "before_token t st"
  shows "runs (next_token None) (\<lambda>tok st'. after_token t st' \<and> current_token st' = tok) st"
  by (rule runs_mono [OF next_token_runs [where start = None and t = t]]) (use assms in auto)

lemma get_string_runs:
  assumes "before_token t st"
  shows "runs (get_string req) (\<lambda>s. after_token t) st"
  unfolding get_string_def runs_seq
proof (rule runs_mono [OF next_runs [OF assms]], elim conjE)
  fix tok st1 assume a: "after_token t st1" "current_token st1 = tok"
  have "runs (seq copy_node_text (\<lambda>s. return (Some s))) (\<lambda>s. after_token t) st1" if "tok = tok_plaintext"
    unfolding runs_seq using a that by (intro runs_mono [OF copy_node_text_runs [OF a(1)]]) auto
  with a show "runs (if tok = tok_plaintext then seq copy_node_text (\<lambda>s. return (Some s))
      else if req then expected ''constant string'' else return None) (\<lambda>s. after_token t) st1" by simp
qed

lemma get_ellipses_runs: "before_token t st \<Longrightarrow> runs (get_ellipses req) (\<lambda>b. after_token t) st"
  unfolding get_ellipses_def runs_seq by (rule runs_mono [OF next_runs]) auto

lemma the_end_runs: "before_token t st \<Longrightarrow> runs (the_end req) (\<lambda>b. after_token t) st"
  unfolding the_end_def runs_seq by (rule runs_mono [OF next_runs]) auto

lemma get_node_runs:
  assumes "before_token t st"
  shows "runs (get_node f req) (\<lambda>a. after_token t) st"
  unfolding get_node_def runs_seq
proof (rule runs_mono [OF next_runs [OF assms]], elim conjE)
  fix tok st1 assume a: "after_token t st1"
  have "runs (expected ''node'' :: nat step) (\<lambda>a. after_token t) st1" by (rule expected_runs [OF a])
  with a show "runs (\<lambda>st. if tok = tok_node then (case symbol f (node_symbol st) of Some a \<Rightarrow> return a st
      | None \<Rightarrow> throw (''Undefined symbol '' @ quoted (node_symbol st)) st)
      else if req then expected ''node'' st else return 0 st) (\<lambda>a. after_token t) st1"
    by (auto simp: runs_def return_def throw_def split: option.split)
qed

subsection \<open>Nodes and formats\<close>

definition text_ok :: "string \<Rightarrow> bool" where
  "text_ok t \<longleftrightarrow> t \<noteq> [] \<and> dots_ok t"

definition node_ok :: "node \<Rightarrow> bool" where
  "node_ok nd \<longleftrightarrow> text_ok (unresolved nd) \<and> (\<forall>t. unresolved2 nd = Some t \<longrightarrow> text_ok t)"

definition compiled_from :: "node \<Rightarrow> node \<Rightarrow> parser \<Rightarrow> bool" where
  "compiled_from nd nd' st \<longleftrightarrow> unresolved nd' = unresolved nd \<and> unresolved2 nd' = unresolved2 nd \<and> cells st \<noteq> []"

lemma starts_text: "text_ok t \<Longrightarrow> cells st \<noteq> [] \<Longrightarrow> starts t (Some t) st"
  by (simp add: starts_def text_ok_def)

lemma starts_next: "before_token t st \<Longrightarrow> starts t None st"
  by (simp add: starts_def)

lemma before_cells: "before_token t st \<Longrightarrow> cells st \<noteq> []" "after_token t st \<Longrightarrow> cells st \<noteq> []"
  by (simp_all add: before_token_def after_token_def)

lemma compile_attr_runs:
  assumes "node_ok nd" and "cells st \<noteq> []"
  shows "runs (compile_attr lb nd) (compiled_from nd) st"
  unfolding compile_attr_def runs_seq
proof (rule runs_mono [OF get_cell_chain_runs [OF starts_text]])
  show "text_ok (unresolved nd)" "cells st \<noteq> []" using assms by (simp_all add: node_ok_def)
  fix c st1 assume b: "before_token (unresolved nd) st1"
  note c1 = before_cells(1) [OF b]
  show "runs (case unresolved2 nd of
      Some t \<Rightarrow> seq (get_cell_chain lb True (Some t)) (\<lambda>c'. return (nd\<lparr>n_fmt := Some c, n_null_fmt := Some c'\<rparr>))
    | None \<Rightarrow> return (nd\<lparr>n_fmt := Some c, n_null_fmt := Some c\<rparr>)) (compiled_from nd) st1"
  proof (cases "unresolved2 nd")
    case None
    with c1 show ?thesis by (simp add: compiled_from_def)
  next
    case (Some t)
    with assms(1) have "starts t (Some t) st1" using c1 by (intro starts_text) (simp add: node_ok_def)
    from get_cell_chain_runs [OF this, of lb True] Some before_cells(1) [of t] show ?thesis
      by (simp add: runs_seq) (erule runs_mono, simp add: compiled_from_def)
  qed
qed

lemma loop_tail_runs:
  assumes "before_token t st"
  shows "runs (loop_tail lb core) (\<lambda>x. before_token t) st"
proof (cases "core = 0")
  case True
  with assms show ?thesis by (simp add: loop_tail_def)
next
  case False
  have rest: "runs (seq (get_ellipses True) (\<lambda>_. seq (get_cell_chain lb False None) (\<lambda>e.
      return (case sep of None \<Rightarrow> [] | Some s \<Rightarrow> s, e)))) (\<lambda>x. before_token t) st1" if b: "before_token t st1" for st1 sep
    unfolding runs_seq
    by (rule runs_mono [OF get_ellipses_runs [OF b]], rule runs_mono [OF get_cell_chain_runs [OF starts_next [OF after_before]]]) simp_all
  have "runs (seq (get_string False) (\<lambda>sep. seq (update (if sep = None then rollback else id)) (\<lambda>_.
      seq (get_ellipses True) (\<lambda>_. seq (get_cell_chain lb False None) (\<lambda>e.
      return (case sep of None \<Rightarrow> [] | Some s \<Rightarrow> s, e)))))) (\<lambda>x. before_token t) st"
    unfolding runs_seq [of "get_string False"] runs_seq [of "update _"]
    by (rule runs_mono [OF get_string_runs [OF assms]])
      (unfold runs_update, rule rest, simp add: after_before after_rollback)
  with False show ?thesis by (simp add: loop_tail_def)
qed

lemma compile_loop_runs:
  assumes "node_ok nd" and "cells st \<noteq> []"
  shows "runs (compile_loop lb f nd) (compiled_from nd) st"
proof -
  let ?t = "unresolved nd"
  have s: "starts ?t (Some ?t) st" using assms by (intro starts_text) (simp_all add: node_ok_def)
  show ?thesis
    unfolding compile_loop_def runs_seq
  proof (rule runs_mono [OF get_cell_chain_runs [OF s]], rule runs_mono [OF get_node_runs])
    fix b core st1 st2 assume a: "after_token ?t st2"
    show "runs (loop_tail lb core) (\<lambda>x. runs (case x of (sep, e) \<Rightarrow> seq (the_end True) (\<lambda>_.
        return (nd\<lparr>l_begin := Some b, l_core := Some core, l_sep := Some sep, l_end := Some e\<rparr>))) (compiled_from nd)) st2"
    proof (rule runs_mono [OF loop_tail_runs [OF after_before [OF a]]])
      fix x :: "string \<times> nat" and st3 assume b3: "before_token ?t st3"
      obtain sep e where x: "x = (sep, e)" by (cases x)
      show "runs (case x of (sep, e) \<Rightarrow> seq (the_end True) (\<lambda>_.
          return (nd\<lparr>l_begin := Some b, l_core := Some core, l_sep := Some sep, l_end := Some e\<rparr>))) (compiled_from nd) st3"
        unfolding x prod.case runs_seq
        by (rule runs_mono [OF the_end_runs [OF b3]]) (use before_cells(2) in \<open>simp add: compiled_from_def\<close>)
    qed
  qed
qed

lemma compile_main_runs:
  assumes "node_ok nd" and "cells st \<noteq> []"
  shows "runs (compile_main lb f nd) (compiled_from nd) st"
proof -
  let ?t = "unresolved nd"
  have s: "starts ?t (Some ?t) st" using assms by (intro starts_text) (simp_all add: node_ok_def)
  have tail: "runs (if core \<noteq> 0 \<and> type_of_class (n_class (f_nodes f ! core)) \<noteq> Loop_type
       then throw ''The core of a Format object must be a Row or Scan object.''
       else seq (get_cell lb False None) (\<lambda>e. seq (the_end True) (\<lambda>_.
              return (nd\<lparr>l_begin := Some b, l_core := Some core, l_sep := Some [], l_end := Some e\<rparr>)))) (compiled_from nd) st2"
    if a: "after_token ?t st2" for b :: nat and core st2
  proof -
    have "runs (seq (get_cell lb False None) (\<lambda>e. seq (the_end True) (\<lambda>_.
        return (nd\<lparr>l_begin := Some b, l_core := Some core, l_sep := Some [], l_end := Some e\<rparr>)))) (compiled_from nd) st2"
      unfolding runs_seq
    proof (rule runs_mono [OF get_cell_runs [OF starts_next [OF after_before [OF a]]]], elim conjE)
      fix e st3 assume c: "after_token ?t st3"
      show "runs (the_end True) (\<lambda>x. runs (return (nd\<lparr>l_begin := Some b, l_core := Some core, l_sep := Some [], l_end := Some e\<rparr>))
          (compiled_from nd)) st3"
        by (rule runs_mono [OF the_end_runs [OF after_before [OF c]]]) (use before_cells(2) in \<open>simp add: compiled_from_def\<close>)
    qed
    then show ?thesis by simp
  qed
  show ?thesis
    unfolding compile_main_def runs_seq [of "get_cell lb False (Some ?t)"] runs_seq [of "update _"] runs_seq [of "get_node f False"]
  proof (rule runs_mono [OF get_cell_runs [OF s]], elim conjE)
    fix b :: nat and st1 assume a: "after_token ?t st1"
    have "before_token ?t ((if b = 0 then rollback else id) st1)" using after_rollback [OF a] after_before [OF a] by simp
    then show "runs (update (if b = 0 then rollback else id)) (\<lambda>_. runs (get_node f False) (\<lambda>core. runs (
        if core \<noteq> 0 \<and> type_of_class (n_class (f_nodes f ! core)) \<noteq> Loop_type
        then throw ''The core of a Format object must be a Row or Scan object.''
        else seq (get_cell lb False None) (\<lambda>e. seq (the_end True) (\<lambda>_.
              return (nd\<lparr>l_begin := Some b, l_core := Some core, l_sep := Some [], l_end := Some e\<rparr>)))) (compiled_from nd))) st1"
      unfolding runs_update by (rule runs_mono [OF get_node_runs tail])
  qed
qed

lemma compile_node_runs:
  assumes "node_ok nd" and "cells st \<noteq> []"
  shows "runs (compile_node lb f nd) (compiled_from nd) st"
proof (cases "n_class nd")
  case Plain_node
  have s: "starts (unresolved nd) (Some (unresolved nd)) st" using assms by (intro starts_text) (simp_all add: node_ok_def)
  have "runs (seq (get_cell lb True (Some (unresolved nd))) (\<lambda>c. return (nd\<lparr>n_cell := Some c\<rparr>))) (compiled_from nd) st"
    unfolding runs_seq by (rule runs_mono [OF get_cell_runs [OF s]]) (use before_cells(2) in \<open>auto simp: compiled_from_def\<close>)
  with Plain_node show ?thesis by (simp add: compile_node_def)
qed (use assms compile_attr_runs compile_loop_runs compile_main_runs in \<open>simp_all add: compile_node_def\<close>)

text \<open>A format all of whose nodes in the symbol table have texts with their dots in order.\<close>

definition texts_ok :: "output_format \<Rightarrow> bool" where
  "texts_ok f \<longleftrightarrow> length (symbol_table f) = SYM_TAB_SZ \<and>
     (\<forall>b\<in>set (symbol_table f). \<forall>a\<in>set b. a < length (f_nodes f) \<and> node_ok (f_nodes f ! a))"

lemma compile_nodes_runs:
  assumes "\<forall>a\<in>set as. a < length (f_nodes f) \<and> node_ok (f_nodes f ! a)" and "cells st \<noteq> []"
  shows "runs (compile_nodes lb as f) (\<lambda>f' st'. cells st' \<noteq> []) st"
  using assms
proof (induction as arbitrary: f st)
  case (Cons a as)
  let ?nd = "f_nodes f ! a"
  have "runs (compile_node lb f ?nd) (compiled_from ?nd) st" using Cons.prems by (intro compile_node_runs) simp_all
  then consider msg where "compile_node lb f ?nd st = Some (Inl msg)"
    | nd st1 where "compile_node lb f ?nd st = Some (Inr (nd, st1))" "compiled_from ?nd nd st1"
    by (auto simp: runs_def split: option.splits sum.splits)
  then show ?case
  proof cases
    case (2 nd st1)
    have "node_ok nd = node_ok ?nd" using 2(2) by (simp add: compiled_from_def node_ok_def)
    with Cons.prems(1) have "\<forall>x\<in>set as. x < length ((f_nodes f)[a := nd]) \<and> node_ok ((f_nodes f)[a := nd] ! x)"
      by (auto simp: nth_list_update)
    moreover have "cells st1 \<noteq> []" using 2(2) by (simp add: compiled_from_def)
    ultimately have "runs (compile_nodes lb as (f\<lparr>f_nodes := (f_nodes f)[a := nd]\<rparr>)) (\<lambda>f' st'. cells st' \<noteq> []) st1"
      by (intro Cons.IH) simp_all
    with 2(1) show ?thesis by (simp add: runs_def)
  qed (simp add: runs_def)
qed simp

lemma compile_runs:
  assumes "texts_ok f" and "cells st \<noteq> []"
  shows "runs (compile lb f) (\<lambda>f' st'. cells st' \<noteq> []) st"
  unfolding compile_def using assms by (intro compile_nodes_runs) (auto simp: texts_ok_def)

subsection \<open>Formats of the configuration\<close>

text \<open>What a line of a container puts into a format: its fourth word, and its sixth after \<open>or\<close>.\<close>

definition line_words :: "(string \<Rightarrow> string \<times> string) \<Rightarrow> string \<Rightarrow> string \<times> string" where
  "line_words gw line =
     (let p3 = snd (gw (snd (gw (snd (gw line))))); p5 = snd (gw (snd (gw p3))) in (fst (gw p3), fst (gw p5)))"

definition line_dots :: "(string \<Rightarrow> string \<times> string) \<Rightarrow> string \<Rightarrow> bool" where
  "line_dots gw line \<longleftrightarrow>
     (let (word4, word6) = line_words gw line in dots_ok (unescape word4) \<and> dots_ok (unescape word6))"

lemma unescape_nonempty: "s \<noteq> [] \<Longrightarrow> unescape s \<noteq> []"
  by (cases s) (auto split: list.split)

lemma texts_ok_new: "texts_ok (new_format nm)"
  by (auto simp: texts_ok_def new_format_def)

lemma texts_ok_alloc:
  assumes "texts_ok f"
  shows "texts_ok (f\<lparr>f_nodes := f_nodes f @ [nd], top_node := x\<rparr>)" "texts_ok (f\<lparr>f_nodes := f_nodes f @ [nd]\<rparr>)"
  using assms by (auto simp: texts_ok_def nth_append intro: less_SucI)

lemma texts_ok_symbol:
  assumes "texts_ok f" and "a < length (f_nodes f)" and "node_ok (f_nodes f ! a)"
  shows "texts_ok (add_symbol nm a f)"
proof (cases "symbol f nm")
  case None
  let ?ns = "(f_nodes f)[a := (f_nodes f ! a)\<lparr>n_name := nm\<rparr>]"
  let ?tab = "(symbol_table f)[symbol_hash nm := a # symbol_table f ! symbol_hash nm]"
  have h: "symbol_hash nm < length (symbol_table f)" using assms(1) symbol_hash_less by (simp add: texts_ok_def)
  have node: "node_ok (?ns ! x)" if "x < length (f_nodes f)" "node_ok (f_nodes f ! x)" for x
    using that assms(2,3) by (cases "x = a") (simp_all add: node_ok_def)
  have "x < length ?ns \<and> node_ok (?ns ! x)" if b: "b \<in> set ?tab" "x \<in> set b" for b x
  proof -
    have "b = a # symbol_table f ! symbol_hash nm \<or> b \<in> set (symbol_table f)" using b(1) by (auto dest!: subsetD [OF set_update_subset_insert])
    with b(2) nth_mem [OF h] have "x = a \<or> (\<exists>c\<in>set (symbol_table f). x \<in> set c)" by auto
    with assms have "x < length (f_nodes f)" "node_ok (f_nodes f ! x)" by (auto simp: texts_ok_def)
    with node show ?thesis by simp
  qed
  moreover have "length ?tab = SYM_TAB_SZ" using assms(1) by (simp add: texts_ok_def)
  ultimately show ?thesis using None by (simp add: add_symbol_def texts_ok_def)
qed (use assms(1) in \<open>simp add: add_symbol_def\<close>)

lemma texts_ok_define: "texts_ok f \<Longrightarrow> node_ok nd \<Longrightarrow> texts_ok (define_node nm nd f)"
  using texts_ok_symbol [OF texts_ok_alloc(2) [where f = f and nd = nd], of "length (f_nodes f)" nm] by (simp add: define_node_def alloc_node_def)

lemma texts_ok_main:
  assumes "texts_ok f" and "text_ok txt"
  shows "texts_ok (add_main txt f)"
  using texts_ok_symbol [OF texts_ok_alloc(1) [OF assms(1), where nd = "new_node Main_loop txt None" and x = "Some (length (f_nodes f))"], of "length (f_nodes f)"] assms(2)
  by (simp add: add_main_def alloc_node_def node_ok_def new_node_def)

lemma node_ok_new: "node_ok (new_node cl txt txt2) \<longleftrightarrow> text_ok txt \<and> (\<forall>t. txt2 = Some t \<longrightarrow> text_ok t)"
  by (simp add: node_ok_def new_node_def)

lemma container_line_texts:
  assumes "texts_ok f" and "line_dots gw line" and "container_line gw name line f = Inr f'"
  shows "texts_ok f'"
proof -
  obtain w1 p1 w2 p2 w3 p3 w4 p4 w5 p5 w6 p6 where
    w: "gw line = (w1, p1)" "gw p1 = (w2, p2)" "gw p2 = (w3, p3)" "gw p3 = (w4, p4)" "gw p4 = (w5, p5)" "gw p5 = (w6, p6)"
    by (metis prod.exhaust)
  have t: "w4 \<noteq> [] \<Longrightarrow> text_ok (unescape w4)" "w6 \<noteq> [] \<Longrightarrow> text_ok (unescape w6)"
    using assms(2) unescape_nonempty by (simp_all add: line_dots_def line_words_def w text_ok_def)
  from assms(1,3) t show ?thesis
    by (auto simp: container_line_def w Let_def node_ok_new intro!: texts_ok_define texts_ok_main split: if_splits)
qed

lemma container_lines_texts:
  assumes "texts_ok f" and "\<forall>line\<in>set lines. line_dots gw line" and "container_lines gw name lines f = Inr f'"
  shows "texts_ok f'"
  using assms
proof (induction lines arbitrary: f)
  case (Cons line lines)
  then show ?case
    by (cases "container_line gw name line f") (auto dest: container_line_texts split: if_splits)
qed simp

lemma result_fmt_container_runs:
  assumes "\<forall>line\<in>set lines. line_dots gw line" and "cells st \<noteq> []" and "registry_ok reg"
    and "length (global_output_formats reg) < 2 ^ 31 - 2" and "lb = 32 \<or> lb = 64"
  shows "\<exists>err reg' st'. result_fmt_container lb gw lastp args lines reg st = Some (err, reg', st') \<and> registry_ok reg' \<and> cells st' \<noteq> []"
proof (cases "lastp (snd (gw args)) ''>''")
  case last: True
  let ?name = "fst (gw args)"
  show ?thesis
  proof (cases "container_lines gw ?name lines (new_format ?name)")
    case (Inl e)
    with last assms show ?thesis by (simp add: result_fmt_container_def case_prod_beta Let_def)
  next
    case (Inr f)
    show ?thesis
    proof (cases "top_node f")
      case None
      with last Inr assms show ?thesis by (simp add: result_fmt_container_def case_prod_beta Let_def)
    next
      case (Some top)
      from container_lines_texts [OF texts_ok_new assms(1) Inr] compile_runs [OF _ assms(2), of f lb]
      consider e where "compile lb f st = Some (Inl e)" | f' st' where "compile lb f st = Some (Inr (f', st'))" "cells st' \<noteq> []"
        by (auto simp: runs_def split: option.splits sum.splits)
      then show ?thesis
      proof cases
        case 1
        with last Inr Some assms show ?thesis by (simp add: result_fmt_container_def case_prod_beta Let_def)
      next
        case (2 f' st')
        from register_format_ok [OF assms(3-5), of f'] obtain reg' err where
          "register_format lb f' reg = Some (reg', err)" "registry_ok reg'" by blast
        with 2 last Inr Some show ?thesis by (simp add: result_fmt_container_def case_prod_beta Let_def)
      qed
    qed
  qed
qed (use assms in \<open>simp add: result_fmt_container_def case_prod_beta Let_def\<close>)

text \<open>The condition is needed: two dots that a third does not follow end the process.\<close>

lemma two_dots_abort: "compile 64 (add_main ''$value$..'' (new_format ''f'')) new_parser = None"
  by code_simp

end
