(* ===== verification/Command_Table_Correct.thy ===== *)
theory Command_Table_Correct
  imports Command_Table Compiler_Runs
begin

text \<open>
  What the table promises: every handler fits the arguments that its entry asks for, none crashes on a
  well-formed configuration under a condition on its own arguments, and none changes more than its scope.
\<close>

subsection \<open>Names and types of the indexes\<close>

definition index_kind :: "index \<Rightarrow> string option \<times> char" where
  "index_kind ix = (idx_name ix, idx_type ix)"

definition same_kinds :: "dir \<Rightarrow> dir \<Rightarrow> bool" where
  "same_kinds d d' \<longleftrightarrow> map index_kind (indexes d') = map index_kind (indexes d) \<and> dir_magic_number d' = dir_magic_number d"

lemma same_kinds_refl: "same_kinds d d"
  by (simp add: same_kinds_def)

lemma same_kinds_trans: "same_kinds d1 d2 \<Longrightarrow> same_kinds d2 d3 \<Longrightarrow> same_kinds d1 d3"
  by (simp add: same_kinds_def)

lemma same_kinds_cong: "indexes d' = indexes d \<Longrightarrow> dir_magic_number d' = dir_magic_number d \<Longrightarrow> same_kinds d d'"
  by (simp add: same_kinds_def)

lemma fix_indexes_kinds: "fix_indexes ixs keys = Some (ixs', keys') \<Longrightarrow> map index_kind ixs' = map index_kind ixs"
proof (induction ixs arbitrary: keys ixs' keys')
  case (Cons ix ixs)
  then obtain ix1 k1 ixs1 where s: "fix_index ix keys = Some (ix1, k1)" "fix_indexes ixs k1 = Some (ixs1, keys')" "ixs' = ix1 # ixs1"
    by (auto split: Option.bind_splits)
  have "index_kind ix1 = index_kind ix" using s(1) by (auto simp: fix_index_def index_kind_def split: if_splits Option.bind_splits)
  with Cons.IH [OF s(2)] s(3) show ?case by simp
qed simp

lemma add_key_column_kinds:
  assumes "add_key_column d w = Some (d', c, ex)"
  shows "same_kinds d d'"
  using assms fix_indexes_kinds
  by (auto simp: add_key_column_def relink_def same_kinds_def Let_def split: prod.splits if_splits Option.bind_splits)

lemma pathinfo_loop_kinds: "pathinfo_loop ws n d = Some d' \<Longrightarrow> same_kinds d d'"
proof (induction ws n d arbitrary: d' rule: pathinfo_loop.induct)
  case (2 w ws n d)
  then obtain d1 c ex pi2 where s: "add_key_column d w = Some (d1, c, ex)" "pathinfo_loop ws (Suc n) (d1\<lparr>pathinfo := pi2\<rparr>) = Some d'"
    and IH: "same_kinds (d1\<lparr>pathinfo := pi2\<rparr>) d'"
    by (auto split: Option.bind_splits)
  have "same_kinds d1 (d1\<lparr>pathinfo := pi2\<rparr>)" by (rule same_kinds_cong) simp_all
  with add_key_column_kinds [OF s(1)] IH show ?case by (blast intro: same_kinds_trans)
qed (simp add: same_kinds_refl)

lemma pathinfo_kinds: "pathinfo_directive gw lower d a b = Some (d', err) \<Longrightarrow> same_kinds d d'"
  by (auto simp: pathinfo_directive_def same_kinds_def Let_def dest!: pathinfo_loop_kinds split: Option.bind_splits option.splits if_splits)

lemma filter_kinds: "filter_directive d base op al = Some (d', err) \<Longrightarrow> same_kinds d d'"
  by (auto simp: filter_directive_def same_kinds_def Let_def dest!: add_key_column_kinds split: Option.bind_splits option.splits if_splits)

lemma same_kinds_ready:
  assumes "same_kinds d d'" and "sql_ready d" and "dir_ok d'" and "separate d'"
  shows "sql_ready d'"
proof -
  have k: "map index_kind (indexes d') = map index_kind (indexes d)" using assms(1) by (simp add: same_kinds_def)
  then have "map (fst \<circ> index_kind) (indexes d') = map (fst \<circ> index_kind) (indexes d)"
    "map (snd \<circ> index_kind) (indexes d') = map (snd \<circ> index_kind) (indexes d)" by (metis map_map)+
  then have "map idx_name (indexes d') = map idx_name (indexes d)" "map idx_type (indexes d') = map idx_type (indexes d)"
    by (simp_all add: index_kind_def comp_def)
  with assms known_types_cong [of d' d] names_once_cong [of d' d] show ?thesis
    by (simp add: sql_ready_def config_ok_def same_kinds_def)
qed

subsection \<open>Directives of the columns\<close>

lemma pathinfo_ready:
  assumes "getword_law gw" and "sql_ready d" and "columns_fit d (path_words a)"
  shows "\<exists>d'. pathinfo_directive gw lower d a b = Some (d', None) \<and> sql_ready d' \<and> index_map d' = index_map d \<and>
    pathinfo_columns d' = map Some (path_words a)"
proof -
  have "dir_ok d" "separate d" using assms(2) by (simp_all add: sql_ready_def config_ok_def)
  with pathinfo_directive_ok [OF assms(1) _ assms(3), of lower b] show ?thesis
    using same_kinds_ready [OF pathinfo_kinds assms(2)] by blast
qed

text \<open>A filter with an unknown operator is refused after its column has been added.\<close>

lemma filter_ready:
  assumes "sql_ready d" and "columns_fit d [al]"
  shows "\<exists>d' err. filter_directive d base op al = Some (d', err) \<and> sql_ready d' \<and> index_map d' = index_map d \<and>
    pathinfo_columns d' = pathinfo_columns d \<and>
    (err = None \<longleftrightarrow> al \<notin> set (names (key_columns d)) \<and> find_filter_op op filter_ops 0 None \<noteq> None)"
proof (cases "al \<in> set (names (key_columns d))")
  case True
  with filter_directive_again [of d al base op] assms(1) show ?thesis by (auto simp: sql_ready_def config_ok_def)
next
  case False
  let ?p = "nat (pathinfo_size d)"
  have ok: "dir_ok d" "separate d" using assms(1) by (simp_all add: sql_ready_def config_ok_def)
  have okd: "dir_ok_upto ?p d" using ok(1) by (simp add: dir_ok_def)
  from add_key_column_ok [OF okd assms(2), of al] obtain d1 c ex where
    a: "add_key_column d al = Some (d1, c, ex)" "dir_ok_upto ?p d1" "extends d d1" "in_range c (key_columns d1)"
       "ex \<longleftrightarrow> al \<in> set (names (key_columns d))" by auto
  have ex: "\<not> ex" using a(5) False by (rule ssubst)
  define f where "f = (\<lambda>k::key_col. (case find_filter_op op filter_ops 0 None of
      None \<Rightarrow> k\<lparr>is_filter := True, base_col_name := Some base\<rparr>
    | Some r \<Rightarrow> k\<lparr>is_filter := True, base_col_name := Some base, rel_op := r\<rparr>))"
  let ?d = "d1\<lparr>key_columns := (key_columns d1)[nat c := f (key_columns d1 ! nat c)]\<rparr>"
  let ?d' = "?d\<lparr>has_filters := True\<rparr>"
  have lt: "nat c < length (key_columns d1)" by (rule in_range_nat_lt [OF a(4)])
  have fv: "view (f (key_columns d1 ! nat c)) = view (key_columns d1 ! nat c)"
    "next_in_key (f (key_columns d1 ! nat c)) = next_in_key (key_columns d1 ! nat c)" by (simp_all add: f_def view_def split: option.split)
  note u = update_flags [where f = f, OF a(2) lt fv]
  have run: "\<exists>err. filter_directive d base op al = Some (?d', err) \<and> (err = None \<longleftrightarrow> find_filter_op op filter_ops 0 None \<noteq> None)"
    using a(1,4) lt ex by (auto simp: filter_directive_def arr_simps in_range_def f_def Let_def split: option.split)
  have "pathinfo_size d1 = pathinfo_size d" using a(3) unfolding extends_def by (blast dest: frame_pathinfo_size)
  then have ok1: "dir_ok d1" "dir_ok ?d" using a(2) u(1) by (simp_all add: dir_ok_def)
  have s: "separate ?d" using extends_columns(3) [OF okd a(2,3) ok(2)] extends_columns(3) [OF a(2) u(1,2)] by blast
  have im: "index_map ?d = index_map d" using extends_index_map [OF a(2) u(1,2)] extends_index_map [OF okd a(2,3)] by simp
  have pc: "pathinfo_columns ?d = pathinfo_columns d"
    using extends_pathinfo_columns [OF ok1(1,2) u(2)] extends_pathinfo_columns [OF ok(1) ok1(1) a(3)] by simp
  have flag: "dir_ok ?d' = dir_ok ?d" "separate ?d' = separate ?d" "index_map ?d' = index_map ?d" "pathinfo_columns ?d' = pathinfo_columns ?d"
    by (simp_all add: dir_ok_def dir_ok_upto_def pathinfo_ok_upto_def pathinfo_columns_def separate_def columns_def
        index_map_def get_index_by_name_def index_columns_def fun_eq_iff Let_def)
  from run obtain err where r: "filter_directive d base op al = Some (?d', err)" "err = None \<longleftrightarrow> find_filter_op op filter_ops 0 None \<noteq> None" by blast
  have "sql_ready ?d'" using same_kinds_ready [OF filter_kinds [OF r(1)] assms(1)] ok1(2) s flag by blast
  with r im pc flag False show ?thesis by (intro exI [of _ ?d'] exI [of _ err]) simp
qed


text \<open>
  A column that is in no index yet, or a sort flag for an ordered index, can be named, when the directory has
  room for the column and the index.
\<close>

definition index_word :: "dir \<Rightarrow> char \<Rightarrow> string \<Rightarrow> string \<Rightarrow> bool" where
  "index_word d t idx col \<longleftrightarrow>
     columns_fit d [col] \<and> indexes_fit d [idx] \<and>
     (fresh_column d col \<or> take 1 col = ''['' \<and> index_type (with_index t idx d) idx = CHR ''O'')"

lemma sort_word:
  assumes "get_index_by_name d idx = int n" and "idx_type (indexes d ! n) = CHR ''O''" and "take 1 (expr_value e) = ''[''"
  shows "\<exists>d' err. named_idx d idx e = Some (d', err) \<and> same_links d d'"
proof -
  have n: "n < length (indexes d)" using get_index_by_name_range [OF assms(1)] by simp
  have s: "\<exists>d'. sort_scan d True idx ord = Some d' \<and> same_links d d'" for ord
  proof -
    obtain d' where "sort_scan d True idx ord = Some d'" using assms(1) n by (auto simp: sort_scan_def arr_upd_def in_range_def)
    with sort_scan_links show ?thesis by blast
  qed
  have l: "same_links d d" by (simp add: same_links_def)
  from assms n s [of Asc] s [of Desc] l show ?thesis by (auto simp: named_idx_def arr_get_def in_range_def Let_def)
qed

lemma named_index_ready:
  assumes "sql_ready d" and "t \<in> {CHR ''P'', CHR ''U'', CHR ''O''}" and "index_word d t idx col"
  shows "\<exists>d' err. named_index t d idx col = Some (d', err) \<and> sql_ready d'"
proof (cases "idx_name (index_scan d) = Some idx")
  case True
  with assms(1) show ?thesis by (simp add: named_index_def sql_ready_def config_ok_def)
next
  case False
  let ?d = "with_index t idx d"
  have c: "config_ok d" "\<forall>ix\<in>set (indexes d). known_type ix" using assms(1) by (simp_all add: sql_ready_def)
  have fit: "columns_fit ?d [expr_value (param_expr col)]" "indexes_fit d [idx]"
    using assms(3) by (simp_all add: index_word_def columns_fit_def with_index_def build_index_record_def param_expr_def)
  note w = with_index_ok [OF c(1) fit(2), where t = t]
  have r: "sql_ready ?d" using w(1) w(6) [OF assms(2) c(2)] by (simp add: sql_ready_def)
  obtain n where n: "get_index_by_name ?d idx = int n" using w(4) by blast
  have e: "named_index t d idx col = named_idx ?d idx (param_expr col)"
    using c(1) False by (simp add: named_index_def with_index_def config_ok_def)
  show ?thesis
  proof (cases "fresh_column d col")
    case True
    then have "fresh_column ?d (expr_value (param_expr col))" using w(5) by (simp add: param_expr_def)
    from param_step [OF w(1) n this fit(1)] obtain d' where
      "named_idx ?d idx (param_expr col) = Some (d', None)" "config_ok d'" "map idx_type (indexes d') = map idx_type (indexes ?d)" by auto
    with r known_types_cong [of d' ?d] show ?thesis by (simp add: e sql_ready_def)
  next
    case False
    with assms(3) n have "idx_type (indexes ?d ! n) = CHR ''O''" "take 1 (expr_value (param_expr col)) = ''[''"
      by (simp_all add: index_word_def index_type_def param_expr_def)
    from sort_word [OF n this] obtain d' err where s: "named_idx ?d idx (param_expr col) = Some (d', err)" "same_links ?d d'" by blast
    then show ?thesis using sql_ready_links [OF s(2) r] by (simp add: e)
  qed
qed

subsection \<open>The table\<close>

text \<open>The state in which the directives are processed, and what the single directives need.\<close>

definition state_ok :: "configuration \<Rightarrow> bool" where
  "state_ok st \<longleftrightarrow> srv_magic_number (c_srv st) = srv_magic \<and> sql_ready (c_dir st) \<and> registry_ok (c_registry st) \<and>
     cells (c_compiler st) \<noteq> []"

text \<open>
  A query is one that its texts read back, with new columns for which there is room. A format of the configuration
  has its dots alone or in threes, and the registry has a position left for it.
\<close>

definition query_ready :: "conf_env \<Rightarrow> configuration \<Rightarrow> bool" where
  "query_ready ev st \<longleftrightarrow>
     (in_location ev \<longrightarrow> length (query_text (c_lines st)) < sql_buffer_len ev \<and>
        (\<exists>q sp. good_statement q \<and> values_ok (plan_values (statement_plan q)) \<and>
           fresh_columns (c_dir st) (params (plan_values (statement_plan q))) \<and> plan_fits (statement_plan q) (c_dir st) \<and>
           nsql_scanner ev (written (sql_buffer_len ev) (query_text (c_lines st))) = statement_toks sp q))"

definition command_ready :: "conf_env \<Rightarrow> command_rec \<Rightarrow> command_call \<Rightarrow> configuration \<Rightarrow> bool" where
  "command_ready ev c call st \<longleftrightarrow>
     (func c = F_primary_key \<longrightarrow> (\<forall>a. call = Args [Some a] \<longrightarrow> index_word (c_dir st) (CHR ''P'') ''*Primary$Key*'' a)) \<and>
     (func c = F_named_index \<longrightarrow> (\<forall>a b. call = Args [Some a, Some b] \<longrightarrow> index_word (c_dir st) (hd (cmd_data c)) a b)) \<and>
     (func c = F_pathinfo \<longrightarrow> (\<forall>a b. call = Args [Some a, b] \<longrightarrow> columns_fit (c_dir st) (path_words a))) \<and>
     (func c = F_filter \<longrightarrow> (\<forall>a b x. call = Args [Some a, Some b, Some x] \<longrightarrow> columns_fit (c_dir st) [x])) \<and>
     (func c = F_sql_container \<longrightarrow> query_ready ev st) \<and>
     (func c = F_result_fmt_container \<longrightarrow> length (global_output_formats (c_registry st)) < 2 ^ 31 - 2 \<and>
        (\<forall>a ls. call = Raw_call a ls \<longrightarrow> (\<forall>line\<in>set ls. line_dots (ap_getword_conf ev) line)))"

definition library_ok :: "conf_env \<Rightarrow> bool" where
  "library_ok ev \<longleftrightarrow> getword_law (ap_getword ev) \<and> (conf_long_bits ev = 32 \<or> conf_long_bits ev = 64)"

lemma sql_container_ready:
  assumes "query_ready ev st" and "sql_ready (c_dir st)"
  shows "\<exists>d' err ls. sql_container (nsql_scanner ev) (e_memory ev) (idx_memory ev) (bounded_memory ev) (sql_buffer_len ev) (in_location ev)
    (c_lines st) (c_dir st) = Some (d', err, ls) \<and> sql_ready d'"
proof (cases "in_location ev")
  case True
  with assms(1) obtain q sp where q: "length (query_text (c_lines st)) < sql_buffer_len ev" "good_statement q"
      "values_ok (plan_values (statement_plan q))" "fresh_columns (c_dir st) (params (plan_values (statement_plan q)))" "plan_fits (statement_plan q) (c_dir st)"
      "nsql_scanner ev (written (sql_buffer_len ev) (query_text (c_lines st))) = statement_toks sp q" by (auto simp: query_ready_def)
  from container_result [where scan = "nsql_scanner ev", OF assms(2) q(2-5,1,6), of "e_memory ev" "idx_memory ev" "bounded_memory ev"] True
  show ?thesis by auto
qed (use assms(2) in \<open>simp add: sql_container_def\<close>)


lemma simple_links:
  "same_links d (d\<lparr>database := x\<rparr>)" "table m d a b c = Some (d', err) \<Longrightarrow> same_links d d'"
  "dir_set_flag nm d f = Some (d', err) \<Longrightarrow> same_links d d'" "result_format g d a = Some (d', err) \<Longrightarrow> same_links d d'"
  "non_key_column w d a = Some (d', err) \<Longrightarrow> same_links d d'"
  by (auto simp: same_links_def table_def dir_set_flag_def result_format_def non_key_column_def Let_def split: option.splits if_splits)

text \<open>The arguments that the declaration of a handler asks for.\<close>

fun signature :: "command_func \<Rightarrow> command_call \<Rightarrow> bool" where
  "signature F_force_restart call = (\<exists>b. call = Flag_call b)"
| "signature F_dir_set_flag call = (\<exists>b. call = Flag_call b)"
| "signature F_result_fmt_container call = (\<exists>a ls. call = Raw_call a ls)"
| "signature F_sql_container call = (\<exists>a ls. call = Raw_call a ls)"
| "signature F_named_index call = (\<exists>a b. call = Args [Some a, Some b])"
| "signature F_filter call = (\<exists>a b c. call = Args [Some a, Some b, Some c])"
| "signature F_table call = (\<exists>a b c. call = Args [Some a, b, c])"
| "signature F_pathinfo call = (\<exists>a b. call = Args [Some a, b])"
| "signature _ call = (\<exists>a. call = Args [Some a])"

lemma passes_cases:
  "passes FLAG call \<longleftrightarrow> (\<exists>b. call = Flag_call b)" "passes RAW_ARGS call \<longleftrightarrow> (\<exists>a ls. call = Raw_call a ls)"
  "passes TAKE1 call \<longleftrightarrow> (\<exists>a. call = Args [Some a])" "passes ITERATE call \<longleftrightarrow> (\<exists>a. call = Args [Some a])"
  "passes ITERATE2 call \<longleftrightarrow> (\<exists>a b. call = Args [Some a, Some b])" "passes TAKE12 call \<longleftrightarrow> (\<exists>a b. call = Args [Some a, b])"
  "passes TAKE3 call \<longleftrightarrow> (\<exists>a b c. call = Args [Some a, Some b, Some c])"
  "passes TAKE123 call \<longleftrightarrow> (\<exists>a b c. call = Args [Some a, b, c] \<and> (b = None \<longrightarrow> c = None))"
  by (auto elim: passes.elims)

lemma table_typed:
  assumes "c \<in> set configuration_commands" and "passes (args_how c) call"
  shows "signature (func c) call"
  using assms by (auto simp: configuration_commands_def command_def passes_cases)

lemma table_entries:
  assumes "c \<in> set configuration_commands"
  shows "func c = F_srv_set_int \<Longrightarrow> cmd_name c \<in> {''ndb-max-read-subrequests'', ''ndb-retry-ms''}"
    "func c = F_dir_set_flag \<Longrightarrow> cmd_name c \<in> {''Deletes'', ''ETags''}"
    "func c = F_named_index \<Longrightarrow> hd (cmd_data c) \<in> {CHR ''P'', CHR ''U'', CHR ''O''}"
    "override c = RSRC_CONF \<longleftrightarrow> func c \<in> {F_connectstring, F_srv_set_int, F_force_restart, F_result_fmt_container}"
  using assms by (auto simp: configuration_commands_def command_def)

lemma srv_call_ok:
  assumes "r = Some s" and "srv_magic_number s = srv_magic" and "state_ok st"
  shows "\<exists>st' err. srv_call st r = Some (st', err) \<and> state_ok st'"
  using assms by (simp add: srv_call_def state_ok_def)

lemma dir_call_ok:
  assumes "r = Some (d, err)" and "sql_ready d" and "state_ok st"
  shows "\<exists>st' err. dir_call st r = Some (st', err) \<and> state_ok st'"
  using assms by (simp add: dir_call_def state_ok_def)

lemma dir_call_links:
  assumes "\<exists>d err. r = Some (d, err)" and "\<And>d err. r = Some (d, err) \<Longrightarrow> same_links (c_dir st) d" and "state_ok st"
  shows "\<exists>st' err. dir_call st r = Some (st', err) \<and> state_ok st'"
proof -
  obtain d err where r: "r = Some (d, err)" using assms(1) by blast
  have "sql_ready d" using sql_ready_links [OF assms(2) [OF r]] assms(3) by (simp add: state_ok_def)
  then show ?thesis by (rule dir_call_ok [OF r _ assms(3)])
qed

lemmas run_simps = run_command_def signature.simps

text \<open>The handlers of the server, those that touch no links, and those of columns and queries.\<close>

lemma srv_command_runs:
  assumes "c \<in> set configuration_commands" and "signature (func c) call" and "state_ok st"
    and "func c \<in> {F_connectstring, F_srv_set_int, F_force_restart}"
  shows "\<exists>st' err. run_command ev c call st = Some (st', err) \<and> state_ok st'"
proof -
  have ok: "srv_magic_number (c_srv st) = srv_magic" using assms(3) by (simp add: state_ok_def)
  from assms(4) table_entries(1) [OF assms(1)] assms(2) ok srv_call_ok [OF _ _ assms(3)] show ?thesis
    by (auto simp: run_simps connectstring_def srv_set_int_def force_restart_def strcmp_iffs)
qed

lemma simple_command_runs:
  assumes "c \<in> set configuration_commands" and "signature (func c) call" and "library_ok ev" and "state_ok st"
    and "func c \<in> {F_set_string_slot, F_table, F_dir_set_flag, F_result_format, F_non_key_column}"
  shows "\<exists>st' err. run_command ev c call st = Some (st', err) \<and> state_ok st'"
proof -
  note dc = dir_call_links [OF _ _ assms(4)]
  have flag: "func c = F_dir_set_flag \<Longrightarrow> \<exists>d' err. dir_set_flag (cmd_name c) d b = Some (d', err)" for b d
    using table_entries(2) [OF assms(1)] by (auto simp: dir_set_flag_def strcmp_iffs)
  have tab: "\<exists>d' err. table m d a b x = Some (d', err)" for m d a b x by (auto simp: table_def Let_def split: option.split)
  have col: "\<exists>d' err. non_key_column w d a = Some (d', err)" for w d a by (simp add: non_key_column_def)
  have fmt: "\<exists>d' err. result_format g d a = Some (d', err)" for g d a by (simp add: result_format_def Let_def)
  have reg: "\<exists>f. get_format_by_name (conf_long_bits ev) a (c_registry st) = Some f" for a
    using get_format_ok(1) [of "c_registry st"] assms(3,4) by (auto simp: library_ok_def state_ok_def)
  consider "func c = F_set_string_slot" | "func c = F_table" | "func c = F_dir_set_flag" | "func c = F_result_format" | "func c = F_non_key_column"
    using assms(5) by auto
  then show ?thesis
  proof cases
    case 1
    with assms(2) dc [of "Some ((c_dir st)\<lparr>database := x\<rparr>, None)" for x] simple_links(1) show ?thesis by (auto simp: run_simps)
  next
    case 2
    with assms(2) dc [OF tab simple_links(2)] show ?thesis by (auto simp: run_simps)
  next
    case 3
    with assms(2) dc [OF flag simple_links(3)] show ?thesis by (auto simp: run_simps)
  next
    case 4
    with assms(2) obtain a f where "call = Args [Some a]" "get_format_by_name (conf_long_bits ev) a (c_registry st) = Some f" using reg by fastforce
    with 4 dc [OF fmt simple_links(4)] show ?thesis by (simp add: run_simps)
  next
    case 5
    with assms(2) dc [OF col simple_links(5)] show ?thesis by (auto simp: run_simps)
  qed
qed

lemma column_command_runs:
  assumes "c \<in> set configuration_commands" and "signature (func c) call" and "library_ok ev" and "state_ok st" and "command_ready ev c call st"
    and "func c \<in> {F_primary_key, F_named_index, F_pathinfo, F_filter, F_sql_container}"
  shows "\<exists>st' err. run_command ev c call st = Some (st', err) \<and> state_ok st'"
proof -
  note dc = dir_call_ok [OF _ _ assms(4)]
  have ok: "sql_ready (c_dir st)" using assms(4) by (simp add: state_ok_def)
  consider "func c = F_primary_key" | "func c = F_named_index" | "func c = F_pathinfo" | "func c = F_filter" | "func c = F_sql_container"
    using assms(6) by auto
  then show ?thesis
  proof cases
    case 1
    with assms(2,5) obtain a where a: "call = Args [Some a]" "index_word (c_dir st) (CHR ''P'') ''*Primary$Key*'' a"
      by (auto simp: command_ready_def)
    from named_index_ready [OF ok _ a(2)] 1 a(1) dc show ?thesis by (auto simp: run_simps primary_key_def)
  next
    case 2
    with assms(2,5) obtain a b where a: "call = Args [Some a, Some b]" "index_word (c_dir st) (hd (cmd_data c)) a b"
      by (auto simp: command_ready_def)
    from named_index_ready [OF ok table_entries(3) [OF assms(1) 2] a(2)] 2 a(1) dc show ?thesis by (auto simp: run_simps)
  next
    case 3
    with assms(2,5) obtain a b where a: "call = Args [Some a, b]" and fit: "columns_fit (c_dir st) (path_words a)"
      by (auto simp: command_ready_def)
    from pathinfo_ready [OF _ ok fit, of "ap_getword ev" "ap_str_tolower ev" b] assms(3) 3 a dc show ?thesis by (auto simp: run_simps library_ok_def)
  next
    case 4
    with assms(2,5) obtain a b x where a: "call = Args [Some a, Some b, Some x]" and fit: "columns_fit (c_dir st) [x]"
      by (auto simp: command_ready_def)
    from filter_ready [OF ok fit, of a b] 4 a dc show ?thesis by (auto simp: run_simps)
  next
    case 5
    with assms(2,5) obtain a ls where a: "call = Raw_call a ls" "query_ready ev st" by (auto simp: command_ready_def)
    from sql_container_ready [OF a(2) ok] assms(4) 5 a(1) show ?thesis by (auto simp: run_simps state_ok_def)
  qed
qed

text \<open>Progress and preservation: a directive of the table, called as its entry says, runs and keeps the state in order.\<close>

lemma command_runs:
  assumes "c \<in> set configuration_commands" and "passes (args_how c) call" and "library_ok ev" and "state_ok st"
    and "command_ready ev c call st"
  shows "\<exists>st' err. run_command ev c call st = Some (st', err) \<and> state_ok st'"
proof -
  note sig = table_typed [OF assms(1,2)]
  have container: ?thesis if "func c = F_result_fmt_container"
  proof -
    from sig that obtain a ls where call: "call = Raw_call a ls" by auto
    with that assms(3-5) have "\<forall>line\<in>set ls. line_dots (ap_getword_conf ev) line" "cells (c_compiler st) \<noteq> []"
      "registry_ok (c_registry st)" "length (global_output_formats (c_registry st)) < 2 ^ 31 - 2"
      "conf_long_bits ev = 32 \<or> conf_long_bits ev = 64"
      by (simp_all add: command_ready_def state_ok_def library_ok_def)
    from result_fmt_container_runs [OF this, of "ap_find_last_token ev" a] that call assms(4) show ?thesis
      by (auto simp: run_command_def state_ok_def)
  qed
  note groups = srv_command_runs [OF assms(1) sig assms(4)] simple_command_runs [OF assms(1) sig assms(3,4)]
    column_command_runs [OF assms(1) sig assms(3-5)]
  from groups container show ?thesis by (cases "func c") (simp_all del: signature.simps)
qed

text \<open>A directive of the server leaves the directory alone, a directive of a location the server and the formats.\<close>

lemma command_scope:
  assumes "c \<in> set configuration_commands" and "run_command ev c call st = Some (st', err)"
  shows "if override c = RSRC_CONF then c_dir st' = c_dir st \<and> c_lines st' = c_lines st
    else c_srv st' = c_srv st \<and> c_registry st' = c_registry st \<and> c_compiler st' = c_compiler st"
  using assms(2) table_entries(4) [OF assms(1)]
  by (cases "func c")
    (auto simp: run_command_def srv_call_def dir_call_def split: command_call.splits list.splits option.splits Option.bind_splits)

end
