(* ===== verification/Index_Cycle.thy ===== *)
theory Index_Cycle
  imports Config_Directives
begin

text \<open>
  An index directive that names a column of its index again. The routine cuts the chain of the index at the
  column, and then links the column to itself, since it is the end of the chain that is left. The directive
  returns without an error; the next one that names another column of the index walks along the chain for ever,
  or does so while it repairs the links. The loops are described by their single steps, so that a loop that goes
  on is told apart from one that leaves the array.
\<close>

subsection \<open>Loops that go on\<close>

fun iterate :: "('s \<Rightarrow> 's option) \<Rightarrow> nat \<Rightarrow> 's \<Rightarrow> 's option" where
  "iterate step 0 s = Some s"
| "iterate step (Suc k) s = (case step s of None \<Rightarrow> None | Some s' \<Rightarrow> iterate step k s')"

definition endless :: "('s \<Rightarrow> 's option) \<Rightarrow> 's \<Rightarrow> bool" where
  "endless step s \<longleftrightarrow> (\<forall>k. iterate step k s \<noteq> None)"

lemma endless_step:
  assumes "endless step s"
  obtains s' where "step s = Some s'" "endless step s'"
proof -
  have n: "iterate step (Suc k) s \<noteq> None" for k using assms unfolding endless_def by (rule spec)
  from n [of 0] obtain s' where s': "step s = Some s'" by (cases "step s") auto
  have "iterate step k s' \<noteq> None" for k using n [of k] s' by simp
  then have "endless step s'" by (simp add: endless_def)
  with s' show thesis by (rule that)
qed

lemma endless_closed:
  assumes "P s" and "\<And>s. P s \<Longrightarrow> \<exists>s'. step s = Some s' \<and> P s'"
  shows "endless step s"
proof -
  have "P s \<Longrightarrow> iterate step k s \<noteq> None" for k s
    by (induction k arbitrary: s) (use assms(2) in \<open>fastforce split: option.split\<close>)+
  with assms(1) show ?thesis by (simp add: endless_def)
qed

text \<open>One step of the walk to the end of a chain, and one of the repair of its links; neither has one at its end.\<close>

definition tail_step :: "key_col list \<Rightarrow> int \<Rightarrow> int option" where
  "tail_step keys i = (if i = -1 then None else map_option next_in_key (arr_get keys i))"

definition links_step :: "key_col list \<times> int \<times> int \<Rightarrow> (key_col list \<times> int \<times> int) option" where
  "links_step = (\<lambda>(keys, this_col, serial).
     if serial = -1 then None
     else do { b \<leftarrow> arr_get keys serial;
               keys' \<leftarrow> arr_upd keys this_col (\<lambda>c. c\<lparr>next_in_key := idx_map_bucket b\<rparr>);
               k \<leftarrow> arr_get keys' (idx_map_bucket b);
               Some (keys', idx_map_bucket b, next_in_key_serial k) })"

lemma chain_tail_endless:
  assumes "endless (tail_step keys) i"
  shows "chain_tail keys i t = None"
proof -
  have "\<not> endless (tail_step keys) i" if "chain_tail keys i t = Some r" for r
    using that
  proof (induction rule: chain_tail.raw_induct [rotated, consumes 1, case_names step])
    case (step f keys i t r)
    show ?case
    proof
      assume "endless (tail_step keys) i"
      then obtain j where j: "tail_step keys i = Some j" "endless (tail_step keys) j" by (rule endless_step)
      from j(1) obtain k where k: "i \<noteq> -1" "arr_get keys i = Some k" "j = next_in_key k"
        by (auto simp: tail_step_def split: if_splits)
      with step(2) have "f keys j i = Some r" by simp
      with step(1) j(2) show False by blast
    qed
  qed
  with assms show ?thesis by (cases "chain_tail keys i t") auto
qed

lemma fix_links_endless:
  assumes "endless links_step (keys, c, s)"
  shows "fix_links keys c s = None"
proof -
  have "\<not> endless links_step (keys, c, s)" if "fix_links keys c s = Some r" for r
    using that
  proof (induction rule: fix_links.raw_induct [rotated, consumes 1, case_names step])
    case (step f keys c s r)
    show ?case
    proof
      assume "endless links_step (keys, c, s)"
      then obtain st where st: "links_step (keys, c, s) = Some st" "endless links_step st" by (rule endless_step)
      from st(1) obtain b keys' k where k: "s \<noteq> -1" "arr_get keys s = Some b"
        "arr_upd keys c (\<lambda>c. c\<lparr>next_in_key := idx_map_bucket b\<rparr>) = Some keys'" "arr_get keys' (idx_map_bucket b) = Some k"
        "st = (keys', idx_map_bucket b, next_in_key_serial k)"
        by (auto simp: links_step_def split: if_splits Option.bind_splits)
      with step(2) have "f keys' (idx_map_bucket b) (next_in_key_serial k) = Some r" by simp
      with step(1) st(2) k(5) show False by blast
    qed
  qed
  with assms show ?thesis by (cases "fix_links keys c s") auto
qed

subsection \<open>Chains that lead into a column again\<close>

text \<open>From the serial number \<open>s\<close> the chain visits \<open>ys\<close> and comes to \<open>x\<close>.\<close>

fun leads_to :: "(int \<rightharpoonup> int) \<Rightarrow> int \<Rightarrow> int list \<Rightarrow> int \<Rightarrow> bool" where
  "leads_to m s [] x \<longleftrightarrow> s = x"
| "leads_to m s (y # ys) x \<longleftrightarrow> s = y \<and> (\<exists>t. m y = Some t \<and> leads_to m t ys x)"

lemma schain_leads: "schain m s (ys @ x # zs) \<Longrightarrow> leads_to m s ys x"
  by (induction ys arbitrary: s) (auto split: option.splits)

lemma schain_cut: "schain m s (ys @ x # zs) \<Longrightarrow> x \<notin> set ys \<Longrightarrow> schain (m(x \<mapsto> -1)) s (ys @ [x])"
  by (induction ys arbitrary: s) (auto split: option.splits)

lemma leads_upd: "x \<notin> set ys \<Longrightarrow> leads_to (m(x \<mapsto> t)) s ys y = leads_to m s ys y"
  by (induction ys arbitrary: s) auto

lemma leads_closed: "leads_to m s ys x \<Longrightarrow> y \<in> set ys \<Longrightarrow> \<exists>t\<in>set (ys @ [x]). m y = Some t"
proof (induction ys arbitrary: s)
  case (Cons a ys)
  then obtain t where t: "m a = Some t" "leads_to m t ys x" by auto
  from t(2) have "t \<in> set (ys @ [x])" by (cases ys) auto
  with Cons t show ?case by auto
qed simp

text \<open>A set of serial numbers that the links do not leave.\<close>

definition stays :: "(int \<rightharpoonup> int) \<Rightarrow> int list \<Rightarrow> bool" where
  "stays m ss \<longleftrightarrow> (\<forall>s\<in>set ss. \<exists>t\<in>set ss. m s = Some t)"

definition closed :: "key_col list \<Rightarrow> int list \<Rightarrow> bool" where
  "closed keys ss \<longleftrightarrow> chain_linked keys ss \<and> stays (next_map keys) ss"

lemma stays_range:
  assumes "serials_ok keys" and "stays (next_map keys) ss" and "s \<in> set ss"
  shows "in_range s keys"
proof -
  obtain u where "next_map keys s = Some u" using assms(2,3) by (auto simp: stays_def)
  then obtain k where "k \<in> set keys" "serial_no k = s" using next_map_iff [OF assms(1)] by blast
  then show ?thesis using serial_in_range [OF assms(1), of k] by simp
qed

lemma stays_mono: "stays m ss \<Longrightarrow> m \<subseteq>\<^sub>m m' \<Longrightarrow> stays m' ss"
  by (fastforce simp: stays_def map_le_def dom_def)

lemma closed_next:
  assumes "serials_ok keys" and "closed keys ss" and "at_serial keys c s" and "s \<in> set ss"
  shows "next_in_key_serial (keys ! nat c) \<in> set ss" "at_serial keys (next_in_key (keys ! nat c)) (next_in_key_serial (keys ! nat c))"
proof -
  have c: "keys ! nat c \<in> set keys" "serial_no (keys ! nat c) = s" using assms(3) by (auto simp: at_serial_def in_range_nth_mem)
  have st: "stays (next_map keys) ss" using assms(2) by (simp add: closed_def)
  then obtain t where t: "t \<in> set ss" "next_map keys s = Some t" using assms(4) by (auto simp: stays_def)
  have nx: "next_in_key_serial (keys ! nat c) = t" using next_map_col [OF assms(1) c(1)] c(2) t(2) by simp
  then show "next_in_key_serial (keys ! nat c) \<in> set ss" using t(1) by simp
  have "t \<noteq> -1" using stays_range [OF assms(1) st t(1)] by (auto simp: in_range_def)
  moreover have "link_ok keys (keys ! nat c)" using assms(2,4) c by (auto simp: closed_def chain_linked_def)
  ultimately show "at_serial keys (next_in_key (keys ! nat c)) (next_in_key_serial (keys ! nat c))"
    using nx by (simp add: link_ok_def)
qed

lemma closed_tail:
  assumes "serials_ok keys" and "closed keys ss" and "at_serial keys c s" and "s \<in> set ss"
  shows "endless (tail_step keys) c"
proof (rule endless_closed [where P = "\<lambda>c. \<exists>s\<in>set ss. at_serial keys c s"])
  fix c assume "\<exists>s\<in>set ss. at_serial keys c s"
  then obtain s where s: "s \<in> set ss" "at_serial keys c s" by blast
  then have r: "in_range c keys" by (simp add: at_serial_def)
  then have "c \<noteq> -1" by (auto simp: in_range_def)
  with r closed_next [OF assms(1,2) s(2,1)] show "\<exists>c'. tail_step keys c = Some c' \<and> (\<exists>s\<in>set ss. at_serial keys c' s)"
    by (auto simp: tail_step_def arr_simps)
qed (use assms(3,4) in blast)

lemma walk_leads:
  assumes "serials_ok keys" and "chain_linked keys ys" and "leads_to (next_map keys) s ys x" and "at_serial keys c s"
    and "\<forall>y\<in>set (ys @ [x]). y \<noteq> -1" and "k \<le> length ys"
  shows "\<exists>c'. iterate (tail_step keys) k c = Some c' \<and> at_serial keys c' ((ys @ [x]) ! k)"
  using assms(2-)
proof (induction ys arbitrary: s c k)
  case (Cons y ys)
  obtain t where t: "s = y" "next_map keys y = Some t" "leads_to (next_map keys) t ys x" using Cons.prems(2) by auto
  show ?case
  proof (cases k)
    case 0
    with t(1) Cons.prems(3) show ?thesis by simp
  next
    case (Suc j)
    have k: "in_range c keys" "keys ! nat c \<in> set keys" "serial_no (keys ! nat c) = y"
      using Cons.prems(3) t(1) by (auto simp: at_serial_def in_range_nth_mem)
    have "next_in_key_serial (keys ! nat c) = t" using next_map_col [OF assms(1) k(2)] k(3) t(2) by simp
    moreover have "link_ok keys (keys ! nat c)" using Cons.prems(1) k by (auto simp: chain_linked_def)
    moreover have "t \<noteq> -1" using t(3) Cons.prems(4) by (cases ys) auto
    ultimately have "at_serial keys (next_in_key (keys ! nat c)) t" by (simp add: link_ok_def)
    moreover have "chain_linked keys ys" using Cons.prems(1) by (simp add: chain_linked_def)
    ultimately obtain c' where "iterate (tail_step keys) j (next_in_key (keys ! nat c)) = Some c'" "at_serial keys c' ((ys @ [x]) ! j)"
      using Cons.IH [OF _ t(3), of "next_in_key (keys ! nat c)" j] Cons.prems(4,5) Suc by auto
    moreover have "tail_step keys c = Some (next_in_key (keys ! nat c))"
      using k(1) by (auto simp: tail_step_def arr_simps in_range_def)
    ultimately show ?thesis using Suc by simp
  qed
qed simp

subsection \<open>The repair of the links\<close>

lemma no_next_nth:
  assumes "map no_next keys = map no_next keys'" and "i < length keys"
  shows "next_in_key_serial (keys' ! i) = next_in_key_serial (keys ! i)"
    "idx_map_bucket (keys' ! i) = idx_map_bucket (keys ! i)"
proof -
  have e: "no_next (keys ! i) = no_next (keys' ! i)" using assms by (rule map_eq_nth)
  show "next_in_key_serial (keys' ! i) = next_in_key_serial (keys ! i)" using arg_cong [OF e, of next_in_key_serial] by simp
  show "idx_map_bucket (keys' ! i) = idx_map_bucket (keys ! i)" using arg_cong [OF e, of idx_map_bucket] by simp
qed

lemma stays_links:
  assumes "serials_ok K" and "buckets_ok K" and "stays (next_map K) ss"
    and "map no_next K = map no_next keys" and "in_range c keys" and "s \<in> set ss"
  shows "endless links_step (keys, c, s)"
proof (rule endless_closed [where P = "\<lambda>(keys, c, s). map no_next K = map no_next keys \<and> in_range c keys \<and> s \<in> set ss"])
  fix st :: "key_col list \<times> int \<times> int"
  assume "case st of (keys, c, s) \<Rightarrow> map no_next K = map no_next keys \<and> in_range c keys \<and> s \<in> set ss"
  then obtain keys c s where st: "st = (keys, c, s)" "map no_next K = map no_next keys" "in_range c keys" "s \<in> set ss"
    by (cases st) auto
  have len: "length keys = length K" using st(2) by (metis length_map)
  let ?p = "idx_map_bucket (K ! nat s)"
  let ?keys = "keys[nat c := (keys ! nat c)\<lparr>next_in_key := ?p\<rparr>]"
  have r: "in_range s K" using stays_range [OF assms(1,3) st(4)] .
  then have "s \<noteq> -1" by (auto simp: in_range_def)
  have b: "idx_map_bucket (keys ! nat s) = ?p" using no_next_nth(2) [OF st(2) in_range_nat_lt [OF r]] .
  have p: "in_range ?p K" "serial_no (K ! nat ?p) = s" using bucket_position [OF assms(1,2) r] by (simp_all add: at_serial_def)
  have nn: "map no_next K = map no_next ?keys" unfolding st(2) by (rule map_update_same [symmetric]) simp
  obtain t where t: "t \<in> set ss" "next_map K s = Some t" using assms(3) st(4) by (auto simp: stays_def)
  have "next_in_key_serial (K ! nat ?p) = t" using next_map_col [OF assms(1) in_range_nth_mem [OF p(1)]] p(2) t(2) by simp
  then have k: "next_in_key_serial (?keys ! nat ?p) = t" using no_next_nth(1) [OF nn in_range_nat_lt [OF p(1)]] by simp
  have "in_range s keys" "in_range ?p ?keys" using r p(1) len by (simp_all add: in_range_def)
  with st(1,3) b k \<open>s \<noteq> -1\<close> have "links_step st = Some (?keys, ?p, t)" by (simp add: links_step_def arr_simps)
  moreover have "in_range ?p ?keys" using p(1) len by (simp add: in_range_def)
  ultimately show "\<exists>st'. links_step st = Some st' \<and> (case st' of (keys, c, s) \<Rightarrow> map no_next K = map no_next keys \<and> in_range c keys \<and> s \<in> set ss)"
    using nn t(1) by auto
qed (use assms(4-6) in simp)

text \<open>
  A new column \<open>kn\<close> in the middle of the array: the repair of the links comes to index \<open>n\<close> and does not get to the
  end of its chain.
\<close>

definition repair_endless :: "dir \<Rightarrow> nat \<Rightarrow> string \<Rightarrow> bool" where
  "repair_endless d n kn \<longleftrightarrow>
     (\<exists>ip keys ixs keys' b k. find_key kn (key_columns d) 0 0 = (ip, False) \<and> in_range ip (key_columns d) \<and>
        fill_buckets [0..<Suc (length (key_columns d))] (open_hole (key_columns d) ip kn) = Some keys \<and>
        fix_indexes (take n (indexes d)) keys = Some (ixs, keys') \<and>
        arr_get keys' (first_col_serial (indexes d ! n)) = Some b \<and> arr_get keys' (idx_map_bucket b) = Some k \<and>
        endless links_step (keys', idx_map_bucket b, next_in_key_serial k))"

lemma fix_indexes_stop:
  "fix_indexes xs keys = Some (ixs, keys') \<Longrightarrow> fix_index ix keys' = None \<Longrightarrow> fix_indexes (xs @ ix # ys) keys = None"
proof (induction xs arbitrary: keys ixs)
  case (Cons x xs)
  then obtain y k1 zs where "fix_index x keys = Some (y, k1)" "fix_indexes xs k1 = Some (zs, keys')"
    by (auto split: Option.bind_splits)
  with Cons.IH [of k1 zs] Cons.prems(2) show ?case by simp
qed simp

lemma repair_endless_None:
  assumes "repair_endless d n kn" and "n < length (indexes d)"
  shows "add_key_column d kn = None"
proof -
  from assms(1) obtain ip keys ixs keys' b k where r: "find_key kn (key_columns d) 0 0 = (ip, False)" "in_range ip (key_columns d)"
      "fill_buckets [0..<Suc (length (key_columns d))] (open_hole (key_columns d) ip kn) = Some keys"
      "fix_indexes (take n (indexes d)) keys = Some (ixs, keys')"
      "arr_get keys' (first_col_serial (indexes d ! n)) = Some b" "arr_get keys' (idx_map_bucket b) = Some k"
      "endless links_step (keys', idx_map_bucket b, next_in_key_serial k)" by (auto simp: repair_endless_def)
  have "first_col_serial (indexes d ! n) \<noteq> -1" using r(5) by (auto simp: arr_get_Some in_range_def)
  then have "fix_index (indexes d ! n) keys' = None"
    using r(5,6) fix_links_endless [OF r(7)] by (simp add: fix_index_def)
  from fix_indexes_stop [OF r(4) this] have "fix_indexes (indexes d) keys = None" using id_take_nth_drop [OF assms(2)] by metis
  moreover have "length (open_hole (key_columns d) ip kn) = Suc (length (key_columns d))" using r(2) by (auto simp: open_hole_def in_range_def)
  ultimately have "relink d (open_hole (key_columns d) ip kn) = None" using r(3) by (simp add: relink_def)
  with r(1,2) show ?thesis by (simp add: add_key_column_def in_range_def)
qed

lemma repair_stays:
  assumes "cols_ok (key_columns d)" and "stays (next_map (key_columns d)) ss" and "n < length (indexes d)"
    and "\<forall>m<n. index_ok (key_columns d) (indexes d ! m)" and "first_col_serial (indexes d ! n) \<in> set ss"
    and "find_key kn (key_columns d) 0 0 = (int i, False)" and "i < length (key_columns d)" and "length (key_columns d) < 32768"
  shows "repair_endless d n kn"
proof -
  let ?ks = "key_columns d" let ?h = "open_hole ?ks (int i) kn"
  have cols: "serials_ok ?ks" "tails_ok ?ks" using assms(1) by (simp_all add: cols_ok_def)
  have i: "i \<le> length ?ks" using assms(7) by simp
  have h: "serials_ok ?h" "tails_ok ?h" "stays (next_map ?h) ss" "length ?h = Suc (length ?ks)"
    using serials_open_hole [OF cols(1) i assms(8)] tails_open_hole [OF cols(2)] i
      stays_mono [OF assms(2) next_map_open_hole [OF cols(1) i assms(8)]] by simp_all
  from fill_buckets_ok [OF h(1), of "[0..<length ?h]"] obtain K where
    K: "fill_buckets [0..<length ?h] ?h = Some K" "map no_bucket K = map no_bucket ?h" "buckets_ok K"
    by (auto simp: buckets_ok_def) (metis atLeastLessThan_iff length_map less_eq_nat.simps(1))
  note v = no_bucket_view [OF K(2) [symmetric]]
  have K': "serials_ok K" "next_map K = next_map ?h" using h(1) view_maps [OF v] by simp_all
  have "tails_ok K"
    using h(2) view_nth(2) [OF v] no_bucket_next_in_key [OF K(2) [symmetric]] view_length [OF v]
    by (fastforce simp: tails_ok_def in_set_conv_nth)
  moreover have "\<forall>ix\<in>set (take n (indexes d)). index_ready K ix"
    using assms(3,4) index_ok_ready [OF cols(1) i assms(8)] by (auto simp: in_set_conv_nth index_ready_def K'(2))
  ultimately obtain ixs keys where
    f: "fix_indexes (take n (indexes d)) K = Some (ixs, keys)" "relinked K keys"
    using fix_indexes_ok [OF K'(1) K(3)] by blast
  let ?s = "first_col_serial (indexes d ! n)"
  have st: "stays (next_map K) ss" using h(3) K'(2) by simp
  have r: "in_range ?s K" by (rule stays_range [OF K'(1) st assms(5)])
  have nn: "map no_next K = map no_next keys" using f(2) by (simp add: relinked_def)
  have len: "length keys = length K" using nn by (metis length_map)
  let ?p = "idx_map_bucket (K ! nat ?s)"
  have b: "idx_map_bucket (keys ! nat ?s) = ?p" using no_next_nth(2) [OF nn in_range_nat_lt [OF r]] .
  have p: "in_range ?p K" "serial_no (K ! nat ?p) = ?s" using bucket_position [OF K'(1) K(3) r] by (simp_all add: at_serial_def)
  obtain t where t: "t \<in> set ss" "next_map K ?s = Some t" using st assms(5) by (auto simp: stays_def)
  have "next_in_key_serial (K ! nat ?p) = t" using next_map_col [OF K'(1) in_range_nth_mem [OF p(1)]] p(2) t(2) by simp
  then have k: "next_in_key_serial (keys ! nat ?p) \<in> set ss" using no_next_nth(1) [OF nn in_range_nat_lt [OF p(1)]] t(1) by simp
  have rk: "in_range ?s keys" "in_range ?p keys" using r p(1) len by (simp_all add: in_range_def)
  from stays_links [OF K'(1) K(3) st nn rk(2) k] have "endless links_step (keys, ?p, next_in_key_serial (keys ! nat ?p))" .
  with f(1) K(1) h(4) assms(6,7) rk b show ?thesis
    unfolding repair_endless_def
    by (intro exI [of _ "int i"] exI [of _ K] exI [of _ ixs] exI [of _ keys] exI [of _ "keys ! nat ?s"] exI [of _ "keys ! nat ?p"])
      (simp add: arr_simps in_range_int)
qed

subsection \<open>A directory with such a chain\<close>

text \<open>The chain of index \<open>n\<close> stays in the serial numbers \<open>ss\<close>, whose names are \<open>nms\<close>.\<close>

definition bent :: "dir \<Rightarrow> nat \<Rightarrow> int list \<Rightarrow> string list \<Rightarrow> bool" where
  "bent d n ss nms \<longleftrightarrow> cols_ok (key_columns d) \<and> closed (key_columns d) ss \<and> n < length (indexes d) \<and>
     first_col_serial (indexes d ! n) \<in> set ss \<and> at_serial (key_columns d) (first_col (indexes d ! n)) (first_col_serial (indexes d ! n)) \<and>
     (\<forall>m<n. index_ok (key_columns d) (indexes d ! m)) \<and> (\<forall>s\<in>set ss. \<exists>nm\<in>set nms. name_map (key_columns d) s = Some nm)"

text \<open>A further column \<open>kn\<close> of the index: it has its place, and the walk to the end of the chain goes on.\<close>

definition tail_endless :: "dir \<Rightarrow> nat \<Rightarrow> string \<Rightarrow> bool" where
  "tail_endless d n kn \<longleftrightarrow>
     (\<exists>d1 c ex. add_column_to_index d (int n) (param_expr kn) = Some (d1, c, ex) \<and>
        endless (tail_step (key_columns d1)) (first_col (indexes d1 ! n)))"

lemma tail_endless_None:
  assumes "tail_endless d n kn" and "get_index_by_name d idx = int n" and "take 1 kn \<noteq> ''[''"
  shows "named_idx d idx (param_expr kn) = None"
proof -
  from assms(1) obtain d1 c ex where a: "add_column_to_index d (int n) (param_expr kn) = Some (d1, c, ex)"
      "endless (tail_step (key_columns d1)) (first_col (indexes d1 ! n))" by (auto simp: tail_endless_def)
  let ?bump = "\<lambda>i::index. i\<lparr>n_columns := (n_columns i + 1) mod 2 ^ 16\<rparr>"
  have "first_col (indexes d1 ! n) \<noteq> -1" using a(2) by (auto elim: endless_step simp: tail_step_def)
  with chain_tail_endless [OF a(2), of 0] have "link_column (d1\<lparr>indexes := (indexes d1)[n := ?bump (indexes d1 ! n)]\<rparr>) (int n) c = None"
    if "n < length (indexes d1)" using that by (simp add: link_column_def arr_simps in_range_int)
  with a(1) assms(2,3) show ?thesis
    by (auto simp: named_idx_def Let_def arr_upd_def in_range_int param_expr_def split: Option.bind_split)
qed

lemma repair_endless_named:
  assumes "repair_endless d n kn" and "get_index_by_name d idx = int n" and "take 1 kn \<noteq> ''[''"
  shows "named_idx d idx (param_expr kn) = None"
  using repair_endless_None [OF assms(1) get_index_by_name_range(1) [OF assms(2)]] assms(2,3)
  by (simp add: named_idx_def add_column_to_index_def param_expr_def Let_def split: Option.bind_split)

lemma closed_cong:
  assumes "closed keys ss" and "at_serial keys' = at_serial keys" and "next_map keys' = (next_map keys)(y \<mapsto> u)"
    and "keys' = keys[c := k]" and "serial_no k \<notin> set ss" and "y \<notin> set ss"
  shows "closed keys' ss"
  using update_col_linked [OF _ assms(2,4), of ss] assms(1,3,5,6) by (auto simp: closed_def stays_def)

lemma closed_append:
  assumes "serials_ok keys" and "closed keys ss" and "length keys < 32768"
  shows "closed (keys @ [new_key_col kn (int (length keys))]) ss"
proof -
  let ?k = "keys @ [new_key_col kn (int (length keys))]"
  have h: "open_hole keys (int (length keys)) kn = ?k" by (simp add: open_hole_def)
  have "next_map keys \<subseteq>\<^sub>m next_map ?k" using next_map_open_hole [OF assms(1) order_refl assms(3), of kn] unfolding h .
  then have "stays (next_map ?k) ss" using assms(2) by (auto simp: closed_def intro: stays_mono)
  moreover have "link_ok ?k k" if k: "k \<in> set ?k" "serial_no k \<in> set ss" for k
  proof -
    have "serial_no k \<noteq> int (length keys)" using stays_range [OF assms(1) _ k(2)] assms(2) by (auto simp: closed_def in_range_def)
    then have "k \<in> set keys" using k(1) assms(3) by (auto simp: new_key_col_def to_short_int)
    with assms(2) k(2) have "link_ok keys k" by (simp add: closed_def chain_linked_def)
    then show ?thesis using at_serial_append by (auto simp: link_ok_def)
  qed
  ultimately show ?thesis by (simp add: closed_def chain_linked_def)
qed

text \<open>A column that has a place in the array, and whose serial number is not one of the chain.\<close>

lemma bent_column:
  assumes "bent d n ss nms" and "add_key_column d kn = Some (d\<lparr>key_columns := keys\<rparr>, int j, ex)" and "j < length keys"
    and "serials_ok keys" and "sorted_names keys" and "closed keys ss" and "serial_no (keys ! j) \<notin> set ss"
    and "at_serial keys (first_col (indexes d ! n)) (first_col_serial (indexes d ! n))"
  shows "tail_endless d n kn"
proof -
  have n: "n < length (indexes d)" "first_col_serial (indexes d ! n) \<in> set ss" using assms(1) by (simp_all add: bent_def)
  define f where "f = col_assoc (int n) (Some (indexes d ! n)) (param_expr kn)"
  let ?K = "keys[j := f (keys ! j)]"
  have f: "serial_no (f (keys ! j)) = serial_no (keys ! j)" "col_name (f (keys ! j)) = col_name (keys ! j)" by (simp_all add: f_def)
  note u = update_col [where f = f, OF assms(4,5,3) f]
  have "closed ?K ss" using closed_cong [OF assms(6) u(4,5) refl] assms(7) f(1) by simp
  moreover have "at_serial ?K (first_col (indexes d ! n)) (first_col_serial (indexes d ! n))" using assms(8) u(4) by simp
  ultimately have "endless (tail_step ?K) (first_col (indexes d ! n))" using closed_tail [OF u(1) _ _ n(2)] by blast
  moreover have "add_column_to_index d (int n) (param_expr kn) = Some (d\<lparr>key_columns := ?K\<rparr>, int j, ex)"
    using assms(2,3) n(1) by (simp add: add_column_to_index_def arr_simps in_range_int f_def param_expr_def)
  ultimately show ?thesis by (auto simp: tail_endless_def)
qed

lemma bent_next:
  assumes "bent d n ss nms" and "kn \<notin> set nms" and "kn \<in> set (names (key_columns d)) \<or> length (key_columns d) < 32768"
  shows "tail_endless d n kn \<or> repair_endless d n kn"
proof -
  let ?ks = "key_columns d"
  have b: "sorted_names ?ks" "serials_ok ?ks" "cols_ok ?ks" "closed ?ks ss"
    "at_serial ?ks (first_col (indexes d ! n)) (first_col_serial (indexes d ! n))"
    using assms(1) by (simp_all add: bent_def cols_ok_def)
  have st: "stays (next_map ?ks) ss" using b(4) by (simp add: closed_def)
  have len: "length ?ks \<le> 32768" using b(2) by (simp add: serials_ok_def)
  from b(1) show ?thesis
  proof (cases rule: find_key_cases [of ?ks kn])
    case (found i)
    have "add_key_column d kn = Some (d\<lparr>key_columns := ?ks\<rparr>, int i, True)"
      using found len by (simp add: add_key_column_def to_short_int)
    moreover have "serial_no (?ks ! i) \<notin> set ss"
    proof
      assume "serial_no (?ks ! i) \<in> set ss"
      then obtain nm where "nm \<in> set nms" "name_map ?ks (serial_no (?ks ! i)) = Some nm" using assms(1) by (auto simp: bent_def)
      moreover have "name_map ?ks (serial_no (?ks ! i)) = Some kn" using name_map_iff [OF b(2)] found(2,3) nth_mem by blast
      ultimately show False using assms(2) by simp
    qed
    ultimately show ?thesis using bent_column [OF assms(1) _ found(2) b(2,1,4) _ b(5)] by blast
  next
    case (hole i)
    have "kn \<notin> set (names ?ks)"
      using hole(3,4) set_append [of "take i ?ks" "drop i ?ks"] by (auto simp: image_iff)
    with assms(3) have room: "length ?ks < 32768" by simp
    with hole(1,2) have fk: "find_key kn ?ks 0 0 = (int i, False)" by (simp add: to_short_int)
    show ?thesis
    proof (cases "i < length ?ks")
      case True
      with repair_stays [OF b(3) st _ _ _ fk True room] assms(1) show ?thesis by (simp add: bent_def)
    next
      case False
      with hole(2) have i: "i = length ?ks" by simp
      let ?K = "?ks @ [new_key_col kn (int (length ?ks))]"
      have h: "open_hole ?ks (int i) kn = ?K" by (simp add: open_hole_def i)
      have "add_key_column d kn = Some (d\<lparr>key_columns := ?K\<rparr>, int i, False)"
        using fk h i by (simp add: add_key_column_def Let_def)
      moreover have "sorted_names (open_hole ?ks (int i) kn)" using b(1) hole(3,4) by (rule open_hole_sorted)
      then have "serials_ok ?K" "sorted_names ?K" using serials_open_hole [OF b(2) hole(2) room, of kn] unfolding h by simp_all
      moreover have "serial_no (?K ! i) \<notin> set ss"
        using stays_range [OF b(2) st] room by (force simp: i new_key_col_def to_short_int in_range_def)
      ultimately show ?thesis
        using bent_column [OF assms(1), where keys = ?K and j = i] closed_append [OF b(2,4) room] at_serial_append [OF b(5)] i by auto
    qed
  qed
qed

subsection \<open>The second naming\<close>

lemma add_key_column_found:
  assumes "cols_ok (key_columns d)" and "i < length (key_columns d)"
  shows "add_key_column d (col_name (key_columns d ! i)) = Some (d, int i, True)"
proof -
  let ?K = "key_columns d" let ?kn = "col_name (?K ! i)"
  have srt: "sorted_names ?K" and len: "length ?K \<le> 32768" using assms(1) by (simp_all add: cols_ok_def serials_ok_def)
  from srt show ?thesis
  proof (cases rule: find_key_cases [of ?K ?kn])
    case (found j)
    have "distinct (names ?K)" using srt by (simp add: sorted_names_def strict_sorted_iff)
    with found(2,3) assms(2) have "j = i" by (metis length_map nth_eq_iff_index_eq nth_map)
    with found len show ?thesis by (simp add: add_key_column_def to_short_int)
  next
    case (hole j)
    have "?K ! i \<in> set (take j ?K) \<or> ?K ! i \<in> set (drop j ?K)"
      using assms(2) by (metis Un_iff append_take_drop_id nth_mem set_append)
    with hole(3,4) show ?thesis by auto
  qed
qed

text \<open>The place of a column in the chain of its index.\<close>

lemma index_place:
  assumes "config_ok d" and "index_map d idx = Some (before @ col # after)"
  obtains n S ss x zs i where "get_index_by_name d idx = int n" "n < length (indexes d)" "chains d S" "S n = ss @ x # zs"
    "map (serial_name (key_columns d)) (ss @ [x]) = before @ [col]" "i < length (key_columns d)"
    "serial_no (key_columns d ! i) = x" "col_name (key_columns d ! i) = col" "\<forall>m<length (indexes d). m \<noteq> n \<longrightarrow> x \<notin> set (S m)"
proof -
  let ?K = "key_columns d"
  have ok: "dir_ok d" "separate d" using assms(1) by (simp_all add: config_ok_def)
  have okd: "dir_ok_upto (nat (pathinfo_size d)) d" and ser: "serials_ok ?K"
    using ok(1) by (simp_all add: dir_ok_def dir_ok_upto_def cols_ok_def)
  obtain n where n: "get_index_by_name d idx = int n" "n < length (indexes d)"
    using assms(2) by (cases rule: get_index_by_name_cases [of d idx]) (auto simp: index_map_None)
  obtain S where S: "chains d S" by (rule chains_exist [OF okd])
  have cs: "\<forall>m<length (indexes d). columns d m = map (serial_name ?K) (S m)" using chains_columns' [OF S ser] by simp
  have "map (serial_name ?K) (S n) = before @ col # after" using cs n(2) index_map_Some [OF ok(1) n] assms(2) by simp
  then obtain ss x zs where S': "S n = ss @ x # zs" "map (serial_name ?K) ss = before" "serial_name ?K x = col"
    by (auto simp: map_eq_append_conv Cons_eq_map_conv map_eq_Cons_conv)
  have "in_range x ?K" using chains_in_range [OF S ser n(2), of x] S'(1) by simp
  then obtain i where i: "i < length ?K" "serial_no (?K ! i) = x" using serial_has_col [OF ser] by blast
  then have "name_map ?K x = Some (col_name (?K ! i))" using name_map_iff [OF ser] nth_mem by blast
  with S'(3) have "col_name (?K ! i) = col" by (simp add: serial_name_def)
  moreover have "\<forall>m<length (indexes d). m \<noteq> n \<longrightarrow> x \<notin> set (S m)"
    using separate_chains [OF ok(2) cs _ n(2)] S'(1) by fastforce
  ultimately show thesis using that [OF n S S'(1) _ i] S'(2,3) by simp
qed

text \<open>The two changes of the column: it is cut off from what follows it, and linked to itself.\<close>

definition cut_col :: "nat \<Rightarrow> dir \<Rightarrow> string \<Rightarrow> key_col \<Rightarrow> key_col" where
  "cut_col n d col = col_assoc (int n) (Some (indexes d ! n)) (param_expr col)"

definition loop_col :: "int \<Rightarrow> nat \<Rightarrow> key_col \<Rightarrow> key_col" where
  "loop_col x i c = c\<lparr>next_in_key_serial := x, next_in_key := int i\<rparr>"

definition looped :: "nat \<Rightarrow> dir \<Rightarrow> string \<Rightarrow> int \<Rightarrow> nat \<Rightarrow> key_col list" where
  "looped n d col x i = (key_columns d)[i := loop_col x i (cut_col n d col (key_columns d ! i))]"

lemma looped_maps:
  assumes "cols_ok (key_columns d)" and "i < length (key_columns d)" and "serial_no (key_columns d ! i) = x"
  shows "cols_ok (looped n d col x i)" "name_map (looped n d col x i) = name_map (key_columns d)"
    "at_serial (looped n d col x i) = at_serial (key_columns d)" "next_map (looped n d col x i) = (next_map (key_columns d))(x \<mapsto> x)"
    "chain_linked (key_columns d) ss \<Longrightarrow> chain_linked (looped n d col x i) ss"
proof -
  let ?K = "key_columns d" and ?f = "\<lambda>c. loop_col x i (cut_col n d col c)"
  have srt: "sorted_names ?K" and ser: "serials_ok ?K" and tails: "tails_ok ?K" using assms(1) by (simp_all add: cols_ok_def)
  have f: "serial_no (?f (?K ! i)) = serial_no (?K ! i)" "col_name (?f (?K ! i)) = col_name (?K ! i)"
    "next_in_key_serial (?f (?K ! i)) = x" "next_in_key (?f (?K ! i)) = int i" by (simp_all add: loop_col_def cut_col_def)
  note u = update_col [where f = ?f, OF ser srt assms(2) f(1,2), folded looped_def]
  have "in_range x ?K" using serial_in_range [OF ser, of "?K ! i"] assms(2,3) by simp
  then have x: "x \<noteq> -1" by (simp add: in_range_def)
  have "tails_ok (looped n d col x i)"
    using tails f(3) x set_update_subset_insert [of ?K i "?f (?K ! i)"] by (auto simp: tails_ok_def looped_def)
  with u show "cols_ok (looped n d col x i)" by (simp add: cols_ok_def)
  show "name_map (looped n d col x i) = name_map ?K" "at_serial (looped n d col x i) = at_serial ?K" by (rule u)+
  show "next_map (looped n d col x i) = (next_map ?K)(x \<mapsto> x)" using u(5) f(3) assms(3) by simp
  have "link_ok ?K (?f (?K ! i))" using f(3,4) x assms(2,3) by (simp add: link_ok_def at_serial_def in_range_int)
  then show "chain_linked ?K ss \<Longrightarrow> chain_linked (looped n d col x i) ss"
    by (intro update_col_linked [OF _ u(4) looped_def]) simp_all
qed

text \<open>The directive itself: cut at the column, the chain ends there.\<close>

lemma named_again_runs:
  assumes "config_ok d" and "get_index_by_name d idx = int n" and "n < length (indexes d)" and "chains d S" and "S n = ss @ x # zs"
    and "i < length (key_columns d)" and "serial_no (key_columns d ! i) = x" and "col_name (key_columns d ! i) = col"
    and "take 1 col \<noteq> ''[''"
  shows "named_idx d idx (param_expr col) = Some (d\<lparr>key_columns := looped n d col x i,
     indexes := (indexes d)[n := (indexes d ! n)\<lparr>n_columns := (n_columns (indexes d ! n) + 1) mod 2 ^ 16\<rparr>]\<rparr>, None)"
proof -
  let ?K = "key_columns d" and ?ix = "indexes d ! n" and ?f = "cut_col n d col"
  let ?K1 = "?K[i := ?f (?K ! i)]"
  let ?d = "d\<lparr>key_columns := ?K1, indexes := (indexes d)[n := ?ix\<lparr>n_columns := (n_columns ?ix + 1) mod 2 ^ 16\<rparr>]\<rparr>"
  have cols: "cols_ok ?K" using assms(1) by (simp add: config_ok_def dir_ok_def dir_ok_upto_def)
  then have srt: "sorted_names ?K" and ser: "serials_ok ?K" by (simp_all add: cols_ok_def)
  have sc: "schain (next_map ?K) (first_col_serial ?ix) (ss @ x # zs)" "chain_linked ?K (S n)" "head_ok ?K ?ix"
    using assms(3-5) by (auto simp: chains_def)
  have rng: "in_range y ?K" if "y \<in> set (S n)" for y by (rule chains_in_range [OF assms(4) ser assms(3) that])
  have xs: "x \<notin> set ss" using schain_distinct [OF sc(1)] rng assms(5) by (fastforce simp: in_range_def)
  have f: "serial_no (?f (?K ! i)) = serial_no (?K ! i)" "col_name (?f (?K ! i)) = col_name (?K ! i)"
    "next_in_key_serial (?f (?K ! i)) = -1" "next_in_key (?f (?K ! i)) = -1" by (simp_all add: cut_col_def)
  note u = update_col [where f = ?f, OF ser srt assms(6) f(1,2)]
  have sc1: "schain (next_map ?K1) (first_col_serial ?ix) (ss @ [x])" using schain_cut [OF sc(1) xs] u(5) f(3) assms(7) by simp
  have "chain_linked ?K (ss @ [x])" using sc(2) assms(5) by (simp add: chain_linked_def)
  moreover have "link_ok ?K (?f (?K ! i))" using f(3,4) by (simp add: link_ok_def)
  ultimately have lk1: "chain_linked ?K1 (ss @ [x])" by (intro update_col_linked [OF _ u(4) refl]) simp_all
  have "first_col_serial ?ix \<in> set (ss @ [x])" using sc1 by (cases ss) auto
  then have "first_col_serial ?ix \<noteq> -1" using rng assms(5) by (force simp: in_range_def)
  then have at: "at_serial ?K (first_col ?ix) (first_col_serial ?ix)" using sc(3) by (simp add: head_ok_def)
  then have fc: "first_col ?ix \<noteq> -1" by (auto simp: at_serial_def in_range_def)
  obtain c where c: "chain_tail ?K1 (first_col ?ix) 0 = Some c" "at_serial ?K1 c x"
    using chain_tail_last [OF u(1) sc1 lk1, of "first_col ?ix" 0] at u(4) by auto
  have "c = int i" using serial_unique [OF u(1), of "nat c" i] c(2) assms(6,7) f(1) by (auto simp: at_serial_def in_range_def)
  then have "link_column ?d (int n) (int i) = Some (?d\<lparr>key_columns := looped n d col x i\<rparr>)"
    using c(1) fc assms(3,6,7) f(1) by (simp add: link_column_def arr_simps in_range_int looped_def loop_col_def)
  moreover have "add_column_to_index d (int n) (param_expr col) = Some (d\<lparr>key_columns := ?K1\<rparr>, int i, True)"
    using add_key_column_found [OF cols assms(6)] assms(3,6,8)
    by (simp add: add_column_to_index_def arr_simps in_range_int cut_col_def param_expr_def)
  ultimately show ?thesis using assms(2,3,9) by (simp add: named_idx_def Let_def arr_simps in_range_int param_expr_def)
qed

lemma looped_bent:
  assumes "config_ok d" and "n < length (indexes d)" and "chains d S" and "S n = ss @ x # zs"
    and "map (serial_name (key_columns d)) (ss @ [x]) = nms"
    and "i < length (key_columns d)" and "serial_no (key_columns d ! i) = x" and "\<forall>m<length (indexes d). m \<noteq> n \<longrightarrow> x \<notin> set (S m)"
    and "key_columns d' = looped n d col x i" and "indexes d' = (indexes d)[n := (indexes d ! n)\<lparr>n_columns := v\<rparr>]"
  shows "bent d' n (ss @ [x]) nms" "leads_to (next_map (key_columns d')) (first_col_serial (indexes d' ! n)) ss x"
proof -
  let ?K = "key_columns d" and ?ix = "indexes d ! n"
  have cols: "cols_ok ?K" using assms(1) by (simp add: config_ok_def dir_ok_def dir_ok_upto_def)
  then have ser: "serials_ok ?K" by (simp add: cols_ok_def)
  note l = looped_maps [OF cols assms(6,7), where n = n and col = col, folded assms(9)]
  have ch: "head_ok ?K (indexes d ! m)" "schain (next_map ?K) (first_col_serial (indexes d ! m)) (S m)" "chain_linked ?K (S m)"
    if "m < length (indexes d)" for m using assms(3) that by (auto simp: chains_def)
  have rng: "in_range y ?K" if "y \<in> set (S n)" for y by (rule chains_in_range [OF assms(3) ser assms(2) that])
  have sc: "schain (next_map ?K) (first_col_serial ?ix) (ss @ x # zs)" using ch(2) [OF assms(2)] assms(4) by simp
  have xs: "x \<notin> set ss" using schain_distinct [OF sc] rng assms(4) by (fastforce simp: in_range_def)
  have ix: "first_col_serial (indexes d' ! n) = first_col_serial ?ix" "first_col (indexes d' ! n) = first_col ?ix" using assms(2,10) by simp_all
  have lead: "leads_to (next_map (key_columns d')) (first_col_serial ?ix) ss x" using schain_leads [OF sc] xs l(4) leads_upd by simp
  then show "leads_to (next_map (key_columns d')) (first_col_serial (indexes d' ! n)) ss x" using ix(1) by simp
  have "stays (next_map (key_columns d')) (ss @ [x])" using leads_closed [OF lead] l(4) by (auto simp: stays_def)
  moreover have "chain_linked ?K (ss @ [x])" using ch(3) [OF assms(2)] assms(4) by (simp add: chain_linked_def)
  then have "chain_linked (key_columns d') (ss @ [x])" by (rule l(5))
  ultimately have cl: "closed (key_columns d') (ss @ [x])" by (simp add: closed_def)
  have first: "first_col_serial ?ix \<in> set (ss @ [x])" using lead by (cases ss) auto
  then have "first_col_serial ?ix \<noteq> -1" using rng assms(4) by (force simp: in_range_def)
  then have at: "at_serial (key_columns d') (first_col ?ix) (first_col_serial ?ix)"
    using ch(1) [OF assms(2)] l(3) by (simp add: head_ok_def)
  have "index_ok (key_columns d') (indexes d' ! m)" if m: "m < n" for m
  proof -
    have "indexes d' ! m = indexes d ! m" "x \<notin> set (S m)" "m < length (indexes d)" using m assms(2,8,10) by auto
    moreover from this have "schain (next_map (key_columns d')) (first_col_serial (indexes d ! m)) (S m)"
      "chain_linked (key_columns d') (S m)" using ch [of m] l(4) l(5) [of "S m"] schain_upd by simp_all
    ultimately show ?thesis using ch(1) [of m] unfolding index_ok_def head_ok_cong [OF l(3)] by auto
  qed
  moreover have "\<exists>nm\<in>set nms. name_map (key_columns d') s = Some nm" if s: "s \<in> set (ss @ [x])" for s
  proof -
    have "in_range s ?K" using rng s assms(4) by auto
    then obtain j where "j < length ?K" "serial_no (?K ! j) = s" using serial_has_col [OF ser] by blast
    then have "name_map ?K s = Some (col_name (?K ! j))" using name_map_iff [OF ser] nth_mem by blast
    then have "name_map ?K s = Some (serial_name ?K s)" by (simp add: serial_name_def)
    moreover have "serial_name ?K s \<in> set nms" unfolding assms(5) [symmetric] using s by (metis imageI set_map)
    ultimately show ?thesis using l(2) by simp
  qed
  ultimately show "bent d' n (ss @ [x]) nms" using l(1) cl ix first at assms(2,10) by (simp add: bent_def)
qed

lemma looped_walk:
  assumes "bent d' n (ss @ [x]) nms" and "leads_to (next_map (key_columns d')) (first_col_serial (indexes d' ! n)) ss x"
    and "map (serial_name (key_columns d')) (ss @ [x]) = nms" and "k \<le> length ss"
  shows "\<exists>c. iterate (tail_step (key_columns d')) k (first_col (indexes d' ! n)) = Some c \<and>
     at_serial (key_columns d') c ((ss @ [x]) ! k) \<and> col_name (key_columns d' ! nat c) = nms ! k"
proof -
  let ?K = "key_columns d'"
  have ser: "serials_ok ?K" and cl: "closed ?K (ss @ [x])" using assms(1) by (simp_all add: bent_def cols_ok_def)
  then have w: "chain_linked ?K ss" "\<forall>y\<in>set (ss @ [x]). y \<noteq> -1"
    using stays_range [OF ser] by (force simp: closed_def chain_linked_def in_range_def)+
  have "at_serial ?K (first_col (indexes d' ! n)) (first_col_serial (indexes d' ! n))" using assms(1) by (simp add: bent_def)
  from walk_leads [OF ser w(1) assms(2) this w(2) assms(4)] obtain c where c: "iterate (tail_step ?K) k (first_col (indexes d' ! n)) = Some c" "at_serial ?K c ((ss @ [x]) ! k)"
    by blast
  then have "?K ! nat c \<in> set ?K" "serial_no (?K ! nat c) = (ss @ [x]) ! k" by (auto simp: at_serial_def in_range_nth_mem)
  then have "name_map ?K ((ss @ [x]) ! k) = Some (col_name (?K ! nat c))" using name_map_iff [OF ser] by blast
  then have "serial_name ?K ((ss @ [x]) ! k) = col_name (?K ! nat c)" by (simp add: serial_name_def)
  moreover have "nms ! k = serial_name ?K ((ss @ [x]) ! k)" using assms(3,4) by (auto simp del: map_append)
  ultimately show ?thesis using c by auto
qed

text \<open>
  What the directive leaves: the chain runs over the columns up to the one named twice and stays there, and no
  directive that names a further column of the index comes back.
\<close>

lemma named_index_again:
  assumes "config_ok d" and "index_map d idx = Some (before @ col # after)" and "take 1 col \<noteq> ''[''"
    and "idx_name (index_scan d) \<noteq> Some idx"
  shows "\<exists>d' n. named_index t d idx col = Some (d', None) \<and> get_index_by_name d' idx = int n \<and>
     (\<forall>k\<le>length before. \<exists>c. iterate (tail_step (key_columns d')) k (first_col (indexes d' ! n)) = Some c \<and>
        in_range c (key_columns d') \<and> col_name (key_columns d' ! nat c) = (before @ [col]) ! k \<and>
        (k = length before \<longrightarrow> next_in_key (key_columns d' ! nat c) = c \<and>
           next_in_key_serial (key_columns d' ! nat c) = serial_no (key_columns d' ! nat c))) \<and>
     (\<forall>t' kn. kn \<notin> set (before @ [col]) \<and> take 1 kn \<noteq> ''['' \<and>
        (kn \<in> set (names (key_columns d')) \<or> length (key_columns d') < 32768) \<longrightarrow>
        named_index t' d' idx kn = None \<and> (tail_endless d' n kn \<or> repair_endless d' n kn))"
proof -
  from index_place [OF assms(1,2)] obtain n S ss x zs i where p: "get_index_by_name d idx = int n" "n < length (indexes d)" "chains d S"
    "S n = ss @ x # zs" "map (serial_name (key_columns d)) (ss @ [x]) = before @ [col]" "i < length (key_columns d)"
    "serial_no (key_columns d ! i) = x" "col_name (key_columns d ! i) = col" "\<forall>m<length (indexes d). m \<noteq> n \<longrightarrow> x \<notin> set (S m)" .
  let ?v = "(n_columns (indexes d ! n) + 1) mod 2 ^ 16"
  define D where "D = d\<lparr>key_columns := looped n d col x i, indexes := (indexes d)[n := (indexes d ! n)\<lparr>n_columns := ?v\<rparr>]\<rparr>"
  have d: "key_columns D = looped n d col x i" "indexes D = (indexes d)[n := (indexes d ! n)\<lparr>n_columns := ?v\<rparr>]"
    "dir_magic_number D = dir_magic_number d" "index_scan D = index_scan d" by (simp_all add: D_def)
  have magic: "dir_magic_number d = dir_magic" using assms(1) by (simp add: config_ok_def)
  have run: "named_index t d idx col = Some (D, None)"
    using named_again_runs [OF assms(1) p(1-4,6-8) assms(3)] magic p(1) assms(4) by (simp add: named_index_def D_def)
  have "map idx_name (indexes d) = map idx_name (indexes D)" by (simp add: map_update_same d(2))
  from get_index_by_name_cong [OF this] p(1) have g: "get_index_by_name D idx = int n" by simp
  note b = looped_bent [OF assms(1) p(2-7,9) d(1,2)]
  have cols: "cols_ok (key_columns d)" using assms(1) by (simp add: config_ok_def dir_ok_def dir_ok_upto_def)
  note l = looped_maps [OF cols p(6,7), where n = n and col = col, folded d(1)]
  have nms: "map (serial_name (key_columns D)) (ss @ [x]) = before @ [col]" using p(5) l(2) by (simp add: serial_name_def [abs_def])
  then have len: "length ss = length before" by (metis length_append_singleton length_map nat.inject)
  have self: "next_in_key (key_columns D ! nat c) = c \<and> next_in_key_serial (key_columns D ! nat c) = serial_no (key_columns D ! nat c)"
    if "at_serial (key_columns D) c x" for c
  proof -
    have c: "in_range c (key_columns d)" "serial_no (key_columns d ! nat c) = x" using that l(3) by (simp_all add: at_serial_def)
    have "nat c = i" using serial_unique [of "key_columns d" "nat c" i] c cols p(6,7) by (simp add: cols_ok_def in_range_nat_lt)
    then have "c = int i" using c(1) by (auto simp: in_range_def)
    then show ?thesis using p(6,7) d(1) by (simp add: looped_def loop_col_def cut_col_def)
  qed
  have walk: "\<exists>c. iterate (tail_step (key_columns D)) k (first_col (indexes D ! n)) = Some c \<and>
      in_range c (key_columns D) \<and> col_name (key_columns D ! nat c) = (before @ [col]) ! k \<and>
      (k = length before \<longrightarrow> next_in_key (key_columns D ! nat c) = c \<and>
         next_in_key_serial (key_columns D ! nat c) = serial_no (key_columns D ! nat c))" if k: "k \<le> length before" for k
  proof -
    from looped_walk [OF b nms, of k] k len obtain c where c: "iterate (tail_step (key_columns D)) k (first_col (indexes D ! n)) = Some c"
      "at_serial (key_columns D) c ((ss @ [x]) ! k)" "col_name (key_columns D ! nat c) = (before @ [col]) ! k" by auto
    have "in_range c (key_columns D)" using c(2) unfolding at_serial_def by (rule conjunct1)
    moreover have "(ss @ [x]) ! k = x" if "k = length before" using that len by (metis nth_append_length)
    ultimately show ?thesis using c self [of c] by metis
  qed
  have further: "named_index t' D idx kn = None \<and> (tail_endless D n kn \<or> repair_endless D n kn)"
    if "kn \<notin> set (before @ [col])" "take 1 kn \<noteq> ''[''" "kn \<in> set (names (key_columns D)) \<or> length (key_columns D) < 32768" for t' kn
  proof -
    from bent_next [OF b(1) that(1,3)] have e: "tail_endless D n kn \<or> repair_endless D n kn" .
    have "named_idx D idx (param_expr kn) = None"
      using e tail_endless_None [OF _ g that(2)] repair_endless_named [OF _ g that(2)] by blast
    then have "named_index t' D idx kn = None" using magic g assms(4) d(3,4) by (simp add: named_index_def)
    with e show ?thesis by blast
  qed
  show ?thesis using run g walk further by blast
qed

end
