(* ===== verification/Request_Series.thy ===== *)
theory Request_Series
  imports Prelude
begin

text \<open>
  A series of requests to one process, and the contract of a process that tries to connect with every request
  while it has no connection. Both versions of the module keep it.
\<close>

fun run_requests :: "('r \<Rightarrow> 'p \<Rightarrow> ('a \<times> 'p) option) \<Rightarrow> 'r list \<Rightarrow> 'p \<Rightarrow> ('a list \<times> 'p) option" where
  "run_requests step [] p = Some ([], p)"
| "run_requests step (r # rs) p =
     do { (a, p1) \<leftarrow> step r p; (as, p2) \<leftarrow> run_requests step rs p1; Some (a # as, p2) }"

text \<open>
  \<open>made\<close> counts the connections made so far, which numbers them; \<open>answers n\<close> says that connection \<open>n\<close> succeeds.
\<close>

locale connecting =
  fixes step :: "'r \<Rightarrow> 'p \<Rightarrow> ('a option \<times> 'p) option"
    and ok :: "'p \<Rightarrow> bool" and good :: "'r \<Rightarrow> bool" and up :: "'p \<Rightarrow> bool" and made :: "'p \<Rightarrow> nat" and answers :: "nat \<Rightarrow> bool"
  assumes step_runs: "ok p \<Longrightarrow> good r \<Longrightarrow> \<exists>a p'. step r p = Some (a, p') \<and> ok p'"
    and served_when_up: "ok p \<Longrightarrow> good r \<Longrightarrow> step r p = Some (a, p') \<Longrightarrow> a \<noteq> None \<longleftrightarrow> up p'"
    and stays_up: "ok p \<Longrightarrow> good r \<Longrightarrow> step r p = Some (a, p') \<Longrightarrow> up p \<Longrightarrow> up p' \<and> made p' = made p"
    and tries: "ok p \<Longrightarrow> good r \<Longrightarrow> step r p = Some (a, p') \<Longrightarrow> \<not> up p \<Longrightarrow>
      made p' = Suc (made p) \<and> (up p' \<longleftrightarrow> answers (made p))"
begin

lemma series_runs:
  assumes "ok p" and "\<forall>r\<in>set rs. good r"
  shows "\<exists>as p'. run_requests step rs p = Some (as, p') \<and> length as = length rs \<and> ok p' \<and> (up p \<longrightarrow> up p' \<and> None \<notin> set as)"
  using assms
proof (induction rs arbitrary: p)
  case (Cons r rs)
  then have g: "good r" "\<forall>r\<in>set rs. good r" by simp_all
  from step_runs [OF Cons.prems(1) g(1)] obtain a p1 where s: "step r p = Some (a, p1)" "ok p1" by blast
  from Cons.IH [OF s(2) g(2)] obtain as p' where
    "run_requests step rs p1 = Some (as, p')" "length as = length rs" "ok p'" "up p1 \<longrightarrow> up p' \<and> None \<notin> set as" by blast
  with s stays_up [OF Cons.prems(1) g(1) s(1)] served_when_up [OF Cons.prems(1) g(1) s(1)] show ?case by auto
qed simp

text \<open>Once the cluster answers, every request but those before gets an instance.\<close>

lemma eventually_served:
  assumes "ok p" and "\<forall>r\<in>set rs. good r" and "\<forall>n\<ge>N. answers n"
  shows "\<exists>as p'. run_requests step rs p = Some (as, p') \<and> length as = length rs \<and>
    (\<forall>i<length rs. N \<le> made p + i \<longrightarrow> as ! i \<noteq> None)"
  using assms(1,2)
proof (induction rs arbitrary: p)
  case (Cons r rs)
  then have g: "good r" "\<forall>r\<in>set rs. good r" by simp_all
  from step_runs [OF Cons.prems(1) g(1)] obtain a p1 where s: "step r p = Some (a, p1)" "ok p1" by blast
  note st = served_when_up [OF Cons.prems(1) g(1) s(1)] stays_up [OF Cons.prems(1) g(1) s(1)] tries [OF Cons.prems(1) g(1) s(1)]
  show ?case
  proof (cases "up p1")
    case True
    from series_runs [OF s(2) g(2)] True obtain as p' where
      r: "run_requests step rs p1 = Some (as, p')" "length as = length rs" "None \<notin> set as" by blast
    moreover have "a \<noteq> None" using st(1) True by blast
    ultimately have "\<forall>x\<in>set (a # as). x \<noteq> None" by (metis set_ConsD)
    then have "\<forall>i<length (r # rs). (a # as) ! i \<noteq> None" using r(2) by (metis length_Cons nth_mem)
    with s(1) r(1,2) show ?thesis by auto
  next
    case False
    with st(2) have d: "\<not> up p" by blast
    with st(3) False have m: "made p1 = Suc (made p)" "\<not> answers (made p)" by blast+
    with assms(3) have "\<not> N \<le> made p" by blast
    from Cons.IH [OF s(2) g(2)] m(1) obtain as p' where
      r: "run_requests step rs p1 = Some (as, p')" "length as = length rs" "\<forall>i<length rs. N \<le> Suc (made p) + i \<longrightarrow> as ! i \<noteq> None" by auto
    have "\<forall>i<length (r # rs). N \<le> made p + i \<longrightarrow> (a # as) ! i \<noteq> None"
      using r(3) \<open>\<not> N \<le> made p\<close> by (auto simp: nth_Cons less_Suc_eq_0_disj split: nat.split)
    with s(1) r(1,2) show ?thesis by auto
  qed
qed simp

end

end
