(* ===== verification/Single_Process.thy ===== *)
theory Single_Process
  imports Process Request_Series
begin

text \<open>
  The process of Apache 1.3 (\<open>mod_ndb_ap13.cc\<close>): one thread, one instance behind a global pointer, one attempt
  to connect. The cluster and the slot of the instance are those of \<open>Process\<close>; here the \<open>Ndb\<close> object is kept
  whatever its \<open>init\<close> reports.
\<close>

subsection \<open>The process\<close>

record 'c single_process =
  s_n_connections :: int
  s_n_threads :: int
  s_connected :: bool
  s_connection :: "nat option"
  s_made :: nat
  instance1 :: "'c ndb_slot option"
  s_will_restart :: int
  s_signals :: nat

definition new_single_process :: "'c single_process" where
  "new_single_process =
     \<lparr>s_n_connections = 0, s_n_threads = 0, s_connected = False, s_connection = None, s_made = 0, instance1 = None,
      s_will_restart = 0, s_signals = 0\<rparr>"

definition connect_to_cluster_13 :: "cluster_api \<Rightarrow> bool \<Rightarrow> 'c single_process \<Rightarrow> 'c single_process" where
  "connect_to_cluster_13 api in_parent p =
     (let c = s_made p; p1 = p\<lparr>s_connection := Some c, s_made := Suc c\<rparr> in
      if connect_rc api c 1 \<noteq> 0 then p1
      else if in_parent then p1\<lparr>s_connected := True\<rparr>
      else if ready_nodes api c < 0 then p1
      else p1\<lparr>s_connected := True\<rparr>)"

definition init_instance_13 :: "srv \<Rightarrow> nat option \<Rightarrow> 'c ndb_slot" where
  "init_instance_13 sv c =
     \<lparr>i_db = c, server_config = sv,
      the_instance =
        \<lparr>i_tx = None, n_read_ops = 0, i_data = replicate (nat (max_read_operations sv)) zero_data,
         f_aborted = False, f_use_etag = False, f_jsonrequest = False, i_stats = zero_stats\<rparr>\<rparr>"

definition mod_ndb_child_init_13 :: "cluster_api \<Rightarrow> srv \<Rightarrow> 'c single_process \<Rightarrow> 'c single_process" where
  "mod_ndb_child_init_13 api sv p =
     (let p1 = (connect_to_cluster_13 api False p)\<lparr>s_n_connections := 1, s_n_threads := 1\<rparr>
      in p1\<lparr>instance1 := Some (init_instance_13 sv (s_connection p1))\<rparr>)"

text \<open>The loop over the threads does not move the pointer to the instance. \<open>None\<close>: there is no instance.\<close>

definition mod_ndb_child_exit_13 :: "'c single_process \<Rightarrow> (nat option list \<times> nat option) option" where
  "mod_ndb_child_exit_13 p =
     (case s_connection p of
        None \<Rightarrow> Some ([], None)
      | Some c \<Rightarrow> map_option (\<lambda>i. (replicate (nat (s_n_threads p)) (i_db i), Some c)) (instance1 p))"

text \<open>The instance of a request, where there is one.\<close>

definition my_instance_13 :: "cluster_api \<Rightarrow> 'c single_process \<Rightarrow> ('c ndb_slot option \<times> 'c single_process) option" where
  "my_instance_13 api p =
     (if s_n_connections p = 1 then
        (let p1 = (if s_connected p then p else connect_to_cluster_13 api False p)
         in if \<not> s_connected p1 then Some (None, p1) else map_option (\<lambda>i. (Some i, p1)) (instance1 p1))
      else Some (None, p))"

definition module_must_restart_13 :: "'c single_process \<Rightarrow> 'c single_process" where
  "module_must_restart_13 p =
     p\<lparr>s_will_restart := s_will_restart p + 1,
       s_signals := (if s_will_restart p = 0 then Suc (s_signals p) else s_signals p)\<rparr>"

subsection \<open>Serving requests\<close>

definition single_ok :: "srv \<Rightarrow> 'c single_process \<Rightarrow> bool" where
  "single_ok sv p \<longleftrightarrow> s_n_connections p = 1 \<and> s_n_threads p = 1 \<and>
     (\<exists>i. instance1 p = Some i \<and> server_config i = sv \<and> idle sv (the_instance i))"

definition answers_13 :: "cluster_api \<Rightarrow> nat \<Rightarrow> bool" where
  "answers_13 api c \<longleftrightarrow> connect_rc api c 1 = 0 \<and> 0 \<le> ready_nodes api c"

lemma connect_13:
  "s_made (connect_to_cluster_13 api False p) = Suc (s_made p)"
  "s_connected (connect_to_cluster_13 api False p) \<longleftrightarrow> s_connected p \<or> answers_13 api (s_made p)"
  "single_ok sv (connect_to_cluster_13 api b p) = single_ok sv p"
  "instance1 (connect_to_cluster_13 api b p) = instance1 p" "s_n_connections (connect_to_cluster_13 api b p) = s_n_connections p"
  "s_n_threads (connect_to_cluster_13 api b p) = s_n_threads p" "s_connection (connect_to_cluster_13 api b p) = Some (s_made p)"
  by (auto simp: connect_to_cluster_13_def answers_13_def single_ok_def Let_def)

lemma child_init_13_ok: "single_ok sv (mod_ndb_child_init_13 api sv p)"
proof -
  have "set (replicate k zero_data) \<subseteq> {zero_data}" for k by (simp add: set_replicate_conv_if)
  then show ?thesis
    by (simp add: mod_ndb_child_init_13_def single_ok_def Let_def init_instance_13_def idle_def instance_ok_def clean_def)
qed

interpretation single: connecting "\<lambda>_ :: unit. my_instance_13 api" "single_ok sv" "\<lambda>_. True" s_connected s_made "answers_13 api"
  for api sv
proof
  fix p p' :: "'a single_process" and r :: unit and a
  assume "single_ok sv p"
  then obtain i where i: "s_n_connections p = 1" "instance1 p = Some i" by (auto simp: single_ok_def)
  let ?p1 = "if s_connected p then p else connect_to_cluster_13 api False p"
  have e: "my_instance_13 api p = Some (if s_connected ?p1 then Some i else None, ?p1)"
    using i by (simp add: my_instance_13_def Let_def connect_13)
  then show "\<exists>a p'. my_instance_13 api p = Some (a, p') \<and> single_ok sv p'" using \<open>single_ok sv p\<close> by (simp add: connect_13)
  assume "my_instance_13 api p = Some (a, p')"
  with e show "a \<noteq> None \<longleftrightarrow> s_connected p'" and "s_connected p \<Longrightarrow> s_connected p' \<and> s_made p' = s_made p"
    and "\<not> s_connected p \<Longrightarrow> s_made p' = Suc (s_made p) \<and> (s_connected p' \<longleftrightarrow> answers_13 api (s_made p))"
    by (auto simp: connect_13 split: if_splits)
qed

lemma served_13:
  assumes "p = mod_ndb_child_init_13 api sv p0" and "\<forall>n\<ge>N. answers_13 api n"
  shows "\<exists>as p'. run_requests (\<lambda>_ :: unit. my_instance_13 api) rs p = Some (as, p') \<and> length as = length rs \<and>
    (\<forall>i<length rs. N \<le> s_made p + i \<longrightarrow> as ! i \<noteq> None)"
  by (rule single.eventually_served [where sv = sv]) (simp_all add: assms child_init_13_ok)

text \<open>As under Apache 2, a connection that is made later does not reach the instance.\<close>

lemma late_connection_13:
  assumes "p = mod_ndb_child_init_13 api sv p0" and "\<not> s_connected p" and "my_instance_13 api p = Some (Some i, p1)"
  shows "s_connected p1 \<and> s_connection p1 = Some (Suc (s_made p0)) \<and> i_db i = Some (s_made p0)"
proof -
  have p: "s_n_connections p = 1" "s_made p = Suc (s_made p0)" "instance1 p = Some (init_instance_13 sv (Some (s_made p0)))"
    using connect_13(1) [of api p0] connect_13(7) [of api False p0] by (simp_all add: assms(1) mod_ndb_child_init_13_def Let_def)
  with assms(2,3) show ?thesis
    by (auto simp: my_instance_13_def Let_def connect_13 init_instance_13_def split: if_splits)
qed

end
