(* ===== verification/Process_Connecting.thy ===== *)
theory Process_Connecting
  imports Process_Correct Request_Series
begin

text \<open>
  The contract of \<open>Request_Series\<close> for the process of Apache 2: a child that could not connect tries again with
  every request, and once the cluster answers every request of one of its threads gets an instance.
\<close>

definition answers_20 :: "cluster_api \<Rightarrow> nat \<Rightarrow> bool" where
  "answers_20 api c \<longleftrightarrow> (\<exists>n. connect_loop (connect_rc api c) 0 = Some (True, n)) \<and> 0 \<le> ready_nodes api c"

definition own_number :: "mpm \<Rightarrow> int \<Rightarrow> bool" where
  "own_number m cid \<longleftrightarrow> (mpm_threaded m \<longrightarrow>
     (\<exists>child t. 0 \<le> child \<and> 0 \<le> t \<and> t < mpm_max_threads m \<and> mpm_max_threads m \<le> mpm_hard_limit_threads m \<and>
        cid = child * mpm_hard_limit_threads m + t))"

lemma own_number_runs:
  assumes "process_ok good m sv p" and "connected p" and "own_number m cid"
  shows "\<exists>t. my_instance api cid p = Some (Some t, p)"
proof (cases "mpm_threaded m")
  case True
  with assms(3) obtain child t where t: "0 \<le> child" "0 \<le> t" "t < mpm_max_threads m" "mpm_max_threads m \<le> mpm_hard_limit_threads m"
      "cid = child * mpm_hard_limit_threads m + t" by (auto simp: own_number_def)
  from my_instance_thread [OF assms(1,2) True t(1-4)] t(5) show ?thesis by blast
next
  case False
  with assms(1,2) show ?thesis by (simp add: my_instance_def process_ok_def threads_def in_range_def)
qed

lemma my_instance_tries:
  assumes "process_ok good m sv p" and "\<not> connected p" and "own_number m cid" and "connect_law api"
  shows "\<exists>a p'. my_instance api cid p = Some (a, p') \<and> (a \<noteq> None \<longleftrightarrow> connected p') \<and> n_made p' = Suc (n_made p) \<and>
    (connected p' \<longleftrightarrow> answers_20 api (n_made p)) \<and> process_ok good m sv p'"
proof -
  obtain p1 where c: "connect_to_cluster api False p = Some p1" "n_made p1 = Suc (n_made p)"
    "connected p1 \<longleftrightarrow> answers_20 api (n_made p)"
  proof -
    have "\<forall>n. connect_rc api (n_made p) n \<in> {0, -1, 1}" using assms(4) by (simp add: connect_law_def)
    from connect_loop_returns [OF this, of 0] obtain b n where "connect_loop (connect_rc api (n_made p)) 0 = Some (b, n)" by auto
    then show thesis using that assms(2) by (auto simp: connect_to_cluster_def Let_def answers_20_def)
  qed
  have ok: "process_ok good m sv p1" using assms(1) connect_process_ok [OF c(1)] by simp
  have retry: "my_instance api cid p = my_instance api cid p1" if "connected p1"
    using that assms(1,2) c(1) connect_to_cluster_frame [OF c(1)] by (simp add: my_instance_def process_ok_def)
  show ?thesis
  proof (cases "connected p1")
    case True
    with own_number_runs [OF ok True assms(3), of api] retry c ok show ?thesis by auto
  next
    case False
    have "apache_is_threaded p \<Longrightarrow> thread_limit p \<noteq> 0" using assms(1,3) by (auto simp: process_ok_def own_number_def)
    with False assms(1,2) c ok show ?thesis by (auto simp: my_instance_def process_ok_def)
  qed
qed

text \<open>The documented results of \<open>connect\<close> are part of what is assumed of the cluster here.\<close>

interpretation child: connecting "my_instance api" "\<lambda>p. process_ok good m sv p \<and> connect_law api" "own_number m" connected n_made "answers_20 api"
  for api good m sv
proof
  fix p p' :: "'a process" and cid a
  assume a: "process_ok good m sv p \<and> connect_law api" "own_number m cid"
  note up = own_number_runs [OF conjunct1 [OF a(1)] _ a(2), of api]
    and down = my_instance_tries [OF conjunct1 [OF a(1)] _ a(2) conjunct2 [OF a(1)]]
  show "\<exists>b q. my_instance api cid p = Some (b, q) \<and> process_ok good m sv q \<and> connect_law api"
    using up down a(1) by (cases "connected p") auto
  assume "my_instance api cid p = Some (a, p')"
  with up down show "a \<noteq> None \<longleftrightarrow> connected p'" and "connected p \<Longrightarrow> connected p' \<and> n_made p' = n_made p"
    and "\<not> connected p \<Longrightarrow> n_made p' = Suc (n_made p) \<and> (connected p' \<longleftrightarrow> answers_20 api (n_made p))"
    by (cases "connected p"; auto)+
qed

lemma child_served:
  assumes "mod_ndb_child_init api m sv p0 = Some p" and "connect_law api" and "\<forall>cid\<in>set ids. own_number m cid" and "\<forall>n\<ge>N. answers_20 api n"
  shows "\<exists>as p'. run_requests (my_instance api) ids p = Some (as, p') \<and> length as = length ids \<and>
    (\<forall>i<length ids. N \<le> n_made p + i \<longrightarrow> as ! i \<noteq> None)"
  by (rule child.eventually_served [where good = "\<lambda>_. True" and sv = sv, OF _ assms(3,4)])
    (simp add: assms(2) child_init_ok [OF assms(1)])

lemma child_starts:
  assumes "connect_law api"
  obtains p where "mod_ndb_child_init api m sv p0 = Some p" and "n_made p = Suc (n_made p0)"
proof -
  let ?p1 = "p0\<lparr>apache_is_threaded := mpm_threaded m, n_threads := (if mpm_threaded m then mpm_max_threads m else 1),
    thread_limit := (if mpm_threaded m then mpm_hard_limit_threads m else 1), n_connections := 1\<rparr>"
  obtain p2 where c: "connect_to_cluster api False ?p1 = Some p2" using connect_to_cluster_returns [OF assms] by blast
  then have "n_made p2 = Suc (n_made p0)" by (auto simp: connect_to_cluster_def Let_def split: Option.bind_splits if_splits)
  with that c show thesis by (simp add: mod_ndb_child_init_def Let_def)
qed

end
