(* ===== verification/Spec2Isabelle.thy ===== *)
theory Spec2Isabelle
  imports Request_Keys JSON_Encoding Format_Cases Format_Registry Sample_Requests Handler_Dispatch Blob_Result JSON_Scanner JSON_Body_Ends
    Command_Table_Correct Index_Cycle Single_Process Process_Connecting
begin

text \<open>
  A verification development for mod_ndb, an Apache module that answers HTTP requests from the
  tables of an NDB cluster. The program is C++; the definitions are translations of the files under
  \<open>src/\<close>, one theory or a few per component, with the names of the source.

  The configuration. Apache reads the directives and calls the handlers of the command table (\<open>config.cc\<close>);
  queries in N-SQL go through a parser that the build generates from \<open>N-SQL/NSQL.atg\<close>, and make the same
  calls as the directives. Request bodies in JSON go through the parser of \<open>JSON/JSON.atg\<close>. The productions with
  their actions are modelled as the functions that the generator makes of them.

  The path of a request. The configuration (\<open>config.cc\<close>) describes an endpoint: its key columns,
  indexes, filters, path info and output format. A request is taken apart by a query source
  (\<open>query_source.cc\<close>, \<open>request_body.cc\<close>); the planner (\<open>Query.cc\<close>) matches its arguments and path
  with the key columns, chooses an access path and binds values to the parts of an index
  (\<open>index_object.h\<close>); text is converted to column values (\<open>MySQL_value.cc\<close>). \<open>Execute.cc\<close> runs the
  transaction, and the results (\<open>MySQL_result.cc\<close>) are written through a compiled output format
  (\<open>format_compiler.cc\<close>, \<open>output_format.cc\<close>) into a growing buffer (\<open>result_buffer.cc\<close>); errors become
  documents (\<open>handlers.cc\<close>). Each thread of a child process has an instance of its own
  (\<open>mod_ndb_ap20.cc\<close>), which the content handlers lend to one request after the other.

  Conventions. A result \<open>None\<close> is what the code cannot survive: an access outside an array or through
  a null pointer, a failed assertion, a loop without end. Error messages and statuses are values.
  Pointers into arrays and linked structures are positions in lists, so that aliasing is visible.
  Integers are \<open>int\<close> with the wrap-around written out, or words where the code computes in them; the positions and
  serial numbers of key columns and the numbers of indexes, which are \<open>short\<close>, are wrapped where the code computes them
  (\<open>to_short\<close>). What
  is not in the repository is an argument: Apache (\<open>ap_getword\<close>, the digest, the test of
  conditions), the NDB API (the scan, the transaction, the dictionary), the number routines of the
  MySQL library, the scanner of N-SQL, and the allocator.

  The theories.
  \<^item> \<open>Prelude\<close>, \<open>C_Library\<close>: arrays with bounds, \<open>strcmp\<close>, \<open>strtol\<close>, \<open>printf\<close> of integers.
  \<^item> \<open>Config_Types\<close>, \<open>Config\<close>: records and directives of \<open>config.cc\<close>. \<open>Key_Columns\<close>: \<open>add_key_column\<close>
    and the invariant \<open>dir_ok\<close>. \<open>Key_Links\<close>: the repair of the links after an insertion.
    \<open>Config_Correct\<close>, \<open>Config_Directives\<close>: every directive keeps \<open>dir_ok\<close>; what the indexes and the
    path info denote (\<open>index_map\<close>, \<open>pathinfo_columns\<close>) is the abstract view of a directory. \<open>Index_Cycle\<close>: a column
    named twice in an index, and the loops that go on for ever after it (\<open>endless\<close>).
  \<^item> \<open>Coco_Parser\<close>: the part of a generated parser that does not depend on the grammar. \<open>N_SQL\<close>: the productions of
    N-SQL. \<open>N_SQL_Meaning\<close>: its sentences, their tokens and what they mean for the directory (\<open>statement_action\<close>), which is
    the abstract specification of the parser; \<open>N_SQL_Correct\<close>: the parser computes it; \<open>N_SQL_Config\<close>: what a
    statement does to the indexes (\<open>plan_map\<close>), and its equality with directives. \<open>Query_Text\<close>: the text of a query, its buffer and
    \<open>sql_container\<close>.
  \<^item> \<open>Command_Table\<close>, \<open>Command_Table_Correct\<close>: the table of directives and the calls through it; every handler fits its entry
    and keeps the state in order (\<open>state_ok\<close>), and no directive changes more than its scope (\<open>command_scope\<close>).
  \<^item> \<open>JSON_Body\<close>: the JSON parser and what a text does to the form (\<open>json_act\<close>); \<open>JSON_Body_Correct\<close>: flat objects, nulls,
    nested and empty objects, and the accepted texts, by the languages between two states of the parser (\<open>reads\<close>).
    \<open>Coco_Scanner\<close>: the scanner of \<open>JSON/Scanner.frame\<close> for token definitions given as regular expressions, and the
    layouts it reads back (\<open>laid_out\<close>, \<open>readable\<close>); \<open>JSON_Scanner\<close>: the definitions of \<open>JSON/JSON.atg\<close> and the reader from the bytes.
  \<^item> \<open>Keyed_Store\<close>: the interface of the two stores of name and value pairs, the form table of
    \<open>Query_Source\<close> and the table of Apache of \<open>Apache_Table\<close>; both interpret it.
  \<^item> \<open>Query_Source\<close>: bodies and forms. \<open>Query_Plan\<close>, \<open>Query_Plan_Correct\<close>: \<open>set_key\<close>, arguments, path
    info, plans; the locale \<open>column_search\<close> is what the planner needs of the binary search.
    \<open>Index_Object\<close>, \<open>Request_Keys\<close>: from the request to the parts of an index.
  \<^item> \<open>MySQL_Value\<close>, \<open>MySQL_Result\<close>, \<open>MySQL_Correct\<close>: values in and out, and their round trips. \<open>Blob_Result\<close>:
    the life of a result object and the blob hook.
  \<^item> \<open>Result_Buffer\<close>: the buffer; \<open>holds rb t\<close> says that it holds the text \<open>t\<close>. \<open>Escapes\<close>,
    \<open>JSON_Encoding\<close>: escaping and unescaping.
  \<^item> \<open>Format_Types\<close>, \<open>Format_Compiler\<close>, \<open>Format_Cases\<close>: the compiler of output formats and what it makes
    of loops. \<open>Compiler_Runs\<close>: when it comes back without failing its assertion (\<open>dots_ok\<close>). \<open>Format_Registry\<close>: the registry. \<open>Output_Format\<close>, \<open>Output_Correct\<close>, \<open>Output_Scan\<close>: writing
    results; \<open>appends f s\<close> says that a routine appends \<open>s\<close>. \<open>Built_In\<close>: the JSON format.
  \<^item> \<open>Format_Files\<close>: the container of user formats in \<open>config.cc\<close> and the dumper \<open>format_dumper.cc\<close>;
    \<open>Format_Text\<close>: the text of a dump and when it fits; \<open>Format_Read\<close>: a dump is read back (\<open>dumpable\<close>, \<open>meaning\<close>).
  \<^item> \<open>Handlers\<close>, \<open>Execute\<close>, \<open>Execute_Correct\<close>: error documents and \<open>ExecuteAll\<close>.
  \<^item> \<open>Query_Setup\<close>, \<open>Query_Run\<close>, \<open>Query_Run_Correct\<close>: the modules that tell an NDB operation what to do, and
    the whole of \<open>Query()\<close>; an operation is the list of the calls made on it (\<open>op_call\<close>).
  \<^item> \<open>Instances\<close>: the invariants of an instance (\<open>instance_ok\<close>, \<open>idle\<close>), and lookups and inserts from the
    request to the answer. \<open>Process\<close>: the process of \<open>mod_ndb_ap20.cc\<close>; \<open>Content_Handlers\<close>: the handlers;
    \<open>Handler_Dispatch\<close>: the hooks of Apache 2, whose chain is the table of handlers of Apache 1.3;
    \<open>Process_Correct\<close>: the states a child reaches by serving requests (\<open>reachable\<close>) and what holds in all of them.
  \<^item> \<open>Request_Series\<close>: series of requests, and the locale \<open>connecting\<close>, the contract of a process that connects
    late; \<open>Process_Connecting\<close> interprets it on Apache 2, \<open>Single_Process\<close>, the process of \<open>mod_ndb_ap13.cc\<close>, on Apache 1.3.
  \<^item> \<open>Sample_Database\<close>, \<open>Sample_Requests\<close>: concrete surroundings for the witnesses.

  Bounds and fuel. A directory takes 32768 key columns and as many indexes, which is what a \<open>short\<close> can count: the
  directives that add some run under \<open>columns_fit\<close> and \<open>indexes_fit\<close>. \<open>run\<close> has a depth because a format may refer to itself; three levels are enough for
  the built-in formats, and the properties hold for every depth from three on. Other loops are
  structural, have a measure, or are partial functions whose value \<open>None\<close> is divergence; that they
  return is proved (\<open>add_key_column\<close>, \<open>out_fmt\<close>, the retry loop, the connection attempts, the scan).

  The JSON parser is a partial function over its productions: \<open>None\<close> is a crash of an action or a run
  without end. \<open>JSON_Body_Ends\<close> runs the productions on fuel, tells the two apart and shows that the latter never happens.

  Not modelled. The scanner of N-SQL, whose tokens depend on what the generator makes of contexts, keywords and comments:
  the properties of that parser start from tokens, and where the text matters the scanner is an argument. Of the JSON
  scanner the automaton is that of its token definitions; positions of tokens are left out. The messages of the parsers. What Apache does with a line before it calls a handler. The compatibility macros and
  logging. Races between threads: the steps of \<open>reachable\<close> are whole requests; the dump of a format changes no
  state and is not among them. The bytes of the row buffers of the NDB API.
\<close>

subsection \<open>Configuration\<close>

text \<open>
  C2: a series of index directives, each naming a column that no index holds yet, is accepted,
  keeps the configuration well formed and gives every index exactly the columns named for it, in
  the order of the directives, whatever their order in the sorted array of key columns. There must be room for the
  columns and the indexes: the code counts both in a \<open>short\<close>.
\<close>

theorem index_directives_build:
  assumes "config_ok d" and "distinct (map (snd \<circ> snd) ds)"
    and "\<forall>(t, idx, col)\<in>set ds. fresh_column d col \<and> idx_name (index_scan d) \<noteq> Some idx"
    and "columns_fit d (map (snd \<circ> snd) ds)" and "indexes_fit d (map (fst \<circ> snd) ds)"
  shows "\<exists>d'. index_directives ds d = Some d' \<and> config_ok d' \<and>
     index_map d' = fold (\<lambda>(t, idx, col). append_col idx col) ds (index_map d) \<and>
     pathinfo_columns d' = pathinfo_columns d"
  by (rule index_directives_fold [OF assms])

theorem index_directives_build_witness:
  "\<exists>d'. index_directives sample_lines blank_dir = Some d' \<and> config_ok d' \<and>
     index_map d' ''i'' = Some [''b'', ''a'']"
  using index_directives_build [OF blank_dir_ok(1) sample_lines_fresh]
  by (auto simp: sample_lines_def append_col_def blank_dir_ok)

text \<open>
  C3: adding a key column to a well-formed directory: a column that is there already is found, and a new one
  is added as long as there are fewer than 32768, with the array sorted and all links repaired: every index and the
  path info denote the same columns as before, and the column id returned is the position of the column. With
  32768 columns in the array the position or the serial number of a new one wraps to a negative \<open>short\<close>,
  and the routine writes outside the array, wherever the name belongs.
\<close>

theorem add_key_column_keeps_links:
  assumes "dir_ok d"
  shows "if kn \<in> set (names (key_columns d)) \<or> length (key_columns d) < 32768
    then \<exists>d' i ex. add_key_column d kn = Some (d', i, ex) \<and> dir_ok d' \<and>
      index_map d' = index_map d \<and> pathinfo_columns d' = pathinfo_columns d \<and>
      in_range i (key_columns d') \<and> col_name (key_columns d' ! nat i) = kn \<and>
      (ex \<longleftrightarrow> kn \<in> set (names (key_columns d))) \<and>
      set (names (key_columns d')) = insert kn (set (names (key_columns d)))
    else add_key_column d kn = None"
proof (cases "kn \<in> set (names (key_columns d)) \<or> length (key_columns d) < 32768")
  case True
  let ?p = "nat (pathinfo_size d)"
  have ok: "dir_ok_upto ?p d" using assms by (simp add: dir_ok_def)
  have "columns_fit d [kn]" using columns_fit_new [OF assms True] .
  from add_key_column_ok [OF ok this, of kn] obtain d' i ex where
    a: "add_key_column d kn = Some (d', i, ex)" "dir_ok_upto ?p d'" "extends d d'" "in_range i (key_columns d')"
      "col_name (key_columns d' ! nat i) = kn" "ex \<longleftrightarrow> kn \<in> set (names (key_columns d))"
      "set (names (key_columns d')) = insert kn (set (names (key_columns d)))" by auto
  have "pathinfo_size d' = pathinfo_size d" using a(3) unfolding extends_def by (blast dest: frame_pathinfo_size)
  then have "dir_ok d'" using a(2) by (simp add: dir_ok_def)
  with a extends_index_map [OF ok a(2,3)] extends_pathinfo_columns [OF assms _ a(3)] have
    "\<exists>d' i ex. add_key_column d kn = Some (d', i, ex) \<and> dir_ok d' \<and>
      index_map d' = index_map d \<and> pathinfo_columns d' = pathinfo_columns d \<and>
      in_range i (key_columns d') \<and> col_name (key_columns d' ! nat i) = kn \<and>
      (ex \<longleftrightarrow> kn \<in> set (names (key_columns d))) \<and>
      set (names (key_columns d')) = insert kn (set (names (key_columns d)))" by (intro exI conjI)
  with True show ?thesis by (simp only: if_True)
next
  case False
  have "cols_ok (key_columns d)" using assms by (simp add: dir_ok_def dir_ok_upto_def)
  moreover from this have "length (key_columns d) = 32768" using False by (simp add: cols_ok_def serials_ok_def)
  ultimately have "add_key_column d kn = None" using add_key_column_full False by blast
  with False show ?thesis by (simp only: if_False)
qed

theorem add_key_column_keeps_links_witness:
  "\<exists>d' i ex. add_key_column sample_dir ''aa'' = Some (d', i, ex) \<and> \<not> ex \<and>
     index_map d' ''i'' = Some [''b'', ''a''] \<and> col_name (key_columns d' ! nat i) = ''aa''"
proof -
  have "dir_ok sample_dir" using sample_dir_ok(2) by (simp add: config_ok_def)
  moreover have "length (key_columns sample_dir) < 32768" using arg_cong [OF sample_dir_parts(1), of length] by simp
  ultimately obtain d' i ex where
    a: "add_key_column sample_dir ''aa'' = Some (d', i, ex)" "index_map d' = index_map sample_dir"
      "col_name (key_columns d' ! nat i) = ''aa''" "ex \<longleftrightarrow> ''aa'' \<in> set (names (key_columns sample_dir))"
    using add_key_column_keeps_links [of sample_dir "''aa''"] by auto
  moreover have "\<not> ex" using a(4) sample_dir_parts by simp
  ultimately show ?thesis using sample_dir_ok by auto
qed

text \<open>
  C5: a path info directive on a well-formed directory is accepted and afterwards the path info
  denotes exactly the non-empty words of the specification, in their order, while every index
  keeps its columns. \<open>ap_getword\<close> is assumed to behave as documented, and there must be room for the
  new columns among the 32768 that a \<open>short\<close> can count.
\<close>

theorem pathinfo_denotes_words:
  assumes "getword_law gw" and "dir_ok d" and "columns_fit d (path_words arg1)"
  shows "\<exists>d'. pathinfo_directive gw tolower d arg1 arg2 = Some (d', None) \<and> dir_ok d' \<and>
     pathinfo_columns d' = map Some (path_words arg1) \<and> index_map d' = index_map d \<and>
     (separate d \<longrightarrow> separate d')"
  by (rule pathinfo_directive_ok [OF assms])

theorem pathinfo_denotes_words_witness:
  "\<exists>d'. pathinfo_directive getword_fn id sample_dir ''/b//x/a/'' None = Some (d', None) \<and>
     pathinfo_columns d' = [Some ''b'', Some ''x'', Some ''a''] \<and> index_map d' ''i'' = Some [''b'', ''a'']"
proof -
  have "dir_ok sample_dir" using sample_dir_ok(2) by (simp add: config_ok_def)
  moreover have "path_words ''/b//x/a/'' = [''b'', ''x'', ''a'']" by code_simp
  moreover from this have "columns_fit sample_dir (path_words ''/b//x/a/'')" using sample_dir_fits by simp
  ultimately show ?thesis using pathinfo_denotes_words [OF getword_fn_law, of sample_dir "''/b//x/a/''" id None]
    by (auto simp: sample_dir_ok)
qed

text \<open>
  C6: from the configuration to the keys of a request: after a path info directive with distinct
  words, a request whose path has as many words gives the i-th word to the i-th column named in the
  directive, with or without a slash at the end, if there is room for the columns.
\<close>

theorem path_info_binds_words:
  assumes "getword_law gw" and "dir_ok d" and "columns_fit d (path_words spec)" and "distinct (path_words spec)"
    and "length ws = length (path_words spec)" and "\<forall>w\<in>set ws. CHR ''/'' \<notin> set w"
    and "ws \<noteq> []" and "last ws \<noteq> []" and "trail = [] \<or> trail = ''/''"
  shows "\<exists>d' q. pathinfo_directive gw tolower d spec arg2 = Some (d', None) \<and>
     process_pathinfo d' (path_of ws @ trail) (new_query d') = Some q \<and>
     (\<forall>i<length ws. key_value d' (q_keys q) (path_words spec ! i) = Some (ws ! i))"
proof -
  from pathinfo_directive_ok [OF assms(1-3), of tolower arg2] obtain d' where
    d': "pathinfo_directive gw tolower d spec arg2 = Some (d', None)" "dir_ok d'"
      "pathinfo_columns d' = map Some (path_words spec)" by blast
  from path_keys [OF d'(2,3) assms(4-9)] d'(1) show ?thesis by blast
qed

theorem path_info_binds_words_witness:
  "\<exists>d' q. pathinfo_directive getword_fn id sample_dir ''/b//x/a/'' None = Some (d', None) \<and>
     process_pathinfo d' ''/7/42/5/'' (new_query d') = Some q \<and>
     key_value d' (q_keys q) ''b'' = Some ''7'' \<and> key_value d' (q_keys q) ''x'' = Some ''42'' \<and>
     key_value d' (q_keys q) ''a'' = Some ''5''"
proof -
  have "dir_ok sample_dir" using sample_dir_ok(2) by (simp add: config_ok_def)
  moreover have "path_words ''/b//x/a/'' = [''b'', ''x'', ''a'']" by code_simp
  moreover from this have "columns_fit sample_dir (path_words ''/b//x/a/'')" using sample_dir_fits by simp
  moreover have "path_of [''7'', ''42'', ''5''] @ ''/'' = ''/7/42/5/''" by (simp add: path_of_def)
  moreover have "\<forall>i<3. P i \<Longrightarrow> P 0 \<and> P 1 \<and> P (2::nat)" for P by simp
  ultimately show ?thesis
    using path_info_binds_words [OF getword_fn_law, of sample_dir "''/b//x/a/''" "[''7'', ''42'', ''5'']" "''/''" id None]
    by (fastforce simp: numeral_eq_Suc)
qed

text \<open>
  C9: a filter directive for a new name and a known operator is accepted, if there is room for a column: the filter is a key column
  with the operator and the base column of the directive, the indexes and the path info are the same
  as before, and the columns are those of before with the new name.
\<close>

theorem filter_directive_adds:
  assumes "dir_ok d" and "alias \<notin> set (map col_name (key_columns d))"
    and "find_filter_op op filter_ops 0 None = Some r" and "length (key_columns d) < 32768"
  shows "\<exists>d' c. filter_directive d base op alias = Some (d', None) \<and> dir_ok d' \<and>
     index_map d' = index_map d \<and> pathinfo_columns d' = pathinfo_columns d \<and> has_filters d' \<and>
     in_range c (key_columns d') \<and> col_name (key_columns d' ! nat c) = alias \<and>
     is_filter (key_columns d' ! nat c) \<and> rel_op (key_columns d' ! nat c) = r \<and>
     base_col_name (key_columns d' ! nat c) = Some base \<and>
     set (map col_name (key_columns d')) = insert alias (set (map col_name (key_columns d)))"
  using filter_directive_new [OF assms(1-3) columns_fit_new [OF assms(1)]] assms(4) by blast

theorem filter_directive_adds_witness:
  "\<exists>d' c. filter_directive sample_dir ''year'' ''>='' ''since'' = Some (d', None) \<and>
     index_map d' ''i'' = Some [''b'', ''a''] \<and> col_name (key_columns d' ! nat c) = ''since'' \<and>
     base_col_name (key_columns d' ! nat c) = Some ''year''"
proof -
  have d: "dir_ok sample_dir" using sample_dir_ok(2) by (simp add: config_ok_def)
  have a: "''since'' \<notin> set (map col_name (key_columns sample_dir))" using sample_dir_parts(1) by simp
  obtain r where "find_filter_op ''>='' filter_ops 0 None = Some r"
    by (cases "find_filter_op ''>='' filter_ops 0 None") (auto simp: filter_ops_def strcmp_iffs)
  moreover have "length (key_columns sample_dir) < 32768" using arg_cong [OF sample_dir_parts(1), of length] by simp
  ultimately show ?thesis using filter_directive_adds [OF d a, of "''>=''" r "''year''"] by (auto simp: sample_dir_ok)
qed



subsection \<open>Requests\<close>

text \<open>
  C12: from the query string to the key of an index: after the arguments of a request were taken in,
  the columns of the active index, in the order of its directives, are bound to the values the request
  gives for their names, the last one where a name occurs twice; the parts of the key are numbered in
  that order.
\<close>

theorem arguments_bind_index:
  assumes "getword_law gw" and "dir_ok d" and "length (key_columns d) \<le> 32768" and "index_map d idx = Some cs"
    and "process_args gw un d a (new_query d) = Some q"
    and "active_index q = get_index_by_name d idx" and "q_plan q \<noteq> Scan"
    and "constants (indexes d ! nat (active_index q)) = []"
    and "io_access obj = Primary_key_access \<or> (\<exists>nm. io_access obj = Unique_access nm)" and "accepts_all bnd"
  shows "\<exists>bs s'. bind_index bnd d q obj s = Some (bs, None, s') \<and>
     map kb_value bs = map (map_of (rev (pairs_of un a))) (take (min (nat (key_columns_used q)) (parts_left obj)) cs) \<and>
     map kb_target bs = map (\<lambda>i. Part (key_part obj + int i)) [0..<length bs]"
  by (rule query_binds_index [OF assms])

theorem arguments_bind_index_witness:
  "\<exists>q bs n. process_args getword_fn id sample_dir ''a=7&zz=1&b=41&b=42'' (new_query sample_dir) = Some q \<and>
     bind_index (\<lambda>_ n. Some (True, Suc n)) sample_dir q (new_index_object (Unique_access ''i'') (\<lambda>_. 2)) 0 = Some (bs, None, n) \<and>
     map kb_value bs = [Some ''42'', Some ''7''] \<and> map kb_target bs = [Part 0, Part 1]"
proof -
  let ?a = "''a=7&zz=1&b=41&b=42''" and ?obj = "new_index_object (Unique_access ''i'') (\<lambda>_. 2)"
  have d: "dir_ok sample_dir" using sample_dir_ok(2) by (simp add: config_ok_def)
  have k: "length (key_columns sample_dir) \<le> 32768" using arg_cong [OF sample_dir_parts(1), of length] by simp
  have run: "map_option (\<lambda>q. (active_index q, q_plan q, key_columns_used q)) (process_args getword_fn id sample_dir ?a (new_query sample_dir)) =
      Some (0, UniqueIndexAccess, 3)" by code_simp
  then obtain q where q: "process_args getword_fn id sample_dir ?a (new_query sample_dir) = Some q"
    "active_index q = 0" "q_plan q = UniqueIndexAccess" "key_columns_used q = 3" by auto
  have c: "constants (indexes sample_dir ! nat (active_index q)) = []"
    using sample_dir_parts(3) q(2) by auto
  have p: "pairs_of id ?a = [(''a'', ''7''), (''zz'', ''1''), (''b'', ''41''), (''b'', ''42'')]" "parts_left ?obj = 3" by code_simp+
  have o: "io_access ?obj = Primary_key_access \<or> (\<exists>nm. io_access ?obj = Unique_access nm)" "key_part ?obj = 0"
    by (simp_all add: new_index_object_def)
  have i: "index_map sample_dir ''i'' = Some [''b'', ''a'']" by (simp add: sample_dir_ok(3))
  have ai: "active_index q = get_index_by_name sample_dir ''i''" using q(2) sample_dir_parts(2) by simp
  have acc: "accepts_all (\<lambda>_ n. Some (True, Suc n))" by (simp add: accepts_all_def)
  have np: "q_plan q \<noteq> Scan" using q(3) by simp
  from arguments_bind_index [where s = 0, OF getword_fn_law d k i q(1) ai np c o(1) acc] obtain bs n where
    b: "bind_index (\<lambda>_ n. Some (True, Suc n)) sample_dir q ?obj 0 = Some (bs, None, n)" "map kb_value bs = [Some ''42'', Some ''7'']"
      "map kb_target bs = map (\<lambda>i. Part (0 + int i)) [0..<length bs]"
    using p o(2) q(4) by auto
  moreover have "length bs = 2" using arg_cong [OF b(2), of length] by simp
  ultimately show ?thesis using q(1) by (auto simp: upt_conv_Cons)
qed

text \<open>
  C13: the arguments of a request are taken in without a crash exactly when at most as many of them as
  there are key columns name a filter; one more writes behind the end of the list of filters.
\<close>

theorem arguments_fit_filter_list:
  assumes "getword_law gw" and "dir_ok d" and "length (key_columns d) \<le> 32768"
  shows "process_args gw un d a (new_query d) \<noteq> None \<longleftrightarrow>
     filter_hits d (map (un \<circ> fst) (form_pairs a)) \<le> length (key_columns d)"
proof -
  have "searchable d" using assms(2,3) by (simp add: searchable_def dir_ok_def dir_ok_upto_def cols_ok_def)
  from process_args_runs_iff [OF assms(1) this new_query_ok(1) new_query_ok(3)] show ?thesis .
qed

theorem arguments_fit_filter_list_witness:
  "\<exists>d. filter_directive blank_dir ''year'' ''='' ''y'' = Some (d, None) \<and>
     process_args getword_fn id d ''y=1999&y=2000'' (new_query d) = None \<and>
     process_args getword_fn id d ''y=1999&z=2000'' (new_query d) \<noteq> None"
proof -
  have "case filter_directive blank_dir ''year'' ''='' ''y'' of
      Some (d, e) \<Rightarrow> e = None \<and> map (\<lambda>k. (col_name k, is_filter k)) (key_columns d) = [(''y'', True)] | None \<Rightarrow> False"
    by code_simp
  then obtain d where d: "filter_directive blank_dir ''year'' ''='' ''y'' = Some (d, None)"
    "map (\<lambda>k. (col_name k, is_filter k)) (key_columns d) = [(''y'', True)]" by (auto split: option.splits)
  then obtain k where k: "key_columns d = [k]" "col_name k = ''y''" "is_filter k" by auto
  have "find_filter_op ''='' filter_ops 0 None \<noteq> None" by code_simp
  then obtain r where "find_filter_op ''='' filter_ops 0 None = Some r" by blast
  moreover have "dir_ok blank_dir" "''y'' \<notin> set (map col_name (key_columns blank_dir))" "columns_fit blank_dir [''y'']"
    using blank_dir_ok(1) by (simp_all add: config_ok_def columns_fit_def blank_dir_def new_dir_def zero_dir_def)
  ultimately have "dir_ok d" using filter_directive_new [of blank_dir "''y''" "''=''" r "''year''"] d(1) by auto
  from arguments_fit_filter_list [OF getword_fn_law this] have
    f: "process_args getword_fn id d a (new_query d) \<noteq> None \<longleftrightarrow> filter_hits d (map fst (form_pairs a)) \<le> 1" for a
    using k(1) by simp
  have "form_pairs ''y=1999&y=2000'' = [(''y'', ''1999''), (''y'', ''2000'')]"
    "form_pairs ''y=1999&z=2000'' = [(''y'', ''1999''), (''z'', ''2000'')]" by code_simp+
  then show ?thesis using d(1) f [of "''y=1999&y=2000''"] f [of "''y=1999&z=2000''"] k by (simp add: filter_hits_def)
qed

text \<open>
  C14: a form that is posted in blocks is put together and taken apart again: every name of the form
  that is read from the body gives its last value, and other names keep what the table had.
\<close>

theorem posted_form_read:
  assumes "getword_law gw" and "form_ok tab" and "choose_reader ct = Some Urlencoded"
    and "setup_rc b = HTTP_OK" and "should_block b" and "[] \<notin> set (client_blocks b)" and "remaining b = int n"
  shows "\<exists>tab'. http_get_form_data gw un pj M_POST ct b tab = Some (HTTP_OK, tab') \<and> form_ok tab' \<and>
     (\<forall>name. get_item name tab' =
        (case map_of (rev (map (\<lambda>(k, v). (un k, c_string (un v)))
            (form_pairs (c_str (take n (concat (client_blocks b))))))) name of
           Some info \<Rightarrow> Some (Some info) | None \<Rightarrow> get_item name tab))"
  by (rule urlencoded_body_read [OF assms])

theorem posted_form_read_witness:
  "\<exists>tab'. http_get_form_data getword_fn id (\<lambda>_ _ t. Some (t, 0)) M_POST None
        \<lparr>setup_rc = 0, should_block = True, remaining = 10, client_blocks = [''id=1'', ''7&x'', ''=abc'']\<rparr> empty_form =
        Some (HTTP_OK, tab') \<and>
     get_item ''id'' tab' = Some (Some (c_string ''17'')) \<and> get_item ''x'' tab' = Some (Some (c_string ''ab'')) \<and>
     get_item ''y'' tab' = Some None"
proof -
  let ?b = "\<lparr>setup_rc = 0, should_block = True, remaining = 10, client_blocks = [''id=1'', ''7&x'', ''=abc'']\<rparr>"
  have f: "form_pairs (c_str (take 10 (concat (client_blocks ?b)))) = [(''id'', ''17''), (''x'', ''ab'')]"
    "form_pairs (c_str (take 11 (concat (client_blocks ?b)))) = [(''id'', ''17''), (''x'', ''abc'')]" by code_simp+
  have "choose_reader None = Some Urlencoded" by (simp add: choose_reader_def)
  from posted_form_read [OF getword_fn_law empty_form_ok(1) this, of ?b 10 id "\<lambda>_ _ t. Some (t, 0)"] f
  show ?thesis by (auto simp: HTTP_OK_def empty_form_ok)
qed

subsection \<open>Execution\<close>

text \<open>
  C19: whatever the transaction does, the retry loop returns when the limit leaves room for one more
  wait in 32 bits. It executes \<open>n + 1\<close> times: every execution but the last ended with a temporary
  error and the waits up to there stayed below the limit; the last one either did not end with a
  temporary error, or the next wait would reach the limit. The \<open>k\<close>-th wait is \<open>5 + 2 k^2\<close>, and the
  statistics count the waits.
\<close>

theorem retry_loop_returns:
  assumes "0 \<le> max_ms" and "max_ms \<le> 2 ^ 32 - 2 ^ 23"
  shows "\<exists>n. exec_commit api (word_of_int max_ms) 0 0 [] st cur = Some (loop_result api 0 [] st cur n) \<and>
     gave_up api (nat max_ms) 0 cur n"
  by (rule exec_commit_returns [OF assms])

theorem retry_loop_returns_witness:
  "exec_commit (sample_tx 1000 (ndb_error_of Success NoError 0)) (word_of_int 19) 0 0 [] sample_stats (0, [], [], []) =
     Some (False, [wait_of 0, wait_of 1],
       sample_stats\<lparr>temp_errors := 2, total_retry_ms := 12, temp_timeouts := 1\<rparr>, (3, [], [], []))"
proof -
  let ?api = "sample_tx 1000 (ndb_error_of Success NoError 0)"
  have "\<exists>n. exec_commit ?api (word_of_int 19) 0 0 [] sample_stats (0, [], [], []) =
      Some (loop_result ?api 0 [] sample_stats (0, [], [], []) n) \<and> gave_up ?api 19 0 (0, [], [], []) n"
    using retry_loop_returns [of 19 ?api sample_stats "(0, [], [], [])"] by simp
  then obtain n where n: "exec_commit ?api (word_of_int 19) 0 0 [] sample_stats (0, [], [], []) =
      Some (loop_result ?api 0 [] sample_stats (0, [], [], []) n)" "gave_up ?api 19 0 (0, [], [], []) n" by blast
  have a: "after ?api k (0, [], [], []) = (k, [], [], [])" for k by (induction k) (simp_all add: after_def sample_tx_def)
  have t: "temporary ?api (k, [], [], []) \<longleftrightarrow> k \<le> 1000" for k by (simp add: temporary_def ndb_error_of_def)
  have w: "waited (Suc 0) = 5" "waited (Suc 1) = 12" "waited (Suc 2) = 25" by code_simp+
  have late: "19 \<le> waited (Suc n)" if "n \<le> 2" using n(2) that by (simp add: gave_up_def a t del: waited.simps)
  have "waited (Suc k) < 19" if "k < n" for k using n(2) that by (simp add: gave_up_def del: waited.simps)
  from this [of 2] have "\<not> 2 < n" using w(3) by linarith
  have l: "n \<noteq> m" if "m \<le> 2" "waited (Suc m) < 19" for m using late that leD by blast
  have "n \<noteq> 0" by (rule l) (simp, unfold w, simp)
  moreover have "n \<noteq> 1" by (rule l) (simp, unfold w, simp)
  moreover note \<open>\<not> 2 < n\<close>
  ultimately have "n = 2" by simp
  have "waited 2 = 12" by code_simp
  with n(1) \<open>n = 2\<close> show ?thesis by (simp add: loop_result_def Let_def a t retried_def sample_stats_def)
qed

text \<open>
  C20: the answer to a request with one JSON read operation that scans: when the transaction comes
  through, the scan delivers its batches, and every row has a text, the body is the JSON array of the
  texts of all rows, in the order of the batches, with its length in the header; without rows the
  client gets the 404 document. In both cases the transaction is closed and the instance cleaned up.
\<close>

theorem JSON_scan_answered:
  assumes "env_ok en" and "i_tx i = Some tx"
    and "exec_commit api (word_of_int (max_retry_ms sv)) 0 0 [] (i_stats i) (tx_blobs api tx) = Some (True, waits, st, cur)"
    and "err_class (tx_error api cur) = NoError" and "reads_json i d" and "d_scanop d"
    and "delivers (tx_scan api) cur bs" and "those (map (json_row en d) (concat bs)) = Some ts"
    and "int (length (json_page ts)) < limit" and "\<not> f_use_etag i" and "\<not> f_jsonrequest i"
  shows "ExecuteAll (Suc (Suc (Suc k))) en api http json_cells sv False mem r i =
    Some \<lparr>o_code = (if ts = [] then DONE else HTTP_OK),
          o_reply = (if ts = [] then error_reply 404 (headers_out r) (''No data could be found.'' @ [NL]) r
                     else page_reply (json_page ts) r),
          o_notes = [], o_restart = False, o_waits = waits,
          o_instance = cleanup (i\<lparr>i_stats := st, i_tx := None\<rparr>)\<rparr>"
  by (rule ExecuteAll_JSON_scan [OF assms])

theorem JSON_scan_answered_witness:
  "map_option (\<lambda>out. (o_code out, body (o_reply out)))
     (ExecuteAll 3 sample_env (sample_tx 0 (ndb_error_of Success NoError 0)) sample_http json_cells (sample_srv 0) False 0
       new_reply (sample_instance True sample_rows)) =
   Some (HTTP_OK, ''['' @ NL # ''  { '' @ DQ # ''id'' @ DQ # '':1 , '' @ DQ # ''age'' @ DQ # '':30 },'' @ NL #
     ''  { '' @ DQ # ''id'' @ DQ # '':2 , '' @ DQ # ''age'' @ DQ # '':null },'' @ NL #
     ''  { '' @ DQ # ''id'' @ DQ # '':3 , '' @ DQ # ''age'' @ DQ # '':7 } '' @ NL # '']'' @ [NL])"
proof -
  let ?e = "ndb_error_of Success NoError 0" and ?i = "sample_instance True sample_rows"
  have tx: "i_tx ?i = Some (0, [], [], sample_rows)" by (simp add: sample_instance_def)
  have c: "exec_commit (sample_tx 0 ?e) (word_of_int (max_retry_ms (sample_srv 0))) 0 0 [] (i_stats ?i)
      (tx_blobs (sample_tx 0 ?e) (0, [], [], sample_rows)) = Some (True, [], i_stats ?i, (1, [], [], sample_rows))"
    by (simp add: sample_commit ndb_error_of_def)
  have e: "err_class (tx_error (sample_tx 0 ?e) (1, [], [], sample_rows)) = NoError" by (simp add: ndb_error_of_def)
  have d: "d_scanop (sample_operation True)" by (simp add: sample_operation_def)
  have f: "\<not> f_use_etag ?i" "\<not> f_jsonrequest ?i" by (simp_all add: sample_instance_def)
  have l: "int (length (json_page ts)) < limit"
    if "those (map (json_row sample_env (sample_operation True)) (concat sample_rows)) = Some ts" for ts
    using that by (auto simp: sample_texts json_page_def limit_def)
  have three: "(3::nat) = Suc (Suc (Suc 0))" by simp
  from JSON_scan_answered [where r = new_reply and mem = 0 and http = sample_http and k = 0,
      OF sample_env_ok tx c e sample_reads d sample_scan_delivers sample_texts l [OF sample_texts] f]
  show ?thesis unfolding three by (simp add: page_reply_def new_reply_def json_page_def)
qed

text \<open>
  C21: an error of the database, other than a temporary one, becomes its error document: the status
  belongs to the class of the error, the body is the document, and nothing of the result page is
  sent; a stale dictionary on a server that may restart asks for a restart and answers 503 with a
  retry header instead.
\<close>

theorem failed_transaction_answered:
  assumes "env_ok en" and "i_tx i = Some tx"
    and "exec_commit api (word_of_int (max_retry_ms sv)) 0 0 [] (i_stats i) (tx_blobs api tx) = Some (True, waits, st, cur)"
    and "err_class (tx_error api cur) \<noteq> NoError" and "CHR ''%'' \<notin> set (err_message (tx_error api cur))"
  shows "ExecuteAll depth en api http heap sv to_note mem r i =
    Some (let e = tx_error api cur; restart = stale_dictionary e \<and> force_restart_flag sv \<noteq> 0 in
      \<lparr>o_code = DONE,
       o_reply = (if restart then error_reply 503 (table_set ''Retry-After'' ''10'' (headers_out r)) [] r
                  else error_reply (status_of (err_class e)) (headers_out r) (document_of e) r),
       o_notes = [], o_restart = restart, o_waits = waits,
       o_instance = cleanup (i\<lparr>i_stats := st, i_tx := None\<rparr>)\<rparr>)"
  by (rule ExecuteAll_failed [OF assms])

theorem failed_transaction_answered_witness:
  "map_option (\<lambda>out. (r_status (o_reply out), body (o_reply out), o_restart out))
     (ExecuteAll 3 sample_env (sample_tx 0 (ndb_error_of PermanentError ConstraintViolation 630)) sample_http json_cells
       (sample_srv 0) False 0 new_reply (sample_instance True [])) = Some (409, ''Rejected.'' @ [NL], False) \<and>
   map_option (\<lambda>out. (r_status (o_reply out), body (o_reply out), o_restart out))
     (ExecuteAll 3 sample_env (sample_tx 0 (ndb_error_of PermanentError SchemaError 241)) sample_http json_cells
       (sample_srv 0) False 0 new_reply (sample_instance True [])) = Some (503, [], True)"
proof -
  let ?i = "sample_instance True []"
  have tx: "i_tx ?i = Some (0, [], [], [])" by (simp add: sample_instance_def)
  have c: "exec_commit (sample_tx 0 (ndb_error_of PermanentError cl n)) (word_of_int (max_retry_ms (sample_srv 0))) 0 0 [] (i_stats ?i)
      (tx_blobs (sample_tx 0 (ndb_error_of PermanentError cl n)) (0, [], [], [])) = Some (True, [], i_stats ?i, (1, [], [], []))" for cl n
    by (simp add: sample_commit ndb_error_of_def)
  have m: "CHR ''%'' \<notin> set (err_message (tx_error (sample_tx 0 (ndb_error_of PermanentError cl n)) (1, [], [], [])))" for cl n
    by (simp add: ndb_error_of_def)
  have e: "err_class (tx_error (sample_tx 0 (ndb_error_of PermanentError cl n)) (1, [], [], [])) = cl" for cl n
    by (simp add: ndb_error_of_def)
  have f: "force_restart_flag (sample_srv 0) \<noteq> 0" by (simp add: sample_srv_def)
  have x: "err_class (tx_error (sample_tx 0 (ndb_error_of PermanentError cl n)) (1, [], [], [])) \<noteq> NoError" if "cl \<noteq> NoError" for cl n
    using that by (simp add: ndb_error_of_def)
  have "ConstraintViolation \<noteq> NoError" "SchemaError \<noteq> NoError" by simp_all
  note A = failed_transaction_answered [where sv = "sample_srv 0" and http = sample_http and heap = json_cells and depth = 3 and
      to_note = False and mem = 0 and r = new_reply, OF sample_env_ok tx c x m]
  from A [of ConstraintViolation 630] A [of SchemaError 241] f show ?thesis
    by (simp add: Let_def error_reply_def document_of_def stale_dictionary_def ndb_error_of_def new_reply_def)
qed

text \<open>
  C27: a transaction whose executions end with a temporary error until the limit is reached: \<open>n\<close> waits fit
  below the configured limit, the next would reach it, and the first \<open>n + 1\<close> executions all end with a
  temporary error. Then the request waits \<open>n\<close> times, is answered with an empty 503 document, and the
  statistics of the instance count one timeout, the \<open>n\<close> errors that were waited for, and the time; the instance
  is cleaned up and has no transaction.
\<close>

theorem timed_out_answered:
  assumes "env_ok en" and "i_tx i = Some tx" and "0 \<le> max_retry_ms sv" and "max_retry_ms sv \<le> 2 ^ 32 - 2 ^ 23"
    and "\<forall>k\<le>n. temporary api (after api (Suc k) (tx_blobs api tx))"
    and "\<forall>k<n. waited (Suc k) < nat (max_retry_ms sv)" and "nat (max_retry_ms sv) \<le> waited (Suc n)"
  shows "ExecuteAll depth en api http heap sv to_note mem r i =
    Some \<lparr>o_code = DONE, o_reply = error_reply 503 (headers_out r) [] r, o_notes = [], o_restart = False, o_waits = map wait_of [0..<n],
          o_instance = cleanup (i\<lparr>i_stats := (i_stats i)\<lparr>total_retry_ms := total_retry_ms (i_stats i) + word_of_nat (waited n),
              temp_errors := temp_errors (i_stats i) + word_of_nat n, temp_timeouts := temp_timeouts (i_stats i) + 1\<rparr>,
            i_tx := None\<rparr>)\<rparr>"
  by (rule ExecuteAll_timeout [OF assms])

theorem timed_out_answered_witness:
  "\<exists>out. ExecuteAll 3 sample_env (sample_tx 9 (ndb_error_of Success NoError 0)) sample_http json_cells (sample_srv 10) False 0
       new_reply (sample_instance True []) = Some out \<and> r_status (o_reply out) = 503 \<and> body (o_reply out) = [] \<and>
     o_waits out = [wait_of 0] \<and> temp_timeouts (i_stats (o_instance out)) = 1 \<and> temp_errors (i_stats (o_instance out)) = 1"
proof -
  let ?api = "sample_tx 9 (ndb_error_of Success NoError 0)" and ?i = "sample_instance True []"
  have tx: "i_tx ?i = Some (0, [], [], [])" by (simp add: sample_instance_def)
  have l: "0 \<le> max_retry_ms (sample_srv 10)" "max_retry_ms (sample_srv 10) \<le> 2 ^ 32 - 2 ^ 23" by (simp_all add: sample_srv_def)
  have a: "after ?api k (0, [], [], []) = (k, [], [], [])" for k by (induction k) (simp_all add: after_def sample_tx_def)
  have "temporary ?api (k, [], [], []) \<longleftrightarrow> k \<le> 9" for k by (simp add: temporary_def sample_tx_def ndb_error_of_def)
  moreover have "tx_blobs ?api (0, [], [], []) = (0, [], [], [])" by (simp add: sample_tx_def)
  ultimately have t: "\<forall>k\<le>1. temporary ?api (after ?api (Suc k) (tx_blobs ?api (0, [], [], [])))" using a by simp
  have w: "\<forall>k<1. waited (Suc k) < nat (max_retry_ms (sample_srv 10))" "nat (max_retry_ms (sample_srv 10)) \<le> waited (Suc 1)"
    by (simp_all add: sample_srv_def)
  from timed_out_answered [where http = sample_http and heap = json_cells and depth = 3 and to_note = False and mem = 0 and
      r = new_reply, OF sample_env_ok tx l t w]
  show ?thesis by (simp add: error_reply_def new_reply_def cleanup_def sample_instance_def sample_stats_def)
qed

text \<open>
  C28: in whatever way \<open>ExecuteAll\<close> returns (no transaction, a timeout, an error of the database, a page), it
  leaves the instance without a transaction, without read operations and with all flags clear; the operations
  that were used are zeroed and the others are as they were. This is about \<open>ExecuteAll\<close> alone: a subrequest that is
  kept open does not reach it and keeps its operations, and a refused request leaves the instance alone.
\<close>

theorem instance_left_clean:
  assumes "ExecuteAll depth en api http heap sv to_note mem r i = Some out"
  shows "i_tx (o_instance out) = None \<and> clean (o_instance out) \<and>
     length (i_data (o_instance out)) = length (i_data i) \<and>
     (\<forall>n<length (i_data i). i_data (o_instance out) ! n = (if n < n_read_ops i then zero_data else i_data i ! n))"
proof -
  from ExecuteAll_instance [OF assms] obtain st where o: "o_instance out = cleanup (i\<lparr>i_stats := st, i_tx := None\<rparr>)" by blast
  show ?thesis unfolding o using cleanup_data [of _ "i\<lparr>i_stats := st, i_tx := None\<rparr>"] cleanup_rest [of "i\<lparr>i_stats := st, i_tx := None\<rparr>"]
    by (simp add: cleanup_clean)
qed

theorem instance_left_clean_witness:
  "\<exists>out. ExecuteAll 3 sample_env (sample_tx 0 (ndb_error_of Success NoError 0)) sample_http json_cells (sample_srv 0) False 0
       new_reply ((sample_instance True [])\<lparr>i_tx := None\<rparr>) = Some out \<and>
     o_code out = 400 \<and> clean (o_instance out) \<and> i_data (o_instance out) ! 0 = zero_data"
proof -
  let ?i = "(sample_instance True [])\<lparr>i_tx := None\<rparr>"
  obtain out where "ExecuteAll 3 sample_env (sample_tx 0 (ndb_error_of Success NoError 0)) sample_http json_cells (sample_srv 0) False 0
       new_reply ?i = Some out" "o_code out = 400" by (simp add: ExecuteAll_def)
  with instance_left_clean [OF this(1)] show ?thesis by (simp add: sample_instance_def)
qed

text \<open>
  When an operation of a JSON request was refused with 406, the refusal is forgotten as soon as a
  later operation has a page: the answer is that of the later operation alone.
\<close>

theorem refusal_forgotten:
  assumes "result_cols d1" and "d_fmt d1 = Some f1" and "\<not> is_JSON f1"
    and "result_cols d2" and "d_fmt d2 = Some f2" and "is_JSON f2"
  shows "page_loop depth en api heap True False n [d1, d2] (code, cur, res, notes) =
     page_loop depth en api heap True False (Suc n) [d2] (code, cur, res, notes)"
  by (rule refused_page_lost [OF assms])

theorem refusal_forgotten_witness:
  "page_loop 3 sample_env (sample_tx 0 (ndb_error_of Success NoError 0)) json_cells True False 0
       [(sample_operation True)\<lparr>d_fmt := Some raw_format\<rparr>, sample_operation True] (0, (0, [], [], sample_rows), no_buffer 0, []) =
     page_loop 3 sample_env (sample_tx 0 (ndb_error_of Success NoError 0)) json_cells True False 1
       [sample_operation True] (0, (0, [], [], sample_rows), no_buffer 0, [])"
proof -
  have "\<not> is_JSON raw_format" "is_JSON json_compiled" by code_simp+
  with refusal_forgotten [of "(sample_operation True)\<lparr>d_fmt := Some raw_format\<rparr>" raw_format "sample_operation True" json_compiled]
  show ?thesis by (simp add: sample_operation_def)
qed

text \<open>
  The note of a subrequest is made from a buffer that has no terminating null byte: whenever the
  page fits the first block and holds no null byte, the copy reads a byte that was never written.
\<close>

theorem note_reads_past_page:
  assumes "\<forall>n. grant n" and "CHR 0x00 \<notin> set s" and "length s \<le> sz"
  shows "do { rb \<leftarrow> out_len grant (length s) s (init grant (int sz) rb0); set_note num rb notes } = None"
  by (rule note_unterminated [OF assms])

theorem note_reads_past_page_witness:
  "do { rb \<leftarrow> out_len (\<lambda>_. True) 2 ''[]'' (init (\<lambda>_. True) 8192 (no_buffer 0)); set_note 0 rb [] } = None"
  using note_reads_past_page [of "\<lambda>_. True" "''[]''" 8192] by (simp add: numeral_2_eq_2)

subsection \<open>Output formats\<close>

text \<open>
  C32: the description of a loop that has an opening text, a core, a separator with the ellipses, and
  a closing text is compiled into exactly these parts: the core is the node of that name, the texts
  become two new constant cells, and the separator is kept.
\<close>

theorem loop_compiled:
  assumes "unresolved nd = b @ CHR ''$'' # nm @ CHR ''$'' # s @ ''...'' @ e" and "plain b" and "plain s" and "plain e"
    and "node_word nm" and "symbol f nm = Some a" and "a \<noteq> 0" and "cells st \<noteq> []"
  shows "\<exists>st' nd'. compile_loop lb f nd st = Some (Inr (nd', st')) \<and>
     l_core nd' = Some a \<and> l_sep nd' = Some s \<and>
     cells st' = cells st @ [text_cell b, text_cell e] \<and>
     l_begin nd' = Some (length (cells st)) \<and> l_end nd' = Some (Suc (length (cells st)))"
  by (rule compile_loop_parts [OF assms])

theorem loop_compiled_witness:
  "\<exists>st nd. compile_loop 64 (define_node ''row'' (new_node Row_loop ''$item$'' None) (new_format ''f''))
       (new_node Scan_loop ''[$row$,...]'' None) new_parser = Some (Inr (nd, st)) \<and>
     l_core nd = Some 1 \<and> l_sep nd = Some '','' \<and> cells st = [the_null_cell, text_cell ''['', text_cell '']'']"
proof -
  have n: "node_word ''row''" by (simp add: node_word_def field_token_def isdigit_def)
  have f: "symbol (define_node ''row'' (new_node Row_loop ''$item$'' None) (new_format ''f'')) ''row'' = Some 1" by code_simp
  have u: "unresolved (new_node Scan_loop ''[$row$,...]'' None) = ''['' @ CHR ''$'' # ''row'' @ CHR ''$'' # '','' @ ''...'' @ '']''"
    by (simp add: new_node_def)
  have p: "plain ''[''" "plain '',''" "plain '']''" by (simp_all add: plain_def)
  have c: "cells new_parser \<noteq> []" "cells new_parser = [the_null_cell]" by (simp_all add: new_parser_def)
  from loop_compiled [OF u p(1,2,3) n f _ c(1), of 64] c(2) show ?thesis by auto
qed

text \<open>
  A loop description that starts with its core compiles without an error, but the core is lost:
  it becomes the null node, and the separator is hung on the shared null cell, from where it shows up
  in every other format that starts with a missing part.
\<close>

theorem leading_core_lost:
  assumes "unresolved nd = CHR ''$'' # nm @ CHR ''$'' # s @ ''...''" and "plain s" and "node_word nm" and "cells st \<noteq> []"
  shows "\<exists>st' nd'. compile_loop lb f nd st = Some (Inr (nd', st')) \<and> l_core nd' = Some 0 \<and>
     l_begin nd' = Some 0 \<and> cells st' = (cells st)[0 := (cells st ! 0)\<lparr>cell_next := Some (length (cells st))\<rparr>] @ [text_cell s]"
  by (rule compile_loop_core_first [OF assms])

theorem leading_core_lost_witness:
  "\<exists>st nd. compile_loop 64 (define_node ''row'' (new_node Row_loop ''$item$'' None) (new_format ''f''))
       (new_node Scan_loop ''$row$,...'' None) new_parser = Some (Inr (nd, st)) \<and> l_core nd = Some 0 \<and>
     cells st = [the_null_cell\<lparr>cell_next := Some 1\<rparr>, text_cell '','']"
proof -
  have n: "node_word ''row''" by (simp add: node_word_def field_token_def isdigit_def)
  have u: "unresolved (new_node Scan_loop ''$row$,...'' None) = CHR ''$'' # ''row'' @ CHR ''$'' # '','' @ ''...''"
    by (simp add: new_node_def)
  have c: "cells new_parser \<noteq> []" "cells new_parser = [the_null_cell]" by (simp_all add: new_parser_def)
  have p: "plain '',''" by (simp add: plain_def)
  from leading_core_lost [where lb = 64 and f = "define_node ''row'' (new_node Row_loop ''$item$'' None) (new_format ''f'')",
      OF u p n c(1)] c(2) show ?thesis by auto
qed

text \<open>
  C33: some formats compile although running them leaves the arrays: a scan whose core is a record
  attribute crashes for every operation that is not a scan, and a row that has a value without a
  number in its opening text crashes for every result.
\<close>

theorem accepted_formats_crash:
  "compiles_to record_scan (\<lambda>heap ns. \<forall>(en :: 'f env) (api :: 'c scan_api) d cur rb.
     \<not> d_scanop d \<longrightarrow> run (Suc (Suc (Suc k))) en api heap ns d 1 cur rb = None) \<and>
   compiles_to field_row (\<lambda>heap ns. \<forall>(en :: 'f env) (api :: 'c scan_api) d cur rb.
     length (row_at api cur) < 2 ^ 32 \<longrightarrow> run (Suc (Suc k)) en api heap ns d 1 cur rb = None)"
  using record_scan_crashes field_row_crashes by blast

theorem accepted_formats_crash_witness:
  "compiles_to field_row (\<lambda>heap ns. run 2 sample_env (tx_scan (sample_tx 0 (ndb_error_of Success NoError 0))) heap ns
     (sample_operation True) 1 (1, [int_result ''id'' 1], [], []) (no_buffer 0) = None)"
proof -
  have l: "length (row_at (tx_scan (sample_tx 0 (ndb_error_of Success NoError 0))) (1, [int_result ''id'' 1], [], [])) < 2 ^ 32"
    by (simp add: sample_tx_def list_scan_def)
  have "compiles_to field_row (\<lambda>heap ns. \<forall>(en :: unit env) (api :: sample_tx scan_api) d cur rb.
     length (row_at api cur) < 2 ^ 32 \<longrightarrow> run (Suc (Suc 0)) en api heap ns d 1 cur rb = None)"
    using accepted_formats_crash by blast
  then show ?thesis using l unfolding numeral_2_eq_2 compiles_to_def by (auto split: option.splits sum.splits simp del: run.simps)
qed

text \<open>
  The symbol table of a format: defining a node keeps the table well formed; a new name denotes
  the new node, a name that was defined before keeps its first node, and no other name changes.
\<close>

theorem first_definition_kept:
  assumes "format_ok f"
  shows "format_ok (define_node nm nd f) \<and>
     symbol (define_node nm nd f) x = (if symbol f nm = None \<and> x = nm then Some (length (f_nodes f)) else symbol f x)"
  using define_node_ok [OF assms] by simp

theorem first_definition_kept_witness:
  "symbol (define_node ''b'' the_null_node (define_node ''a'' the_null_node (new_format ''f''))) ''a'' =
     symbol (define_node ''a'' the_null_node (new_format ''f'')) ''a'' \<and>
   symbol (define_node ''a'' the_null_node (define_node ''a'' the_null_node (new_format ''f''))) ''a'' =
     symbol (define_node ''a'' the_null_node (new_format ''f'')) ''a''"
  using first_definition_kept [OF define_node_ok(1) [OF new_format_ok(1)]] first_definition_kept [OF new_format_ok(1)]
  by (simp add: new_format_ok)

text \<open>
  C34: registering a format in a well-formed registry returns and keeps it well formed. It is
  accepted exactly when no format of that name is there or the one there may be overridden; then the
  name, in any case of its letters, gives the new format and every other name what it gave before.
\<close>

theorem format_registered:
  assumes "registry_ok reg" and "length (global_output_formats reg) < 2 ^ 31 - 2" and "lb = 32 \<or> lb = 64"
  shows "\<exists>reg' err. register_format lb f reg = Some (reg', err) \<and> registry_ok reg' \<and>
     (err = None \<longrightarrow> (\<forall>nm. get_format_by_name lb nm reg' =
        (if same_name (f_name f) nm then Some (Some (length (global_output_formats reg)))
         else get_format_by_name lb nm reg)) \<and>
        global_output_formats reg' = global_output_formats reg @ [f]) \<and>
     (err \<noteq> None \<longrightarrow> reg' = reg) \<and>
     (err = None \<longleftrightarrow> (\<forall>i. get_format_by_name lb (f_name f) reg = Some (Some i) \<longrightarrow> can_override (global_output_formats reg ! i)))"
  by (rule register_format_ok [OF assms])

theorem format_registered_witness:
  "\<exists>reg. register_format 64 json_format initialize_output_formats = Some (reg, None) \<and>
     get_format_by_name 64 ''json'' reg = Some (Some 0) \<and> get_format_by_name 64 ''XML'' reg = Some None"
proof -
  have r: "registry_ok initialize_output_formats" "length (global_output_formats initialize_output_formats) < 2 ^ 31 - 2"
    "length (global_output_formats initialize_output_formats) = 0" "get_format_by_name 64 nm initialize_output_formats = Some None" for nm
    by (simp_all add: initialize_output_formats_def registry_ok_def get_format_by_name_def)
  have s: "same_name (f_name json_format) ''json''" "\<not> same_name (f_name json_format) ''XML''" by code_simp+
  from format_registered [OF r(1,2), of 64 json_format] r(3,4) s show ?thesis by auto
qed

text \<open>
  A read operation that is not a scan is answered through the JSON format by the one row the
  results hold, and a new line.
\<close>

theorem JSON_row_written:
  assumes "env_ok en" and "\<not> d_scanop d" and "json_row en d (row_at api cur) = Some t"
    and "int (length (t @ [NL])) < limit"
  shows "\<exists>c' rb'. build_results (Suc (Suc (Suc k))) en api json_cells d json_compiled cur rb = Some (HTTP_OK, c', rb') \<and>
     holds rb' (t @ [NL])"
  by (rule json_row_page [OF assms])

theorem JSON_row_written_witness:
  "\<exists>c' rb'. build_results 3 sample_env list_scan json_cells (sample_operation False) json_compiled
       ([int_result ''id'' 7, int_result ''age'' 30], [], []) (no_buffer 0) = Some (HTTP_OK, c', rb') \<and>
     buffer_text rb' = Some ('' { '' @ DQ # ''id'' @ DQ # '':7 , '' @ DQ # ''age'' @ DQ # '':30 }'' @ [NL])"
proof -
  have t: "json_row sample_env (sample_operation False) (row_at list_scan ([int_result ''id'' 7, int_result ''age'' 30], [], [])) =
      Some ('' { '' @ DQ # ''id'' @ DQ # '':7 , '' @ DQ # ''age'' @ DQ # '':30 }'')"
    by (simp add: list_scan_def sample_row [OF int_result_json int_result_json] sample_numbers)
  have s: "\<not> d_scanop (sample_operation False)" by (simp add: sample_operation_def)
  have three: "(3::nat) = Suc (Suc (Suc 0))" by simp
  from JSON_row_written [OF sample_env_ok s t, of 0 "no_buffer 0"] show ?thesis
    unfolding three by (auto simp: limit_def dest: holds_text)
qed

subsection \<open>Encodings\<close>

text \<open>
  C36: the JSON unescaping, which rewrites the string in place, computes the function that reads the
  escapes from left to right: it returns the length of the result, leaves the size of the memory
  alone, and the result stands at its start, terminated.
\<close>

theorem JSON_unescape_computes:
  assumes "unescaped s 0 = Some t" and "CHR 0x00 \<notin> set s"
  shows "\<exists>str'. JSON_unescape (s @ CHR 0x00 # junk) = Some (str', int (length t)) \<and>
     length str' = length (s @ CHR 0x00 # junk) \<and> take (length t) str' = t \<and> c_str (drop (length t) str') = []"
  by (rule JSON_unescape_ok [OF assms])

theorem JSON_unescape_computes_witness:
  "\<exists>str. JSON_unescape (''a'' @ CHR 0x5C # ''u0041'' @ CHR 0x5C # ''n!'' @ [CHR 0x00]) = Some (str, 4) \<and>
     take 4 str = ''aA'' @ CHR 0x0A # ''!''"
proof -
  let ?s = "''a'' @ CHR 0x5C # ''u0041'' @ CHR 0x5C # ''n!''"
  have "unescaped ?s 0 = Some (''aA'' @ CHR 0x0A # ''!'')" by code_simp
  moreover have "CHR 0x00 \<notin> set ?s" by simp
  moreover have "length (''aA'' @ CHR 0x0A # ''!'') = 4" by simp
  ultimately obtain str where "JSON_unescape (?s @ [CHR 0x00]) = Some (str, int 4)" "take 4 str = ''aA'' @ CHR 0x0A # ''!''"
    using JSON_unescape_computes [of ?s "''aA'' @ CHR 0x0A # ''!''" "[]"] by metis
  then show ?thesis by simp
qed

text \<open>
  C37: what the output escapes, the input reads back: a JSON string token made of an escaped text is
  read as that text, whatever characters it holds.
\<close>

theorem JSON_escape_round_trip:
  assumes "tok = 0x22 # map of_char (escaped escape_leaning_toothpicks s) @ [0x22]"
  shows "\<exists>ls. JSON_blob tok = Some ls \<and> ls_len ls = length s \<and> take (ls_len ls) (ls_string ls) = s"
  by (rule JSON_blob_escaped [OF assms])

theorem JSON_escape_round_trip_witness:
  "\<exists>ls. JSON_blob (0x22 # map of_char (escaped escape_leaning_toothpicks (''a'' @ CHR 0x22 # CHR 0x0A # ''b'')) @ [0x22]) = Some ls \<and>
     ls_len ls = 4 \<and> take 4 (ls_string ls) = ''a'' @ CHR 0x22 # CHR 0x0A # ''b''"
proof -
  have "length (''a'' @ CHR 0x22 # CHR 0x0A # ''b'') = 4" by simp
  then show ?thesis using JSON_escape_round_trip [OF refl, of "''a'' @ CHR 0x22 # CHR 0x0A # ''b''"] by metis
qed

text \<open>
  Escaping a text of 7-bit characters returns and appends the escapes of its characters, one after
  the other, to whatever the buffer holds, for every table of the program.
\<close>

theorem escape_string_appends:
  assumes "get_escapes e = Some t" and "ascii s" and "holds rb u" and "\<forall>n. grant n"
    and "rb_sz rb + int (length (escaped t s)) < 2 ^ 31 - 1"
  shows "\<exists>rb'. escape_string grant s rb t = Some rb' \<and> holds rb' (u @ escaped t s)"
  by (rule escape_string_ok [OF get_escapes_ok [OF assms(1)] assms(2-5)])

theorem escape_string_appends_witness:
  "\<exists>rb. escape_string (\<lambda>_. True) ''a<b'' fresh_page escape_xml_entities = Some rb \<and> holds rb ''a&lt;b''"
proof -
  have g: "get_escapes esc_xml = Some escape_xml_entities" by (simp add: get_escapes_def)
  have e: "escaped escape_xml_entities ''a<b'' = ''a&lt;b''" "ascii ''a<b''"
    by (simp_all add: escaped_def escaped_char_xml xml_char_def ascii_def)
  from escape_string_appends [OF g e(2) fresh_page_holds(1), of "\<lambda>_. True"] fresh_page_holds(2) e(1) show ?thesis by simp
qed

subsection \<open>Values\<close>

text \<open>
  C38: every number in the range of an integer column survives the way into the database and out:
  the decimal text is stored as the number, and the output prints the same text.
\<close>

theorem integer_round_trip:
  assumes "platform_ok pf" and "full_range (nc_type col) = Some (lo, hi)" and "lo \<le> z" and "z \<le> hi"
    and "holds rb t" and "\<forall>n. grant n"
  shows "\<exists>m'. MySQL_value pf m (Some col) (Some (fmt_d z)) = Some m' \<and> stored_int (nc_type col) (mv_u m') = z \<and>
     (\<exists>rb'. result_out pf pr grant (read_back m' col bytes) rb escapes = Some rb' \<and> holds rb' (t @ fmt_d z))"
proof -
  from value_int_stored [OF assms(1-4)] obtain m' where
    m: "MySQL_value pf m (Some col) (Some (fmt_d z)) = Some m'" "stored_int (nc_type col) (mv_u m') = z" by blast
  from result_int [OF assms(2) m(2) assms(3-6)] m show ?thesis by blast
qed

theorem integer_round_trip_witness:
  "\<exists>m'. MySQL_value (e_platform sample_env) zero_mvalue (Some (sample_column Col_Bigint 8)) (Some (fmt_d (-9000000000))) = Some m' \<and>
     (\<exists>rb. result_out (e_platform sample_env) (e_printers sample_env) (\<lambda>_. True) (read_back m' (sample_column Col_Bigint 8) [])
       fresh_page None = Some rb \<and> holds rb (fmt_d (-9000000000)))"
proof -
  have "full_range (nc_type (sample_column Col_Bigint 8)) = Some (- (2 ^ 63), 2 ^ 63 - 1)" by (simp add: full_range_def)
  from integer_round_trip [OF sample_platform_ok this _ _ fresh_page_holds(1), of "-9000000000" "\<lambda>_. True"]
  show ?thesis by fastforce
qed

text \<open>
  A number outside the range of a small integer column is replaced by the nearer end of the range
  and marked as overflown; the value stays usable.
\<close>

theorem small_integers_clamped:
  assumes "int_range (nc_type col) = Some (lo, hi)" and "to_int (strtol (long_bits pf) 0 typed) = a"
    and "take 1 typed \<noteq> ''@''"
  shows "\<exists>m'. MySQL_value pf m (Some col) (Some typed) = Some m' \<and>
     stored_int (nc_type col) (mv_u m') = max lo (min hi a) \<and> (over m' \<longleftrightarrow> over m \<or> a < lo \<or> hi < a) \<and>
     mval_is_usable m' = Some True"
  by (rule value_small_stored [OF assms])

theorem small_integers_clamped_witness:
  "\<exists>m'. MySQL_value (e_platform sample_env) zero_mvalue (Some (sample_column Col_Tinyint 1)) (Some ''300'') = Some m' \<and>
     stored_int Col_Tinyint (mv_u m') = 127 \<and> over m'"
proof -
  have "int_range (nc_type (sample_column Col_Tinyint 1)) = Some (-128, 127)" by (simp add: int_range_def)
  moreover have "to_int (strtol (long_bits (e_platform sample_env)) 0 ''300'') = 300" by code_simp
  ultimately show ?thesis using small_integers_clamped [of "sample_column Col_Tinyint 1" "-128" 127 "e_platform sample_env" "''300''" 300 zero_mvalue]
    by auto
qed

text \<open>
  C39: a text without null bytes goes into a Varchar column and comes out cut to the length of the
  column, but its length is first taken modulo 256: a text of 256 bytes comes out empty.
\<close>

theorem varchar_kept_modulo_256:
  assumes "nc_type col = Col_Varchar" and "CHR 0x00 \<notin> set typed" and "holds rb t" and "\<forall>n. grant n"
    and "rb_sz rb + 256 < 2 ^ 31 - 1"
  shows "\<exists>m'. MySQL_value pf m (Some col) (Some typed) = Some m' \<and> mval_is_usable m' = Some True \<and>
     (\<exists>rb'. result_out pf pr grant (read_back m' col (stored_bytes (mv_u m'))) rb None = Some rb' \<and>
        holds rb' (t @ take (min (length typed mod 256) (nc_length col)) typed))"
  by (rule varchar_round_trip [OF assms])

theorem varchar_kept_modulo_256_witness:
  "\<exists>m'. MySQL_value (e_platform sample_env) zero_mvalue (Some (sample_column Col_Varchar 255)) (Some (replicate 258 (CHR ''x''))) = Some m' \<and>
     (\<exists>rb. result_out (e_platform sample_env) (e_printers sample_env) (\<lambda>_. True)
       (read_back m' (sample_column Col_Varchar 255) (stored_bytes (mv_u m'))) fresh_page None = Some rb \<and> holds rb ''xx'')"
proof -
  have t: "take (min (length (replicate 258 (CHR ''x'')) mod 256) (nc_length (sample_column Col_Varchar 255))) (replicate 258 (CHR ''x'')) = ''xx''"
    by (simp add: numeral_2_eq_2)
  have "CHR 0x00 \<notin> set (replicate 258 (CHR ''x''))" by simp
  from varchar_kept_modulo_256 [OF sample_column_simps(1) this fresh_page_holds(1), of "\<lambda>_. True" "e_platform sample_env" zero_mvalue 255] fresh_page_holds(2)
  show ?thesis using t by fastforce
qed

text \<open>C40: a time, negative ones included, is read, packed, unpacked and printed in the same form.\<close>

theorem time_kept:
  assumes "platform_ok pf" and "nc_type col = Col_Time" and "h < 839" and "mi < 60" and "s < 60"
    and "neg \<Longrightarrow> 0 < h + mi + s" and "holds rb t" and "\<forall>n. grant n"
  shows "\<exists>m'. MySQL_value pf m (Some col) (Some (signed_time neg h mi s)) = Some m' \<and> mval_is_usable m' = Some True \<and>
     (\<exists>rb'. result_out pf pr grant (read_back m' col bytes) rb escapes = Some rb' \<and> holds rb' (t @ signed_time neg h mi s))"
  by (rule time_round_trip [OF assms])

theorem time_kept_witness:
  "\<exists>m'. MySQL_value (e_platform sample_env) zero_mvalue (Some (sample_column Col_Time 3)) (Some ''-12:05:00'') = Some m' \<and>
     (\<exists>rb. result_out (e_platform sample_env) (e_printers sample_env) (\<lambda>_. True) (read_back m' (sample_column Col_Time 3) [])
       fresh_page None = Some rb \<and> holds rb ''-12:05:00'')"
proof -
  have "signed_time True 12 5 0 = ''-12:05:00''" by code_simp
  with time_kept [where h = 12 and mi = 5 and s = 0 and neg = True and m = zero_mvalue and grant = "\<lambda>_. True" and bytes = "[]"
      and escapes = None and pr = "e_printers sample_env", OF sample_platform_ok sample_column_simps(1) _ _ _ _ fresh_page_holds(1)]
  show ?thesis by fastforce
qed

text \<open>
  A text for a Char column is copied into a buffer of the length of the column and a terminating
  byte: it overflows the buffer exactly when the text is longer than the column.
\<close>

theorem char_overflow_iff:
  assumes "nc_type col = Col_Char"
  shows "MySQL_value pf m (Some col) (Some typed) = None \<longleftrightarrow> nc_length col < length typed"
  by (rule value_char_overflow [OF assms])

theorem char_overflow_iff_witness:
  "MySQL_value (e_platform sample_env) zero_mvalue (Some (sample_column Col_Char 2)) (Some ''abc'') = None \<and>
   MySQL_value (e_platform sample_env) zero_mvalue (Some (sample_column Col_Char 2)) (Some ''ab'') \<noteq> None"
  using char_overflow_iff [OF sample_column_simps(1), of "e_platform sample_env" zero_mvalue 2] by simp

subsection \<open>Whole requests and the process\<close>

text \<open>
  C1: a read by key, from the request to the answer. When an idle instance gets a request that names
  an index of its endpoint, the operation is told exactly the calls for the parts of the key and then
  one call per column of the answer, and if the transaction goes through, the row it then holds is sent
  as JSON with status 200 and its length, and the instance is idle again.
\<close>

theorem lookup_request_served:
  assumes "planned_lookup qe d src ti q a" and "json_endpoint qe d" and "\<not> is_jsonrequest (src_content_type src)"
    and "idle sv i" and "0 < max_read_operations sv" and "qe_start qe = Some tx"
    and "api_accepts (qe_op qe)" and "bound_read qe d ti q a calls"
    and "those (map (result_column ti d) [0..<n_result_cols (json_operation d ti zero_data)]) = Some cols"
    and "env_ok (qe_env qe)"
    and "exec_commit (qe_tx qe) (word_of_int (max_retry_ms sv)) 0 0 [] (i_stats i)
        (tx_blobs (qe_tx qe) (qe_attach qe (calls @ map (result_call ti) cols) tx)) = Some (True, waits, st, cur)"
    and "err_class (tx_error (qe_tx qe) cur) = NoError"
    and "json_row (qe_env qe) (json_operation d ti zero_data) (row_at (tx_scan (qe_tx qe)) cur) = Some txt"
    and "int (length (txt @ [NL])) < limit"
  shows "\<exists>out. Query (Suc (Suc (Suc n))) qe sv d src rp i = Some out \<and> o_code out = HTTP_OK \<and>
     o_reply out = page_reply (txt @ [NL]) rp \<and> idle sv (o_instance out)"
  by (rule lookup_served [OF assms])

theorem lookup_request_served_witness:
  "\<exists>out. Query 3 (sample_query_env (ndb_error_of Success NoError 0)) (sample_srv 0) lookup_dir (get_source ''a=7&b=42'') new_reply
       (idle_instance_of (sample_srv 0)) = Some out \<and>
     o_code out = HTTP_OK \<and> body (o_reply out) = '' { '' @ DQ # ''a'' @ DQ # '':7 , '' @ DQ # ''c'' @ DQ # '':30 }'' @ [NL]"
proof -
  let ?e = "ndb_error_of Success NoError 0" and ?t = "'' { '' @ DQ # ''a'' @ DQ # '':7 , '' @ DQ # ''c'' @ DQ # '':30 }''"
  let ?qe = "sample_query_env ?e"
  obtain q where q: "planned_lookup ?qe lookup_dir (get_source ''a=7&b=42'') sample_table q (Unique_access ''i'')"
    "bound_read ?qe lookup_dir sample_table q (Unique_access ''i'') lookup_calls" using lookup_planned by blast
  have j: "\<not> is_jsonrequest (src_content_type (get_source ''a=7&b=42''))" by (simp add: is_jsonrequest_def get_source_def)
  have m: "0 < max_read_operations (sample_srv 0)" by code_simp
  have c: "found_row (lookup_calls @ [Get_value 0, Get_value 2]) = [int_result ''a'' 7, int_result ''c'' 30]" by (simp add: found_row_def)
  have x: "exec_commit (qe_tx ?qe) (word_of_int (max_retry_ms (sample_srv 0))) 0 0 [] (i_stats (idle_instance_of (sample_srv 0)))
      (tx_blobs (qe_tx ?qe) (qe_attach ?qe (lookup_calls @ map (result_call sample_table) [int_column ''a'', int_column ''c'']) (0, [], [], []))) =
      Some (True, [], sample_stats, (1, [int_result ''a'' 7, int_result ''c'' 30], [], []))"
    unfolding lookup_columns(2) using c sample_commit [of ?e] by (simp add: idle_instance_of_idle ndb_error_of_def)
  have e: "err_class (tx_error (qe_tx ?qe) (1, [int_result ''a'' 7, int_result ''c'' 30], [], [])) = NoError"
    by (simp add: ndb_error_of_def)
  have r: "json_row (qe_env ?qe) (json_operation lookup_dir sample_table zero_data)
      (row_at (tx_scan (qe_tx ?qe)) (1, [int_result ''a'' 7, int_result ''c'' 30], [], [])) = Some ?t"
    by (simp add: lookup_row) (simp add: sample_tx_def list_scan_def lookup_row)
  have o: "api_accepts (qe_op ?qe)" "qe_start ?qe = Some (0, [], [], [])" "env_ok (qe_env ?qe)"
    by (simp_all add: sample_op_api_accepts sample_env_ok)
  have three: "(3::nat) = Suc (Suc (Suc 0))" by simp
  from lookup_request_served [OF q(1) lookup_endpoint j idle_instance_of_idle(1) m o(2,1) q(2) lookup_columns(1) o(3) x e r, of 0 new_reply]
  show ?thesis unfolding three by (auto simp: limit_def page_reply_def new_reply_def)
qed

text \<open>
  C18: an insert. When an idle instance gets a POST for a new row and the form gives values for columns
  that may be written, the operation is told to insert a row and to set exactly these values in the order
  of the configuration; if the transaction goes through the answer is 204 without content, and the
  instance is idle again.
\<close>

theorem insert_request_served:
  assumes "planned_insert qe d src ti ms" and "idle sv i" and "qe_start qe = Some tx" and "api_accepts (qe_op qe)"
    and "set_calls ti ms \<noteq> []" and "\<not> is_jsonrequest (src_content_type src)"
    and "exec_commit (qe_tx qe) (word_of_int (max_retry_ms sv)) 0 0 [] (i_stats i)
        (tx_blobs (qe_tx qe) (qe_attach qe (Insert_tuple # set_calls ti ms) tx)) = Some (True, waits, st, cur)"
    and "err_class (tx_error (qe_tx qe) cur) = NoError"
  shows "\<exists>out. Query depth qe sv d src r i = Some out \<and> o_code out = 204 \<and> o_reply out = r\<lparr>content_length := Some 0\<rparr> \<and>
     idle sv (o_instance out)"
  by (rule insert_served [OF assms])

theorem insert_request_served_witness:
  "\<exists>out. Query 0 (sample_query_env (ndb_error_of Success NoError 0)) (sample_srv 0) lookup_dir
       (post_source [(''c'', ''5''), (''x'', ''1'')]) new_reply (idle_instance_of (sample_srv 0)) = Some out \<and>
     o_code out = 204 \<and> idle (sample_srv 0) (o_instance out)"
proof -
  let ?e = "ndb_error_of Success NoError 0" and ?src = "post_source [(''c'', ''5''), (''x'', ''1'')]"
  let ?qe = "sample_query_env ?e"
  obtain ms where ms: "planned_insert ?qe lookup_dir ?src sample_table ms" "set_calls sample_table ms = [Set_value 2 (U_signed 5)]"
    using insert_planned(1) by blast
  have n: "set_calls sample_table ms \<noteq> []" "\<not> is_jsonrequest (src_content_type ?src)"
    by (simp_all add: ms(2)) (simp add: is_jsonrequest_def post_source_def)
  have x: "exec_commit (qe_tx ?qe) (word_of_int (max_retry_ms (sample_srv 0))) 0 0 [] (i_stats (idle_instance_of (sample_srv 0)))
      (tx_blobs (qe_tx ?qe) (qe_attach ?qe (Insert_tuple # set_calls sample_table ms) (0, [], [], []))) =
      Some (True, [], sample_stats, (1, found_row (Insert_tuple # set_calls sample_table ms), [], []))"
    using sample_commit [of ?e] by (simp add: idle_instance_of_idle ndb_error_of_def)
  have e: "err_class (tx_error (qe_tx ?qe) (1, found_row (Insert_tuple # set_calls sample_table ms), [], [])) = NoError"
    by (simp add: ndb_error_of_def)
  have o: "api_accepts (qe_op ?qe)" "qe_start ?qe = Some (0, [], [], [])" by (simp_all add: sample_op_api_accepts)
  from insert_request_served [OF ms(1) idle_instance_of_idle(1) o(2,1) n x e, of 0 new_reply] show ?thesis by blast
qed

text \<open>
  An insert whose form names no column that may be written never reaches the database: the request
  ends with the status 1, which is no HTTP status, and without a document.
\<close>

theorem insert_of_nothing:
  assumes "planned_insert qe d src ti ms" and "idle sv i" and "qe_start qe = Some tx" and "api_accepts (qe_op qe)"
    and "set_calls ti ms = []"
  shows "\<exists>i'. Query depth qe sv d src r i = Some (answer 1 r i') \<and> idle sv i'"
  by (rule insert_nothing [OF assms])

theorem insert_of_nothing_witness:
  "\<exists>i'. Query 0 (sample_query_env (ndb_error_of Success NoError 0)) (sample_srv 0) lookup_dir (post_source [(''x'', ''1'')]) new_reply
     (idle_instance_of (sample_srv 0)) = Some (answer 1 new_reply i')"
proof -
  let ?qe = "sample_query_env (ndb_error_of Success NoError 0)"
  obtain ms where ms: "planned_insert ?qe lookup_dir (post_source [(''x'', ''1'')]) sample_table ms" "set_calls sample_table ms = []"
    using insert_planned(2) by blast
  have o: "api_accepts (qe_op ?qe)" "qe_start ?qe = Some (0, [], [], [])" by (simp_all add: sample_op_api_accepts)
  from insert_of_nothing [OF ms(1) idle_instance_of_idle(1) o(2,1) ms(2)] show ?thesis by blast
qed

text \<open>
  C22: in every state a child process reaches by serving requests of any kind, subrequests and batches
  included, the table has one instance per thread, and every instance has its full array of operations,
  of which those not in use are zero.
\<close>

theorem process_stays_in_order:
  assumes "reachable ok capi m sv p"
  shows "length (instances p) = nat (threads m) \<and>
     (\<forall>s\<in>set (instances p). server_config s = sv \<and> instance_ok sv (the_instance s))"
  using reachable_ok [OF assms] by (simp add: process_ok_def)

theorem process_stays_in_order_witness:
  "\<exists>p :: sample_tx process. reachable (\<lambda>(qe :: (unit, sample_tx) query_env) h. True) calm_cluster (two_threads 2) (sample_srv 0) p \<and>
     length (instances p) = 2"
proof -
  obtain p :: "sample_tx process" where p: "reachable (\<lambda>(qe :: (unit, sample_tx) query_env) h. True) calm_cluster (two_threads 2) (sample_srv 0) p"
    using calm_start by blast
  have "threads (two_threads 2) = 2" by (simp add: threads_def two_threads_def)
  with process_stays_in_order [OF p] p show ?thesis by auto
qed

text \<open>
  C17: while a child process serves no subrequests, every instance is idle between two requests, so that
  a read always finds a free slot of operations: it is never refused for too many read operations.
\<close>

theorem reads_find_slot:
  fixes capi :: cluster_api and p :: "'c process"
  assumes "reachable (main_request :: ('f, 'c) query_env \<Rightarrow> http_request \<Rightarrow> bool) capi m sv p" and "0 < max_read_operations sv"
  shows "\<forall>s\<in>set (instances p). idle sv (the_instance s) \<and> slot_free sv (the_instance s)"
  using reachable_idle [OF assms(1)] idle_slot [OF _ assms(2)] unfolding process_ok_def by blast

theorem reads_find_slot_witness:
  "\<exists>p :: sample_tx process. reachable (main_request :: (unit, sample_tx) query_env \<Rightarrow> http_request \<Rightarrow> bool) calm_cluster (two_threads 2) (sample_srv 0) p \<and>
     (\<forall>s\<in>set (instances p). slot_free (sample_srv 0) (the_instance s))"
proof -
  obtain p :: "sample_tx process" where
    p: "reachable (main_request :: (unit, sample_tx) query_env \<Rightarrow> http_request \<Rightarrow> bool) calm_cluster (two_threads 2) (sample_srv 0) p"
    using calm_start by blast
  have "0 < max_read_operations (sample_srv 0)" by code_simp
  from reads_find_slot [OF p this] p show ?thesis by blast
qed

text \<open>
  C24: no two threads of a child share an instance: Apache numbers the connection of thread \<open>t\<close> of child
  \<open>n\<close> as \<open>n\<close> times the hard limit of threads plus \<open>t\<close>, and for such a number the look-up gives entry \<open>t\<close> of
  the table and changes nothing.
\<close>

theorem thread_gets_own_instance:
  fixes p :: "'c process" and ok :: "('f, 'c) query_env \<Rightarrow> http_request \<Rightarrow> bool"
  assumes "reachable ok capi m sv p" and "connected p" and "mpm_threaded m" and "0 \<le> child"
    and "0 \<le> t" and "t < mpm_max_threads m" and "mpm_max_threads m \<le> mpm_hard_limit_threads m"
  shows "my_instance capi (child * mpm_hard_limit_threads m + t) p = Some (Some t, p)"
  by (rule my_instance_thread [OF reachable_ok [OF assms(1)] assms(2-7)])

theorem thread_gets_own_instance_witness:
  "\<exists>p :: sample_tx process. reachable (\<lambda>(qe :: (unit, sample_tx) query_env) h. True) calm_cluster (two_threads 3) (sample_srv 0) p \<and>
     my_instance calm_cluster 7 p = Some (Some 1, p)"
proof -
  obtain p :: "sample_tx process" where p: "reachable (\<lambda>(qe :: (unit, sample_tx) query_env) h. True) calm_cluster (two_threads 3) (sample_srv 0) p"
    "connected p" using calm_start by blast
  have h: "mpm_threaded (two_threads 3)" "mpm_max_threads (two_threads 3) = 2" "mpm_hard_limit_threads (two_threads 3) = 3"
    by (simp_all add: two_threads_def)
  from thread_gets_own_instance [OF p h(1), of 2 1] h p(1) show ?thesis by auto
qed

text \<open>
  When the cluster cannot be reached as a child starts, a later request makes a new connection, but
  the instances keep the \<open>Ndb\<close> objects of the first connection, which never became ready.
\<close>

theorem late_connection_unused:
  assumes "mod_ndb_child_init capi m sv p0 = Some p" and "\<not> connected p" and "my_instance capi conn_id p = Some (Some (int n), p1)"
  shows "connected p1 \<and> connection p1 = Some (Suc (n_made p0)) \<and> i_db (instances p1 ! n) \<in> {None, Some (n_made p0)}"
  using late_connection [OF assms] by blast

theorem late_connection_unused_witness:
  "\<exists>(p :: sample_tx process) p1. mod_ndb_child_init late_cluster (two_threads 2) (sample_srv 0) new_process = Some p \<and>
     my_instance late_cluster 1 p = Some (Some 1, p1) \<and> connection p1 = Some 1 \<and> i_db (instances p1 ! 1) = Some 0"
proof -
  obtain p p1 :: "sample_tx process" where p: "mod_ndb_child_init late_cluster (two_threads 2) (sample_srv 0) new_process = Some p"
    "\<not> connected p" "my_instance late_cluster 1 p = Some (Some (int 1), p1)" "i_db (instances p1 ! 1) \<noteq> None"
    using late_start [of "sample_srv 0"] by blast
  have "n_made (new_process :: sample_tx process) = 0" by (simp add: new_process_def)
  with late_connection_unused [OF p(1-3)] p show ?thesis by auto
qed

text \<open>
  C26: connecting to the cluster ends after at most five attempts if the NDB API reports success, a
  permanent or a temporary error, as documented; it goes on after temporary errors only and succeeds
  exactly if its last attempt does.
\<close>

theorem connecting_ends:
  assumes "connect_law capi"
  shows "\<exists>ok n. connect_loop (connect_rc capi c) 0 = Some (ok, n) \<and> 0 < n \<and> n \<le> 5 \<and> (ok \<longleftrightarrow> connect_rc capi c n = 0) \<and>
     (\<forall>j. 0 < j \<and> j < n \<longrightarrow> connect_rc capi c j = 1)"
  using connect_loop_returns [of "connect_rc capi c" 0] assms by (simp add: connect_law_def)

theorem connecting_ends_witness:
  "\<exists>ok n. connect_loop (connect_rc late_cluster 0) 0 = Some (ok, n) \<and> \<not> ok \<and> n \<le> 5"
proof -
  have "connect_law late_cluster" by (simp add: connect_law_def late_cluster_def)
  from connecting_ends [OF this, of 0] show ?thesis by (auto simp: late_cluster_def)
qed

subsection \<open>Formats as text\<close>

text \<open>
  C35: a format whose names are plain words and whose descriptions have no backslash survives being dumped
  and read back: if the dump fits into the buffer, it is written, and the lines of it define a format of
  the same name with the same description of every node and of the whole.
\<close>

theorem dumped_format_read_back:
  assumes "getword_conf_law gw" and "dumpable f" and "holds rb []" and "int (length (source_text f)) < alloc_sz rb"
  shows "\<exists>rb' f'. dump_source grant f rb = Some rb' \<and> holds rb' (source_text f) \<and>
     container_lines gw (f_name f) (tl (cfg_lines (source_text f))) (new_format (f_name f)) = Inr f' \<and>
     meaning f' = meaning f \<and>
     map_option (\<lambda>a. node_def (f_nodes f' ! a)) (top_node f') = map_option (\<lambda>a. node_def (f_nodes f ! a)) (top_node f)"
proof -
  obtain a where "format_ok f" "\<not> is_raw f" "top_node f = Some a" "symbol f ''_main'' = Some a"
    using assms(2) by (auto simp: dumpable_def)
  from fits_dump_source [OF this(1-3), of grant] symbol_Some [OF this(4)] assms(3,4) have
    "\<exists>rb'. dump_source grant f rb = Some rb' \<and> holds rb' (source_text f)" by (auto elim!: fitsE)
  with dump_read_back [OF assms(1,2)] show ?thesis by blast
qed

theorem dumped_format_read_back_witness:
  "\<exists>rb' f'. dump_source (\<lambda>_. True) json_format fresh_page = Some rb' \<and> holds rb' (source_text json_format) \<and>
     container_lines getword_conf_fn ''JSON'' (tl (cfg_lines (source_text json_format))) (new_format ''JSON'') = Inr f' \<and>
     meaning f' ''scan'' = Some (Scan_loop, ''['' @ NL # '' $row$,'' @ NL # '' ... '' @ NL # '']'', None)"
proof -
  have l: "int (length (source_text json_format)) < alloc_sz fresh_page" by (simp add: fresh_page_def init_def) code_simp
  have m: "meaning json_format ''scan'' = Some (Scan_loop, ''['' @ NL # '' $row$,'' @ NL # '' ... '' @ NL # '']'', None)" by code_simp
  have n: "f_name json_format = ''JSON''" by code_simp
  from dumped_format_read_back [OF getword_conf_fn_law json_format_dumpable fresh_page_holds(1) l, of "\<lambda>_. True"] m n
  show ?thesis by auto
qed

text \<open>
  The description of a format is dumped character by character without a test of the room: one
  that has no line break and is as long as the buffer is written behind its end, whatever the allocator
  grants.
\<close>

theorem long_format_dump_overflows:
  assumes "\<not> is_raw f" and "top_node f = Some a" and "a < length (f_nodes f)" and "n_class (f_nodes f ! a) = Main_loop"
    and "NL \<notin> set (unresolved (f_nodes f ! a))" and "alloc_sz rb \<le> int (length (unresolved (f_nodes f ! a)))"
    and "holds rb []" and "int (length (source_head f @ node_head (f_name f) (f_nodes f ! a))) < alloc_sz rb"
  shows "dump_source grant f rb = None"
  by (rule long_format_overflows [OF assms])

theorem long_format_dump_overflows_witness:
  "dump_source (\<lambda>_. True) (add_main (replicate 8192 (CHR ''x'')) (new_format ''f'')) fresh_page = None"
proof -
  let ?f = "add_main (replicate 8192 (CHR ''x'')) (new_format ''f'')"
  note m = main_new [of "replicate 8192 (CHR ''x'')" "''f''"]
  have d: "n_class (f_nodes ?f ! 1) = Main_loop" "unresolved (f_nodes ?f ! 1) = replicate 8192 (CHR ''x'')"
    using m(6) by (auto simp: node_def_def)
  have nl: "NL \<notin> set (unresolved (f_nodes ?f ! 1))" unfolding d(2) by (simp add: NL_def)
  have raw: "\<not> is_raw ?f" by (simp add: add_main_def alloc_node_def add_symbol_def new_format_def Let_def)
  have sz: "alloc_sz fresh_page = 8192" by (simp add: fresh_page_def init_def)
  have l: "alloc_sz fresh_page \<le> int (length (unresolved (f_nodes ?f ! 1)))" unfolding d(2) sz by simp
  have h: "int (length (source_head ?f @ node_head (f_name ?f) (f_nodes ?f ! 1))) < alloc_sz fresh_page"
    using d(1) m(5) sz by (simp add: source_head_def node_head_def)
  from long_format_dump_overflows [OF raw m(3,4) d(1) nl l fresh_page_holds(1) h] show ?thesis .
qed

subsection \<open>The configuration language\<close>

text \<open>
  C4: the parser of N-SQL computes the meaning of every sentence: for the tokens of a statement, spelled in any
  case, its productions with their actions do to the directory exactly what the statement says, count an
  error exactly when a routine of the configuration reports one, and crash exactly when one crashes.
\<close>

theorem query_parser_computes_meaning:
  assumes "good_statement st"
  shows "case statement_action st d of
      None \<Rightarrow> sql_parse e idx b (statement_toks sp st) d = None
    | Some (d', bad) \<Rightarrow> \<exists>q. sql_parse e idx b (statement_toks sp st) d = Some q \<and> sql_dir q = d' \<and> (err_count q = 0 \<longleftrightarrow> \<not> bad)"
  by (rule sql_parse_results [OF assms])

theorem query_parser_computes_meaning_witness:
  "\<exists>q. sql_parse (param_expr []) [] False (statement_toks id (Select (Some ((''a'', Some ''x''), [(''b'', None)])) (None, ''t'')
        (Some (One_Row (Unique_Key ''i'') (Parameter True ''b'') [Parameter False ''a''])))) blank_dir = Some q \<and> err_count q = 0 \<and>
     visible (sql_dir q) = [''a'', ''b''] \<and> aliases (sql_dir q) = [''x'', ''b''] \<and> map col_name (key_columns (sql_dir q)) = [''a'', ''b'']"
proof -
  let ?st = "Select (Some ((''a'', Some ''x''), [(''b'', None)])) (None, ''t'')
    (Some (One_Row (Unique_Key ''i'') (Parameter True ''b'') [Parameter False ''a'']))"
  have "map_option (\<lambda>(d, bad). (visible d, aliases d, map col_name (key_columns d), bad)) (statement_action ?st blank_dir) =
    Some ([''a'', ''b''], [''x'', ''b''], [''a'', ''b''], False)" by code_simp
  then obtain d' where d: "statement_action ?st blank_dir = Some (d', False)" "visible d' = [''a'', ''b'']" "aliases d' = [''x'', ''b'']"
      "map col_name (key_columns d') = [''a'', ''b'']" by (auto simp: map_option_case split: option.splits)
  have "good_statement ?st" by simp
  from query_parser_computes_meaning [OF this, where sp = id and d = blank_dir and e = "param_expr []" and idx = "[]" and b = False] show ?thesis
    unfolding d(1) option.case prod.case using d(2-4) by auto
qed



text \<open>
  C7: from the text of a query in the configuration file to the indexes: a query that fits the buffer and whose
  tokens are those of a statement with well-formed constants and new columns for which there is room is processed without a crash; the directory stays
  well formed, its indexes gain exactly the parameters of the plan, and the only error is a constant that is
  compared with a primary key or a unique index. The lines behind the semicolon stay for Apache.
\<close>

theorem query_text_configures:
  assumes "sql_ready d" and "good_statement st" and "values_ok (plan_values (statement_plan st))"
    and "fresh_columns d (params (plan_values (statement_plan st)))" and "plan_fits (statement_plan st) d"
    and "length (query_text ls) < len" and "scanner (written len (query_text ls)) = statement_toks sp st"
  shows "\<exists>d' err. sql_container scanner e idx bd len True ls d = Some (d', err, query_rest ls) \<and> sql_ready d' \<and>
    index_map d' = plan_map (statement_plan st) (index_map d) \<and> pathinfo_columns d' = pathinfo_columns d \<and>
    (err = None \<longleftrightarrow> \<not> refused_constant (statement_plan st) d)"
  by (rule container_result [where scan = scanner, OF assms])

theorem query_text_configures_witness:
  "\<exists>d'. sql_container (\<lambda>_. statement_toks id (Plan (Index_Scan (Named_Index ''ts'') [\<lparr>c_column = ''ts'', c_relop = ''>'', c_value = Parameter True ''from''\<rparr>] None)))
       (param_expr []) [] False 80 True [(''USING'', ''ordered index ts where ts > $from ;''), (''Deletes'', ''On'')] blank_dir = Some (d', None, [(''Deletes'', ''On'')]) \<and>
     index_map d' = [''ts'' \<mapsto> [''from'']]"
proof -
  let ?st = "Plan (Index_Scan (Named_Index ''ts'') [\<lparr>c_column = ''ts'', c_relop = ''>'', c_value = Parameter True ''from''\<rparr>] None)"
  let ?ls = "[(''USING'', ''ordered index ts where ts > $from ;''), (''Deletes'', ''On'')]"
  have r: "sql_ready blank_dir" using blank_dir_ok(1) by (simp add: sql_ready_def blank_dir_def new_dir_def zero_dir_def)
  have g: "good_statement ?st" "values_ok (plan_values (statement_plan ?st))" by (simp_all add: relops_def values_ok_def)
  have f: "fresh_columns blank_dir (params (plan_values (statement_plan ?st)))"
    by (simp add: params_def fresh_columns_def fresh_column_def blank_dir_ok(2))
  have f': "plan_fits (statement_plan ?st) blank_dir"
    by (simp add: plan_fits_def params_def columns_fit_def indexes_fit_def blank_dir_def new_dir_def zero_dir_def)
  have l: "length (query_text ?ls) < 80" "query_rest ?ls = [(''Deletes'', ''On'')]" by simp_all
  have p: "plan_map (statement_plan ?st) (index_map blank_dir) = [''ts'' \<mapsto> [''from'']]" "\<not> refused_constant (statement_plan ?st) blank_dir"
    by (simp_all add: plan_map_def params_def open_index_def append_col_def blank_dir_ok(2) refused_constant_def all_params_def)
  from query_text_configures [where scanner = "\<lambda>_. statement_toks id ?st" and sp = id and e = "param_expr []" and idx = "[]" and bd = False, OF r g f f' l(1) refl] show ?thesis
    unfolding l(2) p(1) using p(2) by auto
qed

text \<open>
  C31: the text of a query is copied exactly when it is shorter than the buffer, and then the lines behind it
  are kept; a longer one is written behind the buffer before its length is tested, so that the error message
  for it is never returned.
\<close>

theorem query_text_fits:
  "copy_sql_into_buffer ls (replicate len (CHR 0x00)) =
     (if length (query_text ls) < len then Some (written len (query_text ls), None, query_rest ls) else None)"
  by (rule copy_sql_result)



subsection \<open>JSON requests\<close>

text \<open>
  C15: a flat JSON object that is posted in blocks, from the bytes of the blocks to the form: when they are the tokens of an
  object of strings, numbers and truth values, quoted as the module quotes texts, with blanks and line ends anywhere
  between them, the request is accepted and the form gets exactly the members, unescaped, the last one where a
  name occurs twice; the other items of the form stay.
\<close>

theorem JSON_object_read:
  assumes "choose_reader ct = Some Jsonrequest" and "setup_rc b = HTTP_OK" and "should_block b" and "[] \<notin> set (client_blocks b)"
    and "remaining b = int n" and "sendable kxs" and "form_ok tab"
    and "map snd ps = json_toks (JObject (map member kxs))" and "json_layout ps e"
    and "map of_char (take n (concat (client_blocks b))) = laid_out ps e"
  shows "\<exists>tab'. http_get_form_data gw un (read_json_body key) M_POST ct b tab = Some (HTTP_OK, tab') \<and> form_ok tab' \<and>
    texts tab' = texts tab ++ map_of (rev (map (\<lambda>(k, x). (k, scalar_text x)) kxs))"
  by (rule posted_object_read [OF assms])

theorem JSON_object_read_witness:
  "\<exists>tab'. http_get_form_data getword_fn id (read_json_body []) M_POST (Some ''Application/JSONRequest'')
       \<lparr>setup_rc = 0, should_block = True, remaining = 9, client_blocks = [''{ '' @ [CHR 0x22] @ ''i'', ''d'' @ [CHR 0x22] @ '':7}'']\<rparr> empty_form = Some (0, tab') \<and>
     texts tab' = [''id'' \<mapsto> ''7'']"
proof -
  let ?b = "\<lparr>setup_rc = 0, should_block = True, remaining = 9, client_blocks = [''{ '' @ [CHR 0x22] @ ''i'', ''d'' @ [CHR 0x22] @ '':7}'']\<rparr>"
  let ?ps = "[([], jk ''{''), ([32], jstr (json_quoted ''id'')), ([], jk '':''), ([], \<lparr>kind = Some J_number, val = wide ''7''\<rparr>), ([], jk ''}'')]"
  have c: "choose_reader (Some ''Application/JSONRequest'') = Some Jsonrequest" by code_simp
  have b: "setup_rc ?b = HTTP_OK" "should_block ?b" "[] \<notin> set (client_blocks ?b)" "remaining ?b = int 9" by (simp_all add: HTTP_OK_def)
  have "escaped escape_leaning_toothpicks ''id'' = ''id''" by (simp add: escaped_def escaped_char_json json_char_def)
  then have q: "json_quoted ''id'' = [0x22, 0x69, 0x64, 0x22]" by (simp add: json_quoted_def wide_def)
  have "word_of json_number (wide ''7'')" unfolding after_word_word [symmetric]
    by (simp add: number_defs json_dec_def json_digit_def wide_def)
  then have m: "sendable [(''id'', Num ''7'')]" by (simp add: sendable_def q token_too_long_def HEAP_BLOCK_SIZE_def wide_def)
  have t: "map snd ?ps = json_toks (JObject (map member [(''id'', Num ''7'')]))" by (simp add: member_def)
  have y: "json_layout ?ps []" by (simp add: json_layout_def json_blank)
  have d: "map of_char (take 9 (concat (client_blocks ?b))) = laid_out ?ps []" by (simp add: q wide_def)
  from JSON_object_read [where gw = getword_fn and un = id and key = "[]", OF c b m empty_form_ok(1) t y d] show ?thesis
    by (auto simp: texts_empty HTTP_OK_def)
qed

text \<open>
  C16: the reader of JSON requests accepts exactly the texts of the grammar: if it returns, it reports no error if and
  only if the bytes of the body are scanned as the tokens of an object or an array, with none too long for the
  scanner, and then the form is the one that this text stands for.
\<close>

theorem JSON_texts_accepted:
  assumes "read_json_body key databuffer len tab = Some (tab', n_errors)"
  shows "n_errors = 0 \<longleftrightarrow> (\<exists>j. json_text j \<and> json_scan databuffer len = Some (json_toks j, False) \<and>
    map_option (\<lambda>s. snd (snd s)) (json_act j (key, None, tab)) = Some tab')"
  by (rule read_body_accepted [OF assms])

theorem JSON_texts_accepted_witness:
  "\<not> (\<exists>j. json_text j \<and> json_scan ''[true true]'' 11 = Some (json_toks j, False) \<and>
     map_option (\<lambda>s. snd (snd s)) (json_act j ([], None, empty_form)) = Some empty_form)"
proof -
  let ?ps = "[([], jk ''[''), ([], jk ''true''), ([32 :: nat], jk ''true''), ([], jk '']'')]"
  have "json_scan ''[true true]'' 11 = Some (map snd ?ps, False)"
    by (rule layout_scanned [where e = "[]"])
      (simp_all add: literal_words numbers_apart_def json_layout_def json_blank wide_def)
  then have s: "json_scan ''[true true]'' 11 = Some ([jk ''['', jk ''true'', jk ''true'', jk '']''], False)" by simp
  have "map_option snd (read_jsonrequest (\<lambda>_ _. [jk ''['', jk ''true'', jk ''true'', jk '']'']) [] [] 0 empty_form) = Some 1"
    "map_option fst (read_jsonrequest (\<lambda>_ _. [jk ''['', jk ''true'', jk ''true'', jk '']'']) [] [] 0 empty_form) = Some empty_form" by code_simp+
  then have "read_json_body [] ''[true true]'' 11 empty_form = Some (empty_form, 1)"
    unfolding read_body_scanned [OF s] by (auto simp: read_jsonrequest_def)
  from JSON_texts_accepted [OF this] show ?thesis by simp
qed

text \<open>
  C25: the scanner finds the tokens of every layout of a JSON value again: whatever blanks, tabulators and line
  ends stand between its tokens, also none, the bytes are read as exactly these tokens.
\<close>

theorem JSON_layout_scanned:
  assumes "json_words j" and "map snd ps = json_toks j" and "json_layout ps e"
    and "map of_char (take (nat len) databuffer) = laid_out ps e"
  shows "json_scan databuffer len = Some (json_toks j, False)"
  by (rule json_body_scanned [OF assms])

theorem JSON_layout_scanned_witness:
  "json_scan (''[-1.5e3,'' @ [CHR 0x0D] @ ''null]garbage'') 14 = Some (json_toks (JArray [JNumber (wide ''-1.5e3''), JNull]), False)"
proof -
  let ?j = "JArray [JNumber (wide ''-1.5e3''), JNull]"
  let ?ps = "[([], jk ''[''), ([], \<lparr>kind = Some J_number, val = wide ''-1.5e3''\<rparr>), ([], jk '',''), ([13], jk ''null''), ([], jk '']'')]"
  have "word_of json_number (wide ''-1.5e3'')" unfolding after_word_word [symmetric]
    by (simp add: number_defs json_dec_def json_digit_def wide_def)
  then have w: "json_words ?j" by (simp add: token_too_long_def HEAP_BLOCK_SIZE_def wide_def)
  have t: "map snd ?ps = json_toks ?j" by simp
  have y: "json_layout ?ps []" by (simp add: json_layout_def json_blank)
  have d: "map of_char (take (nat 14) (''[-1.5e3,'' @ [CHR 0x0D] @ ''null]garbage'')) = laid_out ?ps []" by (simp add: wide_def)
  show ?thesis by (rule JSON_layout_scanned [OF w t y d])
qed

text \<open>
  C29: three kinds of bodies end the child process, and with it every request it serves: an object in which a member after
  any that are strings, numbers or truth values is \<open>null\<close>; a body that begins with the first byte of the mark of UTF-8 and
  not with the mark; and an object whose first name is too long for a block of the heap of the scanner.
\<close>

theorem JSON_bodies_crash:
  assumes "choose_reader ct = Some Jsonrequest" and "setup_rc b = HTTP_OK" and "should_block b" and "[] \<notin> set (client_blocks b)"
    and "remaining b = int n" and "ends_process (map of_char (take n (concat (client_blocks b))))" and "form_ok tab"
  shows "http_get_form_data gw un (read_json_body key) M_POST ct b tab = None"
  by (rule posted_body_ends_process [OF assms])

theorem JSON_bodies_crash_witness:
  "http_get_form_data getword_fn id (read_json_body []) M_POST (Some ''application/jsonrequest'')
     \<lparr>setup_rc = 0, should_block = True, remaining = 3, client_blocks = [[CHR 0xEF] @ ''{}'']\<rparr> empty_form = None"
proof -
  let ?b = "\<lparr>setup_rc = 0, should_block = True, remaining = 3, client_blocks = [[CHR 0xEF] @ ''{}'']\<rparr>"
  have c: "choose_reader (Some ''application/jsonrequest'') = Some Jsonrequest" by code_simp
  have b: "setup_rc ?b = HTTP_OK" "should_block ?b" "[] \<notin> set (client_blocks ?b)" "remaining ?b = int 3" by (simp_all add: HTTP_OK_def)
  have "ends_process (0xEF # wide ''{}'')" by (rule ends_process.bad_mark) (simp add: wide_def)
  then have e: "ends_process (map of_char (take 3 (concat (client_blocks ?b))))" by (simp add: wide_def)
  show ?thesis by (rule JSON_bodies_crash [OF c b e empty_form_ok(1)])
qed

text \<open>
  A null crashes the child, whatever scanner delivers the tokens: the reader dereferences a null pointer when it stores
  the pair.
\<close>

theorem JSON_null_crashes:
  assumes "members_ok kxs" and "form_ok tab" and "scanner buf n = json_toks (JObject (map member kxs @ (w, JNull) # others))"
  shows "read_jsonrequest scanner key buf n tab = None"
  by (rule null_member_crashes [where scan = scanner, OF assms])

theorem JSON_null_crashes_witness:
  "read_jsonrequest (\<lambda>_ _. [jk ''{'', jstr (json_quoted ''a''), jk '':'', jk ''true'', jk '','', jstr (json_quoted ''b''), jk '':'', jk ''null'', jk ''}'']) [] [] 0 empty_form = None"
proof -
  have "members_ok [(''a'', Flag True)]" by (simp add: members_ok_def)
  from JSON_null_crashes [OF this empty_form_ok(1), where scanner = "\<lambda>_ _. json_toks (JObject (map member [(''a'', Flag True)] @ [(json_quoted ''b'', JNull)]))"
      and buf = "[]" and n = 0 and w = "json_quoted ''b''" and others = "[]" and key = "[]"] show ?thesis
    by (simp add: member_def)
qed

text \<open>
  C30: the reader ends on every body, well formed or not: with fuel for three steps a token and one more the
  productions come to an end, and what they come to, a table with a count of errors or a crash, is the outcome of the reader.
\<close>

theorem JSON_reader_ends:
  assumes "3 * length (scanner buf len) + 1 \<le> n"
  shows "map_option (map_option (\<lambda>q. (json_form q, err_count q))) (json_parse_fuel n key (scanner buf len) tab) =
    Some (read_jsonrequest scanner key buf len tab)"
  by (simp add: json_parse_ends [OF assms] read_jsonrequest_def)

theorem JSON_reader_ends_witness:
  "read_jsonrequest (\<lambda>_ _. [jk ''['', jk '','', jk ''['']) [] [] 0 empty_form = Some (empty_form, 1)"
proof -
  let ?ts = "[jk ''['', jk '','', jk ''['']"
  have n: "3 * length ?ts + 1 \<le> 10" by simp
  have "map_option (map_option (\<lambda>q. (json_form q, err_count q))) (json_parse_fuel 10 [] ?ts empty_form) = Some (Some (empty_form, 1))"
    by code_simp
  with JSON_reader_ends [where scanner = "\<lambda>_ _. ?ts" and n = 10 and key = "[]" and tab = empty_form, OF n]
  show ?thesis by simp
qed

text \<open>
  Nesting is lost: the members of an object that is the value of a member become members of the
  request, and the name of the outer member, overwritten by those inside, never gets a value.
\<close>

theorem JSON_nested_object_flattened:
  assumes "members_ok kxs" and "members_ok inner" and "members_ok others" and "inner \<noteq> []" and "CHR 0x00 \<notin> set k"
    and "form_ok tab"
    and "scanner buf n = json_toks (JObject (map member kxs @ (json_quoted k, JObject (map member inner)) # map member others))"
  shows "\<exists>tab'. read_jsonrequest scanner key buf n tab = Some (tab', 0) \<and>
    texts tab' = texts tab ++ map_of (rev (map (\<lambda>(k, x). (k, scalar_text x)) (kxs @ inner @ others)))"
  by (rule nested_object_flattened [where scan = scanner, OF assms])

theorem JSON_nested_object_flattened_witness:
  "\<exists>tab'. read_jsonrequest (\<lambda>_ _. json_toks (JObject [(json_quoted ''at'', JObject [member (''id'', Num ''7'')])])) [] [] 0 empty_form = Some (tab', 0) \<and>
     texts tab' = [''id'' \<mapsto> ''7'']"
proof -
  have m: "members_ok []" "members_ok [(''id'', Num ''7'')]" by (simp_all add: members_ok_def bare_word_def)
  have k: "[(''id'', Num ''7'')] \<noteq> []" "CHR 0x00 \<notin> set ''at''" by simp_all
  from JSON_nested_object_flattened [OF m(1) m(2) m(1) k empty_form_ok(1),
      where scanner = "\<lambda>_ _. json_toks (JObject [(json_quoted ''at'', JObject [member (''id'', Num ''7'')])])" and buf = "[]" and n = 0 and key = "[]"]
  show ?thesis by (auto simp: texts_empty)
qed

subsection \<open>The cluster comes back\<close>

text \<open>
  C23: a child that starts while the cluster is down tries to connect with every request; from the first
  connection on that the cluster answers, every request of its threads gets an instance.
\<close>

theorem requests_eventually_served:
  assumes "mod_ndb_child_init api m sv p0 = Some p" and "connect_law api" and "\<forall>cid\<in>set ids. own_number m cid" and "\<forall>n\<ge>N. answers_20 api n"
  shows "\<exists>as p'. run_requests (my_instance api) ids p = Some (as, p') \<and> length as = length ids \<and>
    (\<forall>i<length ids. N \<le> n_made p + i \<longrightarrow> as ! i \<noteq> None)"
  by (rule child_served [OF assms])

theorem requests_eventually_served_witness:
  "\<exists>(p :: sample_tx process) as p'. mod_ndb_child_init (calm_cluster\<lparr>connect_rc := (\<lambda>c _. if c < 3 then -1 else 0)\<rparr>) (two_threads 2) (sample_srv 0) new_process = Some p \<and>
     run_requests (my_instance (calm_cluster\<lparr>connect_rc := (\<lambda>c _. if c < 3 then -1 else 0)\<rparr>)) [0, 1, 1, 0] p = Some (as, p') \<and>
     as ! 2 \<noteq> None \<and> as ! 3 \<noteq> None"
proof -
  let ?api = "calm_cluster\<lparr>connect_rc := (\<lambda>c _. if c < 3 then -1 else 0)\<rparr>"
  have l: "connect_law ?api" by (simp add: connect_law_def)
  have a: "\<forall>n\<ge>3. answers_20 ?api n"
    by (auto simp: answers_20_def calm_cluster_def connect_loop.simps Let_def)
  have o: "\<forall>cid\<in>set [0, 1, 1, 0]. own_number (two_threads 2) cid"
    by (auto simp: own_number_def two_threads_def intro: exI [of _ 0])
  obtain p :: "sample_tx process" where p: "mod_ndb_child_init ?api (two_threads 2) (sample_srv 0) new_process = Some p" and n: "n_made p = 1"
    by (rule child_starts [OF l, of "two_threads 2" "sample_srv 0" new_process]) (simp add: new_process_def)
  from requests_eventually_served [OF p l o a] obtain as p' where
    "run_requests (my_instance ?api) [0, 1, 1, 0] p = Some (as, p')" "\<forall>i<4. 3 \<le> n_made p + i \<longrightarrow> as ! i \<noteq> None" by auto
  with p n show ?thesis by auto
qed

end
